(* ===== verification/Lasterm_Prelude.thy ===== *)
theory Lasterm_Prelude
  imports Main "HOL-Library.Word"
begin

text \<open>
  Shared vocabulary of the development: the types every component names, the fact
  collections the component proofs draw on, the JavaScript \<open>Map\<close> and \<open>Set\<close> as
  insertion-ordered lists, and the two interfaces most components share: a keyed store
  (\<open>map_store\<close>) and a state machine with an invariant (\<open>event_machine\<close>).
\<close>

section \<open>Types and fact collections\<close>

type_synonym byte = "8 word"
type_synonym client_id = string
type_synonym channel_id = string
type_synonym session_id = string
type_synonym host_id = string

named_theorems jmap_simps \<open>lookups after updates of a JavaScript Map\<close>
named_theorems inv_intros \<open>operations that keep a component's invariant\<close>

text \<open>The one character of user texts that is not ASCII: three dots, in UTF-8.\<close>

definition ellipsis :: string where
  "ellipsis = [CHR 0xE2, CHR 0x80, CHR 0xA6]"

section \<open>Lists\<close>

lemma foldl_inv:
  assumes "P s" and "\<And>s x. x \<in> set xs \<Longrightarrow> P s \<Longrightarrow> P (f s x)"
  shows "P (foldl f s xs)"
  using assms by (induction xs arbitrary: s) auto

lemma foldl_eq:
  assumes "\<And>s x. x \<in> set xs \<Longrightarrow> g (f s x) = g s"
  shows "g (foldl f s xs) = g s"
  using assms by (induction xs arbitrary: s) auto

lemma take_drop_append_exact:
  "length a = n \<Longrightarrow> take n (a @ b) = a"
  "length a = n \<Longrightarrow> drop n (a @ b) = b"
  by auto

lemma in_map_filter: "y \<in> set (List.map_filter f xs) \<longleftrightarrow> (\<exists>x \<in> set xs. f x = Some y)"
  by (induction xs) (auto simp: map_filter_simps split: option.split)

section \<open>JavaScript Map: keys in insertion order\<close>

text \<open>
  A \<open>Map\<close> (and a plain object used as one) iterates its keys in the order they were first
  inserted. \<open>set\<close> on a key already there keeps its place; \<open>delete\<close> removes it.
\<close>

type_synonym ('k, 'v) jmap = "('k \<times> 'v) list"

definition map_get :: "('k, 'v) jmap \<Rightarrow> 'k \<Rightarrow> 'v option" where
  "map_get m k = map_of m k"

definition map_has :: "('k, 'v) jmap \<Rightarrow> 'k \<Rightarrow> bool" where
  "map_has m k = (map_get m k \<noteq> None)"

fun map_set :: "'k \<Rightarrow> 'v \<Rightarrow> ('k, 'v) jmap \<Rightarrow> ('k, 'v) jmap" where
  "map_set k v [] = [(k, v)]"
| "map_set k v ((k', v') # m) = (if k = k' then (k', v) # m else (k', v') # map_set k v m)"

definition map_delete :: "'k \<Rightarrow> ('k, 'v) jmap \<Rightarrow> ('k, 'v) jmap" where
  "map_delete k m = filter (\<lambda>kv. fst kv \<noteq> k) m"

definition map_keys :: "('k, 'v) jmap \<Rightarrow> 'k list" where
  "map_keys m = map fst m"

definition map_ok :: "('k, 'v) jmap \<Rightarrow> bool" where
  "map_ok m = distinct (map fst m)"

lemma map_get_Nil [simp]: "map_get [] k = None"
  by (simp add: map_get_def)

lemma map_get_Cons [simp]:
  "map_get ((k', v) # m) k = (if k = k' then Some v else map_get m k)"
  by (simp add: map_get_def)

lemma map_get_map_set [simp, jmap_simps]:
  "map_get (map_set k v m) k' = (if k' = k then Some v else map_get m k')"
  by (induction k v m rule: map_set.induct) auto

lemma map_get_map_delete [simp, jmap_simps]:
  "map_get (map_delete k m) k' = (if k' = k then None else map_get m k')"
  by (induction m) (auto simp: map_delete_def)

lemma map_has_simps [simp, jmap_simps]:
  "map_has (map_set k v m) k' = (k' = k \<or> map_has m k')"
  "map_has (map_delete k m) k' = (k' \<noteq> k \<and> map_has m k')"
  "map_has [] k' = False"
  by (auto simp: map_has_def)

lemma keys_map_set: "fst ` set (map_set k v m) = insert k (fst ` set m)"
  by (induction k v m rule: map_set.induct) auto

lemma map_keys_map_set:
  "map_keys (map_set k v m) = (if k \<in> set (map_keys m) then map_keys m else map_keys m @ [k])"
  by (induction k v m rule: map_set.induct) (auto simp: map_keys_def)

lemma map_keys_map_delete: "map_keys (map_delete k m) = filter (\<lambda>k'. k' \<noteq> k) (map_keys m)"
  by (induction m) (auto simp: map_keys_def map_delete_def)

lemma set_map_keys: "set (map_keys m) = {k. map_has m k}"
  by (induction m) (auto simp: map_keys_def map_has_def)

lemma map_ok_Nil [simp]: "map_ok []"
  by (simp add: map_ok_def)

lemma map_ok_map_set [simp, inv_intros]: "map_ok m \<Longrightarrow> map_ok (map_set k v m)"
  by (induction k v m rule: map_set.induct) (auto simp: map_ok_def keys_map_set)

lemma map_ok_map_delete [simp, inv_intros]: "map_ok m \<Longrightarrow> map_ok (map_delete k m)"
  by (induction m) (auto simp: map_ok_def map_delete_def)

lemma map_get_in_set: "map_get m k = Some v \<Longrightarrow> (k, v) \<in> set m"
  by (auto simp: map_get_def dest: map_of_SomeD)

lemma in_set_map_get: "map_ok m \<Longrightarrow> (k, v) \<in> set m \<Longrightarrow> map_get m k = Some v"
  by (simp add: map_ok_def map_get_def)

lemma map_get_map: "map_get (map (\<lambda>(k, v). (k, f k v)) m) k' = map_option (f k') (map_get m k')"
  by (induction m) auto

lemma map_delete_absent: "\<not> map_has m k \<Longrightarrow> map_delete k m = m"
  by (induction m) (auto simp: map_delete_def map_has_def split: if_splits)

lemma map_set_append:
  "k \<notin> fst ` set m \<Longrightarrow> map_set k v m = m @ [(k, v)]"
  by (induction k v m rule: map_set.induct) auto

lemma map_get_filter:
  "map_ok m \<Longrightarrow> map_get (filter (\<lambda>(k, v). P v) m) k = (case map_get m k of Some v \<Rightarrow> if P v then Some v else None | None \<Rightarrow> None)"
proof (induction m)
  case (Cons kv m)
  obtain a b where kv: "kv = (a, b)" by fastforce
  then have "map_get m a = None" using Cons.prems by (auto simp: map_ok_def map_get_def map_of_eq_None_iff)
  then show ?case using Cons by (cases "k = a") (auto simp: kv map_ok_def)
qed simp

lemma map_ok_filter: "map_ok m \<Longrightarrow> map_ok (filter f m)"
  by (auto simp: map_ok_def distinct_map_filter)

section \<open>JavaScript Set: elements in insertion order\<close>

type_synonym 'a jset = "'a list"

definition set_add :: "'a \<Rightarrow> 'a jset \<Rightarrow> 'a jset" where
  "set_add x s = (if x \<in> set s then s else s @ [x])"

definition set_delete :: "'a \<Rightarrow> 'a jset \<Rightarrow> 'a jset" where
  "set_delete x s = filter (\<lambda>y. y \<noteq> x) s"

lemma set_set_add [simp]: "set (set_add x s) = insert x (set s)"
  by (auto simp: set_add_def)

lemma set_set_delete [simp]: "set (set_delete x s) = set s - {x}"
  by (auto simp: set_delete_def)

lemma distinct_set_add [simp, inv_intros]: "distinct s \<Longrightarrow> distinct (set_add x s)"
  by (simp add: set_add_def)

lemma distinct_set_delete [simp, inv_intros]: "distinct s \<Longrightarrow> distinct (set_delete x s)"
  by (simp add: set_delete_def)

section \<open>The keyed store interface\<close>

text \<open>
  What the hub's components rely on from a \<open>Map\<close>: a lookup sees the last write of its key
  and nothing else, and every update keeps the keys distinct. The folds below are the loops
  the components run over such a store.
\<close>

locale map_store =
  fixes get :: "'m \<Rightarrow> 'k \<Rightarrow> 'v option"
    and put :: "'k \<Rightarrow> 'v \<Rightarrow> 'm \<Rightarrow> 'm"
    and del :: "'k \<Rightarrow> 'm \<Rightarrow> 'm"
    and ok :: "'m \<Rightarrow> bool"
  assumes get_put: "get (put k v m) k' = (if k' = k then Some v else get m k')"
    and get_del: "get (del k m) k' = (if k' = k then None else get m k')"
    and ok_put: "ok m \<Longrightarrow> ok (put k v m)"
    and ok_del: "ok m \<Longrightarrow> ok (del k m)"
begin

lemma get_fold_del:
  "get (foldl (\<lambda>m k. del k m) m ks) k = (if k \<in> set ks then None else get m k)"
  by (induction ks arbitrary: m) (auto simp: get_del)

lemma ok_fold_del: "ok m \<Longrightarrow> ok (foldl (\<lambda>m k. del k m) m ks)"
  by (induction ks arbitrary: m) (auto simp: ok_del)

lemma get_fold_put_const:
  "get (foldl (\<lambda>m k. put k (f k) m) m ks) k = (if k \<in> set ks then Some (f k) else get m k)"
  by (induction ks arbitrary: m) (auto simp: get_put)

lemma get_update_comp:
  "k \<noteq> k' \<Longrightarrow> get (put k v (put k' v' m)) = get (put k' v' (put k v m))"
  by (auto simp: get_put fun_eq_iff)

end

interpretation js_map: map_store map_get map_set map_delete map_ok
  by unfold_locales auto

section \<open>The state machine interface\<close>

text \<open>
  A component is an initial state, the events its environment may deliver in a state, and the
  state each event leads to. An invariant that holds at the start and is kept by every
  enabled event holds after every run.
\<close>

fun runs :: "('s \<Rightarrow> 'e \<Rightarrow> bool) \<Rightarrow> ('s \<Rightarrow> 'e \<Rightarrow> 's) \<Rightarrow> 's \<Rightarrow> 'e list \<Rightarrow> bool" where
  "runs en st s [] = True"
| "runs en st s (e # es) = (en s e \<and> runs en st (st s e) es)"

lemma runs_append:
  "runs en st s (es @ fs) = (runs en st s es \<and> runs en st (foldl st s es) fs)"
  by (induction es arbitrary: s) auto

lemma runs_all_enabled: "(\<And>s e. en s e) \<Longrightarrow> runs en st s es"
  by (induction es arbitrary: s) auto

locale event_machine =
  fixes init :: 's
    and enabled :: "'s \<Rightarrow> 'e \<Rightarrow> bool"
    and step :: "'s \<Rightarrow> 'e \<Rightarrow> 's"
    and inv :: "'s \<Rightarrow> bool"
  assumes inv_init: "inv init"
    and inv_step: "inv s \<Longrightarrow> enabled s e \<Longrightarrow> inv (step s e)"
begin

lemma inv_run_from: "inv s \<Longrightarrow> runs enabled step s es \<Longrightarrow> inv (foldl step s es)"
  by (induction es arbitrary: s) (auto intro: inv_step)

lemma inv_run: "runs enabled step init es \<Longrightarrow> inv (foldl step init es)"
  by (rule inv_run_from [OF inv_init])

lemma inv_every_prefix:
  "runs enabled step init (es @ fs) \<Longrightarrow> inv (foldl step init es)"
  by (simp add: runs_append inv_run)

end

end
