(* ===== verification/Wire_Codec.thy ===== *)
theory Wire_Codec
  imports Lasterm_Prelude
begin

text \<open>
  The key conversion of \<^verbatim>\<open>packages/shared/src/codec.ts\<close>: TypeScript objects use camelCase keys,
  the wire uses snake_case, and the values of \<open>env\<close> keep the keys the user chose.
  A JavaScript value is a tree whose numbers are opaque (the type \<open>'n\<close>): the code passes them
  through. The MessagePack library is not part of the repository: its encoder and decoder
  are arguments of \<open>encodeMessage\<close> and \<open>decodeMessage\<close>, and decoding is partial because the
  library throws on bytes it cannot read.
\<close>

section \<open>Values\<close>

datatype 'n jsval =
    JUndef
  | JNull
  | JBool bool
  | JNum 'n
  | JStr string
  | JBytes "byte list"
  | JArr "'n jsval list"
  | JObj "(string \<times> 'n jsval) list"

fun isPlainObject :: "'n jsval \<Rightarrow> bool" where
  "isPlainObject (JObj _) = True"
| "isPlainObject _ = False"

section \<open>Keys\<close>

definition is_upper :: "char \<Rightarrow> bool" where
  "is_upper c = (let n = of_char c :: nat in 65 \<le> n \<and> n \<le> 90)"

definition is_lower :: "char \<Rightarrow> bool" where
  "is_lower c = (let n = of_char c :: nat in 97 \<le> n \<and> n \<le> 122)"

definition to_lower :: "char \<Rightarrow> char" where
  "to_lower c = char_of (of_char c + 32 :: nat)"

definition to_upper :: "char \<Rightarrow> char" where
  "to_upper c = char_of (of_char c - 32 :: nat)"

definition camelToSnake :: "string \<Rightarrow> string" where
  "camelToSnake key = concat (map (\<lambda>c. if is_upper c then [CHR ''_'', to_lower c] else [c]) key)"

fun snakeToCamel :: "string \<Rightarrow> string" where
  "snakeToCamel [] = []"
| "snakeToCamel [c] = [c]"
| "snakeToCamel (c # d # cs) =
     (if c = CHR ''_'' \<and> is_lower d then to_upper d # snakeToCamel cs
      else c # snakeToCamel (d # cs))"

fun camel_key :: "string \<Rightarrow> bool" where
  "camel_key (c # d # cs) = (\<not> (c = CHR ''_'' \<and> is_lower d) \<and> camel_key (d # cs))"
| "camel_key _ = True"

lemma letter_case [simp]:
  "is_upper c \<Longrightarrow> is_lower (to_lower c)"
  "is_lower c \<Longrightarrow> is_upper (to_upper c)"
  "is_upper c \<Longrightarrow> to_upper (to_lower c) = c"
  by (auto simp: is_upper_def is_lower_def to_lower_def to_upper_def Let_def)

lemma underscore_case [simp]: "\<not> is_upper (CHR ''_'')" "\<not> is_lower (CHR ''_'')"
  by (auto simp: is_upper_def is_lower_def Let_def)

lemma upper_not_lower: "is_upper c \<Longrightarrow> \<not> is_lower c"
  by (auto simp: is_upper_def is_lower_def Let_def)

lemma camelToSnake_simps [simp]:
  "camelToSnake [] = []"
  "camelToSnake (c # cs) = (if is_upper c then [CHR ''_'', to_lower c] else [c]) @ camelToSnake cs"
  by (simp_all add: camelToSnake_def)

lemma snakeToCamel_plain:
  "\<not> (c = CHR ''_'' \<and> cs \<noteq> [] \<and> is_lower (hd cs)) \<Longrightarrow>
   snakeToCamel (c # cs) = c # snakeToCamel cs"
  by (cases cs) auto

lemma hd_camelToSnake:
  "cs \<noteq> [] \<Longrightarrow> hd (camelToSnake cs) = (if is_upper (hd cs) then CHR ''_'' else hd cs)"
  by (cases cs) auto

lemma camelToSnake_empty [simp]: "camelToSnake cs = [] \<longleftrightarrow> cs = []"
  by (cases cs) auto

lemma snakeToCamel_camelToSnake_iff: "snakeToCamel (camelToSnake k) = k \<longleftrightarrow> camel_key k"
proof (induction k rule: camel_key.induct)
  case (1 c d cs)
  consider "is_upper c" | "c = CHR ''_''" "is_lower d" | "\<not> is_upper c" "\<not> (c = CHR ''_'' \<and> is_lower d)"
    by blast
  then show ?case
  proof cases
    case 1
    then have "c \<noteq> CHR ''_''" by auto
    with 1 "1.IH" show ?thesis
      by (simp add: snakeToCamel_plain upper_not_lower)
  next
    case 2
    then have "to_upper d \<noteq> CHR ''_''" by (metis letter_case(2) underscore_case(1))
    with 2 show ?thesis by (simp add: upper_not_lower) (auto dest: upper_not_lower)
  next
    case 3
    then have "\<not> (c = CHR ''_'' \<and> is_lower (hd (camelToSnake (d # cs))))"
      by (auto simp: hd_camelToSnake simp del: camelToSnake_simps)
    then have "snakeToCamel (c # camelToSnake (d # cs)) = c # snakeToCamel (camelToSnake (d # cs))"
      by (intro snakeToCamel_plain) auto
    with 3 "1.IH" show ?thesis by (simp del: camelToSnake_simps(2) add: camelToSnake_simps(2) [of c])
  qed
next
  case "2_2"
  then show ?case by simp
qed simp_all

lemma camelToSnake_inj: "camel_key k \<Longrightarrow> camel_key k' \<Longrightarrow> camelToSnake k = camelToSnake k' \<Longrightarrow> k = k'"
  by (metis snakeToCamel_camelToSnake_iff)

lemma camelToSnake_env: "camel_key k \<Longrightarrow> camelToSnake k = ''env'' \<longleftrightarrow> k = ''env''"
proof
  assume "camel_key k" "camelToSnake k = ''env''"
  then have "k = snakeToCamel ''env''" by (metis snakeToCamel_camelToSnake_iff)
  then show "k = ''env''" by (simp add: is_lower_def)
qed (simp add: is_upper_def)

section \<open>Whole values\<close>

text \<open>Writing entries one by one into a fresh object: a later entry overwrites an earlier one.\<close>

definition object_from :: "(string \<times> 'n jsval) list \<Rightarrow> (string \<times> 'n jsval) list" where
  "object_from kvs = foldl (\<lambda>out kv. map_set (fst kv) (snd kv) out) [] kvs"

lemma size_entry [termination_simp]:
  "(k, v) \<in> set kvs \<Longrightarrow> size v < Suc (size_list (size_prod (\<lambda>_. 0) size) kvs)"
  by (induction kvs) auto

fun toSnakeCase :: "'n jsval \<Rightarrow> bool \<Rightarrow> 'n jsval" where
  "toSnakeCase (JBytes b) rawValue = JBytes b"
| "toSnakeCase (JArr vs) rawValue = JArr (map (\<lambda>v. toSnakeCase v False) vs)"
| "toSnakeCase (JObj kvs) rawValue =
     (if rawValue then JObj kvs
      else JObj (object_from (map (\<lambda>(k, v). (camelToSnake k, toSnakeCase v (camelToSnake k = ''env''))) kvs)))"
| "toSnakeCase v rawValue = v"

fun toCamelCase :: "'n jsval \<Rightarrow> bool \<Rightarrow> 'n jsval" where
  "toCamelCase (JBytes b) rawValue = JBytes b"
| "toCamelCase (JArr vs) rawValue = JArr (map (\<lambda>v. toCamelCase v False) vs)"
| "toCamelCase (JObj kvs) rawValue =
     (if rawValue then JObj kvs
      else JObj (object_from (map (\<lambda>(k, v). (snakeToCamel k, toCamelCase v (k = ''env''))) kvs)))"
| "toCamelCase v rawValue = v"

definition encodeMessage :: "('n jsval \<Rightarrow> byte list) \<Rightarrow> 'n jsval \<Rightarrow> byte list" where
  "encodeMessage msgpackEncode message = msgpackEncode (toSnakeCase message False)"

definition decodeMessage :: "(byte list \<Rightarrow> 'n jsval option) \<Rightarrow> byte list \<Rightarrow> 'n jsval option" where
  "decodeMessage msgpackDecode data =
     (case msgpackDecode data of None \<Rightarrow> None | Some raw \<Rightarrow> Some (toCamelCase raw False))"

text \<open>
  A value whose keys survive the round trip: every object outside \<open>env\<close> has distinct keys in
  which no underscore is followed by a lower case letter.
\<close>

fun camel_value :: "'n jsval \<Rightarrow> bool \<Rightarrow> bool" where
  "camel_value (JArr vs) rawValue = (\<forall>v \<in> set vs. camel_value v False)"
| "camel_value (JObj kvs) rawValue =
     (rawValue \<or> (distinct (map fst kvs) \<and> (\<forall>(k, v) \<in> set kvs. camel_key k \<and> camel_value v (k = ''env''))))"
| "camel_value v rawValue = True"

lemma object_from_append:
  "distinct (map fst (out @ kvs)) \<Longrightarrow>
   foldl (\<lambda>out kv. map_set (fst kv) (snd kv) out) out kvs = out @ kvs"
proof (induction kvs arbitrary: out)
  case (Cons kv kvs)
  then have "map_set (fst kv) (snd kv) out = out @ [kv]" by (simp add: map_set_append)
  with Cons show ?case by (simp del: foldl_append)
qed simp

lemma object_from_distinct: "distinct (map fst kvs) \<Longrightarrow> object_from kvs = kvs"
  using object_from_append [of "[]" kvs] by (simp add: object_from_def)

lemma distinct_keys_map:
  assumes "distinct (map fst kvs)" and "inj_on f (fst ` set kvs)"
  shows "distinct (map fst (map (\<lambda>(k, v). (f k, g k v)) kvs))"
proof -
  have "map fst (map (\<lambda>(k, v). (f k, g k v)) kvs) = map f (map fst kvs)" by auto
  moreover have "distinct (map f (map fst kvs))" using assms by (simp add: distinct_map comp_inj_on)
  ultimately show ?thesis by (simp only:)
qed

lemma toCamelCase_toSnakeCase: "camel_value v rawValue \<Longrightarrow> toCamelCase (toSnakeCase v rawValue) rawValue = v"
proof (induction v rawValue rule: toSnakeCase.induct)
  case (2 vs rawValue)
  then show ?case by (auto intro: map_idI)
next
  case (3 kvs rawValue)
  show ?case
  proof (cases rawValue)
    case False
    let ?snake = "map (\<lambda>(k, v). (camelToSnake k, toSnakeCase v (camelToSnake k = ''env''))) kvs"
    from 3(2) False have d: "distinct (map fst kvs)"
      and ok: "\<And>k v. (k, v) \<in> set kvs \<Longrightarrow> camel_key k \<and> camel_value v (k = ''env'')" by auto
    have inj: "inj_on camelToSnake (fst ` set kvs)"
      using ok by (auto intro!: inj_onI camelToSnake_inj)
    have "distinct (map fst ?snake)" by (rule distinct_keys_map [OF d inj])
    then have snake: "object_from ?snake = ?snake" by (rule object_from_distinct)
    have "(snakeToCamel (camelToSnake k), toCamelCase (toSnakeCase v (camelToSnake k = ''env'')) (camelToSnake k = ''env''))
        = (k, v)" if kv: "(k, v) \<in> set kvs" for k v
      using ok [OF kv] 3(1) [OF False kv refl] camelToSnake_env [of k] snakeToCamel_camelToSnake_iff [of k]
      by simp
    then have "map (\<lambda>(k, v). (snakeToCamel k, toCamelCase v (k = ''env''))) ?snake = kvs"
      unfolding map_map by (intro map_idI) auto
    with False snake d show ?thesis by (simp add: object_from_distinct)
  qed simp
qed auto

text \<open>
  C23: an encoded protocol message decodes to itself, whatever its depth, as soon as the
  MessagePack library reads back the wire object it wrote. The condition on the message is
  that its keys are camelCase ones; the entries of \<open>env\<close> are under no condition.
\<close>

theorem decode_encode_message:
  assumes "camel_value message False"
    and "msgpackDecode (msgpackEncode (toSnakeCase message False)) = Some (toSnakeCase message False)"
  shows "decodeMessage msgpackDecode (encodeMessage msgpackEncode message) = Some message"
  using assms by (simp add: decodeMessage_def encodeMessage_def toCamelCase_toSnakeCase)

theorem decode_encode_message_witness:
  "let message = JObj [(''type'', JStr ''SPAWN''), (''channelId'', JStr ''c1''), (''env'', JObj [(''my_key'', JNull)])];
       wire = JObj [(''type'', JStr ''SPAWN''), (''channel_id'', JStr ''c1''), (''env'', JObj [(''my_key'', JNull)])]
   in decodeMessage (\<lambda>b. if b = [1] then Some wire else None) (encodeMessage (\<lambda>v. if v = wire then [1] else []) message)
      = Some (message :: unit jsval)"
proof -
  let ?message = "JObj [(''type'', JStr ''SPAWN''), (''channelId'', JStr ''c1''), (''env'', JObj [(''my_key'', JNull)])] :: unit jsval"
  let ?wire = "JObj [(''type'', JStr ''SPAWN''), (''channel_id'', JStr ''c1''), (''env'', JObj [(''my_key'', JNull)])] :: unit jsval"
  have snake: "toSnakeCase ?message False = ?wire" by code_simp
  have camel: "camel_value ?message False" by code_simp
  show ?thesis
    unfolding Let_def
    by (rule decode_encode_message [OF camel]) (simp only: snake simp_thms if_True)
qed

end
