(* ===== verification/Framing.thy ===== *)
theory Framing
  imports Wire_Codec
begin

text \<open>
  The length-prefixed frames between hub and agent: \<^verbatim>\<open>packages/shared/src/framing.ts\<close>
  (\<open>encodeFrame\<close>, \<open>FrameReader\<close>) and the search for an agent's first frame in what a remote shell
  printed, \<^verbatim>\<open>packages/hub/src/session/hello-seeker.ts\<close>. A reader's state is its buffer; \<open>push\<close>
  returns the new buffer and either the messages completed or the error it throws.
\<close>

section \<open>Frames\<close>

definition LENGTH_PREFIX_BYTES :: nat where
  "LENGTH_PREFIX_BYTES = 4"

definition MAX_FRAME_SIZE :: nat where
  "MAX_FRAME_SIZE = 10 * 1024 * 1024"

datatype frame_error = FrameTooLargeError nat | PayloadTooLarge nat | DecodeError

definition setUint32LE :: "nat \<Rightarrow> byte list" where
  "setUint32LE n = [of_nat n, of_nat (n div 256), of_nat (n div 65536), of_nat (n div 16777216)]"

definition readUInt32LE :: "byte list \<Rightarrow> nat \<Rightarrow> nat" where
  "readUInt32LE b at =
     unat (b ! at) + 256 * unat (b ! (at + 1)) + 65536 * unat (b ! (at + 2)) + 16777216 * unat (b ! (at + 3))"

definition encodeFrame :: "('n jsval \<Rightarrow> byte list) \<Rightarrow> 'n jsval \<Rightarrow> frame_error + byte list" where
  "encodeFrame msgpackEncode message =
     (let payload = encodeMessage msgpackEncode message in
      if length payload > MAX_FRAME_SIZE then Inl (PayloadTooLarge (length payload))
      else Inr (setUint32LE (length payload) @ payload))"

function push_loop ::
  "(byte list \<Rightarrow> 'n jsval option) \<Rightarrow> byte list \<Rightarrow> 'n jsval list \<Rightarrow> byte list \<times> (frame_error + 'n jsval list)" where
  "push_loop msgpackDecode buffer messages =
     (if length buffer < LENGTH_PREFIX_BYTES then (buffer, Inr messages)
      else let payloadLength = readUInt32LE buffer 0 in
        if payloadLength > MAX_FRAME_SIZE then (buffer, Inl (FrameTooLargeError payloadLength))
        else let totalLength = LENGTH_PREFIX_BYTES + payloadLength in
          if length buffer < totalLength then (buffer, Inr messages)
          else case decodeMessage msgpackDecode (take payloadLength (drop LENGTH_PREFIX_BYTES buffer)) of
              None \<Rightarrow> (buffer, Inl DecodeError)
            | Some message \<Rightarrow> push_loop msgpackDecode (drop totalLength buffer) (messages @ [message]))"
  by pat_completeness auto
termination
  by (relation "measure (\<lambda>(_, buffer, _). length buffer)") (auto simp: LENGTH_PREFIX_BYTES_def)

declare push_loop.simps [simp del]

definition push ::
  "(byte list \<Rightarrow> 'n jsval option) \<Rightarrow> byte list \<Rightarrow> byte list \<Rightarrow> byte list \<times> (frame_error + 'n jsval list)" where
  "push msgpackDecode buffer data = push_loop msgpackDecode (buffer @ data) []"

text \<open>
  The reader's owner handles each chunk as it arrives and stops at the first error: the
  buffer left, the messages handed over, and the error if one was thrown.
\<close>

fun feed ::
  "(byte list \<Rightarrow> 'n jsval option) \<Rightarrow> byte list \<Rightarrow> byte list list \<Rightarrow> byte list \<times> 'n jsval list \<times> frame_error option" where
  "feed msgpackDecode buffer [] = (buffer, [], None)"
| "feed msgpackDecode buffer (chunk # chunks) =
     (case push msgpackDecode buffer chunk of
        (buffer', Inl e) \<Rightarrow> (buffer', [], Some e)
      | (buffer', Inr messages) \<Rightarrow>
          (case feed msgpackDecode buffer' chunks of (rest, more, err) \<Rightarrow> (rest, messages @ more, err)))"

section \<open>Bytes of the length prefix\<close>

lemma unat_of_nat_byte: "unat (of_nat n :: byte) = n mod 256"
  by (simp add: unat_of_nat)

lemma length_setUint32LE [simp]: "length (setUint32LE n) = 4"
  by (simp add: setUint32LE_def)

lemma base256_digits:
  assumes "n < 4294967296"
  shows "n mod 256 + 256 * (n div 256 mod 256) + 65536 * (n div 65536 mod 256)
     + 16777216 * (n div 16777216 mod 256) = (n :: nat)"
proof -
  define a b c where abc: "a = n div 256" "b = a div 256" "c = b div 256"
  have digits: "n div 65536 = b" "n div 16777216 = c" by (simp_all add: abc flip: div_mult2_eq)
  have "c < 256" using assms by (simp add: abc less_mult_imp_div_less flip: div_mult2_eq)
  moreover have "n = 256 * a + n mod 256" "a = 256 * b + a mod 256" "b = 256 * c + b mod 256"
    by (simp_all add: abc)
  ultimately show ?thesis unfolding digits abc(1) [symmetric] by simp
qed

lemma readUInt32LE_append:
  "at + 3 < length a \<Longrightarrow> readUInt32LE (a @ b) at = readUInt32LE a at"
  by (simp add: readUInt32LE_def nth_append)

lemma readUInt32LE_setUint32LE [simp]:
  "n < 4294967296 \<Longrightarrow> readUInt32LE (setUint32LE n @ rest) 0 = n"
  using base256_digits [of n]
  by (simp add: readUInt32LE_def setUint32LE_def unat_of_nat_byte numeral_2_eq_2 numeral_3_eq_3)

lemma readUInt32LE_after:
  "readUInt32LE (junk @ b) (length junk) = readUInt32LE b 0"
  by (simp add: readUInt32LE_def nth_append numeral_2_eq_2 numeral_3_eq_3)

lemma readUInt32LE_bound: "readUInt32LE b at < 4294967296"
proof -
  have "unat x < 256" for x :: byte by (rule order_less_le_trans [OF unsigned_less]) simp
  from this [of "b ! at"] this [of "b ! (at + 1)"] this [of "b ! (at + 2)"] this [of "b ! (at + 3)"]
  show ?thesis by (simp add: readUInt32LE_def)
qed

section \<open>The reader's loop\<close>

lemma push_loop_short:
  "length buffer < 4 \<Longrightarrow> push_loop d buffer ms = (buffer, Inr ms)"
  by (simp add: push_loop.simps [of d buffer] LENGTH_PREFIX_BYTES_def)

lemma push_loop_wait:
  "4 \<le> length buffer \<Longrightarrow> readUInt32LE buffer 0 \<le> MAX_FRAME_SIZE \<Longrightarrow>
   length buffer < 4 + readUInt32LE buffer 0 \<Longrightarrow> push_loop d buffer ms = (buffer, Inr ms)"
  by (simp add: push_loop.simps [of d buffer] LENGTH_PREFIX_BYTES_def Let_def)

lemma push_loop_big:
  "4 \<le> length buffer \<Longrightarrow> readUInt32LE buffer 0 > MAX_FRAME_SIZE \<Longrightarrow>
   push_loop d buffer ms = (buffer, Inl (FrameTooLargeError (readUInt32LE buffer 0)))"
  by (simp add: push_loop.simps [of d buffer] LENGTH_PREFIX_BYTES_def Let_def)

lemma push_loop_whole:
  "readUInt32LE buffer 0 = n \<Longrightarrow> n \<le> MAX_FRAME_SIZE \<Longrightarrow> 4 + n \<le> length buffer \<Longrightarrow>
   push_loop d buffer ms =
     (case decodeMessage d (take n (drop 4 buffer)) of
        None \<Rightarrow> (buffer, Inl DecodeError)
      | Some m \<Rightarrow> push_loop d (drop (4 + n) buffer) (ms @ [m]))"
  by (simp add: push_loop.simps [of d buffer] LENGTH_PREFIX_BYTES_def Let_def)

lemmas push_loop_cases = push_loop_short push_loop_wait push_loop_big push_loop_whole

text \<open>One induction rule for the loop: the four ways an iteration goes.\<close>

lemma push_loop_induct [case_names short wait big bad whole]:
  assumes "\<And>b ms. length b < 4 \<Longrightarrow> P b ms"
    and "\<And>b ms. 4 \<le> length b \<Longrightarrow> readUInt32LE b 0 \<le> MAX_FRAME_SIZE \<Longrightarrow> length b < 4 + readUInt32LE b 0 \<Longrightarrow> P b ms"
    and "\<And>b ms. 4 \<le> length b \<Longrightarrow> readUInt32LE b 0 > MAX_FRAME_SIZE \<Longrightarrow> P b ms"
    and "\<And>b ms n. n = readUInt32LE b 0 \<Longrightarrow> n \<le> MAX_FRAME_SIZE \<Longrightarrow> 4 + n \<le> length b \<Longrightarrow>
           decodeMessage d (take n (drop 4 b)) = None \<Longrightarrow> P b ms"
    and "\<And>b ms n m. n = readUInt32LE b 0 \<Longrightarrow> n \<le> MAX_FRAME_SIZE \<Longrightarrow> 4 + n \<le> length b \<Longrightarrow>
           decodeMessage d (take n (drop 4 b)) = Some m \<Longrightarrow> P (drop (4 + n) b) (ms @ [m]) \<Longrightarrow> P b ms"
  shows "P b ms"
proof (induction b arbitrary: ms rule: length_induct)
  case (1 b)
  consider "length b < 4" | "4 \<le> length b" "readUInt32LE b 0 > MAX_FRAME_SIZE"
    | "4 \<le> length b" "readUInt32LE b 0 \<le> MAX_FRAME_SIZE" "length b < 4 + readUInt32LE b 0"
    | "readUInt32LE b 0 \<le> MAX_FRAME_SIZE" "4 + readUInt32LE b 0 \<le> length b"
    by linarith
  then show ?case
  proof cases
    case 4
    show ?thesis
    proof (cases "decodeMessage d (take (readUInt32LE b 0) (drop 4 b))")
      case None
      with 4 assms(4) show ?thesis by blast
    next
      case (Some m)
      have "P (drop (4 + readUInt32LE b 0) b) (ms @ [m])" using 4 "1.IH" by simp
      with 4 Some assms(5) show ?thesis by blast
    qed
  qed (use assms(1-3) in blast)+
qed

lemma push_loop_append_ok:
  "push_loop d a ms = (a', Inr xs) \<Longrightarrow> push_loop d (a @ b) ms = push_loop d (a' @ b) xs"
proof (induction a ms rule: push_loop_induct [where d = d])
  case (whole a ms n m)
  then have "push_loop d (drop (4 + n) a) (ms @ [m]) = (a', Inr xs)" by (simp add: push_loop_whole)
  moreover have "push_loop d (a @ b) ms = push_loop d (drop (4 + n) a @ b) (ms @ [m])"
    using whole.hyps by (simp add: push_loop_whole readUInt32LE_append)
  ultimately show ?case using whole.IH by simp
qed (auto simp: push_loop_cases)

lemma push_loop_append_err:
  "push_loop d a ms = (a', Inl e) \<Longrightarrow> push_loop d (a @ b) ms = (a' @ b, Inl e)"
proof (induction a ms rule: push_loop_induct [where d = d])
  case (whole a ms n m)
  then have "push_loop d (drop (4 + n) a) (ms @ [m]) = (a', Inl e)" by (simp add: push_loop_whole)
  moreover have "push_loop d (a @ b) ms = push_loop d (drop (4 + n) a @ b) (ms @ [m])"
    using whole.hyps by (simp add: push_loop_whole readUInt32LE_append)
  ultimately show ?case using whole.IH by simp
qed (auto simp: push_loop_cases readUInt32LE_append)

lemma push_loop_acc:
  "push_loop d b (pre @ ms) = (fst (push_loop d b ms), map_sum id (\<lambda>xs. pre @ xs) (snd (push_loop d b ms)))"
proof (induction b ms rule: push_loop_induct [where d = d])
  case (whole b ms n m)
  then show ?case by (simp add: push_loop_whole)
qed (auto simp: push_loop_cases)

lemma push_loop_rest:
  "push_loop d b ms = (b', Inr xs) \<Longrightarrow> length b' < 4 + MAX_FRAME_SIZE"
proof (induction b ms rule: push_loop_induct [where d = d])
  case (whole b ms n m)
  then show ?case by (simp add: push_loop_whole)
qed (auto simp: push_loop_cases)

lemma push_loop_frame:
  assumes "encodeFrame enc m = Inr f" and "decodeMessage d (encodeMessage enc m) = Some m"
  shows "push_loop d (f @ rest) ms = push_loop d rest (ms @ [m])"
proof -
  let ?p = "encodeMessage enc m"
  from assms(1) have le: "length ?p \<le> MAX_FRAME_SIZE" and f: "f = setUint32LE (length ?p) @ ?p"
    by (auto simp: encodeFrame_def Let_def split: if_splits)
  have "length ?p < 4294967296" using le by (simp add: MAX_FRAME_SIZE_def)
  then have "readUInt32LE (f @ rest) 0 = length ?p" by (simp add: f)
  with le assms(2) show ?thesis by (simp add: push_loop_whole f)
qed

lemma push_loop_frames:
  assumes "map (encodeFrame enc) ms = map Inr fs"
    and "\<And>m. m \<in> set ms \<Longrightarrow> decodeMessage d (encodeMessage enc m) = Some m"
  shows "push_loop d (concat fs @ rest) acc = push_loop d rest (acc @ ms)"
  using assms
proof (induction ms arbitrary: fs acc)
  case (Cons m ms)
  then obtain f fs' where "fs = f # fs'" "encodeFrame enc m = Inr f" "map (encodeFrame enc) ms = map Inr fs'"
    by (auto simp: Cons_eq_map_conv)
  with Cons show ?case by (simp add: push_loop_frame)
qed simp

text \<open>A push that succeeds leaves a buffer with no whole frame, and what it consumed is settled.\<close>

lemma push_loop_split:
  assumes "push_loop d a [] = (b, Inr xs)"
  shows "push_loop d b [] = (b, Inr [])"
    and "push_loop d (a @ c) [] =
      (fst (push_loop d (b @ c) []), map_sum id (\<lambda>ys. xs @ ys) (snd (push_loop d (b @ c) [])))"
proof -
  have "push_loop d (b @ c) xs = (fst (push_loop d (b @ c) []), map_sum id (\<lambda>ys. xs @ ys) (snd (push_loop d (b @ c) [])))" for c
    using push_loop_acc [of d "b @ c" xs "[]"] by simp
  moreover have "push_loop d (a @ c) [] = push_loop d (b @ c) xs" for c
    by (rule push_loop_append_ok [OF assms])
  ultimately have all: "push_loop d (a @ c) [] =
      (fst (push_loop d (b @ c) []), map_sum id (\<lambda>ys. xs @ ys) (snd (push_loop d (b @ c) [])))" for c
    by simp
  then show "push_loop d (a @ c) [] =
      (fst (push_loop d (b @ c) []), map_sum id (\<lambda>ys. xs @ ys) (snd (push_loop d (b @ c) [])))" .
  from all [of "[]"] assms show "push_loop d b [] = (b, Inr [])"
    by (cases "push_loop d b []"; cases "snd (push_loop d b [])") auto
qed

text \<open>Chunk boundaries do not matter: feeding chunks agrees with one push of their concatenation.\<close>

lemma feed_push_loop:
  assumes "push_loop d buffer [] = (buffer, Inr [])"
  shows "case push_loop d (buffer @ concat chunks) [] of
      (rest, Inr ms) \<Rightarrow> feed d buffer chunks = (rest, ms, None)
    | (rest, Inl e) \<Rightarrow> snd (snd (feed d buffer chunks)) = Some e"
  using assms
proof (induction chunks arbitrary: buffer)
  case (Cons chunk chunks)
  obtain b r where step: "push_loop d (buffer @ chunk) [] = (b, r)" by fastforce
  show ?case
  proof (cases r)
    case (Inl e)
    then have "push_loop d (buffer @ chunk @ concat chunks) [] = (b @ concat chunks, Inl e)"
      using push_loop_append_err [of d "buffer @ chunk"] step by simp
    with step Inl show ?thesis by (simp add: push_def)
  next
    case (Inr xs)
    note split = push_loop_split [OF step [unfolded Inr]]
    from Cons.IH [OF split(1)] split(2) [of "concat chunks"] step Inr show ?thesis
      by (auto simp: push_def split: prod.splits sum.splits)
  qed
qed simp

section \<open>Properties of the frame reader\<close>

text \<open>
  C13: the frames of any messages, cut into chunks anywhere, come out of a fresh \<open>FrameReader\<close>
  as exactly those messages, in order, with no error and nothing left in the buffer.
\<close>

theorem feed_frames_roundtrip:
  assumes "map (encodeFrame msgpackEncode) ms = map Inr frames"
    and "\<forall>m \<in> set ms. decodeMessage msgpackDecode (encodeMessage msgpackEncode m) = Some m"
    and "concat chunks = concat frames"
  shows "feed msgpackDecode [] chunks = ([], ms, None)"
proof -
  have "push_loop msgpackDecode (concat frames @ []) [] = push_loop msgpackDecode [] ([] @ ms)"
    using assms(1,2) by (intro push_loop_frames) auto
  then have "push_loop msgpackDecode ([] @ concat chunks) [] = ([], Inr ms)"
    using assms(3) by (simp add: push_loop_short)
  with feed_push_loop [of msgpackDecode "[]" chunks] show ?thesis by (simp add: push_loop_short)
qed

theorem feed_frames_roundtrip_witness:
  "let d = (\<lambda>b. if b = [7] then Some (JStr ''a'') else if b = [8, 9] then Some (JStr ''b'') else None)
   in feed d [] [[1, 0], [], [0, 0, 7, 2, 0], [0, 0, 8], [9]] = ([], [JStr ''a'', JStr ''b'' :: unit jsval], None)"
proof -
  let ?e = "\<lambda>v :: unit jsval. if v = JStr ''a'' then [7] else [8, 9] :: byte list"
  let ?d = "\<lambda>b :: byte list. if b = [7] then Some (JStr ''a'') else if b = [8, 9] then Some (JStr ''b'' :: unit jsval) else None"
  have "map (encodeFrame ?e) [JStr ''a'', JStr ''b''] = map Inr [[1, 0, 0, 0, 7], [2, 0, 0, 0, 8, 9]]"
    by (simp add: encodeFrame_def encodeMessage_def setUint32LE_def MAX_FRAME_SIZE_def)
  moreover have "\<forall>m \<in> set [JStr ''a'', JStr ''b'']. decodeMessage ?d (encodeMessage ?e m) = Some m"
    by (simp add: encodeMessage_def decodeMessage_def)
  ultimately show ?thesis
    unfolding Let_def by (rule feed_frames_roundtrip) simp
qed


text \<open>
  After a push that does not throw, the reader holds less than one maximal frame:
  whatever the peer sends, \<open>bufferedBytes\<close> stays below the length prefix plus \<open>MAX_FRAME_SIZE\<close>.
\<close>

theorem push_buffer_bounded:
  assumes "push msgpackDecode buffer data = (buffer', Inr ms)"
  shows "length buffer' < LENGTH_PREFIX_BYTES + MAX_FRAME_SIZE"
  using push_loop_rest assms by (simp add: push_def LENGTH_PREFIX_BYTES_def)

theorem push_buffer_bounded_witness:
  "length ([5, 0, 0, 0, 1] :: byte list) < LENGTH_PREFIX_BYTES + MAX_FRAME_SIZE"
proof -
  have "push (\<lambda>_. None :: unit jsval option) [5, 0] [0, 0, 1] = ([5, 0, 0, 0, 1], Inr [])"
    unfolding push_def by (simp add: push_loop_wait readUInt32LE_def MAX_FRAME_SIZE_def)
  then show ?thesis by (rule push_buffer_bounded)
qed

section \<open>Finding a stdio agent's first frame\<close>

definition MAX_SHELL_PRELUDE_BYTES :: nat where
  "MAX_SHELL_PRELUDE_BYTES = 64 * 1024"

definition MAX_HELLO_FRAME_BYTES :: nat where
  "MAX_HELLO_FRAME_BYTES = 64 * 1024"

datatype HelloSeek = HelloFound nat "byte list" | HelloNotFound bool

definition isHello :: "(byte list \<Rightarrow> 'n jsval option) \<Rightarrow> byte list \<Rightarrow> bool" where
  "isHello msgpackDecode payload =
     (case decodeMessage msgpackDecode payload of
        Some (JObj kvs) \<Rightarrow> map_get kvs ''type'' = Some (JStr ''HELLO'')
      | _ \<Rightarrow> False)"

definition hello_at :: "(byte list \<Rightarrow> 'n jsval option) \<Rightarrow> byte list \<Rightarrow> nat \<Rightarrow> bool" where
  "hello_at msgpackDecode buffer start =
     (let len = readUInt32LE buffer start in
      if len = 0 \<or> len > MAX_HELLO_FRAME_BYTES then False
      else let stop = start + LENGTH_PREFIX_BYTES + len in
        if stop > length buffer then False
        else isHello msgpackDecode (take len (drop (start + LENGTH_PREFIX_BYTES) buffer)))"

text \<open>The places tried are \<open>0\<close> to \<open>Math.min(MAX_SHELL_PRELUDE_BYTES, length - 5)\<close>; none is \<open>-1\<close>.\<close>

definition findHelloFrame :: "(byte list \<Rightarrow> 'n jsval option) \<Rightarrow> byte list \<Rightarrow> nat option" where
  "findHelloFrame msgpackDecode buffer =
     List.find (hello_at msgpackDecode buffer)
       [0..<min (MAX_SHELL_PRELUDE_BYTES + 1) (length buffer - LENGTH_PREFIX_BYTES)]"

definition hello_push ::
  "(byte list \<Rightarrow> 'n jsval option) \<Rightarrow> byte list \<Rightarrow> byte list \<Rightarrow> byte list \<times> HelloSeek" where
  "hello_push msgpackDecode buffer chunk =
     (let buffer' = buffer @ chunk in
      case findHelloFrame msgpackDecode buffer' of
        Some start \<Rightarrow> (buffer', HelloFound start (drop start buffer'))
      | None \<Rightarrow> (buffer', HelloNotFound
          (length buffer' > MAX_SHELL_PRELUDE_BYTES + LENGTH_PREFIX_BYTES + MAX_HELLO_FRAME_BYTES)))"

lemmas hello_limits = MAX_SHELL_PRELUDE_BYTES_def MAX_HELLO_FRAME_BYTES_def LENGTH_PREFIX_BYTES_def

lemma find_upt_least:
  "List.find P [0..<n] = Some k \<longleftrightarrow> k < n \<and> P k \<and> (\<forall>j < k. \<not> P j)"
  by (auto simp: find_Some_iff)

lemma hello_at_append:
  assumes "start + 4 + MAX_HELLO_FRAME_BYTES \<le> length buffer"
  shows "hello_at d (buffer @ more) start = hello_at d buffer start"
  using assms by (auto simp: hello_at_def Let_def readUInt32LE_append LENGTH_PREFIX_BYTES_def)

text \<open>
  \<open>HelloSeeker\<close> gives the stream up only when it is hopeless: once \<open>given\<close> is reported, no
  continuation of the stream has a HELLO frame at any place the seeker would accept.
\<close>

theorem hello_given_up_hopeless:
  assumes "hello_push msgpackDecode buffer chunk = (buffer', HelloNotFound True)"
  shows "findHelloFrame msgpackDecode (buffer' @ more) = None"
proof -
  from assms have none: "findHelloFrame msgpackDecode buffer' = None"
    and len: "length buffer' > MAX_SHELL_PRELUDE_BYTES + LENGTH_PREFIX_BYTES + MAX_HELLO_FRAME_BYTES"
    by (auto simp: hello_push_def Let_def split: option.splits)
  from none len have "\<not> hello_at msgpackDecode buffer' k" if "k \<le> MAX_SHELL_PRELUDE_BYTES" for k
    using that by (auto simp: findHelloFrame_def find_None_iff hello_limits)
  with len have "\<not> hello_at msgpackDecode (buffer' @ more) k" if "k \<le> MAX_SHELL_PRELUDE_BYTES" for k
    using that by (subst hello_at_append) (auto simp: hello_limits)
  then show ?thesis by (auto simp: findHelloFrame_def find_None_iff)
qed

theorem hello_given_up_hopeless_witness:
  "findHelloFrame (\<lambda>_. None :: unit jsval option) (replicate 200000 0 @ [1, 2]) = None"
proof -
  have "hello_push (\<lambda>_. None :: unit jsval option) [] (replicate 200000 0) = (replicate 200000 0, HelloNotFound True)"
    by (simp add: hello_push_def findHelloFrame_def hello_at_def Let_def isHello_def decodeMessage_def
        find_None_iff [THEN iffD2] hello_limits)
  then show ?thesis by (rule hello_given_up_hopeless)
qed

text \<open>
  Whatever the shell printed first, the stream is taken from the agent's HELLO frame once it
  is whole: if no place before it looks like one, the seeker hands on exactly the bytes from that
  frame on, and the frame reader's first message is that HELLO.
\<close>

theorem hello_found_after_prelude:
  assumes frame: "encodeFrame msgpackEncode (JObj kvs) = Inr f"
    and hello: "map_get kvs ''type'' = Some (JStr ''HELLO'')"
    and dec: "decodeMessage msgpackDecode (encodeMessage msgpackEncode (JObj kvs)) = Some (JObj kvs)"
    and size: "0 < length (encodeMessage msgpackEncode (JObj kvs))"
      "length (encodeMessage msgpackEncode (JObj kvs)) \<le> MAX_HELLO_FRAME_BYTES"
    and prelude: "length junk \<le> MAX_SHELL_PRELUDE_BYTES"
    and first: "\<forall>k < length junk. \<not> hello_at msgpackDecode (junk @ f @ rest) k"
  shows "snd (hello_push msgpackDecode [] (junk @ f @ rest)) = HelloFound (length junk) (f @ rest)
    \<and> push msgpackDecode [] (f @ rest) = push_loop msgpackDecode rest [JObj kvs]"
proof
  let ?p = "encodeMessage msgpackEncode (JObj kvs)"
  from frame have f: "f = setUint32LE (length ?p) @ ?p" by (auto simp: encodeFrame_def Let_def split: if_splits)
  have n: "readUInt32LE (junk @ f @ rest) (length junk) = length ?p"
    using size(2) by (simp add: readUInt32LE_after f hello_limits)
  have "isHello msgpackDecode ?p" using dec hello by (simp add: isHello_def)
  with n size have "hello_at msgpackDecode (junk @ f @ rest) (length junk)"
    by (simp add: hello_at_def Let_def f LENGTH_PREFIX_BYTES_def)
  then have "findHelloFrame msgpackDecode (junk @ f @ rest) = Some (length junk)"
    using first prelude size unfolding findHelloFrame_def find_upt_least by (simp add: f LENGTH_PREFIX_BYTES_def)
  then show "snd (hello_push msgpackDecode [] (junk @ f @ rest)) = HelloFound (length junk) (f @ rest)"
    by (simp add: hello_push_def)
  show "push msgpackDecode [] (f @ rest) = push_loop msgpackDecode rest [JObj kvs]"
    using push_loop_frame [OF frame dec, of rest "[]"] by (simp add: push_def)
qed

theorem hello_found_after_prelude_witness:
  "let d = (\<lambda>b. if b = [7] then Some (JObj [(''type'', JStr ''HELLO'')] :: unit jsval) else None)
   in snd (hello_push d [] ([36, 32] @ [1, 0, 0, 0, 7] @ [])) = HelloFound 2 [1, 0, 0, 0, 7]"
proof -
  let ?hello = "[(''type'', JStr ''HELLO'' :: unit jsval)]"
  let ?d = "\<lambda>b :: byte list. if b = [7] then Some (JObj ?hello) else None"
  let ?e = "\<lambda>_ :: unit jsval. [7] :: byte list"
  have camel: "toCamelCase (JObj ?hello) False = JObj ?hello" by code_simp
  have frame: "encodeFrame ?e (JObj ?hello) = Inr [1, 0, 0, 0, 7]"
    by (simp add: encodeFrame_def encodeMessage_def setUint32LE_def MAX_FRAME_SIZE_def)
  have dec: "decodeMessage ?d (encodeMessage ?e (JObj ?hello)) = Some (JObj ?hello)"
    by (simp add: decodeMessage_def encodeMessage_def camel object_from_def)
  have first: "\<forall>k < length [36, 32 :: byte]. \<not> hello_at ?d ([36, 32] @ [1, 0, 0, 0, 7] @ []) k"
    by (auto simp: hello_at_def readUInt32LE_def hello_limits less_Suc_eq numeral_2_eq_2)
  have "snd (hello_push ?d [] ([36, 32] @ [1, 0, 0, 0, 7] @ [])) = HelloFound (length [36, 32 :: byte]) ([1, 0, 0, 0, 7] @ [])
    \<and> push ?d [] ([1, 0, 0, 0, 7] @ []) = push_loop ?d [] [JObj ?hello]"
    by (rule hello_found_after_prelude [OF frame _ dec _ _ _ first])
      (simp_all add: encodeMessage_def hello_limits)
  then show ?thesis by (simp add: Let_def)
qed

end
