(* ===== verification/Validation.thy ===== *)
theory Validation
  imports Wire_Codec "HOL-Library.Sublist"
begin

text \<open>
  The input checks of \<^verbatim>\<open>packages/shared/src/validation.ts\<close>. A value of unknown type is a
  \<open>jsval\<close>; a number is an integer or, for every non-integer, NaN and infinity, \<open>NonInt\<close>. A
  character stands for one code unit; the units above 255, which no check accepts, behave as
  those from 128 on.
\<close>

section \<open>Identifiers, sizes, ports, environments\<close>

datatype jsnum = IntNum int | NonInt

type_synonym js_value = "jsnum jsval"

definition char_between :: "nat \<Rightarrow> nat \<Rightarrow> char \<Rightarrow> bool" where
  "char_between lo hi c = (let n = of_char c in lo \<le> n \<and> n \<le> hi)"

definition is_digit :: "char \<Rightarrow> bool" where
  "is_digit c = char_between 48 57 c"

definition ulid_char :: "char \<Rightarrow> bool" where
  "ulid_char c =
     (let u = (if is_lower c then to_upper c else c) in
      is_digit u \<or> char_between 65 72 u \<or> u = CHR ''J'' \<or> u = CHR ''K'' \<or> u = CHR ''M'' \<or> u = CHR ''N''
      \<or> char_between 80 84 u \<or> char_between 86 90 u)"

fun isValidUlid :: "js_value \<Rightarrow> bool" where
  "isValidUlid (JStr s) = (length s = 26 \<and> list_all ulid_char s)"
| "isValidUlid _ = False"

fun isValidDimensions :: "js_value \<Rightarrow> js_value \<Rightarrow> bool" where
  "isValidDimensions (JNum (IntNum cols)) (JNum (IntNum rows)) =
     (cols \<ge> 1 \<and> cols \<le> 500 \<and> rows \<ge> 1 \<and> rows \<le> 500)"
| "isValidDimensions _ _ = False"

text \<open>\<open>Number\<close> of a text of digits: its decimal value.\<close>

definition digits_value :: "string \<Rightarrow> nat" where
  "digits_value s = foldl (\<lambda>n c. 10 * n + (of_char c - 48)) 0 s"

definition sshPortFromText :: "string \<Rightarrow> nat option" where
  "sshPortFromText s =
     (if s = [] \<or> \<not> list_all is_digit s then None
      else let port = digits_value s in if 1 \<le> port \<and> port \<le> 65535 then Some port else None)"

definition MAX_INPUT_SIZE :: nat where
  "MAX_INPUT_SIZE = 65536"

fun isValidInputData :: "js_value \<Rightarrow> bool" where
  "isValidInputData (JBytes b) = (length b \<le> MAX_INPUT_SIZE)"
| "isValidInputData _ = False"

definition MAX_ENV_COUNT :: nat where
  "MAX_ENV_COUNT = 256"

fun env_entry_ok :: "string \<times> js_value \<Rightarrow> bool" where
  "env_entry_ok (k, JStr v) = (length k \<le> 256 \<and> length v \<le> 8192)"
| "env_entry_ok (k, _) = False"

text \<open>
  A byte array is an object too: its entries are numbers under their indices, so an empty one
  passes and any other is refused.
\<close>

fun isValidEnv :: "js_value \<Rightarrow> bool" where
  "isValidEnv JUndef = True"
| "isValidEnv JNull = True"
| "isValidEnv (JObj entries) = (length entries \<le> MAX_ENV_COUNT \<and> list_all env_entry_ok entries)"
| "isValidEnv (JBytes b) = (b = [])"
| "isValidEnv _ = False"

section \<open>Executable paths\<close>

definition is_sep :: "char \<Rightarrow> bool" where
  "is_sep c = (c = CHR ''/'' \<or> c = CHR 0x5C)"

definition path_char :: "char \<Rightarrow> bool" where
  "path_char c =
     (char_between 97 122 c \<or> char_between 65 90 c \<or> is_digit c \<or> is_sep c
      \<or> c = CHR ''.'' \<or> c = CHR ''_'' \<or> c = CHR '' '' \<or> c = CHR '':'' \<or> c = CHR ''-'')"

definition shell_meta :: "char \<Rightarrow> bool" where
  "shell_meta c = (c \<in> set '';&|$`()<>'' \<or> c = CHR 0x0A \<or> c = CHR 0x0D)"

definition isUnixAbsolute :: "string \<Rightarrow> bool" where
  "isUnixAbsolute s = (case s of c # _ \<Rightarrow> c = CHR ''/'' | [] \<Rightarrow> False)"

definition isWindowsAbsolute :: "string \<Rightarrow> bool" where
  "isWindowsAbsolute s =
     (case s of a # b # c # _ \<Rightarrow> (is_upper a \<or> is_lower a) \<and> b = CHR '':'' \<and> is_sep c | _ \<Rightarrow> False)"

text \<open>
  The regular expression: two dots followed by a separator, at the start or after a separator.
  The flag says whether the position is one of those.
\<close>

fun dotdot_inside :: "bool \<Rightarrow> string \<Rightarrow> bool" where
  "dotdot_inside start (a # b # c # cs) =
     (start \<and> a = CHR ''.'' \<and> b = CHR ''.'' \<and> is_sep c \<or> dotdot_inside (is_sep a) (b # c # cs))"
| "dotdot_inside start _ = False"

definition path_traversal :: "string \<Rightarrow> bool" where
  "path_traversal s =
     (dotdot_inside True s \<or> suffix ''/..'' s \<or> suffix [CHR 0x5C, CHR ''.'', CHR ''.''] s)"

datatype path_error =
    PathNotString | PathEmpty | PathTooLong | PathNotAscii | PathInvalidChars
  | PathNotExecutable | PathNotAbsolute | PathTraversal

definition validateCustomCommand :: "string \<Rightarrow> path_error option" where
  "validateCustomCommand cmd =
     (if cmd = [] then Some PathEmpty
      else if length cmd > 4096 then Some PathTooLong
      else if \<not> list_all (\<lambda>c. of_char c \<le> (127 :: nat)) cmd then Some PathNotAscii
      else if CHR 0x00 \<in> set cmd then Some PathInvalidChars
      else if \<not> list_all path_char cmd then Some PathInvalidChars
      else if \<not> isUnixAbsolute cmd \<and> \<not> isWindowsAbsolute cmd then Some PathNotAbsolute
      else if path_traversal cmd then Some PathTraversal
      else None)"

fun validateShell :: "js_value \<Rightarrow> path_error option" where
  "validateShell JUndef = None"
| "validateShell JNull = None"
| "validateShell (JStr shell) =
     (if length shell = 0 then Some PathEmpty
      else if length shell > 4096 then Some PathTooLong
      else if CHR 0x00 \<in> set shell then Some PathInvalidChars
      else if list_ex shell_meta shell then Some PathNotExecutable
      else if \<not> list_all path_char shell then Some PathInvalidChars
      else if \<not> isUnixAbsolute shell \<and> \<not> isWindowsAbsolute shell then Some PathNotAbsolute
      else if path_traversal shell then Some PathTraversal
      else None)"
| "validateShell _ = Some PathNotString"

section \<open>What an accepted path looks like\<close>

text \<open>The segments of a path: what lies between separators.\<close>

fun segments :: "string \<Rightarrow> string list" where
  "segments [] = [[]]"
| "segments (c # cs) =
     (if is_sep c then [] # segments cs
      else case segments cs of [] \<Rightarrow> [[c]] | seg # segs \<Rightarrow> (c # seg) # segs)"

lemma segments_nonempty [simp]: "segments s \<noteq> []"
  by (cases s) (auto split: list.splits)

lemma segments_Cons:
  "segments (c # cs) = (if is_sep c then [] # segments cs else (c # hd (segments cs)) # tl (segments cs))"
  by (cases "segments cs") simp_all

declare segments.simps(2) [simp del]
declare segments_Cons [simp]

lemma dot_not_sep [simp]: "\<not> is_sep (CHR ''.'')"
  by (simp add: is_sep_def)

lemma hd_segments_Nil: "hd (segments cs) = [] \<longleftrightarrow> cs = [] \<or> is_sep (hd cs)"
  by (cases cs) simp_all

lemma hd_segments_Cons:
  "hd (segments s) = c # seg \<Longrightarrow> \<exists>cs. s = c # cs \<and> hd (segments cs) = seg"
  by (cases s) (auto split: if_splits)

lemma hd_segments_dotdot:
  assumes "hd (segments s) = ''..''"
  obtains cs where "s = CHR ''.'' # CHR ''.'' # cs" "cs = [] \<or> is_sep (hd cs)"
  using assms by (auto dest!: hd_segments_Cons simp: hd_segments_Nil)

lemma dotdot_inside_Cons: "dotdot_inside (is_sep c) cs \<Longrightarrow> dotdot_inside start (c # cs)"
  by (cases "(is_sep c, cs)" rule: dotdot_inside.cases) auto

lemma dotdot_segment_found:
  "''..'' \<in> set (tl (segments s)) \<Longrightarrow>
   dotdot_inside start s \<or> (\<exists>p sep. is_sep sep \<and> s = p @ [sep, CHR ''.'', CHR ''.''])"
proof (induction s arbitrary: start)
  case (Cons c cs)
  show ?case
  proof (cases "''..'' \<in> set (tl (segments cs))")
    case True
    from Cons.IH [OF True, of "is_sep c"] show ?thesis
      by (metis append_Cons dotdot_inside_Cons)
  next
    case False
    have "set (segments cs) = insert (hd (segments cs)) (set (tl (segments cs)))"
      by (metis list.collapse list.simps(15) segments_nonempty)
    with False Cons.prems have c: "is_sep c" and "hd (segments cs) = ''..''"
      by (auto split: if_splits)
    then obtain ds where ds: "cs = CHR ''.'' # CHR ''.'' # ds" "ds = [] \<or> is_sep (hd ds)"
      by (elim hd_segments_dotdot)
    show ?thesis
    proof (cases ds)
      case Nil
      with c ds have "c # cs = [] @ [c, CHR ''.'', CHR ''.'']" by simp
      with c show ?thesis by blast
    next
      case (Cons e es)
      with c ds have "dotdot_inside (is_sep c) cs" by simp
      then show ?thesis by (blast intro: dotdot_inside_Cons)
    qed
  qed
qed simp

lemma absolute_head:
  "isUnixAbsolute s \<or> isWindowsAbsolute s \<Longrightarrow> s = CHR ''.'' # cs \<Longrightarrow> False"
  by (auto simp: isUnixAbsolute_def isWindowsAbsolute_def is_upper_def is_lower_def split: list.splits)

lemma traversal_complete:
  assumes "isUnixAbsolute s \<or> isWindowsAbsolute s" and "''..'' \<in> set (segments s)"
  shows "path_traversal s"
proof -
  have "hd (segments s) \<noteq> ''..''"
    by (rule notI, erule hd_segments_dotdot) (use assms(1) absolute_head in blast)
  with assms(2) have "''..'' \<in> set (tl (segments s))"
    by (metis list.collapse segments_nonempty set_ConsD)
  from dotdot_segment_found [OF this, of True] show ?thesis
    by (auto simp: path_traversal_def is_sep_def suffix_def)
qed

text \<open>
  A shell the SPAWN handler accepts is an absolute path of at most 4096 characters, all from
  the allowlist (so no shell metacharacter and no NUL), and none of its segments is \<open>..\<close>,
  whichever of the two separators the segments are split at.
\<close>

theorem validateShell_accepts:
  assumes "validateShell (JStr shell) = None"
  shows "0 < length shell \<and> length shell \<le> 4096
    \<and> (isUnixAbsolute shell \<or> isWindowsAbsolute shell)
    \<and> (\<forall>c \<in> set shell. path_char c \<and> \<not> shell_meta c \<and> c \<noteq> CHR 0x00)
    \<and> ''..'' \<notin> set (segments shell)"
  using assms traversal_complete [of shell]
  by (auto simp: list_all_iff list_ex_iff split: if_splits)

theorem validateShell_accepts_witness:
  "validateShell (JStr ''/bin/bash'') = None \<and> ''..'' \<notin> set (segments ''/bin/bash'')"
proof -
  have "validateShell (JStr ''/bin/bash'') = None" by code_simp
  with validateShell_accepts [OF this] show ?thesis by blast
qed

end
