(* ===== verification/Write_Lock.thy ===== *)
theory Write_Lock
  imports Validation
begin

text \<open>
  The write lock of \<^verbatim>\<open>packages/hub/src/session/write-lock.ts\<close> (\<open>WriteLockManager\<close>) and the
  WebSocket handlers in front of it (\<^verbatim>\<open>ws/handlers/write-lock.ts\<close>). The record holds the
  manager's four maps, \<open>stopped\<close>, the timers set and neither cleared nor fired, and the log of
  the callbacks made. Every method is a function on that record; the runs of the manager are
  the sequences of its events, a timer firing being one of them.
\<close>

section \<open>State and messages\<close>

record ClientWindow =
  tokenId :: string
  windowId :: string

type_synonym window_key = string
type_synonym timer_id = nat

record Reservation =
  window :: window_key
  timer :: timer_id

datatype wl_message =
    WRITE_LOCK channel_id "client_id option" bool
  | WRITE_REQUEST channel_id client_id
  | WRITE_DENY channel_id client_id
  | WRITE_REVOKED channel_id

datatype wl_effect =
    SendToClient client_id wl_message
  | BroadcastToChannel channel_id wl_message
  | OnForce channel_id client_id client_id
  | OnChange channel_id

record WriteLockManager =
  holders :: "(channel_id, client_id) jmap"
  attached :: "(channel_id, client_id jset) jmap"
  windows :: "(client_id, window_key) jmap"
  reservations :: "(channel_id, Reservation) jmap"
  stopped :: bool
  timers :: "(timer_id \<times> channel_id) list"
  next_timer :: timer_id
  effects :: "wl_effect list"

definition wl_init :: WriteLockManager where
  "wl_init = \<lparr>holders = [], attached = [], windows = [], reservations = [], stopped = False,
     timers = [], next_timer = 0, effects = []\<rparr>"

definition emit :: "wl_effect \<Rightarrow> WriteLockManager \<Rightarrow> WriteLockManager" where
  "emit e s = s\<lparr>effects := effects s @ [e]\<rparr>"

section \<open>The key of a window: JSON of its token and its id\<close>

definition hex_digit :: "nat \<Rightarrow> char" where
  "hex_digit n = char_of (if n < 10 then 48 + n else 87 + n)"

definition json_escape :: "char \<Rightarrow> string" where
  "json_escape c =
     (let n = of_char c :: nat in
      if n = 34 then [CHR 0x5C, CHR 0x22]
      else if n = 92 then [CHR 0x5C, CHR 0x5C]
      else if n = 8 then [CHR 0x5C, CHR ''b'']
      else if n = 9 then [CHR 0x5C, CHR ''t'']
      else if n = 10 then [CHR 0x5C, CHR ''n'']
      else if n = 12 then [CHR 0x5C, CHR ''f'']
      else if n = 13 then [CHR 0x5C, CHR ''r'']
      else if n < 32 then [CHR 0x5C, CHR ''u'', CHR ''0'', CHR ''0'', hex_digit (n div 16), hex_digit (n mod 16)]
      else [c])"

definition json_string :: "string \<Rightarrow> string" where
  "json_string s = CHR 0x22 # concat (map json_escape s) @ [CHR 0x22]"

definition windowKey :: "ClientWindow \<Rightarrow> window_key" where
  "windowKey w = ''['' @ json_string (tokenId w) @ '','' @ json_string (windowId w) @ '']''"

section \<open>Private helpers\<close>

definition lockMessage :: "channel_id \<Rightarrow> client_id option \<Rightarrow> bool \<Rightarrow> wl_message" where
  "lockMessage channelId holder reserved = WRITE_LOCK channelId holder reserved"

definition broadcastLock :: "channel_id \<Rightarrow> client_id option \<Rightarrow> bool \<Rightarrow> WriteLockManager \<Rightarrow> WriteLockManager" where
  "broadcastLock channelId holder reserved s =
     emit (OnChange channelId) (emit (BroadcastToChannel channelId (lockMessage channelId holder reserved)) s)"

definition endReservation :: "channel_id \<Rightarrow> WriteLockManager \<Rightarrow> WriteLockManager" where
  "endReservation channelId s =
     (case map_get (reservations s) channelId of
        None \<Rightarrow> s
      | Some r \<Rightarrow> s\<lparr>timers := filter (\<lambda>t. fst t \<noteq> timer r) (timers s),
                    reservations := map_delete channelId (reservations s)\<rparr>)"

definition verifyHolder :: "WriteLockManager \<Rightarrow> channel_id \<Rightarrow> client_id \<Rightarrow> bool" where
  "verifyHolder s channelId clientId = (map_get (holders s) channelId = Some clientId)"

definition setHolder :: "channel_id \<Rightarrow> client_id \<Rightarrow> WriteLockManager \<Rightarrow> WriteLockManager" where
  "setHolder channelId clientId s =
     broadcastLock channelId (Some clientId) False (s\<lparr>holders := map_set channelId clientId (holders s)\<rparr>)"

definition grantToSoleAttachedClient :: "channel_id \<Rightarrow> WriteLockManager \<Rightarrow> WriteLockManager" where
  "grantToSoleAttachedClient channelId s =
     (if map_has (holders s) channelId then s
      else case map_get (attached s) channelId of
          Some [only] \<Rightarrow> setHolder channelId only s
        | _ \<Rightarrow> s)"

definition keepFor :: "channel_id \<Rightarrow> window_key \<Rightarrow> WriteLockManager \<Rightarrow> WriteLockManager" where
  "keepFor channelId w s =
     (case List.find (\<lambda>other. map_get (windows s) other = Some w)
             (case map_get (attached s) channelId of None \<Rightarrow> [] | Some clients \<Rightarrow> clients) of
        Some other \<Rightarrow> setHolder channelId other s
      | None \<Rightarrow> broadcastLock channelId None True
          (s\<lparr>timers := timers s @ [(next_timer s, channelId)], next_timer := Suc (next_timer s),
             reservations := map_set channelId \<lparr>window = w, timer = next_timer s\<rparr> (reservations s)\<rparr>))"

definition graceEnded :: "channel_id \<Rightarrow> WriteLockManager \<Rightarrow> WriteLockManager" where
  "graceEnded channelId s =
     grantToSoleAttachedClient channelId
       (broadcastLock channelId None False (s\<lparr>reservations := map_delete channelId (reservations s)\<rparr>))"

section \<open>Public methods\<close>

definition identify :: "client_id \<Rightarrow> ClientWindow \<Rightarrow> WriteLockManager \<Rightarrow> WriteLockManager" where
  "identify clientId w s = s\<lparr>windows := map_set clientId (windowKey w) (windows s)\<rparr>"

definition attach :: "channel_id \<Rightarrow> client_id \<Rightarrow> WriteLockManager \<Rightarrow> WriteLockManager" where
  "attach channelId clientId s =
     (let clients = (case map_get (attached s) channelId of None \<Rightarrow> [] | Some cs \<Rightarrow> cs);
          s = s\<lparr>attached := map_set channelId (set_add clientId clients) (attached s)\<rparr>
      in case map_get (reservations s) channelId of
          Some reservation \<Rightarrow>
            if map_get (windows s) clientId = Some (window reservation)
            then setHolder channelId clientId (endReservation channelId s)
            else emit (SendToClient clientId (lockMessage channelId None True)) s
        | None \<Rightarrow>
            (case map_get (holders s) channelId of
               None \<Rightarrow> setHolder channelId clientId s
             | Some holder \<Rightarrow> emit (SendToClient clientId (WRITE_LOCK channelId (Some holder) False)) s))"

definition freeAndHandOn :: "channel_id \<Rightarrow> WriteLockManager \<Rightarrow> WriteLockManager" where
  "freeAndHandOn channelId s = grantToSoleAttachedClient channelId (broadcastLock channelId None False s)"

definition detach :: "channel_id \<Rightarrow> client_id \<Rightarrow> WriteLockManager \<Rightarrow> WriteLockManager" where
  "detach channelId clientId s =
     (let s = (case map_get (attached s) channelId of
                 None \<Rightarrow> s
               | Some clients \<Rightarrow> s\<lparr>attached := map_set channelId (set_delete clientId clients) (attached s)\<rparr>)
      in if map_get (holders s) channelId = Some clientId
         then freeAndHandOn channelId (s\<lparr>holders := map_delete channelId (holders s)\<rparr>)
         else s)"

text \<open>JavaScript truthiness of a looked-up id: absent and empty are false.\<close>

definition truthy_id :: "string option \<Rightarrow> bool" where
  "truthy_id x = (case x of None \<Rightarrow> False | Some i \<Rightarrow> i \<noteq> [])"

definition claim :: "channel_id \<Rightarrow> client_id \<Rightarrow> WriteLockManager \<Rightarrow> WriteLockManager" where
  "claim channelId clientId s =
     (let current = map_get (holders s) channelId in
      if \<not> truthy_id current then setHolder channelId clientId (endReservation channelId s)
      else if current = Some clientId then s
      else emit (SendToClient (the current) (WRITE_REQUEST channelId clientId)) s)"

definition grant :: "channel_id \<Rightarrow> client_id \<Rightarrow> client_id \<Rightarrow> WriteLockManager \<Rightarrow> WriteLockManager" where
  "grant channelId fromClientId toClientId s =
     (if \<not> verifyHolder s channelId fromClientId then s else setHolder channelId toClientId s)"

definition deny :: "channel_id \<Rightarrow> client_id \<Rightarrow> client_id \<Rightarrow> WriteLockManager \<Rightarrow> WriteLockManager" where
  "deny channelId fromClientId toClientId s =
     (if \<not> verifyHolder s channelId fromClientId then s
      else emit (SendToClient toClientId (WRITE_DENY channelId toClientId)) s)"

definition force_lock :: "channel_id \<Rightarrow> client_id \<Rightarrow> WriteLockManager \<Rightarrow> WriteLockManager" where
  "force_lock channelId clientId s =
     (let current = map_get (holders s) channelId;
          s = (if truthy_id current \<and> current \<noteq> Some clientId
               then emit (OnForce channelId clientId (the current))
                      (emit (SendToClient (the current) (WRITE_REVOKED channelId)) s)
               else s)
      in setHolder channelId clientId (endReservation channelId s))"

definition release :: "channel_id \<Rightarrow> client_id \<Rightarrow> WriteLockManager \<Rightarrow> WriteLockManager" where
  "release channelId clientId s =
     (if \<not> verifyHolder s channelId clientId then s
      else broadcastLock channelId None False (s\<lparr>holders := map_delete channelId (holders s)\<rparr>))"

definition isHolder :: "WriteLockManager \<Rightarrow> channel_id \<Rightarrow> client_id \<Rightarrow> bool" where
  "isHolder s channelId clientId = (map_get (holders s) channelId = Some clientId)"

definition isWriteLockHolder :: "WriteLockManager \<Rightarrow> channel_id \<Rightarrow> client_id \<Rightarrow> bool" where
  "isWriteLockHolder s channelId clientId =
     (if map_has (reservations s) channelId then False
      else case map_get (holders s) channelId of None \<Rightarrow> True | Some holder \<Rightarrow> holder = clientId)"

definition getHolder :: "WriteLockManager \<Rightarrow> channel_id \<Rightarrow> client_id option" where
  "getHolder s channelId = map_get (holders s) channelId"

definition heldBy :: "WriteLockManager \<Rightarrow> client_id \<Rightarrow> channel_id list" where
  "heldBy s clientId = map fst (filter (\<lambda>h. snd h = clientId) (holders s))"

text \<open>What a disconnect does with each lock it freed: kept for a known window, else handed on.\<close>

definition keepOrHandOn :: "window_key option \<Rightarrow> WriteLockManager \<Rightarrow> channel_id \<Rightarrow> WriteLockManager" where
  "keepOrHandOn w s channelId =
     (case w of
        Some w \<Rightarrow> if \<not> stopped s then keepFor channelId w s else freeAndHandOn channelId s
      | None \<Rightarrow> freeAndHandOn channelId s)"

definition onClientDisconnect :: "client_id \<Rightarrow> WriteLockManager \<Rightarrow> WriteLockManager" where
  "onClientDisconnect clientId s =
     (let w = map_get (windows s) clientId;
          freed = map fst (filter (\<lambda>h. snd h = clientId) (holders s));
          s = s\<lparr>windows := map_delete clientId (windows s),
                holders := filter (\<lambda>h. snd h \<noteq> clientId) (holders s),
                attached := map (\<lambda>(ch, cs). (ch, set_delete clientId cs)) (attached s)\<rparr>
      in foldl (keepOrHandOn w) s freed)"

definition removeChannel :: "channel_id \<Rightarrow> WriteLockManager \<Rightarrow> WriteLockManager" where
  "removeChannel channelId s =
     (let s = endReservation channelId s in
      s\<lparr>holders := map_delete channelId (holders s), attached := map_delete channelId (attached s)\<rparr>)"

definition shutdown :: "WriteLockManager \<Rightarrow> WriteLockManager" where
  "shutdown s =
     s\<lparr>stopped := True,
       timers := filter (\<lambda>t. \<forall>r \<in> set (reservations s). fst t \<noteq> timer (snd r)) (timers s),
       reservations := [], holders := [], attached := [], windows := []\<rparr>"

section \<open>Runs\<close>

datatype wl_event =
    Identify client_id ClientWindow
  | Attach channel_id client_id
  | Detach channel_id client_id
  | Claim channel_id client_id
  | Grant channel_id client_id client_id
  | Deny channel_id client_id client_id
  | Force channel_id client_id
  | Release channel_id client_id
  | Disconnect client_id
  | RemoveChannel channel_id
  | Shutdown
  | GraceEnded timer_id channel_id

fun wl_enabled :: "WriteLockManager \<Rightarrow> wl_event \<Rightarrow> bool" where
  "wl_enabled s (GraceEnded t ch) = ((t, ch) \<in> set (timers s))"
| "wl_enabled s _ = True"

fun wl_step :: "WriteLockManager \<Rightarrow> wl_event \<Rightarrow> WriteLockManager" where
  "wl_step s (Identify c w) = identify c w s"
| "wl_step s (Attach ch c) = attach ch c s"
| "wl_step s (Detach ch c) = detach ch c s"
| "wl_step s (Claim ch c) = claim ch c s"
| "wl_step s (Grant ch c d) = grant ch c d s"
| "wl_step s (Deny ch c d) = deny ch c d s"
| "wl_step s (Force ch c) = force_lock ch c s"
| "wl_step s (Release ch c) = release ch c s"
| "wl_step s (Disconnect c) = onClientDisconnect c s"
| "wl_step s (RemoveChannel ch) = removeChannel ch s"
| "wl_step s Shutdown = shutdown s"
| "wl_step s (GraceEnded t ch) = graceEnded ch (s\<lparr>timers := filter (\<lambda>x. fst x \<noteq> t) (timers s)\<rparr>)"

definition wl_run :: "wl_event list \<Rightarrow> WriteLockManager" where
  "wl_run es = foldl wl_step wl_init es"

section \<open>The WebSocket handlers\<close>

datatype wl_reply = ErrorReply string string | LockUpdated WriteLockManager

definition with_channel :: "js_value \<Rightarrow> (channel_id \<Rightarrow> WriteLockManager) \<Rightarrow> wl_reply" where
  "with_channel channelId op =
     (if \<not> isValidUlid channelId then ErrorReply ''INVALID_INPUT'' ''Invalid channelId''
      else case channelId of JStr ch \<Rightarrow> LockUpdated (op ch) | _ \<Rightarrow> ErrorReply ''INVALID_INPUT'' ''Invalid channelId'')"

definition handleWriteClaim :: "js_value \<Rightarrow> client_id \<Rightarrow> WriteLockManager \<Rightarrow> wl_reply" where
  "handleWriteClaim channelId clientId s = with_channel channelId (\<lambda>ch. claim ch clientId s)"

definition handleWriteRelease :: "js_value \<Rightarrow> client_id \<Rightarrow> WriteLockManager \<Rightarrow> wl_reply" where
  "handleWriteRelease channelId clientId s = with_channel channelId (\<lambda>ch. release ch clientId s)"

definition handleWriteForce :: "js_value \<Rightarrow> client_id \<Rightarrow> WriteLockManager \<Rightarrow> wl_reply" where
  "handleWriteForce channelId clientId s = with_channel channelId (\<lambda>ch. force_lock ch clientId s)"

definition handleWriteGrant :: "js_value \<Rightarrow> client_id \<Rightarrow> client_id \<Rightarrow> WriteLockManager \<Rightarrow> wl_reply" where
  "handleWriteGrant channelId clientId toClientId s = with_channel channelId (\<lambda>ch. grant ch clientId toClientId s)"

definition handleWriteDeny :: "js_value \<Rightarrow> client_id \<Rightarrow> client_id \<Rightarrow> WriteLockManager \<Rightarrow> wl_reply" where
  "handleWriteDeny channelId clientId toClientId s = with_channel channelId (\<lambda>ch. deny ch clientId toClientId s)"

section \<open>The invariant\<close>

definition kept_free :: "WriteLockManager \<Rightarrow> bool" where
  "kept_free s = (\<forall>ch. map_has (reservations s) ch \<longrightarrow> \<not> map_has (holders s) ch)"

definition timers_ok :: "WriteLockManager \<Rightarrow> bool" where
  "timers_ok s =
     ((\<forall>t ch. (t, ch) \<in> set (timers s) \<longleftrightarrow> (\<exists>r. map_get (reservations s) ch = Some r \<and> timer r = t))
      \<and> distinct (map fst (timers s)) \<and> (\<forall>t \<in> set (timers s). fst t < next_timer s))"

definition wl_inv :: "WriteLockManager \<Rightarrow> bool" where
  "wl_inv s =
     (map_ok (holders s) \<and> map_ok (attached s) \<and> map_ok (windows s) \<and> map_ok (reservations s)
      \<and> (\<forall>ch cs. map_get (attached s) ch = Some cs \<longrightarrow> distinct cs)
      \<and> kept_free s \<and> timers_ok s \<and> (stopped s \<longrightarrow> reservations s = []))"

lemma emit_fields [simp]:
  "holders (emit e s) = holders s" "attached (emit e s) = attached s" "windows (emit e s) = windows s"
  "reservations (emit e s) = reservations s" "stopped (emit e s) = stopped s"
  "timers (emit e s) = timers s" "next_timer (emit e s) = next_timer s"
  "effects (emit e s) = effects s @ [e]"
  by (simp_all add: emit_def)

lemma broadcastLock_fields [simp]:
  "holders (broadcastLock ch h r s) = holders s" "attached (broadcastLock ch h r s) = attached s"
  "windows (broadcastLock ch h r s) = windows s" "reservations (broadcastLock ch h r s) = reservations s"
  "stopped (broadcastLock ch h r s) = stopped s" "timers (broadcastLock ch h r s) = timers s"
  "next_timer (broadcastLock ch h r s) = next_timer s"
  "effects (broadcastLock ch h r s) = effects s @ [BroadcastToChannel ch (WRITE_LOCK ch h r), OnChange ch]"
  by (simp_all add: broadcastLock_def lockMessage_def)

lemma setHolder_fields [simp]:
  "holders (setHolder ch c s) = map_set ch c (holders s)" "attached (setHolder ch c s) = attached s"
  "windows (setHolder ch c s) = windows s" "reservations (setHolder ch c s) = reservations s"
  "stopped (setHolder ch c s) = stopped s" "timers (setHolder ch c s) = timers s"
  "next_timer (setHolder ch c s) = next_timer s"
  "effects (setHolder ch c s) = effects s @ [BroadcastToChannel ch (WRITE_LOCK ch (Some c) False), OnChange ch]"
  by (simp_all add: setHolder_def)

lemma endReservation_fields [simp]:
  "holders (endReservation ch s) = holders s" "attached (endReservation ch s) = attached s"
  "windows (endReservation ch s) = windows s" "stopped (endReservation ch s) = stopped s"
  "next_timer (endReservation ch s) = next_timer s" "effects (endReservation ch s) = effects s"
  "map_get (reservations (endReservation ch s)) ch' = (if ch' = ch then None else map_get (reservations s) ch')"
  "map_has (reservations (endReservation ch s)) ch' = (ch' \<noteq> ch \<and> map_has (reservations s) ch')"
  by (auto simp: endReservation_def map_has_def split: option.split)

lemma wl_inv_emit [simp]: "wl_inv (emit e s) = wl_inv s"
  by (simp add: wl_inv_def kept_free_def timers_ok_def)

lemma wl_inv_broadcastLock [simp]: "wl_inv (broadcastLock ch h r s) = wl_inv s"
  by (simp add: broadcastLock_def)

lemma wl_inv_setHolder [inv_intros]:
  "wl_inv s \<Longrightarrow> \<not> map_has (reservations s) ch \<Longrightarrow> wl_inv (setHolder ch c s)"
  by (auto simp: wl_inv_def kept_free_def timers_ok_def)

lemma wl_inv_endReservation [inv_intros]: "wl_inv s \<Longrightarrow> wl_inv (endReservation ch s)"
proof (cases "map_get (reservations s) ch")
  case (Some r)
  assume inv: "wl_inv s"
  have "timer r' \<noteq> timer r" if "map_get (reservations s) ch' = Some r'" "ch' \<noteq> ch" for ch' r'
  proof
    assume "timer r' = timer r"
    with that Some inv have "(timer r, ch) \<in> set (timers s)" "(timer r, ch') \<in> set (timers s)"
      by (auto simp: wl_inv_def timers_ok_def)
    moreover have "distinct (map fst (timers s))" using inv by (simp add: wl_inv_def timers_ok_def)
    ultimately show False using that(2) by (auto dest: eq_key_imp_eq_value)
  qed
  with inv Some show ?thesis
    by (auto simp: wl_inv_def endReservation_def kept_free_def timers_ok_def distinct_map_filter)
qed (simp add: endReservation_def)

lemma wl_inv_grantToSole [inv_intros]:
  "wl_inv s \<Longrightarrow> \<not> map_has (reservations s) ch \<Longrightarrow> wl_inv (grantToSoleAttachedClient ch s)"
  by (auto simp: grantToSoleAttachedClient_def intro: wl_inv_setHolder split: option.split list.split)

lemma wl_inv_freeAndHandOn [inv_intros]:
  "wl_inv s \<Longrightarrow> \<not> map_has (reservations s) ch \<Longrightarrow> wl_inv (freeAndHandOn ch s)"
  by (simp add: freeAndHandOn_def wl_inv_grantToSole)

lemma wl_inv_keepFor [inv_intros]:
  assumes inv: "wl_inv s" and free: "\<not> map_has (holders s) ch" "\<not> map_has (reservations s) ch" and run: "\<not> stopped s"
  shows "wl_inv (keepFor ch w s)"
proof -
  let ?r = "\<lparr>window = w, timer = next_timer s\<rparr>"
  let ?s = "s\<lparr>timers := timers s @ [(next_timer s, ch)], next_timer := Suc (next_timer s),
     reservations := map_set ch ?r (reservations s)\<rparr>"
  have "timer r < next_timer s" if "map_get (reservations s) ch' = Some r" for ch' r
    using inv that by (force simp: wl_inv_def timers_ok_def)
  then have "timers_ok ?s" using inv free
    by (fastforce simp: wl_inv_def timers_ok_def map_has_def)
  then have "wl_inv ?s" using inv free run by (auto simp: wl_inv_def kept_free_def)
  then show ?thesis using inv free by (auto simp: keepFor_def intro: wl_inv_setHolder split: option.split)
qed

lemma wl_inv_drop_holders:
  "wl_inv s \<Longrightarrow> map_ok h \<Longrightarrow> (\<And>ch. map_has h ch \<Longrightarrow> map_has (holders s) ch) \<Longrightarrow> wl_inv (s\<lparr>holders := h\<rparr>)"
  by (auto simp: wl_inv_def kept_free_def timers_ok_def)

lemma wl_inv_attached:
  "wl_inv s \<Longrightarrow> map_ok a \<Longrightarrow> (\<And>ch cs. map_get a ch = Some cs \<Longrightarrow> distinct cs) \<Longrightarrow> wl_inv (s\<lparr>attached := a\<rparr>)"
  by (auto simp: wl_inv_def kept_free_def timers_ok_def)

lemma map_get_filter_value:
  "map_ok m \<Longrightarrow> map_get (filter (\<lambda>h. snd h \<noteq> v) m) k =
     (case map_get m k of Some v' \<Rightarrow> if v' = v then None else Some v' | None \<Rightarrow> None)"
  using map_get_filter [of m "\<lambda>v'. v' \<noteq> v" k] by (auto simp: case_prod_unfold split: option.splits if_splits)

lemma map_get_map_values: "map_get (map (\<lambda>(k, v). (k, f v)) m) k = map_option f (map_get m k)"
  by (induction m) auto

lemma map_ok_map_values: "map_ok (map (\<lambda>(k, v). (k, f v)) m) = map_ok m"
  by (simp add: map_ok_def comp_def case_prod_unfold)

text \<open>A disconnect once its client is out of every map, and the locks it freed.\<close>

definition departed :: "client_id \<Rightarrow> WriteLockManager \<Rightarrow> WriteLockManager" where
  "departed c s =
     s\<lparr>windows := map_delete c (windows s), holders := filter (\<lambda>h. snd h \<noteq> c) (holders s),
       attached := map (\<lambda>(ch, cs). (ch, set_delete c cs)) (attached s)\<rparr>"

lemma onClientDisconnect_alt:
  "onClientDisconnect c s = foldl (keepOrHandOn (map_get (windows s) c)) (departed c s) (heldBy s c)"
  by (simp add: onClientDisconnect_def departed_def heldBy_def Let_def)

lemma in_heldBy: "map_ok (holders s) \<Longrightarrow> ch \<in> set (heldBy s c) \<longleftrightarrow> map_get (holders s) ch = Some c"
  by (force simp: heldBy_def intro: in_set_map_get dest: map_get_in_set)

lemma distinct_heldBy: "map_ok (holders s) \<Longrightarrow> distinct (heldBy s c)"
  by (simp add: heldBy_def map_ok_def distinct_map_filter)

lemma departed_fields [simp]:
  "reservations (departed c s) = reservations s" "stopped (departed c s) = stopped s"
  "timers (departed c s) = timers s" "next_timer (departed c s) = next_timer s"
  "effects (departed c s) = effects s" "windows (departed c s) = map_delete c (windows s)"
  "map_get (attached (departed c s)) ch = map_option (set_delete c) (map_get (attached s) ch)"
  by (simp_all add: departed_def map_get_map_values)

lemma departed_holders:
  "map_ok (holders s) \<Longrightarrow> map_get (holders (departed c s)) ch =
     (case map_get (holders s) ch of Some h \<Rightarrow> if h = c then None else Some h | None \<Rightarrow> None)"
  by (simp add: departed_def map_get_filter_value)

lemma wl_inv_departed [inv_intros]: "wl_inv s \<Longrightarrow> wl_inv (departed c s)"
  by (auto simp: wl_inv_def kept_free_def timers_ok_def departed_def map_has_def map_get_filter_value
      map_ok_filter map_get_map_values map_ok_map_values split: option.splits)

lemma wl_inv_keepOrHandOn [inv_intros]:
  "wl_inv s \<Longrightarrow> \<not> map_has (holders s) ch \<Longrightarrow> \<not> map_has (reservations s) ch \<Longrightarrow> wl_inv (keepOrHandOn w s ch)"
  by (auto simp: keepOrHandOn_def wl_inv_keepFor wl_inv_freeAndHandOn split: option.split)

text \<open>Each channel's part of the state: its holder, and the claim kept on it.\<close>

definition lock_of :: "WriteLockManager \<Rightarrow> channel_id \<Rightarrow> client_id option \<times> Reservation option" where
  "lock_of s ch = (map_get (holders s) ch, map_get (reservations s) ch)"

lemma grantToSole_other: "ch' \<noteq> ch \<Longrightarrow> lock_of (grantToSoleAttachedClient ch s) ch' = lock_of s ch'"
  by (simp add: grantToSoleAttachedClient_def lock_of_def split: option.split list.split)

lemma keepOrHandOn_other: "ch' \<noteq> ch \<Longrightarrow> lock_of (keepOrHandOn w s ch) ch' = lock_of s ch'"
  by (auto simp: keepOrHandOn_def keepFor_def freeAndHandOn_def grantToSole_other lock_of_def split: option.split)
    (metis broadcastLock_fields(1,4) grantToSole_other lock_of_def prod.inject)+

lemma fold_keepOrHandOn_other:
  "ch' \<notin> set chs \<Longrightarrow> lock_of (foldl (keepOrHandOn w) s chs) ch' = lock_of s ch'"
  by (induction chs arbitrary: s) (auto simp: keepOrHandOn_other)

lemma lock_of_has:
  "lock_of s ch = lock_of t ch' \<Longrightarrow> map_has (holders s) ch = map_has (holders t) ch'"
  "lock_of s ch = lock_of t ch' \<Longrightarrow> map_has (reservations s) ch = map_has (reservations t) ch'"
  by (auto simp: lock_of_def map_has_def)

lemma wl_inv_fold_keepOrHandOn:
  "wl_inv s \<Longrightarrow> distinct chs \<Longrightarrow> (\<And>ch. ch \<in> set chs \<Longrightarrow> lock_of s ch = (None, None)) \<Longrightarrow>
   wl_inv (foldl (keepOrHandOn w) s chs)"
proof (induction chs arbitrary: s)
  case (Cons ch chs)
  then have "wl_inv (keepOrHandOn w s ch)"
    by (intro wl_inv_keepOrHandOn) (auto simp: lock_of_def map_has_def)
  moreover have "lock_of (keepOrHandOn w s ch) ch' = (None, None)" if "ch' \<in> set chs" for ch'
    using that Cons.prems keepOrHandOn_other [of ch' ch w s] by fastforce
  ultimately show ?case using Cons by simp
qed simp

lemma freed_unlocked: "wl_inv s \<Longrightarrow> ch \<in> set (heldBy s c) \<Longrightarrow> lock_of (departed c s) ch = (None, None)"
  by (force simp: wl_inv_def kept_free_def in_heldBy lock_of_def departed_holders map_has_def)

lemma wl_inv_onClientDisconnect [inv_intros]: "wl_inv s \<Longrightarrow> wl_inv (onClientDisconnect c s)"
  unfolding onClientDisconnect_alt
  by (rule wl_inv_fold_keepOrHandOn) (auto simp: wl_inv_departed freed_unlocked distinct_heldBy wl_inv_def [of s])

lemma wl_inv_attach [inv_intros]: "wl_inv s \<Longrightarrow> wl_inv (attach ch c s)"
proof -
  assume inv: "wl_inv s"
  let ?cs = "case map_get (attached s) ch of None \<Rightarrow> [] | Some cs \<Rightarrow> cs"
  let ?s = "s\<lparr>attached := map_set ch (set_add c ?cs) (attached s)\<rparr>"
  have "wl_inv ?s" using inv
    by (intro wl_inv_attached) (auto simp: wl_inv_def split: if_splits option.splits)
  then show ?thesis unfolding attach_def Let_def
    by (auto intro!: wl_inv_setHolder wl_inv_endReservation simp: map_has_def split: option.split)
qed

lemma wl_inv_detach [inv_intros]: "wl_inv s \<Longrightarrow> wl_inv (detach ch c s)"
proof -
  assume inv: "wl_inv s"
  let ?s = "case map_get (attached s) ch of None \<Rightarrow> s
    | Some cs \<Rightarrow> s\<lparr>attached := map_set ch (set_delete c cs) (attached s)\<rparr>"
  have "wl_inv ?s" using inv
    by (auto simp: wl_inv_def kept_free_def timers_ok_def split: option.split if_splits)
  moreover have "\<not> map_has (reservations ?s) ch" if "map_get (holders ?s) ch = Some c"
    using \<open>wl_inv ?s\<close> that by (auto simp: wl_inv_def kept_free_def map_has_def)
  ultimately show ?thesis unfolding detach_def Let_def
    by (auto intro!: wl_inv_freeAndHandOn wl_inv_drop_holders simp: wl_inv_def [of ?s])
qed

lemma wl_inv_held: "wl_inv s \<Longrightarrow> verifyHolder s ch c \<Longrightarrow> \<not> map_has (reservations s) ch"
  by (auto simp: wl_inv_def kept_free_def verifyHolder_def map_has_def)

lemma wl_inv_claim [inv_intros]: "wl_inv s \<Longrightarrow> wl_inv (claim ch c s)"
  by (auto simp: claim_def Let_def intro!: wl_inv_setHolder wl_inv_endReservation)

lemma wl_inv_grant [inv_intros]: "wl_inv s \<Longrightarrow> wl_inv (grant ch c d s)"
  by (auto simp: grant_def wl_inv_held intro!: wl_inv_setHolder)

lemma wl_inv_deny [inv_intros]: "wl_inv s \<Longrightarrow> wl_inv (deny ch c d s)"
  by (simp add: deny_def)

lemma wl_inv_force [inv_intros]: "wl_inv s \<Longrightarrow> wl_inv (force_lock ch c s)"
  by (auto simp: force_lock_def Let_def intro!: wl_inv_setHolder wl_inv_endReservation)

lemma wl_inv_release [inv_intros]: "wl_inv s \<Longrightarrow> wl_inv (release ch c s)"
  by (auto simp: release_def intro!: wl_inv_drop_holders simp: wl_inv_def [of s])

lemma wl_inv_identify [inv_intros]: "wl_inv s \<Longrightarrow> wl_inv (identify c w s)"
  by (simp add: identify_def wl_inv_def kept_free_def timers_ok_def)

lemma wl_inv_removeChannel [inv_intros]: "wl_inv s \<Longrightarrow> wl_inv (removeChannel ch s)"
  using wl_inv_endReservation [of s ch]
  by (auto simp: removeChannel_def Let_def wl_inv_def kept_free_def timers_ok_def)

lemma wl_inv_shutdown [inv_intros]: "wl_inv s \<Longrightarrow> wl_inv (shutdown s)"
proof -
  assume inv: "wl_inv s"
  have "filter (\<lambda>t. \<forall>r \<in> set (reservations s). fst t \<noteq> timer (snd r)) (timers s) = []"
    using inv by (fastforce simp: filter_empty_conv wl_inv_def timers_ok_def dest: map_get_in_set)
  then show ?thesis by (simp add: shutdown_def wl_inv_def kept_free_def timers_ok_def)
qed

lemma wl_inv_graceEnded [inv_intros]:
  assumes inv: "wl_inv s" and live: "(t, ch) \<in> set (timers s)"
  shows "wl_inv (wl_step s (GraceEnded t ch))"
proof -
  obtain r where r: "map_get (reservations s) ch = Some r" "timer r = t"
    using inv live by (auto simp: wl_inv_def timers_ok_def)
  then have "s\<lparr>timers := filter (\<lambda>x. fst x \<noteq> t) (timers s), reservations := map_delete ch (reservations s)\<rparr>
      = endReservation ch s" by (simp add: endReservation_def)
  with wl_inv_endReservation [OF inv, of ch] show ?thesis
    by (auto simp: graceEnded_def intro!: wl_inv_grantToSole)
qed

lemma wl_inv_step: "wl_inv s \<Longrightarrow> wl_enabled s e \<Longrightarrow> wl_inv (wl_step s e)"
  by (cases e) (auto intro: inv_intros simp del: wl_step.simps(12))

interpretation wl: event_machine wl_init wl_enabled wl_step wl_inv
  by unfold_locales
    (auto simp: wl_inv_step, simp add: wl_init_def wl_inv_def kept_free_def timers_ok_def)

lemma wl_run_inv: "runs wl_enabled wl_step wl_init es \<Longrightarrow> wl_inv (wl_run es)"
  by (simp add: wl_run_def wl.inv_run)

section \<open>Properties of the lock\<close>

text \<open>
  C1: in every run, a lock kept for a window that left is held by nobody and lets nobody type,
  and exactly the kept locks have a grace timer running, one each: no timer outlives its
  claim and no claim is without one.
\<close>

theorem kept_lock_invariant:
  assumes "runs wl_enabled wl_step wl_init es"
  shows "(map_has (reservations (wl_run es)) ch \<longrightarrow>
            getHolder (wl_run es) ch = None \<and> (\<forall>c. \<not> isWriteLockHolder (wl_run es) ch c)
            \<and> (\<exists>!t. (t, ch) \<in> set (timers (wl_run es))))
    \<and> ((\<exists>t. (t, ch) \<in> set (timers (wl_run es))) \<longrightarrow> map_has (reservations (wl_run es)) ch)"
proof -
  have "kept_free (wl_run es)" "timers_ok (wl_run es)"
    using wl_run_inv [OF assms] by (simp_all add: wl_inv_def)
  then show ?thesis
    by (auto simp: kept_free_def timers_ok_def getHolder_def isWriteLockHolder_def map_has_def)
qed

theorem kept_lock_invariant_witness:
  "let es = [Identify ''A'' \<lparr>tokenId = ''t'', windowId = ''w''\<rparr>, Attach ''c'' ''A'', Attach ''c'' ''B'', Disconnect ''A'']
   in map_has (reservations (wl_run es)) ''c'' \<and> \<not> isWriteLockHolder (wl_run es) ''c'' ''B''"
proof -
  let ?es = "[Identify ''A'' \<lparr>tokenId = ''t'', windowId = ''w''\<rparr>, Attach ''c'' ''A'', Attach ''c'' ''B'', Disconnect ''A'']"
  have "runs wl_enabled wl_step wl_init ?es" by simp
  note kept_lock_invariant [OF this, of "''c''"]
  moreover have "map_has (reservations (wl_run ?es)) ''c''" by code_simp
  ultimately show ?thesis unfolding Let_def by blast
qed

text \<open>How one event can change the holder of a channel.\<close>

lemma grantToSole_held: "map_has (holders s) ch \<Longrightarrow> grantToSoleAttachedClient ch s = s"
  by (simp add: grantToSoleAttachedClient_def)

lemma lock_of_holder: "fst (lock_of s ch) = getHolder s ch"
  by (simp add: lock_of_def getHolder_def)

lemma getHolder_eq: "lock_of s ch = lock_of t ch \<Longrightarrow> getHolder s ch = getHolder t ch"
  by (metis lock_of_holder)

lemma getHolder_disconnect_other:
  assumes "wl_inv s" "getHolder s ch = Some h" "c \<noteq> h"
  shows "getHolder (onClientDisconnect c s) ch = Some h"
proof -
  have ok: "map_ok (holders s)" using assms(1) by (simp add: wl_inv_def)
  have "ch \<notin> set (heldBy s c)" using assms ok by (auto simp: in_heldBy getHolder_def)
  then have "getHolder (onClientDisconnect c s) ch = getHolder (departed c s) ch"
    unfolding onClientDisconnect_alt by (intro getHolder_eq fold_keepOrHandOn_other)
  with assms ok show ?thesis by (simp add: getHolder_def departed_holders)
qed

lemma getHolder_freeAndHandOn_other: "ch' \<noteq> ch \<Longrightarrow> getHolder (freeAndHandOn ch s) ch' = getHolder s ch'"
  by (simp add: freeAndHandOn_def lock_of_holder [symmetric] grantToSole_other) (simp add: lock_of_def)

lemma getHolder_detach:
  assumes "getHolder s ch = Some h" "ch' \<noteq> ch \<or> c \<noteq> h"
  shows "getHolder (detach ch' c s) ch = Some h"
  using assms
  by (cases "ch' = ch")
    (auto simp: detach_def Let_def getHolder_def getHolder_freeAndHandOn_other [unfolded getHolder_def] split: option.split)

lemma getHolder_graceEnded:
  assumes "getHolder s ch = Some h" "wl_inv s" "(t, ch') \<in> set (timers s)"
  shows "getHolder (wl_step s (GraceEnded t ch')) ch = Some h"
proof -
  have "ch' \<noteq> ch" using assms by (auto simp: wl_inv_def kept_free_def timers_ok_def getHolder_def map_has_def)
  then show ?thesis using assms(1)
    by (simp add: graceEnded_def lock_of_holder [symmetric] grantToSole_other) (simp add: lock_of_def)
qed

definition takes_lock_from :: "client_id \<Rightarrow> channel_id \<Rightarrow> wl_event \<Rightarrow> bool" where
  "takes_lock_from h ch e =
     (e \<in> {Release ch h, Detach ch h, Disconnect h, RemoveChannel ch, Shutdown}
      \<or> (\<exists>d. e = Grant ch h d) \<or> (\<exists>c. e = Force ch c))"

lemma getHolder_step:
  assumes "wl_inv s" "wl_enabled s e" "getHolder s ch = Some h" "h \<noteq> []" "\<not> takes_lock_from h ch e"
  shows "getHolder (wl_step s e) ch = Some h"
proof (cases e)
  case (Attach ch' c)
  with assms(1,3) show ?thesis
    by (auto simp: attach_def Let_def getHolder_def wl_inv_def kept_free_def map_has_def split: option.splits)
next
  case (Claim ch' c)
  with assms(3,4) show ?thesis by (auto simp: claim_def Let_def getHolder_def truthy_id_def)
next
  case (GraceEnded t ch')
  with assms show ?thesis using getHolder_graceEnded [of s ch h t ch'] by simp
qed (use assms in \<open>auto simp: takes_lock_from_def getHolder_disconnect_other getHolder_detach,
  auto simp: identify_def grant_def deny_def verifyHolder_def force_lock_def release_def removeChannel_def
    getHolder_def Let_def\<close>)

text \<open>
  C19: nobody loses the lock without a say. In every run, the one event that can take a channel's
  lock from its holder is the holder's own (it releases it, grants it, detaches or disconnects),
  the end of the channel or of the hub, or a force; and a force tells the holder it was revoked.
\<close>

theorem held_lock_moves_only_by:
  assumes "runs wl_enabled wl_step wl_init (es @ [e])"
    and "getHolder (wl_run es) ch = Some h" and "h \<noteq> []"
    and "getHolder (wl_run (es @ [e])) ch \<noteq> Some h"
  shows "e \<in> {Release ch h, Detach ch h, Disconnect h, RemoveChannel ch, Shutdown}
    \<or> (\<exists>d. e = Grant ch h d)
    \<or> (\<exists>c new. e = Force ch c \<and> effects (wl_run (es @ [e])) = effects (wl_run es) @ new
         \<and> SendToClient h (WRITE_REVOKED ch) \<in> set new)"
proof -
  let ?s = "wl_run es"
  have inv: "wl_inv ?s" and en: "wl_enabled ?s e"
    using assms(1) by (auto simp: runs_append wl.inv_run wl_run_def)
  have step: "wl_run (es @ [e]) = wl_step ?s e" by (simp add: wl_run_def)
  have "takes_lock_from h ch e" using getHolder_step [OF inv en assms(2,3)] assms(4) step by auto
  moreover have "\<exists>new. effects (wl_step ?s e) = effects ?s @ new \<and> SendToClient h (WRITE_REVOKED ch) \<in> set new"
    if "e = Force ch c" for c
    using that assms(2-4) step by (auto simp: force_lock_def Let_def getHolder_def truthy_id_def)
  ultimately show ?thesis unfolding takes_lock_from_def step by blast
qed

theorem held_lock_moves_only_by_witness:
  "let es = [Attach ''c'' ''A'', Attach ''c'' ''B'']
   in getHolder (wl_run es) ''c'' = Some ''A'' \<and> getHolder (wl_run (es @ [Force ''c'' ''B''])) ''c'' = Some ''B''
    \<and> (\<exists>new. effects (wl_run (es @ [Force ''c'' ''B''])) = effects (wl_run es) @ new
         \<and> SendToClient ''A'' (WRITE_REVOKED ''c'') \<in> set new)"
proof -
  let ?es = "[Attach ''c'' ''A'', Attach ''c'' ''B'']"
  have a: "getHolder (wl_run ?es) ''c'' = Some ''A''" and b: "getHolder (wl_run (?es @ [Force ''c'' ''B''])) ''c'' = Some ''B''"
    by code_simp+
  have "runs wl_enabled wl_step wl_init (?es @ [Force ''c'' ''B''])" by simp
  from held_lock_moves_only_by [OF this a] a b show ?thesis unfolding Let_def by auto
qed

section \<open>A kept lock goes back to its window\<close>

lemma grantToSole_frame [simp]:
  "attached (grantToSoleAttachedClient ch s) = attached s" "windows (grantToSoleAttachedClient ch s) = windows s"
  "stopped (grantToSoleAttachedClient ch s) = stopped s"
  "reservations (grantToSoleAttachedClient ch s) = reservations s"
  by (simp_all add: grantToSoleAttachedClient_def split: option.split list.split)

lemma keepOrHandOn_frame [simp]:
  "attached (keepOrHandOn w s ch) = attached s" "windows (keepOrHandOn w s ch) = windows s"
  "stopped (keepOrHandOn w s ch) = stopped s"
  by (simp_all add: keepOrHandOn_def keepFor_def freeAndHandOn_def split: option.split)

text \<open>The members of a window attached to a channel, of which a disconnect picks the first.\<close>

definition window_attached :: "WriteLockManager \<Rightarrow> channel_id \<Rightarrow> window_key \<Rightarrow> bool" where
  "window_attached s ch w =
     (\<exists>cs. map_get (attached s) ch = Some cs \<and> (\<exists>c \<in> set cs. map_get (windows s) c = Some w))"

definition kept_for :: "WriteLockManager \<Rightarrow> channel_id \<Rightarrow> window_key \<Rightarrow> bool" where
  "kept_for s ch w = (fst (lock_of s ch) = None \<and> map_option window (snd (lock_of s ch)) = Some w)"

lemma keepFor_keeps:
  "\<not> window_attached s ch w \<Longrightarrow> fst (lock_of s ch) = None \<Longrightarrow> kept_for (keepFor ch w s) ch w"
  by (auto simp: keepFor_def kept_for_def lock_of_def window_attached_def find_Some_iff
      split: option.splits dest!: nth_mem)

lemma fold_keeps:
  "distinct chs \<Longrightarrow> ch \<in> set chs \<Longrightarrow> \<not> stopped s \<Longrightarrow> \<not> window_attached s ch w \<Longrightarrow>
   lock_of s ch = (None, None) \<Longrightarrow> kept_for (foldl (keepOrHandOn (Some w)) s chs) ch w"
proof (induction chs arbitrary: s)
  case (Cons ch' chs)
  show ?case
  proof (cases "ch' = ch")
    case True
    with Cons.prems have "kept_for (keepOrHandOn (Some w) s ch) ch w"
      by (simp add: keepOrHandOn_def keepFor_keeps)
    moreover have "ch \<notin> set chs" using Cons.prems True by simp
    ultimately show ?thesis using True by (simp add: kept_for_def fold_keepOrHandOn_other)
  next
    case False
    with Cons show ?thesis by (simp add: window_attached_def keepOrHandOn_other)
  qed
qed simp

text \<open>The events that leave a kept lock alone: the others free it, take it or bring its window back.\<close>

fun waits :: "channel_id \<Rightarrow> window_key \<Rightarrow> WriteLockManager \<Rightarrow> wl_event \<Rightarrow> bool" where
  "waits ch w s (Claim ch' c) = (ch' \<noteq> ch)"
| "waits ch w s (Force ch' c) = (ch' \<noteq> ch)"
| "waits ch w s (RemoveChannel ch') = (ch' \<noteq> ch)"
| "waits ch w s Shutdown = False"
| "waits ch w s (GraceEnded t ch') = (ch' \<noteq> ch)"
| "waits ch w s (Attach ch' c) = (ch' = ch \<longrightarrow> map_get (windows s) c \<noteq> Some w)"
| "waits ch w s _ = True"

lemma kept_for_disconnect: "wl_inv s \<Longrightarrow> kept_for s ch w \<Longrightarrow> kept_for (onClientDisconnect c s) ch w"
proof -
  assume inv: "wl_inv s" and k: "kept_for s ch w"
  have ok: "map_ok (holders s)" using inv by (simp add: wl_inv_def)
  then have "ch \<notin> set (heldBy s c)" using k by (auto simp: in_heldBy kept_for_def lock_of_def)
  then have "lock_of (onClientDisconnect c s) ch = lock_of (departed c s) ch"
    by (simp add: onClientDisconnect_alt fold_keepOrHandOn_other)
  with k ok show ?thesis by (simp add: kept_for_def lock_of_def departed_holders)
qed

lemma kept_for_other:
  "ch' \<noteq> ch \<Longrightarrow> kept_for (setHolder ch' c s) ch w = kept_for s ch w"
  "ch' \<noteq> ch \<Longrightarrow> kept_for (endReservation ch' s) ch w = kept_for s ch w"
  "ch' \<noteq> ch \<Longrightarrow> kept_for (grantToSoleAttachedClient ch' s) ch w = kept_for s ch w"
  "kept_for (emit e s) ch w = kept_for s ch w"
  "kept_for (broadcastLock ch' h r s) ch w = kept_for s ch w"
  by (simp_all add: kept_for_def grantToSole_other) (simp_all add: lock_of_def)

lemma kept_for_step:
  assumes "wl_inv s" "kept_for s ch w" "waits ch w s e"
  shows "kept_for (wl_step s e) ch w"
proof (cases e)
  case (Attach ch' c)
  with assms(2,3) show ?thesis
    by (cases "ch' = ch") (auto simp: attach_def Let_def kept_for_def lock_of_def split: option.splits)
next
  case (Detach ch' c)
  with assms(2) show ?thesis
    by (cases "ch' = ch")
      (auto simp: detach_def Let_def kept_for_def lock_of_def freeAndHandOn_def grantToSole_other split: option.splits,
       auto simp: grantToSoleAttachedClient_def split: option.splits list.splits)
next
  case (GraceEnded t ch')
  with assms(2,3) show ?thesis by (simp add: graceEnded_def kept_for_other) (simp add: kept_for_def lock_of_def)
qed (use assms in \<open>auto simp: kept_for_disconnect\<close>,
  use assms in \<open>auto simp: identify_def claim_def grant_def deny_def verifyHolder_def force_lock_def release_def
    removeChannel_def kept_for_def lock_of_def Let_def\<close>)

lemma kept_for_run:
  "wl_inv s \<Longrightarrow> kept_for s ch w \<Longrightarrow> runs (\<lambda>s e. wl_enabled s e \<and> waits ch w s e) wl_step s es \<Longrightarrow>
   kept_for (foldl wl_step s es) ch w"
  by (induction es arbitrary: s) (auto simp: kept_for_step wl_inv_step)

text \<open>
  A reload gives the lock back. When the holder of a channel, whose window is known and shows
  the channel nowhere else, disconnects, then through any events but a claim, a force, the end of
  the grace, of the channel or of the hub, nobody may type; and the next client of that window to
  attach holds the lock again.
\<close>

theorem lock_returns_to_window:
  assumes "runs wl_enabled wl_step wl_init es" and "\<not> stopped (wl_run es)"
    and "getHolder (wl_run es) ch = Some h" and "map_get (windows (wl_run es)) h = Some w"
    and "\<not> window_attached (departed h (wl_run es)) ch w"
    and "runs (\<lambda>s e. wl_enabled s e \<and> waits ch w s e) wl_step (wl_step (wl_run es) (Disconnect h)) fs"
  shows "(\<forall>c. \<not> isWriteLockHolder (wl_run (es @ Disconnect h # fs)) ch c)
    \<and> (\<forall>c. map_get (windows (wl_run (es @ Disconnect h # fs))) c = Some w \<longrightarrow>
         getHolder (wl_run (es @ Disconnect h # fs @ [Attach ch c])) ch = Some c)"
proof -
  let ?s = "wl_run es"
  have inv: "wl_inv ?s" by (rule wl_run_inv [OF assms(1)])
  then have ok: "map_ok (holders ?s)" by (simp add: wl_inv_def)
  have held: "ch \<in> set (heldBy ?s h)" using assms(3) ok by (simp add: in_heldBy getHolder_def)
  have "kept_for (onClientDisconnect h ?s) ch w"
    unfolding onClientDisconnect_alt assms(4)
    by (rule fold_keeps) (use assms held ok inv in \<open>simp_all add: distinct_heldBy freed_unlocked\<close>)
  then have "kept_for (foldl wl_step (wl_step ?s (Disconnect h)) fs) ch w"
    using kept_for_run [OF _ _ assms(6)] wl_inv_onClientDisconnect [OF inv] by simp
  then have kept: "kept_for (wl_run (es @ Disconnect h # fs)) ch w" by (simp add: wl_run_def)
  then have "getHolder (wl_run (es @ Disconnect h # fs @ [Attach ch c])) ch = Some c"
    if "map_get (windows (wl_run (es @ Disconnect h # fs))) c = Some w" for c
    using that by (auto simp: wl_run_def attach_def Let_def getHolder_def kept_for_def lock_of_def split: option.splits)
  moreover have "\<not> isWriteLockHolder (wl_run (es @ Disconnect h # fs)) ch c" for c
    using kept by (auto simp: isWriteLockHolder_def map_has_def kept_for_def lock_of_def)
  ultimately show ?thesis by blast
qed

theorem lock_returns_to_window_witness:
  "let w = \<lparr>tokenId = ''t'', windowId = ''w''\<rparr>
   in getHolder (wl_run ([Identify ''A'' w, Attach ''c'' ''A'', Attach ''c'' ''B''] @ Disconnect ''A'' # [Identify ''A2'' w]
        @ [Attach ''c'' ''A2''])) ''c'' = Some ''A2''"
proof -
  let ?w = "\<lparr>tokenId = ''t'', windowId = ''w''\<rparr>"
  let ?es = "[Identify ''A'' ?w, Attach ''c'' ''A'', Attach ''c'' ''B'']"
  have run: "runs wl_enabled wl_step wl_init ?es" by simp
  have ns: "\<not> stopped (wl_run ?es)" by code_simp
  have h: "getHolder (wl_run ?es) ''c'' = Some ''A''" by code_simp
  have w: "map_get (windows (wl_run ?es)) ''A'' = Some (windowKey ?w)" by code_simp
  have at: "map_get (attached (departed ''A'' (wl_run ?es))) ''c'' = Some [''B'']" by code_simp
  have b: "map_get (windows (departed ''A'' (wl_run ?es))) ''B'' = None" by code_simp
  have na: "\<not> window_attached (departed ''A'' (wl_run ?es)) ''c'' (windowKey ?w)"
    unfolding window_attached_def at using b by simp
  have quiet: "runs (\<lambda>s e. wl_enabled s e \<and> waits ''c'' (windowKey ?w) s e) wl_step
     (wl_step (wl_run ?es) (Disconnect ''A'')) [Identify ''A2'' ?w]" by simp
  have "map_get (windows (wl_run (?es @ Disconnect ''A'' # [Identify ''A2'' ?w]))) ''A2'' = Some (windowKey ?w)" by code_simp
  then show ?thesis using lock_returns_to_window [OF run ns h w na quiet] unfolding Let_def by blast
qed

end
