(* ===== verification/Write_Lock_Clients.thy ===== *)
theory Write_Lock_Clients
  imports Write_Lock
begin

text \<open>
  What the clients of a channel see of its write lock: the WRITE_LOCK messages broadcast to
  it, the end of a grace, who a window key identifies, and what becomes of a lock granted to
  a client that has gone.
\<close>

section \<open>Abstraction: what a client of a channel was last told\<close>

definition told_by :: "client_id \<Rightarrow> channel_id \<Rightarrow> client_id option \<times> bool \<Rightarrow> wl_effect \<Rightarrow> client_id option \<times> bool" where
  "told_by me ch v e =
     (case e of
        BroadcastToChannel ch' (WRITE_LOCK _ h r) \<Rightarrow> if ch' = ch then (h, r) else v
      | SendToClient c (WRITE_LOCK ch' h r) \<Rightarrow> if c = me \<and> ch' = ch then (h, r) else v
      | SendToClient c (WRITE_REVOKED ch') \<Rightarrow> if c = me \<and> ch' = ch then (None, False) else v
      | _ \<Rightarrow> v)"

definition told :: "client_id \<Rightarrow> wl_effect list \<Rightarrow> channel_id \<Rightarrow> client_id option \<times> bool" where
  "told me es ch = foldl (told_by me ch) (None, False) es"

definition lock_now :: "WriteLockManager \<Rightarrow> channel_id \<Rightarrow> client_id option \<times> bool" where
  "lock_now s ch = (getHolder s ch, map_has (reservations s) ch)"

definition told_ok :: "client_id \<Rightarrow> WriteLockManager \<Rightarrow> channel_id \<Rightarrow> bool" where
  "told_ok me s ch = (told me (effects s) ch = lock_now s ch)"

lemma told_append [simp]:
  "told me (es @ [BroadcastToChannel ch' (WRITE_LOCK c h r), OnChange c']) ch = (if ch' = ch then (h, r) else told me es ch)"
  "told me (es @ [SendToClient c m]) ch = told_by me ch (told me es ch) (SendToClient c m)"
  "told me (es @ [SendToClient c m, OnForce a b d]) ch = told_by me ch (told me es ch) (SendToClient c m)"
  "told me (es @ [SendToClient c m, OnForce a b d, BroadcastToChannel ch' (WRITE_LOCK c'' h r), OnChange c']) ch
     = (if ch' = ch then (h, r) else told_by me ch (told me es ch) (SendToClient c m))"
  by (simp_all add: told_def told_by_def)

text \<open>A request or a refusal says nothing of the holder; a lock said to one client is the lock as it is.\<close>

lemma told_ok_emit [simp]:
  "told_ok me (emit (SendToClient c (WRITE_REQUEST ch' d)) s) ch = told_ok me s ch"
  "told_ok me (emit (SendToClient c (WRITE_DENY ch' d)) s) ch = told_ok me s ch"
  "told_ok me s ch \<Longrightarrow> (h, r) = lock_now s ch' \<Longrightarrow> told_ok me (emit (SendToClient c (WRITE_LOCK ch' h r)) s) ch"
  by (simp_all add: told_ok_def lock_now_def getHolder_def told_by_def)

lemma told_ok_setHolder [simp]:
  "told_ok me (setHolder ch' c s) ch = (if ch' = ch then \<not> map_has (reservations s) ch else told_ok me s ch)"
  by (auto simp: told_ok_def lock_now_def getHolder_def)

lemma told_ok_broadcastLock [simp]:
  "told_ok me (broadcastLock ch' h r s) ch = (if ch' = ch then (h, r) = lock_now s ch else told_ok me s ch)"
  by (simp add: told_ok_def lock_now_def getHolder_def)

lemma told_ok_grantToSole:
  "told_ok me s ch \<Longrightarrow> \<not> map_has (reservations s) ch' \<Longrightarrow> told_ok me (grantToSoleAttachedClient ch' s) ch"
  by (auto simp: grantToSoleAttachedClient_def split: option.split list.split)

lemma told_ok_freeAndHandOn:
  "(ch' \<noteq> ch \<Longrightarrow> told_ok me s ch) \<Longrightarrow> lock_of s ch' = (None, None) \<Longrightarrow> told_ok me (freeAndHandOn ch' s) ch"
  unfolding freeAndHandOn_def
  by (rule told_ok_grantToSole) (auto simp: lock_now_def lock_of_def getHolder_def map_has_def)

lemma told_ok_keepFor:
  "(ch' \<noteq> ch \<Longrightarrow> told_ok me s ch) \<Longrightarrow> lock_of s ch' = (None, None) \<Longrightarrow> told_ok me (keepFor ch' w s) ch"
  by (auto simp: keepFor_def told_ok_def lock_now_def lock_of_def getHolder_def map_has_def split: option.split)

lemma told_ok_keepOrHandOn:
  "(ch' \<noteq> ch \<Longrightarrow> told_ok me s ch) \<Longrightarrow> lock_of s ch' = (None, None) \<Longrightarrow> told_ok me (keepOrHandOn w s ch') ch"
  by (simp add: keepOrHandOn_def told_ok_keepFor told_ok_freeAndHandOn split: option.split)

lemma told_ok_fold:
  "distinct chs \<Longrightarrow> (\<And>ch'. ch' \<in> set chs \<Longrightarrow> lock_of s ch' = (None, None)) \<Longrightarrow>
   (ch \<notin> set chs \<Longrightarrow> told_ok me s ch) \<Longrightarrow> told_ok me (foldl (keepOrHandOn w) s chs) ch"
proof (induction chs arbitrary: s)
  case (Cons c chs)
  have "told_ok me (keepOrHandOn w s c) ch" if "ch \<notin> set chs"
    using that Cons.prems by (intro told_ok_keepOrHandOn) auto
  moreover have "lock_of (keepOrHandOn w s c) ch' = (None, None)" if "ch' \<in> set chs" for ch'
    using that Cons.prems keepOrHandOn_other [of ch' c w s] by fastforce
  ultimately show ?case using Cons by simp
qed simp

lemma told_ok_disconnect: "wl_inv s \<Longrightarrow> told_ok me s ch \<Longrightarrow> told_ok me (onClientDisconnect c s) ch"
  unfolding onClientDisconnect_alt
proof (rule told_ok_fold)
  assume inv: "wl_inv s" and told: "told_ok me s ch"
  then have ok: "map_ok (holders s)" by (simp add: wl_inv_def)
  show "distinct (heldBy s c)" by (rule distinct_heldBy [OF ok])
  show "lock_of (departed c s) ch' = (None, None)" if "ch' \<in> set (heldBy s c)" for ch'
    using inv that by (rule freed_unlocked)
  show "told_ok me (departed c s) ch" if "ch \<notin> set (heldBy s c)"
    using told that ok
    by (auto simp: told_ok_def lock_now_def getHolder_def departed_holders in_heldBy split: option.split)
qed

lemma told_ok_fields:
  assumes "told_ok me s ch" "lock_of t ch = lock_of s ch" "effects t = effects s"
  shows "told_ok me t ch"
  using assms by (simp add: told_ok_def lock_now_def lock_of_def getHolder_def map_has_def)

lemma told_ok_endReservation: "ch' \<noteq> ch \<Longrightarrow> told_ok me (endReservation ch' s) ch = told_ok me s ch"
  by (simp add: told_ok_def lock_now_def getHolder_def)

lemma told_ok_attached [simp]:
  "told_ok me (s\<lparr>attached := a\<rparr>) ch = told_ok me s ch" "lock_now (s\<lparr>attached := a\<rparr>) ch = lock_now s ch"
  by (simp_all add: told_ok_def lock_now_def getHolder_def)

lemma told_ok_attach: "wl_inv s \<Longrightarrow> told_ok me s ch \<Longrightarrow> told_ok me (attach ch' c s) ch"
proof -
  assume inv: "wl_inv s" and told: "told_ok me s ch"
  have kept: "map_get (reservations s) ch' = Some r \<Longrightarrow> lock_now s ch' = (None, True)" for r
    using inv by (auto simp: wl_inv_def kept_free_def map_has_def lock_now_def getHolder_def)
  have held: "map_get (reservations s) ch' = None \<Longrightarrow> lock_now s ch' = (map_get (holders s) ch', False)"
    by (simp add: lock_now_def getHolder_def map_has_def)
  show ?thesis
    using told kept held by (cases "ch' = ch")
      (auto simp: attach_def Let_def lockMessage_def told_ok_endReservation map_has_def split: option.split)
qed

lemma told_ok_detach: "wl_inv s \<Longrightarrow> told_ok me s ch \<Longrightarrow> told_ok me (detach ch' c s) ch"
proof -
  assume inv: "wl_inv s" and told: "told_ok me s ch"
  let ?s = "case map_get (attached s) ch' of None \<Rightarrow> s
    | Some cs \<Rightarrow> s\<lparr>attached := map_set ch' (set_delete c cs) (attached s)\<rparr>"
  have same: "holders ?s = holders s" "reservations ?s = reservations s" "effects ?s = effects s"
    by (simp_all split: option.split)
  show ?thesis
  proof (cases "map_get (holders s) ch' = Some c")
    case True
    then have "\<not> map_has (reservations s) ch'"
      using inv by (auto simp: wl_inv_def kept_free_def map_has_def)
    then have "told_ok me (freeAndHandOn ch' (?s\<lparr>holders := map_delete ch' (holders s)\<rparr>)) ch"
      using told by (intro told_ok_freeAndHandOn) (auto elim!: told_ok_fields simp: lock_of_def same map_has_def)
    with True same show ?thesis by (simp add: detach_def Let_def)
  next
    case False
    with told same show ?thesis by (auto simp: detach_def Let_def lock_of_def elim!: told_ok_fields)
  qed
qed

lemma told_ok_graceEnded:
  assumes "wl_inv s" "told_ok me s ch" "(t, ch') \<in> set (timers s)"
  shows "told_ok me (wl_step s (GraceEnded t ch')) ch"
proof -
  let ?s = "s\<lparr>timers := filter (\<lambda>x. fst x \<noteq> t) (timers s), reservations := map_delete ch' (reservations s)\<rparr>"
  have "\<not> map_has (holders s) ch'"
    using assms(1,3) by (auto simp: wl_inv_def kept_free_def timers_ok_def map_has_def)
  then have "told_ok me (broadcastLock ch' None False ?s) ch"
    using assms(2) by (auto simp: lock_now_def getHolder_def map_has_def told_ok_def)
  then have "told_ok me (grantToSoleAttachedClient ch' (broadcastLock ch' None False ?s)) ch"
    by (rule told_ok_grantToSole) simp
  then show ?thesis by (simp add: graceEnded_def)
qed

lemma told_ok_claim: "wl_inv s \<Longrightarrow> told_ok me s ch \<Longrightarrow> told_ok me (claim ch' c s) ch"
  by (cases "ch' = ch") (auto simp: claim_def Let_def told_ok_endReservation)

lemma told_ok_force: "wl_inv s \<Longrightarrow> told_ok me s ch \<Longrightarrow> told_ok me (force_lock ch' c s) ch"
  by (cases "ch' = ch")
    (auto simp: force_lock_def Let_def told_ok_endReservation told_ok_def lock_now_def getHolder_def told_by_def)

lemma told_ok_release: "wl_inv s \<Longrightarrow> told_ok me s ch \<Longrightarrow> told_ok me (release ch' c s) ch"
  by (auto simp: release_def wl_inv_held lock_now_def getHolder_def told_ok_def)

lemma told_ok_grant: "wl_inv s \<Longrightarrow> told_ok me s ch \<Longrightarrow> told_ok me (grant ch' c d s) ch"
  by (auto simp: grant_def wl_inv_held)

lemma told_ok_deny: "told_ok me s ch \<Longrightarrow> told_ok me (deny ch' c d s) ch"
  by (simp add: deny_def)

lemma told_ok_identify: "told_ok me s ch \<Longrightarrow> told_ok me (identify c w s) ch"
  by (simp add: identify_def told_ok_def lock_now_def getHolder_def)

lemmas told_ok_ops = told_ok_attach told_ok_detach told_ok_claim told_ok_force told_ok_release
  told_ok_grant told_ok_deny told_ok_identify told_ok_disconnect

fun lasting :: "wl_event \<Rightarrow> bool" where
  "lasting (RemoveChannel ch) = False"
| "lasting Shutdown = False"
| "lasting _ = True"

lemma told_ok_step:
  "wl_inv s \<Longrightarrow> wl_enabled s e \<Longrightarrow> lasting e \<Longrightarrow> told_ok me s ch \<Longrightarrow> told_ok me (wl_step s e) ch"
  by (cases e) (auto simp: told_ok_ops told_ok_graceEnded simp del: wl_step.simps(12))

interpretation wl_told: event_machine wl_init "\<lambda>s e. wl_enabled s e \<and> lasting e" wl_step
    "\<lambda>s. wl_inv s \<and> (\<forall>me ch. told_ok me s ch)"
proof
  show "wl_inv wl_init \<and> (\<forall>me ch. told_ok me wl_init ch)"
    using wl.inv_init by (simp add: told_ok_def told_def lock_now_def getHolder_def wl_init_def)
qed (auto simp: wl_inv_step told_ok_step)

text \<open>
  The clients' picture of a lock is never stale. After any run that ends neither the channel
  nor the hub, what a client was last told of a channel, of all that was broadcast to it or said to that
  client, names its present holder, and says the lock is kept exactly while it is; before, the lock is free.
\<close>

theorem broadcast_matches_lock:
  assumes "runs (\<lambda>s e. wl_enabled s e \<and> lasting e) wl_step wl_init es"
  shows "told me (effects (wl_run es)) ch = (getHolder (wl_run es) ch, map_has (reservations (wl_run es)) ch)"
  using wl_told.inv_run [OF assms] by (simp add: wl_run_def told_ok_def lock_now_def)

theorem broadcast_matches_lock_witness:
  "told ''A'' (effects (wl_run [Attach ''c'' ''A'', Attach ''c'' ''B'', Detach ''c'' ''A''])) ''c'' = (Some ''B'', False)"
proof -
  have "runs (\<lambda>s e. wl_enabled s e \<and> lasting e) wl_step wl_init [Attach ''c'' ''A'', Attach ''c'' ''B'', Detach ''c'' ''A'']"
    by simp
  note broadcast_matches_lock [OF this, of "''A''" "''c''"]
  moreover have "getHolder (wl_run [Attach ''c'' ''A'', Attach ''c'' ''B'', Detach ''c'' ''A'']) ''c'' = Some ''B''"
    "\<not> map_has (reservations (wl_run [Attach ''c'' ''A'', Attach ''c'' ''B'', Detach ''c'' ''A''])) ''c''"
    by code_simp+
  ultimately show ?thesis by simp
qed

section \<open>The end of a grace\<close>

text \<open>
  A grace that runs out hands the lock on as a freed lock is: to the one client left attached,
  and to nobody when there are none or several; the claim is gone either way.
\<close>

theorem grace_end_hands_on:
  assumes "runs wl_enabled wl_step wl_init (es @ [GraceEnded t ch])"
  shows "\<not> map_has (reservations (wl_run (es @ [GraceEnded t ch]))) ch
    \<and> getHolder (wl_run (es @ [GraceEnded t ch])) ch =
        (case map_get (attached (wl_run es)) ch of Some [c] \<Rightarrow> Some c | _ \<Rightarrow> None)"
proof -
  have "wl_inv (wl_run es)" and live: "(t, ch) \<in> set (timers (wl_run es))"
    using assms by (auto simp: runs_append wl_run_def wl.inv_run)
  then have "\<not> map_has (holders (wl_run es)) ch"
    by (auto simp: wl_inv_def kept_free_def timers_ok_def map_has_def)
  moreover have "wl_run (es @ [GraceEnded t ch]) = wl_step (wl_run es) (GraceEnded t ch)"
    by (simp add: wl_run_def)
  ultimately show ?thesis
    by (auto simp: graceEnded_def grantToSoleAttachedClient_def getHolder_def map_has_def
        split: option.split list.split)
qed

theorem grace_end_hands_on_witness:
  "let es = [Identify ''A'' \<lparr>tokenId = ''t'', windowId = ''w''\<rparr>, Attach ''c'' ''A'', Attach ''c'' ''B'', Disconnect ''A'']
   in getHolder (wl_run (es @ [GraceEnded 0 ''c''])) ''c'' = Some ''B''"
proof -
  let ?es = "[Identify ''A'' \<lparr>tokenId = ''t'', windowId = ''w''\<rparr>, Attach ''c'' ''A'', Attach ''c'' ''B'', Disconnect ''A'']"
  have "timers (wl_run ?es) = [(0, ''c'')]" by code_simp
  then have "runs wl_enabled wl_step wl_init (?es @ [GraceEnded 0 ''c''])"
    by (simp add: runs_append wl_run_def)
  note grace_end_hands_on [OF this]
  moreover have "map_get (attached (wl_run ?es)) ''c'' = Some [''B'']" by code_simp
  ultimately show ?thesis unfolding Let_def by simp
qed

section \<open>A key names one window\<close>

definition hex_value :: "char \<Rightarrow> nat" where
  "hex_value c = (if of_char c < (58 :: nat) then of_char c - 48 else of_char c - 87)"

fun json_unescape :: "string \<Rightarrow> char" where
  "json_unescape [c] = c"
| "json_unescape [_, c] =
     (if c = CHR ''b'' then CHR 0x08 else if c = CHR ''t'' then CHR 0x09 else if c = CHR ''n'' then CHR 0x0A
      else if c = CHR ''f'' then CHR 0x0C else if c = CHR ''r'' then CHR 0x0D else c)"
| "json_unescape [_, _, _, _, h, l] = char_of (16 * hex_value h + hex_value l)"
| "json_unescape _ = CHR 0x00"

lemma hex_inverse: "m < 16 \<Longrightarrow> hex_value (hex_digit m) = m"
  by (simp add: hex_value_def hex_digit_def)

lemma of_char_eq: "of_char c = (n :: nat) \<Longrightarrow> of_char d = n \<Longrightarrow> c = d"
  by (metis char_of_char)

lemma json_unescape_escape: "json_unescape (json_escape c) = c"
  by (auto simp: json_escape_def Let_def hex_inverse less_mult_imp_div_less intro: of_char_eq [symmetric])

lemma json_escape_inj: "json_escape c = json_escape d \<Longrightarrow> c = d"
  by (metis json_unescape_escape)

definition token_length :: "string \<Rightarrow> nat" where
  "token_length s =
     (case s of a # b # _ \<Rightarrow> if a = CHR 0x5C then if b = CHR ''u'' then 6 else 2 else 1 | _ \<Rightarrow> 1)"

lemma token_length_escape: "token_length (json_escape c @ r) = length (json_escape c)"
  by (auto simp: json_escape_def token_length_def Let_def split: list.split)

lemma hd_escape: "json_escape c \<noteq> [] \<and> hd (json_escape c) \<noteq> CHR 0x22"
  by (auto simp: json_escape_def Let_def)

lemma escaped_prefix:
  "concat (map json_escape a) @ CHR 0x22 # x = concat (map json_escape b) @ CHR 0x22 # y \<Longrightarrow> a = b \<and> x = y"
proof (induction a arbitrary: b)
  case Nil
  then show ?case using hd_escape by (cases b) (auto simp: neq_Nil_conv Cons_eq_append_conv, (metis list.sel(1))+)
next
  case (Cons c a)
  show ?case
  proof (cases b)
    case Nil
    with Cons.prems hd_escape [of c] show ?thesis by (cases "json_escape c") auto
  next
    case (Cons d b')
    let ?r = "concat (map json_escape a) @ CHR 0x22 # x"
    let ?r' = "concat (map json_escape b') @ CHR 0x22 # y"
    have eq: "json_escape c @ ?r = json_escape d @ ?r'" using Cons.prems \<open>b = d # b'\<close> by simp
    then have "length (json_escape c) = length (json_escape d)" by (metis token_length_escape)
    with eq have "json_escape c = json_escape d" "?r = ?r'" by (simp_all add: append_eq_append_conv)
    with Cons.IH [of b'] \<open>b = d # b'\<close> show ?thesis by (simp add: json_escape_inj)
  qed
qed

text \<open>
  The key under which a lock is kept names exactly one window of one token: two windows
  with the same key have the same token and the same window id, whatever characters a client
  put in them, so a client naming another device's window id never takes its lock.
\<close>

theorem windowKey_injective: "windowKey v = windowKey w \<longleftrightarrow> tokenId v = tokenId w \<and> windowId v = windowId w"
proof
  assume "windowKey v = windowKey w"
  then have "concat (map json_escape (tokenId v)) @ CHR 0x22 # '','' @ json_string (windowId v) @ '']''
    = concat (map json_escape (tokenId w)) @ CHR 0x22 # '','' @ json_string (windowId w) @ '']''"
    by (simp add: windowKey_def json_string_def)
  from escaped_prefix [OF this] have "tokenId v = tokenId w"
    and "concat (map json_escape (windowId v)) @ CHR 0x22 # '']'' = concat (map json_escape (windowId w)) @ CHR 0x22 # '']''"
    by (simp_all add: json_string_def)
  then show "tokenId v = tokenId w \<and> windowId v = windowId w" using escaped_prefix by blast
qed (simp add: windowKey_def)

section \<open>A lock granted to a client that has gone\<close>

fun by_client :: "client_id \<Rightarrow> wl_event \<Rightarrow> bool" where
  "by_client g (Release ch c) = (c = g)"
| "by_client g (Detach ch c) = (c = g)"
| "by_client g (Disconnect c) = (c = g)"
| "by_client g (Grant ch c d) = (c = g)"
| "by_client g _ = False"

fun overrides :: "channel_id \<Rightarrow> wl_event \<Rightarrow> bool" where
  "overrides ch (Force ch' c) = (ch' = ch)"
| "overrides ch (RemoveChannel ch') = (ch' = ch)"
| "overrides ch Shutdown = True"
| "overrides ch _ = False"

lemma getHolder_run:
  "wl_inv s \<Longrightarrow> getHolder s ch = Some g \<Longrightarrow> g \<noteq> [] \<Longrightarrow>
   runs (\<lambda>s e. wl_enabled s e \<and> \<not> by_client g e \<and> \<not> overrides ch e) wl_step s es \<Longrightarrow>
   getHolder (foldl wl_step s es) ch = Some g"
proof (induction es arbitrary: s)
  case (Cons e es)
  then have "\<not> takes_lock_from g ch e" by (cases e) (auto simp: takes_lock_from_def)
  with Cons have "getHolder (wl_step s e) ch = Some g" by (intro getHolder_step) auto
  with Cons show ?case by (auto simp: wl_inv_step)
qed simp

text \<open>
  \<open>grant\<close> does not check that the client it grants to is still there. When the requester
  disconnects before the holder answers, the grant leaves the lock with a client that is gone,
  and from then on, short of a force or the end of the channel or the hub, no other client can
  type into the terminal, whatever it claims and whoever leaves.
\<close>

theorem grant_to_departed_client_stuck:
  assumes "runs (\<lambda>s e. wl_enabled s e \<and> \<not> by_client ''B'' e \<and> \<not> overrides ''c'' e) wl_step
      (wl_run [Attach ''c'' ''A'', Attach ''c'' ''B'', Claim ''c'' ''B'', Disconnect ''B'', Grant ''c'' ''A'' ''B'']) es"
    and "c \<noteq> ''B''"
  shows "\<not> isWriteLockHolder (wl_run ([Attach ''c'' ''A'', Attach ''c'' ''B'', Claim ''c'' ''B'', Disconnect ''B'',
      Grant ''c'' ''A'' ''B''] @ es)) ''c'' c"
proof -
  let ?es = "[Attach ''c'' ''A'', Attach ''c'' ''B'', Claim ''c'' ''B'', Disconnect ''B'', Grant ''c'' ''A'' ''B'']"
  have inv: "wl_inv (wl_run ?es)" by (rule wl_run_inv) simp
  have "getHolder (wl_run ?es) ''c'' = Some ''B''" by code_simp
  from getHolder_run [OF inv this _ assms(1)] have "getHolder (wl_run (?es @ es)) ''c'' = Some ''B''"
    by (simp add: wl_run_def)
  with assms(2) show ?thesis by (simp add: isWriteLockHolder_def getHolder_def)
qed

theorem grant_to_departed_client_stuck_witness:
  "\<not> isWriteLockHolder (wl_run ([Attach ''c'' ''A'', Attach ''c'' ''B'', Claim ''c'' ''B'', Disconnect ''B'',
      Grant ''c'' ''A'' ''B''] @ [Claim ''c'' ''A'', Detach ''c'' ''A'', Attach ''c'' ''A''])) ''c'' ''A''"
  by (rule grant_to_departed_client_stuck) simp_all

end
