(* ===== verification/Write_Lock_Store.thy ===== *)
theory Write_Lock_Store
  imports Write_Lock_Clients
begin

text \<open>
  The windows' side of the write lock: the store of \<^verbatim>\<open>packages/clients/web/src/stores/writelock.ts\<close> fed by the messages \<^verbatim>\<open>stores/session.ts\<close> hands it, and the hub's WebSocket route between the two
  (\<^verbatim>\<open>ws/ws-handler.ts\<close>, \<^verbatim>\<open>ws/handlers/attach.ts\<close>, \<^verbatim>\<open>detach.ts\<close>). A message to a client waits in its \<open>inbox\<close> until the window reads it. An ATTACH is answered after a wait, during which anything may
  come; \<open>asked\<close> has those not answered yet.
\<close>

section \<open>The store\<close>

record LockState =
  ls_holder :: "client_id option"
  ls_reserved :: bool

datatype lock_command = CmdClaim channel_id | CmdGrant channel_id client_id | CmdDeny channel_id client_id | CmdForce channel_id | CmdRelease channel_id

record WriteLockStore =
  locks :: "(channel_id, LockState) jmap"
  incomingRequest :: "(channel_id \<times> client_id) option"
  wsClient :: bool
  ws_sent :: "lock_command list"

definition setWsClient :: "WriteLockStore \<Rightarrow> WriteLockStore" where
  "setWsClient st = st\<lparr>wsClient := True\<rparr>"

definition handleWriteLock :: "channel_id \<Rightarrow> client_id option \<Rightarrow> bool \<Rightarrow> WriteLockStore \<Rightarrow> WriteLockStore" where
  "handleWriteLock ch holder reserved st =
     st\<lparr>locks := map_set ch \<lparr>ls_holder = holder, ls_reserved = (reserved \<and> holder = None)\<rparr> (locks st)\<rparr>"

definition handleWriteRequest :: "channel_id \<Rightarrow> client_id \<Rightarrow> WriteLockStore \<Rightarrow> WriteLockStore" where
  "handleWriteRequest ch from st = st\<lparr>incomingRequest := Some (ch, from)\<rparr>"

definition handleWriteRevoked :: "channel_id \<Rightarrow> WriteLockStore \<Rightarrow> WriteLockStore" where
  "handleWriteRevoked ch st =
     (case map_get (locks st) ch of
        None \<Rightarrow> st
      | Some current \<Rightarrow> st\<lparr>locks := map_set ch \<lparr>ls_holder = None, ls_reserved = False\<rparr> (locks st)\<rparr>)"

text \<open>\<^verbatim>\<open>handleWriteDeny\<close> only warns.\<close>

definition handleDenied :: "channel_id \<Rightarrow> WriteLockStore \<Rightarrow> WriteLockStore" where
  "handleDenied ch st = st"

definition send_command :: "lock_command \<Rightarrow> WriteLockStore \<Rightarrow> WriteLockStore" where
  "send_command m st = (if wsClient st then st\<lparr>ws_sent := ws_sent st @ [m]\<rparr> else st)"

definition store_claim :: "channel_id \<Rightarrow> WriteLockStore \<Rightarrow> WriteLockStore" where
  "store_claim ch = send_command (CmdClaim ch)"

definition store_grant :: "channel_id \<Rightarrow> client_id \<Rightarrow> WriteLockStore \<Rightarrow> WriteLockStore" where
  "store_grant ch c st = (send_command (CmdGrant ch c) st)\<lparr>incomingRequest := None\<rparr>"

definition store_deny :: "channel_id \<Rightarrow> client_id \<Rightarrow> WriteLockStore \<Rightarrow> WriteLockStore" where
  "store_deny ch c st = (send_command (CmdDeny ch c) st)\<lparr>incomingRequest := None\<rparr>"

definition forceTake :: "channel_id \<Rightarrow> WriteLockStore \<Rightarrow> WriteLockStore" where
  "forceTake ch = send_command (CmdForce ch)"

definition store_release :: "channel_id \<Rightarrow> WriteLockStore \<Rightarrow> WriteLockStore" where
  "store_release ch = send_command (CmdRelease ch)"

definition setInitialHolder :: "channel_id \<Rightarrow> client_id option \<Rightarrow> WriteLockStore \<Rightarrow> WriteLockStore" where
  "setInitialHolder ch holder st = st\<lparr>locks := map_set ch \<lparr>ls_holder = holder, ls_reserved = False\<rparr> (locks st)\<rparr>"

definition isWriter :: "client_id option \<Rightarrow> WriteLockStore \<Rightarrow> channel_id \<Rightarrow> bool" where
  "isWriter clientId st ch =
     (case map_get (locks st) ch of None \<Rightarrow> False | Some lock \<Rightarrow> ls_holder lock = clientId \<and> clientId \<noteq> None)"

definition dismissRequest :: "WriteLockStore \<Rightarrow> WriteLockStore" where
  "dismissRequest st = st\<lparr>incomingRequest := None\<rparr>"

definition pruneDeadLocks :: "channel_id jset \<Rightarrow> WriteLockStore \<Rightarrow> WriteLockStore" where
  "pruneDeadLocks dead st = (if dead = [] then st else st\<lparr>locks := foldl (\<lambda>m ch. map_delete ch m) (locks st) dead\<rparr>)"

text \<open>\<^verbatim>\<open>_registerWriteLockHandlers\<close>: what each message does.\<close>

fun hear :: "WriteLockStore \<Rightarrow> wl_message \<Rightarrow> WriteLockStore" where
  "hear st (WRITE_LOCK ch holder reserved) = handleWriteLock ch holder reserved st"
| "hear st (WRITE_REQUEST ch from) = handleWriteRequest ch from st"
| "hear st (WRITE_REVOKED ch) = handleWriteRevoked ch st"
| "hear st (WRITE_DENY ch c) = handleDenied ch st"

section \<open>The hub and its windows\<close>

record lock_world =
  lw_hub :: WriteLockManager
  lw_clients :: "client_id jset"
  lw_known :: "client_id jset"
  lw_members :: "(channel_id, client_id jset) jmap"
  lw_asked :: "(channel_id \<times> client_id) list"
  lw_inbox :: "client_id \<Rightarrow> wl_message list"
  lw_stores :: "client_id \<Rightarrow> WriteLockStore"

definition members_in :: "(channel_id, client_id jset) jmap \<Rightarrow> channel_id \<Rightarrow> client_id jset" where
  "members_in m ch = (case map_get m ch of Some cs \<Rightarrow> cs | None \<Rightarrow> [])"

abbreviation members :: "lock_world \<Rightarrow> channel_id \<Rightarrow> client_id jset" where
  "members w \<equiv> members_in (lw_members w)"

text \<open>What an effect of the manager puts on a client's socket: \<^verbatim>\<open>sendToClient\<close> and \<^verbatim>\<open>broadcastToChannel\<close> of the route.\<close>

definition reaches :: "lock_world \<Rightarrow> client_id \<Rightarrow> wl_effect \<Rightarrow> wl_message list" where
  "reaches w c e =
     (if \<not> List.member (lw_clients w) c then []
      else case e of
        SendToClient c' m \<Rightarrow> if c' = c then [m] else []
      | BroadcastToChannel ch m \<Rightarrow> if List.member (members w ch) c then [m] else []
      | _ \<Rightarrow> [])"

definition hub_does :: "wl_event \<Rightarrow> lock_world \<Rightarrow> lock_world" where
  "hub_does e w =
     (let s' = wl_step (lw_hub w) e; new = drop (length (effects (lw_hub w))) (effects s')
      in w\<lparr>lw_hub := s', lw_inbox := (\<lambda>c. lw_inbox w c @ concat (map (reaches w c) new))\<rparr>)"

definition leave_all :: "client_id \<Rightarrow> (channel_id, client_id jset) jmap \<Rightarrow> (channel_id, client_id jset) jmap" where
  "leave_all c m = map (\<lambda>(ch, cs). (ch, set_delete c cs)) m"

definition leave_one :: "channel_id \<Rightarrow> client_id \<Rightarrow> (channel_id, client_id jset) jmap \<Rightarrow> (channel_id, client_id jset) jmap" where
  "leave_one ch c m = map (\<lambda>(ch', cs). (ch', if ch' = ch then set_delete c cs else cs)) m"

datatype world_event =
    Connects client_id WriteLockStore
  | AttachAsked channel_id client_id
  | AttachAnswered channel_id client_id
  | AttachRefused channel_id client_id
  | Detaches channel_id client_id
  | Disconnects client_id
  | ChannelForgotten channel_id
  | Asks wl_event
  | Reads client_id
  | Commands client_id lock_command
  | Dismisses client_id
  | Prunes client_id "channel_id jset"

definition upd_store :: "client_id \<Rightarrow> (WriteLockStore \<Rightarrow> WriteLockStore) \<Rightarrow> lock_world \<Rightarrow> lock_world" where
  "upd_store c f w = w\<lparr>lw_stores := (lw_stores w)(c := f (lw_stores w c))\<rparr>"

fun command :: "lock_command \<Rightarrow> WriteLockStore \<Rightarrow> WriteLockStore" where
  "command (CmdClaim ch) = store_claim ch"
| "command (CmdGrant ch c) = store_grant ch c"
| "command (CmdDeny ch c) = store_deny ch c"
| "command (CmdForce ch) = forceTake ch"
| "command (CmdRelease ch) = store_release ch"

fun world_step :: "lock_world \<Rightarrow> world_event \<Rightarrow> lock_world" where
  "world_step w (Connects c st) = w\<lparr>lw_clients := set_add c (lw_clients w), lw_known := set_add c (lw_known w), lw_stores := (lw_stores w)(c := st), lw_inbox := (lw_inbox w)(c := [])\<rparr>"
| "world_step w (AttachAsked ch c) = w\<lparr>lw_members := map_set ch (set_add c (members w ch)) (lw_members w), lw_asked := (ch, c) # lw_asked w\<rparr>"
| "world_step w (AttachAnswered ch c) = hub_does (Attach ch c) (w\<lparr>lw_asked := remove1 (ch, c) (lw_asked w)\<rparr>)"
| "world_step w (AttachRefused ch c) = w\<lparr>lw_members := leave_one ch c (lw_members w), lw_asked := remove1 (ch, c) (lw_asked w)\<rparr>"
| "world_step w (Detaches ch c) = (let w = hub_does (Detach ch c) w in w\<lparr>lw_members := leave_one ch c (lw_members w)\<rparr>)"
| "world_step w (Disconnects c) =
     (let w = hub_does (Disconnect c) (w\<lparr>lw_clients := set_delete c (lw_clients w)\<rparr>) in w\<lparr>lw_members := leave_all c (lw_members w)\<rparr>)"
| "world_step w (ChannelForgotten ch) = w\<lparr>lw_members := map_delete ch (lw_members w)\<rparr>"
| "world_step w (Asks e) = hub_does e w"
| "world_step w (Reads c) = (case lw_inbox w c of [] \<Rightarrow> w | m # rest \<Rightarrow> upd_store c (\<lambda>st. hear st m) (w\<lparr>lw_inbox := (lw_inbox w)(c := rest)\<rparr>))"
| "world_step w (Commands c cmd) = upd_store c (command cmd) w"
| "world_step w (Dismisses c) = upd_store c dismissRequest w"
| "world_step w (Prunes c dead) = upd_store c (pruneDeadLocks dead) w"

text \<open>
  What may come: a connection has an id of its own (\<open>lw_known\<close> has those given), only a connected client asks anything, an answer comes to what was asked, the other messages of the lock are its WebSocket
  handlers' and its timers', and a window prunes only terminals it is not in. No channel is removed from the manager and the hub does not stop.
\<close>

fun lock_event :: "wl_event \<Rightarrow> client_id jset \<Rightarrow> bool" where
  "lock_event (Identify c w) cs = (c \<in> set cs)"
| "lock_event (Claim ch c) cs = (c \<in> set cs)"
| "lock_event (Grant ch c d) cs = (c \<in> set cs)"
| "lock_event (Deny ch c d) cs = (c \<in> set cs)"
| "lock_event (Force ch c) cs = (c \<in> set cs)"
| "lock_event (Release ch c) cs = (c \<in> set cs)"
| "lock_event (GraceEnded t ch) cs = True"
| "lock_event _ cs = False"

fun world_enabled :: "lock_world \<Rightarrow> world_event \<Rightarrow> bool" where
  "world_enabled w (Connects c st) = (c \<notin> set (lw_known w))"
| "world_enabled w (AttachAsked ch c) = (c \<in> set (lw_clients w))"
| "world_enabled w (AttachAnswered ch c) = ((ch, c) \<in> set (lw_asked w))"
| "world_enabled w (AttachRefused ch c) = ((ch, c) \<in> set (lw_asked w))"
| "world_enabled w (Detaches ch c) = (c \<in> set (lw_clients w))"
| "world_enabled w (Disconnects c) = (c \<in> set (lw_clients w))"
| "world_enabled w (Asks e) = (wl_enabled (lw_hub w) e \<and> lock_event e (lw_clients w))"
| "world_enabled w (Prunes c dead) = (\<forall>ch \<in> set dead. c \<notin> set (members w ch))"
| "world_enabled w _ = True"

definition empty_store :: WriteLockStore where
  "empty_store = \<lparr>locks = [], incomingRequest = None, wsClient = True, ws_sent = []\<rparr>"

definition world_init :: lock_world where
  "world_init = \<lparr>lw_hub = wl_init, lw_clients = [], lw_known = [], lw_members = [], lw_asked = [], lw_inbox = (\<lambda>_. []), lw_stores = (\<lambda>_. empty_store)\<rparr>"

section \<open>What the manager says\<close>

text \<open>A lock is said of the channel it is broadcast to, and kept only where nobody holds it; the log of what was said only grows.\<close>

definition said_ok :: "wl_effect \<Rightarrow> bool" where
  "said_ok e =
     (case e of
        BroadcastToChannel ch m \<Rightarrow> (case m of WRITE_LOCK ch' h r \<Rightarrow> ch' = ch \<and> (r \<longrightarrow> h = None) | _ \<Rightarrow> False)
      | SendToClient c m \<Rightarrow> (case m of WRITE_LOCK ch h r \<Rightarrow> r \<longrightarrow> h = None | _ \<Rightarrow> True)
      | _ \<Rightarrow> True)"

definition grows :: "WriteLockManager \<Rightarrow> WriteLockManager \<Rightarrow> bool" where
  "grows s t \<longleftrightarrow> (\<exists>new. effects t = effects s @ new \<and> list_all said_ok new)"

lemma grows_refl [simp]: "grows s s"
  by (simp add: grows_def)

lemma grows_fields [simp]:
  "grows s (t\<lparr>attached := a\<rparr>) = grows s t" "grows s (t\<lparr>holders := h\<rparr>) = grows s t" "grows s (t\<lparr>windows := ws\<rparr>) = grows s t" "grows s (t\<lparr>timers := ts\<rparr>) = grows s t"
  "grows s (t\<lparr>reservations := rs\<rparr>) = grows s t" "grows s (t\<lparr>next_timer := n\<rparr>) = grows s t" "grows s (t\<lparr>stopped := b\<rparr>) = grows s t" "grows s (endReservation ch t) = grows s t"
  "grows s (departed c t) = grows s t"
  by (simp_all add: grows_def)

lemma grows_trans: "grows s t \<Longrightarrow> grows t u \<Longrightarrow> grows s u"
  by (auto simp: grows_def)

lemma grows_broadcastLock: "grows s t \<Longrightarrow> r \<longrightarrow> h = None \<Longrightarrow> grows s (broadcastLock ch h r t)"
  by (rule grows_trans [of s t]) (auto simp: grows_def said_ok_def)

lemma grows_setHolder: "grows s t \<Longrightarrow> grows s (setHolder ch c t)"
  by (rule grows_trans [of s t]) (auto simp: grows_def said_ok_def)

lemma grows_emit: "grows s t \<Longrightarrow> said_ok e \<Longrightarrow> grows s (emit e t)"
  by (rule grows_trans [of s t]) (auto simp: grows_def)

lemma grows_grantToSole: "grows s t \<Longrightarrow> grows s (grantToSoleAttachedClient ch t)"
  by (auto simp: grantToSoleAttachedClient_def intro: grows_setHolder split: option.split list.split)

lemma grows_freeAndHandOn: "grows s t \<Longrightarrow> grows s (freeAndHandOn ch t)"
  by (simp add: freeAndHandOn_def grows_grantToSole grows_broadcastLock)

lemma grows_keepFor: "grows s t \<Longrightarrow> grows s (keepFor ch w t)"
  by (auto simp: keepFor_def grows_setHolder intro!: grows_broadcastLock split: option.split)

lemma grows_keepOrHandOn: "grows s t \<Longrightarrow> grows s (keepOrHandOn w t ch)"
  by (simp add: keepOrHandOn_def grows_keepFor grows_freeAndHandOn split: option.split)

lemma grows_disconnect: "grows s (onClientDisconnect c s)"
  unfolding onClientDisconnect_alt by (rule foldl_inv) (auto intro: grows_keepOrHandOn)

lemmas grows_intros = grows_broadcastLock grows_setHolder grows_emit grows_grantToSole grows_freeAndHandOn grows_disconnect

lemma grows_step: "grows s (wl_step s e)"
  by (cases e)
    (auto simp: identify_def attach_def detach_def claim_def grant_def deny_def force_lock_def release_def removeChannel_def shutdown_def graceEnded_def Let_def said_ok_def lockMessage_def
      intro!: grows_intros split: option.split)

section \<open>What a window sees\<close>

definition seen :: "WriteLockStore \<Rightarrow> channel_id \<Rightarrow> client_id option \<times> bool" where
  "seen st ch = (case map_get (locks st) ch of None \<Rightarrow> (None, False) | Some l \<Rightarrow> (ls_holder l, ls_reserved l))"

lemma seen_hear: "said_ok (SendToClient c m) \<Longrightarrow> seen (hear st m) ch = told_by c ch (seen st ch) (SendToClient c m)"
  by (cases m) (auto simp: seen_def said_ok_def told_by_def handleWriteLock_def handleWriteRequest_def handleWriteRevoked_def handleDenied_def split: option.split)

lemma seen_reached:
  assumes "list_all said_ok new" "c \<in> set (lw_clients w)" "c \<in> set (members w ch)"
  shows "seen (foldl hear st (concat (map (reaches w c) new))) ch = foldl (told_by c ch) (seen st ch) new"
  using assms(1)
proof (induction new arbitrary: st)
  case (Cons e new)
  have "seen (foldl hear st (reaches w c e)) ch = told_by c ch (seen st ch) e"
  proof (cases e)
    case (SendToClient c' m)
    then show ?thesis using assms(2) Cons.prems seen_hear [of c m st ch] by (auto simp: reaches_def said_ok_def told_by_def split: wl_message.splits)
  next
    case (BroadcastToChannel ch' m)
    then obtain h r where m: "m = WRITE_LOCK ch' h r" "r \<longrightarrow> h = None" using Cons.prems by (auto simp: said_ok_def split: wl_message.splits)
    then show ?thesis using assms(2,3) BroadcastToChannel seen_hear [of c m st ch] by (auto simp: reaches_def told_by_def said_ok_def)
  qed (use assms in \<open>auto simp: reaches_def told_by_def\<close>)
  then show ?case using Cons by simp
qed simp

definition caught_up :: "lock_world \<Rightarrow> client_id \<Rightarrow> WriteLockStore" where
  "caught_up w c = foldl hear (lw_stores w c) (lw_inbox w c)"

definition ids_ok :: "lock_world \<Rightarrow> bool" where
  "ids_ok w \<longleftrightarrow> (\<forall>c. c \<in> set (lw_clients w) \<longrightarrow> c \<in> set (lw_known w)) \<and> (\<forall>ch c. (ch, c) \<in> set (lw_asked w) \<longrightarrow> c \<in> set (lw_known w))"

definition world_ok :: "lock_world \<Rightarrow> bool" where
  "world_ok w \<longleftrightarrow> wl_inv (lw_hub w) \<and> (\<forall>me ch. told_ok me (lw_hub w) ch)
     \<and> (\<forall>ch c. c \<in> set (members w ch) \<longrightarrow> c \<in> set (lw_clients w))
     \<and> (\<forall>ch c. c \<in> set (members w ch) \<longrightarrow> (ch, c) \<notin> set (lw_asked w) \<longrightarrow> seen (caught_up w c) ch = lock_now (lw_hub w) ch)"

text \<open>A step of the manager: every member of a channel follows its lock, and whoever it attaches sees it whatever it saw before.\<close>

lemma hub_step_ok: "world_ok w \<Longrightarrow> wl_enabled (lw_hub w) e \<Longrightarrow> lasting e \<Longrightarrow> wl_inv (wl_step (lw_hub w) e) \<and> told_ok me (wl_step (lw_hub w) e) ch"
  by (simp add: world_ok_def wl_inv_step told_ok_step)

lemma hub_does_seen:
  assumes "c \<in> set (members w ch)" "c \<in> set (lw_clients w)"
  obtains new where "effects (wl_step (lw_hub w) e) = effects (lw_hub w) @ new"
    "seen (caught_up (hub_does e w) c) ch = foldl (told_by c ch) (seen (caught_up w c) ch) new"
proof -
  obtain new where new: "effects (wl_step (lw_hub w) e) = effects (lw_hub w) @ new" "list_all said_ok new" using grows_step grows_def by blast
  show thesis
  proof (rule that [OF new(1)])
    show "seen (caught_up (hub_does e w) c) ch = foldl (told_by c ch) (seen (caught_up w c) ch) new"
      using seen_reached [OF new(2) assms(2,1)] new(1) by (simp add: hub_does_def Let_def caught_up_def)
  qed
qed

lemma hub_does_follows:
  assumes "seen (caught_up w c) ch = lock_now (lw_hub w) ch" "told_ok c (lw_hub w) ch" "told_ok c (wl_step (lw_hub w) e) ch"
    and "c \<in> set (members w ch)" "c \<in> set (lw_clients w)"
  shows "seen (caught_up (hub_does e w) c) ch = lock_now (wl_step (lw_hub w) e) ch"
proof -
  obtain new where "effects (wl_step (lw_hub w) e) = effects (lw_hub w) @ new"
    "seen (caught_up (hub_does e w) c) ch = foldl (told_by c ch) (seen (caught_up w c) ch) new" using hub_does_seen [OF assms(4,5)] .
  then show ?thesis using assms(1-3) by (simp add: told_ok_def told_def)
qed

lemma attach_tells:
  assumes "effects (attach ch c s) = effects s @ new"
  shows "foldl (told_by c ch) v new = foldl (told_by c ch) v' new"
  using assms by (auto simp: attach_def Let_def lockMessage_def told_by_def split: option.splits if_splits)

lemma attach_shows:
  assumes "told_ok c (lw_hub w) ch" "told_ok c (attach ch c (lw_hub w)) ch" and "c \<in> set (members w ch)" "c \<in> set (lw_clients w)"
  shows "seen (caught_up (hub_does (Attach ch c) w) c) ch = lock_now (attach ch c (lw_hub w)) ch"
proof -
  obtain new where new: "effects (attach ch c (lw_hub w)) = effects (lw_hub w) @ new"
    "seen (caught_up (hub_does (Attach ch c) w) c) ch = foldl (told_by c ch) (seen (caught_up w c) ch) new"
    using hub_does_seen [OF assms(3,4), of "Attach ch c"] by auto
  then show ?thesis using assms(1,2) attach_tells [OF new(1), of "seen (caught_up w c) ch" "lock_now (lw_hub w) ch"] by (simp add: told_ok_def told_def)
qed

lemma hub_does_shows:
  assumes "wl_inv (lw_hub w)" "\<And>me ch. told_ok me (lw_hub w) ch" "wl_enabled (lw_hub w) e" "lasting e"
    and "c \<in> set (members w ch)" "c \<in> set (lw_clients w)" "seen (caught_up w c) ch = lock_now (lw_hub w) ch \<or> e = Attach ch c"
  shows "seen (caught_up (hub_does e w) c) ch = lock_now (wl_step (lw_hub w) e) ch"
proof -
  have "told_ok c (wl_step (lw_hub w) e) ch" using assms(1-4) by (simp add: told_ok_step)
  then show ?thesis using assms(7) hub_does_follows [OF _ assms(2) _ assms(5,6)] attach_shows [OF assms(2) _ assms(5,6)] by auto
qed

lemma hub_does_fields [simp]:
  "lw_hub (hub_does e w) = wl_step (lw_hub w) e" "lw_clients (hub_does e w) = lw_clients w" "lw_members (hub_does e w) = lw_members w" "lw_known (hub_does e w) = lw_known w"
  "lw_asked (hub_does e w) = lw_asked w"
  by (simp_all add: hub_does_def Let_def)

lemma members_in_simps [simp]:
  "set (members_in (leave_one ch c m) ch') = (if ch' = ch then set (members_in m ch') - {c} else set (members_in m ch'))"
  "set (members_in (leave_all c m) ch') = set (members_in m ch') - {c}"
  "members_in (map_set ch cs m) ch' = (if ch' = ch then cs else members_in m ch')"
  "members_in (map_delete ch m) ch' = (if ch' = ch then [] else members_in m ch')" "members_in [] ch' = []"
  by (auto simp: members_in_def leave_one_def leave_all_def map_get_map split: option.split)

lemma caught_up_fields [simp]:
  "caught_up (w\<lparr>lw_members := m\<rparr>) c = caught_up w c" "caught_up (w\<lparr>lw_clients := cl\<rparr>) c = caught_up w c" "caught_up (w\<lparr>lw_asked := as\<rparr>) c = caught_up w c"
  by (simp_all add: caught_up_def)

text \<open>What a window does by itself leaves what it will have seen once it has read all.\<close>

lemma hear_at:
  "map_get (locks (hear st m)) ch =
     (case m of
        WRITE_LOCK ch' h r \<Rightarrow> if ch' = ch then Some \<lparr>ls_holder = h, ls_reserved = (r \<and> h = None)\<rparr> else map_get (locks st) ch
      | WRITE_REVOKED ch' \<Rightarrow> if ch' = ch then map_option (\<lambda>_. \<lparr>ls_holder = None, ls_reserved = False\<rparr>) (map_get (locks st) ch) else map_get (locks st) ch
      | _ \<Rightarrow> map_get (locks st) ch)"
  by (cases m) (auto simp: handleWriteLock_def handleWriteRequest_def handleWriteRevoked_def handleDenied_def split: option.split)

lemma seen_at: "map_get (locks st) ch = map_get (locks st') ch \<Longrightarrow> seen (foldl hear st ms) ch = seen (foldl hear st' ms) ch"
proof (induction ms arbitrary: st st')
  case (Cons m ms)
  have "map_get (locks (hear st m)) ch = map_get (locks (hear st' m)) ch" by (simp only: hear_at Cons.prems)
  then show ?case using Cons.IH [of "hear st m" "hear st' m"] by simp
qed (simp add: seen_def)

lemma local_locks [simp]: "locks (dismissRequest st) = locks st" "locks (send_command m st) = locks st"
  by (simp_all add: dismissRequest_def send_command_def)

lemma command_locks [simp]: "locks (command cmd st) = locks st"
  by (cases cmd) (simp_all add: store_claim_def store_grant_def store_deny_def forceTake_def store_release_def)

lemma seen_dismissed: "seen (foldl hear (dismissRequest st) ms) ch = seen (foldl hear st ms) ch"
  by (rule seen_at) simp

lemma seen_commanded: "seen (foldl hear (command cmd st) ms) ch = seen (foldl hear st ms) ch"
  by (rule seen_at) simp

lemma seen_pruned: "ch \<notin> set dead \<Longrightarrow> seen (foldl hear (pruneDeadLocks dead st) ms) ch = seen (foldl hear st ms) ch"
proof (rule seen_at)
  assume "ch \<notin> set dead"
  then have "map_get (foldl (\<lambda>m ch. map_delete ch m) l dead) ch = map_get l ch" for l :: "(channel_id, LockState) jmap"
    by (induction dead arbitrary: l) auto
  then show "map_get (locks (pruneDeadLocks dead st)) ch = map_get (locks st) ch" by (simp add: pruneDeadLocks_def)
qed

lemma world_ok_parts:
  assumes "world_ok w"
  shows "wl_inv (lw_hub w)" "told_ok me (lw_hub w) ch" "c \<in> set (members w ch) \<Longrightarrow> c \<in> set (lw_clients w)"
    "c \<in> set (members w ch) \<Longrightarrow> (ch, c) \<notin> set (lw_asked w) \<Longrightarrow> seen (caught_up w c) ch = lock_now (lw_hub w) ch"
  using assms by (auto simp: world_ok_def)

text \<open>The manager's part of a step, on a world whose members are connected and, but for whom it attaches, see the lock.\<close>

lemma world_ok_hub:
  assumes "wl_inv (lw_hub w)" "\<And>me ch. told_ok me (lw_hub w) ch" "wl_enabled (lw_hub w) e" "lasting e" "lw_hub w' = lw_hub (hub_does e w)"
    and "\<And>ch c. c \<in> set (members w' ch) \<Longrightarrow> c \<in> set (members w ch) \<and> c \<in> set (lw_clients w) \<and> c \<in> set (lw_clients w')"
    and "\<And>ch c. c \<in> set (members w' ch) \<Longrightarrow> (ch, c) \<notin> set (lw_asked w') \<Longrightarrow> seen (caught_up w c) ch = lock_now (lw_hub w) ch \<or> e = Attach ch c"
    and "\<And>c. caught_up w' c = caught_up (hub_does e w) c"
  shows "world_ok w'"
  unfolding world_ok_def
proof (intro conjI allI impI)
  show "wl_inv (lw_hub w')" "told_ok me (lw_hub w') ch" for me ch using assms(1-5) by (simp_all add: wl_inv_step told_ok_step)
  show "c \<in> set (lw_clients w')" if "c \<in> set (members w' ch)" for ch c using assms(6) [OF that] by simp
  show "seen (caught_up w' c) ch = lock_now (lw_hub w') ch" if "c \<in> set (members w' ch)" "(ch, c) \<notin> set (lw_asked w')" for ch c
    using hub_does_shows [OF assms(1-4), of c ch] assms(6) [OF that(1)] assms(7) [OF that] by (simp add: assms(5,8))
qed

lemma world_ok_step:
  assumes ok: "world_ok w" and ids: "ids_ok w" and en: "world_enabled w e"
  shows "world_ok (world_step w e)"
proof (cases e)
  case (AttachAnswered ch c)
  have other: "seen (caught_up w c') ch' = lock_now (lw_hub w) ch' \<or> ch = ch' \<and> c = c'" if "c' \<in> set (members w ch')" "(ch', c') \<notin> set (remove1 (ch, c) (lw_asked w))" for ch' c'
    using world_ok_parts(4) [OF ok that(1)] that(2) by (cases "(ch', c') = (ch, c)") auto
  show ?thesis unfolding AttachAnswered world_step.simps
    by (rule world_ok_hub [where w = "w\<lparr>lw_asked := remove1 (ch, c) (lw_asked w)\<rparr>" and e = "Attach ch c"])
      (use world_ok_parts(1-3) [OF ok] other in auto)
next
  case (Detaches ch c)
  show ?thesis unfolding Detaches world_step.simps Let_def
    by (rule world_ok_hub [where w = w and e = "Detach ch c"]) (use world_ok_parts [OF ok] in \<open>auto split: if_splits\<close>)
next
  case (Disconnects c)
  show ?thesis unfolding Disconnects world_step.simps Let_def
    by (rule world_ok_hub [where w = "w\<lparr>lw_clients := set_delete c (lw_clients w)\<rparr>" and e = "Disconnect c"]) (use world_ok_parts [OF ok] in auto)
next
  case (Asks a)
  then have "wl_enabled (lw_hub w) a" "lasting a" using en by (auto elim!: lock_event.elims)
  then show ?thesis unfolding Asks world_step.simps
    by (intro world_ok_hub [where w = w and e = a]) (use world_ok_parts [OF ok] in auto)
next
  case (Reads c)
  have "caught_up (world_step w (Reads c)) d = caught_up w d" for d by (simp add: caught_up_def upd_store_def split: list.split)
  then show ?thesis using ok Reads by (simp add: world_ok_def) (simp add: upd_store_def split: list.split)
next
  case (Prunes c dead)
  then show ?thesis using ok en seen_pruned by (auto simp: world_ok_def upd_store_def caught_up_def)
next
  case (Connects c st)
  have "c \<notin> set (members w ch)" for ch using world_ok_parts(3) [OF ok] ids en Connects by (auto simp: ids_ok_def)
  then show ?thesis using ok unfolding Connects by (auto simp: world_ok_def caught_up_def)
qed (use ok en in \<open>auto simp: world_ok_def upd_store_def caught_up_def seen_dismissed seen_commanded dest: in_set_remove1 split: if_splits\<close>)


lemma ids_ok_step: "ids_ok w \<Longrightarrow> world_enabled w e \<Longrightarrow> ids_ok (world_step w e)"
  by (cases e) (auto simp: ids_ok_def upd_store_def Let_def split: list.split dest: set_remove1_subset [THEN subsetD])

interpretation lock_world: event_machine world_init world_enabled world_step "\<lambda>w. world_ok w \<and> ids_ok w"
proof
  show "world_ok world_init \<and> ids_ok world_init"
    using wl_told.inv_init by (simp add: world_ok_def world_init_def ids_ok_def)
qed (simp add: world_ok_step ids_ok_step)

section \<open>Properties\<close>

lemma isWriter_seen: "isWriter (Some c) st ch \<longleftrightarrow> fst (seen st ch) = Some c"
  by (auto simp: isWriter_def seen_def split: option.split)



text \<open>A lock held by a client that is gone: short of a force nothing frees it.\<close>

definition stranded :: "channel_id \<Rightarrow> client_id \<Rightarrow> lock_world \<Rightarrow> bool" where
  "stranded ch a w \<longleftrightarrow> world_ok w \<and> ids_ok w \<and> getHolder (lw_hub w) ch = Some a \<and> a \<notin> set (lw_clients w) \<and> a \<in> set (lw_known w)"

lemma stranded_step:
  assumes "stranded ch a w" "a \<noteq> []" "world_enabled w e" "\<forall>d. e \<noteq> Asks (Force ch d)"
  shows "stranded ch a (world_step w e)"
proof -
  have w: "world_ok w" "ids_ok w" "getHolder (lw_hub w) ch = Some a" "a \<notin> set (lw_clients w)" "a \<in> set (lw_known w)" using assms(1) by (auto simp: stranded_def)
  have hub: "getHolder (wl_step (lw_hub w) x) ch = Some a" if "wl_enabled (lw_hub w) x" "\<not> takes_lock_from a ch x" for x
    by (rule getHolder_step [OF world_ok_parts(1) [OF w(1)] that(1) w(3) assms(2) that(2)])
  have "getHolder (lw_hub (world_step w e)) ch = Some a"
  proof (cases e)
    case (AttachAnswered ch' c)
    then show ?thesis using hub [of "Attach ch' c"] by (simp add: takes_lock_from_def)
  next
    case (Detaches ch' c)
    then show ?thesis using hub [of "Detach ch' c"] assms(3) w(4) by (auto simp: takes_lock_from_def Let_def)
  next
    case (Disconnects c)
    then show ?thesis using hub [of "Disconnect c"] assms(3) w(4) by (auto simp: takes_lock_from_def Let_def)
  next
    case (Asks x)
    then have "\<not> takes_lock_from a ch x" using assms(3,4) w(4) by (cases x) (auto simp: takes_lock_from_def)
    then show ?thesis using hub [of x] Asks assms(3) by simp
  qed (use w(3) in \<open>auto simp: upd_store_def split: list.split\<close>)
  moreover have "a \<notin> set (lw_clients (world_step w e)) \<and> a \<in> set (lw_known (world_step w e))"
    using assms(3) w(4,5) by (cases e) (auto simp: upd_store_def Let_def split: list.split)
  ultimately show ?thesis using world_ok_step [OF w(1,2) assms(3)] ids_ok_step [OF w(2) assms(3)] by (simp add: stranded_def)
qed

lemma stranded_run:
  "stranded ch a w \<Longrightarrow> a \<noteq> [] \<Longrightarrow> runs world_enabled world_step w fs \<Longrightarrow> \<forall>e \<in> set fs. \<forall>d. e \<noteq> Asks (Force ch d) \<Longrightarrow> stranded ch a (foldl world_step w fs)"
  by (induction fs arbitrary: w) (auto intro: stranded_step)

text \<open>
  C40: An ATTACH answered late leaves the lock with nobody. The handlers of ATTACH and SPAWN attach the client to the lock once the terminal has answered, without looking whether it is still connected: a
  window that closes while its attach waits on a free lock gets it all the same. From then on, whatever others claim, whoever comes and goes, and however long it lasts, no connected client can type into
  the terminal, short of a force.
\<close>

theorem late_attach_strands_lock:
  assumes "runs world_enabled world_step world_init (es @ AttachAnswered ch a # fs)" and "w = foldl world_step world_init es"
    and "a \<notin> set (lw_clients w)" "a \<noteq> []" "getHolder (lw_hub w) ch = None" "\<not> map_has (reservations (lw_hub w)) ch"
    and "\<forall>e \<in> set fs. \<forall>d. e \<noteq> Asks (Force ch d)" and "w' = foldl world_step w (AttachAnswered ch a # fs)"
  shows "getHolder (lw_hub w') ch = Some a \<and> a \<notin> set (lw_clients w') \<and> (\<forall>c \<in> set (lw_clients w'). \<not> isWriteLockHolder (lw_hub w') ch c)"
proof -
  let ?w = "world_step w (AttachAnswered ch a)"
  have ok: "world_ok w" "ids_ok w" using lock_world.inv_every_prefix [OF assms(1)] assms(2) by simp_all
  have en: "world_enabled w (AttachAnswered ch a)" and run: "runs world_enabled world_step ?w fs" using assms(1,2) by (simp_all add: runs_append)
  have "getHolder (lw_hub ?w) ch = Some a" using assms(5,6) by (simp add: attach_def Let_def getHolder_def map_has_def)
  moreover have "a \<in> set (lw_known w)" using ok(2) en by (auto simp: ids_ok_def)
  ultimately have "stranded ch a ?w" using assms(3) world_ok_step [OF ok en] ids_ok_step [OF ok(2) en] by (simp add: stranded_def)
  from stranded_run [OF this assms(4) run assms(7)] show ?thesis
    unfolding assms(8) by (auto simp: stranded_def isWriteLockHolder_def getHolder_def)
qed

theorem late_attach_strands_lock_witness:
  "let w = foldl world_step world_init
       ([Connects ''A'' empty_store, AttachAsked ''c'' ''A'', Disconnects ''A''] @
         AttachAnswered ''c'' ''A'' # [Connects ''B'' empty_store, AttachAsked ''c'' ''B'', AttachAnswered ''c'' ''B'', Asks (Claim ''c'' ''B'')])
   in ''B'' \<in> set (lw_clients w) \<and> getHolder (lw_hub w) ''c'' = Some ''A'' \<and> ''A'' \<notin> set (lw_clients w) \<and> \<not> isWriteLockHolder (lw_hub w) ''c'' ''B''"
proof -
  let ?es = "[Connects ''A'' empty_store, AttachAsked ''c'' ''A'', Disconnects ''A'']"
  let ?fs = "[Connects ''B'' empty_store, AttachAsked ''c'' ''B'', AttachAnswered ''c'' ''B'', Asks (Claim ''c'' ''B'')]"
  have run: "runs world_enabled world_step world_init (?es @ AttachAnswered ''c'' ''A'' # ?fs)" by code_simp
  have at: "''A'' \<notin> set (lw_clients (foldl world_step world_init ?es))" "getHolder (lw_hub (foldl world_step world_init ?es)) ''c'' = None"
    "\<not> map_has (reservations (lw_hub (foldl world_step world_init ?es))) ''c''" by code_simp+
  have "''B'' \<in> set (lw_clients (foldl world_step (foldl world_step world_init ?es) (AttachAnswered ''c'' ''A'' # ?fs)))" by code_simp
  moreover have "foldl world_step world_init (?es @ AttachAnswered ''c'' ''A'' # ?fs) = foldl world_step (foldl world_step world_init ?es) (AttachAnswered ''c'' ''A'' # ?fs)"
    by (rule foldl_append)
  ultimately show ?thesis using late_attach_strands_lock [OF run refl at(1) _ at(2,3) _ refl] unfolding Let_def by simp
qed

end
