(* ===== verification/Pane_Tree.thy ===== *)
theory Pane_Tree
  imports Lasterm_Prelude Complex_Main "HOL-Library.Multiset"
begin

text \<open>
  The pane trees of \<^verbatim>\<open>packages/clients/web/src/composables/usePaneTree.ts\<close>: the tree type, the
  exported helpers and the internal tree functions, with the laws the layout operations rest on.
  A split's ratio is a rational number; ids are strings. A path is a list of turns from the root.
\<close>

section \<open>Trees and paths\<close>

type_synonym pane_id = string
type_synonym tab_id = string

datatype split_direction = Horizontal | Vertical

datatype PaneNode =
    Terminal channel_id pane_id
  | Vacant pane_id
  | Split split_direction rat PaneNode PaneNode

datatype DropZone = ZLeft | ZRight | ZTop | ZBottom | ZCenter

datatype turn = First | Second

type_synonym NodePath = "turn list"

definition MAX_PANE_COUNT :: nat where
  "MAX_PANE_COUNT = 4"

definition orElse :: "'a option \<Rightarrow> 'a option \<Rightarrow> 'a option" where
  "orElse a b = (case a of None \<Rightarrow> b | Some x \<Rightarrow> Some x)"

lemma orElse_simps [simp]: "orElse None b = b" "orElse (Some x) b = Some x" "orElse a None = a"
  by (simp_all add: orElse_def split: option.split)

lemma orElse_None [simp]: "orElse a b = None \<longleftrightarrow> a = None \<and> b = None"
  by (cases a) auto

fun countLeaves :: "PaneNode \<Rightarrow> nat" where
  "countLeaves (Split _ _ a b) = countLeaves a + countLeaves b"
| "countLeaves _ = 1"

fun findFirstLeafPaneId :: "PaneNode \<Rightarrow> pane_id option" where
  "findFirstLeafPaneId (Terminal _ p) = Some p"
| "findFirstLeafPaneId (Vacant _) = None"
| "findFirstLeafPaneId (Split _ _ a b) = orElse (findFirstLeafPaneId a) (findFirstLeafPaneId b)"

fun findChannelByPaneId :: "PaneNode \<Rightarrow> pane_id \<Rightarrow> channel_id option" where
  "findChannelByPaneId (Terminal c p) paneId = (if p = paneId then Some c else None)"
| "findChannelByPaneId (Vacant _) paneId = None"
| "findChannelByPaneId (Split _ _ a b) paneId = orElse (findChannelByPaneId a paneId) (findChannelByPaneId b paneId)"

fun countPanes :: "PaneNode \<Rightarrow> nat" where
  "countPanes (Split _ _ a b) = countPanes a + countPanes b"
| "countPanes _ = 1"

fun collectTerminalChannelIds :: "PaneNode \<Rightarrow> channel_id list" where
  "collectTerminalChannelIds (Terminal c _) = [c]"
| "collectTerminalChannelIds (Vacant _) = []"
| "collectTerminalChannelIds (Split _ _ a b) = collectTerminalChannelIds a @ collectTerminalChannelIds b"

fun setNodeAtPath :: "PaneNode \<Rightarrow> NodePath \<Rightarrow> PaneNode \<Rightarrow> PaneNode" where
  "setNodeAtPath rt [] node = node"
| "setNodeAtPath (Split d r a b) (First # rest) node = Split d r (setNodeAtPath a rest node) b"
| "setNodeAtPath (Split d r a b) (Second # rest) node = Split d r a (setNodeAtPath b rest node)"
| "setNodeAtPath rt path node = rt"

definition found_below :: "NodePath option \<Rightarrow> NodePath option \<Rightarrow> NodePath option" where
  "found_below inFirst inSecond = orElse (map_option (Cons First) inFirst) (map_option (Cons Second) inSecond)"

fun findChannelPath :: "PaneNode \<Rightarrow> channel_id \<Rightarrow> NodePath option" where
  "findChannelPath (Terminal c _) channelId = (if c = channelId then Some [] else None)"
| "findChannelPath (Vacant _) channelId = None"
| "findChannelPath (Split _ _ a b) channelId = found_below (findChannelPath a channelId) (findChannelPath b channelId)"

fun getNodeAtPath :: "PaneNode \<Rightarrow> NodePath \<Rightarrow> PaneNode option" where
  "getNodeAtPath rt [] = Some rt"
| "getNodeAtPath (Split _ _ a b) (First # rest) = getNodeAtPath a rest"
| "getNodeAtPath (Split _ _ a b) (Second # rest) = getNodeAtPath b rest"
| "getNodeAtPath rt path = None"

fun replaceInTree :: "PaneNode \<Rightarrow> channel_id \<Rightarrow> channel_id \<Rightarrow> PaneNode" where
  "replaceInTree (Terminal c p) oldId newId = (if c = oldId then Terminal newId p else Terminal c p)"
| "replaceInTree (Vacant v) oldId newId = Vacant v"
| "replaceInTree (Split d r a b) oldId newId = Split d r (replaceInTree a oldId newId) (replaceInTree b oldId newId)"

fun findVacantPath :: "PaneNode \<Rightarrow> pane_id \<Rightarrow> NodePath option" where
  "findVacantPath (Vacant v) vacantId = (if v = vacantId then Some [] else None)"
| "findVacantPath (Terminal _ _) vacantId = None"
| "findVacantPath (Split _ _ a b) vacantId = found_below (findVacantPath a vacantId) (findVacantPath b vacantId)"

definition rebuilt :: "split_direction \<Rightarrow> rat \<Rightarrow> PaneNode \<Rightarrow> PaneNode \<Rightarrow> PaneNode option \<Rightarrow> PaneNode option \<Rightarrow> PaneNode option" where
  "rebuilt d r a b firstResult secondResult =
     orElse (map_option (\<lambda>a'. Split d r a' b) firstResult) (map_option (\<lambda>b'. Split d r a b') secondResult)"

fun replaceTerminalNode :: "PaneNode \<Rightarrow> channel_id \<Rightarrow> PaneNode \<Rightarrow> PaneNode option" where
  "replaceTerminalNode (Terminal c _) channelId replacement = (if c = channelId then Some replacement else None)"
| "replaceTerminalNode (Vacant _) channelId replacement = None"
| "replaceTerminalNode (Split d r a b) channelId replacement =
     rebuilt d r a b (replaceTerminalNode a channelId replacement) (replaceTerminalNode b channelId replacement)"

fun getLeafId :: "PaneNode \<Rightarrow> pane_id option" where
  "getLeafId (Terminal _ p) = Some p"
| "getLeafId (Vacant v) = Some v"
| "getLeafId (Split _ _ _ _) = None"

fun findNodePathByPaneId :: "PaneNode \<Rightarrow> pane_id \<Rightarrow> NodePath option" where
  "findNodePathByPaneId (Split _ _ a b) paneId = found_below (findNodePathByPaneId a paneId) (findNodePathByPaneId b paneId)"
| "findNodePathByPaneId leaf paneId = (if getLeafId leaf = Some paneId then Some [] else None)"

fun replaceNodeByPaneId :: "PaneNode \<Rightarrow> pane_id \<Rightarrow> PaneNode \<Rightarrow> PaneNode option" where
  "replaceNodeByPaneId (Split d r a b) paneId replacement =
     rebuilt d r a b (replaceNodeByPaneId a paneId replacement) (replaceNodeByPaneId b paneId replacement)"
| "replaceNodeByPaneId leaf paneId replacement = (if getLeafId leaf = Some paneId then Some replacement else None)"

section \<open>Where a tab belongs, its label\<close>

type_synonym layouts = "(tab_id, PaneNode option) jmap"

text \<open>\<open>layouts[tabId]\<close>, with \<open>null\<close> and \<open>undefined\<close> alike.\<close>

definition layout_of :: "layouts \<Rightarrow> tab_id \<Rightarrow> PaneNode option" where
  "layout_of layouts tabId = (case map_get layouts tabId of Some (Some rt) \<Rightarrow> Some rt | _ \<Rightarrow> None)"

definition tabIsOnHost :: "tab_id \<Rightarrow> layouts \<Rightarrow> (channel_id, host_id) jmap \<Rightarrow> host_id \<Rightarrow> bool" where
  "tabIsOnHost tabId layouts channelHostMap hostId =
     (case layout_of layouts tabId of
        None \<Rightarrow> True
      | Some rt \<Rightarrow>
          let channelIds = collectTerminalChannelIds rt in
          if channelIds = [] then True
          else let known = List.map_filter (map_get channelHostMap) channelIds in
            hostId \<in> set known \<or> known = [])"

record TabChannel =
  tc_id :: channel_id
  tc_displayTitle :: "string option"

definition DEFAULT_CHANNEL_NAME :: string where
  "DEFAULT_CHANNEL_NAME = ''Terminal''"

definition resolveTabLabel :: "channel_id \<Rightarrow> TabChannel list \<Rightarrow> (channel_id, string) jmap \<Rightarrow> string" where
  "resolveTabLabel channelId channels index =
     (case List.find (\<lambda>c. tc_id c = channelId) channels of
        Some channel \<Rightarrow> (case tc_displayTitle channel of None \<Rightarrow> DEFAULT_CHANNEL_NAME | Some t \<Rightarrow> t)
      | None \<Rightarrow>
          (case map_get index channelId of
             Some t \<Rightarrow> if t \<noteq> [] then t else DEFAULT_CHANNEL_NAME
           | None \<Rightarrow> DEFAULT_CHANNEL_NAME))"

section \<open>Laws of the tree\<close>

named_theorems pane_simps \<open>counting and collecting after a tree update\<close>

lemma countPanes_pos [simp]: "0 < countPanes t"
  by (induction t) auto

lemma countLeaves_countPanes: "countLeaves t = countPanes t"
  by (induction t) auto

lemma getNodeAtPath_setNodeAtPath:
  "getNodeAtPath rt path = Some n \<Longrightarrow> getNodeAtPath (setNodeAtPath rt path node) path = Some node"
  by (induction rt path rule: getNodeAtPath.induct) auto

lemma setNodeAtPath_undefined: "getNodeAtPath rt path = None \<Longrightarrow> setNodeAtPath rt path node = rt"
  by (induction rt path rule: getNodeAtPath.induct) auto

lemma getNodeAtPath_append:
  "getNodeAtPath rt (p @ q) = Option.bind (getNodeAtPath rt p) (\<lambda>n. getNodeAtPath n q)"
  by (induction rt p rule: getNodeAtPath.induct) auto

lemma setNodeAtPath_append:
  "getNodeAtPath rt p = Some n \<Longrightarrow> setNodeAtPath rt (p @ q) node = setNodeAtPath rt p (setNodeAtPath n q node)"
  by (induction rt p rule: getNodeAtPath.induct) auto

lemma countPanes_setNodeAtPath [pane_simps]:
  "getNodeAtPath rt path = Some n \<Longrightarrow>
   countPanes (setNodeAtPath rt path node) + countPanes n = countPanes rt + countPanes node"
  by (induction rt path rule: getNodeAtPath.induct) auto

abbreviation tree_channels :: "PaneNode \<Rightarrow> channel_id multiset" where
  "tree_channels t \<equiv> mset (collectTerminalChannelIds t)"

lemma channels_setNodeAtPath [pane_simps]:
  "getNodeAtPath rt path = Some n \<Longrightarrow>
   tree_channels (setNodeAtPath rt path node) + tree_channels n = tree_channels rt + tree_channels node"
  by (induction rt path rule: getNodeAtPath.induct) (auto simp: ac_simps)

text \<open>The leaves of a tree, and the ids of its panes, in order.\<close>

fun leaf_ids :: "PaneNode \<Rightarrow> pane_id list" where
  "leaf_ids (Terminal _ p) = [p]"
| "leaf_ids (Vacant v) = [v]"
| "leaf_ids (Split _ _ a b) = leaf_ids a @ leaf_ids b"

lemma length_leaf_ids: "length (leaf_ids t) = countPanes t"
  by (induction t) auto

lemma found_below_Some:
  "found_below x y = Some p \<longleftrightarrow>
     (\<exists>q. x = Some q \<and> p = First # q) \<or> (x = None \<and> (\<exists>q. y = Some q \<and> p = Second # q))"
  by (cases x) (auto simp: found_below_def)

lemma found_below_None [simp]: "found_below x y = None \<longleftrightarrow> x = None \<and> y = None"
  by (simp add: found_below_def)

lemma rebuilt_Some:
  "rebuilt d r a b x y = Some t \<longleftrightarrow>
     (\<exists>a'. x = Some a' \<and> t = Split d r a' b) \<or> (x = None \<and> (\<exists>b'. y = Some b' \<and> t = Split d r a b'))"
  by (cases x) (auto simp: rebuilt_def)

lemma rebuilt_None [simp]: "rebuilt d r a b x y = None \<longleftrightarrow> x = None \<and> y = None"
  by (simp add: rebuilt_def)

lemmas below_simps = found_below_Some rebuilt_Some

lemma findChannelPath_sound:
  "findChannelPath rt ch = Some path \<Longrightarrow> \<exists>p. getNodeAtPath rt path = Some (Terminal ch p)"
  by (induction rt arbitrary: path) (auto simp: below_simps split: if_splits)

lemma findChannelPath_None: "findChannelPath rt ch = None \<longleftrightarrow> ch \<notin> set (collectTerminalChannelIds rt)"
  by (induction rt) auto

lemma findVacantPath_sound:
  "findVacantPath rt v = Some path \<Longrightarrow> getNodeAtPath rt path = Some (Vacant v)"
  by (induction rt arbitrary: path) (auto simp: below_simps split: if_splits)

lemma findNodePathByPaneId_sound:
  "findNodePathByPaneId rt p = Some path \<Longrightarrow> \<exists>n. getNodeAtPath rt path = Some n \<and> getLeafId n = Some p"
  by (induction rt arbitrary: path) (auto simp: below_simps split: if_splits)

lemma findNodePathByPaneId_None: "findNodePathByPaneId rt p = None \<longleftrightarrow> p \<notin> set (leaf_ids rt)"
  by (induction rt) auto

lemma replaceTerminalNode_path:
  "replaceTerminalNode rt ch n = map_option (\<lambda>path. setNodeAtPath rt path n) (findChannelPath rt ch)"
proof (induction rt)
  case (Split d r a b)
  then show ?case by (cases "findChannelPath a ch"; cases "findChannelPath b ch") (auto simp: rebuilt_def found_below_def)
qed auto

lemma replaceNodeByPaneId_path:
  "replaceNodeByPaneId rt p n = map_option (\<lambda>path. setNodeAtPath rt path n) (findNodePathByPaneId rt p)"
proof (induction rt)
  case (Split d r a b)
  then show ?case
    by (cases "findNodePathByPaneId a p"; cases "findNodePathByPaneId b p") (auto simp: rebuilt_def found_below_def)
qed auto

lemma collect_replaceInTree:
  "collectTerminalChannelIds (replaceInTree t old new) =
     map (\<lambda>c. if c = old then new else c) (collectTerminalChannelIds t)"
  by (induction t) auto

lemma leaf_ids_replaceInTree: "leaf_ids (replaceInTree t old new) = leaf_ids t"
  by (induction t) auto

lemma findFirst_None: "findFirstLeafPaneId t = None \<longleftrightarrow> collectTerminalChannelIds t = []"
  by (induction t) auto

lemma findFirst_channel:
  "findFirstLeafPaneId t = Some p \<Longrightarrow> \<exists>ch. findChannelByPaneId t p = Some ch"
  by (induction t) (auto simp: orElse_def split: option.splits)

lemma findChannelByPaneId_in: "findChannelByPaneId t p = Some ch \<Longrightarrow> ch \<in> set (collectTerminalChannelIds t)"
  by (induction t) (auto simp: orElse_def split: option.splits if_splits)

text \<open>Collapsing a split onto the sibling of a child: the child's panes go, all others stay.\<close>

definition sibling_of :: "turn \<Rightarrow> PaneNode \<Rightarrow> PaneNode option" where
  "sibling_of lastTurn parent =
     (case parent of Split _ _ a b \<Rightarrow> Some (case lastTurn of First \<Rightarrow> b | Second \<Rightarrow> a) | _ \<Rightarrow> None)"

lemma collapse_counts:
  assumes "getNodeAtPath rt (path @ [t]) = Some n"
  obtains parent sib where "getNodeAtPath rt path = Some parent" "sibling_of t parent = Some sib"
    "countPanes (setNodeAtPath rt path sib) + countPanes n = countPanes rt"
    "tree_channels (setNodeAtPath rt path sib) + tree_channels n = tree_channels rt"
proof -
  from assms obtain parent where p: "getNodeAtPath rt path = Some parent" and n: "getNodeAtPath parent [t] = Some n"
    by (auto simp: getNodeAtPath_append bind_eq_Some_conv)
  from n obtain sib where s: "sibling_of t parent = Some sib"
    and c: "countPanes parent = countPanes sib + countPanes n" "tree_channels parent = tree_channels sib + tree_channels n"
    by (cases parent; cases t) (auto simp: sibling_of_def ac_simps)
  from countPanes_setNodeAtPath [OF p, of sib] channels_setNodeAtPath [OF p, of sib] c p s show thesis
    by (intro that) (auto simp: ac_simps)
qed

end
