(* ===== verification/Pane_Layout.thy ===== *)
theory Pane_Layout
  imports Pane_Tree
begin

text \<open>
  The layout operations of \<open>usePaneTree\<close> (\<^verbatim>\<open>packages/clients/web/src/composables/usePaneTree.ts\<close>) on
  the four refs \<open>useLayout\<close> owns: the tabs, the index of the active one, a pane tree and an active
  pane per tab. A tab is its id. The ids \<open>generateId()\<close> would return are arguments.
\<close>

record LayoutState =
  tabs :: "tab_id list"
  activeTabIndex :: int
  layouts :: layouts
  activePaneIds :: "(tab_id, pane_id) jmap"

section \<open>Reading the layout\<close>

definition activeTab :: "LayoutState \<Rightarrow> tab_id option" where
  "activeTab s =
     (if 0 \<le> activeTabIndex s \<and> activeTabIndex s < int (length (tabs s))
      then Some (tabs s ! nat (activeTabIndex s)) else None)"

definition getActiveChannelId :: "LayoutState \<Rightarrow> tab_id \<Rightarrow> channel_id option" where
  "getActiveChannelId s tabId =
     (case layout_of (layouts s) tabId of
        None \<Rightarrow> None
      | Some rt \<Rightarrow>
          orElse (case map_get (activePaneIds s) tabId of
                    None \<Rightarrow> None
                  | Some paneId \<Rightarrow> findChannelByPaneId rt paneId)
                 (findChannelByPaneId rt (case findFirstLeafPaneId rt of None \<Rightarrow> [] | Some p \<Rightarrow> p)))"

definition EMPTY_TAB_LABEL :: string where
  "EMPTY_TAB_LABEL = ''New tab''"

definition getTabLabel :: "TabChannel list \<Rightarrow> (channel_id, string) jmap \<Rightarrow> LayoutState \<Rightarrow> tab_id \<Rightarrow> string" where
  "getTabLabel channels index s tabId =
     (case getActiveChannelId s tabId of
        None \<Rightarrow> EMPTY_TAB_LABEL
      | Some channelId \<Rightarrow> resolveTabLabel channelId channels index)"

definition findTabForChannel :: "LayoutState \<Rightarrow> channel_id \<Rightarrow> tab_id option" where
  "findTabForChannel s channelId =
     orElse
       (case activeTab s of
          None \<Rightarrow> None
        | Some active \<Rightarrow>
            (case layout_of (layouts s) active of
               None \<Rightarrow> None
             | Some rt \<Rightarrow> if findChannelPath rt channelId \<noteq> None then Some active else None))
       (map_option fst
          (List.find (\<lambda>(_, rt). case rt of None \<Rightarrow> False | Some rt \<Rightarrow> findChannelPath rt channelId \<noteq> None) (layouts s)))"

section \<open>Changing one tab\<close>

definition put_layout :: "tab_id \<Rightarrow> PaneNode option \<Rightarrow> LayoutState \<Rightarrow> LayoutState" where
  "put_layout tabId rt s = s\<lparr>layouts := map_set tabId rt (layouts s)\<rparr>"

definition setActivePaneId :: "tab_id \<Rightarrow> pane_id \<Rightarrow> LayoutState \<Rightarrow> LayoutState" where
  "setActivePaneId tabId paneId s = s\<lparr>activePaneIds := map_set tabId paneId (activePaneIds s)\<rparr>"

definition dropActivePaneId :: "tab_id \<Rightarrow> LayoutState \<Rightarrow> LayoutState" where
  "dropActivePaneId tabId s = s\<lparr>activePaneIds := map_delete tabId (activePaneIds s)\<rparr>"

definition setLayout :: "PaneNode option \<Rightarrow> LayoutState \<Rightarrow> LayoutState" where
  "setLayout node s = (case activeTab s of None \<Rightarrow> s | Some tab \<Rightarrow> put_layout tab node s)"

datatype split_result = SplitDone | AtLimit | NotFound

definition splitPane ::
  "pane_id \<Rightarrow> channel_id \<Rightarrow> split_direction \<Rightarrow> nat \<Rightarrow> LayoutState \<Rightarrow> split_result \<times> LayoutState" where
  "splitPane newId channelId direction limit s =
     (case activeTab s of
        None \<Rightarrow> (NotFound, s)
      | Some tab \<Rightarrow>
          (case layout_of (layouts s) tab of
             None \<Rightarrow> (NotFound, s)
           | Some rt \<Rightarrow>
               if countLeaves rt \<ge> limit then (AtLimit, s)
               else case findChannelPath rt channelId of
                   None \<Rightarrow> (NotFound, s)
                 | Some path \<Rightarrow>
                     (case getNodeAtPath rt path of
                        None \<Rightarrow> (NotFound, s)
                      | Some existingNode \<Rightarrow>
                          (SplitDone, put_layout tab
                             (Some (setNodeAtPath rt path (Split direction (1 / 2) existingNode (Vacant newId)))) s))))"

text \<open>
  What \<open>unsplitPane\<close>, \<open>rearrangeVacant\<close> and \<open>closePane\<close> do with the path of a pane: its parent split
  is replaced by its sibling. There is none for the root.
\<close>

definition collapsed :: "PaneNode \<Rightarrow> NodePath \<Rightarrow> PaneNode option" where
  "collapsed rt path =
     (if path = [] then None
      else let parentPath = butlast path in
        case getNodeAtPath rt parentPath of
          None \<Rightarrow> None
        | Some parentNode \<Rightarrow>
            (case sibling_of (last path) parentNode of
               None \<Rightarrow> None
             | Some sibling \<Rightarrow> Some (if parentPath = [] then sibling else setNodeAtPath rt parentPath sibling)))"

definition unsplitPane :: "channel_id \<Rightarrow> LayoutState \<Rightarrow> LayoutState" where
  "unsplitPane channelId s =
     (case activeTab s of
        None \<Rightarrow> s
      | Some tab \<Rightarrow>
          (case layout_of (layouts s) tab of
             None \<Rightarrow> s
           | Some rt \<Rightarrow>
               (case Option.bind (findChannelPath rt channelId) (collapsed rt) of
                  None \<Rightarrow> s
                | Some newRoot \<Rightarrow> put_layout tab (Some newRoot) s)))"

definition SPLIT_RATIO_MIN :: rat where
  "SPLIT_RATIO_MIN = 1 / 10"

definition SPLIT_RATIO_MAX :: rat where
  "SPLIT_RATIO_MAX = 9 / 10"

definition clampSplitRatio :: "rat \<Rightarrow> rat" where
  "clampSplitRatio ratio = min SPLIT_RATIO_MAX (max SPLIT_RATIO_MIN ratio)"

definition updateRatio :: "NodePath \<Rightarrow> rat \<Rightarrow> LayoutState \<Rightarrow> LayoutState" where
  "updateRatio splitNodePath ratio s =
     (case activeTab s of
        None \<Rightarrow> s
      | Some tab \<Rightarrow>
          (case layout_of (layouts s) tab of
             None \<Rightarrow> s
           | Some rt \<Rightarrow>
               (case getNodeAtPath rt splitNodePath of
                  Some (Split d _ a b) \<Rightarrow>
                    put_layout tab (Some (setNodeAtPath rt splitNodePath (Split d (clampSplitRatio ratio) a b))) s
                | _ \<Rightarrow> s)))"

definition replaceChannelId :: "channel_id \<Rightarrow> channel_id \<Rightarrow> LayoutState \<Rightarrow> LayoutState" where
  "replaceChannelId oldId newId s =
     s\<lparr>layouts := map (\<lambda>(key, tree). (key, map_option (\<lambda>t. replaceInTree t oldId newId) tree)) (layouts s)\<rparr>"

text \<open>
  After the terminal of \<open>channelId\<close> left its place in a tab: when it was the active pane, the
  first terminal left is, or none.
\<close>

definition moveActive :: "tab_id \<Rightarrow> channel_id \<Rightarrow> PaneNode \<Rightarrow> PaneNode \<Rightarrow> LayoutState \<Rightarrow> LayoutState" where
  "moveActive tabId channelId rt updated s =
     (case map_get (activePaneIds s) tabId of
        None \<Rightarrow> s
      | Some activePaneId \<Rightarrow>
          if findChannelByPaneId rt activePaneId = Some channelId
          then case findFirstLeafPaneId updated of
              Some newActive \<Rightarrow> setActivePaneId tabId newActive s
            | None \<Rightarrow> dropActivePaneId tabId s
          else s)"

definition vacatePaneInTab :: "pane_id \<Rightarrow> tab_id \<Rightarrow> channel_id \<Rightarrow> LayoutState \<Rightarrow> LayoutState" where
  "vacatePaneInTab newId tabId channelId s =
     (case layout_of (layouts s) tabId of
        None \<Rightarrow> s
      | Some rt \<Rightarrow>
          (case replaceTerminalNode rt channelId (Vacant newId) of
             None \<Rightarrow> s
           | Some updated \<Rightarrow> moveActive tabId channelId rt updated (put_layout tabId (Some updated) s)))"

definition vacatePane :: "pane_id \<Rightarrow> channel_id \<Rightarrow> LayoutState \<Rightarrow> LayoutState" where
  "vacatePane newId channelId s =
     (case activeTab s of
        None \<Rightarrow> s
      | Some tab \<Rightarrow>
          (case layout_of (layouts s) tab of
             None \<Rightarrow> s
           | Some rt \<Rightarrow>
               (case replaceTerminalNode rt channelId (Vacant newId) of
                  None \<Rightarrow> s
                | Some updated \<Rightarrow> moveActive tab channelId rt updated (put_layout tab (Some updated) s))))"

definition detachPane :: "pane_id \<Rightarrow> channel_id \<Rightarrow> LayoutState \<Rightarrow> LayoutState" where
  "detachPane newId channelId s = vacatePane newId channelId s"

text \<open>The tabs in the order an empty slot is looked for: the active one, then the others.\<close>

definition tabs_active_first :: "LayoutState \<Rightarrow> tab_id list" where
  "tabs_active_first s =
     (case activeTab s of None \<Rightarrow> [] | Some active \<Rightarrow> [active])
     @ filter (\<lambda>i. Some i \<noteq> activeTab s) (tabs s)"

fun fill_first :: "pane_id \<Rightarrow> pane_id \<Rightarrow> channel_id \<Rightarrow> tab_id list \<Rightarrow> LayoutState \<Rightarrow> tab_id option \<times> LayoutState" where
  "fill_first newPaneId vacantId channelId [] s = (None, s)"
| "fill_first newPaneId vacantId channelId (tabId # tabIds) s =
     (case layout_of (layouts s) tabId of
        None \<Rightarrow> fill_first newPaneId vacantId channelId tabIds s
      | Some rt \<Rightarrow>
          (case findVacantPath rt vacantId of
             None \<Rightarrow> fill_first newPaneId vacantId channelId tabIds s
           | Some path \<Rightarrow>
               (Some tabId, setActivePaneId tabId newPaneId
                  (put_layout tabId (Some (setNodeAtPath rt path (Terminal channelId newPaneId))) s))))"

definition fillVacant :: "pane_id \<Rightarrow> pane_id \<Rightarrow> channel_id \<Rightarrow> LayoutState \<Rightarrow> tab_id option \<times> LayoutState" where
  "fillVacant newPaneId vacantId channelId s = fill_first newPaneId vacantId channelId (tabs_active_first s) s"

definition rearrangeVacant :: "pane_id \<Rightarrow> LayoutState \<Rightarrow> LayoutState" where
  "rearrangeVacant vacantId s =
     (case activeTab s of
        None \<Rightarrow> s
      | Some tab \<Rightarrow>
          (case layout_of (layouts s) tab of
             None \<Rightarrow> s
           | Some rt \<Rightarrow>
               (case Option.bind (findVacantPath rt vacantId) (collapsed rt) of
                  None \<Rightarrow> s
                | Some newRoot \<Rightarrow> put_layout tab (Some newRoot) s)))"

definition closePane :: "pane_id \<Rightarrow> channel_id \<Rightarrow> LayoutState \<Rightarrow> LayoutState" where
  "closePane newId channelId s =
     (case findTabForChannel s channelId of
        None \<Rightarrow> s
      | Some tab \<Rightarrow>
          (case layout_of (layouts s) tab of
             None \<Rightarrow> s
           | Some rt \<Rightarrow>
               (case findChannelPath rt channelId of
                  None \<Rightarrow> s
                | Some path \<Rightarrow>
                    if path = [] then dropActivePaneId tab (put_layout tab (Some (Vacant newId)) s)
                    else case collapsed rt path of
                        None \<Rightarrow> s
                      | Some newRoot \<Rightarrow> moveActive tab channelId rt newRoot (put_layout tab (Some newRoot) s))))"

definition insert_beside :: "DropZone \<Rightarrow> PaneNode \<Rightarrow> PaneNode \<Rightarrow> PaneNode" where
  "insert_beside zone sourceNode existingNode =
     (let direction = (if zone = ZLeft \<or> zone = ZRight then Vertical else Horizontal) in
      if zone = ZLeft \<or> zone = ZTop then Split direction (1 / 2) sourceNode existingNode
      else Split direction (1 / 2) existingNode sourceNode)"

definition movePaneTo ::
  "pane_id \<Rightarrow> pane_id \<Rightarrow> channel_id \<Rightarrow> pane_id \<Rightarrow> tab_id \<Rightarrow> DropZone \<Rightarrow> LayoutState \<Rightarrow> LayoutState" where
  "movePaneTo vacantId newSourcePaneId sourceChannelId targetPaneId targetTabId zone s =
     (case findTabForChannel s sourceChannelId of
        None \<Rightarrow> s
      | Some sourceTabKey \<Rightarrow>
          let s = vacatePaneInTab vacantId sourceTabKey sourceChannelId s in
          (case layout_of (layouts s) targetTabId of
             None \<Rightarrow> s
           | Some targetRoot \<Rightarrow>
               let sourceNode = Terminal sourceChannelId newSourcePaneId in
               if zone = ZCenter
               then case replaceNodeByPaneId targetRoot targetPaneId sourceNode of
                   None \<Rightarrow> s
                 | Some updated \<Rightarrow>
                     setActivePaneId targetTabId newSourcePaneId (put_layout targetTabId (Some updated) s)
               else case findNodePathByPaneId targetRoot targetPaneId of
                   None \<Rightarrow> s
                 | Some targetPath \<Rightarrow>
                     (case getNodeAtPath targetRoot targetPath of
                        None \<Rightarrow> s
                      | Some existingNode \<Rightarrow>
                          setActivePaneId targetTabId newSourcePaneId
                            (put_layout targetTabId
                               (Some (setNodeAtPath targetRoot targetPath (insert_beside zone sourceNode existingNode))) s))))"

section \<open>Frame and lookup lemmas\<close>

lemma put_layout_fields [simp]:
  "tabs (put_layout t r s) = tabs s" "activeTabIndex (put_layout t r s) = activeTabIndex s"
  "activePaneIds (put_layout t r s) = activePaneIds s"
  "layouts (put_layout t r s) = map_set t r (layouts s)"
  by (simp_all add: put_layout_def)

lemma active_fields [simp]:
  "tabs (setActivePaneId t p s) = tabs s" "activeTabIndex (setActivePaneId t p s) = activeTabIndex s"
  "layouts (setActivePaneId t p s) = layouts s"
  "activePaneIds (setActivePaneId t p s) = map_set t p (activePaneIds s)"
  "tabs (dropActivePaneId t s) = tabs s" "activeTabIndex (dropActivePaneId t s) = activeTabIndex s"
  "layouts (dropActivePaneId t s) = layouts s"
  "activePaneIds (dropActivePaneId t s) = map_delete t (activePaneIds s)"
  by (simp_all add: setActivePaneId_def dropActivePaneId_def)

lemma moveActive_fields [simp]:
  "tabs (moveActive t c r u s) = tabs s" "activeTabIndex (moveActive t c r u s) = activeTabIndex s"
  "layouts (moveActive t c r u s) = layouts s"
  by (simp_all add: moveActive_def split: option.split)

lemma layout_of_map_set [simp]:
  "layout_of (map_set t r ls) t' = (if t' = t then r else layout_of ls t')"
  by (simp add: layout_of_def split: option.split)

lemma activeTab_cong: "tabs s' = tabs s \<Longrightarrow> activeTabIndex s' = activeTabIndex s \<Longrightarrow> activeTab s' = activeTab s"
  by (simp add: activeTab_def)

lemma findTabForChannel_Some:
  assumes "map_ok (layouts s)" "findTabForChannel s ch = Some tab"
  obtains rt path where "layout_of (layouts s) tab = Some rt" "findChannelPath rt ch = Some path"
proof -
  have "\<exists>rt. layout_of (layouts s) tab = Some rt \<and> findChannelPath rt ch \<noteq> None"
  proof (cases "\<exists>rt. activeTab s = Some tab \<and> layout_of (layouts s) tab = Some rt \<and> findChannelPath rt ch \<noteq> None")
    case False
    with assms(2) have "map_option fst (List.find (\<lambda>(_, rt). case rt of None \<Rightarrow> False | Some rt \<Rightarrow> findChannelPath rt ch \<noteq> None)
        (layouts s)) = Some tab"
      by (auto simp: findTabForChannel_def orElse_def split: option.splits if_splits)
    then obtain rt where "(tab, Some rt) \<in> set (layouts s)" "findChannelPath rt ch \<noteq> None"
      by (auto simp: find_Some_iff split: option.splits dest!: nth_mem)
    with in_set_map_get [OF assms(1)] show ?thesis by (force simp: layout_of_def)
  qed auto
  then show thesis using that by auto
qed

lemma findTabForChannel_None:
  assumes "findTabForChannel s ch = None" "map_get (layouts s) tab = Some (Some rt)"
  shows "ch \<notin> set (collectTerminalChannelIds rt)"
proof -
  from assms(1) have "List.find (\<lambda>(_, rt). case rt of None \<Rightarrow> False | Some rt \<Rightarrow> findChannelPath rt ch \<noteq> None) (layouts s) = None"
    by (auto simp: findTabForChannel_def)
  with map_get_in_set [OF assms(2)] show ?thesis
    by (auto simp: find_None_iff findChannelPath_None split: option.splits)
qed

lemma collapsed_counts:
  assumes "getNodeAtPath rt path = Some n" "path \<noteq> []"
  obtains rt' where "collapsed rt path = Some rt'" "countPanes rt' + countPanes n = countPanes rt"
    "tree_channels rt' + tree_channels n = tree_channels rt"
proof -
  have "getNodeAtPath rt (butlast path @ [last path]) = Some n" using assms by simp
  from collapse_counts [OF this] obtain parent sib where
    "getNodeAtPath rt (butlast path) = Some parent" "sibling_of (last path) parent = Some sib"
    "countPanes (setNodeAtPath rt (butlast path) sib) + countPanes n = countPanes rt"
    "tree_channels (setNodeAtPath rt (butlast path) sib) + tree_channels n = tree_channels rt" .
  moreover from this(1,2) assms(2) have "collapsed rt path = Some (setNodeAtPath rt (butlast path) sib)"
    by (cases "butlast path") (simp_all add: collapsed_def)
  ultimately show thesis using that by blast
qed

section \<open>Properties of the pane operations\<close>

text \<open>
  A split never takes a tab past its limit. \<open>splitPane\<close> either leaves the layout as it was
  (and says why), or adds exactly one pane, empty, to the active tab, keeps all its terminals,
  touches no other tab, and stays within \<open>limit\<close> panes.
\<close>

theorem splitPane_within_limit:
  "case splitPane newId ch direction limit s of
     (SplitDone, s') \<Rightarrow>
       (\<exists>tab rt rt'. activeTab s = Some tab \<and> layout_of (layouts s) tab = Some rt
          \<and> layouts s' = map_set tab (Some rt') (layouts s) \<and> activePaneIds s' = activePaneIds s \<and> tabs s' = tabs s
          \<and> countPanes rt' = Suc (countPanes rt) \<and> countPanes rt' \<le> limit
          \<and> tree_channels rt' = tree_channels rt \<and> newId \<in> set (leaf_ids rt'))
   | (_, s') \<Rightarrow> s' = s"
proof -
  have "\<exists>rt'. rt' = setNodeAtPath rt path (Split direction (1 / 2) n (Vacant newId))
      \<and> countPanes rt' = Suc (countPanes rt) \<and> tree_channels rt' = tree_channels rt \<and> newId \<in> set (leaf_ids rt')"
    if n: "getNodeAtPath rt path = Some n" for rt path n
  proof -
    have "newId \<in> set (leaf_ids (setNodeAtPath rt path (Split direction (1 / 2) n (Vacant newId))))"
      using n by (induction rt path rule: getNodeAtPath.induct) auto
    with countPanes_setNodeAtPath [OF n, of "Split direction (1 / 2) n (Vacant newId)"]
      channels_setNodeAtPath [OF n, of "Split direction (1 / 2) n (Vacant newId)"]
    show ?thesis by simp
  qed
  then show ?thesis
    by (auto simp: splitPane_def countLeaves_countPanes split: option.splits prod.splits if_splits split_result.splits)
qed

text \<open>
  Closing a pane never ends a terminal elsewhere and never closes a tab. \<open>closePane\<close> leaves
  the tabs and every other tab's layout alone; in the tab that showed the terminal one occurrence
  of it goes, every other terminal stays, and its place goes too, unless it was the tab's only
  pane, which stays as an empty one.
\<close>

theorem closePane_removes_one:
  assumes "map_ok (layouts s)" and "findTabForChannel s ch = Some tab"
  shows "\<exists>rt rt'. layout_of (layouts s) tab = Some rt \<and> layouts (closePane newId ch s) = map_set tab (Some rt') (layouts s)
      \<and> tabs (closePane newId ch s) = tabs s \<and> activeTabIndex (closePane newId ch s) = activeTabIndex s
      \<and> add_mset ch (tree_channels rt') = tree_channels rt
      \<and> countPanes rt' = max 1 (countPanes rt - 1)"
proof -
  obtain rt path where rt: "layout_of (layouts s) tab = Some rt" and path: "findChannelPath rt ch = Some path"
    using findTabForChannel_Some [OF assms] .
  from findChannelPath_sound [OF path] obtain p where n: "getNodeAtPath rt path = Some (Terminal ch p)" by blast
  show ?thesis
  proof (cases "path = []")
    case True
    with n rt path assms(2) show ?thesis by (auto simp: closePane_def)
  next
    case False
    obtain rt' where "collapsed rt path = Some rt'" and c: "countPanes rt' + 1 = countPanes rt"
      "tree_channels rt' + {#ch#} = tree_channels rt"
      using collapsed_counts [OF n False] by auto
    moreover have "countPanes rt' = max 1 (countPanes rt - 1)" using c(1) countPanes_pos [of rt'] by linarith
    ultimately show ?thesis using False rt path assms(2) by (auto simp: closePane_def)
  qed
qed

theorem closePane_removes_one_witness:
  "let s = \<lparr>tabs = [''t''], activeTabIndex = 0,
             layouts = [(''t'', Some (Split Vertical (1 / 2) (Terminal ''a'' ''p'') (Terminal ''b'' ''q'')))],
             activePaneIds = [(''t'', ''p'')]\<rparr>
   in \<exists>rt'. layouts (closePane ''n'' ''a'' s) = map_set ''t'' (Some rt') (layouts s) \<and> countPanes rt' = 1"
proof -
  let ?s = "\<lparr>tabs = [''t''], activeTabIndex = 0,
             layouts = [(''t'', Some (Split Vertical (1 / 2) (Terminal ''a'' ''p'') (Terminal ''b'' ''q'')))],
             activePaneIds = [(''t'', ''p'')]\<rparr>"
  have "findTabForChannel ?s ''a'' = Some ''t''"
    by (simp add: findTabForChannel_def activeTab_def layout_of_def found_below_def)
  moreover have "map_ok (layouts ?s)" by (simp add: map_ok_def)
  ultimately show ?thesis unfolding Let_def
    using closePane_removes_one [of ?s "''a''" "''t''" "''n''"] by (auto simp: layout_of_def)
qed

subsection \<open>Moving a pane\<close>

definition shown :: "PaneNode option \<Rightarrow> channel_id multiset" where
  "shown rt = (case rt of None \<Rightarrow> {#} | Some t \<Rightarrow> tree_channels t)"

definition all_shown :: "layouts \<Rightarrow> channel_id multiset" where
  "all_shown ls = sum_list (map (\<lambda>e. shown (snd e)) ls)"

lemma shown_simps [simp]: "shown None = {#}" "shown (Some t) = tree_channels t"
  by (simp_all add: shown_def)

lemma all_shown_map_set:
  "map_ok ls \<Longrightarrow> all_shown (map_set k v ls) + shown (layout_of ls k) = all_shown ls + shown v"
proof (induction ls)
  case (Cons e ls)
  obtain k' v' where e: "e = (k', v')" by fastforce
  have "layout_of (e # ls) k = (if k = k' then v' else layout_of ls k)"
    by (simp add: e layout_of_def split: option.split)
  with Cons show ?case by (auto simp: e all_shown_def map_ok_def ac_simps)
qed (simp add: all_shown_def layout_of_def)

lemma mset_exchange:
  assumes "a + b = c + d" and "d + n = b + (m :: 'a multiset)"
  shows "a + n = c + m"
proof -
  have "a + n + b = c + (d + n)" using assms(1) by (simp add: add.assoc add.left_commute add.commute [of n])
  also have "\<dots> = c + m + b" by (simp only: assms(2) ac_simps)
  finally show ?thesis by simp
qed

lemma all_shown_set_node:
  assumes "map_ok ls" "layout_of ls tab = Some rt" "getNodeAtPath rt path = Some n"
  shows "all_shown (map_set tab (Some (setNodeAtPath rt path node)) ls) + tree_channels n = all_shown ls + tree_channels node"
  by (rule mset_exchange [OF _ channels_setNodeAtPath [OF assms(3), of node]])
    (use all_shown_map_set [OF assms(1), of tab "Some (setNodeAtPath rt path node)"] assms(2) in simp)

lemma vacatePaneInTab_found:
  assumes "layout_of (layouts s) tab = Some rt" "findChannelPath rt ch = Some path"
  shows "layouts (vacatePaneInTab v tab ch s) = map_set tab (Some (setNodeAtPath rt path (Vacant v))) (layouts s)"
    and "tabs (vacatePaneInTab v tab ch s) = tabs s"
  using assms by (simp_all add: vacatePaneInTab_def replaceTerminalNode_path)

lemma all_shown_vacate:
  assumes "map_ok (layouts s)" "findTabForChannel s ch = Some tab"
  shows "add_mset ch (all_shown (layouts (vacatePaneInTab v tab ch s))) = all_shown (layouts s)"
    and "map_ok (layouts (vacatePaneInTab v tab ch s))"
    and "tabs (vacatePaneInTab v tab ch s) = tabs s"
proof -
  obtain rt path where rt: "layout_of (layouts s) tab = Some rt" and path: "findChannelPath rt ch = Some path"
    using findTabForChannel_Some [OF assms] .
  from findChannelPath_sound [OF path] obtain p where n: "getNodeAtPath rt path = Some (Terminal ch p)" by blast
  note v = vacatePaneInTab_found [OF rt path, of v]
  show "add_mset ch (all_shown (layouts (vacatePaneInTab v tab ch s))) = all_shown (layouts s)"
    using all_shown_set_node [OF assms(1) rt n, of "Vacant v"] v(1) by simp
  show "map_ok (layouts (vacatePaneInTab v tab ch s))" "tabs (vacatePaneInTab v tab ch s) = tabs s"
    using v assms(1) by simp_all
qed

lemma findChannelByPaneId_fresh: "p \<notin> set (leaf_ids t) \<Longrightarrow> findChannelByPaneId t p = None"
  by (induction t) auto

lemma findChannelByPaneId_set:
  "getNodeAtPath rt path = Some n \<Longrightarrow> p \<notin> set (leaf_ids rt) \<Longrightarrow>
   findChannelByPaneId (setNodeAtPath rt path node) p = findChannelByPaneId node p"
  by (induction rt path rule: getNodeAtPath.induct) (auto simp: findChannelByPaneId_fresh)

lemma leaf_ids_below: "getNodeAtPath rt path = Some n \<Longrightarrow> set (leaf_ids n) \<subseteq> set (leaf_ids rt)"
  by (induction rt path rule: getNodeAtPath.induct) auto

lemma getLeafId_leaf: "getLeafId n = Some p \<Longrightarrow> leaf_ids n = [p] \<and> countPanes n = 1"
  by (cases n) auto

lemma insert_beside_laws:
  "tree_channels (insert_beside zone (Terminal ch p) n) = add_mset ch (tree_channels n)"
  "p \<notin> set (leaf_ids n) \<Longrightarrow> findChannelByPaneId (insert_beside zone (Terminal ch p) n) p = Some ch"
  by (auto simp: insert_beside_def Let_def findChannelByPaneId_fresh)



subsection \<open>The active pane\<close>

lemma no_channel_found: "collectTerminalChannelIds t = [] \<Longrightarrow> findChannelByPaneId t p = None"
  by (induction t) auto

text \<open>
  A tab that shows a terminal always has an active one. Whatever is recorded as its active
  pane, even one that is gone, \<open>getActiveChannelId\<close> answers a terminal the tab shows, and
  answers none exactly when it shows none.
\<close>

theorem getActiveChannelId_total:
  "case getActiveChannelId s tab of
     Some ch \<Rightarrow> (\<exists>rt. layout_of (layouts s) tab = Some rt \<and> ch \<in> set (collectTerminalChannelIds rt))
   | None \<Rightarrow> shown (layout_of (layouts s) tab) = {#}"
proof (cases "layout_of (layouts s) tab")
  case None
  then show ?thesis by (simp add: getActiveChannelId_def)
next
  case (Some rt)
  show ?thesis
  proof (cases "findFirstLeafPaneId rt")
    case None
    then have "collectTerminalChannelIds rt = []" by (simp add: findFirst_None)
    with Some show ?thesis
      by (simp add: getActiveChannelId_def no_channel_found split: option.split)
  next
    case (Some p)
    with findFirst_channel [OF Some] \<open>layout_of (layouts s) tab = Some rt\<close> show ?thesis
      by (auto simp: getActiveChannelId_def orElse_def split: option.splits dest: findChannelByPaneId_in)
  qed
qed

definition active_ok :: "LayoutState \<Rightarrow> tab_id \<Rightarrow> bool" where
  "active_ok s tab =
     (case map_get (activePaneIds s) tab of
        None \<Rightarrow> True
      | Some p \<Rightarrow> (case layout_of (layouts s) tab of None \<Rightarrow> False | Some rt \<Rightarrow> findChannelByPaneId rt p \<noteq> None))"

lemma findFirst_found: "findFirstLeafPaneId t = Some p \<Longrightarrow> findChannelByPaneId t p \<noteq> None"
  using findFirst_channel by fastforce

lemma active_ok_moveActive:
  assumes "active_ok s tab" "layout_of (layouts s) tab = Some rt"
    and keep: "\<And>p c. findChannelByPaneId rt p = Some c \<Longrightarrow> c \<noteq> ch \<Longrightarrow> findChannelByPaneId rt' p \<noteq> None"
  shows "active_ok (moveActive tab ch rt rt' (put_layout tab (Some rt') s)) tab"
  using assms findFirst_found [of rt']
  by (auto simp: active_ok_def moveActive_def split: option.splits)

lemma findChannelByPaneId_leaf: "findChannelByPaneId t p = Some c \<Longrightarrow> p \<in> set (leaf_ids t)"
  by (induction t) (auto simp: orElse_def split: option.splits if_splits)

lemma findChannelByPaneId_collapse:
  assumes "getNodeAtPath rt path = Some parent" "sibling_of t parent = Some sib"
    and "getNodeAtPath parent [t] = Some (Terminal ch q)" "findChannelByPaneId rt p = Some c" "c \<noteq> ch"
  shows "findChannelByPaneId (setNodeAtPath rt path sib) p \<noteq> None"
  using assms(1,4)
proof (induction rt path rule: getNodeAtPath.induct)
  case (1 rt)
  then have "findChannelByPaneId parent p = Some c" by simp
  with assms(2,3,5) have "findChannelByPaneId sib p = Some c"
    by (cases parent; cases t) (auto simp: sibling_of_def orElse_def split: if_splits option.splits)
  then show ?case by simp
next
  case (2 d r a b rest)
  then show ?case by (cases "findChannelByPaneId a p") auto
next
  case (3 d r a b rest)
  then show ?case by (cases "findChannelByPaneId a p") auto
qed simp_all

text \<open>
  Closing a pane keeps the focus somewhere real. If the tab's recorded active pane was one
  of its terminals before \<open>closePane\<close>, it is one after, or none is recorded.
\<close>

theorem closePane_active_ok:
  assumes "map_ok (layouts s)" and "findTabForChannel s ch = Some tab" and "active_ok s tab"
  shows "active_ok (closePane newId ch s) tab"
proof -
  obtain rt path where rt: "layout_of (layouts s) tab = Some rt" and path: "findChannelPath rt ch = Some path"
    using findTabForChannel_Some [OF assms(1,2)] .
  from findChannelPath_sound [OF path] obtain p where n: "getNodeAtPath rt path = Some (Terminal ch p)" by blast
  show ?thesis
  proof (cases "path = []")
    case True
    with rt path assms(2) show ?thesis by (simp add: closePane_def active_ok_def)
  next
    case False
    then have "getNodeAtPath rt (butlast path @ [last path]) = Some (Terminal ch p)" using n by simp
    then obtain parent where par: "getNodeAtPath rt (butlast path) = Some parent"
      and child: "getNodeAtPath parent [last path] = Some (Terminal ch p)"
      by (auto simp: getNodeAtPath_append bind_eq_Some_conv)
    then obtain sib where sib: "sibling_of (last path) parent = Some sib"
      by (cases parent; cases "last path") (auto simp: sibling_of_def)
    have col: "collapsed rt path = Some (setNodeAtPath rt (butlast path) sib)"
      using False par sib by (cases "butlast path") (simp_all add: collapsed_def)
    have "active_ok (moveActive tab ch rt (setNodeAtPath rt (butlast path) sib)
        (put_layout tab (Some (setNodeAtPath rt (butlast path) sib)) s)) tab"
      by (rule active_ok_moveActive [OF assms(3) rt]) (rule findChannelByPaneId_collapse [OF par sib child])
    with False rt path assms(2) col show ?thesis by (simp add: closePane_def)
  qed
qed

theorem closePane_active_ok_witness:
  "let s = \<lparr>tabs = [''t''], activeTabIndex = 0,
             layouts = [(''t'', Some (Split Vertical (1 / 2) (Terminal ''a'' ''p'') (Terminal ''b'' ''q'')))],
             activePaneIds = [(''t'', ''p'')]\<rparr>
   in active_ok (closePane ''n'' ''a'' s) ''t''"
proof -
  let ?s = "\<lparr>tabs = [''t''], activeTabIndex = 0,
             layouts = [(''t'', Some (Split Vertical (1 / 2) (Terminal ''a'' ''p'') (Terminal ''b'' ''q'')))],
             activePaneIds = [(''t'', ''p'')]\<rparr>"
  have "findTabForChannel ?s ''a'' = Some ''t''"
    by (simp add: findTabForChannel_def activeTab_def layout_of_def found_below_def)
  moreover have "map_ok (layouts ?s)" by (simp add: map_ok_def)
  moreover have "active_ok ?s ''t''" by (simp add: active_ok_def layout_of_def)
  ultimately show ?thesis unfolding Let_def by (intro closePane_active_ok)
qed

end
