(* ===== verification/Tab_Manager.thy ===== *)
theory Tab_Manager
  imports Pane_Layout
begin

text \<open>
  The tab bar: \<^verbatim>\<open>packages/clients/web/src/composables/useTabManager.ts\<close>, the two purges of
  \<^verbatim>\<open>usePaneTree.ts\<close> and \<open>closeVacantPane\<close> of \<^verbatim>\<open>useLayout.ts\<close>, on the state of
  \<open>Pane_Layout\<close>. All operations of the layout together form the machine \<open>layout_ops\<close>, whose
  invariant says that tabs, layouts and focus never drift apart. Indices are integers, as the
  code computes with them before it checks them.
\<close>

section \<open>Arrays by index\<close>

definition item_at :: "'a list \<Rightarrow> int \<Rightarrow> 'a option" where
  "item_at xs i = (if 0 \<le> i \<and> i < int (length xs) then Some (xs ! nat i) else None)"

definition insert_at :: "int \<Rightarrow> 'a \<Rightarrow> 'a list \<Rightarrow> 'a list" where
  "insert_at i x xs = take (nat i) xs @ x # drop (nat i) xs"

definition remove_at :: "int \<Rightarrow> 'a list \<Rightarrow> 'a list" where
  "remove_at i xs = (if i < 0 then xs else take (nat i) xs @ drop (Suc (nat i)) xs)"

definition slice_from :: "int \<Rightarrow> 'a list \<Rightarrow> 'a list" where
  "slice_from i xs = drop (nat (if i < 0 then max 0 (int (length xs) + i) else i)) xs"

fun index_of :: "'a \<Rightarrow> 'a list \<Rightarrow> int" where
  "index_of x [] = -1"
| "index_of x (y # ys) = (if x = y then 0 else let i = index_of x ys in if i = -1 then -1 else i + 1)"

section \<open>What a new tab opens\<close>

datatype TabScope = ScopeGlobal | PerHost
datatype NewTabPosition = PosEnd | AfterActive
datatype NewTab = OpensTerminal | OpensPicker

datatype HostMarker = MarkDot | MarkInitials | MarkEdge | MarkNone

record TabsConfig =
  closeButton :: "bool option"
  newTabPosition :: "NewTabPosition option"
  confirmCloseAll :: "bool option"
  confirmCloseOthers :: "bool option"
  scope :: "TabScope option"
  hostMarker :: "HostMarker option"

definition newTabOpens :: "TabsConfig option \<Rightarrow> NewTab" where
  "newTabOpens cfg = (if Option.bind cfg scope = Some PerHost then OpensTerminal else OpensPicker)"

definition hostToBringIntoView ::
  "TabsConfig option \<Rightarrow> bool \<Rightarrow> host_id option \<Rightarrow> host_id option \<Rightarrow> host_id option list \<Rightarrow> host_id option" where
  "hostToBringIntoView cfg inFront hostId hostInView otherTerminalHosts =
     (if Option.bind cfg scope \<noteq> Some PerHost \<or> \<not> inFront then None
      else if hostId = None \<or> hostId = hostInView then None
      else if hostInView \<noteq> None \<and> hostInView \<in> set otherTerminalHosts then None
      else hostId)"

section \<open>Tab operations\<close>

definition addTab ::
  "TabsConfig option \<Rightarrow> tab_id \<Rightarrow> PaneNode \<Rightarrow> pane_id option \<Rightarrow> LayoutState \<Rightarrow> LayoutState" where
  "addTab cfg newTabId rt activePaneId s =
     (let activeIdx = (if Option.bind cfg newTabPosition = Some AfterActive
                       then max 0 (min (activeTabIndex s + 1) (int (length (tabs s))))
                       else int (length (tabs s)))
      in s\<lparr>tabs := insert_at activeIdx newTabId (tabs s),
           layouts := map_set newTabId (Some rt) (layouts s),
           activePaneIds := (case activePaneId of
                               None \<Rightarrow> activePaneIds s
                             | Some p \<Rightarrow> map_set newTabId p (activePaneIds s)),
           activeTabIndex := activeIdx\<rparr>)"

definition openTab :: "TabsConfig option \<Rightarrow> tab_id \<Rightarrow> pane_id \<Rightarrow> channel_id \<Rightarrow> LayoutState \<Rightarrow> LayoutState" where
  "openTab cfg newTabId newPaneId channelId s =
     (let existingIdx = (case findTabForChannel s channelId of
                           None \<Rightarrow> -1
                         | Some existingTabId \<Rightarrow> index_of existingTabId (tabs s))
      in if existingIdx \<noteq> -1 then s\<lparr>activeTabIndex := existingIdx\<rparr>
         else addTab cfg newTabId (Terminal channelId newPaneId) (Some newPaneId) s)"

definition openVacantTab :: "TabsConfig option \<Rightarrow> tab_id \<Rightarrow> pane_id \<Rightarrow> LayoutState \<Rightarrow> tab_id \<times> LayoutState" where
  "openVacantTab cfg newTabId vacantId s = (newTabId, addTab cfg newTabId (Vacant vacantId) None s)"

definition closeTab :: "int \<Rightarrow> LayoutState \<Rightarrow> LayoutState" where
  "closeTab index s =
     (case item_at (tabs s) index of
        None \<Rightarrow> s
      | Some tab \<Rightarrow>
          let next = remove_at index (tabs s); active = activeTabIndex s in
          s\<lparr>tabs := next,
            layouts := map_delete tab (layouts s),
            activePaneIds := map_delete tab (activePaneIds s),
            activeTabIndex :=
              (if active \<ge> int (length next) then max 0 (int (length next) - 1)
               else if active > index then active - 1
               else active)\<rparr>)"

definition setActiveTab :: "int \<Rightarrow> LayoutState \<Rightarrow> LayoutState" where
  "setActiveTab index s = (if 0 \<le> index \<and> index < int (length (tabs s)) then s\<lparr>activeTabIndex := index\<rparr> else s)"

definition reorderTab :: "int \<Rightarrow> int \<Rightarrow> LayoutState \<Rightarrow> LayoutState" where
  "reorderTab fromIndex toIndex s =
     (if fromIndex = toIndex then s
      else case item_at (tabs s) fromIndex of
        None \<Rightarrow> s
      | Some moved \<Rightarrow>
          let clampedTo = max 0 (min toIndex (int (length (tabs s)) - 1)) in
          if fromIndex = clampedTo then s
          else let currentActive = activeTabIndex s in
            s\<lparr>tabs := insert_at clampedTo moved (remove_at fromIndex (tabs s)),
              activeTabIndex :=
                (if currentActive = fromIndex then clampedTo
                 else if fromIndex < currentActive \<and> clampedTo \<ge> currentActive then currentActive - 1
                 else if fromIndex > currentActive \<and> clampedTo \<le> currentActive then currentActive + 1
                 else currentActive)\<rparr>)"

text \<open>Each terminal takes the next id \<open>generateId\<close> returns; \<open>ids i\<close> is the i-th of them.\<close>

fun vacateNode :: "(nat \<Rightarrow> pane_id) \<Rightarrow> nat \<Rightarrow> PaneNode \<Rightarrow> PaneNode \<times> nat" where
  "vacateNode ids i (Terminal _ _) = (Vacant (ids i), Suc i)"
| "vacateNode ids i (Vacant v) = (Vacant v, i)"
| "vacateNode ids i (Split d r a b) =
     (let (a', i) = vacateNode ids i a; (b', i) = vacateNode ids i b in (Split d r a' b', i))"

definition vacateAllPanesInTab :: "(nat \<Rightarrow> pane_id) \<Rightarrow> tab_id \<Rightarrow> LayoutState \<Rightarrow> LayoutState" where
  "vacateAllPanesInTab ids tabId s =
     (case layout_of (layouts s) tabId of
        None \<Rightarrow> s
      | Some rt \<Rightarrow> dropActivePaneId tabId (put_layout tabId (Some (fst (vacateNode ids 0 rt))) s))"

section \<open>Bulk closes\<close>

text \<open>The stores the tab bar reads: its configuration, the host in view, and which host a channel is on.\<close>

record BarView =
  bv_tabs :: "TabsConfig option"
  bv_activeHostId :: "host_id option"
  bv_channelHostMap :: "(channel_id, host_id) jmap"

definition tabsInView :: "BarView \<Rightarrow> LayoutState \<Rightarrow> tab_id list option" where
  "tabsInView v s =
     (if Option.bind (bv_tabs v) scope \<noteq> Some PerHost then None
      else case bv_activeHostId v of
        None \<Rightarrow> None
      | Some hostId \<Rightarrow> Some (filter (\<lambda>tab. tabIsOnHost tab (layouts s) (bv_channelHostMap v) hostId) (tabs s)))"

definition in_view :: "tab_id list option \<Rightarrow> tab_id \<Rightarrow> bool" where
  "in_view inView tab = (case inView of None \<Rightarrow> True | Some ids \<Rightarrow> tab \<in> set ids)"

text \<open>The loops that rebuild \<open>layouts\<close> and \<open>activePaneIds\<close> from the tabs that stay.\<close>

definition kept_layouts :: "(tab_id \<Rightarrow> bool) \<Rightarrow> LayoutState \<Rightarrow> layouts" where
  "kept_layouts keep s =
     foldl (\<lambda>m tab. case layout_of (layouts s) tab of None \<Rightarrow> m | Some l \<Rightarrow> map_set tab (Some l) m)
       [] (filter keep (tabs s))"

definition kept_panes :: "(tab_id \<Rightarrow> bool) \<Rightarrow> LayoutState \<Rightarrow> (tab_id, pane_id) jmap" where
  "kept_panes keep s =
     foldl (\<lambda>m tab. case map_get (activePaneIds s) tab of None \<Rightarrow> m | Some p \<Rightarrow> map_set tab p m)
       [] (filter keep (tabs s))"

definition closeOthers :: "BarView \<Rightarrow> int \<Rightarrow> LayoutState \<Rightarrow> LayoutState" where
  "closeOthers v keepIndex s =
     (case item_at (tabs s) keepIndex of
        None \<Rightarrow> s
      | Some kept \<Rightarrow>
          let inView = tabsInView v s;
              keep = (\<lambda>tab. tab = kept \<or> \<not> in_view inView tab);
              next = filter keep (tabs s)
          in s\<lparr>layouts := kept_layouts keep s, activePaneIds := kept_panes keep s, tabs := next,
               activeTabIndex := max 0 (index_of kept next)\<rparr>)"

definition closeToRight :: "BarView \<Rightarrow> int \<Rightarrow> LayoutState \<Rightarrow> LayoutState" where
  "closeToRight v fromIndex s =
     (let inView = tabsInView v s;
          removed = filter (in_view inView) (slice_from (fromIndex + 1) (tabs s));
          next = filter (\<lambda>tab. tab \<notin> set removed) (tabs s);
          stillActive = (case activeTab s of None \<Rightarrow> -1 | Some wasActiveId \<Rightarrow> index_of wasActiveId next);
          anchorIndex = (case item_at (tabs s) fromIndex of None \<Rightarrow> -1 | Some anchor \<Rightarrow> index_of anchor next)
      in s\<lparr>tabs := next,
           layouts := foldl (\<lambda>m tab. map_delete tab m) (layouts s) removed,
           activePaneIds := foldl (\<lambda>m tab. map_delete tab m) (activePaneIds s) removed,
           activeTabIndex :=
             (if stillActive \<noteq> -1 then stillActive
              else max 0 (if anchorIndex = -1 then int (length next) - 1 else anchorIndex))\<rparr>)"

definition closeAll :: "BarView \<Rightarrow> channel_id option \<Rightarrow> LayoutState \<Rightarrow> LayoutState" where
  "closeAll v exceptWelcomeChannelId s =
     (let inView = tabsInView v s;
          welcomeTabId = Option.bind exceptWelcomeChannelId (findTabForChannel s);
          keep = (\<lambda>tab. Some tab = welcomeTabId \<or> \<not> in_view inView tab);
          next = filter keep (tabs s);
          stillActive = (case activeTab s of None \<Rightarrow> -1 | Some wasActiveId \<Rightarrow> index_of wasActiveId next)
      in s\<lparr>tabs := next, layouts := kept_layouts keep s, activePaneIds := kept_panes keep s,
           activeTabIndex := (if stillActive = -1 then 0 else stillActive)\<rparr>)"

section \<open>Across tabs\<close>

definition moveToNewTab ::
  "pane_id \<Rightarrow> tab_id \<Rightarrow> pane_id \<Rightarrow> channel_id \<Rightarrow> int \<Rightarrow> LayoutState \<Rightarrow> LayoutState" where
  "moveToNewTab vacantId newTabId newPaneId sourceChannelId insertAtIndex s =
     (case findTabForChannel s sourceChannelId of
        None \<Rightarrow> s
      | Some sourceTabKey \<Rightarrow>
          let s = vacatePaneInTab vacantId sourceTabKey sourceChannelId s;
              idx = max 0 (min insertAtIndex (int (length (tabs s))))
          in s\<lparr>tabs := insert_at idx newTabId (tabs s),
               layouts := map_set newTabId (Some (Terminal sourceChannelId newPaneId)) (layouts s),
               activePaneIds := map_set newTabId newPaneId (activePaneIds s),
               activeTabIndex := idx\<rparr>)"

definition closeVacantPane :: "pane_id \<Rightarrow> LayoutState \<Rightarrow> LayoutState" where
  "closeVacantPane vacantId s =
     (case activeTab s of
        None \<Rightarrow> s
      | Some tab \<Rightarrow>
          if layout_of (layouts s) tab = Some (Vacant vacantId)
          then let index = index_of tab (tabs s) in if index \<noteq> -1 then closeTab index s else s
          else rearrangeVacant vacantId s)"

section \<open>Purges\<close>

text \<open>
  Both purges walk the tabs from the last to the first and close those whose test holds; the
  tests read the tabs and layouts the caller passed, which the closes leave as they were.
\<close>

definition dead_tab :: "(channel_id \<times> bool) list \<Rightarrow> layouts \<Rightarrow> tab_id \<Rightarrow> bool" where
  "dead_tab channels ls tab =
     (case layout_of ls tab of
        None \<Rightarrow> False
      | Some rt \<Rightarrow>
          let terminalIds = collectTerminalChannelIds rt;
              deadIds = map fst (filter snd channels)
          in terminalIds \<noteq> [] \<and> list_all (\<lambda>c. c \<in> set deadIds) terminalIds)"

definition orphaned_tab ::
  "channel_id list \<Rightarrow> host_id \<Rightarrow> (channel_id, host_id) jmap \<Rightarrow> layouts \<Rightarrow> tab_id \<Rightarrow> bool" where
  "orphaned_tab aliveIds hostId channelHostMap ls tab =
     (case layout_of ls tab of
        None \<Rightarrow> False
      | Some rt \<Rightarrow>
          let terminalIds = collectTerminalChannelIds rt in
          terminalIds \<noteq> [] \<and> list_all (\<lambda>c. map_get channelHostMap c = Some hostId) terminalIds
          \<and> list_ex (\<lambda>c. c \<notin> set aliveIds) terminalIds \<and> \<not> list_ex (\<lambda>c. c \<in> set aliveIds) terminalIds)"

definition purge_from_end :: "(tab_id \<Rightarrow> bool) \<Rightarrow> tab_id list \<Rightarrow> LayoutState \<Rightarrow> LayoutState" where
  "purge_from_end bad ts s =
     foldl (\<lambda>s i. if bad (ts ! i) then closeTab (int i) s else s) s (rev [0..<length ts])"

definition purgeDeadTabs :: "(channel_id \<times> bool) list \<Rightarrow> LayoutState \<Rightarrow> LayoutState" where
  "purgeDeadTabs channels s = purge_from_end (dead_tab channels (layouts s)) (tabs s) s"

definition purgeOrphanedTabs ::
  "channel_id list \<Rightarrow> host_id \<Rightarrow> (channel_id, host_id) jmap \<Rightarrow> LayoutState \<Rightarrow> LayoutState" where
  "purgeOrphanedTabs aliveIds hostId channelHostMap s =
     purge_from_end (orphaned_tab aliveIds hostId channelHostMap (layouts s)) (tabs s) s"

section \<open>Laws of the array helpers\<close>

lemma index_of_eq_minus1 [simp]: "index_of x xs = -1 \<longleftrightarrow> x \<notin> set xs"
  and index_of_lower: "-1 \<le> index_of x xs"
  by (induction xs) (auto simp: Let_def)

lemma index_of_less: "index_of x xs < int (length xs)"
  by (induction xs) (auto simp: Let_def)

lemma index_of_nonneg: "x \<in> set xs \<Longrightarrow> 0 \<le> index_of x xs"
  using index_of_lower [of x xs] index_of_eq_minus1 [of x xs] by linarith

lemma item_at_index_of: "x \<in> set xs \<Longrightarrow> item_at xs (index_of x xs) = Some x"
proof (induction xs)
  case (Cons y xs)
  show ?case
  proof (cases "x = y")
    case False
    with Cons have "x \<in> set xs" by simp
    with Cons.IH index_of_nonneg [of x xs] False show ?thesis
      by (auto simp: item_at_def Let_def nat_add_distrib split: if_splits)
  qed (simp add: item_at_def)
qed simp

lemma item_at_in: "item_at xs i = Some x \<Longrightarrow> x \<in> set xs"
  by (auto simp: item_at_def split: if_splits)

lemma item_at_split: "item_at xs i = Some x \<Longrightarrow> xs = take (nat i) xs @ x # drop (Suc (nat i)) xs"
  by (auto simp: item_at_def id_take_nth_drop split: if_splits)

lemma remove_at_laws:
  assumes "item_at xs i = Some x"
  shows "mset xs = add_mset x (mset (remove_at i xs))"
    and "length (remove_at i xs) = length xs - 1"
    and "distinct xs \<Longrightarrow> distinct (remove_at i xs) \<and> set (remove_at i xs) = set xs - {x}"
proof -
  have i: "0 \<le> i" "nat i < length xs" using assms by (auto simp: item_at_def split: if_splits)
  have r: "remove_at i xs = take (nat i) xs @ drop (Suc (nat i)) xs" using i by (simp add: remove_at_def)
  show m: "mset xs = add_mset x (mset (remove_at i xs))"
    using arg_cong [OF item_at_split [OF assms], of mset] r by simp
  show "length (remove_at i xs) = length xs - 1" using i r by simp
  show "distinct (remove_at i xs) \<and> set (remove_at i xs) = set xs - {x}" if "distinct xs"
  proof -
    have d: "distinct (x # remove_at i xs)" using that m by (metis mset.simps(2) mset_eq_imp_distinct_iff)
    have "set xs = set (x # remove_at i xs)" using m by (metis mset.simps(2) mset_eq_setD)
    with d show ?thesis by auto
  qed
qed

lemma insert_at_laws [simp]:
  "mset (insert_at i x xs) = add_mset x (mset xs)"
  "set (insert_at i x xs) = insert x (set xs)"
  "length (insert_at i x xs) = Suc (length xs)"
  "distinct (insert_at i x xs) \<longleftrightarrow> x \<notin> set xs \<and> distinct xs"
proof -
  have perm: "mset (insert_at i x xs) = mset (x # xs)"
    using mset_append [of "take (nat i) xs" "drop (nat i) xs"] by (simp add: insert_at_def)
  then show "mset (insert_at i x xs) = add_mset x (mset xs)" by simp
  from perm show "set (insert_at i x xs) = insert x (set xs)" by (metis mset_eq_setD list.simps(15))
  from perm show "length (insert_at i x xs) = Suc (length xs)" by (metis mset_eq_length length_Cons)
  from perm show "distinct (insert_at i x xs) \<longleftrightarrow> x \<notin> set xs \<and> distinct xs"
    by (metis mset_eq_imp_distinct_iff distinct.simps(2))
qed

lemma activeTab_item: "activeTab s = item_at (tabs s) (activeTabIndex s)"
  by (simp add: activeTab_def item_at_def)

lemma slice_from_subset: "set (slice_from i xs) \<subseteq> set xs"
  by (simp add: slice_from_def set_drop_subset)

section \<open>The layout as a machine\<close>

definition layout_wf :: "LayoutState \<Rightarrow> bool" where
  "layout_wf s \<longleftrightarrow>
     distinct (tabs s) \<and> map_ok (layouts s) \<and> map_ok (activePaneIds s)
     \<and> set (map_keys (layouts s)) \<subseteq> set (tabs s) \<and> set (map_keys (activePaneIds s)) \<subseteq> set (tabs s)
     \<and> 0 \<le> activeTabIndex s \<and> (activeTabIndex s < int (length (tabs s)) \<or> tabs s = [] \<and> activeTabIndex s = 0)"

lemma keys_set_subset: "set (map_keys (map_set k v m)) = insert k (set (map_keys m))"
  by (simp add: map_keys_map_set insert_absorb)

lemma keys_delete: "set (map_keys (map_delete k m)) = set (map_keys m) - {k}"
  by (auto simp: map_keys_map_delete)

lemmas key_sets = keys_set_subset keys_delete

lemma has_key: "map_get m k = Some v \<Longrightarrow> k \<in> set (map_keys m)"
  by (simp add: set_map_keys map_has_def)

lemma layout_of_key: "layout_of ls tab = Some rt \<Longrightarrow> tab \<in> set (map_keys ls)"
  by (auto simp: layout_of_def split: option.splits intro: has_key)

lemma wf_known: "layout_wf s \<Longrightarrow> layout_of (layouts s) tab = Some rt \<Longrightarrow> tab \<in> set (tabs s)"
  by (auto simp: layout_wf_def dest: layout_of_key)

lemma wf_put_layout [inv_intros]: "layout_wf s \<Longrightarrow> tab \<in> set (tabs s) \<Longrightarrow> layout_wf (put_layout tab r s)"
  by (auto simp: layout_wf_def key_sets)

lemma wf_setActive [inv_intros]: "layout_wf s \<Longrightarrow> tab \<in> set (tabs s) \<Longrightarrow> layout_wf (setActivePaneId tab p s)"
  by (auto simp: layout_wf_def key_sets)

lemma wf_dropActive [inv_intros]: "layout_wf s \<Longrightarrow> layout_wf (dropActivePaneId tab s)"
  by (auto simp: layout_wf_def key_sets)

lemma wf_moveActive [inv_intros]:
  "layout_wf s \<Longrightarrow> tab \<in> set (tabs s) \<Longrightarrow> layout_wf (moveActive tab c rt u s)"
  by (auto simp: moveActive_def intro: inv_intros split: option.split)

lemma activeTab_in: "activeTab s = Some tab \<Longrightarrow> tab \<in> set (tabs s)"
  by (simp add: activeTab_item item_at_in)

text \<open>The pane operations: each is a chain of the four updates above on a tab that has a layout.\<close>

lemmas wf_rules = inv_intros wf_known activeTab_in

lemma wf_splitPane: "layout_wf s \<Longrightarrow> layout_wf (snd (splitPane n c d l s))"
  by (auto simp: splitPane_def intro: wf_rules split: option.split)

lemma wf_unsplitPane: "layout_wf s \<Longrightarrow> layout_wf (unsplitPane c s)"
  by (auto simp: unsplitPane_def intro: wf_rules split: option.split)

lemma wf_updateRatio: "layout_wf s \<Longrightarrow> layout_wf (updateRatio p r s)"
  by (auto simp: updateRatio_def intro: wf_rules split: option.split PaneNode.split)

lemma wf_setLayout: "layout_wf s \<Longrightarrow> layout_wf (setLayout n s)"
  by (auto simp: setLayout_def intro: wf_rules split: option.split)

lemma wf_replaceChannelId: "layout_wf s \<Longrightarrow> layout_wf (replaceChannelId old new s)"
proof -
  have "map fst (layouts (replaceChannelId old new s)) = map fst (layouts s)"
    by (simp add: replaceChannelId_def case_prod_beta comp_def)
  moreover have "tabs (replaceChannelId old new s) = tabs s" "activePaneIds (replaceChannelId old new s) = activePaneIds s"
    "activeTabIndex (replaceChannelId old new s) = activeTabIndex s"
    by (simp_all add: replaceChannelId_def)
  ultimately show "layout_wf s \<Longrightarrow> layout_wf (replaceChannelId old new s)"
    by (simp only: layout_wf_def map_ok_def map_keys_def)
qed

lemma wf_left [inv_intros]:
  "layout_wf s \<Longrightarrow> layout_of (layouts s) tab = Some rt \<Longrightarrow> layout_wf (moveActive tab c rt u (put_layout tab r s))"
  using wf_known [of s tab rt] by (auto intro!: wf_moveActive wf_put_layout)

lemma wf_vacatePaneInTab: "layout_wf s \<Longrightarrow> layout_wf (vacatePaneInTab v t c s)"
  by (auto simp: vacatePaneInTab_def wf_left split: option.split)

lemma wf_vacatePane: "layout_wf s \<Longrightarrow> layout_wf (vacatePane v c s)"
  by (auto simp: vacatePane_def wf_left split: option.split)

lemma wf_fill_first: "layout_wf s \<Longrightarrow> layout_wf (snd (fill_first n v c ts s))"
  by (induction ts) (auto intro!: wf_setActive wf_put_layout dest: wf_known split: option.split)

lemma wf_rearrangeVacant: "layout_wf s \<Longrightarrow> layout_wf (rearrangeVacant v s)"
  by (auto simp: rearrangeVacant_def intro: wf_rules split: option.split)

lemma wf_closePane: "layout_wf s \<Longrightarrow> layout_wf (closePane n c s)"
  by (auto simp: closePane_def wf_left intro!: wf_dropActive wf_put_layout dest: wf_known split: option.split)

lemma wf_movePaneTo: "layout_wf s \<Longrightarrow> layout_wf (movePaneTo v n c p t z s)"
proof -
  have "layout_wf (setActivePaneId t n (put_layout t (Some u) s))"
    if "layout_wf s" "layout_of (layouts s) t = Some rt" for s rt u
    using that wf_known [OF that] by (auto intro!: wf_setActive wf_put_layout)
  with wf_vacatePaneInTab show "layout_wf s \<Longrightarrow> layout_wf (movePaneTo v n c p t z s)"
    by (auto simp: movePaneTo_def Let_def split: option.split)
qed

text \<open>The tab operations.\<close>

lemma wf_addTab:
  assumes "layout_wf s" "newTab \<notin> set (tabs s)"
  shows "layout_wf (addTab cfg newTab rt p s)"
  using assms by (auto simp: layout_wf_def addTab_def Let_def key_sets split: option.split)

lemma wf_openTab: "layout_wf s \<Longrightarrow> newTab \<notin> set (tabs s) \<Longrightarrow> layout_wf (openTab cfg newTab p c s)"
  using wf_addTab [of s newTab cfg "Terminal c p" "Some p"]
  by (auto simp: openTab_def Let_def layout_wf_def index_of_nonneg index_of_less split: option.split)

lemma wf_closeTab:
  assumes "layout_wf s"
  shows "layout_wf (closeTab i s)"
proof (cases "item_at (tabs s) i")
  case (Some tab)
  note r = remove_at_laws [OF Some]
  have "tabs s \<noteq> []" using item_at_in [OF Some] by auto
  then have l: "length (tabs s) = Suc (length (remove_at i (tabs s)))" using r(2) by simp
  have i: "0 \<le> i" using Some by (auto simp: item_at_def split: if_splits)
  have m: "map_ok (layouts (closeTab i s))" "map_ok (activePaneIds (closeTab i s))"
    "set (map_keys (layouts (closeTab i s))) \<subseteq> set (tabs (closeTab i s))"
    "set (map_keys (activePaneIds (closeTab i s))) \<subseteq> set (tabs (closeTab i s))"
    "distinct (tabs (closeTab i s))"
    using Some assms r(3) by (auto simp: closeTab_def Let_def layout_wf_def key_sets)
  have "0 \<le> activeTabIndex (closeTab i s) \<and> (activeTabIndex (closeTab i s) < int (length (tabs (closeTab i s)))
      \<or> tabs (closeTab i s) = [] \<and> activeTabIndex (closeTab i s) = 0)"
    using Some assms l i by (cases "remove_at i (tabs s)") (auto simp: closeTab_def Let_def layout_wf_def)
  with m show ?thesis by (simp add: layout_wf_def)
qed (use assms in \<open>simp add: closeTab_def\<close>)

lemma wf_setActiveTab: "layout_wf s \<Longrightarrow> layout_wf (setActiveTab i s)"
  by (auto simp: setActiveTab_def layout_wf_def)

lemma wf_vacateAll: "layout_wf s \<Longrightarrow> layout_wf (vacateAllPanesInTab ids t s)"
  by (auto simp: vacateAllPanesInTab_def intro: wf_rules split: option.split)

lemma wf_moveToNewTab:
  assumes "layout_wf s" "newTab \<notin> set (tabs s)"
  shows "layout_wf (moveToNewTab v newTab p c i s)"
proof (cases "findTabForChannel s c")
  case (Some tab)
  let ?s = "vacatePaneInTab v tab c s"
  have "tabs ?s = tabs s" by (auto simp: vacatePaneInTab_def split: option.split)
  with wf_vacatePaneInTab [OF assms(1), of v tab c] assms(2) Some show ?thesis
    by (auto simp: moveToNewTab_def Let_def layout_wf_def key_sets)
qed (use assms in \<open>simp add: moveToNewTab_def\<close>)

lemma wf_closeVacantPane: "layout_wf s \<Longrightarrow> layout_wf (closeVacantPane v s)"
  by (auto simp: closeVacantPane_def Let_def wf_closeTab wf_rearrangeVacant split: option.split)

lemma wf_purge: "layout_wf s \<Longrightarrow> layout_wf (purge_from_end bad ts s)"
  unfolding purge_from_end_def by (rule foldl_inv) (auto simp: wf_closeTab)

lemma item_at_insert_at:
  assumes "0 \<le> i" "i \<le> int (length xs)"
  shows "item_at (insert_at i x xs) j = (if j = i then Some x else if j < i then item_at xs j else item_at xs (j - 1))"
proof -
  have "nat (j - 1) = nat j - 1" "Suc (length xs) = length (insert_at i x xs)" by simp_all
  with assms show ?thesis
    by (auto simp: item_at_def insert_at_def nth_append nth_Cons' min_def nat_less_iff)
qed

lemma item_at_remove_at:
  assumes "item_at xs i = Some x" "0 \<le> j"
  shows "item_at (remove_at i xs) j = (if j < i then item_at xs j else item_at xs (j + 1))"
proof -
  have i: "0 \<le> i" "i < int (length xs)" using assms(1) by (auto simp: item_at_def split: if_splits)
  then show ?thesis
    using remove_at_laws(2) [OF assms(1)] assms(2)
    by (auto simp: item_at_def remove_at_def nth_append min_def nat_add_distrib)
qed

lemma reorderTab_moved:
  assumes "layout_wf s" "item_at (tabs s) f = Some x" "to \<noteq> f" "0 \<le> to" "to < int (length (tabs s))"
    and s': "tabs s' = insert_at to x (remove_at f (tabs s))"
      "activeTabIndex s' =
        (if activeTabIndex s = f then to
         else if f < activeTabIndex s \<and> to \<ge> activeTabIndex s then activeTabIndex s - 1
         else if f > activeTabIndex s \<and> to \<le> activeTabIndex s then activeTabIndex s + 1
         else activeTabIndex s)"
  shows "activeTab s' = activeTab s"
proof -
  let ?a = "activeTabIndex s" and ?xs = "tabs s"
  have f: "0 \<le> f" "f < int (length ?xs)" using assms(2) by (auto simp: item_at_def split: if_splits)
  have a: "0 \<le> ?a" "?a < int (length ?xs)" using assms(1) f by (auto simp: layout_wf_def)
  have "to \<le> int (length (remove_at f ?xs))" using remove_at_laws(2) [OF assms(2)] f assms(5) by simp
  note ins = item_at_insert_at [OF assms(4) this, of x]
  note rem = item_at_remove_at [OF assms(2)]
  show ?thesis
    unfolding activeTab_item s' ins using f a assms(2,3,4) by (auto simp: rem)
qed

text \<open>
  Dragging a tab moves no focus and loses no tab. After \<open>reorderTab\<close> the same tab is active,
  the tabs are the same up to their order, the dragged tab is at the place asked for (kept within
  the bar), and no layout changes.
\<close>

theorem reorderTab_keeps_active:
  assumes "layout_wf s" and "item_at (tabs s) fromIndex = Some x"
  shows "activeTab (reorderTab fromIndex toIndex s) = activeTab s
       \<and> mset (tabs (reorderTab fromIndex toIndex s)) = mset (tabs s)
       \<and> item_at (tabs (reorderTab fromIndex toIndex s)) (max 0 (min toIndex (int (length (tabs s)) - 1))) = Some x
       \<and> layouts (reorderTab fromIndex toIndex s) = layouts s"
proof -
  let ?to = "max 0 (min toIndex (int (length (tabs s)) - 1))"
  have f: "0 \<le> fromIndex" "fromIndex < int (length (tabs s))"
    using assms(2) by (auto simp: item_at_def split: if_splits)
  show ?thesis
  proof (cases "fromIndex = ?to")
    case True
    then have "reorderTab fromIndex toIndex s = s" using assms(2) by (simp add: reorderTab_def Let_def)
    with True assms(2) show ?thesis by simp
  next
    case False
    then have ne: "fromIndex \<noteq> toIndex" using f by auto
    let ?s = "reorderTab fromIndex toIndex s"
    have to: "0 \<le> ?to" "?to < int (length (tabs s))" using f by auto
    have t: "tabs ?s = insert_at ?to x (remove_at fromIndex (tabs s))" and l: "layouts ?s = layouts s"
      using assms(2) ne False by (simp_all add: reorderTab_def Let_def)
    have "activeTab ?s = activeTab s"
      by (rule reorderTab_moved [OF assms False [symmetric] to t]) (use assms(2) ne False in \<open>simp add: reorderTab_def Let_def\<close>)
    moreover have len: "?to \<le> int (length (remove_at fromIndex (tabs s)))"
      using remove_at_laws(2) [OF assms(2)] to f by simp
    have "item_at (tabs ?s) ?to = Some x" unfolding t item_at_insert_at [OF to(1) len] by simp
    moreover have "mset (tabs ?s) = mset (tabs s)" using remove_at_laws(1) [OF assms(2)] by (simp add: t)
    ultimately show ?thesis using l by simp
  qed
qed

theorem reorderTab_keeps_active_witness:
  "let s = \<lparr>tabs = [''a'', ''b'', ''c''], activeTabIndex = 1, layouts = [], activePaneIds = []\<rparr>
   in activeTab (reorderTab 0 5 s) = Some ''b'' \<and> tabs (reorderTab 0 5 s) = [''b'', ''c'', ''a'']"
proof -
  let ?s = "\<lparr>tabs = [''a'', ''b'', ''c''], activeTabIndex = 1, layouts = [], activePaneIds = []\<rparr>"
  have "layout_wf ?s" by (simp add: layout_wf_def map_keys_def)
  then have "activeTab (reorderTab 0 5 ?s) = activeTab ?s"
    using reorderTab_keeps_active [of ?s 0 "''a''" 5] by (simp add: item_at_def)
  then show ?thesis
    by (simp add: activeTab_def reorderTab_def item_at_def insert_at_def remove_at_def Let_def)
qed

lemma wf_reorderTab:
  assumes "layout_wf s"
  shows "layout_wf (reorderTab f t s)"
proof (cases "item_at (tabs s) f")
  case (Some x)
  define to where "to = max 0 (min t (int (length (tabs s)) - 1))"
  have f: "0 \<le> f" "f < int (length (tabs s))" using Some by (auto simp: item_at_def split: if_splits)
  then have to: "0 \<le> to" "to < int (length (tabs s))" by (auto simp: to_def)
  have d: "distinct (tabs s)" and a: "0 \<le> activeTabIndex s" "activeTabIndex s < int (length (tabs s))"
    using assms f by (auto simp: layout_wf_def)
  have l: "Suc (length (remove_at f (tabs s))) = length (tabs s)" using remove_at_laws(2) [OF Some] f by simp
  have s: "insert x (set (remove_at f (tabs s))) = set (tabs s)"
    using remove_at_laws(3) [OF Some d] item_at_in [OF Some] by auto
  show ?thesis
  proof (cases "f = t \<or> f = to")
    case True
    with Some assms show ?thesis by (auto simp: reorderTab_def Let_def to_def)
  next
    case False
    let ?r = "reorderTab f t s"
    have "tabs ?r = insert_at to x (remove_at f (tabs s))" "layouts ?r = layouts s" "activePaneIds ?r = activePaneIds s"
      using False Some by (auto simp: reorderTab_def Let_def to_def)
    moreover have "0 \<le> activeTabIndex ?r \<and> activeTabIndex ?r < int (length (tabs s))"
      using False Some to a f by (simp add: reorderTab_def Let_def to_def [symmetric])
    ultimately show ?thesis using assms l s remove_at_laws(3) [OF Some d] by (simp add: layout_wf_def)
  qed
qed (use assms in \<open>simp add: reorderTab_def\<close>)

lemma map_get_fold_some:
  "map_get (foldl (\<lambda>m t. case f t of None \<Rightarrow> m | Some v \<Rightarrow> map_set t (g v) m) m ts) k =
     (if k \<in> set ts \<and> f k \<noteq> None then map_option g (f k) else map_get m k)"
  by (induction ts arbitrary: m) (auto split: option.split)

lemma map_ok_fold_some:
  "map_ok m \<Longrightarrow> map_ok (foldl (\<lambda>m t. case f t of None \<Rightarrow> m | Some v \<Rightarrow> map_set t (g v) m) m ts)"
  by (induction ts arbitrary: m) (auto split: option.split)

lemma kept_layouts_get:
  "map_get (kept_layouts keep s) t =
     (if t \<in> set (tabs s) \<and> keep t then map_option Some (layout_of (layouts s) t) else None)"
  by (auto simp: kept_layouts_def map_get_fold_some)

lemma kept_panes_get:
  "map_get (kept_panes keep s) t = (if t \<in> set (tabs s) \<and> keep t then map_get (activePaneIds s) t else None)"
  using map_get_fold_some [where f = "map_get (activePaneIds s)" and g = "\<lambda>x. x" and m = "[]"]
  by (auto simp: kept_panes_def)

lemma kept_ok: "map_ok (kept_layouts keep s)" "map_ok (kept_panes keep s)"
  using map_ok_fold_some [where f = "map_get (activePaneIds s)" and g = "\<lambda>x. x" and m = "[]"]
  by (simp_all add: kept_layouts_def kept_panes_def map_ok_fold_some)

lemma kept_keys:
  "set (map_keys (kept_layouts keep s)) \<subseteq> set (filter keep (tabs s))"
  "set (map_keys (kept_panes keep s)) \<subseteq> set (filter keep (tabs s))"
  by (auto simp: set_map_keys map_has_def kept_layouts_get kept_panes_get split: if_splits)

lemma layout_wfI_kept:
  assumes "layout_wf s" "tabs s' = filter keep (tabs s)"
    and "layouts s' = kept_layouts keep s" "activePaneIds s' = kept_panes keep s"
    and "0 \<le> activeTabIndex s'" "activeTabIndex s' < int (length (tabs s')) \<or> activeTabIndex s' = 0"
  shows "layout_wf s'"
  using assms kept_ok [of keep s] kept_keys [of keep s] by (auto simp: layout_wf_def)

lemma wf_closeOthers: "layout_wf s \<Longrightarrow> layout_wf (closeOthers v i s)"
proof (cases "item_at (tabs s) i")
  case (Some kept)
  let ?keep = "\<lambda>tab. tab = kept \<or> \<not> in_view (tabsInView v s) tab"
  assume "layout_wf s"
  then show ?thesis
    by (rule layout_wfI_kept [where keep = ?keep])
      (use Some index_of_less [of kept "filter ?keep (tabs s)"] in \<open>auto simp: closeOthers_def Let_def\<close>)
qed (simp add: closeOthers_def)

lemma wf_closeAll: "layout_wf s \<Longrightarrow> layout_wf (closeAll v c s)"
proof -
  let ?keep = "\<lambda>tab. Some tab = Option.bind c (findTabForChannel s) \<or> \<not> in_view (tabsInView v s) tab"
  assume "layout_wf s"
  then show ?thesis
    by (rule layout_wfI_kept [where keep = ?keep])
      (auto simp: closeAll_def Let_def index_of_less index_of_nonneg split: option.split)
qed

lemma wf_closeToRight: "layout_wf s \<Longrightarrow> layout_wf (closeToRight v i s)"
proof -
  assume wf: "layout_wf s"
  let ?s = "closeToRight v i s"
  define removed where "removed = filter (in_view (tabsInView v s)) (slice_from (i + 1) (tabs s))"
  have t: "tabs ?s = filter (\<lambda>tab. tab \<notin> set removed) (tabs s)"
    and l: "layouts ?s = foldl (\<lambda>m tab. map_delete tab m) (layouts s) removed"
    and p: "activePaneIds ?s = foldl (\<lambda>m tab. map_delete tab m) (activePaneIds s) removed"
    by (simp_all add: closeToRight_def Let_def removed_def)
  have "0 \<le> activeTabIndex ?s \<and> (activeTabIndex ?s < int (length (tabs ?s)) \<or> tabs ?s = [] \<and> activeTabIndex ?s = 0)"
    unfolding t by (auto simp: closeToRight_def Let_def index_of_less index_of_nonneg removed_def [symmetric] filter_empty_conv split: option.split)
  then show ?thesis
    using wf by (auto simp: layout_wf_def t l p js_map.ok_fold_del set_map_keys map_has_def js_map.get_fold_del split: if_splits)
qed

datatype layout_op =
    OpenTab "TabsConfig option" tab_id pane_id channel_id
  | OpenVacantTab "TabsConfig option" tab_id pane_id
  | CloseTab int
  | SetActiveTab int
  | ReorderTab int int
  | VacateAll "nat \<Rightarrow> pane_id" tab_id
  | CloseOthers BarView int
  | CloseToRight BarView int
  | CloseAll BarView "channel_id option"
  | MoveToNewTab pane_id tab_id pane_id channel_id int
  | CloseVacantPane pane_id
  | PurgeDead "(channel_id \<times> bool) list"
  | PurgeOrphaned "channel_id list" host_id "(channel_id, host_id) jmap"
  | SetActivePane tab_id pane_id
  | SetLayout "PaneNode option"
  | SplitPane pane_id channel_id split_direction nat
  | UnsplitPane channel_id
  | UpdateRatio NodePath rat
  | ReplaceChannel channel_id channel_id
  | VacatePane pane_id channel_id
  | FillVacant pane_id pane_id channel_id
  | RearrangeVacant pane_id
  | ClosePane pane_id channel_id
  | MovePaneTo pane_id pane_id channel_id pane_id tab_id DropZone

text \<open>A new tab's id is fresh (it is a ULID), and the focus is set in a tab that is there.\<close>

fun layout_op_enabled :: "LayoutState \<Rightarrow> layout_op \<Rightarrow> bool" where
  "layout_op_enabled s (OpenTab _ t _ _) = (t \<notin> set (tabs s))"
| "layout_op_enabled s (OpenVacantTab _ t _) = (t \<notin> set (tabs s))"
| "layout_op_enabled s (MoveToNewTab _ t _ _ _) = (t \<notin> set (tabs s))"
| "layout_op_enabled s (SetActivePane t _) = (t \<in> set (tabs s))"
| "layout_op_enabled s _ = True"

fun layout_op_step :: "LayoutState \<Rightarrow> layout_op \<Rightarrow> LayoutState" where
  "layout_op_step s (OpenTab cfg t p c) = openTab cfg t p c s"
| "layout_op_step s (OpenVacantTab cfg t p) = snd (openVacantTab cfg t p s)"
| "layout_op_step s (CloseTab i) = closeTab i s"
| "layout_op_step s (SetActiveTab i) = setActiveTab i s"
| "layout_op_step s (ReorderTab i j) = reorderTab i j s"
| "layout_op_step s (VacateAll ids t) = vacateAllPanesInTab ids t s"
| "layout_op_step s (CloseOthers v i) = closeOthers v i s"
| "layout_op_step s (CloseToRight v i) = closeToRight v i s"
| "layout_op_step s (CloseAll v c) = closeAll v c s"
| "layout_op_step s (MoveToNewTab v t p c i) = moveToNewTab v t p c i s"
| "layout_op_step s (CloseVacantPane p) = closeVacantPane p s"
| "layout_op_step s (PurgeDead chs) = purgeDeadTabs chs s"
| "layout_op_step s (PurgeOrphaned chs h m) = purgeOrphanedTabs chs h m s"
| "layout_op_step s (SetActivePane t p) = setActivePaneId t p s"
| "layout_op_step s (SetLayout n) = setLayout n s"
| "layout_op_step s (SplitPane n c d l) = snd (splitPane n c d l s)"
| "layout_op_step s (UnsplitPane c) = unsplitPane c s"
| "layout_op_step s (UpdateRatio p r) = updateRatio p r s"
| "layout_op_step s (ReplaceChannel a b) = replaceChannelId a b s"
| "layout_op_step s (VacatePane n c) = vacatePane n c s"
| "layout_op_step s (FillVacant n v c) = snd (fillVacant n v c s)"
| "layout_op_step s (RearrangeVacant v) = rearrangeVacant v s"
| "layout_op_step s (ClosePane n c) = closePane n c s"
| "layout_op_step s (MovePaneTo v n c p t z) = movePaneTo v n c p t z s"

definition layout_init :: LayoutState where
  "layout_init = \<lparr>tabs = [], activeTabIndex = 0, layouts = [], activePaneIds = []\<rparr>"

lemmas wf_ops = wf_openTab wf_addTab wf_closeTab wf_setActiveTab wf_reorderTab wf_vacateAll wf_closeOthers
  wf_closeToRight wf_closeAll wf_moveToNewTab wf_closeVacantPane wf_purge wf_setActive wf_setLayout wf_splitPane
  wf_unsplitPane wf_updateRatio wf_replaceChannelId wf_vacatePane wf_fill_first wf_rearrangeVacant wf_closePane
  wf_movePaneTo

interpretation layout: event_machine layout_init layout_op_enabled layout_op_step layout_wf
proof
  show "layout_wf layout_init" by (simp add: layout_wf_def layout_init_def map_keys_def)
  show "layout_wf (layout_op_step s e)" if "layout_wf s" "layout_op_enabled s e" for s e
    using that
    by (cases e) (simp_all add: wf_ops openVacantTab_def purgeDeadTabs_def purgeOrphanedTabs_def fillVacant_def)
qed

text \<open>
  C15: the layout never drifts apart. After any sequence of layout operations the tabs are
  distinct, the active index names one of them (or is 0 in an empty bar), and only open tabs
  have a layout or an active pane: a closed tab leaves nothing behind.
\<close>

theorem layout_stays_consistent:
  assumes "runs layout_op_enabled layout_op_step layout_init ops"
  shows "let s = foldl layout_op_step layout_init ops in
         distinct (tabs s) \<and> (tabs s \<noteq> [] \<longrightarrow> activeTab s \<noteq> None)
       \<and> (tab \<notin> set (tabs s) \<longrightarrow> map_get (layouts s) tab = None \<and> map_get (activePaneIds s) tab = None)"
proof -
  define s where "s = foldl layout_op_step layout_init ops"
  have wf: "layout_wf s" unfolding s_def by (rule layout.inv_run [OF assms(1)])
  then have "map_get (layouts s) tab = None \<and> map_get (activePaneIds s) tab = None" if "tab \<notin> set (tabs s)"
    using that by (auto simp: layout_wf_def set_map_keys map_has_def)
  with wf show ?thesis unfolding s_def [symmetric] Let_def by (auto simp: layout_wf_def activeTab_def)
qed

theorem layout_stays_consistent_witness:
  "let s = foldl layout_op_step layout_init
             [OpenTab None ''t'' ''p'' ''a'', OpenTab None ''u'' ''q'' ''b'', MovePaneTo ''v'' ''w'' ''a'' ''q'' ''u'' ZTop, CloseTab 0]
   in distinct (tabs s) \<and> map_get (layouts s) ''t'' = None"
proof -
  let ?ops = "[OpenTab None ''t'' ''p'' ''a'', OpenTab None ''u'' ''q'' ''b'', MovePaneTo ''v'' ''w'' ''a'' ''q'' ''u'' ZTop, CloseTab 0]"
  have r: "runs layout_op_enabled layout_op_step layout_init ?ops"
    by (simp add: layout_init_def openTab_def addTab_def insert_at_def findTabForChannel_def activeTab_def)
  have "tabs (foldl layout_op_step layout_init ?ops) = [''u'']"
    by code_simp
  with layout_stays_consistent [OF r, of "''t''"] show ?thesis by (simp add: Let_def)
qed

subsection \<open>Bulk closes reach only what is on screen\<close>

text \<open>
  "Close the others", "close to the right" and "close all" never reach a tab of another
  host. While the bar shows one host, a tab with a terminal known to be elsewhere and none on
  that host survives all three, with its panes and its focus.
\<close>

theorem bulk_close_spares_other_hosts:
  assumes "Option.bind (bv_tabs v) scope = Some PerHost" "bv_activeHostId v = Some host"
    and tab: "tab \<in> set (tabs s)" "layout_of (layouts s) tab = Some rt"
    and elsewhere: "ch \<in> set (collectTerminalChannelIds rt)" "map_get (bv_channelHostMap v) ch = Some other"
    and none_here: "\<forall>c \<in> set (collectTerminalChannelIds rt). map_get (bv_channelHostMap v) c \<noteq> Some host"
    and s': "s' \<in> {closeOthers v i s, closeToRight v i s, closeAll v welcome s}"
  shows "tab \<in> set (tabs s') \<and> layout_of (layouts s') tab = Some rt
       \<and> map_get (activePaneIds s') tab = map_get (activePaneIds s) tab"
proof -
  let ?known = "List.map_filter (map_get (bv_channelHostMap v)) (collectTerminalChannelIds rt)"
  have "host \<notin> set ?known" using none_here by (auto simp: map_filter_def)
  moreover have "?known \<noteq> []" using elsewhere by (force simp: map_filter_def filter_empty_conv)
  ultimately have "\<not> tabIsOnHost tab (layouts s) (bv_channelHostMap v) host"
    using tab(2) elsewhere(1) by (auto simp: tabIsOnHost_def Let_def)
  then have out: "\<not> in_view (tabsInView v s) tab"
    using assms(1,2) by (simp add: tabsInView_def in_view_def)
  have kept: "layout_of (kept_layouts keep s) tab = Some rt \<and> map_get (kept_panes keep s) tab = map_get (activePaneIds s) tab"
    if "keep tab" for keep
    using that tab by (simp add: layout_of_def [of "kept_layouts keep s"] kept_layouts_get kept_panes_get)
  have r: "tab \<notin> set (filter (in_view (tabsInView v s)) (slice_from (i + 1) (tabs s)))" using out by simp
  from s' consider "s' = closeOthers v i s" | "s' = closeToRight v i s" | "s' = closeAll v welcome s" by blast
  then show ?thesis
  proof cases
    case 1
    with tab out kept show ?thesis by (auto simp: closeOthers_def Let_def split: option.split)
  next
    case 2
    with tab r show ?thesis
      by (simp add: closeToRight_def Let_def js_map.get_fold_del layout_of_def)
  next
    case 3
    with tab out kept show ?thesis by (simp add: closeAll_def Let_def)
  qed
qed

theorem bulk_close_spares_other_hosts_witness:
  "let v = \<lparr>bv_tabs = Some \<lparr>closeButton = None, newTabPosition = None, confirmCloseAll = None,
             confirmCloseOthers = None, scope = Some PerHost, hostMarker = None\<rparr>, bv_activeHostId = Some ''h'',
             bv_channelHostMap = [(''a'', ''h''), (''b'', ''k'')]\<rparr>;
       s = \<lparr>tabs = [''t'', ''u''], activeTabIndex = 0,
             layouts = [(''t'', Some (Terminal ''a'' ''p'')), (''u'', Some (Terminal ''b'' ''q''))], activePaneIds = []\<rparr>
   in ''u'' \<in> set (tabs (closeAll v None s))"
proof -
  let ?v = "\<lparr>bv_tabs = Some \<lparr>closeButton = None, newTabPosition = None, confirmCloseAll = None,
             confirmCloseOthers = None, scope = Some PerHost, hostMarker = None\<rparr>, bv_activeHostId = Some ''h'',
             bv_channelHostMap = [(''a'', ''h''), (''b'', ''k'')]\<rparr>"
  let ?s = "\<lparr>tabs = [''t'', ''u''], activeTabIndex = 0,
             layouts = [(''t'', Some (Terminal ''a'' ''p'')), (''u'', Some (Terminal ''b'' ''q''))], activePaneIds = []\<rparr>"
  have "layout_of (layouts ?s) ''u'' = Some (Terminal ''b'' ''q'')" by (simp add: layout_of_def)
  then show ?thesis unfolding Let_def
    using bulk_close_spares_other_hosts [of ?v "''h''" "''u''" ?s "Terminal ''b'' ''q''" "''b''" "''k''" "closeAll ?v None ?s" 0 None]
    by simp
qed

subsection \<open>Purges close exactly the tabs they mean\<close>

lemma closeTab_here:
  assumes "tabs s = take k ts @ rest" "k < length ts" "rest = ts ! k # rest'"
  shows "tabs (closeTab (int k) s) = take k ts @ rest'"
    and "map_get (layouts (closeTab (int k) s)) = (map_get (layouts s)) (ts ! k := None)"
    and "map_get (activePaneIds (closeTab (int k) s)) = (map_get (activePaneIds s)) (ts ! k := None)"
  using assms by (auto simp: closeTab_def item_at_def remove_at_def nth_append Let_def fun_eq_iff)

lemma purge_loop:
  assumes "k \<le> length ts" "tabs s = take k ts @ rest"
  shows "let s' = foldl (\<lambda>s i. if bad (ts ! i) then closeTab (int i) s else s) s (rev [0..<k]) in
      tabs s' = filter (\<lambda>t. \<not> bad t) (take k ts) @ rest
      \<and> (\<forall>t. map_get (layouts s') t = (if t \<in> set (take k ts) \<and> bad t then None else map_get (layouts s) t)
           \<and> map_get (activePaneIds s') t = (if t \<in> set (take k ts) \<and> bad t then None else map_get (activePaneIds s) t))"
  using assms
proof (induction k arbitrary: s rest)
  case (Suc k)
  then have k: "k < length ts" "take (Suc k) ts = take k ts @ [ts ! k]" "tabs s = take k ts @ ts ! k # rest"
    by (simp_all add: take_Suc_conv_app_nth)
  note here = closeTab_here [OF k(3,1) refl]
  show ?case
    using Suc.IH [of s "ts ! k # rest"] Suc.IH [of "closeTab (int k) s" rest] k
    by (auto simp: here Let_def)
qed auto

lemma purge_exact:
  shows "tabs (purge_from_end bad (tabs s) s) = filter (\<lambda>t. \<not> bad t) (tabs s)"
    and "t \<in> set (tabs s) \<Longrightarrow> \<not> bad t \<Longrightarrow> map_get (layouts (purge_from_end bad (tabs s) s)) t = map_get (layouts s) t"
    and "t \<in> set (tabs s) \<Longrightarrow> \<not> bad t \<Longrightarrow> map_get (activePaneIds (purge_from_end bad (tabs s) s)) t = map_get (activePaneIds s) t"
  using purge_loop [of "length (tabs s)" "tabs s" s "[]" bad] by (simp_all add: purge_from_end_def Let_def)

text \<open>
  The purges close exactly the tabs they mean, though they close by index while the bar
  shrinks. \<open>purgeDeadTabs\<close> leaves the tabs that are empty or show a terminal that is not dead,
  \<open>purgeOrphanedTabs\<close> those that show none of the host, one of another host, or one still known;
  in their order, with their panes and focus.
\<close>

theorem purges_exact:
  "tabs (purgeDeadTabs chs s) = filter (\<lambda>t. \<not> dead_tab chs (layouts s) t) (tabs s)
       \<and> tabs (purgeOrphanedTabs alive host chm s) = filter (\<lambda>t. \<not> orphaned_tab alive host chm (layouts s) t) (tabs s)
       \<and> (\<forall>t \<in> set (tabs (purgeDeadTabs chs s)).
            map_get (layouts (purgeDeadTabs chs s)) t = map_get (layouts s) t
            \<and> map_get (activePaneIds (purgeDeadTabs chs s)) t = map_get (activePaneIds s) t)
       \<and> (\<forall>t \<in> set (tabs (purgeOrphanedTabs alive host chm s)).
            map_get (layouts (purgeOrphanedTabs alive host chm s)) t = map_get (layouts s) t
            \<and> map_get (activePaneIds (purgeOrphanedTabs alive host chm s)) t = map_get (activePaneIds s) t)"
  by (simp add: purgeDeadTabs_def purgeOrphanedTabs_def purge_exact)

theorem purges_exact_witness:
  "let s = \<lparr>tabs = [''t'', ''u'', ''w''], activeTabIndex = 2,
             layouts = [(''t'', Some (Terminal ''a'' ''p'')), (''u'', Some (Vacant ''q'')), (''w'', Some (Terminal ''b'' ''r''))],
             activePaneIds = []\<rparr>
   in tabs (purgeDeadTabs [(''a'', True), (''b'', False)] s) = [''u'', ''w'']"
proof -
  let ?s = "\<lparr>tabs = [''t'', ''u'', ''w''], activeTabIndex = 2,
             layouts = [(''t'', Some (Terminal ''a'' ''p'')), (''u'', Some (Vacant ''q'')), (''w'', Some (Terminal ''b'' ''r''))],
             activePaneIds = []\<rparr>"
  have "tabs (purgeDeadTabs [(''a'', True), (''b'', False)] ?s)
      = filter (\<lambda>t. \<not> dead_tab [(''a'', True), (''b'', False)] (layouts ?s) t) (tabs ?s)"
    using purges_exact by blast
  then show ?thesis by (simp add: dead_tab_def layout_of_def)
qed

end
