(* ===== verification/Acquisition.thy ===== *)
theory Acquisition
  imports Lasterm_Prelude
begin

text \<open>
  The session acquisitions of \<^verbatim>\<open>packages/hub/src/session/session-acquisition.ts\<close>: who is connecting
  to a host, and the leases (spawn intents) that keep the attempt alive. Acquisitions and leases are
  shared objects of the code (a lease points back at its acquisition, waiters hold on to one that left
  the map), so the model keeps them in two stores by id, and \<open>acquisitions\<close> maps a host to the id of its
  current one. The ids \<open>generateId()\<close> returns are arguments. The promise a waiter awaits is its outcome,
  which the first resolve or reject sets.
\<close>

section \<open>State\<close>

type_synonym acq_id = string
type_synonym lease_id = string

datatype acq_state = CONNECTING | RECONNECTING | CLOSING | FAILED

datatype acq_outcome = Resolved session_id | Rejected string

record Lease =
  lease_hostId :: host_id
  lease_acqId :: acq_id
  lease_clientId :: client_id
  released :: bool

record SessionAcquisition =
  acq_hostId :: host_id
  acq_status :: acq_state
  aborted :: bool
  outcome :: "acq_outcome option"
  leases :: "lease_id jset"

record acq_ctx =
  acquisitions :: "(host_id, acq_id) jmap"
  acqs :: "(acq_id, SessionAcquisition) jmap"
  lease_store :: "(lease_id, Lease) jmap"

definition acq_init :: acq_ctx where
  "acq_init = \<lparr>acquisitions = [], acqs = [], lease_store = []\<rparr>"

definition settle :: "acq_outcome \<Rightarrow> SessionAcquisition \<Rightarrow> SessionAcquisition" where
  "settle out acq = (case outcome acq of None \<Rightarrow> acq\<lparr>outcome := Some out\<rparr> | Some _ \<Rightarrow> acq)"

text \<open>A method call on the acquisition \<open>acqId\<close> refers to.\<close>

definition upd_acq :: "acq_id \<Rightarrow> (SessionAcquisition \<Rightarrow> SessionAcquisition) \<Rightarrow> acq_ctx \<Rightarrow> acq_ctx" where
  "upd_acq acqId f ctx =
     (case map_get (acqs ctx) acqId of None \<Rightarrow> ctx | Some acq \<Rightarrow> ctx\<lparr>acqs := map_set acqId (f acq) (acqs ctx)\<rparr>)"

section \<open>Operations\<close>

definition acquire :: "acq_id \<Rightarrow> lease_id \<Rightarrow> host_id \<Rightarrow> client_id \<Rightarrow> acq_ctx \<Rightarrow> acq_ctx" where
  "acquire acqId leaseId hostId clientId ctx =
     ctx\<lparr>acqs := map_set acqId
            \<lparr>acq_hostId = hostId, acq_status = CONNECTING, aborted = False, outcome = None, leases = [leaseId]\<rparr> (acqs ctx),
         lease_store := map_set leaseId
            \<lparr>lease_hostId = hostId, lease_acqId = acqId, lease_clientId = clientId, released = False\<rparr> (lease_store ctx),
         acquisitions := map_set hostId acqId (acquisitions ctx)\<rparr>"

definition acq_join :: "lease_id \<Rightarrow> acq_id \<Rightarrow> client_id \<Rightarrow> acq_ctx \<Rightarrow> lease_id option \<times> acq_ctx" where
  "acq_join leaseId acqId clientId ctx =
     (case map_get (acqs ctx) acqId of
        None \<Rightarrow> (None, ctx)
      | Some acq \<Rightarrow>
          if acq_status acq = CLOSING \<or> acq_status acq = FAILED then (None, ctx)
          else (Some leaseId,
                upd_acq acqId (leases_update (set_add leaseId))
                  (ctx\<lparr>lease_store := map_set leaseId
                     \<lparr>lease_hostId = acq_hostId acq, lease_acqId = acqId, lease_clientId = clientId, released = False\<rparr>
                     (lease_store ctx)\<rparr>)))"

definition drop_current :: "host_id \<Rightarrow> acq_id \<Rightarrow> acq_ctx \<Rightarrow> acq_ctx" where
  "drop_current hostId acqId ctx =
     (if map_get (acquisitions ctx) hostId = Some acqId
      then ctx\<lparr>acquisitions := map_delete hostId (acquisitions ctx)\<rparr> else ctx)"

definition acq_commit :: "acq_id \<Rightarrow> session_id \<Rightarrow> acq_ctx \<Rightarrow> acq_ctx" where
  "acq_commit acqId session ctx =
     (case map_get (acqs ctx) acqId of
        None \<Rightarrow> ctx
      | Some acq \<Rightarrow> upd_acq acqId (settle (Resolved session)) (drop_current (acq_hostId acq) acqId ctx))"

definition acq_fail :: "acq_id \<Rightarrow> string \<Rightarrow> acq_ctx \<Rightarrow> acq_ctx" where
  "acq_fail acqId err ctx =
     (case map_get (acqs ctx) acqId of
        None \<Rightarrow> ctx
      | Some acq \<Rightarrow>
          upd_acq acqId (settle (Rejected err))
            (drop_current (acq_hostId acq) acqId (upd_acq acqId (acq_status_update (\<lambda>_. FAILED)) ctx)))"

definition closing :: "string \<Rightarrow> SessionAcquisition \<Rightarrow> SessionAcquisition" where
  "closing why acq = settle (Rejected why) (acq\<lparr>acq_status := CLOSING, aborted := True\<rparr>)"

definition acq_release :: "lease_id \<Rightarrow> bool \<Rightarrow> acq_ctx \<Rightarrow> bool \<times> acq_ctx" where
  "acq_release leaseId hasChannels ctx =
     (case map_get (lease_store ctx) leaseId of
        None \<Rightarrow> (False, ctx)
      | Some lease \<Rightarrow>
          if released lease then (False, ctx)
          else let acqId = lease_acqId lease;
                   ctx = upd_acq acqId (leases_update (set_delete leaseId))
                           (ctx\<lparr>lease_store := map_set leaseId (lease\<lparr>released := True\<rparr>) (lease_store ctx)\<rparr>)
            in if map_get (acquisitions ctx) (lease_hostId lease) \<noteq> Some acqId then (False, ctx)
               else if map_option leases (map_get (acqs ctx) acqId) = Some [] \<and> \<not> hasChannels
               then (True, upd_acq acqId (closing ''session abandoned: all spawn intents released with no channels'') (drop_current (lease_hostId lease) acqId ctx))
               else (False, ctx))"

definition acq_close :: "host_id \<Rightarrow> acq_ctx \<Rightarrow> acq_id option \<times> acq_ctx" where
  "acq_close hostId ctx =
     (case map_get (acquisitions ctx) hostId of
        None \<Rightarrow> (None, ctx)
      | Some acqId \<Rightarrow> (Some acqId, upd_acq acqId (closing ''session closed'') (drop_current hostId acqId ctx)))"

definition shutdownAll :: "acq_ctx \<Rightarrow> acq_ctx" where
  "shutdownAll ctx =
     (foldl (\<lambda>ctx acqId. upd_acq acqId (closing ''hub shutting down'') ctx) ctx (map snd (acquisitions ctx)))
       \<lparr>acquisitions := []\<rparr>"

section \<open>The acquisitions as a machine\<close>

text \<open>
  What the callers do, in any order: a leader acquires a host that has no acquisition (P2), a
  follower joins one it has a reference to, an attempt is committed or fails, a lease is released
  once or many times, a session closes, the hub shuts down.
\<close>

datatype acq_event =
    Acquire acq_id lease_id host_id client_id
  | Join lease_id acq_id client_id
  | Commit acq_id session_id
  | Fail acq_id string
  | Release lease_id bool
  | Close host_id
  | Shutdown

fun acq_enabled :: "acq_ctx \<Rightarrow> acq_event \<Rightarrow> bool" where
  "acq_enabled ctx (Acquire a l h c) =
     (\<not> map_has (acquisitions ctx) h \<and> \<not> map_has (acqs ctx) a \<and> \<not> map_has (lease_store ctx) l)"
| "acq_enabled ctx (Join l a c) = (\<not> map_has (lease_store ctx) l)"
| "acq_enabled ctx _ = True"

fun acq_step :: "acq_ctx \<Rightarrow> acq_event \<Rightarrow> acq_ctx" where
  "acq_step ctx (Acquire a l h c) = acquire a l h c ctx"
| "acq_step ctx (Join l a c) = snd (acq_join l a c ctx)"
| "acq_step ctx (Commit a sid) = acq_commit a sid ctx"
| "acq_step ctx (Fail a err) = acq_fail a err ctx"
| "acq_step ctx (Release l b) = snd (acq_release l b ctx)"
| "acq_step ctx (Close h) = snd (acq_close h ctx)"
| "acq_step ctx Shutdown = shutdownAll ctx"

text \<open>
  The invariant. A current acquisition is live; one that left the map is settled, so nobody waits
  on it; a lease is counted by its acquisition exactly until it is released.
\<close>

definition live_for :: "host_id \<Rightarrow> SessionAcquisition \<Rightarrow> bool" where
  "live_for h acq \<longleftrightarrow> acq_hostId acq = h \<and> acq_status acq = CONNECTING \<and> \<not> aborted acq \<and> outcome acq = None"

lemma live_for_leases [simp]: "live_for h (leases_update f acq) = live_for h acq"
  by (simp add: live_for_def)

lemma live_for_host: "live_for h acq \<Longrightarrow> acq_hostId acq = h"
  by (simp add: live_for_def)

definition current_live :: "acq_ctx \<Rightarrow> bool" where
  "current_live ctx \<longleftrightarrow>
     (\<forall>h a. map_get (acquisitions ctx) h = Some a \<longrightarrow> map_has (acqs ctx) a)
     \<and> (\<forall>h a acq. map_get (acquisitions ctx) h = Some a \<longrightarrow> map_get (acqs ctx) a = Some acq \<longrightarrow> live_for h acq)"

definition departed_settled :: "acq_ctx \<Rightarrow> bool" where
  "departed_settled ctx \<longleftrightarrow>
     (\<forall>a acq. map_get (acqs ctx) a = Some acq \<longrightarrow> outcome acq = None \<longrightarrow>
        map_get (acquisitions ctx) (acq_hostId acq) = Some a)"

definition lease_on :: "Lease \<Rightarrow> SessionAcquisition \<Rightarrow> bool" where
  "lease_on lease acq \<longleftrightarrow> acq_hostId acq = lease_hostId lease"

definition live_leases :: "(lease_id, Lease) jmap \<Rightarrow> acq_id \<Rightarrow> lease_id set" where
  "live_leases ls a = {l. \<exists>lease. map_get ls l = Some lease \<and> lease_acqId lease = a \<and> \<not> released lease}"

lemma live_leases_set [simp]:
  "live_leases (map_set l lease ls) a =
     (if lease_acqId lease = a \<and> \<not> released lease then insert l (live_leases ls a) else live_leases ls a - {l})"
  by (auto simp: live_leases_def)

definition leases_counted :: "acq_ctx \<Rightarrow> bool" where
  "leases_counted ctx \<longleftrightarrow>
     (\<forall>a acq. map_get (acqs ctx) a = Some acq \<longrightarrow> set (leases acq) = live_leases (lease_store ctx) a)
     \<and> (\<forall>l lease. map_get (lease_store ctx) l = Some lease \<longrightarrow> map_has (acqs ctx) (lease_acqId lease))
     \<and> (\<forall>l lease acq. map_get (lease_store ctx) l = Some lease \<longrightarrow> map_get (acqs ctx) (lease_acqId lease) = Some acq \<longrightarrow>
          lease_on lease acq)"

lemma lease_on_cong: "lease_on lease acq \<Longrightarrow> acq_hostId acq' = acq_hostId acq \<Longrightarrow> lease_on lease acq'"
  by (simp add: lease_on_def)

lemma lease_on_upd [simp]:
  "lease_on (released_update f lease) acq = lease_on lease acq" "lease_on lease (leases_update g acq) = lease_on lease acq"
  by (simp_all add: lease_on_def)

definition acq_inv :: "acq_ctx \<Rightarrow> bool" where
  "acq_inv ctx \<longleftrightarrow> current_live ctx \<and> departed_settled ctx \<and> leases_counted ctx"

lemma departedD:
  "acq_inv ctx \<Longrightarrow> map_get (acqs ctx) a = Some acq \<Longrightarrow> outcome acq = None \<Longrightarrow>
   map_get (acquisitions ctx) (acq_hostId acq) = Some a"
  by (simp add: acq_inv_def departed_settled_def)

lemma leaseD: "acq_inv ctx \<Longrightarrow> map_get (lease_store ctx) l = Some lease \<Longrightarrow> map_get (acqs ctx) (lease_acqId lease) \<noteq> None"
  by (auto simp: acq_inv_def leases_counted_def map_has_def)

lemmas acq_inv_defs = current_live_def departed_settled_def leases_counted_def

lemma upd_acq_simps [simp]:
  "acquisitions (upd_acq a f ctx) = acquisitions ctx"
  "lease_store (upd_acq a f ctx) = lease_store ctx"
  "map_get (acqs (upd_acq a f ctx)) b =
     (if b = a then map_option f (map_get (acqs ctx) a) else map_get (acqs ctx) b)"
  "map_has (acqs (upd_acq a f ctx)) b = map_has (acqs ctx) b"
  by (auto simp: upd_acq_def map_has_def split: option.split)

lemma drop_current_simps [simp]:
  "acqs (drop_current h a ctx) = acqs ctx"
  "lease_store (drop_current h a ctx) = lease_store ctx"
  "map_get (acquisitions (drop_current h a ctx)) h' =
     (if h' = h \<and> map_get (acquisitions ctx) h = Some a then None else map_get (acquisitions ctx) h')"
  by (auto simp: drop_current_def)

lemma settle_simps [simp]:
  "acq_hostId (settle out acq) = acq_hostId acq" "leases (settle out acq) = leases acq" "\<exists>y. outcome (settle out acq) = Some y"
  "acq_hostId (closing why acq) = acq_hostId acq" "leases (closing why acq) = leases acq" "\<exists>y. outcome (closing why acq) = Some y"
  by (auto simp: settle_def closing_def split: option.split)

text \<open>
  What every operation that ends an acquisition does: it leaves the map if it was current, and its
  promise is settled. Anything else it changes is not its host or its leases.
\<close>

lemma acq_inv_end:
  assumes "acq_inv ctx" "map_get (acqs ctx) a = Some acq"
    and f: "\<And>acq. acq_hostId (f acq) = acq_hostId acq \<and> leases (f acq) = leases acq \<and> outcome (f acq) \<noteq> None"
  shows "acq_inv (upd_acq a f (drop_current (acq_hostId acq) a ctx))"
proof -
  have "h = acq_hostId acq" if "map_get (acquisitions ctx) h = Some a" for h
    using that assms(1,2) unfolding acq_inv_def current_live_def by (blast dest: live_for_host)
  then have "current_live (upd_acq a f (drop_current (acq_hostId acq) a ctx))"
    using assms(1) by (auto simp: acq_inv_def current_live_def)
  moreover have "departed_settled (upd_acq a f (drop_current (acq_hostId acq) a ctx))"
    using assms by (fastforce simp: acq_inv_def departed_settled_def)
  moreover have "leases_counted (upd_acq a f (drop_current (acq_hostId acq) a ctx))"
  proof -
    have "lease_on lease (f acq) = lease_on lease acq" for lease acq using f by (simp add: lease_on_def)
    with assms show ?thesis by (auto simp: acq_inv_def leases_counted_def)
  qed
  ultimately show ?thesis by (simp add: acq_inv_def)
qed

lemma acq_inv_acquire:
  assumes "acq_inv ctx" "acq_enabled ctx (Acquire a l h c)"
  shows "acq_inv (acquire a l h c ctx)"
proof -
  have new: "map_get (acquisitions ctx) h = None" "map_get (acqs ctx) a = None" "map_get (lease_store ctx) l = None"
    using assms(2) by (simp_all add: map_has_def)
  have "current_live (acquire a l h c ctx)"
  proof -
    have "map_get (acquisitions ctx) h' \<noteq> Some a" for h'
      using assms(1) new(2) unfolding acq_inv_def current_live_def map_has_def by blast
    moreover have "live_for h \<lparr>acq_hostId = h, acq_status = CONNECTING, aborted = False, outcome = None, leases = [l]\<rparr>"
      by (simp add: live_for_def)
    ultimately show ?thesis using assms(1) by (auto simp: acq_inv_def current_live_def acquire_def)
  qed
  moreover have "departed_settled (acquire a l h c ctx)"
    using assms(1) new by (fastforce simp: acq_inv_def departed_settled_def acquire_def)
  moreover have "leases_counted (acquire a l h c ctx)"
  proof -
    have a: "lease_acqId lease \<noteq> a" if "map_get (lease_store ctx) k = Some lease" for k lease
      using leaseD [OF assms(1) that] new(2) by auto
    then have "live_leases (lease_store ctx) a = {}" and "l \<notin> live_leases (lease_store ctx) b" for b
      using new(3) by (auto simp: live_leases_def)
    with assms(1) a new(3) show ?thesis by (auto simp: acq_inv_def leases_counted_def acquire_def lease_on_def)
  qed
  ultimately show ?thesis by (simp add: acq_inv_def)
qed

lemma acq_inv_join:
  assumes "acq_inv ctx" "\<not> map_has (lease_store ctx) l"
  shows "acq_inv (snd (acq_join l a c ctx))"
proof (cases "map_get (acqs ctx) a")
  case (Some acq)
  have l: "map_get (lease_store ctx) l = None" using assms(2) by (simp add: map_has_def)
  show ?thesis
  proof (cases "acq_status acq = CLOSING \<or> acq_status acq = FAILED")
    case False
    let ?ctx = "snd (acq_join l a c ctx)"
    have eqs: "acquisitions ?ctx = acquisitions ctx"
      "map_get (acqs ?ctx) b = (if b = a then Some (acq\<lparr>leases := set_add l (leases acq)\<rparr>) else map_get (acqs ctx) b)"
      "map_has (acqs ?ctx) b = map_has (acqs ctx) b"
      "map_get (lease_store ?ctx) k = (if k = l then
         Some \<lparr>lease_hostId = acq_hostId acq, lease_acqId = a, lease_clientId = c, released = False\<rparr> else map_get (lease_store ctx) k)"
      for b k using Some False by (auto simp: acq_join_def)
    have not_counted: "l \<notin> live_leases (lease_store ctx) b" for b using l by (simp add: live_leases_def)
    have ls: "live_leases (lease_store ?ctx) b = (if b = a then insert l (live_leases (lease_store ctx) a) else live_leases (lease_store ctx) b)"
      for b using Some False l by (auto simp: acq_join_def live_leases_def)
    have "current_live ?ctx" using assms(1) Some by (auto simp: acq_inv_def current_live_def eqs)
    moreover have "departed_settled ?ctx" using departedD [OF assms(1)] Some by (auto simp: departed_settled_def eqs)
    moreover have "leases_counted ?ctx"
      using assms(1) Some not_counted
      by (auto simp: acq_inv_def leases_counted_def eqs ls) (simp_all add: map_has_def lease_on_def)
    ultimately show ?thesis by (simp add: acq_inv_def)
  qed (use assms Some in \<open>simp add: acq_join_def\<close>)
qed (use assms in \<open>simp add: acq_join_def\<close>)

lemma acq_inv_commit: "acq_inv ctx \<Longrightarrow> acq_inv (acq_commit a sid ctx)"
  by (auto simp: acq_commit_def intro!: acq_inv_end split: option.split)

lemma upd_acq_drop: "upd_acq a f (drop_current h a (upd_acq a g ctx)) = upd_acq a (f \<circ> g) (drop_current h a ctx)"
proof -
  have "map_set a v (map_set a w m) = map_set a v m" for v w :: SessionAcquisition and m
    by (induction a w m rule: map_set.induct) auto
  then show ?thesis by (auto simp: upd_acq_def drop_current_def split: option.split)
qed

lemma acq_inv_fail: "acq_inv ctx \<Longrightarrow> acq_inv (acq_fail a err ctx)"
  by (auto simp: acq_fail_def upd_acq_drop intro!: acq_inv_end split: option.split)

lemma acq_inv_close:
  assumes "acq_inv ctx"
  shows "acq_inv (snd (acq_close h ctx))"
proof (cases "map_get (acquisitions ctx) h")
  case (Some a)
  then obtain acq where "map_get (acqs ctx) a = Some acq" "acq_hostId acq = h"
    using assms unfolding acq_inv_def current_live_def map_has_def by (blast dest: live_for_host)
  with acq_inv_end [OF assms this(1), of "closing ''session closed''"] Some show ?thesis
    by (auto simp: acq_close_def)
qed (use assms in \<open>simp add: acq_close_def\<close>)

lemma acq_inv_released:
  assumes "acq_inv ctx" "map_get (lease_store ctx) l = Some lease" "\<not> released lease"
  shows "acq_inv (upd_acq (lease_acqId lease) (leases_update (set_delete l))
           (ctx\<lparr>lease_store := map_set l (lease\<lparr>released := True\<rparr>) (lease_store ctx)\<rparr>))"
proof -
  let ?ctx = "upd_acq (lease_acqId lease) (leases_update (set_delete l))
           (ctx\<lparr>lease_store := map_set l (lease\<lparr>released := True\<rparr>) (lease_store ctx)\<rparr>)"
  have "current_live ?ctx" using assms(1) by (auto simp: acq_inv_def current_live_def)
  moreover have "departed_settled ?ctx" using departedD [OF assms(1)] by (auto simp: departed_settled_def)
  moreover have "leases_counted ?ctx"
  proof -
    have "l \<in> live_leases (lease_store ctx) a \<longleftrightarrow> a = lease_acqId lease" for a
      using assms(2,3) by (auto simp: live_leases_def)
    with assms show ?thesis by (auto simp: acq_inv_def leases_counted_def)
  qed
  ultimately show ?thesis by (simp add: acq_inv_def)
qed

lemma acq_inv_release: "acq_inv ctx \<Longrightarrow> acq_inv (snd (acq_release l b ctx))"
proof (cases "map_get (lease_store ctx) l")
  case (Some lease)
  assume inv: "acq_inv ctx"
  let ?a = "lease_acqId lease"
  let ?ctx = "upd_acq ?a (leases_update (set_delete l))
           (ctx\<lparr>lease_store := map_set l (lease\<lparr>released := True\<rparr>) (lease_store ctx)\<rparr>)"
  from inv Some obtain acq where acq: "map_get (acqs ctx) ?a = Some acq" "acq_hostId acq = lease_hostId lease"
    unfolding acq_inv_def leases_counted_def map_has_def lease_on_def by blast
  show ?thesis
  proof (cases "released lease")
    case False
    have rel: "acq_inv ?ctx" by (rule acq_inv_released [OF inv Some False])
    have "acq_inv (upd_acq ?a (closing ''session abandoned: all spawn intents released with no channels'') (drop_current (lease_hostId lease) ?a ?ctx))"
      using acq_inv_end [OF rel, of ?a "acq\<lparr>leases := set_delete l (leases acq)\<rparr>" "closing ''session abandoned: all spawn intents released with no channels''"] acq
      by simp
    with rel Some False show ?thesis by (simp add: acq_release_def Let_def)
  qed (use inv Some in \<open>simp add: acq_release_def\<close>)
qed (simp add: acq_release_def)

lemma closing_idem [simp]: "closing why (closing why acq) = closing why acq"
  by (simp add: closing_def settle_def split: option.split)

lemma fold_closing:
  "lease_store (foldl (\<lambda>ctx a. upd_acq a (closing why) ctx) ctx ids) = lease_store ctx"
  "map_get (acqs (foldl (\<lambda>ctx a. upd_acq a (closing why) ctx) ctx ids)) a =
     map_option (\<lambda>acq. if a \<in> set ids then closing why acq else acq) (map_get (acqs ctx) a)"
  "map_has (acqs (foldl (\<lambda>ctx a. upd_acq a (closing why) ctx) ctx ids)) a = map_has (acqs ctx) a"
  by (induction ids arbitrary: ctx) (auto simp: option.map_comp comp_def option.map_ident intro!: option.map_cong)

lemma acq_inv_shutdown: "acq_inv ctx \<Longrightarrow> acq_inv (shutdownAll ctx)"
proof -
  assume inv: "acq_inv ctx"
  have "a \<in> snd ` set (acquisitions ctx)" if "map_get (acqs ctx) a = Some acq" "outcome acq = None" for a acq
    using map_get_in_set [OF departedD [OF inv that]] by force
  then have "outcome (if a \<in> snd ` set (acquisitions ctx) then closing why acq else acq) \<noteq> None"
    if "map_get (acqs ctx) a = Some acq" for a acq why
    using that by (auto simp: not_None_eq)
  then have settled: "outcome acq \<noteq> None" if "map_get (acqs (shutdownAll ctx)) a = Some acq" for a acq
    using that by (auto simp: shutdownAll_def fold_closing simp del: not_None_eq split del: if_split)
  have "departed_settled (shutdownAll ctx)" unfolding departed_settled_def using settled by blast
  moreover have "leases_counted (shutdownAll ctx)"
  proof -
    have "lease_on lease (closing why acq) = lease_on lease acq" for lease why acq by (simp add: lease_on_def)
    with inv show ?thesis by (auto simp: acq_inv_def leases_counted_def shutdownAll_def fold_closing)
  qed
  moreover have "current_live (shutdownAll ctx)" by (simp add: current_live_def shutdownAll_def)
  ultimately show ?thesis by (simp add: acq_inv_def)
qed

interpretation acq: event_machine acq_init acq_enabled acq_step acq_inv
proof
  show "acq_inv acq_init" by (simp add: acq_inv_def acq_inv_defs acq_init_def)
  show "acq_inv (acq_step ctx e)" if "acq_inv ctx" "acq_enabled ctx e" for ctx e
    using that acq_inv_acquire [OF that(1)]
    by (cases e) (auto simp: acq_inv_join acq_inv_commit acq_inv_fail acq_inv_release acq_inv_close acq_inv_shutdown)
qed

section \<open>Properties\<close>

text \<open>
  C6: nobody waits forever on a connection attempt, and nobody joins a dead one. After any
  sequence of acquires, joins, commits, failures, releases, closes and shutdowns: the acquisition a
  host maps to is connecting, not aborted and not settled; every other one is settled, so its
  waiters have their answer; and the leases an acquisition counts are exactly those taken on it and
  not released.
\<close>

theorem acquisition_invariant:
  assumes "runs acq_enabled acq_step acq_init es"
  shows "let ctx = foldl acq_step acq_init es in
     (\<forall>h a. map_get (acquisitions ctx) h = Some a \<longrightarrow>
        (\<exists>acq. map_get (acqs ctx) a = Some acq \<and> acq_hostId acq = h \<and> acq_status acq = CONNECTING
           \<and> \<not> aborted acq \<and> outcome acq = None))
     \<and> (\<forall>a acq. map_get (acqs ctx) a = Some acq \<longrightarrow>
          (outcome acq = None \<longrightarrow> map_get (acquisitions ctx) (acq_hostId acq) = Some a)
          \<and> set (leases acq) = {l. \<exists>lease. map_get (lease_store ctx) l = Some lease
                                  \<and> lease_acqId lease = a \<and> \<not> released lease})"
proof -
  define ctx where "ctx = foldl acq_step acq_init es"
  have inv: "acq_inv ctx" unfolding ctx_def by (rule acq.inv_run [OF assms])
  have "\<exists>acq. map_get (acqs ctx) a = Some acq \<and> live_for h acq" if "map_get (acquisitions ctx) h = Some a" for h a
    using inv that unfolding acq_inv_def current_live_def map_has_def by blast
  moreover have "set (leases acq) = live_leases (lease_store ctx) a" if "map_get (acqs ctx) a = Some acq" for a acq
    using inv that by (simp add: acq_inv_def leases_counted_def)
  ultimately show ?thesis unfolding Let_def ctx_def [symmetric]
    using departedD [OF inv] by (simp add: live_for_def live_leases_def)
qed

theorem acquisition_invariant_witness:
  "let ctx = foldl acq_step acq_init
       [Acquire ''a'' ''l'' ''h'' ''c'', Join ''m'' ''a'' ''d'', Release ''l'' False, Release ''l'' False, Release ''m'' False]
   in outcome (the (map_get (acqs ctx) ''a'')) \<noteq> None \<and> map_get (acquisitions ctx) ''h'' = None"
proof -
  let ?es = "[Acquire ''a'' ''l'' ''h'' ''c'', Join ''m'' ''a'' ''d'', Release ''l'' False, Release ''l'' False, Release ''m'' False]"
  have r: "runs acq_enabled acq_step acq_init ?es"
    by (simp add: acq_init_def acquire_def acq_join_def upd_acq_def map_has_def)
  define ctx where "ctx = foldl acq_step acq_init ?es"
  have "map_get (acquisitions ctx) ''h'' = None" and "map_has (acqs ctx) ''a''"
    and "acq_hostId (the (map_get (acqs ctx) ''a'')) = ''h''"
    unfolding ctx_def by code_simp+
  moreover from this(2) obtain q where "map_get (acqs ctx) ''a'' = Some q" by (auto simp: map_has_def)
  moreover note acquisition_invariant [OF r, unfolded Let_def, folded ctx_def]
  ultimately have "outcome q \<noteq> None" by (metis option.distinct(1) option.sel)
  with \<open>map_get (acqs ctx) ''a'' = Some q\<close> \<open>map_get (acquisitions ctx) ''h'' = None\<close> show ?thesis
    unfolding Let_def ctx_def [symmetric] by simp
qed

text \<open>
  An attempt is given up only when the last spawn intent is gone, once. \<open>release\<close> answers
  true exactly when it reaps: the lease was live, it was the last one of the host's current
  acquisition, and no channel needs the session. The reaped acquisition is aborted and refuses
  joins; in every other case no acquisition changes its status. A second release does nothing.
\<close>

theorem release_reaps_exactly:
  assumes "acq_inv ctx" and "map_get (lease_store ctx) l = Some lease" and "map_get (acqs ctx) (lease_acqId lease) = Some acq"
  shows "case acq_release l hasChannels ctx of (reaped, ctx') \<Rightarrow>
     (reaped \<longleftrightarrow>
        \<not> released lease \<and> map_get (acquisitions ctx) (lease_hostId lease) = Some (lease_acqId lease)
        \<and> set (leases acq) = {l} \<and> \<not> hasChannels)
     \<and> (if reaped
        then map_get (acquisitions ctx') (lease_hostId lease) = None \<and> fst (acq_join k (lease_acqId lease) c ctx') = None
        else acquisitions ctx' = acquisitions ctx
             \<and> map_option acq_status (map_get (acqs ctx') b) = map_option acq_status (map_get (acqs ctx) b))
     \<and> acq_release l again ctx' = (False, ctx')"
proof (cases "released lease")
  case True
  with assms(2) show ?thesis by (simp add: acq_release_def)
next
  case False
  have "l \<in> set (leases acq)"
    using assms False unfolding acq_inv_def leases_counted_def live_leases_def by blast
  then have last: "set_delete l (leases acq) = [] \<longleftrightarrow> set (leases acq) = {l}"
    by (auto simp: set_delete_def filter_empty_conv)
  have stat: "acq_status (closing why q) = CLOSING" for why q
    by (auto simp: closing_def settle_def split: option.split)
  show ?thesis
    using assms(2,3) False last stat
    by (auto simp: acq_release_def Let_def acq_join_def option.map_comp comp_def)
qed

theorem release_reaps_exactly_witness:
  "let ctx = acquire ''a'' ''l'' ''h'' ''c'' acq_init in
   fst (acq_release ''l'' False ctx) \<and> \<not> fst (acq_release ''l'' True ctx)"
proof -
  let ?ctx = "acquire ''a'' ''l'' ''h'' ''c'' acq_init"
  have "acq_inv ?ctx" by (rule acq_inv_acquire [OF acq.inv_init]) (simp add: acq_init_def)
  then have "case acq_release ''l'' b ?ctx of (reaped, ctx') \<Rightarrow> reaped \<longleftrightarrow> \<not> b" for b
    using release_reaps_exactly [of ?ctx "''l''"
        "\<lparr>lease_hostId = ''h'', lease_acqId = ''a'', lease_clientId = ''c'', released = False\<rparr>"
        "\<lparr>acq_hostId = ''h'', acq_status = CONNECTING, aborted = False, outcome = None, leases = [''l'']\<rparr>" b]
    by (auto simp: acquire_def acq_init_def split: prod.splits)
  from this [of False] this [of True] show ?thesis by (auto simp: Let_def split: prod.splits)
qed

end
