(* ===== verification/Prompt_Context.thy ===== *)
theory Prompt_Context
  imports Acquisition "HOL-Library.Char_ord" "HOL-Library.List_Lexorder"
begin

text \<open>
  The prompts of \<^verbatim>\<open>packages/hub/src/session/prompt-context.ts\<close>: questions the hub asks a person
  (a passphrase, an unknown host key) while it connects, each owned by a context that routes it to
  one client. The state is the slice \<open>PromptCtxSlice\<close> with the module's own \<open>_inFlight\<close> map, the armed
  timers, the messages sent and the promises resolved, in order. The callback \<open>send\<close> may throw: it is a
  predicate that says for which clients it goes through. An absent \<open>elevationPromptOwners\<close> is an empty one.
\<close>

section \<open>State\<close>

type_synonym context_id = string
type_synonym prompt_id = string

datatype context_kind = KSession | KTest | KElevation
datatype context_state = OPEN | CLOSED
datatype prompt_type = Passphrase | HostVerify | AgentVerify | Elevation

record PromptContext =
  kind :: context_kind
  pc_hostId :: host_id
  routeClientId :: client_id
  pc_state :: context_state
  prompts :: "prompt_id jset"

record InFlightPrompt =
  if_contextId :: context_id
  if_type :: prompt_type
  deliveryEpoch :: nat
  if_timer :: bool
  resendPayload :: string

record PendingPrompt =
  pp_hostId :: host_id
  pp_clientId :: client_id
  pp_contextId :: context_id
  pp_type :: prompt_type
  pp_deliveryEpoch :: nat

datatype elevation_owner = OwnerSpawn | OwnerChannelRestart

record ElevationPromptOwner =
  eo_hostId :: host_id
  eo_sessionId :: session_id
  eo_owner :: elevation_owner
  eo_operationId :: string
  eo_channelId :: "channel_id option"

record PromptChannel =
  ch_hostId :: host_id
  ch_sessionId :: session_id
  ch_status :: string
  ch_clients :: "client_id jset"

datatype prompt_msg = PromptMsg string prompt_id nat | PROMPT_CANCEL prompt_id

record PromptCtx =
  promptContexts :: "(context_id, PromptContext) jmap"
  elevationPromptOwners :: "(context_id, ElevationPromptOwner) jmap"
  promptIndex :: "(prompt_id, context_id) jmap"
  pendingPrompts :: "(prompt_id, PendingPrompt) jmap"
  inFlight :: "(prompt_id, InFlightPrompt) jmap"
  pc_clients :: "client_id jset"
  pc_channels :: "(channel_id, PromptChannel) jmap option"
  pc_acqs :: acq_ctx
  timers :: "(prompt_id, nat) jmap"
  outbox :: "(client_id \<times> prompt_msg) list"
  resolved :: "(prompt_id \<times> string option) list"

definition prompt_init :: PromptCtx where
  "prompt_init = \<lparr>promptContexts = [], elevationPromptOwners = [], promptIndex = [], pendingPrompts = [], inFlight = [],
     pc_clients = [], pc_channels = Some [], pc_acqs = acq_init, timers = [], outbox = [], resolved = []\<rparr>"

definition PROMPT_TIMEOUT_MS :: nat where
  "PROMPT_TIMEOUT_MS = 120000"

text \<open>The empty string is falsy: \<open>if (x)\<close> on a string that may be absent.\<close>

definition truthy :: "string option \<Rightarrow> string option" where
  "truthy x = (case x of Some (c # cs) \<Rightarrow> Some (c # cs) | _ \<Rightarrow> None)"

definition deliver :: "(client_id \<Rightarrow> bool) \<Rightarrow> client_id \<Rightarrow> prompt_msg \<Rightarrow> PromptCtx \<Rightarrow> PromptCtx" where
  "deliver send c m s = (if send c then s\<lparr>outbox := outbox s @ [(c, m)]\<rparr> else s)"

definition resolve :: "prompt_id \<Rightarrow> string option \<Rightarrow> PromptCtx \<Rightarrow> PromptCtx" where
  "resolve pid v s = s\<lparr>resolved := resolved s @ [(pid, v)]\<rparr>"

definition put_context :: "context_id \<Rightarrow> PromptContext \<Rightarrow> PromptCtx \<Rightarrow> PromptCtx" where
  "put_context cid c s = s\<lparr>promptContexts := map_set cid c (promptContexts s)\<rparr>"

section \<open>Reconnect contexts\<close>

definition RECONNECT_CONTEXT_PREFIX :: string where
  "RECONNECT_CONTEXT_PREFIX = ''reconnect:''"

definition reconnectContextId :: "session_id \<Rightarrow> context_id" where
  "reconnectContextId sessionId = RECONNECT_CONTEXT_PREFIX @ sessionId"

definition isReconnectContextId :: "context_id \<Rightarrow> bool" where
  "isReconnectContextId contextId = (take (length RECONNECT_CONTEXT_PREFIX) contextId = RECONNECT_CONTEXT_PREFIX)"

definition reconnectSessionId :: "context_id \<Rightarrow> session_id option" where
  "reconnectSessionId contextId =
     (if \<not> isReconnectContextId contextId then None else Some (drop (length RECONNECT_CONTEXT_PREFIX) contextId))"

section \<open>Operations\<close>

definition openContext ::
  "context_id \<Rightarrow> context_kind \<Rightarrow> host_id \<Rightarrow> client_id \<Rightarrow> acq_id option \<Rightarrow> PromptCtx \<Rightarrow> context_id \<times> PromptCtx" where
  "openContext newId k hostId route acqId s =
     (let cid = (case truthy acqId of Some a \<Rightarrow> if k = KSession then a else newId | None \<Rightarrow> newId)
      in (cid, put_context cid \<lparr>kind = k, pc_hostId = hostId, routeClientId = route, pc_state = OPEN, prompts = []\<rparr> s))"

definition clearPrompt :: "prompt_id \<Rightarrow> PromptCtx \<Rightarrow> PromptCtx" where
  "clearPrompt pid s =
     (let s = (case map_get (inFlight s) pid of
                 None \<Rightarrow> s
               | Some p \<Rightarrow> if if_timer p then s\<lparr>timers := map_delete pid (timers s)\<rparr> else s);
          contextId = truthy (map_get (promptIndex s) pid);
          s = s\<lparr>inFlight := map_delete pid (inFlight s), promptIndex := map_delete pid (promptIndex s),
                pendingPrompts := map_delete pid (pendingPrompts s)\<rparr>
      in case Option.bind contextId (\<lambda>cid. map_option (Pair cid) (map_get (promptContexts s) cid)) of
           None \<Rightarrow> s
         | Some (cid, c) \<Rightarrow> put_context cid (c\<lparr>prompts := set_delete pid (prompts c)\<rparr>) s)"

definition clear_one :: "(client_id \<Rightarrow> bool) option \<Rightarrow> client_id \<Rightarrow> PromptCtx \<Rightarrow> prompt_id \<Rightarrow> PromptCtx" where
  "clear_one send route s pid =
     (let known = map_has (inFlight s) pid;
          s = (case send of None \<Rightarrow> s | Some f \<Rightarrow> deliver f route (PROMPT_CANCEL pid) s);
          s = clearPrompt pid s
      in if known then resolve pid None s else s)"

definition clearContext :: "context_id \<Rightarrow> (client_id \<Rightarrow> bool) option \<Rightarrow> PromptCtx \<Rightarrow> PromptCtx" where
  "clearContext contextId send s =
     (case map_get (promptContexts s) contextId of
        None \<Rightarrow> s
      | Some c \<Rightarrow>
          if pc_state c = CLOSED then s
          else let s = put_context contextId (c\<lparr>pc_state := CLOSED\<rparr>) s;
                   s = foldl (clear_one send (routeClientId c)) s (prompts c)
            in s\<lparr>promptContexts := map_delete contextId (promptContexts s),
                 elevationPromptOwners := map_delete contextId (elevationPromptOwners s)\<rparr>)"

definition pickReconnectRouteCandidate :: "PromptCtx \<Rightarrow> host_id \<Rightarrow> session_id \<Rightarrow> client_id option \<Rightarrow> client_id option" where
  "pickReconnectRouteCandidate s hostId sessionId excludeClientId =
     (case pc_channels s of
        None \<Rightarrow> None
      | Some channels \<Rightarrow>
          let candidates = concat (map (\<lambda>(_, ch).
                if ch_hostId ch \<noteq> hostId \<or> ch_sessionId ch \<noteq> sessionId \<or> ch_status ch = ''dead'' then []
                else filter (\<lambda>c. Some c \<noteq> excludeClientId \<and> c \<in> set (pc_clients s)) (ch_clients ch)) channels)
          in case sort (remdups candidates) of [] \<Rightarrow> None | c # _ \<Rightarrow> Some c)"

definition lease_candidates :: "PromptCtx \<Rightarrow> host_id \<Rightarrow> client_id \<Rightarrow> client_id list" where
  "lease_candidates s hostId excludeClientId =
     concat (map (\<lambda>(_, a).
       case map_get (acqs (pc_acqs s)) a of
         None \<Rightarrow> []
       | Some q \<Rightarrow>
           if acq_hostId q \<noteq> hostId then []
           else List.map_filter (\<lambda>l.
             case map_get (lease_store (pc_acqs s)) l of
               None \<Rightarrow> None
             | Some lease \<Rightarrow>
                 if lease_clientId lease = excludeClientId \<or> released lease \<or> lease_clientId lease \<notin> set (pc_clients s)
                 then None else Some (lease_clientId lease)) (leases q))
       (acquisitions (pc_acqs s)))"

definition pickRouteCandidate :: "PromptCtx \<Rightarrow> context_id \<Rightarrow> client_id \<Rightarrow> client_id option" where
  "pickRouteCandidate s contextId excludeClientId =
     (case map_get (promptContexts s) contextId of
        None \<Rightarrow> None
      | Some c \<Rightarrow>
          if kind c \<noteq> KSession then None
          else if isReconnectContextId contextId
          then (case truthy (reconnectSessionId contextId) of
                  None \<Rightarrow> None
                | Some sid \<Rightarrow> pickReconnectRouteCandidate s (pc_hostId c) sid (Some excludeClientId))
          else case sort (lease_candidates s (pc_hostId c) excludeClientId) of [] \<Rightarrow> None | x # _ \<Rightarrow> Some x)"

datatype prompt_timeout = DefaultTimeout | TimeoutMs nat | NoTimeout

definition store_prompt ::
  "context_id \<Rightarrow> PromptContext \<Rightarrow> prompt_type \<Rightarrow> string \<Rightarrow> prompt_timeout \<Rightarrow> prompt_id \<Rightarrow> PromptCtx \<Rightarrow> PromptCtx" where
  "store_prompt contextId c ty payload timeout pid s =
     s\<lparr>promptContexts := map_set contextId (c\<lparr>prompts := set_add pid (prompts c)\<rparr>) (promptContexts s),
       promptIndex := map_set pid contextId (promptIndex s),
       pendingPrompts := map_set pid \<lparr>pp_hostId = pc_hostId c, pp_clientId = routeClientId c, pp_contextId = contextId,
                                      pp_type = ty, pp_deliveryEpoch = 1\<rparr> (pendingPrompts s),
       inFlight := map_set pid \<lparr>if_contextId = contextId, if_type = ty, deliveryEpoch = 1,
                                if_timer = (timeout \<noteq> NoTimeout), resendPayload = payload\<rparr> (inFlight s),
       timers := (case timeout of
                    NoTimeout \<Rightarrow> timers s
                  | DefaultTimeout \<Rightarrow> map_set pid PROMPT_TIMEOUT_MS (timers s)
                  | TimeoutMs ms \<Rightarrow> map_set pid ms (timers s))\<rparr>"

definition prompt ::
  "prompt_id \<Rightarrow> (client_id \<Rightarrow> bool) \<Rightarrow> context_id \<Rightarrow> prompt_type \<Rightarrow> string \<Rightarrow> prompt_timeout \<Rightarrow> PromptCtx
   \<Rightarrow> prompt_id option \<times> PromptCtx" where
  "prompt pid send contextId ty payload timeout s =
     (case map_get (promptContexts s) contextId of
        None \<Rightarrow> (None, s)
      | Some c \<Rightarrow>
          if pc_state c = CLOSED then (None, s)
          else case (if routeClientId c \<in> set (pc_clients s) then Some (routeClientId c)
                     else truthy (pickRouteCandidate s contextId (routeClientId c))) of
              None \<Rightarrow> (None, clearContext contextId (Some send) s)
            | Some route \<Rightarrow>
                let c = c\<lparr>routeClientId := route\<rparr>;
                    s = store_prompt contextId c ty payload timeout pid s
                in (Some pid,
                    if send route then deliver send route (PromptMsg payload pid 1) s
                    else resolve pid None (clearPrompt pid s)))"

definition promptTimeout :: "prompt_id \<Rightarrow> PromptCtx \<Rightarrow> PromptCtx" where
  "promptTimeout pid s = resolve pid None (clearPrompt pid s)"

definition respond :: "prompt_id \<Rightarrow> client_id \<Rightarrow> nat option \<Rightarrow> string \<Rightarrow> PromptCtx \<Rightarrow> bool \<times> PromptCtx" where
  "respond pid clientId epoch v s =
     (case truthy (map_get (promptIndex s) pid) of
        None \<Rightarrow> (False, s)
      | Some contextId \<Rightarrow>
          (case map_get (promptContexts s) contextId of
             None \<Rightarrow> (False, s)
           | Some c \<Rightarrow>
               if pc_state c = CLOSED then (False, s)
               else case map_get (inFlight s) pid of
                   None \<Rightarrow> (False, s)
                 | Some p \<Rightarrow>
                     if clientId \<noteq> routeClientId c then (False, s)
                     else if epoch \<noteq> None \<and> epoch \<noteq> Some (deliveryEpoch p) then (False, s)
                     else (True, resolve pid (Some v) (clearPrompt pid s))))"

definition resend ::
  "(client_id \<Rightarrow> bool) \<Rightarrow> client_id \<Rightarrow> client_id \<Rightarrow> PromptCtx \<Rightarrow> prompt_id \<Rightarrow> PromptCtx" where
  "resend send oldRoute newRoute s pid =
     (case map_get (inFlight s) pid of
        None \<Rightarrow> s
      | Some p \<Rightarrow>
          let e = Suc (deliveryEpoch p);
              s = s\<lparr>inFlight := map_set pid (p\<lparr>deliveryEpoch := e\<rparr>) (inFlight s),
                    pendingPrompts := (case map_get (pendingPrompts s) pid of
                        None \<Rightarrow> pendingPrompts s
                      | Some q \<Rightarrow> map_set pid (q\<lparr>pp_clientId := newRoute, pp_deliveryEpoch := e\<rparr>) (pendingPrompts s))\<rparr>;
              s = (if oldRoute \<noteq> newRoute then deliver send oldRoute (PROMPT_CANCEL pid) s else s)
          in deliver send newRoute (PromptMsg (resendPayload p) pid e) s)"

definition retarget :: "context_id \<Rightarrow> client_id \<Rightarrow> (client_id \<Rightarrow> bool) \<Rightarrow> PromptCtx \<Rightarrow> PromptCtx" where
  "retarget contextId newRoute send s =
     (case map_get (promptContexts s) contextId of
        None \<Rightarrow> s
      | Some c \<Rightarrow>
          if pc_state c = CLOSED \<or> kind c \<noteq> KSession then s
          else foldl (resend send (routeClientId c) newRoute)
                 (put_context contextId (c\<lparr>routeClientId := newRoute\<rparr>) s) (prompts c))"

definition trackElevationContext :: "context_id \<Rightarrow> ElevationPromptOwner \<Rightarrow> PromptCtx \<Rightarrow> PromptCtx" where
  "trackElevationContext contextId owner s =
     s\<lparr>elevationPromptOwners := map_set contextId owner (elevationPromptOwners s)\<rparr>"

definition clearElevationContextsWhere ::
  "(ElevationPromptOwner \<Rightarrow> bool) \<Rightarrow> (client_id \<Rightarrow> bool) option \<Rightarrow> PromptCtx \<Rightarrow> PromptCtx" where
  "clearElevationContextsWhere matches send s =
     foldl (\<lambda>s (contextId, owner).
        if \<not> matches owner then s
        else let s = clearContext contextId send s in
          s\<lparr>elevationPromptOwners := map_delete contextId (elevationPromptOwners s)\<rparr>)
       s (elevationPromptOwners s)"

definition clearElevationContextsForSession :: "session_id \<Rightarrow> (client_id \<Rightarrow> bool) option \<Rightarrow> PromptCtx \<Rightarrow> PromptCtx" where
  "clearElevationContextsForSession sid send = clearElevationContextsWhere (\<lambda>o'. eo_sessionId o' = sid) send"

definition clearElevationContextsForChannel :: "channel_id \<Rightarrow> (client_id \<Rightarrow> bool) option \<Rightarrow> PromptCtx \<Rightarrow> PromptCtx" where
  "clearElevationContextsForChannel ch send = clearElevationContextsWhere (\<lambda>o'. eo_channelId o' = Some ch) send"

definition disconnect_one :: "client_id \<Rightarrow> (client_id \<Rightarrow> bool) \<Rightarrow> PromptCtx \<Rightarrow> context_id \<Rightarrow> PromptCtx" where
  "disconnect_one clientId send s contextId =
     (case map_get (promptContexts s) contextId of
        None \<Rightarrow> s
      | Some c \<Rightarrow>
          if pc_state c = CLOSED \<or> routeClientId c \<noteq> clientId then s
          else if kind c \<noteq> KSession then clearContext contextId (Some send) s
          else case truthy (pickRouteCandidate s contextId clientId) of
              Some candidate \<Rightarrow> retarget contextId candidate send s
            | None \<Rightarrow> clearContext contextId (Some send) s)"

definition clientDisconnect :: "client_id \<Rightarrow> (client_id \<Rightarrow> bool) \<Rightarrow> PromptCtx \<Rightarrow> PromptCtx" where
  "clientDisconnect clientId send s = foldl (disconnect_one clientId send) s (map_keys (promptContexts s))"

text \<open>\<open>removeClient\<close> of the session manager: the prompts move or end first, then the client goes.\<close>

definition removeClient :: "client_id \<Rightarrow> (client_id \<Rightarrow> bool) \<Rightarrow> PromptCtx \<Rightarrow> PromptCtx" where
  "removeClient clientId send s =
     (let s = clientDisconnect clientId send s in s\<lparr>pc_clients := set_delete clientId (pc_clients s)\<rparr>)"

section \<open>What each operation does, by lookups\<close>

lemma truthy_id [simp]: "x \<noteq> [] \<Longrightarrow> truthy (Some x) = Some x" "truthy None = None"
  by (cases x) (simp_all add: truthy_def)

lemma truthy_Some: "truthy y = Some x \<longleftrightarrow> y = Some x \<and> x \<noteq> []"
  by (cases y; cases "the y") (auto simp: truthy_def)

lemma deliver_fields [simp]:
  "promptContexts (deliver f c m s) = promptContexts s" "promptIndex (deliver f c m s) = promptIndex s"
  "pendingPrompts (deliver f c m s) = pendingPrompts s" "inFlight (deliver f c m s) = inFlight s"
  "timers (deliver f c m s) = timers s" "resolved (deliver f c m s) = resolved s"
  "pc_clients (deliver f c m s) = pc_clients s" "pc_channels (deliver f c m s) = pc_channels s"
  "pc_acqs (deliver f c m s) = pc_acqs s" "elevationPromptOwners (deliver f c m s) = elevationPromptOwners s"
  by (simp_all add: deliver_def)

lemma resolve_fields [simp]:
  "promptContexts (resolve p v s) = promptContexts s" "promptIndex (resolve p v s) = promptIndex s"
  "pendingPrompts (resolve p v s) = pendingPrompts s" "inFlight (resolve p v s) = inFlight s"
  "timers (resolve p v s) = timers s" "resolved (resolve p v s) = resolved s @ [(p, v)]" "outbox (resolve p v s) = outbox s"
  "pc_clients (resolve p v s) = pc_clients s" "pc_channels (resolve p v s) = pc_channels s"
  "pc_acqs (resolve p v s) = pc_acqs s" "elevationPromptOwners (resolve p v s) = elevationPromptOwners s"
  by (simp_all add: resolve_def)

lemma put_context_fields [simp]:
  "promptContexts (put_context k c s) = map_set k c (promptContexts s)" "promptIndex (put_context k c s) = promptIndex s"
  "pendingPrompts (put_context k c s) = pendingPrompts s" "inFlight (put_context k c s) = inFlight s"
  "timers (put_context k c s) = timers s" "resolved (put_context k c s) = resolved s" "outbox (put_context k c s) = outbox s"
  "pc_clients (put_context k c s) = pc_clients s" "pc_channels (put_context k c s) = pc_channels s"
  "pc_acqs (put_context k c s) = pc_acqs s" "elevationPromptOwners (put_context k c s) = elevationPromptOwners s"
  by (simp_all add: put_context_def)

lemma clearPrompt_frame [simp]:
  "resolved (clearPrompt p s) = resolved s" "outbox (clearPrompt p s) = outbox s" "pc_clients (clearPrompt p s) = pc_clients s"
  "pc_channels (clearPrompt p s) = pc_channels s" "pc_acqs (clearPrompt p s) = pc_acqs s"
  "elevationPromptOwners (clearPrompt p s) = elevationPromptOwners s"
  "map_get (inFlight (clearPrompt p s)) k = (if k = p then None else map_get (inFlight s) k)"
  "map_get (promptIndex (clearPrompt p s)) k = (if k = p then None else map_get (promptIndex s) k)"
  "map_get (pendingPrompts (clearPrompt p s)) k = (if k = p then None else map_get (pendingPrompts s) k)"
  by (auto simp: clearPrompt_def Let_def split: option.split)

text \<open>A timer is armed for exactly the prompts in flight that have one.\<close>

definition timers_ok :: "PromptCtx \<Rightarrow> bool" where
  "timers_ok s \<longleftrightarrow>
     (\<forall>pid. (map_get (timers s) pid \<noteq> None) = (case map_get (inFlight s) pid of None \<Rightarrow> False | Some p \<Rightarrow> if_timer p))"

lemma timers_okD:
  "timers_ok s \<Longrightarrow> (case map_get (inFlight s) pid of None \<Rightarrow> True | Some p \<Rightarrow> \<not> if_timer p) \<Longrightarrow> map_get (timers s) pid = None"
  unfolding timers_ok_def by (erule allE [of _ pid]) (auto split: option.splits)

lemma clearPrompt_timers:
  "timers_ok s \<Longrightarrow> map_get (timers (clearPrompt p s)) k = (if k = p then None else map_get (timers s) k)"
  using timers_okD [of s p] by (auto simp: clearPrompt_def Let_def split: option.split)

lemma timers_ok_without:
  assumes "timers_ok s" "\<And>k. map_get (timers s') k = (if k = p then None else map_get (timers s) k)"
    and "\<And>k. map_get (inFlight s') k = (if k = p then None else map_get (inFlight s) k)"
  shows "timers_ok s'"
  using assms(1) by (simp add: timers_ok_def assms(2,3))

lemma clearPrompt_contexts:
  "map_get (promptIndex s) p = Some cid \<Longrightarrow> cid \<noteq> [] \<Longrightarrow>
   map_get (promptContexts (clearPrompt p s)) k =
     (if k = cid then map_option (prompts_update (set_delete p)) (map_get (promptContexts s) cid) else map_get (promptContexts s) k)"
  by (auto simp: clearPrompt_def Let_def split: option.split)

text \<open>\<open>s'\<close> is \<open>s\<close> with the prompts \<open>ps\<close> of the context \<open>cid\<close> resolved to null and gone from every map.\<close>

definition cleared :: "prompt_id list \<Rightarrow> context_id \<Rightarrow> PromptCtx \<Rightarrow> PromptCtx \<Rightarrow> bool" where
  "cleared ps cid s s' \<longleftrightarrow>
     (\<forall>k. map_get (inFlight s') k = (if k \<in> set ps then None else map_get (inFlight s) k)
        \<and> map_get (promptIndex s') k = (if k \<in> set ps then None else map_get (promptIndex s) k)
        \<and> map_get (pendingPrompts s') k = (if k \<in> set ps then None else map_get (pendingPrompts s) k)
        \<and> map_get (timers s') k = (if k \<in> set ps then None else map_get (timers s) k)
        \<and> (k \<noteq> cid \<longrightarrow> map_get (promptContexts s') k = map_get (promptContexts s) k))
     \<and> resolved s' = resolved s @ map (\<lambda>p. (p, None)) ps \<and> pc_clients s' = pc_clients s \<and> pc_acqs s' = pc_acqs s
     \<and> pc_channels s' = pc_channels s \<and> timers_ok s'"

lemma cleared_Nil: "timers_ok s \<Longrightarrow> cleared [] cid s s"
  by (simp add: cleared_def)

lemma cleared_Cons:
  "cleared [p] cid s s' \<Longrightarrow> cleared ps cid s' s'' \<Longrightarrow> cleared (p # ps) cid s s''"
  by (auto simp: cleared_def)

lemma cleared_one:
  assumes "timers_ok s" "map_get (promptIndex s) pid = Some cid" "cid \<noteq> []" "map_has (inFlight s) pid"
  shows "cleared [pid] cid s (clear_one send route s pid)"
proof -
  have "timers_ok (deliver f route (PROMPT_CANCEL pid) s)" for f using assms(1) by (simp add: timers_ok_def)
  then have t: "map_get (timers (clear_one send route s pid)) k = (if k = pid then None else map_get (timers s) k)" for k
    using assms(1) by (auto simp: clear_one_def Let_def clearPrompt_timers split: option.split)
  have i: "map_get (inFlight (clear_one send route s pid)) k = (if k = pid then None else map_get (inFlight s) k)" for k
    by (auto simp: clear_one_def Let_def split: option.split)
  from timers_ok_without [OF assms(1) t i] t i assms show ?thesis
    by (auto simp: cleared_def clear_one_def Let_def clearPrompt_contexts split: option.split)
qed

lemma cleared_fold:
  assumes "timers_ok s" "distinct ps" "cid \<noteq> []"
    and "\<forall>p \<in> set ps. map_get (promptIndex s) p = Some cid \<and> map_has (inFlight s) p"
  shows "cleared ps cid s (foldl (clear_one send route) s ps)"
  using assms
proof (induction ps arbitrary: s)
  case (Cons p ps)
  have one: "cleared [p] cid s (clear_one send route s p)" using Cons.prems by (intro cleared_one) auto
  then have "\<forall>q \<in> set ps. map_get (promptIndex (clear_one send route s p)) q = Some cid
      \<and> map_has (inFlight (clear_one send route s p)) q"
    using Cons.prems by (auto simp: cleared_def map_has_def)
  with Cons one have "cleared ps cid (clear_one send route s p) (foldl (clear_one send route) (clear_one send route s p) ps)"
    by (auto simp: cleared_def)
  from cleared_Cons [OF one this] show ?case by simp
qed (simp add: cleared_Nil)

section \<open>The invariant\<close>

text \<open>A context in the map is open, and while it has questions open its route is a client that is there.\<close>

definition context_ok :: "PromptCtx \<Rightarrow> context_id \<Rightarrow> PromptContext \<Rightarrow> bool" where
  "context_ok s cid c \<longleftrightarrow>
     cid \<noteq> [] \<and> pc_state c = OPEN \<and> distinct (prompts c)
     \<and> (\<forall>pid \<in> set (prompts c). map_get (promptIndex s) pid = Some cid)
     \<and> (prompts c \<noteq> [] \<longrightarrow> routeClientId c \<in> set (pc_clients s))"

text \<open>A prompt the index knows is in flight, owned by its context, pending at the route under the current epoch, and unanswered.\<close>

definition prompt_ok :: "PromptCtx \<Rightarrow> prompt_id \<Rightarrow> context_id \<Rightarrow> bool" where
  "prompt_ok s pid cid \<longleftrightarrow>
     (\<exists>c p q. map_get (promptContexts s) cid = Some c \<and> pid \<in> set (prompts c)
        \<and> map_get (inFlight s) pid = Some p \<and> map_get (pendingPrompts s) pid = Some q
        \<and> pp_clientId q = routeClientId c \<and> pp_deliveryEpoch q = deliveryEpoch p \<and> pp_contextId q = cid)
     \<and> pid \<notin> fst ` set (resolved s)"

definition prompt_inv :: "PromptCtx \<Rightarrow> bool" where
  "prompt_inv s \<longleftrightarrow>
     (\<forall>cid c. map_get (promptContexts s) cid = Some c \<longrightarrow> context_ok s cid c)
     \<and> (\<forall>pid cid. map_get (promptIndex s) pid = Some cid \<longrightarrow> prompt_ok s pid cid)
     \<and> (\<forall>pid. map_has (inFlight s) pid \<longrightarrow> map_has (promptIndex s) pid)
     \<and> (\<forall>pid. map_has (pendingPrompts s) pid \<longrightarrow> map_has (promptIndex s) pid)
     \<and> timers_ok s \<and> distinct (map fst (resolved s))"

lemma prompt_inv_contextD: "prompt_inv s \<Longrightarrow> map_get (promptContexts s) cid = Some c \<Longrightarrow> context_ok s cid c"
  by (simp add: prompt_inv_def)

lemma prompt_inv_promptD: "prompt_inv s \<Longrightarrow> map_get (promptIndex s) pid = Some cid \<Longrightarrow> prompt_ok s pid cid"
  by (simp add: prompt_inv_def)

lemma prompt_inv_same:
  assumes "prompt_inv s"
  shows "map_has (pendingPrompts s) pid = map_has (inFlight s) pid \<and> map_has (promptIndex s) pid = map_has (inFlight s) pid"
proof (cases "map_get (promptIndex s) pid")
  case None
  with assms have "\<not> map_has (pendingPrompts s) pid" "\<not> map_has (inFlight s) pid" by (auto simp: prompt_inv_def map_has_def)
  with None show ?thesis by (simp add: map_has_def)
next
  case (Some cid)
  with prompt_inv_promptD [OF assms Some] show ?thesis by (auto simp: prompt_ok_def map_has_def)
qed

text \<open>Closing a context: its prompts are cleared, and it is gone.\<close>

lemma clearContext_view:
  assumes "prompt_inv s" "map_get (promptContexts s) cid = Some c"
  shows "\<exists>s'. cleared (prompts c) cid s s' \<and> promptContexts (clearContext cid send s) = map_delete cid (promptContexts s')
      \<and> inFlight (clearContext cid send s) = inFlight s' \<and> promptIndex (clearContext cid send s) = promptIndex s'
      \<and> pendingPrompts (clearContext cid send s) = pendingPrompts s' \<and> timers (clearContext cid send s) = timers s'
      \<and> resolved (clearContext cid send s) = resolved s' \<and> pc_clients (clearContext cid send s) = pc_clients s'
      \<and> pc_acqs (clearContext cid send s) = pc_acqs s' \<and> pc_channels (clearContext cid send s) = pc_channels s'"
proof -
  have ok: "context_ok s cid c" by (rule prompt_inv_contextD [OF assms])
  let ?s0 = "put_context cid (c\<lparr>pc_state := CLOSED\<rparr>) s"
  let ?s1 = "foldl (clear_one send (routeClientId c)) ?s0 (prompts c)"
  have "timers_ok ?s0" using assms(1) by (simp add: prompt_inv_def timers_ok_def)
  moreover have "\<forall>p \<in> set (prompts c). map_get (promptIndex ?s0) p = Some cid \<and> map_has (inFlight ?s0) p"
    using ok prompt_inv_promptD [OF assms(1)] by (force simp: context_ok_def prompt_ok_def map_has_def)
  ultimately have "cleared (prompts c) cid ?s0 ?s1"
    using ok by (intro cleared_fold) (auto simp: context_ok_def)
  then have "cleared (prompts c) cid s ?s1" by (auto simp: cleared_def)
  with assms(2) ok show ?thesis by (intro exI [of _ ?s1]) (simp add: clearContext_def context_ok_def Let_def)
qed

text \<open>
  The one argument behind every end of a prompt: some prompts of one context leave all the maps
  and are resolved, and the context either keeps the others or goes with all of them.
\<close>

lemma prompt_inv_without:
  assumes inv: "prompt_inv s" and c: "map_get (promptContexts s) cid = Some c" and ps: "set ps \<subseteq> set (prompts c)" "distinct ps"
    and maps: "\<And>k. map_get (inFlight s') k = (if k \<in> set ps then None else map_get (inFlight s) k)"
      "\<And>k. map_get (promptIndex s') k = (if k \<in> set ps then None else map_get (promptIndex s) k)"
      "\<And>k. map_get (pendingPrompts s') k = (if k \<in> set ps then None else map_get (pendingPrompts s) k)"
      "\<And>k. map_get (timers s') k = (if k \<in> set ps then None else map_get (timers s) k)"
      "\<And>k. k \<noteq> cid \<Longrightarrow> map_get (promptContexts s') k = map_get (promptContexts s) k"
    and c': "map_get (promptContexts s') cid = (if gone then None else Some (c\<lparr>prompts := filter (\<lambda>p. p \<notin> set ps) (prompts c)\<rparr>))"
    and gone: "gone \<Longrightarrow> set ps = set (prompts c)"
    and res: "resolved s' = resolved s @ rs" "map fst rs = ps" and cl: "pc_clients s' = pc_clients s"
  shows "prompt_inv s'"
proof -
  have ok: "context_ok s cid c" by (rule prompt_inv_contextD [OF inv c])
  have idx: "map_get (promptIndex s) p = Some cid" if "p \<in> set ps" for p
    using ok ps that by (auto simp: context_ok_def)
  have new: "ps = [] \<or> set ps \<inter> fst ` set (resolved s) = {}"
    using prompt_inv_promptD [OF inv idx] by (auto simp: prompt_ok_def)
  have "context_ok s' k c1" if "map_get (promptContexts s') k = Some c1" for k c1
  proof (cases "k = cid")
    case True
    with that ok c' show ?thesis by (auto simp: context_ok_def maps cl split: if_splits)
  next
    case False
    with that have k: "context_ok s k c1" using maps(5) prompt_inv_contextD [OF inv] by auto
    with False idx show ?thesis by (force simp: context_ok_def maps cl)
  qed
  moreover have "prompt_ok s' pid k" if "map_get (promptIndex s') pid = Some k" for pid k
  proof -
    have p: "pid \<notin> set ps" "prompt_ok s pid k" using that prompt_inv_promptD [OF inv] by (auto simp: maps split: if_splits)
    show ?thesis
    proof (cases "k = cid")
      case True
      then have "\<not> gone" using p gone c by (auto simp: prompt_ok_def)
      moreover have "fst ` set rs = set ps" using res(2) by (metis set_map)
      ultimately show ?thesis using True p c c' by (auto simp: prompt_ok_def maps(1-4) res(1) image_Un)
    next
      case False
      moreover have "fst ` set rs = set ps" using res(2) by (metis set_map)
      ultimately show ?thesis using p by (auto simp: prompt_ok_def maps res(1) image_Un)
    qed
  qed
  moreover have "map_has (promptIndex s') pid" if "map_has (inFlight s') pid \<or> map_has (pendingPrompts s') pid" for pid
    using that inv by (auto simp: prompt_inv_def map_has_def maps split: if_splits)
  moreover have "timers_ok s'" using inv by (simp add: prompt_inv_def timers_ok_def maps)
  moreover have "distinct (map fst (resolved s'))"
    using inv new ps(2) by (auto simp: prompt_inv_def res)
  ultimately show ?thesis by (simp add: prompt_inv_def)
qed

lemma prompt_inv_clearContext:
  assumes "prompt_inv s"
  shows "prompt_inv (clearContext cid send s)"
proof (cases "map_get (promptContexts s) cid")
  case (Some c)
  have ok: "context_ok s cid c" by (rule prompt_inv_contextD [OF assms Some])
  obtain s' where "cleared (prompts c) cid s s'" and
    "promptContexts (clearContext cid send s) = map_delete cid (promptContexts s')"
    "inFlight (clearContext cid send s) = inFlight s'" "promptIndex (clearContext cid send s) = promptIndex s'"
    "pendingPrompts (clearContext cid send s) = pendingPrompts s'" "timers (clearContext cid send s) = timers s'"
    "resolved (clearContext cid send s) = resolved s'" "pc_clients (clearContext cid send s) = pc_clients s'"
    using clearContext_view [OF assms Some, of send] by blast
  then show ?thesis
    by (intro prompt_inv_without [OF assms Some, of "prompts c" _ True "map (\<lambda>p. (p, None)) (prompts c)"])
      (use ok in \<open>auto simp: cleared_def context_ok_def comp_def\<close>)
qed (simp add: clearContext_def assms)

lemma prompt_inv_end:
  assumes "prompt_inv s" "map_get (promptIndex s) pid = Some cid"
  shows "prompt_inv (resolve pid v (clearPrompt pid s))"
proof -
  from prompt_inv_promptD [OF assms] obtain c where c: "map_get (promptContexts s) cid = Some c" "pid \<in> set (prompts c)"
    by (auto simp: prompt_ok_def)
  have "cid \<noteq> []" using prompt_inv_contextD [OF assms(1) c(1)] by (simp add: context_ok_def)
  note ctx = clearPrompt_contexts [OF assms(2) this]
  have "timers_ok s" using assms(1) by (simp add: prompt_inv_def)
  note t = clearPrompt_timers [OF this]
  show ?thesis
    by (rule prompt_inv_without [OF assms(1) c(1), of "[pid]" _ False "[(pid, v)]"])
      (use c in \<open>auto simp: ctx t set_delete_def\<close>)
qed

lemma lease_candidates_in: "x \<in> set (lease_candidates s h out) \<Longrightarrow> x \<in> set (pc_clients s) \<and> x \<noteq> out"
  by (auto simp: lease_candidates_def in_map_filter split: option.splits if_splits)

lemma first_sorted: "(case sort xs of [] \<Rightarrow> None | c # _ \<Rightarrow> Some c) = Some x \<Longrightarrow> x \<in> set xs"
  by (cases "sort xs") (auto, metis list.set_intros(1) set_sort)

lemma pickReconnect_in: "pickReconnectRouteCandidate s h sid (Some out) = Some x \<Longrightarrow> x \<in> set (pc_clients s) \<and> x \<noteq> out"
  by (auto simp: pickReconnectRouteCandidate_def Let_def split: option.splits if_splits dest!: first_sorted)

lemma pick_in_clients:
  assumes "truthy (pickRouteCandidate s cid out) = Some x"
  shows "x \<in> set (pc_clients s) \<and> x \<noteq> out"
  using assms
  by (auto simp: truthy_Some pickRouteCandidate_def split: option.splits if_splits
      dest!: first_sorted dest: lease_candidates_in pickReconnect_in)

lemma prompt_inv_openContext:
  assumes "prompt_inv s" "fst (openContext n k h r a s) \<noteq> []" "\<not> map_has (promptContexts s) (fst (openContext n k h r a s))"
  shows "prompt_inv (snd (openContext n k h r a s))"
proof -
  let ?cid = "fst (openContext n k h r a s)"
  let ?c = "\<lparr>kind = k, pc_hostId = h, routeClientId = r, pc_state = OPEN, prompts = []\<rparr>"
  have s': "snd (openContext n k h r a s) = put_context ?cid ?c s" by (simp add: openContext_def Let_def)
  have "prompt_ok (put_context ?cid ?c s) pid cid" if "prompt_ok s pid cid" for pid cid
    using that assms(3) by (auto simp: prompt_ok_def map_has_def)
  then show ?thesis
    using assms(1,2) unfolding s' by (auto simp: prompt_inv_def context_ok_def timers_ok_def)
qed

lemma prompt_inv_store:
  assumes "prompt_inv s" "map_get (promptContexts s) cid = Some c" "pid \<notin> fst ` set (resolved s)" "\<not> map_has (promptIndex s) pid"
    and route: "route \<in> set (pc_clients s)" "prompts c = [] \<or> route = routeClientId c"
  shows "prompt_inv (store_prompt cid (c\<lparr>routeClientId := route\<rparr>) ty pl tm pid s)"
proof -
  let ?s = "store_prompt cid (c\<lparr>routeClientId := route\<rparr>) ty pl tm pid s"
  have ok: "context_ok s cid c" by (rule prompt_inv_contextD [OF assms(1,2)])
  have gone: "map_get (inFlight s) pid = None" using assms(1,4) by (auto simp: prompt_inv_def map_has_def)
  have "timers_ok s" using assms(1) by (simp add: prompt_inv_def)
  then have "timers_ok ?s" using gone by (auto simp: timers_ok_def store_prompt_def split: prompt_timeout.split)
  moreover have "context_ok ?s k c1" if "map_get (promptContexts ?s) k = Some c1" for k c1
  proof (cases "k = cid")
    case True
    with that ok route assms(4) show ?thesis by (auto simp: store_prompt_def context_ok_def map_has_def)
  next
    case False
    with that have "context_ok s k c1" using prompt_inv_contextD [OF assms(1)] by (auto simp: store_prompt_def)
    with False assms(4) show ?thesis by (auto simp: store_prompt_def context_ok_def map_has_def)
  qed
  moreover have "prompt_ok ?s p k" if "map_get (promptIndex ?s) p = Some k" for p k
  proof (cases "p = pid")
    case True
    with that assms(3) show ?thesis by (auto simp: store_prompt_def prompt_ok_def)
  next
    case False
    with that have "prompt_ok s p k" using prompt_inv_promptD [OF assms(1)] by (auto simp: store_prompt_def)
    with False assms(2) route(2) show ?thesis by (auto simp: store_prompt_def prompt_ok_def)
  qed
  moreover have "map_has (promptIndex ?s) p" if "map_has (inFlight ?s) p \<or> map_has (pendingPrompts ?s) p" for p
    using that assms(1) by (auto simp: store_prompt_def prompt_inv_def)
  ultimately show ?thesis using assms(1) by (simp add: prompt_inv_def store_prompt_def)
qed

lemma prompt_inv_deliver [simp]: "prompt_inv (deliver f c m s) = prompt_inv s"
  by (simp add: prompt_inv_def context_ok_def prompt_ok_def timers_ok_def)

lemma prompt_inv_prompt:
  assumes "prompt_inv s" "pid \<notin> fst ` set (resolved s)" "\<not> map_has (promptIndex s) pid"
  shows "prompt_inv (snd (prompt pid send cid ty pl tm s))"
proof (cases "map_get (promptContexts s) cid")
  case (Some c)
  have ok: "context_ok s cid c" by (rule prompt_inv_contextD [OF assms(1) Some])
  define next_route where "next_route = (if routeClientId c \<in> set (pc_clients s) then Some (routeClientId c)
      else truthy (pickRouteCandidate s cid (routeClientId c)))"
  show ?thesis
  proof (cases next_route)
    case None
    with Some ok show ?thesis
      using prompt_inv_clearContext [OF assms(1)] by (simp add: prompt_def next_route_def [symmetric] context_ok_def)
  next
    case (Some route)
    let ?s = "store_prompt cid (c\<lparr>routeClientId := route\<rparr>) ty pl tm pid s"
    have r: "route \<in> set (pc_clients s)" "prompts c = [] \<or> route = routeClientId c"
      using Some ok by (auto simp: next_route_def context_ok_def split: if_splits dest: pick_in_clients)
    have inv: "prompt_inv ?s" by (rule prompt_inv_store [OF assms(1) \<open>map_get _ _ = Some c\<close> assms(2,3) r])
    have "map_get (promptIndex ?s) pid = Some cid" by (simp add: store_prompt_def)
    from prompt_inv_end [OF inv this] inv Some ok \<open>map_get (promptContexts s) cid = Some c\<close> show ?thesis
      by (simp add: prompt_def next_route_def [symmetric] Let_def context_ok_def)
  qed
qed (use assms in \<open>simp add: prompt_def\<close>)

definition resent :: "prompt_id list \<Rightarrow> client_id \<Rightarrow> PromptCtx \<Rightarrow> PromptCtx \<Rightarrow> bool" where
  "resent ps newRoute s s' \<longleftrightarrow>
     (\<forall>k. map_get (inFlight s') k =
            (if k \<in> set ps then map_option (deliveryEpoch_update Suc) (map_get (inFlight s) k) else map_get (inFlight s) k)
        \<and> map_get (pendingPrompts s') k =
            (if k \<in> set ps
             then map_option (\<lambda>q. q\<lparr>pp_clientId := newRoute,
                                   pp_deliveryEpoch := Suc (deliveryEpoch (the (map_get (inFlight s) k)))\<rparr>) (map_get (pendingPrompts s) k)
             else map_get (pendingPrompts s) k))
     \<and> promptContexts s' = promptContexts s \<and> promptIndex s' = promptIndex s \<and> timers s' = timers s
     \<and> resolved s' = resolved s \<and> pc_clients s' = pc_clients s \<and> pc_acqs s' = pc_acqs s \<and> pc_channels s' = pc_channels s"

lemma resent_one: "map_has (inFlight s) pid \<Longrightarrow> resent [pid] newRoute s (resend send old newRoute s pid)"
  by (auto simp: resent_def resend_def Let_def map_has_def split: option.split)

lemma resent_fold:
  assumes "distinct ps" "\<forall>p \<in> set ps. map_has (inFlight s) p"
  shows "resent ps newRoute s (foldl (resend send old newRoute) s ps)"
  using assms
proof (induction ps arbitrary: s)
  case (Cons p ps)
  have one: "resent [p] newRoute s (resend send old newRoute s p)" using Cons.prems by (intro resent_one) simp
  then have "\<forall>q \<in> set ps. map_has (inFlight (resend send old newRoute s p)) q"
    using Cons.prems by (auto simp: resent_def map_has_def)
  then have "resent ps newRoute (resend send old newRoute s p) (foldl (resend send old newRoute) (resend send old newRoute s p) ps)"
    using Cons by simp
  with one Cons.prems show ?case by (auto simp: resent_def)
qed (simp add: resent_def)

lemma retarget_view:
  assumes "prompt_inv s" "map_get (promptContexts s) cid = Some c" "kind c = KSession"
  shows "\<exists>s0. resent (prompts c) route s0 (retarget cid route send s) \<and> s0 = put_context cid (c\<lparr>routeClientId := route\<rparr>) s"
proof -
  have ok: "context_ok s cid c" by (rule prompt_inv_contextD [OF assms(1,2)])
  have "\<forall>p \<in> set (prompts c). map_has (inFlight s) p"
    using ok prompt_inv_promptD [OF assms(1)] by (force simp: context_ok_def prompt_ok_def map_has_def)
  then show ?thesis
    using resent_fold [of "prompts c" "put_context cid (c\<lparr>routeClientId := route\<rparr>) s" route send "routeClientId c"] assms ok
    by (auto simp: retarget_def context_ok_def)
qed

lemma prompt_inv_retarget:
  assumes "prompt_inv s" "route \<in> set (pc_clients s)"
  shows "prompt_inv (retarget cid route send s)"
proof (cases "\<exists>c. map_get (promptContexts s) cid = Some c \<and> kind c = KSession")
  case True
  then obtain c where c: "map_get (promptContexts s) cid = Some c" "kind c = KSession" by blast
  let ?s = "retarget cid route send s"
  from retarget_view [OF assms(1) c, of route send]
  have r: "resent (prompts c) route (put_context cid (c\<lparr>routeClientId := route\<rparr>) s) ?s" by blast
  have ok: "context_ok s cid c" by (rule prompt_inv_contextD [OF assms(1) c(1)])
  have same: "promptIndex ?s = promptIndex s" "timers ?s = timers s" "resolved ?s = resolved s" "pc_clients ?s = pc_clients s"
    "promptContexts ?s = map_set cid (c\<lparr>routeClientId := route\<rparr>) (promptContexts s)"
    using r by (simp_all add: resent_def)
  have ctx: "context_ok ?s k c1" if "map_get (promptContexts ?s) k = Some c1" for k c1
    using that ok assms(2) prompt_inv_contextD [OF assms(1)]
    by (auto simp: same context_ok_def split: if_splits)
  have p: "prompt_ok ?s pid k" if "map_get (promptIndex ?s) pid = Some k" for pid k
  proof -
    have k: "prompt_ok s pid k" using that prompt_inv_promptD [OF assms(1)] by (simp add: same)
    have "pid \<in> set (prompts c) \<longleftrightarrow> k = cid"
      using ok k c(1) that by (auto simp: context_ok_def prompt_ok_def same)
    with k r c(1) show ?thesis by (auto simp: prompt_ok_def resent_def)
  qed
  have "timers_ok s" using assms(1) by (simp add: prompt_inv_def)
  then have "timers_ok ?s"
    using r unfolding timers_ok_def resent_def by (auto split: option.split)
  moreover have "map_has (inFlight ?s) pid = map_has (inFlight s) pid" "map_has (pendingPrompts ?s) pid = map_has (pendingPrompts s) pid"
    for pid using r by (auto simp: resent_def map_has_def)
  ultimately show ?thesis using assms(1) ctx p by (simp add: prompt_inv_def same)
qed (use assms in \<open>auto simp: retarget_def split: option.split\<close>)

lemma clearContext_contexts:
  assumes "prompt_inv s"
  shows "map_get (promptContexts (clearContext cid send s)) k = (if k = cid then None else map_get (promptContexts s) k)"
    and "pc_clients (clearContext cid send s) = pc_clients s"
proof -
  have "map_get (promptContexts (clearContext cid send s)) k = (if k = cid then None else map_get (promptContexts s) k)
      \<and> pc_clients (clearContext cid send s) = pc_clients s"
  proof (cases "map_get (promptContexts s) cid")
    case (Some c)
    from clearContext_view [OF assms Some, of send] show ?thesis by (auto simp: cleared_def)
  qed (simp add: clearContext_def)
  then show "map_get (promptContexts (clearContext cid send s)) k = (if k = cid then None else map_get (promptContexts s) k)"
    and "pc_clients (clearContext cid send s) = pc_clients s" by blast+
qed

lemma retarget_contexts:
  assumes "prompt_inv s" "map_get (promptContexts s) cid = Some c" "kind c = KSession"
  shows "map_get (promptContexts (retarget cid route send s)) k =
           (if k = cid then Some (c\<lparr>routeClientId := route\<rparr>) else map_get (promptContexts s) k)"
    and "pc_clients (retarget cid route send s) = pc_clients s"
  using retarget_view [OF assms, of route send] by (auto simp: resent_def)

lemma disconnect_one_inv:
  assumes "prompt_inv s"
  shows "prompt_inv (disconnect_one cl send s cid)"
    and "k \<noteq> cid \<Longrightarrow> map_get (promptContexts (disconnect_one cl send s cid)) k = map_get (promptContexts s) k"
    and "map_get (promptContexts (disconnect_one cl send s cid)) cid = Some c \<Longrightarrow> routeClientId c \<noteq> cl"
    and "pc_clients (disconnect_one cl send s cid) = pc_clients s"
proof -
  have "prompt_inv (disconnect_one cl send s cid)
      \<and> (k \<noteq> cid \<longrightarrow> map_get (promptContexts (disconnect_one cl send s cid)) k = map_get (promptContexts s) k)
      \<and> (map_get (promptContexts (disconnect_one cl send s cid)) cid = Some c \<longrightarrow> routeClientId c \<noteq> cl)
      \<and> pc_clients (disconnect_one cl send s cid) = pc_clients s"
  proof (cases "map_get (promptContexts s) cid")
    case (Some c0)
    have ok: "pc_state c0 = OPEN" using prompt_inv_contextD [OF assms Some] by (simp add: context_ok_def)
    consider "routeClientId c0 \<noteq> cl" | "routeClientId c0 = cl" "kind c0 \<noteq> KSession \<or> truthy (pickRouteCandidate s cid cl) = None"
      | x where "routeClientId c0 = cl" "kind c0 = KSession" "truthy (pickRouteCandidate s cid cl) = Some x" by fastforce
    then show ?thesis
    proof cases
      case 1
      with Some assms show ?thesis by (auto simp: disconnect_one_def)
    next
      case 2
      with Some ok have "disconnect_one cl send s cid = clearContext cid (Some send) s"
        by (auto simp: disconnect_one_def)
      then show ?thesis using prompt_inv_clearContext [OF assms] clearContext_contexts [OF assms] by simp
    next
      case 3
      with Some ok have eq: "disconnect_one cl send s cid = retarget cid x send s" by (simp add: disconnect_one_def)
      from pick_in_clients [OF 3(3)] prompt_inv_retarget [OF assms] retarget_contexts [OF assms Some 3(2)]
      show ?thesis unfolding eq by auto
    qed
  qed (simp add: disconnect_one_def assms)
  then show "prompt_inv (disconnect_one cl send s cid)"
    and "k \<noteq> cid \<Longrightarrow> map_get (promptContexts (disconnect_one cl send s cid)) k = map_get (promptContexts s) k"
    and "map_get (promptContexts (disconnect_one cl send s cid)) cid = Some c \<Longrightarrow> routeClientId c \<noteq> cl"
    and "pc_clients (disconnect_one cl send s cid) = pc_clients s" by blast+
qed

lemma disconnect_fold:
  assumes "prompt_inv s" "\<forall>k c. map_get (promptContexts s) k = Some c \<longrightarrow> routeClientId c = cl \<longrightarrow> k \<in> set ks"
  shows "prompt_inv (foldl (disconnect_one cl send) s ks)
      \<and> (\<forall>k c. map_get (promptContexts (foldl (disconnect_one cl send) s ks)) k = Some c \<longrightarrow> routeClientId c \<noteq> cl)
      \<and> pc_clients (foldl (disconnect_one cl send) s ks) = pc_clients s"
  using assms
proof (induction ks arbitrary: s)
  case (Cons x ks)
  note d = disconnect_one_inv [OF Cons.prems(1), where cl = cl and send = send and cid = x]
  have "k \<in> set ks" if "map_get (promptContexts (disconnect_one cl send s x)) k = Some c" "routeClientId c = cl" for k c
    using that d(2) [where k = k] d(3) [where c = c] Cons.prems(2) by (cases "k = x") auto
  with Cons.IH [OF d(1)] d(4) show ?case by simp
qed simp

lemma prompt_inv_clients:
  assumes "prompt_inv s" "\<And>k c. map_get (promptContexts s) k = Some c \<Longrightarrow> routeClientId c \<in> set (pc_clients s) \<Longrightarrow> routeClientId c \<in> set cs"
  shows "prompt_inv (s\<lparr>pc_clients := cs\<rparr>)"
  using assms by (auto simp: prompt_inv_def context_ok_def prompt_ok_def timers_ok_def)

lemma removeClient_inv:
  assumes "prompt_inv s"
  shows "prompt_inv (removeClient cl send s)"
    and "map_get (promptContexts (removeClient cl send s)) k = Some c \<Longrightarrow> routeClientId c \<noteq> cl"
proof -
  have "k \<in> set (map_keys (promptContexts s))" if "map_get (promptContexts s) k = Some c" for k c
    using that by (simp add: set_map_keys map_has_def)
  with disconnect_fold [OF assms, of cl "map_keys (promptContexts s)" send]
  have d: "prompt_inv (clientDisconnect cl send s)"
    "\<And>k c. map_get (promptContexts (clientDisconnect cl send s)) k = Some c \<Longrightarrow> routeClientId c \<noteq> cl"
    by (auto simp: clientDisconnect_def)
  then show "prompt_inv (removeClient cl send s)"
    by (auto simp: removeClient_def Let_def intro!: prompt_inv_clients)
  show "map_get (promptContexts (removeClient cl send s)) k = Some c \<Longrightarrow> routeClientId c \<noteq> cl"
    using d(2) by (simp add: removeClient_def Let_def)
qed

lemma prompt_inv_env [simp]:
  "prompt_inv (s\<lparr>elevationPromptOwners := x\<rparr>) = prompt_inv s" "prompt_inv (s\<lparr>pc_acqs := y\<rparr>) = prompt_inv s"
  "prompt_inv (s\<lparr>pc_channels := z\<rparr>) = prompt_inv s"
  by (simp_all add: prompt_inv_def context_ok_def prompt_ok_def timers_ok_def)

lemma prompt_inv_elevation: "prompt_inv s \<Longrightarrow> prompt_inv (clearElevationContextsWhere m send s)"
  unfolding clearElevationContextsWhere_def
  by (rule foldl_inv) (auto simp: Let_def prompt_inv_clearContext)

lemma prompt_inv_respond: "prompt_inv s \<Longrightarrow> prompt_inv (snd (respond pid cl e v s))"
  by (auto simp: respond_def truthy_Some intro: prompt_inv_end split: option.split)

lemma prompt_inv_timeout:
  assumes "prompt_inv s" "map_has (timers s) pid"
  shows "prompt_inv (promptTimeout pid s)"
proof -
  have "timers_ok s" using assms(1) by (simp add: prompt_inv_def)
  from timers_okD [OF this, of pid] assms(2) have "map_has (inFlight s) pid"
    by (cases "map_get (inFlight s) pid") (auto simp: map_has_def)
  then obtain cid where "map_get (promptIndex s) pid = Some cid" using assms(1) by (auto simp: prompt_inv_def map_has_def)
  from prompt_inv_end [OF assms(1) this] show ?thesis by (simp add: promptTimeout_def)
qed

section \<open>The prompts as a machine\<close>

datatype prompt_event =
    OpenContext context_id context_kind host_id client_id "acq_id option"
  | Ask prompt_id "client_id \<Rightarrow> bool" context_id prompt_type string prompt_timeout
  | Answer prompt_id client_id "nat option" string
  | TimerFires prompt_id
  | ClearContext context_id "(client_id \<Rightarrow> bool) option"
  | TrackElevation context_id ElevationPromptOwner
  | ClearForSession session_id "(client_id \<Rightarrow> bool) option"
  | ClearForChannel channel_id "(client_id \<Rightarrow> bool) option"
  | ClientComes client_id
  | ClientGoes client_id "client_id \<Rightarrow> bool"
  | HubChanges acq_ctx "(channel_id, PromptChannel) jmap option"

text \<open>
  Ids are fresh ULIDs (a context keeps the id of its acquisition and is opened once, as its callers
  check), and a timer fires only while it is armed.
\<close>

fun prompt_enabled :: "PromptCtx \<Rightarrow> prompt_event \<Rightarrow> bool" where
  "prompt_enabled s (OpenContext n k h r a) =
     (fst (openContext n k h r a s) \<noteq> [] \<and> \<not> map_has (promptContexts s) (fst (openContext n k h r a s)))"
| "prompt_enabled s (Ask pid send cid ty pl tm) = (pid \<notin> fst ` set (resolved s) \<and> \<not> map_has (promptIndex s) pid)"
| "prompt_enabled s (TimerFires pid) = map_has (timers s) pid"
| "prompt_enabled s _ = True"

fun prompt_step :: "PromptCtx \<Rightarrow> prompt_event \<Rightarrow> PromptCtx" where
  "prompt_step s (OpenContext n k h r a) = snd (openContext n k h r a s)"
| "prompt_step s (Ask pid send cid ty pl tm) = snd (prompt pid send cid ty pl tm s)"
| "prompt_step s (Answer pid cl e v) = snd (respond pid cl e v s)"
| "prompt_step s (TimerFires pid) = promptTimeout pid s"
| "prompt_step s (ClearContext cid send) = clearContext cid send s"
| "prompt_step s (TrackElevation cid ow) = trackElevationContext cid ow s"
| "prompt_step s (ClearForSession sid send) = clearElevationContextsForSession sid send s"
| "prompt_step s (ClearForChannel ch send) = clearElevationContextsForChannel ch send s"
| "prompt_step s (ClientComes cl) = s\<lparr>pc_clients := set_add cl (pc_clients s)\<rparr>"
| "prompt_step s (ClientGoes cl send) = removeClient cl send s"
| "prompt_step s (HubChanges a chs) = s\<lparr>pc_acqs := a, pc_channels := chs\<rparr>"

lemma prompt_inv_step:
  assumes "prompt_inv s" "prompt_enabled s e"
  shows "prompt_inv (prompt_step s e)"
proof (cases e)
  case (ClientComes cl)
  with assms(1) show ?thesis by (auto intro!: prompt_inv_clients)
next
  case (HubChanges a chs)
  with assms(1) show ?thesis by (simp add: prompt_inv_def context_ok_def prompt_ok_def timers_ok_def)
qed (use assms in \<open>auto simp: prompt_inv_openContext prompt_inv_prompt prompt_inv_respond prompt_inv_timeout
  prompt_inv_clearContext trackElevationContext_def clearElevationContextsForSession_def
  clearElevationContextsForChannel_def prompt_inv_elevation removeClient_inv\<close>)

interpretation prompts: event_machine prompt_init prompt_enabled prompt_step prompt_inv
proof
  show "prompt_inv prompt_init" by (simp add: prompt_init_def prompt_inv_def timers_ok_def)
qed (rule prompt_inv_step)

section \<open>Properties\<close>

text \<open>
  C4: no question is misplaced and none is answered twice. After any sequence of events, the three
  maps know the same prompts; a prompt in flight belongs to an open context, is pending at that
  context's route, a connected client, under its current epoch, and has no answer yet; and every
  promise is resolved at most once.
\<close>

theorem prompts_consistent:
  assumes "runs prompt_enabled prompt_step prompt_init es"
  shows "let s = foldl prompt_step prompt_init es in
     distinct (map fst (resolved s))
     \<and> map_has (pendingPrompts s) pid = map_has (inFlight s) pid \<and> map_has (promptIndex s) pid = map_has (inFlight s) pid
     \<and> (case map_get (inFlight s) pid of
          None \<Rightarrow> True
        | Some p \<Rightarrow> \<exists>cid c q. map_get (promptIndex s) pid = Some cid \<and> map_get (promptContexts s) cid = Some c
            \<and> pc_state c = OPEN \<and> pid \<in> set (prompts c) \<and> routeClientId c \<in> set (pc_clients s)
            \<and> map_get (pendingPrompts s) pid = Some q \<and> pp_clientId q = routeClientId c
            \<and> pp_deliveryEpoch q = deliveryEpoch p \<and> pid \<notin> fst ` set (resolved s))"
proof -
  define s where "s = foldl prompt_step prompt_init es"
  have inv: "prompt_inv s" unfolding s_def by (rule prompts.inv_run [OF assms])
  note idx = prompt_inv_same [OF inv, of pid]
  show ?thesis
  proof (cases "map_get (inFlight s) pid")
    case (Some p)
    with idx obtain cid where cid: "map_get (promptIndex s) pid = Some cid" by (auto simp: map_has_def)
    from prompt_inv_promptD [OF inv cid] Some obtain c q where
      c: "map_get (promptContexts s) cid = Some c" "pid \<in> set (prompts c)"
      and q: "map_get (pendingPrompts s) pid = Some q" "pp_clientId q = routeClientId c" "pp_deliveryEpoch q = deliveryEpoch p"
        "pid \<notin> fst ` set (resolved s)"
      by (auto simp: prompt_ok_def)
    have ok: "pc_state c = OPEN" "routeClientId c \<in> set (pc_clients s)"
      using prompt_inv_contextD [OF inv c(1)] c(2) by (auto simp: context_ok_def)
    have "distinct (map fst (resolved s))" using inv by (simp add: prompt_inv_def)
    with idx Some cid c q ok show ?thesis unfolding Let_def s_def [symmetric] by simp
  qed (use idx inv in \<open>simp add: s_def [symmetric] prompt_inv_def Let_def\<close>)
qed



theorem prompts_consistent_witness:
  "let s = foldl prompt_step prompt_init [ClientComes ''c'', OpenContext ''x'' KTest ''h'' ''c'' None, Ask ''p'' (\<lambda>_. True) ''x'' Passphrase ''pw?'' DefaultTimeout]
   in map_has (inFlight s) ''p'' \<and> map_has (pendingPrompts s) ''p''"
proof -
  let ?es = "[ClientComes ''c'', OpenContext ''x'' KTest ''h'' ''c'' None, Ask ''p'' (\<lambda>_. True) ''x'' Passphrase ''pw?'' DefaultTimeout]"
  have r: "runs prompt_enabled prompt_step prompt_init ?es" by (simp add: prompt_init_def openContext_def map_has_def Let_def)
  have "map_has (inFlight (foldl prompt_step prompt_init ?es)) ''p''"
    by (simp add: prompt_init_def openContext_def prompt_def put_context_def store_prompt_def deliver_def set_add_def Let_def map_has_def)
  with prompts_consistent [OF r, of "''p''"] show ?thesis unfolding Let_def by blast
qed

subsection \<open>No promise is left hanging\<close>

definition keeps :: "PromptCtx \<Rightarrow> PromptCtx \<Rightarrow> bool" where
  "keeps s s' \<longleftrightarrow>
     fst ` set (resolved s) \<subseteq> fst ` set (resolved s')
     \<and> (\<forall>pid. map_has (inFlight s) pid \<longrightarrow> map_has (inFlight s') pid \<or> pid \<in> fst ` set (resolved s'))"

lemma keeps_refl [simp]: "keeps s s"
  by (simp add: keeps_def)

lemma keeps_trans: "keeps s s' \<Longrightarrow> keeps s' s'' \<Longrightarrow> keeps s s''"
  unfolding keeps_def by (meson subsetD subset_trans)

lemma keeps_foldl: "(\<And>s x. keeps s (f s x)) \<Longrightarrow> keeps s (foldl f s xs)"
  by (rule foldl_inv [where P = "keeps s"]) (auto intro: keeps_trans)

lemma keeps_cong: "inFlight s' = inFlight s \<Longrightarrow> resolved s' = resolved s \<Longrightarrow> keeps s s'"
  by (simp add: keeps_def)

lemma keeps_end: "keeps s (resolve pid v (clearPrompt pid s))"
  by (auto simp: keeps_def map_has_def)

lemma keeps_clear_one: "keeps s (clear_one send route s pid)"
  by (auto simp: clear_one_def Let_def keeps_def map_has_def split: option.split)

lemma keeps_clearContext: "keeps s (clearContext cid send s)"
proof (cases "map_get (promptContexts s) cid")
  case (Some c)
  let ?s0 = "put_context cid (c\<lparr>pc_state := CLOSED\<rparr>) s"
  have "keeps ?s0 (foldl (clear_one send (routeClientId c)) ?s0 (prompts c))" by (rule keeps_foldl) (rule keeps_clear_one)
  moreover have "keeps s ?s0" by (rule keeps_cong) simp_all
  ultimately show ?thesis using Some by (simp add: clearContext_def keeps_def Let_def)
qed (simp add: clearContext_def)

lemma keeps_resend: "keeps s (resend send a b s pid)"
  by (auto simp: resend_def Let_def keeps_def split: option.split)

lemma keeps_retarget: "keeps s (retarget cid route send s)"
proof (cases "map_get (promptContexts s) cid")
  case (Some c)
  let ?s0 = "put_context cid (c\<lparr>routeClientId := route\<rparr>) s"
  have "keeps ?s0 (foldl (resend send (routeClientId c) route) ?s0 (prompts c))" by (rule keeps_foldl) (rule keeps_resend)
  moreover have "keeps s ?s0" by (rule keeps_cong) simp_all
  ultimately show ?thesis using Some by (auto simp: retarget_def intro: keeps_trans)
qed (simp add: retarget_def)

lemma keeps_disconnect_one: "keeps s (disconnect_one cl send s cid)"
  by (simp add: disconnect_one_def keeps_clearContext keeps_retarget split: option.split)

lemma keeps_elevation: "keeps s (clearElevationContextsWhere m send s)"
  unfolding clearElevationContextsWhere_def
proof (rule keeps_foldl)
  fix s :: PromptCtx and x :: "context_id \<times> ElevationPromptOwner"
  show "keeps s (case x of (cid, ow) \<Rightarrow> if \<not> m ow then s else let s = clearContext cid send s in
          s\<lparr>elevationPromptOwners := map_delete cid (elevationPromptOwners s)\<rparr>)"
    using keeps_clearContext [of s "fst x" send] by (cases x) (simp add: keeps_def Let_def)
qed

lemma keeps_removeClient: "keeps s (removeClient cl send s)"
  using keeps_foldl [of "disconnect_one cl send" s, OF keeps_disconnect_one]
  by (simp add: removeClient_def clientDisconnect_def Let_def keeps_def)

lemma keeps_prompt: "keeps s (snd (prompt pid send cid ty pl tm s))"
proof -
  have st: "keeps s (store_prompt cid c ty pl tm pid s)" for c by (simp add: keeps_def store_prompt_def)
  have "keeps s (deliver f r m (store_prompt cid c ty pl tm pid s))" for c f r m
    by (rule keeps_trans [OF st]) (rule keeps_cong; simp)
  moreover have "keeps s (resolve pid None (clearPrompt pid (store_prompt cid c ty pl tm pid s)))" for c
    by (rule keeps_trans [OF st keeps_end])
  ultimately show ?thesis by (simp add: prompt_def Let_def keeps_clearContext split: option.split)
qed

lemma keeps_step: "keeps s (prompt_step s e)"
proof (cases e)
  case (Answer pid cl ep v)
  then show ?thesis by (simp add: respond_def keeps_end split: option.split)
qed (auto simp: keeps_prompt keeps_clearContext keeps_removeClient keeps_elevation promptTimeout_def keeps_end openContext_def Let_def
    trackElevationContext_def clearElevationContextsForSession_def clearElevationContextsForChannel_def intro: keeps_cong)

text \<open>
  C21: no question is lost. A promise the hub waits on, be it one in flight or the one \<open>prompt\<close>
  just returned (its send may have failed), is after any event still in flight or resolved.
\<close>

theorem prompt_never_lost:
  assumes "map_has (inFlight s) pid
    \<or> (\<exists>send cid ty pl tm. e = Ask pid send cid ty pl tm \<and> fst (prompt pid send cid ty pl tm s) = Some pid)"
  shows "map_has (inFlight (prompt_step s e)) pid \<or> pid \<in> fst ` set (resolved (prompt_step s e))"
  using assms
proof
  assume "\<exists>send cid ty pl tm. e = Ask pid send cid ty pl tm \<and> fst (prompt pid send cid ty pl tm s) = Some pid"
  then show ?thesis by (auto simp: prompt_def store_prompt_def Let_def split: option.splits if_splits)
qed (use keeps_step [of s e] in \<open>simp add: keeps_def\<close>)

theorem prompt_never_lost_witness:
  "let s = foldl prompt_step prompt_init [ClientComes ''c'', OpenContext ''x'' KTest ''h'' ''c'' None];
       e = Ask ''p'' (\<lambda>_. False) ''x'' Passphrase ''pw?'' NoTimeout
   in map_has (inFlight (prompt_step s e)) ''p'' \<or> ''p'' \<in> fst ` set (resolved (prompt_step s e))"
proof -
  let ?s = "foldl prompt_step prompt_init [ClientComes ''c'', OpenContext ''x'' KTest ''h'' ''c'' None]"
  have "fst (prompt ''p'' (\<lambda>_. False) ''x'' Passphrase ''pw?'' NoTimeout ?s) = Some ''p''"
    by (simp add: prompt_init_def openContext_def prompt_def put_context_def set_add_def Let_def)
  then show ?thesis unfolding Let_def by (intro prompt_never_lost) blast
qed

subsection \<open>When a client leaves\<close>

text \<open>
  What the departure of a client does to the prompts: a prompt is as it was, or went on under a
  later epoch, or ended with null. Nothing else is asked.
\<close>

definition parted :: "PromptCtx \<Rightarrow> PromptCtx \<Rightarrow> bool" where
  "parted s s' \<longleftrightarrow>
     set (resolved s) \<subseteq> set (resolved s')
     \<and> (\<forall>pid. case map_get (pendingPrompts s') pid of
          Some q' \<Rightarrow> (\<exists>q. map_get (pendingPrompts s) pid = Some q
             \<and> (pp_clientId q' = pp_clientId q \<and> pp_deliveryEpoch q' = pp_deliveryEpoch q \<or> pp_deliveryEpoch q < pp_deliveryEpoch q'))
        | None \<Rightarrow> map_get (pendingPrompts s) pid = None \<or> (pid, None) \<in> set (resolved s'))"

lemma parted_refl [simp]: "parted s s"
  by (simp add: parted_def split: option.split)

lemma parted_clients [simp]: "parted s (s'\<lparr>pc_clients := cs\<rparr>) = parted s s'"
  by (simp add: parted_def cong: option.case_cong)

lemma parted_trans:
  assumes "parted s s'" "parted s' s''"
  shows "parted s s''"
proof -
  have "case map_get (pendingPrompts s'') pid of
          Some q' \<Rightarrow> (\<exists>q. map_get (pendingPrompts s) pid = Some q
             \<and> (pp_clientId q' = pp_clientId q \<and> pp_deliveryEpoch q' = pp_deliveryEpoch q \<or> pp_deliveryEpoch q < pp_deliveryEpoch q'))
        | None \<Rightarrow> map_get (pendingPrompts s) pid = None \<or> (pid, None) \<in> set (resolved s'')" for pid
    using assms unfolding parted_def
    by (cases "map_get (pendingPrompts s') pid"; cases "map_get (pendingPrompts s'') pid")
      (fastforce dest!: spec [of _ pid])+
  with assms show ?thesis by (auto simp: parted_def)
qed

lemma parted_clearContext: "prompt_inv s \<Longrightarrow> parted s (clearContext cid send s)"
proof (cases "map_get (promptContexts s) cid")
  case (Some c)
  assume "prompt_inv s"
  from clearContext_view [OF this Some, of send] obtain s' where
    v: "cleared (prompts c) cid s s'" "pendingPrompts (clearContext cid send s) = pendingPrompts s'"
    "resolved (clearContext cid send s) = resolved s'" by blast
  have p: "map_get (pendingPrompts (clearContext cid send s)) k = (if k \<in> set (prompts c) then None else map_get (pendingPrompts s) k)" for k
    unfolding v(2) using v(1) unfolding cleared_def by blast
  have "resolved (clearContext cid send s) = resolved s @ map (\<lambda>p. (p, None)) (prompts c)"
    using v(1,3) by (simp add: cleared_def)
  then show ?thesis by (auto simp: parted_def p split: option.split)
qed (simp add: clearContext_def)

lemma parted_retarget:
  assumes "prompt_inv s"
  shows "parted s (retarget cid route send s)"
proof (cases "\<exists>c. map_get (promptContexts s) cid = Some c \<and> kind c = KSession")
  case True
  then obtain c where c: "map_get (promptContexts s) cid = Some c" "kind c = KSession" by blast
  let ?s = "retarget cid route send s"
  from retarget_view [OF assms c, of route send]
  have r: "resent (prompts c) route (put_context cid (c\<lparr>routeClientId := route\<rparr>) s) ?s" by blast
  have epoch: "deliveryEpoch (the (map_get (inFlight s) pid)) = pp_deliveryEpoch q"
    if "map_get (pendingPrompts s) pid = Some q" for pid q
  proof -
    from that have "map_has (promptIndex s) pid" using assms by (simp add: prompt_inv_def map_has_def)
    then obtain k where "map_get (promptIndex s) pid = Some k" by (auto simp: map_has_def)
    from prompt_inv_promptD [OF assms this] that show ?thesis by (auto simp: prompt_ok_def)
  qed
  show ?thesis
    using r epoch by (auto simp: parted_def resent_def split: option.split if_splits)
qed (auto simp: retarget_def split: option.split)

lemma parted_disconnect_one: "prompt_inv s \<Longrightarrow> parted s (disconnect_one cl send s cid)"
  by (simp add: disconnect_one_def parted_clearContext parted_retarget split: option.split)

lemma parted_removeClient:
  assumes "prompt_inv s"
  shows "parted s (removeClient cl send s)"
proof -
  have "prompt_inv (foldl (disconnect_one cl send) s ks) \<and> parted s (foldl (disconnect_one cl send) s ks)" for ks
    by (rule foldl_inv [where P = "\<lambda>s'. prompt_inv s' \<and> parted s s'"])
      (auto simp: assms intro: disconnect_one_inv(1) parted_trans parted_disconnect_one)
  then show ?thesis by (simp add: removeClient_def clientDisconnect_def Let_def)
qed

text \<open>
  A question outlives the client it was put to only by moving to another, and the one who
  left can no longer answer it. When a client leaves, each prompt pending at it is resolved with
  null, or pending at a client that is still there under a later epoch; the client that left, and
  any answer that carries the old epoch, is refused.
\<close>

theorem departed_client_cannot_answer:
  assumes "prompt_inv s" and "map_get (pendingPrompts s) pid = Some q" and "pp_clientId q = cl"
  shows "let s' = removeClient cl send s in
     (case map_get (pendingPrompts s') pid of
        None \<Rightarrow> (pid, None) \<in> set (resolved s')
      | Some q' \<Rightarrow> pp_clientId q' \<noteq> cl \<and> pp_clientId q' \<in> set (pc_clients s') \<and> pp_deliveryEpoch q < pp_deliveryEpoch q')
     \<and> \<not> fst (respond pid cl e v s') \<and> \<not> fst (respond pid x (Some (pp_deliveryEpoch q)) v s')"
proof -
  define s' where "s' = removeClient cl send s"
  have inv: "prompt_inv s'" and route: "\<And>k c. map_get (promptContexts s') k = Some c \<Longrightarrow> routeClientId c \<noteq> cl"
    unfolding s'_def using removeClient_inv [OF assms(1)] by blast+
  have part: "parted s s'" unfolding s'_def by (rule parted_removeClient [OF assms(1)])
  show ?thesis unfolding Let_def s'_def [symmetric]
  proof (cases "map_get (pendingPrompts s') pid")
    case None
    with part assms(2) have "(pid, None) \<in> set (resolved s')"
      unfolding parted_def by (auto dest: spec [of _ pid])
    moreover have "map_get (promptIndex s') pid = None" using None prompt_inv_same [OF inv, of pid] by (auto simp: map_has_def)
    ultimately show "(case map_get (pendingPrompts s') pid of
        None \<Rightarrow> (pid, None) \<in> set (resolved s')
      | Some q' \<Rightarrow> pp_clientId q' \<noteq> cl \<and> pp_clientId q' \<in> set (pc_clients s') \<and> pp_deliveryEpoch q < pp_deliveryEpoch q')
     \<and> \<not> fst (respond pid cl e v s') \<and> \<not> fst (respond pid x (Some (pp_deliveryEpoch q)) v s')"
      using None by (simp add: respond_def)
  next
    case (Some q')
    then have "map_has (promptIndex s') pid" using prompt_inv_same [OF inv, of pid] by (simp add: map_has_def)
    then obtain cid where cid: "map_get (promptIndex s') pid = Some cid" by (auto simp: map_has_def)
    from prompt_inv_promptD [OF inv cid] Some obtain c p where
      c: "map_get (promptContexts s') cid = Some c" "pid \<in> set (prompts c)" "pp_clientId q' = routeClientId c"
      and p: "map_get (inFlight s') pid = Some p" "pp_deliveryEpoch q' = deliveryEpoch p"
      by (auto simp: prompt_ok_def)
    have ok: "context_ok s' cid c" by (rule prompt_inv_contextD [OF inv c(1)])
    have "routeClientId c \<in> set (pc_clients s')" using ok c(2) by (auto simp: context_ok_def)
    moreover have "pp_deliveryEpoch q < pp_deliveryEpoch q'"
      using part Some assms(2,3) c(3) route [OF c(1)] unfolding parted_def by (auto dest!: spec [of _ pid])
    ultimately show "(case map_get (pendingPrompts s') pid of
        None \<Rightarrow> (pid, None) \<in> set (resolved s')
      | Some q' \<Rightarrow> pp_clientId q' \<noteq> cl \<and> pp_clientId q' \<in> set (pc_clients s') \<and> pp_deliveryEpoch q < pp_deliveryEpoch q')
     \<and> \<not> fst (respond pid cl e v s') \<and> \<not> fst (respond pid x (Some (pp_deliveryEpoch q)) v s')"
      using Some cid c p route [OF c(1)] by (auto simp: respond_def truthy_Some split: option.split)
  qed
qed

theorem departed_client_cannot_answer_witness:
  "let s = foldl prompt_step prompt_init [ClientComes ''c'', OpenContext ''x'' KTest ''h'' ''c'' None, Ask ''p'' (\<lambda>_. True) ''x'' Passphrase ''pw?'' DefaultTimeout]
   in (''p'', None) \<in> set (resolved (removeClient ''c'' (\<lambda>_. True) s)) \<and> \<not> fst (respond ''p'' ''c'' (Some 1) ''late'' (removeClient ''c'' (\<lambda>_. True) s))"
proof -
  let ?es = "[ClientComes ''c'', OpenContext ''x'' KTest ''h'' ''c'' None, Ask ''p'' (\<lambda>_. True) ''x'' Passphrase ''pw?'' DefaultTimeout]"
  define s where "s = foldl prompt_step prompt_init ?es"
  have "runs prompt_enabled prompt_step prompt_init ?es" by (simp add: prompt_init_def openContext_def map_has_def Let_def)
  then have inv: "prompt_inv s" unfolding s_def by (rule prompts.inv_run)
  have q: "map_get (pendingPrompts s) ''p'' = Some \<lparr>pp_hostId = ''h'', pp_clientId = ''c'', pp_contextId = ''x'',
      pp_type = Passphrase, pp_deliveryEpoch = 1\<rparr>"
    by (simp add: s_def prompt_init_def openContext_def prompt_def put_context_def store_prompt_def deliver_def set_add_def Let_def)
  have "map_get (pendingPrompts (removeClient ''c'' (\<lambda>_. True) s)) ''p'' = None"
    by (simp add: s_def prompt_init_def openContext_def prompt_def put_context_def store_prompt_def deliver_def set_add_def Let_def
        removeClient_def clientDisconnect_def disconnect_one_def clearContext_def clear_one_def clearPrompt_def resolve_def
        map_keys_def map_has_def set_delete_def)
  with departed_client_cannot_answer [OF inv q, of "''c''" "\<lambda>_. True" "Some 1" "''late''"] show ?thesis
    unfolding Let_def s_def [symmetric] by simp
qed

end
