(* ===== verification/Spool.thy ===== *)
theory Spool
  imports Lasterm_Prelude "HOL-Library.Multiset" "HOL-Library.Char_ord" "HOL-Library.List_Lexorder"
begin

text \<open>
  The spool: \<^verbatim>\<open>packages/hub/src/storage/spool.ts\<close>. The table \<open>chunks\<close> is the list of its rows; the
  queries are written out as SQL means them (a filter, an order by \<open>seq\<close>, a limit), and an insert
  fails on a row of the same channel and \<open>seq\<close>, or of the same id, as the table's constraints have it.
  The id and time of a new row are arguments. The interface \<open>output_store\<close> is what the writer of
  terminal output relies on.
\<close>

section \<open>Rows\<close>

datatype chunk_kind = KOutput | KSnapshot | KResize
datatype chunk_codec = CRaw | CZstd
datatype spool_error = ConstraintUnique

record Chunk =
  chunk_id :: string
  channelId :: channel_id
  seq :: int
  ts :: string
  chunkKind :: chunk_kind
  codec :: chunk_codec
  dataBlob :: "byte list"
  uncompressedLen :: nat

record InsertChunkInput =
  in_channelId :: channel_id
  in_seq :: int
  in_kind :: chunk_kind
  in_codec :: "chunk_codec option"
  in_dataBlob :: "byte list"
  in_uncompressedLen :: nat

type_synonym spool = "Chunk list"

definition rows_of :: "channel_id \<Rightarrow> spool \<Rightarrow> Chunk list" where
  "rows_of ch db = sort_key seq (filter (\<lambda>r. channelId r = ch) db)"

section \<open>Queries and updates\<close>

definition insertChunk :: "string \<Rightarrow> string \<Rightarrow> InsertChunkInput \<Rightarrow> spool \<Rightarrow> spool_error + spool" where
  "insertChunk newId now inp db =
     (if \<exists>r \<in> set db. chunk_id r = newId \<or> channelId r = in_channelId inp \<and> seq r = in_seq inp
      then Inl ConstraintUnique
      else Inr (db @ [\<lparr>chunk_id = newId, channelId = in_channelId inp, seq = in_seq inp, ts = now, chunkKind = in_kind inp,
                      codec = (case in_codec inp of None \<Rightarrow> CRaw | Some c \<Rightarrow> c), dataBlob = in_dataBlob inp,
                      uncompressedLen = in_uncompressedLen inp\<rparr>]))"

definition getChunk :: "spool \<Rightarrow> string \<Rightarrow> Chunk option" where
  "getChunk db cid = List.find (\<lambda>r. chunk_id r = cid) db"

definition getChunksByChannel ::
  "spool \<Rightarrow> channel_id \<Rightarrow> chunk_kind option \<Rightarrow> int option \<Rightarrow> nat option \<Rightarrow> Chunk list" where
  "getChunksByChannel db ch knd afterSeq lim =
     (let rows = filter (\<lambda>r. (case knd of None \<Rightarrow> True | Some k \<Rightarrow> chunkKind r = k)
                              \<and> (case afterSeq of None \<Rightarrow> True | Some a \<Rightarrow> a < seq r)) (rows_of ch db)
      in case lim of None \<Rightarrow> rows | Some n \<Rightarrow> take n rows)"

definition last_option :: "'a list \<Rightarrow> 'a option" where
  "last_option xs = (if xs = [] then None else Some (last xs))"

definition getMaxSeq :: "spool \<Rightarrow> channel_id \<Rightarrow> int" where
  "getMaxSeq db ch = (case last_option (rows_of ch db) of None \<Rightarrow> 0 | Some r \<Rightarrow> seq r)"

definition getLatestSnapshot :: "spool \<Rightarrow> channel_id \<Rightarrow> Chunk option" where
  "getLatestSnapshot db ch = last_option (filter (\<lambda>r. chunkKind r = KSnapshot) (rows_of ch db))"

definition insertSnapshot :: "string \<Rightarrow> string \<Rightarrow> InsertChunkInput \<Rightarrow> spool \<Rightarrow> spool_error + spool" where
  "insertSnapshot newId now inp db =
     (let previous = getLatestSnapshot db (in_channelId inp) in
      case insertChunk newId now (inp\<lparr>in_kind := KSnapshot\<rparr>) db of
        Inl e \<Rightarrow> Inl e
      | Inr db' \<Rightarrow>
          (case previous of
             None \<Rightarrow> Inr db'
           | Some p \<Rightarrow> if seq p < in_seq inp then Inr (filter (\<lambda>r. chunk_id r \<noteq> chunk_id p) db') else Inr db'))"

definition getLatestSnapshotSize :: "spool \<Rightarrow> channel_id \<Rightarrow> (int \<times> nat) option" where
  "getLatestSnapshotSize db ch = map_option (\<lambda>r. (seq r, length (dataBlob r))) (getLatestSnapshot db ch)"

definition nextChannelId :: "spool \<Rightarrow> channel_id \<Rightarrow> channel_id option" where
  "nextChannelId db after =
     (case sort (filter (\<lambda>c. after < c) (map channelId db)) of [] \<Rightarrow> None | c # _ \<Rightarrow> Some c)"

record ChunkSize =
  cs_seq :: int
  cs_kind :: chunk_kind
  cs_ts :: string
  cs_bytes :: nat

definition chunkSize :: "Chunk \<Rightarrow> ChunkSize" where
  "chunkSize r = \<lparr>cs_seq = seq r, cs_kind = chunkKind r, cs_ts = ts r, cs_bytes = length (dataBlob r)\<rparr>"

lemma chunkSize_simps [simp]:
  "cs_seq (chunkSize r) = seq r" "cs_kind (chunkSize r) = chunkKind r" "cs_ts (chunkSize r) = ts r" "cs_bytes (chunkSize r) = length (dataBlob r)"
  by (simp_all add: chunkSize_def)

definition listChunkSizesBefore :: "spool \<Rightarrow> channel_id \<Rightarrow> int \<Rightarrow> nat \<Rightarrow> ChunkSize list" where
  "listChunkSizesBefore db ch beforeSeq lim =
     map chunkSize (take lim (rev (filter (\<lambda>r. seq r < beforeSeq) (rows_of ch db))))"

datatype ChunkKinds = Snapshots | Others | All

record ChunkBatchLimits =
  maxRows :: nat
  maxBytes :: nat

record ChunkBatchResult =
  deleted :: nat
  batch_bytes :: nat
  lastSeq :: "int option"

definition of_kinds :: "ChunkKinds \<Rightarrow> Chunk \<Rightarrow> bool" where
  "of_kinds kinds r = (kinds = All \<or> (chunkKind r = KSnapshot) = (kinds = Snapshots))"

definition in_range :: "channel_id \<Rightarrow> int \<Rightarrow> int \<Rightarrow> ChunkKinds \<Rightarrow> Chunk \<Rightarrow> bool" where
  "in_range ch afterSeq throughSeq kinds r = (channelId r = ch \<and> afterSeq < seq r \<and> seq r \<le> throughSeq \<and> of_kinds kinds r)"

text \<open>The loop over the rows picked: bytes so far, and the seq of the last row taken.\<close>

fun weigh :: "nat \<Rightarrow> nat \<Rightarrow> int option \<Rightarrow> Chunk list \<Rightarrow> nat \<times> int option" where
  "weigh maxB bytes lastq [] = (bytes, lastq)"
| "weigh maxB bytes lastq (r # rs) =
     (let bytes = bytes + length (dataBlob r) in
      if bytes \<ge> maxB then (bytes, Some (seq r)) else weigh maxB bytes (Some (seq r)) rs)"

definition deleteChunkBatch ::
  "channel_id \<Rightarrow> int \<Rightarrow> int \<Rightarrow> ChunkKinds \<Rightarrow> ChunkBatchLimits \<Rightarrow> spool \<Rightarrow> ChunkBatchResult \<times> spool" where
  "deleteChunkBatch ch afterSeq throughSeq kinds limits db =
     (let rows = take (maxRows limits) (filter (\<lambda>r. in_range ch afterSeq throughSeq kinds r) (rows_of ch db));
          (bytes, lastq) = weigh (maxBytes limits) 0 None rows
      in case lastq of
           None \<Rightarrow> (\<lparr>deleted = 0, batch_bytes = 0, lastSeq = None\<rparr>, db)
         | Some q \<Rightarrow>
             (\<lparr>deleted = length (filter (in_range ch afterSeq q kinds) db), batch_bytes = bytes, lastSeq = Some q\<rparr>,
              filter (\<lambda>r. \<not> in_range ch afterSeq q kinds r) db))"

definition getChannelChunkCount :: "spool \<Rightarrow> channel_id \<Rightarrow> nat" where
  "getChannelChunkCount db ch = length (rows_of ch db)"

definition getChannelSize :: "spool \<Rightarrow> channel_id \<Rightarrow> nat" where
  "getChannelSize db ch = sum_list (map (\<lambda>r. length (dataBlob r)) (rows_of ch db))"

section \<open>Laws of the table\<close>

lemma last_option_simps [simp]: "last_option [] = None" "last_option (xs @ [x]) = Some x"
  by (simp_all add: last_option_def)

definition spool_ok :: "spool \<Rightarrow> bool" where
  "spool_ok db \<longleftrightarrow> distinct (map chunk_id db) \<and> distinct (map (\<lambda>r. (channelId r, seq r)) db)"

lemma set_rows_of [simp]: "set (rows_of ch db) = {r \<in> set db. channelId r = ch}"
  by (auto simp: rows_of_def)

lemma sorted_rows_of: "sorted (map seq (rows_of ch db))"
  by (simp add: rows_of_def)

lemma rows_of_filter: "rows_of ch (filter P db) = filter P (rows_of ch db)"
  by (simp add: rows_of_def filter_sort conj_commute)

lemma sort_key_stable': "filter (\<lambda>y. k = f y) (sort_key f xs) = filter (\<lambda>y. k = f y) xs"
proof -
  have "(\<lambda>y. k = f y) = (\<lambda>y. f y = k)" by auto
  then show ?thesis by (simp only: sort_key_stable)
qed

lemma sort_key_snoc: "\<forall>y \<in> set xs. f y \<le> f x \<Longrightarrow> sort_key f (xs @ [x]) = sort_key f xs @ [x]"
  by (rule properties_for_sort_key) (auto simp: sorted_append sort_key_stable')

lemma rows_of_snoc:
  "\<forall>r' \<in> set (rows_of ch db). seq r' \<le> seq r \<Longrightarrow> channelId r = ch \<Longrightarrow> rows_of ch (db @ [r]) = rows_of ch db @ [r]"
  using sort_key_snoc [of "filter (\<lambda>r. channelId r = ch) db" seq r] by (simp add: rows_of_def)

lemma rows_of_other: "channelId r \<noteq> ch \<Longrightarrow> rows_of ch (db @ [r]) = rows_of ch db"
  by (simp add: rows_of_def)

lemma distinct_rows_of: "spool_ok db \<Longrightarrow> distinct (map seq (rows_of ch db))"
proof -
  assume "spool_ok db"
  then have "distinct (map (\<lambda>r. (channelId r, seq r)) (filter (\<lambda>r. channelId r = ch) db))"
    by (auto simp: spool_ok_def intro: distinct_map_filter)
  then have "distinct (map seq (filter (\<lambda>r. channelId r = ch) db))"
    by (auto simp: distinct_map inj_on_def)
  moreover have "mset (map seq (rows_of ch db)) = mset (map seq (filter (\<lambda>r. channelId r = ch) db))"
    by (simp add: rows_of_def)
  ultimately show ?thesis by (metis mset_eq_imp_distinct_iff)
qed

lemma strict_sorted_rows_of: "spool_ok db \<Longrightarrow> sorted_wrt (<) (map seq (rows_of ch db))"
  using distinct_rows_of sorted_rows_of by (simp add: strict_sorted_iff)

lemma getMaxSeq_ge: "r \<in> set db \<Longrightarrow> channelId r = ch \<Longrightarrow> seq r \<le> getMaxSeq db ch"
proof -
  assume "r \<in> set db" "channelId r = ch"
  then have r: "r \<in> set (rows_of ch db)" by simp
  then have ne: "rows_of ch db \<noteq> []" by (cases "rows_of ch db") (simp_all del: set_rows_of)
  obtain ys x where ys: "rows_of ch db = ys @ [x]" using ne by (cases "rows_of ch db" rule: rev_cases) auto
  have "\<forall>y \<in> set ys. seq y \<le> seq x" using sorted_rows_of [of ch db] by (simp add: ys sorted_append)
  moreover have "r \<in> set (ys @ [x])" using r by (simp only: ys)
  ultimately show ?thesis by (auto simp: getMaxSeq_def ys)
qed

lemma spool_ok_filter [simp]: "spool_ok db \<Longrightarrow> spool_ok (filter P db)"
  by (auto simp: spool_ok_def intro: distinct_map_filter)

lemma last_option_in: "last_option xs = Some x \<Longrightarrow> x \<in> set xs"
  by (auto simp: last_option_def split: if_splits)

lemma getMaxSeq_mono:
  assumes "spool_ok db"
  shows "getMaxSeq (filter P db) ch \<le> max 0 (getMaxSeq db ch)"
proof (cases "last_option (rows_of ch (filter P db))")
  case (Some r)
  then have "r \<in> set db" "channelId r = ch" using last_option_in [OF Some] by auto
  from getMaxSeq_ge [OF this] Some show ?thesis by (simp add: getMaxSeq_def)
qed (simp add: getMaxSeq_def)

text \<open>An insert above everything the channel stores goes through, and is the channel's last row.\<close>

lemma insertChunk_above:
  assumes "spool_ok db" "newId \<notin> set (map chunk_id db)" "getMaxSeq db (in_channelId inp) < in_seq inp"
  obtains r where "insertChunk newId now inp db = Inr (db @ [r])" "rows_of (in_channelId inp) (db @ [r]) = rows_of (in_channelId inp) db @ [r]"
    "channelId r = in_channelId inp" "seq r = in_seq inp" "chunkKind r = in_kind inp" "dataBlob r = in_dataBlob inp" "chunk_id r = newId"
    "spool_ok (db @ [r])" "getMaxSeq (db @ [r]) (in_channelId inp) = in_seq inp"
    "\<And>ch. ch \<noteq> in_channelId inp \<Longrightarrow> rows_of ch (db @ [r]) = rows_of ch db"
proof -
  let ?r = "\<lparr>chunk_id = newId, channelId = in_channelId inp, seq = in_seq inp, ts = now, chunkKind = in_kind inp,
      codec = (case in_codec inp of None \<Rightarrow> CRaw | Some c \<Rightarrow> c), dataBlob = in_dataBlob inp,
      uncompressedLen = in_uncompressedLen inp\<rparr>"
  have below: "seq r < in_seq inp" if "r \<in> set db" "channelId r = in_channelId inp" for r
    using getMaxSeq_ge [OF that] assms(3) by simp
  have ins: "insertChunk newId now inp db = Inr (db @ [?r])"
    using assms(2) below by (force simp: insertChunk_def)
  have rows: "rows_of (in_channelId inp) (db @ [?r]) = rows_of (in_channelId inp) db @ [?r]"
    using below by (intro rows_of_snoc) force+
  have "spool_ok (db @ [?r])" using assms(1,2) below by (force simp: spool_ok_def)
  with ins rows show thesis by (intro that [of ?r]) (auto simp: getMaxSeq_def rows_of_other)
qed

section \<open>The interface of the output writer\<close>

text \<open>
  What the writer of a channel's output relies on: above the channel's highest seq there is always
  room, a write there is the end of what a reader of the channel gets, and other channels do not
  notice. From that alone, writes at rising seqs all succeed and read back in order.
\<close>

locale output_store =
  fixes put :: "string \<Rightarrow> channel_id \<Rightarrow> int \<Rightarrow> byte list \<Rightarrow> 'db \<Rightarrow> 'db option"
    and top :: "'db \<Rightarrow> channel_id \<Rightarrow> int"
    and shown :: "'db \<Rightarrow> channel_id \<Rightarrow> byte list"
    and fresh :: "'db \<Rightarrow> string \<Rightarrow> bool"
    and ok :: "'db \<Rightarrow> bool"
  assumes put_above: "ok db \<Longrightarrow> fresh db i \<Longrightarrow> top db ch < q \<Longrightarrow>
      \<exists>db'. put i ch q d db = Some db' \<and> ok db' \<and> top db' ch = q \<and> shown db' ch = shown db ch @ d
          \<and> (\<forall>j. j \<noteq> i \<longrightarrow> fresh db j \<longrightarrow> fresh db' j)
          \<and> (\<forall>ch'. ch' \<noteq> ch \<longrightarrow> top db' ch' = top db ch' \<and> shown db' ch' = shown db ch')"
begin

fun put_all :: "channel_id \<Rightarrow> (string \<times> int \<times> byte list) list \<Rightarrow> 'db \<Rightarrow> 'db option" where
  "put_all ch [] db = Some db"
| "put_all ch ((i, q, d) # ws) db = Option.bind (put i ch q d db) (put_all ch ws)"

lemma put_all_reads_back:
  assumes "ok db" "\<forall>w \<in> set ws. fresh db (fst w)" "distinct (map fst ws)"
    and "sorted_wrt (<) (top db ch # map (fst \<circ> snd) ws)"
  shows "\<exists>db'. put_all ch ws db = Some db' \<and> shown db' ch = shown db ch @ concat (map (snd \<circ> snd) ws)"
  using assms
proof (induction ws arbitrary: db)
  case (Cons w ws)
  obtain i q d where w: "w = (i, q, d)" by (cases w)
  from Cons.prems put_above [of db i ch q d] obtain db1 where
    1: "put i ch q d db = Some db1" "ok db1" "top db1 ch = q" "shown db1 ch = shown db ch @ d"
    "\<forall>j. j \<noteq> i \<longrightarrow> fresh db j \<longrightarrow> fresh db1 j" by (auto simp: w)
  have "\<exists>db'. put_all ch ws db1 = Some db' \<and> shown db' ch = shown db1 ch @ concat (map (snd \<circ> snd) ws)"
    by (rule Cons.IH) (use Cons.prems 1 in \<open>auto simp: w image_iff\<close>)
  with 1 show ?case by (auto simp: w comp_def)
qed simp

end

definition output_of :: "spool \<Rightarrow> channel_id \<Rightarrow> byte list" where
  "output_of db ch = concat (map dataBlob (filter (\<lambda>r. chunkKind r = KOutput) (rows_of ch db)))"

definition output_chunk :: "channel_id \<Rightarrow> int \<Rightarrow> byte list \<Rightarrow> InsertChunkInput" where
  "output_chunk ch q d = \<lparr>in_channelId = ch, in_seq = q, in_kind = KOutput, in_codec = None, in_dataBlob = d, in_uncompressedLen = length d\<rparr>"

definition put_output :: "string \<Rightarrow> string \<Rightarrow> channel_id \<Rightarrow> int \<Rightarrow> byte list \<Rightarrow> spool \<Rightarrow> spool option" where
  "put_output now i ch q d db = (case insertChunk i now (output_chunk ch q d) db of Inl _ \<Rightarrow> None | Inr db' \<Rightarrow> Some db')"

lemma put_output_above:
  assumes "spool_ok db" "i \<notin> set (map chunk_id db)" "getMaxSeq db ch < q"
  shows "\<exists>db'. put_output now i ch q d db = Some db' \<and> spool_ok db' \<and> getMaxSeq db' ch = q \<and> output_of db' ch = output_of db ch @ d
      \<and> (\<forall>j. j \<noteq> i \<longrightarrow> j \<notin> set (map chunk_id db) \<longrightarrow> j \<notin> set (map chunk_id db'))
      \<and> (\<forall>ch'. ch' \<noteq> ch \<longrightarrow> getMaxSeq db' ch' = getMaxSeq db ch' \<and> output_of db' ch' = output_of db ch')"
proof -
  have c: "in_channelId (output_chunk ch q d) = ch" "in_seq (output_chunk ch q d) = q" "in_kind (output_chunk ch q d) = KOutput"
    "in_dataBlob (output_chunk ch q d) = d" by (simp_all add: output_chunk_def)
  from insertChunk_above [OF assms(1,2), of "output_chunk ch q d" now, unfolded c, OF assms(3)] obtain r where
    r: "insertChunk i now (output_chunk ch q d) db = Inr (db @ [r])" "rows_of ch (db @ [r]) = rows_of ch db @ [r]"
    "chunkKind r = KOutput" "dataBlob r = d" "chunk_id r = i" "spool_ok (db @ [r])" "getMaxSeq (db @ [r]) ch = q"
    "\<And>ch'. ch' \<noteq> ch \<Longrightarrow> rows_of ch' (db @ [r]) = rows_of ch' db" by metis
  then show ?thesis by (auto simp: put_output_def output_of_def getMaxSeq_def)
qed

interpretation spool: output_store "put_output now" getMaxSeq output_of "\<lambda>db i. i \<notin> set (map chunk_id db)" spool_ok
  by unfold_locales (rule put_output_above)

fun insertOutputs :: "string \<Rightarrow> channel_id \<Rightarrow> (string \<times> int \<times> byte list) list \<Rightarrow> spool \<Rightarrow> spool_error + spool" where
  "insertOutputs now ch [] db = Inr db"
| "insertOutputs now ch ((i, q, d) # ws) db =
     (case insertChunk i now (output_chunk ch q d) db of Inl e \<Rightarrow> Inl e | Inr db' \<Rightarrow> insertOutputs now ch ws db')"

lemma insertOutputs_put_all: "spool.put_all now ch ws db = Some db' \<Longrightarrow> insertOutputs now ch ws db = Inr db'"
  by (induction ws arbitrary: db) (auto simp: put_output_def split: sum.splits Option.bind_splits)

lemma output_of_chunks: "output_of db ch = concat (map dataBlob (getChunksByChannel db ch (Some KOutput) None None))"
  by (simp add: output_of_def getChunksByChannel_def)

text \<open>
  What is written is read back. Chunks of output written to a channel with fresh ids and rising seqs above its
  highest are all accepted, and a reader of the channel gets what it held before followed by their
  bytes, in the order written.
\<close>

theorem outputs_read_back:
  assumes "spool_ok db" "\<forall>w \<in> set ws. fst w \<notin> set (map chunk_id db)" "distinct (map fst ws)"
    and "sorted_wrt (<) (getMaxSeq db ch # map (fst \<circ> snd) ws)"
  shows "\<exists>db'. insertOutputs now ch ws db = Inr db'
     \<and> concat (map dataBlob (getChunksByChannel db' ch (Some KOutput) None None))
         = concat (map dataBlob (getChunksByChannel db ch (Some KOutput) None None)) @ concat (map (snd \<circ> snd) ws)"
  using spool.put_all_reads_back [OF assms, of now] insertOutputs_put_all unfolding output_of_chunks by blast

theorem outputs_read_back_witness:
  "\<exists>db'. insertOutputs ''t'' ''c'' [(''1'', 1, [65]), (''2'', 5, [66, 67])] [] = Inr db'
     \<and> concat (map dataBlob (getChunksByChannel db' ''c'' (Some KOutput) None None)) = [65, 66, 67]"
  using outputs_read_back [of "[]" "[(''1'', 1, [65]), (''2'', 5, [66, 67])]" "''c''" "''t''"]
  by (simp add: spool_ok_def getMaxSeq_def rows_of_def getChunksByChannel_def)

end
