(* ===== verification/Output_Chunker.thy ===== *)
theory Output_Chunker
  imports Spool
begin

text \<open>
  The writer of terminal output, \<^verbatim>\<open>packages/hub/src/session/output-chunker.ts\<close>, over the spool, and
  from \<^verbatim>\<open>channel-lifecycle-manager.ts\<close> the operations that meet it: storing a snapshot and
  building what an attaching client is sent. A constraint violation of the database is the error
  \<open>ConstraintUnique\<close>. The id and time a new row takes are arguments.
\<close>

section \<open>State\<close>

record ChannelBuffer =
  chunks :: "byte list list"
  totalBytes :: nat
  cb_timer :: bool
  nextSeq :: int

record chunker =
  spool_db :: spool
  buffers :: "(channel_id, ChannelBuffer) jmap"

definition CHUNK_MAX_BYTES :: nat where
  "CHUNK_MAX_BYTES = 256 * 1024"

section \<open>Operations\<close>

definition trackChannel :: "channel_id \<Rightarrow> int option \<Rightarrow> chunker \<Rightarrow> chunker" where
  "trackChannel ch startSeq st =
     (if map_has (buffers st) ch then st
      else let resumeSeq = (case startSeq of Some q \<Rightarrow> q | None \<Rightarrow> getMaxSeq (spool_db st) ch + 1)
        in st\<lparr>buffers := map_set ch \<lparr>chunks = [], totalBytes = 0, cb_timer = False, nextSeq = resumeSeq\<rparr> (buffers st)\<rparr>)"

text \<open>\<open>Buffer.alloc\<close>, then each chunk set at its offset.\<close>

definition place :: "nat \<Rightarrow> byte list \<Rightarrow> byte list \<Rightarrow> byte list" where
  "place offset chunk result = take offset result @ chunk @ drop (offset + length chunk) result"

fun place_all :: "nat \<Rightarrow> byte list list \<Rightarrow> byte list \<Rightarrow> byte list" where
  "place_all offset [] result = result"
| "place_all offset (c # cs) result = place_all (offset + length c) cs (place offset c result)"

definition concatChunks :: "byte list list \<Rightarrow> nat \<Rightarrow> byte list" where
  "concatChunks cs nbytes = place_all 0 cs (replicate nbytes 0)"

definition flush :: "string \<Rightarrow> string \<Rightarrow> channel_id \<Rightarrow> chunker \<Rightarrow> spool_error + chunker" where
  "flush newId now ch st =
     (case map_get (buffers st) ch of
        None \<Rightarrow> Inr st
      | Some buf \<Rightarrow>
          if totalBytes buf = 0 then Inr st
          else let blob = concatChunks (chunks buf) (totalBytes buf) in
            case insertChunk newId now (output_chunk ch (nextSeq buf) blob) (spool_db st) of
              Inl e \<Rightarrow> Inl e
            | Inr db \<Rightarrow>
                Inr \<lparr>spool_db = db,
                     buffers = map_set ch \<lparr>chunks = [], totalBytes = 0, cb_timer = False, nextSeq = nextSeq buf + 1\<rparr> (buffers st)\<rparr>)"

definition onOutput :: "string \<Rightarrow> string \<Rightarrow> channel_id \<Rightarrow> byte list \<Rightarrow> chunker \<Rightarrow> spool_error + chunker" where
  "onOutput newId now ch d st =
     (case map_get (buffers st) ch of
        None \<Rightarrow> Inr st
      | Some buf \<Rightarrow>
          let buf = buf\<lparr>chunks := chunks buf @ [d], totalBytes := totalBytes buf + length d\<rparr> in
          if totalBytes buf \<ge> CHUNK_MAX_BYTES
          then flush newId now ch (st\<lparr>buffers := map_set ch buf (buffers st)\<rparr>)
          else Inr (st\<lparr>buffers := map_set ch (buf\<lparr>cb_timer := True\<rparr>) (buffers st)\<rparr>))"

definition flushTimer :: "string \<Rightarrow> string \<Rightarrow> channel_id \<Rightarrow> chunker \<Rightarrow> spool_error + chunker" where
  "flushTimer newId now ch st =
     (case map_get (buffers st) ch of
        None \<Rightarrow> Inr st
      | Some buf \<Rightarrow> flush newId now ch (st\<lparr>buffers := map_set ch (buf\<lparr>cb_timer := False\<rparr>) (buffers st)\<rparr>))"

definition untrackChannel :: "string \<Rightarrow> string \<Rightarrow> channel_id \<Rightarrow> chunker \<Rightarrow> spool_error + chunker" where
  "untrackChannel newId now ch st =
     (case flush newId now ch st of
        Inl e \<Rightarrow> Inl e
      | Inr st \<Rightarrow> Inr (st\<lparr>buffers := map_delete ch (buffers st)\<rparr>))"

text \<open>The channels are untracked in the order the map has them; each flush takes the next id.\<close>

fun untrack_all :: "(nat \<Rightarrow> string) \<Rightarrow> string \<Rightarrow> nat \<Rightarrow> channel_id list \<Rightarrow> chunker \<Rightarrow> spool_error + chunker" where
  "untrack_all ids now i [] st = Inr st"
| "untrack_all ids now i (ch # chs) st =
     (case untrackChannel (ids i) now ch st of Inl e \<Rightarrow> Inl e | Inr st \<Rightarrow> untrack_all ids now (Suc i) chs st)"

definition chunker_shutdown :: "(nat \<Rightarrow> string) \<Rightarrow> string \<Rightarrow> chunker \<Rightarrow> spool_error + chunker" where
  "chunker_shutdown ids now st = untrack_all ids now 0 (map_keys (buffers st)) st"

definition getNextSeq :: "chunker \<Rightarrow> channel_id \<Rightarrow> int" where
  "getNextSeq st ch = (case map_get (buffers st) ch of None \<Rightarrow> 1 | Some buf \<Rightarrow> nextSeq buf)"

definition bumpSeq :: "channel_id \<Rightarrow> int \<Rightarrow> chunker \<Rightarrow> chunker" where
  "bumpSeq ch minSeq st =
     (case map_get (buffers st) ch of
        None \<Rightarrow> st
      | Some buf \<Rightarrow> if nextSeq buf < minSeq then st\<lparr>buffers := map_set ch (buf\<lparr>nextSeq := minSeq\<rparr>) (buffers st)\<rparr> else st)"

section \<open>Snapshots and attaching\<close>

definition storeSnapshot ::
  "string \<Rightarrow> string \<Rightarrow> string \<Rightarrow> channel_id \<Rightarrow> byte list \<Rightarrow> int \<Rightarrow> chunker \<Rightarrow> spool_error + chunker" where
  "storeSnapshot flushId newId now ch blob agentLastSeq st =
     (case flush flushId now ch st of
        Inl e \<Rightarrow> Inl e
      | Inr st \<Rightarrow>
          let maxSeq = getMaxSeq (spool_db st) ch;
              snapshotSeq = max maxSeq agentLastSeq + 1
          in case insertSnapshot newId now \<lparr>in_channelId = ch, in_seq = snapshotSeq, in_kind = KSnapshot, in_codec = None,
                     in_dataBlob = blob, in_uncompressedLen = length blob\<rparr> (spool_db st) of
               Inl e \<Rightarrow> Inl e
             | Inr db \<Rightarrow> Inr (bumpSeq ch (snapshotSeq + 1) (st\<lparr>spool_db := db\<rparr>)))"

definition MAX_ATTACH_TAIL_BYTES :: nat where
  "MAX_ATTACH_TAIL_BYTES = 128 * 1024"

fun boundTail_loop :: "nat \<Rightarrow> Chunk list \<Rightarrow> bool" where
  "boundTail_loop sofar [] = False"
| "boundTail_loop sofar (c # cs) =
     (let sofar = sofar + length (dataBlob c) in sofar > MAX_ATTACH_TAIL_BYTES \<or> boundTail_loop sofar cs)"

definition boundTail :: "Chunk list \<Rightarrow> byte list list \<times> bool" where
  "boundTail cs = (if boundTail_loop 0 cs then ([], True) else (map dataBlob cs, False))"

text \<open>\<open>JSON.parse\<close> of the stored snapshot is the argument \<open>parse\<close>; it may throw.\<close>

definition buildAttachPayload ::
  "(byte list \<Rightarrow> 'a option) \<Rightarrow> spool \<Rightarrow> channel_id \<Rightarrow> 'a option \<times> byte list list \<times> bool" where
  "buildAttachPayload parse db ch =
     (case getLatestSnapshot db ch of
        None \<Rightarrow> (None, [], False)
      | Some snapshotChunk \<Rightarrow>
          (parse (dataBlob snapshotChunk),
           boundTail (getChunksByChannel db ch (Some KOutput) (Some (seq snapshotChunk)) None)))"

section \<open>Laws\<close>

lemma place_all_concat:
  "length result = offset + length (concat cs) \<Longrightarrow> place_all offset cs result = take offset result @ concat cs"
proof (induction cs arbitrary: offset result)
  case (Cons c cs)
  have "length (place offset c result) = offset + length c + length (concat cs)" using Cons.prems by (simp add: place_def)
  from Cons.IH [of "place offset c result" "offset + length c"] this show ?case using Cons.prems by (simp add: place_def)
qed simp

lemma concatChunks_concat: "n = length (concat cs) \<Longrightarrow> concatChunks cs n = concat cs"
  using place_all_concat [of "replicate n 0" 0 cs] by (simp add: concatChunks_def)

lemma boundTail_loop_sum: "boundTail_loop n cs \<Longrightarrow> MAX_ATTACH_TAIL_BYTES < n + length (concat (map dataBlob cs))"
  by (induction n cs rule: boundTail_loop.induct) (auto simp: Let_def)

lemma boundTail_loop_sum': "MAX_ATTACH_TAIL_BYTES < n + length (concat (map dataBlob cs)) \<Longrightarrow> n \<le> MAX_ATTACH_TAIL_BYTES \<Longrightarrow> boundTail_loop n cs"
proof (induction n cs rule: boundTail_loop.induct)
  case (2 n c cs)
  then show ?case by (cases "n + length (dataBlob c) > MAX_ATTACH_TAIL_BYTES") (simp_all add: Let_def)
qed simp

section \<open>The invariant\<close>

text \<open>
  A channel's next seq is above everything it stores, its byte count is right, and while bytes wait
  a flush timer is armed.
\<close>

definition buffer_counts :: "spool \<Rightarrow> channel_id \<Rightarrow> ChannelBuffer \<Rightarrow> bool" where
  "buffer_counts db ch buf \<longleftrightarrow>
     getMaxSeq db ch < nextSeq buf \<and> 0 < nextSeq buf \<and> totalBytes buf = length (concat (chunks buf))"

definition buffer_ok :: "spool \<Rightarrow> channel_id \<Rightarrow> ChannelBuffer \<Rightarrow> bool" where
  "buffer_ok db ch buf \<longleftrightarrow>
     buffer_counts db ch buf \<and> totalBytes buf < CHUNK_MAX_BYTES \<and> (0 < totalBytes buf \<longrightarrow> cb_timer buf)"

definition db_ok :: "spool \<Rightarrow> bool" where
  "db_ok db \<longleftrightarrow> spool_ok db \<and> (\<forall>r \<in> set db. 0 < seq r)"

definition buffers_ok :: "spool \<Rightarrow> (channel_id, ChannelBuffer) jmap \<Rightarrow> bool" where
  "buffers_ok db bufs \<longleftrightarrow> (\<forall>ch buf. map_get bufs ch = Some buf \<longrightarrow> buffer_ok db ch buf)"

definition chunker_inv :: "chunker \<Rightarrow> bool" where
  "chunker_inv st \<longleftrightarrow> db_ok (spool_db st) \<and> buffers_ok (spool_db st) (buffers st)"

lemma getMaxSeq_nonneg: "db_ok db \<Longrightarrow> 0 \<le> getMaxSeq db ch"
proof (cases "last_option (rows_of ch db)")
  case (Some r)
  assume "db_ok db"
  then show ?thesis using last_option_in [OF Some] Some by (auto simp: getMaxSeq_def db_ok_def)
qed (simp add: getMaxSeq_def)

lemma buffer_ok_cong: "getMaxSeq db' ch = getMaxSeq db ch \<Longrightarrow> buffer_ok db' ch buf = buffer_ok db ch buf"
  by (simp add: buffer_ok_def buffer_counts_def)

lemma buffers_ok_upd:
  assumes "buffers_ok db bufs" "\<And>ch'. ch' \<noteq> ch \<Longrightarrow> getMaxSeq db' ch' = getMaxSeq db ch'" "buffer_ok db' ch buf"
  shows "buffers_ok db' (map_set ch buf bufs)"
  using assms by (auto simp: buffers_ok_def) (metis buffer_ok_cong)

text \<open>A flush either has nothing to write, or adds one output row, above all rows of its channel.\<close>

lemma flush_cases:
  assumes db: "db_ok (spool_db st)" and fresh: "newId \<notin> set (map chunk_id (spool_db st))"
    and buf: "\<And>buf. map_get (buffers st) ch = Some buf \<Longrightarrow> buffer_counts (spool_db st) ch buf"
  obtains (nothing) "flush newId now ch st = Inr st" "\<And>buf. map_get (buffers st) ch = Some buf \<Longrightarrow> concat (chunks buf) = []"
  | (written) buf r where "map_get (buffers st) ch = Some buf" "concat (chunks buf) \<noteq> []"
      "flush newId now ch st = Inr \<lparr>spool_db = spool_db st @ [r],
         buffers = map_set ch \<lparr>chunks = [], totalBytes = 0, cb_timer = False, nextSeq = nextSeq buf + 1\<rparr> (buffers st)\<rparr>"
      "rows_of ch (spool_db st @ [r]) = rows_of ch (spool_db st) @ [r]" "\<And>ch'. ch' \<noteq> ch \<Longrightarrow> rows_of ch' (spool_db st @ [r]) = rows_of ch' (spool_db st)"
      "chunkKind r = KOutput" "dataBlob r = concat (chunks buf)" "seq r = nextSeq buf" "chunk_id r = newId" "db_ok (spool_db st @ [r])"
proof (cases "\<exists>buf. map_get (buffers st) ch = Some buf \<and> totalBytes buf \<noteq> 0")
  case False
  then have "flush newId now ch st = Inr st" by (auto simp: flush_def split: option.split)
  moreover have "concat (chunks buf) = []" if "map_get (buffers st) ch = Some buf" for buf
    using buf [OF that] that False by (auto simp: buffer_counts_def)
  ultimately show thesis by (rule nothing)
next
  case True
  then obtain b where b: "map_get (buffers st) ch = Some b" "totalBytes b \<noteq> 0" by blast
  have counts: "getMaxSeq (spool_db st) ch < nextSeq b" "0 < nextSeq b" "totalBytes b = length (concat (chunks b))"
    using buf [OF b(1)] by (auto simp: buffer_counts_def)
  let ?inp = "output_chunk ch (nextSeq b) (concatChunks (chunks b) (totalBytes b))"
  have blob: "concatChunks (chunks b) (totalBytes b) = concat (chunks b)" by (rule concatChunks_concat [OF counts(3)])
  have inp: "in_channelId ?inp = ch" "in_seq ?inp = nextSeq b" "in_kind ?inp = KOutput" "in_dataBlob ?inp = concat (chunks b)"
    by (simp_all add: output_chunk_def blob)
  have sp: "spool_ok (spool_db st)" using db by (simp add: db_ok_def)
  obtain r where r: "insertChunk newId now ?inp (spool_db st) = Inr (spool_db st @ [r])"
    "rows_of ch (spool_db st @ [r]) = rows_of ch (spool_db st) @ [r]" "seq r = nextSeq b" "chunkKind r = KOutput"
    "dataBlob r = concat (chunks b)" "chunk_id r = newId" "spool_ok (spool_db st @ [r])"
    "\<And>ch'. ch' \<noteq> ch \<Longrightarrow> rows_of ch' (spool_db st @ [r]) = rows_of ch' (spool_db st)"
    by (rule insertChunk_above [OF sp fresh, of ?inp now]) (use counts(1) in \<open>auto simp: inp\<close>)
  show thesis
    by (rule written [OF b(1)]) (use r b counts db in \<open>auto simp: flush_def Let_def db_ok_def\<close>)
qed

lemma getMaxSeq_rows: "rows_of ch db' = rows_of ch db \<Longrightarrow> getMaxSeq db' ch = getMaxSeq db ch"
  by (simp add: getMaxSeq_def)

lemma flush_inv:
  assumes db: "db_ok (spool_db st)" and fresh: "newId \<notin> set (map chunk_id (spool_db st))"
    and here: "\<And>buf. map_get (buffers st) ch = Some buf \<Longrightarrow> buffer_counts (spool_db st) ch buf"
    and others: "\<And>ch' buf. ch' \<noteq> ch \<Longrightarrow> map_get (buffers st) ch' = Some buf \<Longrightarrow> buffer_ok (spool_db st) ch' buf"
  shows "\<exists>st'. flush newId now ch st = Inr st' \<and> chunker_inv st'"
proof (rule flush_cases [OF db fresh here, of now])
  assume f: "flush newId now ch st = Inr st" "\<And>buf. map_get (buffers st) ch = Some buf \<Longrightarrow> concat (chunks buf) = []"
  have "buffer_ok (spool_db st) ch' buf" if "map_get (buffers st) ch' = Some buf" for ch' buf
  proof (cases "ch' = ch")
    case True
    with that here [of buf] f(2) [of buf] show ?thesis by (simp add: buffer_ok_def buffer_counts_def CHUNK_MAX_BYTES_def)
  qed (use that others in blast)
  with f db show ?thesis by (simp add: chunker_inv_def buffers_ok_def)
next
  fix b r assume b: "map_get (buffers st) ch = Some b" and
    f: "flush newId now ch st = Inr \<lparr>spool_db = spool_db st @ [r],
         buffers = map_set ch \<lparr>chunks = [], totalBytes = 0, cb_timer = False, nextSeq = nextSeq b + 1\<rparr> (buffers st)\<rparr>"
    and rows: "rows_of ch (spool_db st @ [r]) = rows_of ch (spool_db st) @ [r]"
      "\<And>ch'. ch' \<noteq> ch \<Longrightarrow> rows_of ch' (spool_db st @ [r]) = rows_of ch' (spool_db st)"
    and r: "seq r = nextSeq b" and ok: "db_ok (spool_db st @ [r])"
  have "buffer_ok (spool_db st @ [r]) ch' buf"
    if "map_get (map_set ch \<lparr>chunks = [], totalBytes = 0, cb_timer = False, nextSeq = nextSeq b + 1\<rparr> (buffers st)) ch' = Some buf" for ch' buf
  proof (cases "ch' = ch")
    case True
    with that here [OF b] rows(1) r show ?thesis by (auto simp: buffer_ok_def buffer_counts_def getMaxSeq_def CHUNK_MAX_BYTES_def)
  next
    case False
    with that others [OF False] buffer_ok_cong [OF getMaxSeq_rows [OF rows(2) [OF False]]] show ?thesis by auto
  qed
  with f ok show ?thesis by (simp add: chunker_inv_def buffers_ok_def)
qed

lemma inv_buffer: "chunker_inv st \<Longrightarrow> map_get (buffers st) ch = Some buf \<Longrightarrow> buffer_ok (spool_db st) ch buf"
  by (simp add: chunker_inv_def buffers_ok_def)

lemma buffer_ok_counts: "buffer_ok db ch buf \<Longrightarrow> buffer_counts db ch buf"
  by (simp add: buffer_ok_def)

lemma chunker_inv_flush:
  assumes "chunker_inv st" "newId \<notin> set (map chunk_id (spool_db st))"
  shows "\<exists>st'. flush newId now ch st = Inr st' \<and> chunker_inv st'"
  by (rule flush_inv) (use assms inv_buffer [OF assms(1)] in \<open>auto simp: chunker_inv_def buffer_ok_counts\<close>)

lemma chunker_inv_put:
  assumes "chunker_inv st" "buffer_ok (spool_db st) ch buf"
  shows "chunker_inv (st\<lparr>buffers := map_set ch buf (buffers st)\<rparr>)"
  using assms by (auto simp: chunker_inv_def intro: buffers_ok_upd)

lemma chunker_inv_onOutput:
  assumes "chunker_inv st" "newId \<notin> set (map chunk_id (spool_db st))"
  shows "\<exists>st'. onOutput newId now ch d st = Inr st' \<and> chunker_inv st'"
proof (cases "map_get (buffers st) ch")
  case (Some buf)
  have ok: "buffer_ok (spool_db st) ch buf" by (rule inv_buffer [OF assms(1) Some])
  let ?buf = "buf\<lparr>chunks := chunks buf @ [d], totalBytes := totalBytes buf + length d\<rparr>"
  have counts: "buffer_counts (spool_db st) ch ?buf" using ok by (simp add: buffer_ok_def buffer_counts_def)
  show ?thesis
  proof (cases "totalBytes ?buf \<ge> CHUNK_MAX_BYTES")
    case True
    have "\<exists>st'. flush newId now ch (st\<lparr>buffers := map_set ch ?buf (buffers st)\<rparr>) = Inr st' \<and> chunker_inv st'"
      by (rule flush_inv) (use assms counts inv_buffer [OF assms(1)] in \<open>auto simp: chunker_inv_def split: if_splits\<close>)
    with Some True show ?thesis by (simp add: onOutput_def Let_def)
  next
    case False
    then have "buffer_ok (spool_db st) ch (?buf\<lparr>cb_timer := True\<rparr>)" using counts by (simp add: buffer_ok_def buffer_counts_def)
    from chunker_inv_put [OF assms(1) this] Some False show ?thesis by (simp add: onOutput_def Let_def)
  qed
qed (simp add: onOutput_def assms)

lemma chunker_inv_flushTimer:
  assumes "chunker_inv st" "newId \<notin> set (map chunk_id (spool_db st))"
  shows "\<exists>st'. flushTimer newId now ch st = Inr st' \<and> chunker_inv st'"
proof (cases "map_get (buffers st) ch")
  case (Some buf)
  have "buffer_counts (spool_db st) ch (buf\<lparr>cb_timer := False\<rparr>)"
    using inv_buffer [OF assms(1) Some] by (simp add: buffer_ok_def buffer_counts_def)
  then have "\<exists>st'. flush newId now ch (st\<lparr>buffers := map_set ch (buf\<lparr>cb_timer := False\<rparr>) (buffers st)\<rparr>) = Inr st' \<and> chunker_inv st'"
    by (intro flush_inv) (use assms inv_buffer [OF assms(1)] in \<open>auto simp: chunker_inv_def split: if_splits\<close>)
  with Some show ?thesis by (simp add: flushTimer_def)
qed (simp add: flushTimer_def assms)

lemma chunker_inv_untrack:
  assumes "chunker_inv st" "newId \<notin> set (map chunk_id (spool_db st))"
  shows "\<exists>st'. untrackChannel newId now ch st = Inr st' \<and> chunker_inv st'"
proof -
  from chunker_inv_flush [OF assms, of now ch] obtain st' where "flush newId now ch st = Inr st'" "chunker_inv st'" by blast
  moreover from this(2) have "chunker_inv (st'\<lparr>buffers := map_delete ch (buffers st')\<rparr>)"
    by (auto simp: chunker_inv_def buffers_ok_def split: if_splits)
  ultimately show ?thesis by (simp add: untrackChannel_def)
qed

lemma chunker_inv_track: "chunker_inv st \<Longrightarrow> chunker_inv (trackChannel ch None st)"
proof -
  assume inv: "chunker_inv st"
  then have "0 \<le> getMaxSeq (spool_db st) ch" by (simp add: chunker_inv_def getMaxSeq_nonneg)
  then have "buffer_ok (spool_db st) ch \<lparr>chunks = [], totalBytes = 0, cb_timer = False, nextSeq = getMaxSeq (spool_db st) ch + 1\<rparr>"
    by (simp add: buffer_ok_def buffer_counts_def CHUNK_MAX_BYTES_def)
  from chunker_inv_put [OF inv this] inv show ?thesis by (simp add: trackChannel_def Let_def)
qed

text \<open>Raising the next seq, however far, is safe; so is deleting rows.\<close>

lemma bumpSeq_inv:
  assumes db: "db_ok (spool_db st)"
    and here: "\<And>buf. map_get (buffers st) ch = Some buf \<Longrightarrow>
       buffer_ok (spool_db st) ch (buf\<lparr>nextSeq := max (nextSeq buf) q\<rparr>)"
    and others: "\<And>ch' buf. ch' \<noteq> ch \<Longrightarrow> map_get (buffers st) ch' = Some buf \<Longrightarrow> buffer_ok (spool_db st) ch' buf"
  shows "chunker_inv (bumpSeq ch q st)"
proof (cases "map_get (buffers st) ch")
  case None
  with assms show ?thesis by (auto simp: bumpSeq_def chunker_inv_def buffers_ok_def) (metis option.distinct(1))
next
  case (Some buf)
  have "buffer_ok (spool_db st) ch' b" if "map_get (buffers (bumpSeq ch q st)) ch' = Some b" for ch' b
    using that others here [OF Some] Some by (cases "ch' = ch") (auto simp: bumpSeq_def max_def split: if_splits)
  with db show ?thesis by (simp add: chunker_inv_def buffers_ok_def bumpSeq_def split: option.split)
qed

lemma chunker_inv_filter:
  assumes "chunker_inv st"
  shows "chunker_inv (st\<lparr>spool_db := filter P (spool_db st)\<rparr>)"
proof -
  have db: "db_ok (spool_db st)" using assms by (simp add: chunker_inv_def)
  then have "db_ok (filter P (spool_db st))" by (auto simp: db_ok_def)
  moreover have "buffer_ok (filter P (spool_db st)) ch buf" if "map_get (buffers st) ch = Some buf" for ch buf
    using inv_buffer [OF assms that] getMaxSeq_mono [of "spool_db st" P ch] db
    by (auto simp: buffer_ok_def buffer_counts_def db_ok_def)
  ultimately show ?thesis by (simp add: chunker_inv_def buffers_ok_def)
qed

lemma latest_in:
  "getLatestSnapshot db ch = Some p \<Longrightarrow> p \<in> set db \<and> channelId p = ch \<and> chunkKind p = KSnapshot"
  by (auto simp: getLatestSnapshot_def dest!: last_option_in)

text \<open>
  A snapshot stored above everything its channel has takes the place of the one before; output
  rows, and other channels, stay.
\<close>

lemma insertSnapshot_above:
  assumes ok: "spool_ok db" and fresh: "newId \<notin> set (map chunk_id db)" and inp: "in_channelId inp = ch" "in_seq inp = q" "in_dataBlob inp = blob"
    and above: "getMaxSeq db ch < q"
  obtains db' r where "insertSnapshot newId now inp db = Inr db'" "spool_ok db'"
    "rows_of ch db' = filter (\<lambda>x. Some x \<noteq> getLatestSnapshot db ch) (rows_of ch db) @ [r]"
    "chunkKind r = KSnapshot" "seq r = q" "dataBlob r = blob" "\<And>ch'. ch' \<noteq> ch \<Longrightarrow> rows_of ch' db' = rows_of ch' db"
    "\<And>x. x \<in> set db' \<Longrightarrow> x \<in> set db \<or> x = r"
proof -
  let ?inp = "inp\<lparr>in_kind := KSnapshot\<rparr>"
  obtain r where r: "insertChunk newId now ?inp db = Inr (db @ [r])" "rows_of ch (db @ [r]) = rows_of ch db @ [r]"
    "seq r = q" "chunkKind r = KSnapshot" "dataBlob r = blob" "chunk_id r = newId" "spool_ok (db @ [r])"
    "\<And>ch'. ch' \<noteq> ch \<Longrightarrow> rows_of ch' (db @ [r]) = rows_of ch' db"
    by (rule insertChunk_above [OF ok fresh, of ?inp now]) (use inp above in auto)
  show thesis
  proof (cases "getLatestSnapshot db ch")
    case None
    with r inp show thesis by (intro that [of "db @ [r]" r]) (auto simp: insertSnapshot_def)
  next
    case (Some p)
    from latest_in [OF Some] have p: "p \<in> set db" "channelId p = ch" by auto
    then have "seq p < q" using getMaxSeq_ge [OF p] above by simp
    have only: "chunk_id x = chunk_id p \<longleftrightarrow> x = p" if "x \<in> set db" for x
      using ok p(1) that by (auto simp: spool_ok_def distinct_map inj_on_def)
    have "r \<noteq> p" "chunk_id r \<noteq> chunk_id p" using r(6) fresh p(1) by auto
    let ?db = "filter (\<lambda>x. chunk_id x \<noteq> chunk_id p) (db @ [r])"
    have f: "filter (\<lambda>x. chunk_id x \<noteq> chunk_id p) (rows_of c db) = filter (\<lambda>x. x \<noteq> p) (rows_of c db)" for c
      using only by (auto intro!: filter_cong)
    have "rows_of ch ?db = filter (\<lambda>x. x \<noteq> p) (rows_of ch db) @ [r]"
      unfolding rows_of_filter r(2) using f \<open>chunk_id r \<noteq> chunk_id p\<close> by simp
    moreover have "rows_of c ?db = rows_of c db" if "c \<noteq> ch" for c
      unfolding rows_of_filter r(8) [OF that] f using p(2) that by (auto intro!: filter_True)
    moreover have "spool_ok ?db" using r(7) by (rule spool_ok_filter)
    moreover have "insertSnapshot newId now inp db = Inr ?db"
      using Some r(1) inp \<open>seq p < q\<close> by (simp add: insertSnapshot_def)
    moreover have "x \<in> set db \<or> x = r" if "x \<in> set ?db" for x using that by (auto split: if_splits)
    moreover have "filter (\<lambda>x. Some x \<noteq> getLatestSnapshot db ch) (rows_of ch db) = filter (\<lambda>x. x \<noteq> p) (rows_of ch db)"
      by (simp add: Some)
    ultimately show thesis using r(3,4,5) by (intro that [of ?db r]) metis+
  qed
qed

definition waiting :: "(channel_id, ChannelBuffer) jmap \<Rightarrow> channel_id \<Rightarrow> byte list" where
  "waiting bufs ch = (case map_get bufs ch of None \<Rightarrow> [] | Some buf \<Rightarrow> concat (chunks buf))"

lemma waiting_simps [simp]:
  "waiting (map_set ch buf bufs) ch' = (if ch' = ch then concat (chunks buf) else waiting bufs ch')"
  "waiting (map_delete ch bufs) ch' = (if ch' = ch then [] else waiting bufs ch')"
  by (simp_all add: waiting_def)

lemma waiting_bump [simp]: "waiting (buffers (bumpSeq ch q st)) ch' = waiting (buffers st) ch'"
  by (auto simp: waiting_def bumpSeq_def split: option.split)

lemma bumpSeq_db [simp]: "spool_db (bumpSeq ch q st) = spool_db st"
  by (auto simp: bumpSeq_def split: option.split)

definition owed :: "chunker \<Rightarrow> channel_id \<Rightarrow> byte list" where
  "owed st ch =
     concat (map dataBlob (filter (\<lambda>r. chunkKind r = KOutput
        \<and> (case getLatestSnapshot (spool_db st) ch of None \<Rightarrow> True | Some p \<Rightarrow> seq p < seq r)) (rows_of ch (spool_db st))))
     @ waiting (buffers st) ch"

lemma owed_cong:
  assumes "rows_of ch (spool_db st') = rows_of ch (spool_db st)"
    "waiting (buffers st') ch = waiting (buffers st) ch"
  shows "owed st' ch = owed st ch"
  using assms by (simp add: owed_def getLatestSnapshot_def)

lemma owed_flush:
  assumes db: "db_ok (spool_db st)" and fresh: "newId \<notin> set (map chunk_id (spool_db st))"
    and buf: "\<And>buf. map_get (buffers st) ch = Some buf \<Longrightarrow> buffer_counts (spool_db st) ch buf"
    and f: "flush newId now ch st = Inr st'"
  shows "owed st' ch' = owed st ch'" and "waiting (buffers st') ch = []"
proof -
  have "owed st' ch' = owed st ch' \<and> waiting (buffers st') ch = []"
  proof (rule flush_cases [OF db fresh buf, of now])
    assume "flush newId now ch st = Inr st" "\<And>buf. map_get (buffers st) ch = Some buf \<Longrightarrow> concat (chunks buf) = []"
    with f show ?thesis by (simp add: waiting_def split: option.split)
  next
    fix b r assume b: "map_get (buffers st) ch = Some b" and
      fl: "flush newId now ch st = Inr \<lparr>spool_db = spool_db st @ [r],
         buffers = map_set ch \<lparr>chunks = [], totalBytes = 0, cb_timer = False, nextSeq = nextSeq b + 1\<rparr> (buffers st)\<rparr>"
      and rows: "rows_of ch (spool_db st @ [r]) = rows_of ch (spool_db st) @ [r]"
        "\<And>ch'. ch' \<noteq> ch \<Longrightarrow> rows_of ch' (spool_db st @ [r]) = rows_of ch' (spool_db st)"
      and r: "chunkKind r = KOutput" "dataBlob r = concat (chunks b)" "seq r = nextSeq b"
    have st': "st' = \<lparr>spool_db = spool_db st @ [r],
         buffers = map_set ch \<lparr>chunks = [], totalBytes = 0, cb_timer = False, nextSeq = nextSeq b + 1\<rparr> (buffers st)\<rparr>"
      using f fl by simp
    have latest: "getLatestSnapshot (spool_db st @ [r]) ch = getLatestSnapshot (spool_db st) ch"
      using rows(1) r(1) by (simp add: getLatestSnapshot_def)
    have "seq p < seq r" if "getLatestSnapshot (spool_db st) ch = Some p" for p
      using latest_in [OF that] getMaxSeq_ge [of p "spool_db st" ch] buf [OF b] r(3) by (simp add: buffer_counts_def)
    then have "owed st' ch = owed st ch"
      using b rows(1) r latest by (auto simp: owed_def st' waiting_def split: option.split)
    moreover have "owed st' ch' = owed st ch'" if "ch' \<noteq> ch"
      by (rule owed_cong) (use that rows(2) in \<open>simp_all add: st'\<close>)
    ultimately show ?thesis by (cases "ch' = ch") (auto simp: st')
  qed
  then show "owed st' ch' = owed st ch'" and "waiting (buffers st') ch = []" by blast+
qed

lemma storeSnapshot_ok:
  assumes inv: "chunker_inv st" and fresh: "flushId \<notin> set (map chunk_id (spool_db st))" "newId \<notin> set (map chunk_id (spool_db st))" "newId \<noteq> flushId"
  shows "\<exists>st'. storeSnapshot flushId newId now ch blob agentLast st = Inr st' \<and> chunker_inv st'
     \<and> owed st' ch' = (if ch' = ch then [] else owed st ch')"
proof -
  have db: "db_ok (spool_db st)" using inv by (simp add: chunker_inv_def)
  have cnt: "buffer_counts (spool_db st) ch b" if "map_get (buffers st) ch = Some b" for b
    using inv_buffer [OF inv that] by (rule buffer_ok_counts)
  from chunker_inv_flush [OF inv fresh(1), of now ch] obtain st1 where
    f: "flush flushId now ch st = Inr st1" and inv1: "chunker_inv st1" by blast
  note ow = owed_flush [OF db fresh(1) cnt f]
  have ids: "newId \<notin> set (map chunk_id (spool_db st1))"
    by (rule flush_cases [OF db fresh(1) cnt, of now]) (use f fresh in auto)
  let ?q = "max (getMaxSeq (spool_db st1) ch) agentLast + 1"
  let ?inp = "\<lparr>in_channelId = ch, in_seq = ?q, in_kind = KSnapshot, in_codec = None, in_dataBlob = blob, in_uncompressedLen = length blob\<rparr>"
  have db1: "db_ok (spool_db st1)" "spool_ok (spool_db st1)" using inv1 by (simp_all add: chunker_inv_def db_ok_def)
  obtain db' r where i: "insertSnapshot newId now ?inp (spool_db st1) = Inr db'" "spool_ok db'"
    "rows_of ch db' = filter (\<lambda>x. Some x \<noteq> getLatestSnapshot (spool_db st1) ch) (rows_of ch (spool_db st1)) @ [r]"
    "chunkKind r = KSnapshot" "seq r = ?q" "\<And>ch'. ch' \<noteq> ch \<Longrightarrow> rows_of ch' db' = rows_of ch' (spool_db st1)"
    "\<And>x. x \<in> set db' \<Longrightarrow> x \<in> set (spool_db st1) \<or> x = r"
    by (rule insertSnapshot_above [OF db1(2) ids, of ?inp ch ?q blob now]) auto
  have q: "0 < ?q" using getMaxSeq_nonneg [OF db1(1), of ch] by simp
  have "0 < seq x" if "x \<in> set db'" for x using i(7) [OF that] i(5) q db1(1) by (auto simp: db_ok_def)
  then have db': "db_ok db'" using i(2) by (simp add: db_ok_def)
  have mx: "getMaxSeq db' ch = ?q" using i(3,5) by (simp add: getMaxSeq_def)
  let ?st' = "bumpSeq ch (?q + 1) (st1\<lparr>spool_db := db'\<rparr>)"
  have "chunker_inv ?st'"
  proof (rule bumpSeq_inv)
    show "buffer_ok (spool_db (st1\<lparr>spool_db := db'\<rparr>)) ch (b\<lparr>nextSeq := max (nextSeq b) (?q + 1)\<rparr>)"
      if "map_get (buffers (st1\<lparr>spool_db := db'\<rparr>)) ch = Some b" for b
      using inv_buffer [OF inv1, of ch b] that mx q by (auto simp: buffer_ok_def buffer_counts_def)
    show "buffer_ok (spool_db (st1\<lparr>spool_db := db'\<rparr>)) c b"
      if "c \<noteq> ch" "map_get (buffers (st1\<lparr>spool_db := db'\<rparr>)) c = Some b" for c b
      using inv_buffer [OF inv1, of c b] that buffer_ok_cong [OF getMaxSeq_rows [OF i(6) [OF that(1)]]] by simp
  qed (simp add: db')
  moreover have low: "seq x < ?q" if "x \<in> set (rows_of ch (spool_db st1))" for x
    using that getMaxSeq_ge [of x "spool_db st1" ch] by auto
  have latest: "getLatestSnapshot db' ch = Some r" using i(3,4) by (simp add: getLatestSnapshot_def)
  have "owed ?st' ch = []"
  proof -
    have "filter (\<lambda>x. chunkKind x = KOutput \<and> seq r < seq x) (rows_of ch db') = []"
      using i(3,4,5) low by (fastforce simp: filter_empty_conv)
    with ow(2) latest show ?thesis by (simp add: owed_def)
  qed
  moreover have "owed ?st' ch' = owed st ch'" if "ch' \<noteq> ch"
  proof -
    have "owed ?st' ch' = owed st1 ch'"
      by (rule owed_cong) (use i(6) [OF that] in simp_all)
    with ow(1) show ?thesis by simp
  qed
  ultimately show ?thesis using f i(1) by (simp add: storeSnapshot_def Let_def)
qed

section \<open>The writer as a machine\<close>

text \<open>
  What happens to the spool, in any order: channels tracked and untracked, output, timers,
  flushes, snapshots, deletes by the garbage collector, and a restart that loses the buffers.
\<close>

datatype chunk_event =
    Track channel_id
  | Output string string channel_id "byte list"
  | TimerFlush string string channel_id
  | Flush string string channel_id
  | Untrack string string channel_id
  | Snapshot string string string channel_id "byte list" int
  | Collect channel_id int int ChunkKinds ChunkBatchLimits
  | Restart

fun chunk_ids :: "chunk_event \<Rightarrow> string list" where
  "chunk_ids (Output i _ _ _) = [i]"
| "chunk_ids (TimerFlush i _ _) = [i]"
| "chunk_ids (Flush i _ _) = [i]"
| "chunk_ids (Untrack i _ _) = [i]"
| "chunk_ids (Snapshot i j _ _ _ _) = [i, j]"
| "chunk_ids _ = []"

fun chunk_enabled :: "spool_error + chunker \<Rightarrow> chunk_event \<Rightarrow> bool" where
  "chunk_enabled (Inl _) e = False"
| "chunk_enabled (Inr st) e = (distinct (chunk_ids e) \<and> set (chunk_ids e) \<inter> chunk_id ` set (spool_db st) = {})"

fun chunk_op :: "chunk_event \<Rightarrow> chunker \<Rightarrow> spool_error + chunker" where
  "chunk_op (Track ch) st = Inr (trackChannel ch None st)"
| "chunk_op (Output i now ch d) st = onOutput i now ch d st"
| "chunk_op (TimerFlush i now ch) st = flushTimer i now ch st"
| "chunk_op (Flush i now ch) st = flush i now ch st"
| "chunk_op (Untrack i now ch) st = untrackChannel i now ch st"
| "chunk_op (Snapshot i j now ch blob q) st = storeSnapshot i j now ch blob q st"
| "chunk_op (Collect ch a t k l) st = Inr (st\<lparr>spool_db := snd (deleteChunkBatch ch a t k l (spool_db st))\<rparr>)"
| "chunk_op Restart st = Inr (st\<lparr>buffers := []\<rparr>)"

definition chunk_step :: "spool_error + chunker \<Rightarrow> chunk_event \<Rightarrow> spool_error + chunker" where
  "chunk_step x e = (case x of Inl err \<Rightarrow> Inl err | Inr st \<Rightarrow> chunk_op e st)"

definition chunk_init :: "spool_error + chunker" where
  "chunk_init = Inr \<lparr>spool_db = [], buffers = []\<rparr>"

lemma chunk_op_inv:
  assumes "chunker_inv st" "chunk_enabled (Inr st) e"
  shows "\<exists>st'. chunk_op e st = Inr st' \<and> chunker_inv st'"
proof (cases e)
  case (Collect ch a t k l)
  have "\<exists>P. snd (deleteChunkBatch ch a t k l (spool_db st)) = filter P (spool_db st)"
    by (auto simp: deleteChunkBatch_def Let_def split: prod.split option.split intro: exI [of _ "\<lambda>_. True"])
  with Collect chunker_inv_filter [OF assms(1)] show ?thesis by auto
next
  case (Snapshot i j now ch blob q)
  with storeSnapshot_ok [OF assms(1), of i j now ch blob q ch] assms(2) show ?thesis by auto
next
  case Restart
  with assms(1) show ?thesis by (simp add: chunker_inv_def buffers_ok_def)
next
  case (Output i now ch d)
  with chunker_inv_onOutput [OF assms(1), of i now ch d] assms(2) show ?thesis by auto
next
  case (TimerFlush i now ch)
  with chunker_inv_flushTimer [OF assms(1), of i now ch] assms(2) show ?thesis by auto
next
  case (Flush i now ch)
  with chunker_inv_flush [OF assms(1), of i now ch] assms(2) show ?thesis by auto
next
  case (Untrack i now ch)
  with chunker_inv_untrack [OF assms(1), of i now ch] assms(2) show ?thesis by auto
qed (simp add: chunker_inv_track assms(1))

definition chunk_run_ok :: "spool_error + chunker \<Rightarrow> bool" where
  "chunk_run_ok x = (case x of Inl _ \<Rightarrow> False | Inr st \<Rightarrow> chunker_inv st)"

interpretation chunks: event_machine chunk_init chunk_enabled chunk_step chunk_run_ok
proof
  show "chunk_run_ok chunk_init"
    by (simp add: chunk_run_ok_def chunk_init_def chunker_inv_def db_ok_def spool_ok_def buffers_ok_def)
  show "chunk_run_ok (chunk_step x e)" if "chunk_run_ok x" "chunk_enabled x e" for x e
    using that chunk_op_inv by (cases x) (fastforce simp: chunk_run_ok_def chunk_step_def)+
qed

text \<open>
  C2: terminal output is always written. Whatever the order of output, timers, snapshots, garbage
  collection and restarts, no insert ever meets a row with its seq, so no write fails; a channel's
  next seq stays above all it stores; and bytes that wait are fewer than a full chunk, with a timer
  armed to write them.
\<close>

theorem chunker_never_collides:
  assumes "runs chunk_enabled chunk_step chunk_init es"
  shows "\<exists>st. foldl chunk_step chunk_init es = Inr st
     \<and> (\<forall>ch buf. map_get (buffers st) ch = Some buf \<longrightarrow>
          getMaxSeq (spool_db st) ch < nextSeq buf \<and> length (concat (chunks buf)) < CHUNK_MAX_BYTES
          \<and> (concat (chunks buf) \<noteq> [] \<longrightarrow> cb_timer buf))"
proof -
  have "chunk_run_ok (foldl chunk_step chunk_init es)" by (rule chunks.inv_run [OF assms])
  then obtain st where st: "foldl chunk_step chunk_init es = Inr st" "chunker_inv st"
    by (auto simp: chunk_run_ok_def split: sum.splits)
  have "getMaxSeq (spool_db st) ch < nextSeq buf \<and> length (concat (chunks buf)) < CHUNK_MAX_BYTES
      \<and> (concat (chunks buf) \<noteq> [] \<longrightarrow> cb_timer buf)" if "map_get (buffers st) ch = Some buf" for ch buf
    using inv_buffer [OF st(2) that] unfolding buffer_ok_def buffer_counts_def by (metis length_greater_0_conv)
  with st(1) show ?thesis by blast
qed

theorem chunker_never_collides_witness:
  "\<exists>st. foldl chunk_step chunk_init [Track ''c'', Output ''i'' ''t'' ''c'' [1], Snapshot ''j'' ''k'' ''t'' ''c'' [2] 0] = Inr st
     \<and> (\<forall>buf. map_get (buffers st) ''c'' = Some buf \<longrightarrow> getMaxSeq (spool_db st) ''c'' < nextSeq buf)"
proof -
  have "runs chunk_enabled chunk_step chunk_init [Track ''c'', Output ''i'' ''t'' ''c'' [1], Snapshot ''j'' ''k'' ''t'' ''c'' [2] 0]"
    by (simp add: chunk_init_def chunk_step_def trackChannel_def onOutput_def CHUNK_MAX_BYTES_def Let_def map_has_def)
  from chunker_never_collides [OF this] show ?thesis by blast
qed

subsection \<open>What an attaching client is owed\<close>

lemma owed_append:
  assumes "map_get (buffers st) ch = Some buf" "concat (chunks buf') = concat (chunks buf) @ d"
  shows "owed (st\<lparr>buffers := map_set ch buf' (buffers st)\<rparr>) ch' = owed st ch' @ (if ch' = ch then d else [])"
  using assms by (simp add: owed_def waiting_def)

lemma owed_onOutput:
  assumes inv: "chunker_inv st" and fresh: "newId \<notin> set (map chunk_id (spool_db st))" and o: "onOutput newId now ch d st = Inr st'"
  shows "owed st' ch' = owed st ch' @ (if ch' = ch \<and> map_has (buffers st) ch then d else [])"
proof (cases "map_get (buffers st) ch")
  case None
  with o show ?thesis by (simp add: onOutput_def map_has_def)
next
  case (Some buf)
  let ?buf = "buf\<lparr>chunks := chunks buf @ [d], totalBytes := totalBytes buf + length d\<rparr>"
  let ?st = "st\<lparr>buffers := map_set ch ?buf (buffers st)\<rparr>"
  have more: "owed ?st ch' = owed st ch' @ (if ch' = ch then d else [])" by (rule owed_append [OF Some]) simp
  have db: "db_ok (spool_db ?st)" using inv by (simp add: chunker_inv_def)
  have cnt: "buffer_counts (spool_db ?st) ch b" if "map_get (buffers ?st) ch = Some b" for b
    using inv_buffer [OF inv Some] that by (auto simp: buffer_ok_def buffer_counts_def)
  show ?thesis
  proof (cases "totalBytes ?buf \<ge> CHUNK_MAX_BYTES")
    case True
    with o Some have "flush newId now ch ?st = Inr st'" by (simp add: onOutput_def Let_def)
    from owed_flush(1) [OF db _ cnt this] fresh more Some show ?thesis by (simp add: map_has_def)
  next
    case False
    with o Some have "st' = st\<lparr>buffers := map_set ch (?buf\<lparr>cb_timer := True\<rparr>) (buffers st)\<rparr>"
      by (auto simp: onOutput_def Let_def)
    with owed_append [OF Some, of "?buf\<lparr>cb_timer := True\<rparr>" d ch'] Some show ?thesis by (simp add: map_has_def)
  qed
qed

lemma owed_flush_inv:
  assumes "chunker_inv st" "newId \<notin> set (map chunk_id (spool_db st))" "flush newId now ch st = Inr st'"
  shows "owed st' ch' = owed st ch'" "waiting (buffers st') ch = []"
  using owed_flush [OF _ assms(2) buffer_ok_counts [OF inv_buffer [OF assms(1)]] assms(3)] assms(1)
  by (simp_all add: chunker_inv_def)

lemma owed_flushTimer:
  assumes inv: "chunker_inv st" and fresh: "newId \<notin> set (map chunk_id (spool_db st))" and o: "flushTimer newId now ch st = Inr st'"
  shows "owed st' ch' = owed st ch'"
proof (cases "map_get (buffers st) ch")
  case (Some buf)
  let ?st = "st\<lparr>buffers := map_set ch (buf\<lparr>cb_timer := False\<rparr>) (buffers st)\<rparr>"
  have cnt: "buffer_counts (spool_db ?st) ch b" if "map_get (buffers ?st) ch = Some b" for b
    using inv_buffer [OF inv Some] that by (auto simp: buffer_ok_def buffer_counts_def)
  have db: "db_ok (spool_db ?st)" using inv by (simp add: chunker_inv_def)
  from o Some have "flush newId now ch ?st = Inr st'" by (simp add: flushTimer_def)
  from owed_flush(1) [OF db _ cnt this] fresh have "owed st' ch' = owed ?st ch'" by simp
  with owed_append [OF Some, of "buf\<lparr>cb_timer := False\<rparr>" "[]" ch'] show ?thesis by simp
qed (use o in \<open>simp add: flushTimer_def\<close>)

lemma attach_payload_owed:
  "case buildAttachPayload parse (spool_db st) ch of (snap, tail, truncated) \<Rightarrow>
     getLatestSnapshot (spool_db st) ch \<noteq> None \<longrightarrow>
       (if truncated then MAX_ATTACH_TAIL_BYTES < length (owed st ch)
        else concat tail @ waiting (buffers st) ch = owed st ch)"
proof (cases "getLatestSnapshot (spool_db st) ch")
  case (Some p)
  let ?cs = "getChunksByChannel (spool_db st) ch (Some KOutput) (Some (seq p)) None"
  have ow: "owed st ch = concat (map dataBlob ?cs) @ waiting (buffers st) ch"
    by (simp add: owed_def getChunksByChannel_def Some)
  show ?thesis
  proof (cases "boundTail_loop 0 ?cs")
    case True
    with boundTail_loop_sum [OF True] Some ow show ?thesis by (simp add: buildAttachPayload_def boundTail_def)
  next
    case False
    with Some ow show ?thesis by (simp add: buildAttachPayload_def boundTail_def)
  qed
qed (simp add: buildAttachPayload_def)



end
