(* ===== verification/Spool_GC.thy ===== *)
theory Spool_GC
  imports Spool
begin

text \<open>
  The garbage collector of the spool, \<^verbatim>\<open>packages/hub/src/session/spool-gc.ts\<close>: one pass, or one
  purge, from its first step to its last. The steps a pass is cut into (\<open>Slicer\<close>) only decide when it
  yields, so they are not part of the model; nothing else writes to the spool during a modelled pass.
  What \<open>meta.db\<close> answers, and what \<open>incremental_vacuum\<close> does to the number of free pages, are arguments.
\<close>

section \<open>State\<close>

definition DELETE_BATCH :: ChunkBatchLimits where
  "DELETE_BATCH = \<lparr>maxRows = 256, maxBytes = 1024 * 1024\<rparr>"

definition WALK_ROWS :: nat where
  "WALK_ROWS = 512"

definition FIRST_SEQ :: int where
  "FIRST_SEQ = - (2 ^ 53 - 1)"

definition LAST_SEQ :: int where
  "LAST_SEQ = 2 ^ 53 - 1"

record GcPassStats =
  deletedChunks :: nat
  deletedBytes :: nat
  orphans :: nat
  freePages :: nat

definition no_stats :: GcPassStats where
  "no_stats = \<lparr>deletedChunks = 0, deletedBytes = 0, orphans = 0, freePages = 0\<rparr>"

section \<open>Deleting a range in batches\<close>

lemma weigh_last:
  "weigh mb b l rs = (b', Some q) \<Longrightarrow> l = Some q \<or> (\<exists>r \<in> set rs. seq r = q)"
  by (induction mb b l rs rule: weigh.induct) (auto simp: Let_def split: if_splits)

lemma weigh_None: "weigh mb b None rs = (b', None) \<Longrightarrow> rs = []"
proof -
  have "weigh mb b (Some q) rs \<noteq> (b', None)" for b q rs
    by (induction rs arbitrary: b q) (auto simp: Let_def)
  then show "weigh mb b None rs = (b', None) \<Longrightarrow> rs = []" by (cases rs) (auto simp: Let_def split: if_splits)
qed

lemma deleteChunkBatch_last:
  "deleteChunkBatch ch a t k l db = (res, db') \<Longrightarrow> lastSeq res = Some q \<Longrightarrow>
   a < q \<and> q \<le> t \<and> db' = filter (\<lambda>r. \<not> in_range ch a q k r) db \<and> deleted res = length (filter (in_range ch a q k) db)"
  by (auto simp: deleteChunkBatch_def Let_def in_range_def split: prod.splits option.splits dest!: weigh_last in_set_takeD)

lemma deleteChunkBatch_end:
  assumes "deleteChunkBatch ch a t k l db = (res, db')" "lastSeq res = None" "0 < maxRows l"
  shows "db' = db \<and> deleted res = 0 \<and> (\<forall>r \<in> set db. \<not> in_range ch a t k r)"
proof -
  obtain b lq where w: "weigh (maxBytes l) 0 None (take (maxRows l) (filter (in_range ch a t k) (rows_of ch db))) = (b, lq)" by fastforce
  with assms(1,2) have "lq = None" "db' = db" "deleted res = 0" by (auto simp: deleteChunkBatch_def split: option.splits)
  with w have "take (maxRows l) (filter (in_range ch a t k) (rows_of ch db)) = []" using weigh_None by blast
  with assms(3) have "filter (in_range ch a t k) (rows_of ch db) = []" by simp
  then have "\<forall>r \<in> set db. \<not> in_range ch a t k r" by (auto simp: filter_empty_conv in_range_def)
  with \<open>db' = db\<close> \<open>deleted res = 0\<close> show ?thesis by blast
qed

function deleteRange_from :: "channel_id \<Rightarrow> ChunkKinds \<Rightarrow> int \<Rightarrow> int \<Rightarrow> GcPassStats \<Rightarrow> spool \<Rightarrow> GcPassStats \<times> spool" where
  "deleteRange_from ch kinds throughSeq afterSeq stats db =
     (let (batch, db') = deleteChunkBatch ch afterSeq throughSeq kinds DELETE_BATCH db;
          stats' = stats\<lparr>deletedChunks := deletedChunks stats + deleted batch, deletedBytes := deletedBytes stats + batch_bytes batch\<rparr>
      in case lastSeq batch of
           None \<Rightarrow> (stats', db')
         | Some q \<Rightarrow> deleteRange_from ch kinds throughSeq q stats' db')"
  by pat_completeness auto
termination
  by (relation "measure (\<lambda>(ch, kinds, t, a, stats, db). nat (t - a))")
    (auto dest: deleteChunkBatch_last [OF sym])

declare deleteRange_from.simps [simp del]

definition deleteRange :: "channel_id \<Rightarrow> ChunkKinds \<Rightarrow> int \<Rightarrow> GcPassStats \<Rightarrow> spool \<Rightarrow> GcPassStats \<times> spool" where
  "deleteRange ch kinds throughSeq stats db = deleteRange_from ch kinds throughSeq FIRST_SEQ stats db"

lemma in_range_split:
  "a \<le> q \<Longrightarrow> q \<le> t \<Longrightarrow> in_range ch a t k r \<longleftrightarrow> in_range ch a q k r \<or> in_range ch q t k r"
  by (auto simp: in_range_def)

lemma deleteRange_from_exact:
  "snd (deleteRange_from ch k t a stats db) = filter (\<lambda>r. \<not> in_range ch a t k r) db
   \<and> deletedChunks (fst (deleteRange_from ch k t a stats db)) = deletedChunks stats + length (filter (in_range ch a t k) db)
   \<and> orphans (fst (deleteRange_from ch k t a stats db)) = orphans stats"
proof (induction ch k t a stats db rule: deleteRange_from.induct)
  case (1 ch k t a stats db)
  obtain batch db' where b: "deleteChunkBatch ch a t k DELETE_BATCH db = (batch, db')" by fastforce
  let ?stats = "stats\<lparr>deletedChunks := deletedChunks stats + deleted batch, deletedBytes := deletedBytes stats + batch_bytes batch\<rparr>"
  show ?case
  proof (cases "lastSeq batch")
    case None
    have "0 < maxRows DELETE_BATCH" by (simp add: DELETE_BATCH_def)
    from deleteChunkBatch_end [OF b None this] None b show ?thesis
      by (subst (1 2 3) deleteRange_from.simps) (simp add: Let_def filter_empty_conv)
  next
    case (Some q)
    note l = deleteChunkBatch_last [OF b Some]
    have s: "in_range ch a t k r \<longleftrightarrow> in_range ch a q k r \<or> in_range ch q t k r" for r
      using l by (intro in_range_split) auto
    have d: "\<not> (in_range ch a q k r \<and> in_range ch q t k r)" for r by (auto simp: in_range_def)
    have len: "length (filter (in_range ch a t k) xs)
        = length (filter (in_range ch a q k) xs) + length (filter (\<lambda>r. \<not> in_range ch a q k r \<and> in_range ch q t k r) xs)" for xs
      by (induction xs) (use s d in auto)
    have eq: "deleteRange_from ch k t a stats db = deleteRange_from ch k t q ?stats db'"
      using b Some by (subst deleteRange_from.simps) simp
    have "snd (deleteRange_from ch k t q ?stats db') = filter (\<lambda>r. \<not> in_range ch q t k r) db'
       \<and> deletedChunks (fst (deleteRange_from ch k t q ?stats db')) = deletedChunks ?stats + length (filter (in_range ch q t k) db')
       \<and> orphans (fst (deleteRange_from ch k t q ?stats db')) = orphans ?stats"
      using 1 [OF refl, of batch db' ?stats q] b Some by simp
    moreover have "filter (\<lambda>r. \<not> in_range ch q t k r) db' = filter (\<lambda>r. \<not> in_range ch a t k r) db"
      using l s by (auto simp: conj_commute)
    moreover have "length (filter (in_range ch a q k) db) + length (filter (in_range ch q t k) db') = length (filter (in_range ch a t k) db)"
      using l len [of db] by (simp add: conj_commute)
    ultimately show ?thesis unfolding eq using l by simp
  qed
qed

text \<open>All rows the hub ever stores lie between the two bounds.\<close>

definition seqs_safe :: "spool \<Rightarrow> bool" where
  "seqs_safe db \<longleftrightarrow> (\<forall>r \<in> set db. FIRST_SEQ < seq r \<and> seq r < LAST_SEQ)"

lemma deleteRange_rows:
  "seqs_safe db \<Longrightarrow> snd (deleteRange ch k t stats db) = filter (\<lambda>r. \<not> (channelId r = ch \<and> seq r \<le> t \<and> of_kinds k r)) db"
  by (auto simp: deleteRange_def deleteRange_from_exact in_range_def seqs_safe_def intro!: filter_cong)

section \<open>One channel\<close>

text \<open>
  The walk over one page of chunk sizes: the seq where the channel stops fitting, or the total so
  far. \<open>newest\<close> is the newest snapshot's seq, if there is one.
\<close>

fun scan :: "int option \<Rightarrow> nat \<Rightarrow> string \<Rightarrow> nat \<Rightarrow> ChunkSize list \<Rightarrow> int + nat" where
  "scan newest cap ageCutoff sofar [] = Inr sofar"
| "scan newest cap ageCutoff sofar (c # cs) =
     (if newest = Some (cs_seq c) then scan newest cap ageCutoff sofar cs
      else let sofar = sofar + cs_bytes c in
        if cs_kind c = KSnapshot then scan newest cap ageCutoff sofar cs
        else if sofar > cap \<or> cs_ts c < ageCutoff then Inl (cs_seq c)
        else scan newest cap ageCutoff sofar cs)"

lemma page_progress:
  assumes "listChunkSizesBefore db ch before lim = cs" "cs \<noteq> []"
  shows "length (filter (\<lambda>r. seq r < cs_seq (last cs)) (rows_of ch db)) < length (filter (\<lambda>r. seq r < before) (rows_of ch db))"
proof -
  have "last cs \<in> set cs" using assms(2) by simp
  then have "last cs \<in> chunkSize ` set (take lim (rev (filter (\<lambda>r. seq r < before) (rows_of ch db))))"
    using assms(1) by (auto simp: listChunkSizesBefore_def)
  then obtain r where r0: "r \<in> set (take lim (rev (filter (\<lambda>r. seq r < before) (rows_of ch db))))" "last cs = chunkSize r" by blast
  then have r: "r \<in> set (rows_of ch db)" "seq r < before" "last cs = chunkSize r"
    by (auto dest: in_set_takeD)
  have "length (filter (\<lambda>x. seq x < seq r) xs) < length (filter (\<lambda>x. seq x < before) xs)" if "r \<in> set xs" for xs
    using that r(2)
  proof (induction xs)
    case (Cons x xs)
    have le: "length (filter (\<lambda>x. seq x < seq r) xs) \<le> length (filter (\<lambda>x. seq x < before) xs)"
      using r(2) by (induction xs) auto
    from Cons le show ?case by (cases "x = r") auto
  qed simp
  with r show ?thesis by simp
qed

function walk :: "channel_id \<Rightarrow> int option \<Rightarrow> nat \<Rightarrow> string \<Rightarrow> nat \<Rightarrow> int \<Rightarrow> spool \<Rightarrow> int option" where
  "walk ch newest cap ageCutoff sofar before db =
     (let chunks = listChunkSizesBefore db ch before WALK_ROWS in
      case scan newest cap ageCutoff sofar chunks of
        Inl q \<Rightarrow> Some q
      | Inr sofar' \<Rightarrow>
          if chunks = [] \<or> length chunks < WALK_ROWS then None
          else walk ch newest cap ageCutoff sofar' (cs_seq (last chunks)) db)"
  by pat_completeness auto
termination
  by (relation "measure (\<lambda>(ch, newest, cap, age, sofar, before, db). length (filter (\<lambda>r. seq r < before) (rows_of ch db)))")
    (auto intro: page_progress [OF refl])

declare walk.simps [simp del]

definition collectChannel :: "nat \<Rightarrow> string \<Rightarrow> channel_id \<Rightarrow> GcPassStats \<Rightarrow> spool \<Rightarrow> GcPassStats \<times> spool" where
  "collectChannel maxSizePerChannel ageCutoff ch stats db =
     (let newest = getLatestSnapshotSize db ch;
          (stats, db) = (case newest of
                           None \<Rightarrow> (stats, db)
                         | Some (q, _) \<Rightarrow> deleteRange ch Snapshots (q - 1) stats db)
      in case walk ch (map_option fst newest) maxSizePerChannel ageCutoff
                (case newest of None \<Rightarrow> 0 | Some (_, bytes) \<Rightarrow> bytes) LAST_SEQ db of
           None \<Rightarrow> (stats, db)
         | Some q \<Rightarrow> deleteRange ch Others q stats db)"

definition collectOrphan :: "(channel_id \<Rightarrow> bool) \<Rightarrow> channel_id \<Rightarrow> GcPassStats \<Rightarrow> spool \<Rightarrow> bool \<times> GcPassStats \<times> spool" where
  "collectOrphan hasChannel ch stats db =
     (if hasChannel ch then (False, stats, db)
      else let (stats, db) = deleteRange ch All (getMaxSeq db ch) stats db
        in (True, stats\<lparr>orphans := orphans stats + 1\<rparr>, db))"

section \<open>What a channel keeps\<close>

text \<open>
  The walk page by page is one scan of all the channel's chunks below a seq, newest first.
\<close>

definition sizes_below :: "spool \<Rightarrow> channel_id \<Rightarrow> int \<Rightarrow> ChunkSize list" where
  "sizes_below db ch before = map chunkSize (rev (filter (\<lambda>r. seq r < before) (rows_of ch db)))"

lemma listChunkSizesBefore_take: "listChunkSizesBefore db ch before lim = take lim (sizes_below db ch before)"
  by (simp add: listChunkSizesBefore_def sizes_below_def take_map)

lemma drop_after_last:
  "sorted_wrt (\<lambda>x y. f y < (f x :: int)) xs \<Longrightarrow> take n xs \<noteq> [] \<Longrightarrow> drop n xs = filter (\<lambda>x. f x < f (last (take n xs))) xs"
proof (induction xs arbitrary: n)
  case (Cons x xs)
  then obtain m where n: "n = Suc m" by (cases n) auto
  show ?case
  proof (cases "take m xs = []")
    case True
    then show ?thesis using Cons.prems by (cases m) (auto simp: n filter_id_conv)
  next
    case False
    then have "last (take m xs) \<in> set xs" using in_set_takeD last_in_set by metis
    then show ?thesis using Cons False by (auto simp: n)
  qed
qed simp

lemma sizes_desc: "spool_ok db \<Longrightarrow> sorted_wrt (\<lambda>x y. cs_seq y < cs_seq x) (sizes_below db ch before)"
  using strict_sorted_rows_of [of db ch]
  by (auto simp: sizes_below_def sorted_wrt_map rev_map [symmetric] sorted_wrt_rev intro: sorted_wrt_filter)

lemma sizes_below_page:
  assumes "spool_ok db" "take n (sizes_below db ch before) \<noteq> []"
  shows "drop n (sizes_below db ch before) = sizes_below db ch (cs_seq (last (take n (sizes_below db ch before))))"
proof -
  let ?q = "cs_seq (last (take n (sizes_below db ch before)))"
  have "last (take n (sizes_below db ch before)) \<in> set (sizes_below db ch before)"
    using assms(2) by (meson in_set_takeD last_in_set)
  then have "?q < before" by (auto simp: sizes_below_def)
  then have "filter (\<lambda>c. cs_seq c < q) (sizes_below db ch before) = sizes_below db ch q" if "q = ?q" for q
    unfolding that [symmetric] by (auto simp: sizes_below_def filter_map rev_filter comp_def intro!: arg_cong [where f = "map chunkSize"] filter_cong)
  then show ?thesis using drop_after_last [OF sizes_desc [OF assms(1)] assms(2)] by simp
qed

lemma scan_append:
  "scan newest cap age s (xs @ ys) = (case scan newest cap age s xs of Inl q \<Rightarrow> Inl q | Inr s' \<Rightarrow> scan newest cap age s' ys)"
  by (induction xs arbitrary: s) (auto simp: Let_def)

lemma walk_scans_all:
  assumes "spool_ok db"
  shows "walk ch newest cap age s before db = (case scan newest cap age s (sizes_below db ch before) of Inl q \<Rightarrow> Some q | Inr _ \<Rightarrow> None)"
  using assms
proof (induction ch newest cap age s before db rule: walk.induct)
  case (1 ch newest cap age s before db)
  let ?all = "sizes_below db ch before"
  let ?page = "take WALK_ROWS ?all"
  have all: "scan newest cap age s ?all = (case scan newest cap age s ?page of Inl q \<Rightarrow> Inl q | Inr s' \<Rightarrow> scan newest cap age s' (drop WALK_ROWS ?all))"
    by (metis append_take_drop_id scan_append)
  show ?case
  proof (cases "scan newest cap age s ?page")
    case (Inl q)
    then show ?thesis by (subst walk.simps) (simp add: listChunkSizesBefore_take all Let_def)
  next
    case (Inr s')
    show ?thesis
    proof (cases "?page = [] \<or> length ?page < WALK_ROWS")
      case True
      then have "drop WALK_ROWS ?all = []" by (auto simp: WALK_ROWS_def)
      then have "scan newest cap age s ?all = Inr s'" using Inr by simp
      then show ?thesis using True Inr by (subst walk.simps) (simp add: listChunkSizesBefore_take Let_def)
    next
      case False
      then have "walk ch newest cap age s' (cs_seq (last ?page)) db
          = (case scan newest cap age s' (drop WALK_ROWS ?all) of Inl q \<Rightarrow> Some q | Inr _ \<Rightarrow> None)"
        using 1 Inr sizes_below_page [of db WALK_ROWS ch before] by (simp add: listChunkSizesBefore_take)
      then show ?thesis using False Inr by (subst walk.simps) (simp add: listChunkSizesBefore_take all Let_def)
    qed
  qed
qed

text \<open>
  The specification: the chunks other than snapshots a channel keeps, newest first, when \<open>s\<close> bytes
  are taken already, and so the rows it keeps.
\<close>

fun fitting :: "nat \<Rightarrow> string \<Rightarrow> nat \<Rightarrow> Chunk list \<Rightarrow> Chunk list" where
  "fitting cap age s [] = []"
| "fitting cap age s (r # rs) =
     (if s + length (dataBlob r) > cap \<or> ts r < age then [] else r # fitting cap age (s + length (dataBlob r)) rs)"

definition is_snapshot :: "Chunk \<Rightarrow> bool" where
  "is_snapshot r = (chunkKind r = KSnapshot)"

definition newest_snapshot :: "Chunk list \<Rightarrow> Chunk option" where
  "newest_snapshot rows = last_option (filter is_snapshot rows)"

definition retained :: "nat \<Rightarrow> string \<Rightarrow> Chunk list \<Rightarrow> Chunk list" where
  "retained cap age rows =
     (let newest = newest_snapshot rows;
          kept = fitting cap age (case newest of None \<Rightarrow> 0 | Some n \<Rightarrow> length (dataBlob n)) (rev (filter (\<lambda>r. \<not> is_snapshot r) rows))
      in filter (\<lambda>r. if is_snapshot r then newest = Some r else r \<in> set kept) rows)"

lemma scan_in: "scan newest cap age s cs = Inl q \<Longrightarrow> \<exists>c \<in> set cs. cs_seq c = q"
  by (induction cs arbitrary: s) (auto simp: Let_def split: if_splits)

lemma scan_fitting:
  assumes "sorted_wrt (\<lambda>x y. seq y < seq x) rs" "\<forall>r \<in> set rs. is_snapshot r \<longleftrightarrow> newest = Some (seq r)"
  shows "fitting cap age s (filter (\<lambda>r. \<not> is_snapshot r) rs)
     = (case scan newest cap age s (map chunkSize rs) of
          Inl q \<Rightarrow> filter (\<lambda>r. q < seq r) (filter (\<lambda>r. \<not> is_snapshot r) rs)
        | Inr _ \<Rightarrow> filter (\<lambda>r. \<not> is_snapshot r) rs)"
  using assms
proof (induction rs arbitrary: s)
  case (Cons r rs)
  have IH: "fitting cap age s (filter (\<lambda>r. \<not> is_snapshot r) rs)
     = (case scan newest cap age s (map chunkSize rs) of
          Inl q \<Rightarrow> filter (\<lambda>r. q < seq r) (filter (\<lambda>r. \<not> is_snapshot r) rs)
        | Inr _ \<Rightarrow> filter (\<lambda>r. \<not> is_snapshot r) rs)" for s using Cons by simp
  show ?case
  proof (cases "is_snapshot r")
    case True
    then show ?thesis using Cons.prems IH by (auto split: sum.splits)
  next
    case False
    let ?s = "s + length (dataBlob r)"
    have k: "chunkKind r \<noteq> KSnapshot" "newest \<noteq> Some (seq r)" using False Cons.prems by (auto simp: is_snapshot_def)
    show ?thesis
    proof (cases "?s > cap \<or> ts r < age")
      case True
      then show ?thesis using k False Cons.prems(1) by (auto simp: Let_def filter_empty_conv intro!: filter_False [symmetric])
    next
      case fits: False
      have above: "q < seq r" if "scan newest cap age ?s (map chunkSize rs) = Inl q" for q
        using scan_in [OF that] Cons.prems(1) by auto
      show ?thesis using fits k False IH [of ?s] above by (auto simp: Let_def split: sum.splits)
    qed
  qed
qed simp

lemma rows_desc: "spool_ok db \<Longrightarrow> sorted_wrt (\<lambda>x y. seq y < seq x) (rev (rows_of ch db))"
  using strict_sorted_rows_of [of db ch] by (simp add: sorted_wrt_rev sorted_wrt_map)

lemma rows_seq_inj: "spool_ok db \<Longrightarrow> r \<in> set (rows_of ch db) \<Longrightarrow> r' \<in> set (rows_of ch db) \<Longrightarrow> seq r = seq r' \<Longrightarrow> r = r'"
  using distinct_rows_of [of db ch] unfolding distinct_map inj_on_def by blast

lemma getLatestSnapshot_newest: "getLatestSnapshot db ch = newest_snapshot (rows_of ch db)"
  by (simp add: getLatestSnapshot_def newest_snapshot_def is_snapshot_def [abs_def])

lemma newest_snapshot_max:
  assumes "newest_snapshot (rows_of ch db) = Some n" "r \<in> set (rows_of ch db)" "is_snapshot r"
  shows "is_snapshot n \<and> n \<in> set (rows_of ch db) \<and> seq r \<le> seq n"
proof -
  let ?ss = "filter is_snapshot (rows_of ch db)"
  have ne: "?ss \<noteq> []" "last ?ss = n" using assms(1) by (auto simp: newest_snapshot_def last_option_def split: if_splits)
  obtain ys where ys: "?ss = ys @ [n]" using ne by (metis append_butlast_last_id)
  have "sorted (map seq ?ss)" by (intro sorted_filter sorted_rows_of)
  moreover have "r \<in> set ?ss" using assms by simp
  ultimately have "seq r \<le> seq n" by (auto simp: ys sorted_append)
  moreover have "n \<in> set ?ss" by (simp add: ys del: set_filter)
  ultimately show ?thesis by auto
qed

lemma fitting_subset: "set (fitting cap age s rs) \<subseteq> set rs"
  by (induction rs arbitrary: s) auto

text \<open>Dropping the older snapshots leaves the newest and everything else.\<close>

lemma older_snapshots_gone:
  assumes "spool_ok db" "newest_snapshot (rows_of ch db) = newest"
  shows "filter (\<lambda>r. is_snapshot r \<longrightarrow> newest = Some r) (rows_of ch db)
     = (case newest of None \<Rightarrow> rows_of ch db
        | Some n \<Rightarrow> filter (\<lambda>r. \<not> (seq r \<le> seq n - 1 \<and> is_snapshot r)) (rows_of ch db))"
proof (cases newest)
  case None
  then have "\<forall>r \<in> set (rows_of ch db). \<not> is_snapshot r" using assms(2)
    by (auto simp: newest_snapshot_def last_option_def filter_empty_conv split: if_splits)
  then show ?thesis using None by (simp add: filter_id_conv del: set_rows_of)
next
  case (Some n)
  have "(is_snapshot r \<longrightarrow> newest = Some r) \<longleftrightarrow> \<not> (seq r \<le> seq n - 1 \<and> is_snapshot r)" if "r \<in> set (rows_of ch db)" for r
    using newest_snapshot_max [of ch db n r] rows_seq_inj [OF assms(1), of n ch r] that assms(2) Some by fastforce
  then show ?thesis using Some by (auto simp del: set_rows_of intro!: filter_cong)
qed

lemma sizes_below_LAST: "seqs_safe db \<Longrightarrow> sizes_below db ch LAST_SEQ = map chunkSize (rev (rows_of ch db))"
  by (auto simp: sizes_below_def seqs_safe_def filter_id_conv)

lemma seqs_safe_filter [simp]: "seqs_safe db \<Longrightarrow> seqs_safe (filter P db)"
  by (simp add: seqs_safe_def)

lemma walk_fitting:
  assumes "spool_ok db" "seqs_safe db" "\<forall>r \<in> set (rows_of ch db). is_snapshot r \<longleftrightarrow> newest = Some (seq r)"
  shows "set (fitting cap age s (rev (filter (\<lambda>r. \<not> is_snapshot r) (rows_of ch db))))
     = {r \<in> set (rows_of ch db). \<not> is_snapshot r \<and> (case walk ch newest cap age s LAST_SEQ db of None \<Rightarrow> True | Some q \<Rightarrow> q < seq r)}"
proof -
  have "set (fitting cap age s (filter (\<lambda>r. \<not> is_snapshot r) (rev (rows_of ch db))))
     = {r \<in> set (rows_of ch db). \<not> is_snapshot r \<and> (case scan newest cap age s (map chunkSize (rev (rows_of ch db))) of Inr _ \<Rightarrow> True | Inl q \<Rightarrow> q < seq r)}"
    using assms by (subst scan_fitting [where newest = newest]) (auto simp: rows_desc split: sum.splits)
  then show ?thesis using assms by (auto simp: walk_scans_all sizes_below_LAST rev_filter split: sum.splits)
qed

lemma first_step_rows:
  assumes "spool_ok db" "seqs_safe db"
  shows "(case getLatestSnapshotSize db ch of None \<Rightarrow> (stats, db) | Some (q, _) \<Rightarrow> deleteRange ch Snapshots (q - 1) stats db)
     = (stats', db1) \<Longrightarrow>
   db1 = filter (\<lambda>r. channelId r = ch \<longrightarrow> is_snapshot r \<longrightarrow> newest_snapshot (rows_of ch db) = Some r) db"
proof -
  assume eq: "(case getLatestSnapshotSize db ch of None \<Rightarrow> (stats, db) | Some (q, _) \<Rightarrow> deleteRange ch Snapshots (q - 1) stats db) = (stats', db1)"
  have same: "(is_snapshot r \<longrightarrow> newest_snapshot (rows_of ch db) = Some r)
      \<longleftrightarrow> (case newest_snapshot (rows_of ch db) of None \<Rightarrow> True | Some n \<Rightarrow> \<not> (seq r \<le> seq n - 1 \<and> is_snapshot r))" if "r \<in> set db" "channelId r = ch" for r
  proof -
    have "r \<in> set (filter (\<lambda>r. is_snapshot r \<longrightarrow> newest_snapshot (rows_of ch db) = Some r) (rows_of ch db))
        \<longleftrightarrow> r \<in> set (case newest_snapshot (rows_of ch db) of None \<Rightarrow> rows_of ch db
        | Some n \<Rightarrow> filter (\<lambda>r. \<not> (seq r \<le> seq n - 1 \<and> is_snapshot r)) (rows_of ch db))"
      by (simp only: older_snapshots_gone [OF assms(1) refl])
    then show ?thesis using that by (auto split: option.splits)
  qed
  show ?thesis
  proof (cases "newest_snapshot (rows_of ch db)")
    case None
    then have "db1 = db" using eq by (simp add: getLatestSnapshotSize_def getLatestSnapshot_newest)
    then show ?thesis using None same by (simp add: filter_id_conv)
  next
    case (Some n)
    then have "db1 = snd (deleteRange ch Snapshots (seq n - 1) stats db)"
      using eq by (simp add: getLatestSnapshotSize_def getLatestSnapshot_newest)
    then have "db1 = filter (\<lambda>r. \<not> (channelId r = ch \<and> seq r \<le> seq n - 1 \<and> is_snapshot r)) db"
      using assms(2) by (simp add: deleteRange_rows of_kinds_def is_snapshot_def)
    then show ?thesis using Some same by (auto intro!: filter_cong)
  qed
qed

lemma collectChannel_filter:
  assumes "spool_ok db" "seqs_safe db"
  shows "snd (collectChannel cap age ch stats db) = filter (\<lambda>r. channelId r = ch \<longrightarrow> r \<in> set (retained cap age (rows_of ch db))) db"
proof -
  let ?rows = "rows_of ch db"
  let ?newest = "newest_snapshot ?rows"
  let ?s = "case ?newest of None \<Rightarrow> 0 | Some n \<Rightarrow> length (dataBlob n)"
  obtain stats1 db1 where 1: "(case getLatestSnapshotSize db ch of None \<Rightarrow> (stats, db) | Some (q, _) \<Rightarrow> deleteRange ch Snapshots (q - 1) stats db) = (stats1, db1)"
    by fastforce
  note db1 = first_step_rows [OF assms 1]
  have ok: "spool_ok db1" "seqs_safe db1" using assms by (simp_all add: db1)
  have rows1: "rows_of ch db1 = filter (\<lambda>r. is_snapshot r \<longrightarrow> ?newest = Some r) ?rows"
    unfolding db1 rows_of_filter by (rule filter_cong) auto
  have snap: "\<forall>r \<in> set (rows_of ch db1). is_snapshot r \<longleftrightarrow> map_option seq ?newest = Some (seq r)"
  proof
    fix r assume "r \<in> set (rows_of ch db1)"
    then have r: "r \<in> set ?rows" "is_snapshot r \<Longrightarrow> ?newest = Some r" by (auto simp: rows1 simp del: set_rows_of)
    have "is_snapshot n \<and> n \<in> set ?rows" if "?newest = Some n" for n
      using that last_option_in [of "filter is_snapshot ?rows" n] by (simp add: newest_snapshot_def)
    then show "is_snapshot r \<longleftrightarrow> map_option seq ?newest = Some (seq r)"
      using r rows_seq_inj [OF assms(1), of _ ch r] by (auto simp del: set_rows_of)
  qed
  have others: "filter (\<lambda>r. \<not> is_snapshot r) (rows_of ch db1) = filter (\<lambda>r. \<not> is_snapshot r) ?rows"
    unfolding rows1 filter_filter by (rule filter_cong) auto
  note w = walk_fitting [OF ok snap, of cap age ?s, unfolded others]
  let ?w = "walk ch (map_option seq ?newest) cap age ?s LAST_SEQ db1"
  have "snd (collectChannel cap age ch stats db) = snd (case ?w of None \<Rightarrow> (stats1, db1) | Some q \<Rightarrow> deleteRange ch Others q stats1 db1)"
    using 1 by (cases ?newest) (simp_all add: collectChannel_def getLatestSnapshotSize_def getLatestSnapshot_newest)
  also have "\<dots> = filter (\<lambda>r. channelId r = ch \<longrightarrow> is_snapshot r \<or> (case ?w of None \<Rightarrow> True | Some q \<Rightarrow> q < seq r)) db1"
    using ok(2) by (cases ?w) (auto simp: deleteRange_rows of_kinds_def is_snapshot_def not_le intro!: filter_cong)
  also have "\<dots> = filter (\<lambda>r. channelId r = ch \<longrightarrow> r \<in> set (retained cap age ?rows)) db"
    using w unfolding db1 filter_filter
    by (intro filter_cong) (auto simp: retained_def Let_def set_eq_iff rows1)
  finally show ?thesis .
qed

lemma retained_subset: "set (retained cap age rows) \<subseteq> set rows"
  by (auto simp: retained_def Let_def)

lemma filter_in_filter: "distinct xs \<Longrightarrow> filter (\<lambda>x. x \<in> set (filter P xs)) xs = filter P xs"
  by (auto intro: filter_cong)

lemma distinct_rows: "spool_ok db \<Longrightarrow> distinct (rows_of ch db)"
  using distinct_rows_of [of db ch] by (simp add: distinct_map)

lemma collectChannel_rows:
  assumes "spool_ok db" "seqs_safe db"
  shows "rows_of ch' (snd (collectChannel cap age ch stats db))
     = (if ch' = ch then retained cap age (rows_of ch db) else rows_of ch' db)"
proof -
  have "rows_of ch' (snd (collectChannel cap age ch stats db))
      = filter (\<lambda>r. channelId r = ch \<longrightarrow> r \<in> set (retained cap age (rows_of ch db))) (rows_of ch' db)"
    by (simp add: collectChannel_filter [OF assms] rows_of_filter)
  also have "\<dots> = (if ch' = ch then filter (\<lambda>r. r \<in> set (retained cap age (rows_of ch db))) (rows_of ch db) else rows_of ch' db)"
    by (auto intro!: filter_cong simp: filter_id_conv)
  also have "filter (\<lambda>r. r \<in> set (retained cap age (rows_of ch db))) (rows_of ch db) = retained cap age (rows_of ch db)"
    unfolding retained_def Let_def by (rule filter_in_filter) (rule distinct_rows [OF assms(1)])
  finally show ?thesis .
qed

lemma collectOrphan_rows:
  assumes "seqs_safe db" "collectOrphan hasChannel ch stats db = (orphan, stats', db')"
  shows "orphan \<longleftrightarrow> \<not> hasChannel ch" "db' = (if hasChannel ch then db else filter (\<lambda>r. channelId r \<noteq> ch) db)"
proof -
  have "filter (\<lambda>r. \<not> (channelId r = ch \<and> seq r \<le> getMaxSeq db ch \<and> of_kinds All r)) db = filter (\<lambda>r. channelId r \<noteq> ch) db"
    by (rule filter_cong) (auto simp: of_kinds_def intro: getMaxSeq_ge)
  then show "orphan \<longleftrightarrow> \<not> hasChannel ch" "db' = (if hasChannel ch then db else filter (\<lambda>r. channelId r \<noteq> ch) db)"
    using assms deleteRange_rows [OF assms(1), of ch All "getMaxSeq db ch" stats]
    by (auto simp: collectOrphan_def split: if_splits prod.splits)
qed

section \<open>Size and content of what is kept\<close>

lemma fitting_young: "r \<in> set (fitting cap age s rs) \<Longrightarrow> \<not> ts r < age"
  by (induction rs arbitrary: s) (auto split: if_splits)

lemma fitting_bound: "s + sum_list (map (\<lambda>r. length (dataBlob r)) (fitting cap age s rs)) \<le> max cap s"
proof (induction rs arbitrary: s)
  case (Cons r rs)
  from Cons [of "s + length (dataBlob r)"] show ?case by (auto simp: add.assoc)
qed simp

lemma fitting_prefix: "\<exists>rest. rs = fitting cap age s rs @ rest \<and>
    (\<forall>r rest'. rest = r # rest' \<longrightarrow> ts r < age \<or> cap < s + sum_list (map (\<lambda>r. length (dataBlob r)) (fitting cap age s rs)) + length (dataBlob r))"
proof (induction rs arbitrary: s)
  case (Cons r rs)
  show ?case
  proof (cases "s + length (dataBlob r) > cap \<or> ts r < age")
    case False
    from Cons [of "s + length (dataBlob r)"] obtain rest where
      "rs = fitting cap age (s + length (dataBlob r)) rs @ rest"
      "\<forall>x rest'. rest = x # rest' \<longrightarrow> ts x < age \<or> cap < s + length (dataBlob r) + sum_list (map (\<lambda>r. length (dataBlob r)) (fitting cap age (s + length (dataBlob r)) rs)) + length (dataBlob x)"
      by blast
    with False show ?thesis by (intro exI [of _ rest]) (auto simp: add.assoc)
  qed auto
qed simp

lemma filter_prefix_rev: "distinct xs \<Longrightarrow> rev xs = ys @ zs \<Longrightarrow> filter (\<lambda>x. x \<in> set ys) xs = rev ys"
proof -
  assume d: "distinct xs" and e: "rev xs = ys @ zs"
  then have xs: "xs = rev zs @ rev ys" by (metis rev_append rev_rev_ident)
  with d show ?thesis by (auto simp: filter_id_conv filter_empty_conv)
qed

lemma retained_split:
  fixes cap age
  assumes "distinct rows"
  defines "newest \<equiv> newest_snapshot rows"
  defines "kept \<equiv> fitting cap age (case newest of None \<Rightarrow> 0 | Some n \<Rightarrow> length (dataBlob n)) (rev (filter (\<lambda>r. \<not> is_snapshot r) rows))"
  shows "filter is_snapshot (retained cap age rows) = (case newest of None \<Rightarrow> [] | Some n \<Rightarrow> [n])"
    and "filter (\<lambda>r. \<not> is_snapshot r) (retained cap age rows) = rev kept"
proof -
  have "filter is_snapshot (retained cap age rows) = filter (\<lambda>r. is_snapshot r \<and> newest = Some r) rows"
    unfolding retained_def Let_def filter_filter newest_def by (rule filter_cong) auto
  also have "\<dots> = (case newest of None \<Rightarrow> [] | Some n \<Rightarrow> [n])"
  proof (cases newest)
    case (Some n)
    then have "is_snapshot n" "n \<in> set rows"
      using last_option_in [of "filter is_snapshot rows" n] by (auto simp: newest_def newest_snapshot_def)
    then have "filter (\<lambda>r. is_snapshot r \<and> newest = Some r) rows = filter (\<lambda>r. r = n) rows"
      using Some by (intro filter_cong) auto
    also have "\<dots> = [n]" using assms(1) \<open>n \<in> set rows\<close>
    proof (induction rows)
      case (Cons a rows)
      then show ?case by (cases "a = n") (auto simp: filter_empty_conv)
    qed simp
    finally show ?thesis using Some by simp
  qed simp
  finally show "filter is_snapshot (retained cap age rows) = (case newest of None \<Rightarrow> [] | Some n \<Rightarrow> [n])" .
  let ?others = "filter (\<lambda>r. \<not> is_snapshot r) rows"
  have "filter (\<lambda>r. \<not> is_snapshot r) (retained cap age rows) = filter (\<lambda>r. r \<in> set kept) ?others"
    unfolding retained_def Let_def filter_filter kept_def newest_def by (rule filter_cong) auto
  also have "\<dots> = rev kept"
    using fitting_prefix [of "rev ?others"] assms(1) unfolding kept_def by (metis distinct_filter filter_prefix_rev)
  finally show "filter (\<lambda>r. \<not> is_snapshot r) (retained cap age rows) = rev kept" .
qed

lemma sum_list_split: "sum_list (map f xs) = sum_list (map f (filter P xs)) + sum_list (map (f :: 'a \<Rightarrow> nat) (filter (\<lambda>x. \<not> P x) xs))"
  by (induction xs) auto

lemma retained_newest:
  assumes "distinct rows"
  shows "newest_snapshot (retained cap age rows) = newest_snapshot rows"
  using retained_split(1) [OF assms, of cap age]
  by (subst newest_snapshot_def) (auto simp: last_option_def split: option.splits)

lemma retained_size:
  assumes "distinct rows"
  shows "sum_list (map (\<lambda>r. length (dataBlob r)) (retained cap age rows))
     \<le> max cap (case newest_snapshot rows of None \<Rightarrow> 0 | Some n \<Rightarrow> length (dataBlob n))"
  using fitting_bound [of "case newest_snapshot rows of None \<Rightarrow> 0 | Some n \<Rightarrow> length (dataBlob n)" cap age
      "rev (filter (\<lambda>r. \<not> is_snapshot r) rows)"]
  by (subst sum_list_split [of _ _ is_snapshot])
    (auto simp: retained_split [OF assms] rev_map [symmetric] sum_list_rev split: option.splits)

section \<open>A pass\<close>

lemma collect_shrinks:
  "\<exists>P. snd (deleteRange ch k t stats db) = filter P db"
  "\<exists>P. snd (snd (collectOrphan hasChannel ch stats db)) = filter P db"
  "\<exists>P. snd (collectChannel cap age ch stats db) = filter P db"
proof -
  show d: "\<exists>P. snd (deleteRange ch k t stats db) = filter P db" for ch k t stats db
    by (auto simp: deleteRange_def deleteRange_from_exact)
  show "\<exists>P. snd (snd (collectOrphan hasChannel ch stats db)) = filter P db"
    using d [of ch All "getMaxSeq db ch" stats db]
    by (auto simp: collectOrphan_def split: prod.splits intro: exI [of _ "\<lambda>_. True"])
  obtain stats1 db1 where 1: "(case getLatestSnapshotSize db ch of None \<Rightarrow> (stats, db) | Some (q, _) \<Rightarrow> deleteRange ch Snapshots (q - 1) stats db) = (stats1, db1)"
    by fastforce
  have "\<exists>P. db1 = filter P db"
    using 1 d [of ch Snapshots _ stats db] by (auto split: option.splits intro: exI [of _ "\<lambda>_. True"]) (metis snd_conv)
  then obtain P where P: "db1 = filter P db" by blast
  let ?w = "walk ch (map_option fst (getLatestSnapshotSize db ch)) cap age (case getLatestSnapshotSize db ch of None \<Rightarrow> 0 | Some (_, bytes) \<Rightarrow> bytes) LAST_SEQ db1"
  have "snd (collectChannel cap age ch stats db) = (case ?w of None \<Rightarrow> db1 | Some q \<Rightarrow> snd (deleteRange ch Others q stats1 db1))"
    using 1 by (auto simp: collectChannel_def Let_def split: option.splits)
  then show "\<exists>P. snd (collectChannel cap age ch stats db) = filter P db"
    using d [of ch Others _ stats1 db1] by (auto simp: P split: option.splits)
qed

definition collectNext :: "(channel_id \<Rightarrow> bool) \<Rightarrow> nat \<Rightarrow> string \<Rightarrow> channel_id \<Rightarrow> GcPassStats \<Rightarrow> spool \<Rightarrow> GcPassStats \<times> spool" where
  "collectNext hasChannel cap ageCutoff ch stats db =
     (let (orphan, stats, db) = collectOrphan hasChannel ch stats db
      in if orphan then (stats, db) else collectChannel cap ageCutoff ch stats db)"

lemma collectNext_shrinks: "\<exists>P. snd (collectNext hasChannel cap age ch stats db) = filter P db"
proof -
  obtain orphan stats1 db1 where 1: "collectOrphan hasChannel ch stats db = (orphan, stats1, db1)" by (metis prod_cases3)
  obtain P where "db1 = filter P db" using collect_shrinks(2) [of hasChannel ch stats db] 1 by auto
  moreover obtain Q where "snd (collectChannel cap age ch stats1 db1) = filter Q db1" using collect_shrinks(3) by blast
  ultimately show ?thesis using 1 by (auto simp: collectNext_def)
qed

lemma nextChannelId_Some:
  assumes "nextChannelId db after = Some c"
  shows "after < c \<and> c \<in> channelId ` set db \<and> (\<forall>r \<in> set db. after < channelId r \<longrightarrow> c \<le> channelId r)"
proof -
  obtain cs where cs: "sort (filter (\<lambda>c. after < c) (map channelId db)) = c # cs"
    using assms by (auto simp: nextChannelId_def split: list.splits)
  then have set: "set (c # cs) = {x \<in> channelId ` set db. after < x}" by (metis list.set_map set_filter set_sort)
  have "sorted (c # cs)" using cs by (metis sorted_sort)
  then have min: "\<forall>x \<in> set (c # cs). c \<le> x" by auto
  have "c \<in> {x \<in> channelId ` set db. after < x}" unfolding set [symmetric] by simp
  moreover have "c \<le> x" if "x \<in> {x \<in> channelId ` set db. after < x}" for x using that min unfolding set [symmetric] by blast
  ultimately show ?thesis by auto
qed

lemma nextChannelId_None: "nextChannelId db after = None \<longleftrightarrow> (\<forall>r \<in> set db. \<not> after < channelId r)"
proof -
  have "nextChannelId db after = None \<longleftrightarrow> sort (filter (\<lambda>c. after < c) (map channelId db)) = []"
    by (auto simp: nextChannelId_def split: list.splits)
  also have "\<dots> \<longleftrightarrow> filter (\<lambda>c. after < c) (map channelId db) = []" by (metis set_empty set_sort)
  finally show ?thesis by (auto simp: filter_empty_conv)
qed

lemma pass_progress:
  assumes "nextChannelId db after = Some c"
  shows "length (filter (\<lambda>r. c < channelId r) (filter P db)) < length (filter (\<lambda>r. after < channelId r) db)"
proof -
  from nextChannelId_Some [OF assms] obtain r where r: "r \<in> set db" "channelId r = c" "after < c" by auto
  have "length (filter (\<lambda>x. P x \<and> c < channelId x) xs) \<le> length (filter (\<lambda>x. after < channelId x) xs)" for xs
    by (induction xs) (use r(3) in auto)
  note le = this
  have "length (filter (\<lambda>x. P x \<and> c < channelId x) xs) < length (filter (\<lambda>x. after < channelId x) xs)" if "r \<in> set xs" for xs
    using that
  proof (induction xs)
    case (Cons x xs)
    then show ?case using r le [of xs] by (cases "x = r") auto
  qed simp
  with r(1) show ?thesis by (simp add: conj_commute)
qed

function collectChannels ::
  "(channel_id \<Rightarrow> bool) \<Rightarrow> nat \<Rightarrow> string \<Rightarrow> channel_id \<Rightarrow> GcPassStats \<Rightarrow> spool \<Rightarrow> GcPassStats \<times> spool" where
  "collectChannels hasChannel cap ageCutoff after stats db =
     (case nextChannelId db after of
        None \<Rightarrow> (stats, db)
      | Some ch \<Rightarrow>
          let (stats, db) = collectNext hasChannel cap ageCutoff ch stats db
          in collectChannels hasChannel cap ageCutoff ch stats db)"
  by pat_completeness auto
termination
proof (relation "measure (\<lambda>(hasChannel, cap, age, after, stats, db). length (filter (\<lambda>r. after < channelId r) db))", simp)
  fix hasChannel :: "channel_id \<Rightarrow> bool" and cap age after stats db c stats' db' and x :: "GcPassStats \<times> spool"
  assume n: "nextChannelId db after = Some c" and x: "x = collectNext hasChannel cap age c stats db" "(stats', db') = x"
  obtain P where "snd x = filter P db" using collectNext_shrinks x(1) by blast
  then have "db' = filter P db" using x(2) by (metis snd_conv)
  with pass_progress [OF n, of P] show "((hasChannel, cap, age, c, stats', db'), hasChannel, cap, age, after, stats, db)
      \<in> measure (\<lambda>(hasChannel, cap, age, after, stats, db). length (filter (\<lambda>r. after < channelId r) db))" by simp
qed

declare collectChannels.simps [simp del]

definition VACUUM_PAGES :: nat where
  "VACUUM_PAGES = 128"

text \<open>\<open>incrementalVacuum\<close> gives pages back and answers how many are still free; \<open>previous\<close> is None for infinity.\<close>

function vacuum_from :: "(nat \<Rightarrow> 'f \<Rightarrow> nat \<times> 'f) \<Rightarrow> nat option \<Rightarrow> 'f \<Rightarrow> nat \<times> 'f" where
  "vacuum_from incrementalVacuum previous file =
     (let (free, file') = incrementalVacuum VACUUM_PAGES file in
      if free = 0 \<or> (case previous of None \<Rightarrow> False | Some b \<Rightarrow> free \<ge> b) then (free, file')
      else vacuum_from incrementalVacuum (Some free) file')"
  by pat_completeness auto
termination
  by (relation "measures [\<lambda>(v, previous, file). if previous = None then 1 else 0, \<lambda>(v, previous, file). case previous of None \<Rightarrow> 0 | Some b \<Rightarrow> b]")
    (auto split: option.splits)

declare vacuum_from.simps [simp del]

definition vacuum :: "(nat \<Rightarrow> 'f \<Rightarrow> nat \<times> 'f) \<Rightarrow> 'f \<Rightarrow> nat \<times> 'f" where
  "vacuum incrementalVacuum file = vacuum_from incrementalVacuum None file"

fun collectStaleDead :: "channel_id list \<Rightarrow> GcPassStats \<Rightarrow> spool \<Rightarrow> GcPassStats \<times> spool" where
  "collectStaleDead [] stats db = (stats, db)"
| "collectStaleDead (ch # chs) stats db =
     (let (stats, db) = deleteRange ch All (getMaxSeq db ch) stats db in collectStaleDead chs stats db)"

definition runPass ::
  "(string \<Rightarrow> channel_id list) \<Rightarrow> (channel_id \<Rightarrow> bool) \<Rightarrow> (nat \<Rightarrow> 'f \<Rightarrow> nat \<times> 'f) \<Rightarrow> string \<Rightarrow> string \<Rightarrow> nat
   \<Rightarrow> GcPassStats \<Rightarrow> spool \<Rightarrow> 'f \<Rightarrow> GcPassStats \<times> spool \<times> 'f" where
  "runPass listStaleDeadChannelIds hasChannel incrementalVacuum deadCutoff ageCutoff maxSizePerChannel stats db file =
     (let (stats, db) = collectStaleDead (listStaleDeadChannelIds deadCutoff) stats db;
          (stats, db) = collectChannels hasChannel maxSizePerChannel ageCutoff [] stats db;
          (free, file) = vacuum incrementalVacuum file
      in (stats\<lparr>freePages := free\<rparr>, db, file))"

fun purgeOrphans :: "(channel_id \<Rightarrow> bool) \<Rightarrow> channel_id list \<Rightarrow> GcPassStats \<Rightarrow> spool \<Rightarrow> GcPassStats \<times> spool" where
  "purgeOrphans hasChannel [] stats db = (stats, db)"
| "purgeOrphans hasChannel (ch # chs) stats db =
     (let (_, stats, db) = collectOrphan hasChannel ch stats db in purgeOrphans hasChannel chs stats db)"

definition purge :: "(channel_id \<Rightarrow> bool) \<Rightarrow> (nat \<Rightarrow> 'f \<Rightarrow> nat \<times> 'f) \<Rightarrow> channel_id list \<Rightarrow> GcPassStats \<Rightarrow> spool \<Rightarrow> 'f \<Rightarrow> GcPassStats \<times> spool \<times> 'f" where
  "purge hasChannel incrementalVacuum channelIds stats db file =
     (let (stats, db) = purgeOrphans hasChannel channelIds stats db;
          (free, file) = vacuum incrementalVacuum file
      in (stats\<lparr>freePages := free\<rparr>, db, file))"

section \<open>What a pass leaves\<close>

lemma retained_Nil [simp]: "retained cap age [] = []"
  by (simp add: retained_def)

lemma collectNext_rows:
  assumes "spool_ok db" "seqs_safe db"
  shows "rows_of ch' (snd (collectNext hasChannel cap age ch stats db))
     = (if ch' \<noteq> ch then rows_of ch' db else if hasChannel ch then retained cap age (rows_of ch db) else [])"
proof -
  obtain orphan stats1 db1 where 1: "collectOrphan hasChannel ch stats db = (orphan, stats1, db1)" by (metis prod_cases3)
  note o = collectOrphan_rows [OF assms(2) 1]
  show ?thesis
  proof (cases "hasChannel ch")
    case True
    then show ?thesis using o 1 collectChannel_rows [OF assms] by (simp add: collectNext_def)
  next
    case False
    have "rows_of ch' (filter (\<lambda>r. channelId r \<noteq> ch) db) = (if ch' \<noteq> ch then rows_of ch' db else [])"
      by (auto simp: rows_of_filter filter_id_conv filter_empty_conv)
    then show ?thesis using False o 1 by (simp add: collectNext_def)
  qed
qed

lemma collectNext_ok:
  assumes "spool_ok db" "seqs_safe db"
  shows "spool_ok (snd (collectNext hasChannel cap age ch stats db))" "seqs_safe (snd (collectNext hasChannel cap age ch stats db))"
  using collectNext_shrinks [of hasChannel cap age ch stats db] assms by auto

lemma rows_of_Nil: "rows_of ch db = [] \<longleftrightarrow> (\<forall>r \<in> set db. channelId r \<noteq> ch)"
proof -
  have "rows_of ch db = [] \<longleftrightarrow> set (rows_of ch db) = {}" by (simp del: set_rows_of)
  then show ?thesis by auto
qed

lemma collectChannels_rows:
  assumes "spool_ok db" "seqs_safe db"
  shows "rows_of ch (snd (collectChannels hasChannel cap age after stats db))
     = (if \<not> after < ch then rows_of ch db else if hasChannel ch then retained cap age (rows_of ch db) else [])"
  using assms
proof (induction hasChannel cap age after stats db rule: collectChannels.induct)
  case (1 hasChannel cap age after stats db)
  show ?case
  proof (cases "nextChannelId db after")
    case None
    then have "after < ch \<Longrightarrow> rows_of ch db = []" using nextChannelId_None [of db after] by (auto simp: rows_of_Nil)
    then show ?thesis using None by (subst collectChannels.simps) auto
  next
    case (Some c)
    obtain stats' db' where n: "collectNext hasChannel cap age c stats db = (stats', db')" by fastforce
    have rows: "rows_of ch (snd (collectChannels hasChannel cap age c stats' db'))
       = (if \<not> c < ch then rows_of ch db' else if hasChannel ch then retained cap age (rows_of ch db') else [])"
      using 1 Some n collectNext_ok [OF 1(2,3), of hasChannel cap age c stats] by simp
    note nxt = collectNext_rows [OF 1(2,3), of ch hasChannel cap age c stats, unfolded n snd_conv]
    have gap: "rows_of ch db = []" if "after < ch" "ch < c"
      using nextChannelId_Some [OF Some] that by (auto simp: rows_of_Nil)
    have step: "collectChannels hasChannel cap age after stats db = collectChannels hasChannel cap age c stats' db'"
      using Some n by (subst collectChannels.simps) simp
    have "after < c" using nextChannelId_Some [OF Some] by blast
    then show ?thesis unfolding step rows nxt using gap by (auto simp: not_less)
  qed
qed

lemma deleteRange_all:
  "seqs_safe db \<Longrightarrow> snd (deleteRange ch All (getMaxSeq db ch) stats db) = filter (\<lambda>r. channelId r \<noteq> ch) db"
  by (auto simp: deleteRange_rows of_kinds_def intro!: filter_cong getMaxSeq_ge)

lemma collectStaleDead_rows:
  "seqs_safe db \<Longrightarrow> snd (collectStaleDead chs stats db) = filter (\<lambda>r. channelId r \<notin> set chs) db"
proof (induction chs arbitrary: stats db)
  case (Cons ch chs)
  obtain stats' db' where d: "deleteRange ch All (getMaxSeq db ch) stats db = (stats', db')" by fastforce
  then have "db' = filter (\<lambda>r. channelId r \<noteq> ch) db" using deleteRange_all [OF Cons.prems, of ch stats] by simp
  then show ?case using Cons d by (simp add: conj_commute)
qed simp

lemma purgeOrphans_rows:
  "seqs_safe db \<Longrightarrow> snd (purgeOrphans hasChannel chs stats db) = filter (\<lambda>r. channelId r \<in> set chs \<longrightarrow> hasChannel (channelId r)) db"
proof (induction chs arbitrary: stats db)
  case (Cons ch chs)
  obtain orphan stats' db' where o: "collectOrphan hasChannel ch stats db = (orphan, stats', db')" by (metis prod_cases3)
  note db' = collectOrphan_rows(2) [OF Cons.prems o]
  have "snd (purgeOrphans hasChannel (ch # chs) stats db) = filter (\<lambda>r. channelId r \<in> set chs \<longrightarrow> hasChannel (channelId r)) db'"
    using Cons o db' by simp
  also have "\<dots> = filter (\<lambda>r. channelId r \<in> set (ch # chs) \<longrightarrow> hasChannel (channelId r)) db"
    unfolding db' by (auto intro!: filter_cong)
  finally show ?case .
qed simp

text \<open>
  C12: Collecting one channel: of its snapshots only the newest is kept, whatever its age or size; of
  the rest the newest ones that fit are kept, that is the longest newest-first run within the size cap
  (the snapshot counted first) and the age limit; every other channel keeps every row. This holds
  though the code finds the cut page by page and deletes in bounded batches.
\<close>

theorem collectChannel_refines:
  assumes "spool_ok db" "seqs_safe db"
  shows "rows_of ch (snd (collectChannel cap age ch stats db)) = retained cap age (rows_of ch db)
     \<and> (\<forall>ch'. ch' \<noteq> ch \<longrightarrow> rows_of ch' (snd (collectChannel cap age ch stats db)) = rows_of ch' db)"
  by (simp add: collectChannel_rows [OF assms])

definition sample_row :: "string \<Rightarrow> channel_id \<Rightarrow> int \<Rightarrow> string \<Rightarrow> chunk_kind \<Rightarrow> byte list \<Rightarrow> Chunk" where
  "sample_row i ch q t k d = \<lparr>chunk_id = i, channelId = ch, seq = q, ts = t, chunkKind = k, codec = CRaw, dataBlob = d, uncompressedLen = length d\<rparr>"

definition sample_spool :: spool where
  "sample_spool =
     [sample_row ''1'' ''a'' 1 ''t1'' KOutput [1, 2], sample_row ''2'' ''a'' 2 ''t2'' KSnapshot [1],
      sample_row ''3'' ''b'' 1 ''t2'' KOutput [9], sample_row ''4'' ''a'' 3 ''t3'' KOutput [3, 4],
      sample_row ''5'' ''a'' 4 ''t4'' KSnapshot [7, 7]]"

lemma sample_spool_ok: "spool_ok sample_spool" "seqs_safe sample_spool"
  by (simp_all add: sample_spool_def sample_row_def spool_ok_def seqs_safe_def FIRST_SEQ_def LAST_SEQ_def)

theorem collectChannel_refines_witness:
  "rows_of ''a'' (snd (collectChannel 4 ''t0'' ''a'' no_stats sample_spool))
     = [sample_row ''4'' ''a'' 3 ''t3'' KOutput [3, 4], sample_row ''5'' ''a'' 4 ''t4'' KSnapshot [7, 7]]"
proof -
  have "rows_of ''a'' sample_spool = [sample_row ''1'' ''a'' 1 ''t1'' KOutput [1, 2], sample_row ''2'' ''a'' 2 ''t2'' KSnapshot [1],
      sample_row ''4'' ''a'' 3 ''t3'' KOutput [3, 4], sample_row ''5'' ''a'' 4 ''t4'' KSnapshot [7, 7]]"
    by (simp add: rows_of_def sample_spool_def sample_row_def)
  then have "retained 4 ''t0'' (rows_of ''a'' sample_spool)
     = [sample_row ''4'' ''a'' 3 ''t3'' KOutput [3, 4], sample_row ''5'' ''a'' 4 ''t4'' KSnapshot [7, 7]]"
    by (simp add: retained_def newest_snapshot_def is_snapshot_def sample_row_def last_option_def)
  then show ?thesis using collectChannel_refines [OF sample_spool_ok, of "''a''" 4 "''t0''" no_stats] by simp
qed

text \<open>
  After it is collected, a channel is within its size cap, or is its newest snapshot and nothing
  beyond it when that alone is over the cap; the newest snapshot, which an attach replays, is the same as before;
  no chunk other than a snapshot is older than the age limit; and nothing was deleted without need:
  when a chunk that is not a snapshot was deleted, the newest such chunk is too old or would take
  the channel past its cap.
\<close>

theorem collectChannel_bounded:
  assumes "spool_ok db" "seqs_safe db" "snd (collectChannel cap age ch stats db) = db'"
  shows "getChannelSize db' ch \<le> max cap (case getLatestSnapshot db ch of None \<Rightarrow> 0 | Some n \<Rightarrow> length (dataBlob n))
     \<and> getLatestSnapshot db' ch = getLatestSnapshot db ch
     \<and> (\<forall>r \<in> set (rows_of ch db'). chunkKind r \<noteq> KSnapshot \<longrightarrow> \<not> ts r < age)
     \<and> (\<exists>gone. filter (\<lambda>r. chunkKind r \<noteq> KSnapshot) (rows_of ch db) = gone @ filter (\<lambda>r. chunkKind r \<noteq> KSnapshot) (rows_of ch db')
          \<and> (gone \<noteq> [] \<longrightarrow> ts (last gone) < age \<or> cap < getChannelSize db' ch + length (dataBlob (last gone))))"
proof -
  let ?rows = "rows_of ch db"
  let ?s = "case newest_snapshot ?rows of None \<Rightarrow> 0 | Some n \<Rightarrow> length (dataBlob n)"
  let ?others = "filter (\<lambda>r. \<not> is_snapshot r) ?rows"
  let ?kept = "fitting cap age ?s (rev ?others)"
  have rows': "rows_of ch db' = retained cap age ?rows" using assms(3) collectChannel_rows [OF assms(1,2), of ch cap age ch stats] by simp
  note d = distinct_rows [OF assms(1), of ch]
  note split = retained_split [OF d, of cap age]
  have size: "getChannelSize db' ch = ?s + sum_list (map (\<lambda>r. length (dataBlob r)) ?kept)"
    unfolding getChannelSize_def rows' by (subst sum_list_split [of _ _ is_snapshot])
      (auto simp: split rev_map [symmetric] sum_list_rev split: option.splits)
  have nk: "(\<lambda>r. chunkKind r \<noteq> KSnapshot) = (\<lambda>r. \<not> is_snapshot r)" by (auto simp: is_snapshot_def)
  obtain rest where rest: "rev ?others = ?kept @ rest"
    "\<forall>r rest'. rest = r # rest' \<longrightarrow> ts r < age \<or> cap < ?s + sum_list (map (\<lambda>r. length (dataBlob r)) ?kept) + length (dataBlob r)"
    using fitting_prefix [of "rev ?others"] by blast
  have gone: "?others = rev rest @ filter (\<lambda>r. \<not> is_snapshot r) (rows_of ch db')"
    unfolding rows' split(2) using rest(1) by (metis rev_append rev_rev_ident)
  have need: "rev rest \<noteq> [] \<longrightarrow> ts (last (rev rest)) < age \<or> cap < getChannelSize db' ch + length (dataBlob (last (rev rest)))"
    using rest(2) unfolding size by (cases rest) auto
  have young: "\<not> ts r < age" if "r \<in> set (rows_of ch db')" "chunkKind r \<noteq> KSnapshot" for r
  proof -
    have "r \<in> set (filter (\<lambda>r. \<not> is_snapshot r) (rows_of ch db'))" using that by (simp add: is_snapshot_def)
    then show ?thesis unfolding rows' split(2) using fitting_young by fastforce
  qed
  have "getChannelSize db' ch \<le> max cap ?s" unfolding size by (rule fitting_bound)
  moreover have "getLatestSnapshot db' ch = getLatestSnapshot db ch"
    by (simp add: getLatestSnapshot_newest rows' retained_newest [OF d])
  ultimately show ?thesis using gone need young unfolding nk getLatestSnapshot_newest by blast
qed

theorem collectChannel_bounded_witness:
  "getChannelSize (snd (collectChannel 4 ''t0'' ''a'' no_stats sample_spool)) ''a'' \<le> 4"
proof -
  have "getLatestSnapshot sample_spool ''a'' = Some (sample_row ''5'' ''a'' 4 ''t4'' KSnapshot [7, 7])"
    by (simp add: getLatestSnapshot_def rows_of_def sample_spool_def sample_row_def last_option_def)
  then show ?thesis using collectChannel_bounded [OF sample_spool_ok refl, of 4 "''t0''" "''a''" no_stats]
    by (simp add: sample_row_def)
qed

text \<open>
  C16: A whole pass, over any spool: a channel dead past its retention is emptied, so is one the
  hub no longer has, and every other channel is left exactly what collecting it alone leaves. A
  purge empties exactly the named channels that the hub no longer has.
\<close>

theorem gc_pass_exact:
  assumes "spool_ok db" "seqs_safe db" "ch \<noteq> []"
    and "runPass stale hasChannel vac deadCutoff age cap stats db file = (stats', db', file')"
    and "purge hasChannel vac ids stats db file = (stats'', db'', file'')"
  shows "rows_of ch db' = (if ch \<in> set (stale deadCutoff) \<or> \<not> hasChannel ch then [] else retained cap age (rows_of ch db))
     \<and> rows_of ch db'' = (if ch \<in> set ids \<and> \<not> hasChannel ch then [] else rows_of ch db)"
proof
  obtain s1 db1 where 1: "collectStaleDead (stale deadCutoff) stats db = (s1, db1)" by fastforce
  have db1: "db1 = filter (\<lambda>r. channelId r \<notin> set (stale deadCutoff)) db" using collectStaleDead_rows [OF assms(2)] 1 by (metis snd_conv)
  have rows1: "rows_of ch db1 = (if ch \<in> set (stale deadCutoff) then [] else rows_of ch db)"
    unfolding db1 rows_of_filter by (auto simp: filter_id_conv filter_empty_conv)
  have "db' = snd (collectChannels hasChannel cap age [] s1 db1)"
    using assms(4) 1 by (auto simp: runPass_def split: prod.splits)
  moreover have "[] < ch" using assms(3) by (cases ch) auto
  ultimately show "rows_of ch db' = (if ch \<in> set (stale deadCutoff) \<or> \<not> hasChannel ch then [] else retained cap age (rows_of ch db))"
    using collectChannels_rows [of db1 ch hasChannel cap age "[]" s1] assms(1,2) rows1 by (simp add: db1)
  have "db'' = snd (purgeOrphans hasChannel ids stats db)" using assms(5) by (auto simp: purge_def split: prod.splits)
  then have "rows_of ch db'' = filter (\<lambda>r. channelId r \<in> set ids \<longrightarrow> hasChannel (channelId r)) (rows_of ch db)"
    by (simp add: purgeOrphans_rows [OF assms(2)] rows_of_filter)
  then show "rows_of ch db'' = (if ch \<in> set ids \<and> \<not> hasChannel ch then [] else rows_of ch db)"
    by (auto simp: filter_id_conv filter_empty_conv)
qed

theorem gc_pass_exact_witness:
  "rows_of ''b'' (fst (snd (runPass (\<lambda>_. []) (\<lambda>c. c = ''a'') (\<lambda>n f. (0, f)) ''t0'' ''t0'' 4 no_stats sample_spool ()))) = []"
proof -
  obtain s d f where r: "runPass (\<lambda>_. []) (\<lambda>c. c = ''a'') (\<lambda>n f. (0, f)) ''t0'' ''t0'' 4 no_stats sample_spool () = (s, d, f)" by (metis prod_cases3)
  obtain s2 d2 f2 where p: "purge (\<lambda>c. c = ''a'') (\<lambda>n f. (0, f)) [''b''] no_stats sample_spool () = (s2, d2, f2)" by (metis prod_cases3)
  from gc_pass_exact [OF sample_spool_ok _ r p, of "''b''"] r show ?thesis by simp
qed

end
