(* ===== verification/Send_Queue.thy ===== *)
theory Send_Queue
  imports Lasterm_Prelude "HOL-Library.Sublist"
begin

text \<open>
  The queue of frames for an agent, \<^verbatim>\<open>packages/hub/src/session/send-queue.ts\<close>, over a stream of
  node:stream. Of the stream the model has what the queue uses: \<open>write\<close> takes a frame in any case and answers
  false when the bytes it buffers reach the high-water mark, and once the sink has taken all of
  them after such an answer it emits \<open>drain\<close>.
\<close>

section \<open>The stream\<close>

record Writable =
  accepted :: "byte list list"
  buffered :: nat
  highWaterMark :: nat
  needDrain :: bool

definition stream_write :: "Writable \<Rightarrow> byte list \<Rightarrow> bool \<times> Writable" where
  "stream_write w frame =
     (let b = buffered w + length frame; ok = b < highWaterMark w
      in (ok, w\<lparr>accepted := accepted w @ [frame], buffered := b, needDrain := needDrain w \<or> \<not> ok\<rparr>))"

text \<open>The sink takes \<open>n\<close> bytes; the answer says whether the stream emits \<open>drain\<close>.\<close>

definition sink_takes :: "nat \<Rightarrow> Writable \<Rightarrow> bool \<times> Writable" where
  "sink_takes n w =
     (let b = buffered w - n; drain = (needDrain w \<and> b = 0)
      in (drain, w\<lparr>buffered := b, needDrain := needDrain w \<and> \<not> drain\<rparr>))"

section \<open>The queue\<close>

definition MAX_QUEUE_SIZE :: nat where
  "MAX_QUEUE_SIZE = 1000"

record SendQueue =
  sq_queue :: "byte list list"
  sq_draining :: bool
  sq_stream :: "Writable option"

definition new_queue :: SendQueue where
  "new_queue = \<lparr>sq_queue = [], sq_draining = False, sq_stream = None\<rparr>"

definition sq_attach :: "Writable \<Rightarrow> SendQueue \<Rightarrow> SendQueue" where
  "sq_attach w q = q\<lparr>sq_stream := Some w\<rparr>"

definition sq_enqueue :: "byte list \<Rightarrow> SendQueue \<Rightarrow> SendQueue" where
  "sq_enqueue frame q =
     (let queue = (if length (sq_queue q) \<ge> MAX_QUEUE_SIZE then tl (sq_queue q) else sq_queue q)
      in q\<lparr>sq_queue := queue @ [frame]\<rparr>)"

definition sq_send :: "byte list \<Rightarrow> SendQueue \<Rightarrow> SendQueue" where
  "sq_send frame q =
     (case sq_stream q of
        None \<Rightarrow> q
      | Some w \<Rightarrow>
          if sq_draining q then sq_enqueue frame q
          else let (ok, w') = stream_write w frame
            in q\<lparr>sq_stream := Some w', sq_draining := (if ok then sq_draining q else True)\<rparr>)"

definition sq_clear :: "SendQueue \<Rightarrow> SendQueue" where
  "sq_clear q = q\<lparr>sq_queue := [], sq_draining := False, sq_stream := None\<rparr>"

fun flush_loop :: "byte list list \<Rightarrow> Writable option \<Rightarrow> byte list list \<times> bool \<times> Writable option" where
  "flush_loop [] w = ([], False, w)"
| "flush_loop (frame # rest) None = (rest, True, None)"
| "flush_loop (frame # rest) (Some w) =
     (let (ok, w') = stream_write w frame
      in if ok then flush_loop rest (Some w') else (rest, True, Some w'))"

definition sq_flush :: "SendQueue \<Rightarrow> SendQueue" where
  "sq_flush q =
     (let (rest, draining, w) = flush_loop (sq_queue q) (sq_stream q)
      in q\<lparr>sq_queue := rest, sq_draining := draining, sq_stream := w\<rparr>)"

definition sq_pending :: "SendQueue \<Rightarrow> nat" where
  "sq_pending q = length (sq_queue q)"

text \<open>The sink of the attached stream takes some bytes, and \<open>drain\<close>, if emitted, runs \<open>flush\<close>.\<close>

definition sq_sink :: "nat \<Rightarrow> SendQueue \<Rightarrow> SendQueue" where
  "sq_sink n q =
     (case sq_stream q of
        None \<Rightarrow> q
      | Some w \<Rightarrow>
          let (drain, w') = sink_takes n w; q' = q\<lparr>sq_stream := Some w'\<rparr>
          in if drain then sq_flush q' else q')"

section \<open>Order, bound and progress\<close>

datatype queue_event = Send "byte list" | Sink nat

fun sq_step :: "SendQueue \<Rightarrow> queue_event \<Rightarrow> SendQueue" where
  "sq_step q (Send frame) = sq_send frame q"
| "sq_step q (Sink n) = sq_sink n q"

definition sq_run :: "SendQueue \<Rightarrow> queue_event list \<Rightarrow> SendQueue" where
  "sq_run = foldl sq_step"

fun sends :: "queue_event list \<Rightarrow> byte list list" where
  "sends [] = []"
| "sends (Send frame # es) = frame # sends es"
| "sends (Sink n # es) = sends es"

lemma sends_append [simp]: "sends (xs @ ys) = sends xs @ sends ys"
  by (induction xs rule: sends.induct) auto

definition stream_ok :: "Writable \<Rightarrow> bool" where
  "stream_ok w \<longleftrightarrow> 0 < highWaterMark w \<and> (\<not> needDrain w \<longrightarrow> buffered w < highWaterMark w) \<and> (needDrain w \<longrightarrow> 0 < buffered w)"

text \<open>
  Backpressure is on exactly while the stream owes a \<open>drain\<close>, and only then are frames queued: so
  a queued frame always waits for an event that will come.
\<close>

definition queue_inv :: "SendQueue \<Rightarrow> bool" where
  "queue_inv q \<longleftrightarrow> (case sq_stream q of None \<Rightarrow> False | Some w \<Rightarrow> stream_ok w \<and> (sq_draining q \<longleftrightarrow> needDrain w))
     \<and> (\<not> sq_draining q \<longrightarrow> sq_queue q = []) \<and> length (sq_queue q) \<le> MAX_QUEUE_SIZE"

definition passed_on :: "SendQueue \<Rightarrow> byte list list" where
  "passed_on q = (case sq_stream q of None \<Rightarrow> [] | Some w \<Rightarrow> accepted w)"

lemma stream_write_facts:
  assumes "stream_write w frame = (ok, w')" "stream_ok w"
  shows "accepted w' = accepted w @ [frame]" "\<not> needDrain w \<Longrightarrow> needDrain w' \<longleftrightarrow> \<not> ok" "stream_ok w'"
    "highWaterMark w' = highWaterMark w"
  using assms by (auto simp: stream_write_def stream_ok_def Let_def)

lemma flush_loop_facts:
  assumes "stream_ok w" "\<not> needDrain w" "flush_loop fs (Some w) = (rest, draining, w')"
  shows "\<exists>v. w' = Some v \<and> stream_ok v \<and> (draining \<longleftrightarrow> needDrain v) \<and> (\<not> draining \<longrightarrow> rest = [])
     \<and> accepted v @ rest = accepted w @ fs \<and> length rest \<le> length fs \<and> (fs \<noteq> [] \<longrightarrow> length rest < length fs)"
  using assms
proof (induction fs arbitrary: w)
  case (Cons f fs)
  obtain ok u where wr: "stream_write w f = (ok, u)" by fastforce
  note u = stream_write_facts [OF wr Cons.prems(1)]
  show ?case
  proof (cases ok)
    case True
    then have "flush_loop fs (Some u) = (rest, draining, w')" using Cons.prems(3) wr by simp
    from Cons.IH [OF u(3) _ this] u(1,2) Cons.prems(2) True show ?thesis by auto
  qed (use Cons.prems wr u in auto)
qed auto

lemma sq_sink_facts:
  assumes "queue_inv q"
  shows "queue_inv (sq_sink n q)" "passed_on (sq_sink n q) @ sq_queue (sq_sink n q) = passed_on q @ sq_queue q"
proof -
  from assms obtain w where w: "sq_stream q = Some w" "stream_ok w" "sq_draining q \<longleftrightarrow> needDrain w"
    "\<not> sq_draining q \<longrightarrow> sq_queue q = []" "length (sq_queue q) \<le> MAX_QUEUE_SIZE" by (auto simp: queue_inv_def split: option.splits)
  obtain drain w' where s: "sink_takes n w = (drain, w')" by fastforce
  have w': "stream_ok w'" "accepted w' = accepted w" "drain \<Longrightarrow> \<not> needDrain w'" "\<not> drain \<Longrightarrow> needDrain w' = needDrain w"
    using s w(2) by (auto simp: sink_takes_def stream_ok_def Let_def)
  have "queue_inv (sq_sink n q) \<and> passed_on (sq_sink n q) @ sq_queue (sq_sink n q) = passed_on q @ sq_queue q"
  proof (cases drain)
    case True
    obtain rest d v where f: "flush_loop (sq_queue q) (Some w') = (rest, d, v)" by (metis prod_cases3)
    with flush_loop_facts [OF w'(1) w'(3) [OF True] f] True w s w' show ?thesis
      by (auto simp: sq_sink_def sq_flush_def queue_inv_def passed_on_def)
  next
    case False
    then show ?thesis using w s w' by (auto simp: sq_sink_def queue_inv_def passed_on_def)
  qed
  then show "queue_inv (sq_sink n q)" "passed_on (sq_sink n q) @ sq_queue (sq_sink n q) = passed_on q @ sq_queue q" by auto
qed

lemma sq_sink_progress:
  assumes "queue_inv q" "sq_queue q \<noteq> []" "sq_stream q = Some w" "buffered w \<le> n"
  shows "sq_pending (sq_sink n q) < sq_pending q"
proof -
  have w: "stream_ok w" "needDrain w" using assms by (auto simp: queue_inv_def)
  let ?w' = "w\<lparr>buffered := 0, needDrain := False\<rparr>"
  have s: "sink_takes n w = (True, ?w')" using w(2) assms(4) by (simp add: sink_takes_def Let_def)
  have ok: "stream_ok ?w'" "\<not> needDrain ?w'" using w(1) by (auto simp: stream_ok_def)
  obtain rest d v where f: "flush_loop (sq_queue q) (Some ?w') = (rest, d, v)" by (metis prod_cases3)
  with flush_loop_facts [OF ok f] assms s show ?thesis by (auto simp: sq_sink_def sq_flush_def sq_pending_def)
qed

lemma sq_send_facts:
  assumes "queue_inv q"
  shows "queue_inv (sq_send frame q)"
    "passed_on (sq_send frame q) @ sq_queue (sq_send frame q)
       = (if sq_draining q \<and> length (sq_queue q) = MAX_QUEUE_SIZE then passed_on q @ tl (sq_queue q) @ [frame]
          else passed_on q @ sq_queue q @ [frame])"
proof -
  from assms obtain w where w: "sq_stream q = Some w" "stream_ok w" "sq_draining q \<longleftrightarrow> needDrain w"
    "\<not> sq_draining q \<longrightarrow> sq_queue q = []" "length (sq_queue q) \<le> MAX_QUEUE_SIZE" by (auto simp: queue_inv_def split: option.splits)
  obtain ok w' where wr: "stream_write w frame = (ok, w')" by fastforce
  note w' = stream_write_facts [OF wr w(2)]
  have "queue_inv (sq_send frame q) \<and> passed_on (sq_send frame q) @ sq_queue (sq_send frame q)
       = (if sq_draining q \<and> length (sq_queue q) = MAX_QUEUE_SIZE then passed_on q @ tl (sq_queue q) @ [frame]
          else passed_on q @ sq_queue q @ [frame])"
    using w wr w' by (cases "sq_draining q")
      (auto simp: sq_send_def sq_enqueue_def queue_inv_def passed_on_def MAX_QUEUE_SIZE_def)
  then show "queue_inv (sq_send frame q)"
    "passed_on (sq_send frame q) @ sq_queue (sq_send frame q)
       = (if sq_draining q \<and> length (sq_queue q) = MAX_QUEUE_SIZE then passed_on q @ tl (sq_queue q) @ [frame]
          else passed_on q @ sq_queue q @ [frame])" by auto
qed

lemma sq_run_inv: "queue_inv q \<Longrightarrow> queue_inv (sq_run q es)"
proof (induction es rule: rev_induct)
  case (snoc e es)
  then show ?case by (cases e) (auto simp: sq_run_def sq_send_facts sq_sink_facts)
qed (simp add: sq_run_def)

lemma subseq_skip: "subseq (xs @ ys) (xs @ z # ys)"
  by (induction xs) auto

lemma sq_run_subseq: "queue_inv q \<Longrightarrow> subseq (passed_on (sq_run q es) @ sq_queue (sq_run q es)) (passed_on q @ sq_queue q @ sends es)"
proof (induction es rule: rev_induct)
  case (snoc e es)
  let ?q = "sq_run q es"
  note inv = sq_run_inv [OF snoc.prems, of es]
  have IH: "subseq (passed_on ?q @ sq_queue ?q) (passed_on q @ sq_queue q @ sends es)" using snoc by simp
  show ?case
  proof (cases e)
    case (Send f)
    have "subseq (passed_on ?q @ tl (sq_queue ?q) @ [f]) (passed_on ?q @ sq_queue ?q @ [f])"
      using subseq_skip [of "passed_on ?q"] by (cases "sq_queue ?q") auto
    moreover have "subseq (passed_on ?q @ sq_queue ?q @ [f]) (passed_on q @ sq_queue q @ sends es @ [f])"
      using list_emb_append_mono [OF IH, of "[f]" "[f]"] by simp
    ultimately show ?thesis using sq_send_facts(2) [OF inv, of f] Send
      by (auto simp: sq_run_def intro: subseq_order.order_trans)
  qed (use IH sq_sink_facts [OF inv] in \<open>simp add: sq_run_def\<close>)
qed (simp add: sq_run_def)

text \<open>A queue that was never full has dropped nothing.\<close>

lemma sq_run_lossless:
  assumes "queue_inv q" "\<forall>n < length es. sq_pending (sq_run q (take n es)) < MAX_QUEUE_SIZE"
  shows "passed_on (sq_run q es) @ sq_queue (sq_run q es) = passed_on q @ sq_queue q @ sends es"
  using assms(2)
proof (induction es rule: rev_induct)
  case (snoc e es)
  let ?q = "sq_run q es"
  have "sq_pending (sq_run q (take n es)) < MAX_QUEUE_SIZE" if "n < length es" for n
    using snoc.prems [rule_format, of n] that by simp
  then have IH: "passed_on ?q @ sq_queue ?q = passed_on q @ sq_queue q @ sends es" using snoc.IH by blast
  have "sq_pending ?q < MAX_QUEUE_SIZE" using snoc.prems [rule_format, of "length es"] by simp
  then show ?case using IH sq_send_facts(2) [OF sq_run_inv [OF assms(1)], of _ es] sq_sink_facts(2) [OF sq_run_inv [OF assms(1)], of _ es]
    by (cases e) (auto simp: sq_run_def sq_pending_def)
qed (simp add: sq_run_def)

lemma fresh_queue_inv: "stream_ok w \<Longrightarrow> \<not> needDrain w \<Longrightarrow> queue_inv (sq_attach w new_queue)"
  by (simp add: queue_inv_def sq_attach_def new_queue_def)

text \<open>
  C24: Frames to an agent keep their order. Whatever is sent and however the sink stalls, what the
  stream was given followed by what is queued is, in order, the frames sent less those dropped; at
  most 1000 wait; a frame waits only while the stream owes a drain, and when the sink has taken what
  the stream buffers at least one waiting frame moves on; while the queue was never full nothing is dropped.
\<close>

theorem send_queue_ordered:
  assumes "stream_ok w" "\<not> needDrain w" "sq_run (sq_attach w new_queue) es = q"
  shows "subseq (passed_on q @ sq_queue q) (accepted w @ sends es)
     \<and> sq_pending q \<le> MAX_QUEUE_SIZE
     \<and> (sq_queue q \<noteq> [] \<longrightarrow> (\<exists>v. sq_stream q = Some v \<and> needDrain v \<and> 0 < buffered v
            \<and> (\<forall>n \<ge> buffered v. sq_pending (sq_sink n q) < sq_pending q)))
     \<and> ((\<forall>n < length es. sq_pending (sq_run (sq_attach w new_queue) (take n es)) < MAX_QUEUE_SIZE)
          \<longrightarrow> passed_on q @ sq_queue q = accepted w @ sends es)"
proof -
  note inv0 = fresh_queue_inv [OF assms(1,2)]
  have start: "passed_on (sq_attach w new_queue) = accepted w" "sq_queue (sq_attach w new_queue) = []"
    by (simp_all add: passed_on_def sq_attach_def new_queue_def)
  have inv: "queue_inv q" using sq_run_inv [OF inv0] assms(3) by blast
  then have "sq_pending q \<le> MAX_QUEUE_SIZE \<and> (sq_queue q \<noteq> [] \<longrightarrow> (\<exists>v. sq_stream q = Some v \<and> needDrain v \<and> 0 < buffered v
      \<and> (\<forall>n \<ge> buffered v. sq_pending (sq_sink n q) < sq_pending q)))"
    using sq_sink_progress [OF inv] by (auto simp: queue_inv_def sq_pending_def stream_ok_def split: option.splits)
  then show ?thesis using sq_run_subseq [OF inv0, of es] sq_run_lossless [OF inv0, of es] assms(3) by (simp add: start)
qed

theorem send_queue_ordered_witness:
  "(let w = \<lparr>accepted = [], buffered = 0, highWaterMark = 2, needDrain = False\<rparr>;
        q = sq_run (sq_attach w new_queue) [Send [1, 2], Send [3], Send [4], Sink 1]
    in sq_queue q = [[3], [4]] \<and> passed_on q = [[1, 2]] \<and> sq_pending q \<le> MAX_QUEUE_SIZE)"
proof -
  let ?w = "\<lparr>accepted = [], buffered = 0, highWaterMark = 2, needDrain = False\<rparr>"
  have ok: "stream_ok ?w" "\<not> needDrain ?w" by (simp_all add: stream_ok_def)
  show ?thesis using send_queue_ordered [OF ok refl, of "[Send [1, 2], Send [3], Send [4], Sink 1]"]
    by (simp add: Let_def sq_run_def sq_send_def sq_enqueue_def sq_sink_def sink_takes_def stream_write_def sq_attach_def new_queue_def
        passed_on_def MAX_QUEUE_SIZE_def)
qed

end
