(* ===== verification/Snapshot_Scheduler.thy ===== *)
theory Snapshot_Scheduler
  imports Lasterm_Prelude
begin

text \<open>
  When the hub asks an agent for a snapshot of a terminal's screen:
  \<^verbatim>\<open>packages/hub/src/session/snapshot-scheduler.ts\<close>. Timers are flags and their expiry is an event; the time of
  an event and whether the channel's agent is connected are its arguments; requests sent are a log.
\<close>

section \<open>State and operations\<close>

record ChannelTimers =
  lastOutputAt :: nat
  lastSnapshotAt :: nat
  changed :: bool
  idleTimer :: bool
  forcedTimer :: bool

record scheduler =
  tracked :: "(channel_id, ChannelTimers) jmap"
  inFlightSnapshots :: nat
  maxConcurrentSnapshots :: nat
  snapshotTimeouts :: "channel_id list"
  requests :: "channel_id list"

definition DEFAULT_MAX_CONCURRENT_SNAPSHOTS :: nat where
  "DEFAULT_MAX_CONCURRENT_SNAPSHOTS = 4"

definition new_scheduler :: "nat \<Rightarrow> scheduler" where
  "new_scheduler m = \<lparr>tracked = [], inFlightSnapshots = 0, maxConcurrentSnapshots = m, snapshotTimeouts = [], requests = []\<rparr>"

definition ss_trackChannel :: "nat \<Rightarrow> channel_id \<Rightarrow> scheduler \<Rightarrow> scheduler" where
  "ss_trackChannel now ch s =
     (if map_has (tracked s) ch then s
      else s\<lparr>tracked := map_set ch \<lparr>lastOutputAt = now, lastSnapshotAt = 0, changed = True, idleTimer = True, forcedTimer = True\<rparr> (tracked s)\<rparr>)"

definition ss_onOutput :: "nat \<Rightarrow> channel_id \<Rightarrow> scheduler \<Rightarrow> scheduler" where
  "ss_onOutput now ch s =
     (case map_get (tracked s) ch of
        None \<Rightarrow> s
      | Some st \<Rightarrow> s\<lparr>tracked := map_set ch (st\<lparr>lastOutputAt := now, changed := True, idleTimer := True\<rparr>) (tracked s)\<rparr>)"

definition ss_onResize :: "nat \<Rightarrow> channel_id \<Rightarrow> scheduler \<Rightarrow> scheduler" where
  "ss_onResize now ch s = ss_onOutput now ch s"

definition requestSnapshot :: "(channel_id \<Rightarrow> bool) \<Rightarrow> nat \<Rightarrow> channel_id \<Rightarrow> scheduler \<Rightarrow> scheduler" where
  "requestSnapshot connected now ch s =
     (if inFlightSnapshots s \<ge> maxConcurrentSnapshots s then s
      else let s = (case map_get (tracked s) ch of
                      None \<Rightarrow> s
                    | Some st \<Rightarrow> s\<lparr>tracked := map_set ch (st\<lparr>lastSnapshotAt := now\<rparr>) (tracked s)\<rparr>)
        in if \<not> connected ch then s
           else let s = (case map_get (tracked s) ch of
                           None \<Rightarrow> s
                         | Some st \<Rightarrow> s\<lparr>tracked := map_set ch (st\<lparr>changed := False\<rparr>) (tracked s)\<rparr>)
             in s\<lparr>inFlightSnapshots := inFlightSnapshots s + 1, requests := requests s @ [ch],
                  snapshotTimeouts := set_add ch (snapshotTimeouts s)\<rparr>)"

definition ss_onDetach :: "(channel_id \<Rightarrow> bool) \<Rightarrow> nat \<Rightarrow> channel_id \<Rightarrow> scheduler \<Rightarrow> scheduler" where
  "ss_onDetach connected now ch s = requestSnapshot connected now ch s"

definition ss_untrackChannel :: "channel_id \<Rightarrow> scheduler \<Rightarrow> scheduler" where
  "ss_untrackChannel ch s =
     (case map_get (tracked s) ch of None \<Rightarrow> s | Some _ \<Rightarrow> s\<lparr>tracked := map_delete ch (tracked s)\<rparr>)"

definition ss_shutdown :: "scheduler \<Rightarrow> scheduler" where
  "ss_shutdown s = (foldl (\<lambda>s ch. ss_untrackChannel ch s) s (map fst (tracked s)))\<lparr>snapshotTimeouts := []\<rparr>"

definition onIdleTimeout :: "(channel_id \<Rightarrow> bool) \<Rightarrow> nat \<Rightarrow> channel_id \<Rightarrow> scheduler \<Rightarrow> scheduler" where
  "onIdleTimeout connected now ch s =
     (case map_get (tracked s) ch of
        None \<Rightarrow> s
      | Some st \<Rightarrow>
          let s = s\<lparr>tracked := map_set ch (st\<lparr>idleTimer := False\<rparr>) (tracked s)\<rparr>
          in if changed st then requestSnapshot connected now ch s else s)"

definition onForcedTimeout :: "(channel_id \<Rightarrow> bool) \<Rightarrow> nat \<Rightarrow> channel_id \<Rightarrow> scheduler \<Rightarrow> scheduler" where
  "onForcedTimeout connected now ch s =
     (case map_get (tracked s) ch of
        None \<Rightarrow> s
      | Some st \<Rightarrow> if changed st then requestSnapshot connected now ch s else s)"

definition onSnapshotResponse :: "channel_id \<Rightarrow> scheduler \<Rightarrow> scheduler" where
  "onSnapshotResponse ch s =
     (let s = (if inFlightSnapshots s > 0 then s\<lparr>inFlightSnapshots := inFlightSnapshots s - 1\<rparr> else s)
      in s\<lparr>snapshotTimeouts := set_delete ch (snapshotTimeouts s)\<rparr>)"

text \<open>The agent did not answer in time.\<close>

definition snapshotTimedOut :: "channel_id \<Rightarrow> scheduler \<Rightarrow> scheduler" where
  "snapshotTimedOut ch s =
     (let s = s\<lparr>snapshotTimeouts := set_delete ch (snapshotTimeouts s)\<rparr>;
          s = (if inFlightSnapshots s > 0 then s\<lparr>inFlightSnapshots := inFlightSnapshots s - 1\<rparr> else s)
      in case map_get (tracked s) ch of
           None \<Rightarrow> s
         | Some st \<Rightarrow> s\<lparr>tracked := map_set ch (st\<lparr>changed := True\<rparr>) (tracked s)\<rparr>)"

section \<open>Events\<close>

datatype ss_event =
    STrack nat channel_id
  | SOutput nat channel_id
  | SResize nat channel_id
  | SDetach "channel_id \<Rightarrow> bool" nat channel_id
  | SUntrack channel_id
  | SIdle "channel_id \<Rightarrow> bool" nat channel_id
  | SForced "channel_id \<Rightarrow> bool" nat channel_id
  | SResponse channel_id
  | STimedOut channel_id

fun ss_enabled :: "scheduler \<Rightarrow> ss_event \<Rightarrow> bool" where
  "ss_enabled s (SIdle _ _ ch) = (case map_get (tracked s) ch of None \<Rightarrow> False | Some st \<Rightarrow> idleTimer st)"
| "ss_enabled s (SForced _ _ ch) = map_has (tracked s) ch"
| "ss_enabled s (STimedOut ch) = (ch \<in> set (snapshotTimeouts s))"
| "ss_enabled s _ = True"

fun ss_step :: "scheduler \<Rightarrow> ss_event \<Rightarrow> scheduler" where
  "ss_step s (STrack now ch) = ss_trackChannel now ch s"
| "ss_step s (SOutput now ch) = ss_onOutput now ch s"
| "ss_step s (SResize now ch) = ss_onResize now ch s"
| "ss_step s (SDetach con now ch) = ss_onDetach con now ch s"
| "ss_step s (SUntrack ch) = ss_untrackChannel ch s"
| "ss_step s (SIdle con now ch) = onIdleTimeout con now ch s"
| "ss_step s (SForced con now ch) = onForcedTimeout con now ch s"
| "ss_step s (SResponse ch) = onSnapshotResponse ch s"
| "ss_step s (STimedOut ch) = snapshotTimedOut ch s"

section \<open>Slots\<close>

lemma requestSnapshot_facts:
  shows "maxConcurrentSnapshots (requestSnapshot con now ch s) = maxConcurrentSnapshots s"
    and "inFlightSnapshots s \<ge> maxConcurrentSnapshots s \<or> \<not> con ch \<Longrightarrow>
      inFlightSnapshots (requestSnapshot con now ch s) = inFlightSnapshots s \<and> requests (requestSnapshot con now ch s) = requests s
      \<and> snapshotTimeouts (requestSnapshot con now ch s) = snapshotTimeouts s
      \<and> map_option changed (map_get (tracked (requestSnapshot con now ch s)) c) = map_option changed (map_get (tracked s) c)"
    and "inFlightSnapshots s < maxConcurrentSnapshots s \<Longrightarrow> con ch \<Longrightarrow>
      inFlightSnapshots (requestSnapshot con now ch s) = inFlightSnapshots s + 1 \<and> requests (requestSnapshot con now ch s) = requests s @ [ch]
      \<and> set (snapshotTimeouts (requestSnapshot con now ch s)) = insert ch (set (snapshotTimeouts s))
      \<and> map_option changed (map_get (tracked (requestSnapshot con now ch s)) c)
          = (if c = ch then map_option (\<lambda>_. False) (map_get (tracked s) c) else map_option changed (map_get (tracked s) c))"
  by (auto simp: requestSnapshot_def Let_def split: option.splits)

definition slots_ok :: "scheduler \<Rightarrow> bool" where
  "slots_ok s \<longleftrightarrow> inFlightSnapshots s \<le> maxConcurrentSnapshots s
     \<and> (0 < maxConcurrentSnapshots s \<and> inFlightSnapshots s = maxConcurrentSnapshots s \<longrightarrow> snapshotTimeouts s \<noteq> [])
     \<and> (\<forall>ch st. map_get (tracked s) ch = Some st \<longrightarrow> forcedTimer st)"

lemma forced_kept_request:
  "map_get (tracked (requestSnapshot con now ch s)) c = Some st' \<Longrightarrow> \<exists>st. map_get (tracked s) c = Some st \<and> forcedTimer st' = forcedTimer st"
  by (auto simp: requestSnapshot_def Let_def split: option.splits if_splits)

lemma slots_ok_request: "slots_ok s \<Longrightarrow> slots_ok (requestSnapshot con now ch s)"
proof -
  assume ok: "slots_ok s"
  have f: "\<forall>c st'. map_get (tracked (requestSnapshot con now ch s)) c = Some st' \<longrightarrow> forcedTimer st'"
    using ok forced_kept_request [of con now ch s] unfolding slots_ok_def by metis
  show ?thesis
  proof (cases "inFlightSnapshots s < maxConcurrentSnapshots s \<and> con ch")
    case True
    then have "snapshotTimeouts (requestSnapshot con now ch s) \<noteq> []"
      using requestSnapshot_facts(3) [of s con ch now] by (metis empty_iff insert_iff list.set(1))
    then show ?thesis using True f requestSnapshot_facts(1) [of con now ch s] requestSnapshot_facts(3) [of s con ch now]
      by (simp add: slots_ok_def)
  next
    case False
    then show ?thesis using ok f requestSnapshot_facts(1) [of con now ch s] requestSnapshot_facts(2) [of s con ch now]
      by (auto simp: slots_ok_def)
  qed
qed

lemma slots_ok_step: "slots_ok s \<Longrightarrow> slots_ok (ss_step s e)"
proof (cases e)
  case (SDetach con now ch)
  then show "slots_ok s \<Longrightarrow> slots_ok (ss_step s e)" by (simp add: ss_onDetach_def slots_ok_request)
next
  case (SIdle con now ch)
  assume ok: "slots_ok s"
  have "slots_ok (s\<lparr>tracked := map_set ch (st\<lparr>idleTimer := False\<rparr>) (tracked s)\<rparr>)" if "map_get (tracked s) ch = Some st" for st
    using ok that by (auto simp: slots_ok_def)
  then show ?thesis using ok by (auto simp: SIdle onIdleTimeout_def Let_def slots_ok_request split: option.splits)
next
  case (SForced con now ch)
  then show "slots_ok s \<Longrightarrow> slots_ok (ss_step s e)" by (auto simp: onForcedTimeout_def slots_ok_request split: option.splits)
qed (auto simp: slots_ok_def ss_trackChannel_def ss_onResize_def ss_onOutput_def ss_untrackChannel_def onSnapshotResponse_def snapshotTimedOut_def Let_def
    split: option.splits if_splits)

interpretation snapshots: event_machine "new_scheduler m" ss_enabled ss_step slots_ok
proof
  show "slots_ok (new_scheduler m)" by (auto simp: slots_ok_def new_scheduler_def)
qed (rule slots_ok_step)

lemma max_step: "maxConcurrentSnapshots (ss_step s e) = maxConcurrentSnapshots s"
  by (cases e) (auto simp: ss_trackChannel_def ss_onResize_def ss_onOutput_def ss_untrackChannel_def onSnapshotResponse_def snapshotTimedOut_def
      ss_onDetach_def onIdleTimeout_def onForcedTimeout_def requestSnapshot_facts(1) Let_def split: option.splits)

lemma max_run: "maxConcurrentSnapshots (foldl ss_step (new_scheduler m) es) = m"
  by (induction es rule: rev_induct) (simp_all add: max_step, simp add: new_scheduler_def)

section \<open>No change is forgotten\<close>

fun changes :: "channel_id \<Rightarrow> ss_event \<Rightarrow> bool" where
  "changes ch (SOutput _ c) = (c = ch)"
| "changes ch (SResize _ c) = (c = ch)"
| "changes ch (STimedOut c) = (c = ch)"
| "changes ch _ = False"

lemma unchanged_step:
  assumes "map_option changed (map_get (tracked (ss_step s e)) ch) = Some False"
  shows "requests (ss_step s e) = requests s @ [ch] \<or> (map_option changed (map_get (tracked s) ch) = Some False \<and> \<not> changes ch e)"
proof -
  have req: "requests (requestSnapshot con now c t) = requests t @ [ch] \<or> map_option changed (map_get (tracked t) ch) = Some False"
    if "map_option changed (map_get (tracked (requestSnapshot con now c t)) ch) = Some False" for con now c t
  proof (cases "inFlightSnapshots t < maxConcurrentSnapshots t \<and> con c")
    case True
    then show ?thesis using that requestSnapshot_facts(3) [of t con c now ch] by (cases "ch = c") simp_all
  next
    case False
    then have "map_option changed (map_get (tracked (requestSnapshot con now c t)) ch) = map_option changed (map_get (tracked t) ch)"
      using requestSnapshot_facts(2) [of t con c now ch] by (simp add: not_less)
    then show ?thesis using that by simp
  qed
  show ?thesis
  proof (cases e)
    case (SDetach con now c)
    then show ?thesis using assms req by (auto simp: ss_onDetach_def)
  next
    case (SIdle con now c)
    show ?thesis
    proof (cases "map_get (tracked s) c")
      case (Some st)
      let ?t = "s\<lparr>tracked := map_set c (st\<lparr>idleTimer := False\<rparr>) (tracked s)\<rparr>"
      have "map_option changed (map_get (tracked ?t) ch) = map_option changed (map_get (tracked s) ch)" using Some by auto
      then show ?thesis using assms req [of con now c ?t] Some by (auto simp: SIdle onIdleTimeout_def Let_def split: if_splits)
    qed (use assms SIdle in \<open>simp add: onIdleTimeout_def\<close>)
  next
    case (SForced con now c)
    then show ?thesis using assms req [of con now c s] by (auto simp: onForcedTimeout_def split: option.splits if_splits)
  qed (use assms in \<open>auto simp: ss_trackChannel_def ss_onResize_def ss_onOutput_def ss_untrackChannel_def onSnapshotResponse_def snapshotTimedOut_def Let_def
      split: option.splits if_splits\<close>)
qed

lemma unchanged_asked:
  assumes "map_option changed (map_get (tracked (foldl ss_step (new_scheduler m) es)) ch) = Some False"
  shows "\<exists>es1 e es2. es = es1 @ [e] @ es2
     \<and> requests (foldl ss_step (new_scheduler m) (es1 @ [e])) = requests (foldl ss_step (new_scheduler m) es1) @ [ch]
     \<and> (\<forall>x \<in> set es2. \<not> changes ch x)"
  using assms
proof (induction es rule: rev_induct)
  case (snoc e es)
  let ?s = "foldl ss_step (new_scheduler m) es"
  from unchanged_step [of ?s e ch] snoc.prems consider
    "requests (ss_step ?s e) = requests ?s @ [ch]" | "map_option changed (map_get (tracked ?s) ch) = Some False" "\<not> changes ch e" by auto
  then show ?case
  proof cases
    case 1
    then show ?thesis by (intro exI [of _ es] exI [of _ e] exI [of _ "[]"]) simp
  next
    case 2
    from snoc.IH [OF 2(1)] obtain es1 x es2 where h: "es = es1 @ [x] @ es2"
      "requests (foldl ss_step (new_scheduler m) (es1 @ [x])) = requests (foldl ss_step (new_scheduler m) es1) @ [ch]"
      "\<forall>y \<in> set es2. \<not> changes ch y" by blast
    then show ?thesis using 2(2) by (intro exI [of _ es1] exI [of _ x] exI [of _ "es2 @ [e]"]) simp
  qed
qed (simp add: new_scheduler_def)



section \<open>A slot that is lost\<close>

text \<open>A channel asked twice for a snapshot by an agent that answers neither.\<close>

definition unanswered_twice :: "channel_id \<Rightarrow> ss_event list" where
  "unanswered_twice ch = [SDetach (\<lambda>_. True) 0 ch, SDetach (\<lambda>_. True) 1 ch, STimedOut ch]"


end
