(* ===== verification/Pane_Geometry.thy ===== *)
theory Pane_Geometry
  imports Pane_Layout
begin

text \<open>
  Where the panes of a tab are and which lies beside which: \<^verbatim>\<open>utils/pane-geometry.ts\<close>, the focus moves of Alt and an
  arrow and the divider moves of Alt, Shift and an arrow. Coordinates are rational numbers, so the tolerance of the code is
  kept but rounding is not modelled. The bounds of a ratio are in \<open>Pane_Layout\<close>.
\<close>

section \<open>Leaves and rectangles\<close>

datatype PaneDirection = DLeft | DRight | DUp | DDown

record PaneLeaf =
  leaf_id :: pane_id
  leaf_node :: PaneNode
  leaf_path :: NodePath

fun leafId :: "PaneNode \<Rightarrow> pane_id option" where
  "leafId (Terminal _ p) = Some p"
| "leafId (Vacant v) = Some v"
| "leafId (Split _ _ _ _) = None"

definition leafIdOrEmpty :: "PaneNode \<Rightarrow> pane_id" where
  "leafIdOrEmpty node = (case leafId node of None \<Rightarrow> [] | Some i \<Rightarrow> i)"

fun paneLeaves :: "PaneNode \<Rightarrow> NodePath \<Rightarrow> PaneLeaf list" where
  "paneLeaves (Split d r a b) path = paneLeaves a (path @ [First]) @ paneLeaves b (path @ [Second])"
| "paneLeaves rt path = [\<lparr>leaf_id = leafIdOrEmpty rt, leaf_node = rt, leaf_path = path\<rparr>]"

record Area =
  left :: rat
  top :: rat
  right :: rat
  bottom :: rat

record PaneRect = Area +
  rect_id :: pane_id

definition whole :: Area where
  "whole = \<lparr>left = 0, top = 0, right = 1, bottom = 1\<rparr>"

fun paneRects :: "PaneNode \<Rightarrow> Area \<Rightarrow> PaneRect list" where
  "paneRects (Split Vertical ratio a b) area =
     (let edge = left area + (right area - left area) * ratio
      in paneRects a (area\<lparr>right := edge\<rparr>) @ paneRects b (area\<lparr>left := edge\<rparr>))"
| "paneRects (Split Horizontal ratio a b) area =
     (let edge = top area + (bottom area - top area) * ratio
      in paneRects a (area\<lparr>bottom := edge\<rparr>) @ paneRects b (area\<lparr>top := edge\<rparr>))"
| "paneRects rt area = [Area.extend area (PaneRect.fields (leafIdOrEmpty rt))]"

definition EPSILON :: rat where
  "EPSILON = 1 / 10 ^ 9"

definition gapTowards :: "PaneRect \<Rightarrow> PaneRect \<Rightarrow> PaneDirection \<Rightarrow> rat option" where
  "gapTowards from to direction =
     (let gap = (case direction of
                   DLeft \<Rightarrow> left from - right to
                 | DRight \<Rightarrow> left to - right from
                 | DUp \<Rightarrow> top from - bottom to
                 | DDown \<Rightarrow> top to - bottom from)
      in if gap \<ge> - EPSILON then Some (max 0 gap) else None)"

definition overlapAcross :: "PaneRect \<Rightarrow> PaneRect \<Rightarrow> PaneDirection \<Rightarrow> rat" where
  "overlapAcross a b direction =
     (if direction = DLeft \<or> direction = DRight
      then min (bottom a) (bottom b) - max (top a) (top b)
      else min (right a) (right b) - max (left a) (left b))"

record Best =
  best_id :: pane_id
  best_gap :: rat
  best_overlap :: rat

fun nearest :: "PaneRect \<Rightarrow> pane_id \<Rightarrow> PaneDirection \<Rightarrow> Best option \<Rightarrow> PaneRect list \<Rightarrow> Best option" where
  "nearest from fromId direction best [] = best"
| "nearest from fromId direction best (rect # rects) =
     (let next = (if rect_id rect = fromId then best
        else let overlap = overlapAcross from rect direction in
          case gapTowards from rect direction of
            None \<Rightarrow> best
          | Some gap \<Rightarrow>
              if overlap \<le> EPSILON then best
              else if (case best of
                         None \<Rightarrow> True
                       | Some b \<Rightarrow> gap < best_gap b - EPSILON
                           \<or> (\<bar>gap - best_gap b\<bar> \<le> EPSILON \<and> overlap > best_overlap b + EPSILON))
              then Some \<lparr>best_id = rect_id rect, best_gap = gap, best_overlap = overlap\<rparr>
              else best)
      in nearest from fromId direction next rects)"

definition paneInDirection :: "PaneNode \<Rightarrow> pane_id \<Rightarrow> PaneDirection \<Rightarrow> pane_id option" where
  "paneInDirection rt fromId direction =
     (let rects = paneRects rt whole in
      case List.find (\<lambda>rect. rect_id rect = fromId) rects of
        None \<Rightarrow> None
      | Some from \<Rightarrow> map_option best_id (nearest from fromId direction None rects))"

section \<open>Moving a divider\<close>

definition PANE_RESIZE_STEP :: rat where
  "PANE_RESIZE_STEP = 1 / 20"

fun nodeAt :: "PaneNode \<Rightarrow> NodePath \<Rightarrow> PaneNode option" where
  "nodeAt node [] = Some node"
| "nodeAt (Split d r a b) (t # ts) = nodeAt (if t = First then a else b) ts"
| "nodeAt node (t # ts) = None"

definition math_round :: "rat \<Rightarrow> int" where
  "math_round x = \<lfloor>x + 1 / 2\<rfloor>"

text \<open>The loop from the pane up: the split to move, if found, and the fallback.\<close>

fun seekDivider :: "PaneNode \<Rightarrow> NodePath \<Rightarrow> split_direction \<Rightarrow> turn \<Rightarrow> nat \<Rightarrow> NodePath option \<Rightarrow> NodePath option \<times> NodePath option" where
  "seekDivider rt path axis turnOnThatSide 0 fallback = (None, fallback)"
| "seekDivider rt path axis turnOnThatSide (Suc depth) fallback =
     (let splitPath = take depth path in
      case nodeAt rt splitPath of
        Some (Split d _ _ _) \<Rightarrow>
          if d \<noteq> axis then seekDivider rt path axis turnOnThatSide depth fallback
          else if path ! depth = turnOnThatSide then (Some splitPath, fallback)
          else seekDivider rt path axis turnOnThatSide depth (orElse fallback (Some splitPath))
      | _ \<Rightarrow> seekDivider rt path axis turnOnThatSide depth fallback)"

definition resizeTowards :: "PaneNode \<Rightarrow> pane_id \<Rightarrow> PaneDirection \<Rightarrow> rat \<Rightarrow> (NodePath \<times> rat) option" where
  "resizeTowards rt paneId direction step =
     (case List.find (\<lambda>candidate. leaf_id candidate = paneId) (paneLeaves rt []) of
        None \<Rightarrow> None
      | Some leaf \<Rightarrow>
          let axis = (if direction = DLeft \<or> direction = DRight then Vertical else Horizontal);
              turnOnThatSide = (if direction = DRight \<or> direction = DDown then First else Second);
              (target, fallback) = seekDivider rt (leaf_path leaf) axis turnOnThatSide (length (leaf_path leaf)) None
          in case orElse target fallback of
               None \<Rightarrow> None
             | Some path \<Rightarrow>
                 (case nodeAt rt path of
                    Some (Split _ ratio _ _) \<Rightarrow>
                      let towards = (if direction = DRight \<or> direction = DDown then step else - step);
                          ratio' = of_int (math_round ((ratio + towards) * 10 ^ 6)) / 10 ^ 6
                      in Some (path, clampSplitRatio ratio')
                  | _ \<Rightarrow> None))"

section \<open>The rectangles tile the tab\<close>

fun ratios_ok :: "PaneNode \<Rightarrow> bool" where
  "ratios_ok (Split d r a b) \<longleftrightarrow> 0 < r \<and> r < 1 \<and> ratios_ok a \<and> ratios_ok b"
| "ratios_ok _ \<longleftrightarrow> True"

definition proper :: "('a :: type) Area_scheme \<Rightarrow> bool" where
  "proper a \<longleftrightarrow> left a < right a \<and> top a < bottom a"

definition inside :: "'a Area_scheme \<Rightarrow> 'b Area_scheme \<Rightarrow> bool" where
  "inside x a \<longleftrightarrow> left a \<le> left x \<and> right x \<le> right a \<and> top a \<le> top x \<and> bottom x \<le> bottom a"

definition apart :: "'a Area_scheme \<Rightarrow> 'b Area_scheme \<Rightarrow> bool" where
  "apart x y \<longleftrightarrow> right x \<le> left y \<or> right y \<le> left x \<or> bottom x \<le> top y \<or> bottom y \<le> top x"

definition surface :: "'a Area_scheme \<Rightarrow> rat" where
  "surface a = (right a - left a) * (bottom a - top a)"

lemma leafIdOrEmpty_simps [simp]: "leafIdOrEmpty (Terminal c p) = p" "leafIdOrEmpty (Vacant v) = v"
  by (simp_all add: leafIdOrEmpty_def)

lemma paneRects_ids: "map rect_id (paneRects t area) = leaf_ids t"
  by (induction t area rule: paneRects.induct) (auto simp: Let_def Area.defs PaneRect.defs)

lemma inside_trans: "inside x a \<Longrightarrow> inside a b \<Longrightarrow> inside x b"
  by (auto simp: inside_def)

lemma edge_between:
  assumes "0 < r" "r < 1" "x < (y :: rat)"
  shows "x < x + (y - x) * r" "x + (y - x) * r < y"
proof -
  show "x < x + (y - x) * r" using assms by simp
  have "(y - x) * r < (y - x) * 1" using assms by (intro mult_strict_left_mono) auto
  then show "x + (y - x) * r < y" by simp
qed

lemma apart_inside: "apart a b \<Longrightarrow> inside x a \<Longrightarrow> inside y b \<Longrightarrow> apart x y"
  by (auto simp: apart_def inside_def)

lemma tile_join:
  assumes "(\<forall>x \<in> set xs. proper x \<and> inside x a1) \<and> sorted_wrt apart xs \<and> sum_list (map surface xs) = surface a1"
    and "(\<forall>x \<in> set ys. proper x \<and> inside x a2) \<and> sorted_wrt apart ys \<and> sum_list (map surface ys) = surface a2"
    and "inside a1 a" "inside a2 a" "apart a1 a2" "surface a1 + surface a2 = surface a"
  shows "(\<forall>x \<in> set (xs @ ys). proper x \<and> inside x a) \<and> sorted_wrt apart (xs @ ys) \<and> sum_list (map surface (xs @ ys)) = surface a"
  using assms by (auto simp: sorted_wrt_append intro: inside_trans apart_inside)

lemma paneRects_tile:
  "ratios_ok t \<Longrightarrow> proper area \<Longrightarrow>
   (\<forall>x \<in> set (paneRects t area). proper x \<and> inside x area) \<and> sorted_wrt apart (paneRects t area)
   \<and> sum_list (map surface (paneRects t area)) = surface area"
proof (induction t area rule: paneRects.induct)
  case (1 ratio a b area)
  let ?edge = "left area + (right area - left area) * ratio"
  have e: "left area < ?edge" "?edge < right area" using 1(3,4) by (auto simp: proper_def intro!: edge_between)
  have p: "proper (area\<lparr>right := ?edge\<rparr>)" "proper (area\<lparr>left := ?edge\<rparr>)" using e 1(4) by (auto simp: proper_def)
  have "surface (area\<lparr>right := ?edge\<rparr>) + surface (area\<lparr>left := ?edge\<rparr>) = surface area" by (simp add: surface_def algebra_simps)
  moreover have "inside (area\<lparr>right := ?edge\<rparr>) area" "inside (area\<lparr>left := ?edge\<rparr>) area" "apart (area\<lparr>right := ?edge\<rparr>) (area\<lparr>left := ?edge\<rparr>)"
    using e by (simp_all add: inside_def apart_def)
  ultimately show ?case unfolding paneRects.simps Let_def
    using 1(1) [OF refl _ p(1)] 1(2) [OF refl _ p(2)] 1(3) by (intro tile_join) simp_all
next
  case (2 ratio a b area)
  let ?edge = "top area + (bottom area - top area) * ratio"
  have e: "top area < ?edge" "?edge < bottom area" using 2(3,4) by (auto simp: proper_def intro!: edge_between)
  have p: "proper (area\<lparr>bottom := ?edge\<rparr>)" "proper (area\<lparr>top := ?edge\<rparr>)" using e 2(4) by (auto simp: proper_def)
  have "surface (area\<lparr>bottom := ?edge\<rparr>) + surface (area\<lparr>top := ?edge\<rparr>) = surface area" by (simp add: surface_def algebra_simps)
  moreover have "inside (area\<lparr>bottom := ?edge\<rparr>) area" "inside (area\<lparr>top := ?edge\<rparr>) area" "apart (area\<lparr>bottom := ?edge\<rparr>) (area\<lparr>top := ?edge\<rparr>)"
    using e by (simp_all add: inside_def apart_def)
  ultimately show ?case unfolding paneRects.simps Let_def
    using 2(1) [OF refl _ p(1)] 2(2) [OF refl _ p(2)] 2(3) by (intro tile_join) simp_all
qed (auto simp: proper_def inside_def surface_def Area.defs PaneRect.defs)

section \<open>The nearest pane on a side\<close>

definition beside :: "PaneRect \<Rightarrow> pane_id \<Rightarrow> PaneDirection \<Rightarrow> PaneRect \<Rightarrow> rat \<Rightarrow> bool" where
  "beside from fromId direction rect gap \<longleftrightarrow> rect_id rect \<noteq> fromId \<and> gapTowards from rect direction = Some gap
     \<and> EPSILON < overlapAcross from rect direction"

definition slack :: "nat \<Rightarrow> rat" where
  "slack n = of_nat n * EPSILON"

lemma EPSILON_pos [simp]: "0 < EPSILON"
  by (simp add: EPSILON_def)

lemma slack_facts: "0 \<le> slack n" "slack (Suc n) = slack n + EPSILON"
  using less_imp_le [OF EPSILON_pos] by (simp_all add: slack_def distrib_right)

definition near_best :: "PaneRect \<Rightarrow> pane_id \<Rightarrow> PaneDirection \<Rightarrow> PaneRect list \<Rightarrow> Best option \<Rightarrow> bool" where
  "near_best from fromId direction seen best \<longleftrightarrow>
     (case best of
        None \<Rightarrow> \<forall>rect \<in> set seen. \<forall>g. \<not> beside from fromId direction rect g
      | Some b \<Rightarrow> (\<exists>rect \<in> set seen. rect_id rect = best_id b \<and> beside from fromId direction rect (best_gap b))
          \<and> (\<forall>rect \<in> set seen. \<forall>g. beside from fromId direction rect g \<longrightarrow> best_gap b \<le> g + slack (length seen)))"

lemma near_best_SomeI:
  assumes "r \<in> set seen" "rect_id r = best_id b" "beside from fromId direction r (best_gap b)"
    and "\<And>r g. r \<in> set seen \<Longrightarrow> beside from fromId direction r g \<Longrightarrow> best_gap b \<le> g + slack (length seen)"
  shows "near_best from fromId direction seen (Some b)"
  using assms by (auto simp: near_best_def)

lemma near_best_skip:
  assumes "near_best from fromId direction seen best" "\<And>g. \<not> beside from fromId direction rect g"
  shows "near_best from fromId direction (seen @ [rect]) best"
proof (cases best)
  case (Some b)
  then obtain r where r: "r \<in> set seen" "rect_id r = best_id b" "beside from fromId direction r (best_gap b)"
    "\<And>r g. r \<in> set seen \<Longrightarrow> beside from fromId direction r g \<Longrightarrow> best_gap b \<le> g + slack (length seen)"
    using assms(1) by (auto simp: near_best_def)
  have "best_gap b \<le> g + slack (length (seen @ [rect]))" if "x \<in> set (seen @ [rect])" "beside from fromId direction x g" for x g
  proof -
    have "x \<in> set seen" using that assms(2) by auto
    from r(4) [OF this that(2)] EPSILON_pos have "best_gap b \<le> g + slack (length seen) + EPSILON" by linarith
    then show ?thesis by (simp add: slack_facts(2))
  qed
  with r Some show ?thesis by (auto intro!: near_best_SomeI [of r])
qed (use assms in \<open>auto simp: near_best_def\<close>)

lemma near_best_step:
  assumes "near_best from fromId direction seen best" "beside from fromId direction rect gap"
  shows "near_best from fromId direction (seen @ [rect])
     (if (case best of None \<Rightarrow> True
          | Some b \<Rightarrow> gap < best_gap b - EPSILON \<or> (\<bar>gap - best_gap b\<bar> \<le> EPSILON \<and> overlap > best_overlap b + EPSILON))
      then Some \<lparr>best_id = rect_id rect, best_gap = gap, best_overlap = overlap\<rparr> else best)"
proof (cases best)
  case None
  with assms show ?thesis using slack_facts(1) by (auto simp: near_best_def beside_def)
next
  case (Some b)
  let ?n = "slack (length seen)"
  have n: "0 \<le> ?n" by (rule slack_facts)
  have seen: "best_gap b \<le> g + ?n" if "r \<in> set seen" "beside from fromId direction r g" for r g
    using assms(1) Some that by (auto simp: near_best_def)
  have own: "g = gap" if "beside from fromId direction rect g" for g using that assms(2) by (simp add: beside_def)
  have "gap \<le> g + ?n + EPSILON" if "r \<in> set seen" "beside from fromId direction r g"
    "gap < best_gap b - EPSILON \<or> \<bar>gap - best_gap b\<bar> \<le> EPSILON" for r g
  proof -
    have "gap \<le> best_gap b + EPSILON" using that(3) EPSILON_pos by linarith
    with seen [OF that(1,2)] show ?thesis by linarith
  qed
  note taken = this
  have kept: "best_gap b \<le> gap + ?n + EPSILON" if "\<not> gap < best_gap b - EPSILON" using that n by linarith
  have kept': "best_gap b \<le> g + ?n + EPSILON" if "r \<in> set seen" "beside from fromId direction r g" for r g
    using seen [OF that] less_imp_le [OF EPSILON_pos] by linarith
  have self: "gap \<le> gap + ?n + EPSILON" using n EPSILON_pos by linarith
  show ?thesis
  proof (cases "gap < best_gap b - EPSILON \<or> (\<bar>gap - best_gap b\<bar> \<le> EPSILON \<and> overlap > best_overlap b + EPSILON)")
    case True
    have "near_best from fromId direction (seen @ [rect]) (Some \<lparr>best_id = rect_id rect, best_gap = gap, best_overlap = overlap\<rparr>)"
    proof (rule near_best_SomeI [of rect])
      fix r g assume "r \<in> set (seen @ [rect])" "beside from fromId direction r g"
      then have "gap \<le> g + ?n + EPSILON" using taken True own self by auto
      then show "best_gap \<lparr>best_id = rect_id rect, best_gap = gap, best_overlap = overlap\<rparr> \<le> g + slack (length (seen @ [rect]))"
        by (simp add: slack_facts(2))
    qed (use assms(2) in simp_all)
    then show ?thesis using True by (simp add: Some)
  next
    case False
    obtain r where r: "r \<in> set seen" "rect_id r = best_id b" "beside from fromId direction r (best_gap b)"
      using assms(1) Some by (auto simp: near_best_def)
    have "near_best from fromId direction (seen @ [rect]) (Some b)"
    proof (rule near_best_SomeI [of r])
      fix x g assume "x \<in> set (seen @ [rect])" "beside from fromId direction x g"
      then have "best_gap b \<le> g + ?n + EPSILON" using kept kept' own False by auto
      then show "best_gap b \<le> g + slack (length (seen @ [rect]))" by (simp add: slack_facts(2))
    qed (use r in simp_all)
    then show ?thesis unfolding Some option.case using False by (simp only: if_False)
  qed
qed

lemma nearest_near_best:
  "near_best from fromId direction seen best \<Longrightarrow> near_best from fromId direction (seen @ rects) (nearest from fromId direction best rects)"
proof (induction rects arbitrary: seen best)
  case (Cons rect rects)
  let ?o = "overlapAcross from rect direction"
  show ?case
  proof (cases "\<exists>g. beside from fromId direction rect g")
    case True
    then obtain gap where g: "beside from fromId direction rect gap" by blast
    then have n: "rect_id rect \<noteq> fromId" "gapTowards from rect direction = Some gap" "\<not> ?o \<le> EPSILON" by (auto simp: beside_def)
    from Cons.IH [OF near_best_step [OF Cons.prems g, of ?o]] show ?thesis using n by (simp add: Let_def)
  next
    case False
    then have "nearest from fromId direction best (rect # rects) = nearest from fromId direction best rects"
      by (auto simp: Let_def beside_def split: option.splits)
    moreover have "near_best from fromId direction (seen @ [rect]) best" using near_best_skip [OF Cons.prems] False by blast
    ultimately show ?thesis using Cons.IH by fastforce
  qed
qed simp

section \<open>The divider that moves\<close>

definition axis_split :: "PaneNode \<Rightarrow> split_direction \<Rightarrow> NodePath \<Rightarrow> bool" where
  "axis_split rt axis path = (case nodeAt rt path of Some (Split d _ _ _) \<Rightarrow> d = axis | _ \<Rightarrow> False)"

lemma seekDivider_Suc:
  "seekDivider rt path axis t (Suc n) fb =
     (if \<not> axis_split rt axis (take n path) then seekDivider rt path axis t n fb
      else if path ! n = t then (Some (take n path), fb)
      else seekDivider rt path axis t n (orElse fb (Some (take n path))))"
  by (auto simp: axis_split_def Let_def split: option.splits PaneNode.splits)

declare seekDivider.simps(2) [simp del]

lemma seekDivider_target:
  "fst (seekDivider rt path axis t n fb) = Some p \<Longrightarrow>
   \<exists>d < n. p = take d path \<and> axis_split rt axis p \<and> path ! d = t \<and> (\<forall>e. d < e \<and> e < n \<longrightarrow> \<not> (axis_split rt axis (take e path) \<and> path ! e = t))"
proof (induction n arbitrary: fb)
  case (Suc n)
  show ?case
  proof (cases "axis_split rt axis (take n path) \<and> path ! n = t")
    case False
    then obtain fb' where "fst (seekDivider rt path axis t n fb') = Some p" using Suc.prems by (auto simp: seekDivider_Suc split: if_splits)
    from Suc.IH [OF this] obtain d where d: "d < n" "p = take d path" "axis_split rt axis p" "path ! d = t"
      "\<forall>e. d < e \<and> e < n \<longrightarrow> \<not> (axis_split rt axis (take e path) \<and> path ! e = t)" by blast
    then show ?thesis using False by (intro exI [of _ d]) (auto simp: less_Suc_eq)
  qed (use Suc.prems in \<open>auto simp: seekDivider_Suc\<close>)
qed simp

lemma seekDivider_none:
  "fst (seekDivider rt path axis t n fb) = None \<Longrightarrow>
   (\<forall>d < n. axis_split rt axis (take d path) \<longrightarrow> path ! d \<noteq> t)
   \<and> (fb \<noteq> None \<longrightarrow> snd (seekDivider rt path axis t n fb) = fb)
   \<and> (fb = None \<longrightarrow> (case snd (seekDivider rt path axis t n fb) of
        None \<Rightarrow> \<forall>d < n. \<not> axis_split rt axis (take d path)
      | Some p \<Rightarrow> \<exists>d < n. p = take d path \<and> axis_split rt axis p \<and> (\<forall>e. d < e \<and> e < n \<longrightarrow> \<not> axis_split rt axis (take e path))))"
proof (induction n arbitrary: fb)
  case (Suc n)
  show ?case
  proof (cases "axis_split rt axis (take n path)")
    case False
    then have eq: "seekDivider rt path axis t (Suc n) fb = seekDivider rt path axis t n fb" by (simp add: seekDivider_Suc)
    from Suc.IH [of fb] Suc.prems False show ?thesis unfolding eq
      by (auto simp: less_Suc_eq split: option.splits)
  next
    case True
    then have ne: "path ! n \<noteq> t" using Suc.prems by (auto simp: seekDivider_Suc)
    let ?fb = "orElse fb (Some (take n path))"
    have eq: "seekDivider rt path axis t (Suc n) fb = seekDivider rt path axis t n ?fb" using True ne by (simp add: seekDivider_Suc)
    have "?fb \<noteq> None" by (cases fb) (simp_all add: orElse_def)
    with Suc.IH [of ?fb] Suc.prems have
      "(\<forall>d < n. axis_split rt axis (take d path) \<longrightarrow> path ! d \<noteq> t) \<and> snd (seekDivider rt path axis t (Suc n) fb) = ?fb"
      unfolding eq by blast
    then show ?thesis using ne True by (cases fb) (auto simp: orElse_def less_Suc_eq intro!: exI [of _ n])
  qed
qed simp

lemma paneLeaves_ids: "map leaf_id (paneLeaves t path) = leaf_ids t"
  by (induction t path rule: paneLeaves.induct) auto

lemma paneLeaves_path:
  "leaf \<in> set (paneLeaves t path) \<Longrightarrow> \<exists>p. leaf_path leaf = path @ p \<and> nodeAt t p = Some (leaf_node leaf)"
proof (induction t path rule: paneLeaves.induct)
  case (1 d r a b path)
  then consider "leaf \<in> set (paneLeaves a (path @ [First]))" | "leaf \<in> set (paneLeaves b (path @ [Second]))" by auto
  then show ?case
  proof cases
    case 1
    then show ?thesis using "1.IH"(1) by fastforce
  next
    case 2
    then show ?thesis using "1.IH"(2) by fastforce
  qed
qed auto

lemma clampSplitRatio_bounds: "SPLIT_RATIO_MIN \<le> clampSplitRatio r \<and> clampSplitRatio r \<le> SPLIT_RATIO_MAX"
  by (simp add: clampSplitRatio_def SPLIT_RATIO_MIN_def SPLIT_RATIO_MAX_def)

lemma find_unique:
  "distinct (map f xs) \<Longrightarrow> x \<in> set xs \<Longrightarrow> List.find (\<lambda>y. f y = f x) xs = Some x"
  by (induction xs) (auto simp: image_iff)

lemma seekDivider_choice:
  assumes "seekDivider rt path axis t n None = (target, fallback)"
  shows "case orElse target fallback of
       None \<Rightarrow> \<forall>d < n. \<not> axis_split rt axis (take d path)
     | Some p \<Rightarrow> \<exists>d < n. p = take d path \<and> axis_split rt axis p
         \<and> (if path ! d = t then \<forall>e. d < e \<and> e < n \<and> axis_split rt axis (take e path) \<longrightarrow> path ! e \<noteq> t
            else (\<forall>e < n. axis_split rt axis (take e path) \<longrightarrow> path ! e \<noteq> t) \<and> (\<forall>e. d < e \<and> e < n \<longrightarrow> \<not> axis_split rt axis (take e path)))"
proof (cases target)
  case None
  then have "fst (seekDivider rt path axis t n None) = None" "snd (seekDivider rt path axis t n None) = fallback" using assms by simp_all
  with seekDivider_none [of rt path axis t n None] have
    n: "\<forall>d < n. axis_split rt axis (take d path) \<longrightarrow> path ! d \<noteq> t"
    "case fallback of None \<Rightarrow> \<forall>d < n. \<not> axis_split rt axis (take d path)
      | Some p \<Rightarrow> \<exists>d < n. p = take d path \<and> axis_split rt axis p \<and> (\<forall>e. d < e \<and> e < n \<longrightarrow> \<not> axis_split rt axis (take e path))" by simp_all
  show ?thesis
  proof (cases fallback)
    case (Some p)
    with n obtain d where "d < n" "p = take d path" "axis_split rt axis p" "\<forall>e. d < e \<and> e < n \<longrightarrow> \<not> axis_split rt axis (take e path)" by auto
    with n(1) None Some show ?thesis by (auto simp: orElse_def intro!: exI [of _ d])
  qed (use n None in \<open>simp add: orElse_def\<close>)
next
  case (Some p)
  then have "fst (seekDivider rt path axis t n None) = Some p" using assms by simp
  from seekDivider_target [OF this] obtain d where "d < n" "p = take d path" "axis_split rt axis p" "path ! d = t"
    "\<forall>e. d < e \<and> e < n \<longrightarrow> \<not> (axis_split rt axis (take e path) \<and> path ! e = t)" by blast
  with Some show ?thesis by (auto simp: orElse_def intro!: exI [of _ d])
qed


text \<open>
  Alt, Shift and an arrow moves the divider it should: from a pane of the tab, the innermost
  divider on that side of the pane across the arrow's axis; where there is none on that side, the
  innermost one on the other side; nothing when no divider runs across that axis. Its new
  ratio is within what the mouse can drag to.
\<close>

theorem resizeTowards_divider:
  assumes "distinct (leaf_ids t)" "leaf \<in> set (paneLeaves t [])"
    and "axis = (if direction = DLeft \<or> direction = DRight then Vertical else Horizontal)"
    and "side = (if direction = DRight \<or> direction = DDown then First else Second)"
    and "path = leaf_path leaf"
  shows "nodeAt t path = Some (leaf_node leaf)
     \<and> (case resizeTowards t (leaf_id leaf) direction step of
          None \<Rightarrow> \<forall>d < length path. \<not> axis_split t axis (take d path)
        | Some (p, r) \<Rightarrow> SPLIT_RATIO_MIN \<le> r \<and> r \<le> SPLIT_RATIO_MAX
            \<and> (\<exists>d < length path. p = take d path \<and> axis_split t axis p
                 \<and> (if path ! d = side then \<forall>e. d < e \<and> e < length path \<and> axis_split t axis (take e path) \<longrightarrow> path ! e \<noteq> side
                    else (\<forall>e < length path. axis_split t axis (take e path) \<longrightarrow> path ! e \<noteq> side)
                       \<and> (\<forall>e. d < e \<and> e < length path \<longrightarrow> \<not> axis_split t axis (take e path)))))"
proof -
  have find: "List.find (\<lambda>x. leaf_id x = leaf_id leaf) (paneLeaves t []) = Some leaf"
    using find_unique [of leaf_id "paneLeaves t []" leaf] assms(1,2) by (simp add: paneLeaves_ids)
  obtain target fallback where s: "seekDivider t path axis side (length path) None = (target, fallback)" by fastforce
  note choice = seekDivider_choice [OF s]
  have res: "resizeTowards t (leaf_id leaf) direction step =
     (case orElse target fallback of None \<Rightarrow> None
      | Some p \<Rightarrow> (case nodeAt t p of
            Some (Split _ ratio _ _) \<Rightarrow>
              Some (p, clampSplitRatio (of_int (math_round ((ratio + (if direction = DRight \<or> direction = DDown then step else - step)) * 10 ^ 6)) / 10 ^ 6))
          | _ \<Rightarrow> None))"
    using find s unfolding resizeTowards_def assms(3-5) Let_def by simp
  have "nodeAt t path = Some (leaf_node leaf)" using paneLeaves_path [OF assms(2)] assms(5) by auto
  moreover have "case resizeTowards t (leaf_id leaf) direction step of
          None \<Rightarrow> \<forall>d < length path. \<not> axis_split t axis (take d path)
        | Some (p, r) \<Rightarrow> SPLIT_RATIO_MIN \<le> r \<and> r \<le> SPLIT_RATIO_MAX
            \<and> (\<exists>d < length path. p = take d path \<and> axis_split t axis p
                 \<and> (if path ! d = side then \<forall>e. d < e \<and> e < length path \<and> axis_split t axis (take e path) \<longrightarrow> path ! e \<noteq> side
                    else (\<forall>e < length path. axis_split t axis (take e path) \<longrightarrow> path ! e \<noteq> side)
                       \<and> (\<forall>e. d < e \<and> e < length path \<longrightarrow> \<not> axis_split t axis (take e path))))"
  proof (cases "orElse target fallback")
    case None
    then show ?thesis using choice by (simp add: res)
  next
    case (Some p)
    then have "axis_split t axis p" using choice by auto
    then obtain ratio a b where "nodeAt t p = Some (Split axis ratio a b)"
      by (auto simp: axis_split_def split: option.splits PaneNode.splits)
    then show ?thesis using choice Some by (simp add: res clampSplitRatio_bounds)
  qed
  ultimately show ?thesis by blast
qed

definition sample_panes :: PaneNode where
  "sample_panes = Split Vertical (1 / 2) (Terminal ''c1'' ''p1'') (Split Horizontal (1 / 2) (Terminal ''c2'' ''p2'') (Vacant ''p3''))"


theorem resizeTowards_divider_witness:
  "resizeTowards sample_panes ''p2'' DDown PANE_RESIZE_STEP = Some ([Second], 11 / 20)
   \<and> (case resizeTowards sample_panes ''p2'' DDown PANE_RESIZE_STEP of None \<Rightarrow> False | Some (p, r) \<Rightarrow> r \<le> SPLIT_RATIO_MAX)"
proof -
  let ?leaf = "\<lparr>leaf_id = ''p2'', leaf_node = Terminal ''c2'' ''p2'', leaf_path = [Second, First]\<rparr>"
  have l: "distinct (leaf_ids sample_panes)" "?leaf \<in> set (paneLeaves sample_panes [])" by (simp_all add: sample_panes_def)
  have f: "\<lfloor>1100001 / 2 :: rat\<rfloor> = 550000" by (simp add: floor_eq_iff)
  have "resizeTowards sample_panes ''p2'' DDown PANE_RESIZE_STEP = Some ([Second], 11 / 20)"
    by (simp add: sample_panes_def resizeTowards_def Let_def seekDivider.simps numeral_2_eq_2 orElse_def PANE_RESIZE_STEP_def
        math_round_def clampSplitRatio_def SPLIT_RATIO_MIN_def SPLIT_RATIO_MAX_def f)
  with resizeTowards_divider [OF l refl refl refl, of DDown PANE_RESIZE_STEP] show ?thesis by simp
qed

end
