(* ===== verification/Exit_Action.thy ===== *)
theory Exit_Action
  imports Lasterm_Prelude Complex_Main
begin

text \<open>
  What a pane does when its terminal ends: \<^verbatim>\<open>utils/exit-action.ts\<close> and \<^verbatim>\<open>utils/pane-cover.ts\<close> of the web client. Every decision is
  a function of what the pane saw; the watch that tells an end seen as it happens from one found
  later is a small state, stepped with the clock as an argument (milliseconds, a rational). Texts are
  bytes of UTF-8.
\<close>

section \<open>What covers a pane\<close>

datatype ChannelStatus = Born | Live | Orphan | Dead

record AttachFacts =
  pf_ended :: bool
  pf_gone :: bool
  pf_detached :: bool

record PaneFacts = AttachFacts +
  pf_status :: "ChannelStatus option"

datatype PaneCover = CoverExited | CoverGone | CoverNotConnected

definition paneCover :: "PaneFacts \<Rightarrow> PaneCover option" where
  "paneCover facts =
     (if pf_gone facts then Some CoverGone
      else if pf_ended facts \<or> pf_status facts = Some Dead then Some CoverExited
      else if pf_detached facts then Some CoverNotConnected
      else None)"

definition factsFromAttachOk :: "bool \<Rightarrow> AttachFacts" where
  "factsFromAttachOk cached = \<lparr>pf_ended = False, pf_gone = False, pf_detached = cached\<rparr>"

definition factsFromKnownEnd :: AttachFacts where
  "factsFromKnownEnd = \<lparr>pf_ended = True, pf_gone = False, pf_detached = False\<rparr>"

definition factsFromRefusal :: "string option \<Rightarrow> AttachFacts option" where
  "factsFromRefusal code =
     (if code = Some ''CHANNEL_DEAD'' then Some factsFromKnownEnd
      else if code = Some ''CHANNEL_NOT_FOUND'' then Some \<lparr>pf_ended = False, pf_gone = True, pf_detached = False\<rparr>
      else None)"

datatype AskedSecret = AskedPassword | AskedPassphrase

text \<open>A refusal of a spawn: its code, and the secret it says was asked for.\<close>

record Refusal =
  rf_code :: "string option"
  rf_asked :: "AskedSecret option"

definition secretNotGiven :: "Refusal option \<Rightarrow> AskedSecret option option" where
  "secretNotGiven err =
     (case err of
        None \<Rightarrow> None
      | Some refusal \<Rightarrow> if rf_code refusal \<noteq> Some ''AUTH_CANCELLED'' then None else Some (rf_asked refusal))"

definition notGivenMessage :: "AskedSecret option \<Rightarrow> string" where
  "notGivenMessage asked = ''Not connected: the '' @
     (case asked of None \<Rightarrow> ''password or passphrase'' | Some AskedPassword \<Rightarrow> ''password'' | Some AskedPassphrase \<Rightarrow> ''passphrase'')
     @ '' was not given''"

section \<open>Preferences\<close>

datatype WhenEnded = Ask | Restart | Close

record EndedPrefs =
  whenEnded :: WhenEnded
  keepEnded :: bool

record PanesConfig =
  panes_keepEnded :: "bool option"

definition AUTO_RESTART_MIN_RUN_MS :: rat where
  "AUTO_RESTART_MIN_RUN_MS = 5000"

text \<open>\<open>profile\<close> is the \<open>whenEnded\<close> of the resolved profile, any string or nothing.\<close>

definition endedPrefs :: "PanesConfig option \<Rightarrow> string option \<Rightarrow> EndedPrefs" where
  "endedPrefs panes profile =
     \<lparr>whenEnded = (if profile = Some ''restart'' then Restart else if profile = Some ''close'' then Close else Ask),
      keepEnded = (case panes of None \<Rightarrow> False | Some p \<Rightarrow> panes_keepEnded p = Some True)\<rparr>"

section \<open>How a pane learnt of an end\<close>

datatype seen_how = SeenLive | SeenFound

record EndSeen =
  seen :: seen_how
  watchedMs :: "rat option"
  fromStart :: bool
  again :: bool

record Watching =
  w_channelId :: channel_id
  w_since :: rat
  w_fromStart :: bool

record EndWatch =
  watching :: "Watching option"
  startingId :: "channel_id option"
  toldId :: "channel_id option"

definition createEndWatch :: EndWatch where
  "createEndWatch = \<lparr>watching = None, startingId = None, toldId = None\<rparr>"

definition watch_starting :: "channel_id \<Rightarrow> EndWatch \<Rightarrow> EndWatch" where
  "watch_starting ch s = s\<lparr>watching := None, startingId := Some ch, toldId := None\<rparr>"

definition watch_attached :: "rat \<Rightarrow> channel_id \<Rightarrow> EndWatch \<Rightarrow> EndWatch" where
  "watch_attached now ch s =
     s\<lparr>watching := Some \<lparr>w_channelId = ch, w_since = now, w_fromStart = (startingId s = Some ch)\<rparr>,
       startingId := None, toldId := None\<rparr>"

definition watch_lost :: "EndWatch \<Rightarrow> EndWatch" where
  "watch_lost s = s\<lparr>watching := None, startingId := None\<rparr>"

definition watch_ended :: "rat \<Rightarrow> channel_id \<Rightarrow> EndWatch \<Rightarrow> EndSeen \<times> EndWatch" where
  "watch_ended now ch s =
     (let watched = (case watching s of None \<Rightarrow> None | Some w \<Rightarrow> if w_channelId w = ch then Some w else None);
          justStarted = (startingId s = Some ch);
          told = (toldId s = Some ch);
          s' = s\<lparr>watching := None, startingId := None, toldId := Some ch\<rparr>
      in case watched of
           None \<Rightarrow> (\<lparr>seen = SeenFound, watchedMs = None, fromStart = justStarted, again = told\<rparr>, s')
         | Some w \<Rightarrow> (\<lparr>seen = SeenLive, watchedMs = Some (now - w_since w), fromStart = w_fromStart w, again = False\<rparr>, s'))"

section \<open>What the pane does about it\<close>

datatype HeldBack = JustStarted | JustAttached | RunsACommand | NotWriter | StoppedNotRestarted | StoppedNotClosed | Stopped

datatype EndReaction = ROverlay "HeldBack option" | RRestart | RClose bool

datatype ChannelEndReason = EndKilled | EndStopped

record EndFacts = EndSeen +
  directProcess :: bool
  writer :: bool
  endReason :: "ChannelEndReason option"

fun stoppedElsewhere :: "WhenEnded \<Rightarrow> HeldBack" where
  "stoppedElsewhere Restart = StoppedNotRestarted"
| "stoppedElsewhere Close = StoppedNotClosed"
| "stoppedElsewhere Ask = Stopped"

definition ran_too_short :: "'a EndSeen_scheme \<Rightarrow> bool" where
  "ran_too_short e = (case watchedMs e of None \<Rightarrow> True | Some ms \<Rightarrow> ms < AUTO_RESTART_MIN_RUN_MS)"

definition reactToEnd :: "EndedPrefs \<Rightarrow> EndFacts \<Rightarrow> EndReaction" where
  "reactToEnd prefs e =
     (if endReason e = Some EndKilled \<or> (endReason e = Some EndStopped \<and> seen e = SeenLive)
      then ROverlay (Some (stoppedElsewhere (whenEnded prefs)))
      else if seen e = SeenFound then
        (if whenEnded prefs = Restart \<and> fromStart e then ROverlay (Some JustStarted)
         else if whenEnded prefs = Restart \<and> directProcess e then ROverlay (Some RunsACommand)
         else ROverlay None)
      else case whenEnded prefs of
             Ask \<Rightarrow> ROverlay None
           | Close \<Rightarrow> RClose (keepEnded prefs)
           | Restart \<Rightarrow>
               if directProcess e then ROverlay (Some RunsACommand)
               else if ran_too_short e then ROverlay (Some (if fromStart e then JustStarted else JustAttached))
               else if \<not> writer e then ROverlay (Some NotWriter)
               else RRestart)"

fun heldBackMessage :: "HeldBack \<Rightarrow> string" where
  "heldBackMessage JustStarted = ''It ended right after starting, so it wasn't restarted automatically.''"
| "heldBackMessage JustAttached = ''It ended moments after this window connected to it, so it wasn't restarted automatically.''"
| "heldBackMessage RunsACommand = ''It runs a command rather than a shell, so it isn't restarted automatically.''"
| "heldBackMessage NotWriter = ''This window doesn't hold its write lock, so it wasn't restarted from here.''"
| "heldBackMessage StoppedNotRestarted = ''It was stopped from elsewhere, so it wasn't restarted.''"
| "heldBackMessage StoppedNotClosed = ''It was stopped from elsewhere, so its pane wasn't closed.''"
| "heldBackMessage Stopped = ''It was stopped from elsewhere.''"

section \<open>The overlay's buttons, and the overlays that wait\<close>

datatype AlwaysScope = ScopeHost | ScopeGlobal
datatype OverlayAction = ActRestart | ActClose

record RememberedEnd =
  re_scope :: AlwaysScope
  re_whenEnded :: WhenEnded

fun action_setting :: "OverlayAction \<Rightarrow> WhenEnded" where
  "action_setting ActRestart = Restart"
| "action_setting ActClose = Close"

definition ALWAYS_SCOPES :: "(AlwaysScope \<times> string) list" where
  "ALWAYS_SCOPES = [(ScopeHost, ''this host''), (ScopeGlobal, ''everywhere'')]"

definition alwaysScopeOf :: "bool \<Rightarrow> AlwaysScope \<Rightarrow> AlwaysScope option" where
  "alwaysScopeOf on scope = (if on then Some scope else None)"

definition overlayChoice :: "OverlayAction \<Rightarrow> AlwaysScope option \<Rightarrow> bool \<Rightarrow> EndReaction \<times> RememberedEnd option" where
  "overlayChoice action always keep =
     ((if action = ActRestart then RRestart else RClose keep),
      (case always of None \<Rightarrow> None | Some sc \<Rightarrow> Some \<lparr>re_scope = sc, re_whenEnded = action_setting action\<rparr>))"

record AlwaysChoice =
  ac_action :: OverlayAction
  ac_scope :: AlwaysScope
  ac_hostId :: "host_id option"
  ac_channelId :: "channel_id option"
  ac_at :: rat

text \<open>\<open>EndHold\<close> is \<open>HeldBack\<close> with the values just started, just attached and not writer.\<close>

definition endHold :: "EndFacts \<Rightarrow> HeldBack option" where
  "endHold e =
     (if endReason e \<noteq> None then None
      else if seen e = SeenFound then (if fromStart e then Some JustStarted else None)
      else if ran_too_short e then Some (if fromStart e then JustStarted else JustAttached)
      else if writer e then None else Some NotWriter)"

record WaitingOverlay =
  wo_channelId :: "channel_id option"
  wo_hostId :: "host_id option"
  wo_hold :: "HeldBack option"
  wo_directProcess :: bool
  wo_whenEnded :: WhenEnded
  wo_inView :: bool
  wo_wasInView :: bool

datatype WaitingAnswer = AnswerAct | AnswerWait | AnswerAsk

definition answerWaiting :: "AlwaysChoice \<Rightarrow> WaitingOverlay \<Rightarrow> WaitingAnswer" where
  "answerWaiting choice overlay =
     (if wo_channelId overlay = None \<or> wo_channelId overlay = ac_channelId choice then AnswerAsk
      else if ac_scope choice = ScopeHost \<and> (wo_hostId overlay = None \<or> wo_hostId overlay \<noteq> ac_hostId choice) then AnswerAsk
      else if wo_directProcess overlay \<or> wo_hold overlay \<noteq> None then AnswerAsk
      else if \<not> wo_inView overlay then (if wo_wasInView overlay then AnswerAsk else AnswerWait)
      else if wo_whenEnded overlay = action_setting (ac_action choice) then AnswerAct else AnswerWait)"

definition settingReadFor :: "(host_id option \<times> channel_id option) option \<Rightarrow> channel_id option \<Rightarrow> host_id option \<Rightarrow> bool" where
  "settingReadFor resolved channel host =
     (case (resolved, channel, host) of
        (Some (rh, rc), Some c, Some h) \<Rightarrow> rc = Some c \<and> rh = Some h
      | _ \<Rightarrow> False)"

record FoundEnd =
  fe_hold :: "HeldBack option"
  fe_directProcess :: bool
  fe_endReason :: "ChannelEndReason option"
  fe_whenEnded :: WhenEnded
  fe_settingKnown :: bool
  fe_inView :: bool
  fe_focused :: bool

definition answerFoundEnd :: "FoundEnd \<Rightarrow> WaitingAnswer" where
  "answerFoundEnd e =
     (if fe_endReason e = Some EndKilled \<or> fe_directProcess e \<or> fe_hold e \<noteq> None then AnswerAsk
      else if \<not> fe_settingKnown e then AnswerWait
      else if fe_whenEnded e = Ask then AnswerAsk
      else if fe_inView e \<and> fe_focused e then AnswerAct else AnswerWait)"

section \<open>A restart whose host is away\<close>

datatype AfterRestartFailure = FailureCard | FailureWait | FailureRetryNow

record RestartFailureFacts =
  rff_hostAway :: bool
  rff_hostConnected :: bool
  rff_automatic :: bool

definition afterRestartFailure :: "RestartFailureFacts \<Rightarrow> AfterRestartFailure" where
  "afterRestartFailure facts =
     (if \<not> rff_hostAway facts then FailureCard
      else if \<not> rff_hostConnected facts then FailureWait
      else if rff_automatic facts then FailureCard else FailureRetryNow)"

definition waitingForHostText :: "string option \<Rightarrow> string" where
  "waitingForHostText hostLabel = ''Waiting for '' @ (case hostLabel of None \<Rightarrow> ''its host'' | Some l \<Rightarrow> l) @ ellipsis"

section \<open>What a pane shows over its ended terminal\<close>

datatype EndedView = ViewNone | ViewCard | ViewQuiet string bool

record EndedPane =
  ep_cover :: "PaneCover option"
  ep_opening :: bool
  ep_restarting :: bool
  ep_waitingForHost :: "string option option"
  ep_found :: "FoundEnd option"
  ep_settingOverdue :: bool
  ep_exitMessage :: string

definition endedPaneShows :: "EndedPane \<Rightarrow> EndedView" where
  "endedPaneShows pane =
     (if ep_opening pane then ViewNone
      else if ep_cover pane = Some CoverGone then ViewCard
      else if ep_cover pane \<noteq> Some CoverExited then ViewNone
      else if ep_restarting pane then ViewQuiet (''Restarting'' @ ellipsis) False
      else case ep_waitingForHost pane of
        Some label \<Rightarrow> ViewQuiet (waitingForHostText label) True
      | None \<Rightarrow>
        (case ep_found pane of
           None \<Rightarrow> ViewCard
         | Some found \<Rightarrow>
             let closes = (fe_whenEnded found = Close) in
             case answerFoundEnd found of
               AnswerAsk \<Rightarrow> ViewCard
             | AnswerAct \<Rightarrow> ViewQuiet ((if closes then ''Closing'' else ''Restarting'') @ ellipsis) False
             | AnswerWait \<Rightarrow>
                 if \<not> fe_settingKnown found then
                   (if ep_settingOverdue pane then ViewCard else ViewQuiet (ep_exitMessage pane) False)
                 else if \<not> fe_inView found then
                   ViewQuiet (if closes then ''Closes when this terminal is shown.'' else ''Restarts when this terminal is shown.'') False
                 else ViewQuiet (if closes then ''Closes when this window has the focus.'' else ''Restarts when this window has the focus.'') False))"

definition endedToDelete :: "channel_id list \<Rightarrow> bool \<Rightarrow> channel_id list" where
  "endedToDelete endedIds keep = (if keep then [] else endedIds)"

section \<open>The watch says what happened\<close>

datatype watch_event = WStarting channel_id | WAttached rat channel_id | WLost | WEnded rat channel_id

fun watch_step :: "EndWatch \<Rightarrow> watch_event \<Rightarrow> EndWatch" where
  "watch_step s (WStarting ch) = watch_starting ch s"
| "watch_step s (WAttached now ch) = watch_attached now ch s"
| "watch_step s WLost = watch_lost s"
| "watch_step s (WEnded now ch) = snd (watch_ended now ch s)"

definition watch_run :: "watch_event list \<Rightarrow> EndWatch" where
  "watch_run h = foldl watch_step createEndWatch h"

lemma watch_run_snoc [simp]: "watch_run [] = createEndWatch" "watch_run (h @ [e]) = watch_step (watch_run h) e"
  by (simp_all add: watch_run_def)

lemmas watch_defs = watch_starting_def watch_attached_def watch_lost_def watch_ended_def createEndWatch_def Let_def

lemma watch_startingId: "startingId (watch_run h) = Some c \<longleftrightarrow> (\<exists>h'. h = h' @ [WStarting c])"
proof (cases h rule: rev_cases)
  case (snoc h' e)
  then show ?thesis by (cases e) (auto simp: watch_defs split: option.splits)
qed (simp add: createEndWatch_def)

lemma watch_watching:
  "watching (watch_run h) = Some w \<longleftrightarrow>
     (\<exists>h'. h = h' @ [WAttached (w_since w) (w_channelId w)] \<and> (w_fromStart w \<longleftrightarrow> (\<exists>h''. h' = h'' @ [WStarting (w_channelId w)])))"
proof (cases h rule: rev_cases)
  case (snoc h' e)
  have "watching (watch_run h) = Some w \<longleftrightarrow> e = WAttached (w_since w) (w_channelId w) \<and> (w_fromStart w \<longleftrightarrow> startingId (watch_run h') = Some (w_channelId w))"
    by (cases e; cases w) (auto simp: snoc watch_defs split: option.splits)
  then show ?thesis by (auto simp: snoc watch_startingId)
qed (simp add: createEndWatch_def)

lemma watch_toldId: "toldId (watch_run h) = Some c \<longleftrightarrow> (\<exists>t h'. filter (\<lambda>e. e \<noteq> WLost) h = h' @ [WEnded t c])"
proof (induction h rule: rev_induct)
  case (snoc e h)
  then show ?case by (cases e) (auto simp: watch_defs split: option.splits)
qed (simp add: createEndWatch_def)

lemma watch_ended_facts:
  assumes "watch_ended now c s = (r, s')"
  shows "seen r = SeenLive \<longleftrightarrow> (\<exists>w. watching s = Some w \<and> w_channelId w = c)"
    and "watching s = Some w \<Longrightarrow> w_channelId w = c \<Longrightarrow> watchedMs r = Some (now - w_since w) \<and> fromStart r = w_fromStart w \<and> \<not> again r"
    and "seen r = SeenFound \<Longrightarrow> watchedMs r = None \<and> (fromStart r \<longleftrightarrow> startingId s = Some c) \<and> (again r \<longleftrightarrow> toldId s = Some c)"
  using assms by (auto simp: watch_ended_def Let_def split: option.splits if_splits)

text \<open>
  The watch tells an end seen from an end found. After any history of starts, attaches, losses and ends, an end is
  live exactly when the last thing heard was an attach to that terminal, and then the time watched is counted
  from that attach, and from its start exactly when a start of it came right before. Any other end
  is found; it came right after a start exactly when that start was the last thing heard, and it is told again
  exactly when, losses of the socket apart, the last thing heard was its end.
\<close>

theorem end_watch_exact:
  assumes "watch_ended now c (watch_run h) = (r, s')"
  shows "(seen r = SeenLive \<longleftrightarrow> (\<exists>t h'. h = h' @ [WAttached t c]))
     \<and> (\<forall>t h'. h = h' @ [WAttached t c] \<longrightarrow> watchedMs r = Some (now - t) \<and> (fromStart r \<longleftrightarrow> (\<exists>h''. h' = h'' @ [WStarting c])))
     \<and> (seen r = SeenFound \<longrightarrow> watchedMs r = None \<and> (fromStart r \<longleftrightarrow> (\<exists>h''. h = h'' @ [WStarting c]))
          \<and> (again r \<longleftrightarrow> (\<exists>t h''. filter (\<lambda>e. e \<noteq> WLost) h = h'' @ [WEnded t c])))"
proof (intro conjI allI impI)
  note f = watch_ended_facts [OF assms]
  have live: "\<exists>w. watching (watch_run h) = Some w \<and> w_channelId w = c \<and> w_since w = t \<and> (w_fromStart w \<longleftrightarrow> (\<exists>h''. h' = h'' @ [WStarting c]))"
    if "h = h' @ [WAttached t c]" for h' t
    using watch_watching [of h "\<lparr>w_channelId = c, w_since = t, w_fromStart = (\<exists>h''. h' = h'' @ [WStarting c])\<rparr>"] that by auto
  show "seen r = SeenLive \<longleftrightarrow> (\<exists>t h'. h = h' @ [WAttached t c])"
  proof
    assume "seen r = SeenLive"
    then obtain w where "watching (watch_run h) = Some w" "w_channelId w = c" using f(1) by blast
    then show "\<exists>t h'. h = h' @ [WAttached t c]" using watch_watching [of h w] by blast
  next
    assume "\<exists>t h'. h = h' @ [WAttached t c]"
    then show "seen r = SeenLive" using live f(1) by blast
  qed
  show "watchedMs r = Some (now - t)" "fromStart r \<longleftrightarrow> (\<exists>h''. h' = h'' @ [WStarting c])" if "h = h' @ [WAttached t c]" for h' t
    using live [OF that] f(2) by auto
  assume "seen r = SeenFound"
  then show "watchedMs r = None" "fromStart r \<longleftrightarrow> (\<exists>h''. h = h'' @ [WStarting c])"
    "again r \<longleftrightarrow> (\<exists>t h''. filter (\<lambda>e. e \<noteq> WLost) h = h'' @ [WEnded t c])"
    using f(3) by (simp_all add: watch_startingId watch_toldId)
qed

theorem end_watch_exact_witness:
  "seen (fst (watch_ended 7000 ''c'' (watch_run [WStarting ''c'', WAttached 1000 ''c'']))) = SeenLive
   \<and> watchedMs (fst (watch_ended 7000 ''c'' (watch_run [WStarting ''c'', WAttached 1000 ''c'']))) = Some 6000"
  using end_watch_exact [of 7000 "''c''" "[WStarting ''c'', WAttached 1000 ''c'']" "fst (watch_ended 7000 ''c'' (watch_run [WStarting ''c'', WAttached 1000 ''c'']))"
      "snd (watch_ended 7000 ''c'' (watch_run [WStarting ''c'', WAttached 1000 ''c'']))"]
  by simp

section \<open>No restart loop\<close>

definition endFacts :: "EndSeen \<Rightarrow> bool \<Rightarrow> bool \<Rightarrow> ChannelEndReason option \<Rightarrow> EndFacts" where
  "endFacts e dp wr reason = EndSeen.extend e (EndFacts.fields dp wr reason)"

lemma endFacts_simps [simp]:
  "seen (endFacts e dp wr reason) = seen e" "watchedMs (endFacts e dp wr reason) = watchedMs e" "fromStart (endFacts e dp wr reason) = fromStart e"
  "directProcess (endFacts e dp wr reason) = dp" "writer (endFacts e dp wr reason) = wr" "endReason (endFacts e dp wr reason) = reason"
  by (simp_all add: endFacts_def EndSeen.defs EndFacts.defs)

lemma seen_how_neq: "seen e \<noteq> SeenFound \<longleftrightarrow> seen e = SeenLive"
  by (cases "seen e") simp_all

lemma reason_cases: "r \<noteq> Some EndKilled \<and> r \<noteq> Some EndStopped \<longleftrightarrow> r = None"
  by (cases r) (auto, metis ChannelEndReason.exhaust)

lemma reactToEnd_restart:
  "reactToEnd prefs e = RRestart \<longleftrightarrow> endReason e = None \<and> seen e = SeenLive \<and> whenEnded prefs = Restart \<and> \<not> directProcess e
     \<and> \<not> ran_too_short e \<and> writer e"
  using reason_cases [of "endReason e"]
  by (auto simp: reactToEnd_def seen_how_neq split: if_splits WhenEnded.splits)

lemma reactToEnd_close:
  "reactToEnd prefs e = RClose k \<longleftrightarrow> endReason e = None \<and> seen e = SeenLive \<and> whenEnded prefs = Close \<and> k = keepEnded prefs"
  using reason_cases [of "endReason e"]
  by (auto simp: reactToEnd_def seen_how_neq split: if_splits WhenEnded.splits)

fun event_time :: "watch_event \<Rightarrow> rat option" where
  "event_time (WAttached t c) = Some t"
| "event_time (WEnded t c) = Some t"
| "event_time _ = None"

definition clock_ok :: "watch_event list \<Rightarrow> bool" where
  "clock_ok h = sorted (List.map_filter event_time h)"

lemma map_filter_append [simp]: "List.map_filter f (xs @ ys) = List.map_filter f xs @ List.map_filter f ys"
  by (simp add: List.map_filter_def)

text \<open>
  No restart loop. The pane restarts its terminal by itself only when the end was seen live, nobody stopped it,
  the setting says so, it runs a shell, this window holds its write lock, and it ran for five
  seconds under the eyes of the pane; so two such restarts of a pane are five seconds apart at least,
  however fast the terminal fails. It closes by itself only on an end seen live that nobody caused.
\<close>

theorem automatic_restarts_spaced:
  assumes "clock_ok (h1 @ [WEnded t1 c1] @ h2 @ [WEnded t2 c])"
    and "fst (watch_ended t2 c (watch_run (h1 @ [WEnded t1 c1] @ h2))) = e"
    and "reactToEnd prefs (endFacts e dp wr reason) \<in> {RRestart, RClose k}"
  shows "seen e = SeenLive \<and> reason = None
     \<and> (reactToEnd prefs (endFacts e dp wr reason) = RRestart \<longrightarrow>
          whenEnded prefs = Restart \<and> \<not> dp \<and> wr \<and> t1 + AUTO_RESTART_MIN_RUN_MS \<le> t2)"
proof -
  let ?h = "h1 @ [WEnded t1 c1] @ h2"
  have base: "seen e = SeenLive" "reason = None" using assms(3) by (auto simp: reactToEnd_restart reactToEnd_close)
  obtain s' where w: "watch_ended t2 c (watch_run ?h) = (e, s')" using assms(2) by (metis prod.collapse)
  note f = watch_ended_facts [OF w]
  obtain v where v: "watching (watch_run ?h) = Some v" "w_channelId v = c" using base(1) f(1) by blast
  then obtain h' where h': "?h = h' @ [WAttached (w_since v) c]" using watch_watching [of ?h v] by auto
  have "h2 \<noteq> []" using h' by (cases h2 rule: rev_cases) auto
  then obtain h2' where h2: "h2 = h2' @ [WAttached (w_since v) c]" using h' by (cases h2 rule: rev_cases) auto
  have "t1 \<le> w_since v" using assms(1) by (auto simp: clock_ok_def h2 sorted_append List.map_filter_def)
  moreover have "AUTO_RESTART_MIN_RUN_MS \<le> t2 - w_since v" if "\<not> ran_too_short e"
    using that f(2) [OF v] by (simp add: ran_too_short_def)
  ultimately show ?thesis using base by (auto simp: reactToEnd_restart ran_too_short_def)
qed

theorem automatic_restarts_spaced_witness:
  "(10 :: rat) + AUTO_RESTART_MIN_RUN_MS \<le> 6000"
proof -
  let ?e = "\<lparr>seen = SeenLive, watchedMs = Some 5980, fromStart = True, again = False\<rparr>"
  have e: "fst (watch_ended 6000 ''c'' (watch_run ([] @ [WEnded 10 ''c''] @ [WStarting ''c'', WAttached 20 ''c'']))) = ?e"
    by (simp add: watch_run_def watch_defs)
  have r: "reactToEnd \<lparr>whenEnded = Restart, keepEnded = False\<rparr> (endFacts ?e False True None) = RRestart"
    unfolding reactToEnd_restart by (simp add: ran_too_short_def AUTO_RESTART_MIN_RUN_MS_def)
  have c: "clock_ok ([] @ [WEnded 10 ''c''] @ [WStarting ''c'', WAttached 20 ''c''] @ [WEnded 6000 ''c''])"
    by (simp add: clock_ok_def List.map_filter_def)
  from automatic_restarts_spaced [OF c e, of "\<lparr>whenEnded = Restart, keepEnded = False\<rparr>" False True None False] r show ?thesis by simp
qed

section \<open>Reasons shown, and what follows\<close>

text \<open>
  An overlay over an end found that says why the restart held back keeps asking, with the same setting, save
  in one case: a start from here that ended at once, when its agent was stopped. There the overlay says that the
  terminal was not restarted, and the setting then restarts it.
\<close>

definition foundEndOf :: "EndedPrefs \<Rightarrow> EndFacts \<Rightarrow> bool \<Rightarrow> bool \<Rightarrow> bool \<Rightarrow> FoundEnd" where
  "foundEndOf prefs e known view focus =
     \<lparr>fe_hold = endHold e, fe_directProcess = directProcess e, fe_endReason = endReason e, fe_whenEnded = whenEnded prefs,
      fe_settingKnown = known, fe_inView = view, fe_focused = focus\<rparr>"

lemma found_reason_keeps_asking:
  assumes "seen e = SeenFound" "reactToEnd prefs e = ROverlay (Some reason)"
  shows "answerFoundEnd (foundEndOf prefs e known view focus) = AnswerAsk \<or> (reason = JustStarted \<and> fromStart e \<and> endReason e = Some EndStopped)"
  using assms reason_cases [of "endReason e"]
  by (auto simp: reactToEnd_def answerFoundEnd_def foundEndOf_def endHold_def split: if_splits)

theorem stopped_start_restarts_after_saying_not:
  "let e = endFacts \<lparr>seen = SeenFound, watchedMs = None, fromStart = True, again = False\<rparr> False True (Some EndStopped);
       prefs = \<lparr>whenEnded = Restart, keepEnded = False\<rparr>
   in reactToEnd prefs e = ROverlay (Some JustStarted) \<and> answerFoundEnd (foundEndOf prefs e True True True) = AnswerAct"
  by (simp add: Let_def reactToEnd_def answerFoundEnd_def foundEndOf_def endHold_def)

text \<open>While the setting is about to act, the pane says so and asks nothing; a card never covers an act.\<close>

lemma endedPaneShows_act:
  assumes "ep_found pane = Some f" "answerFoundEnd f = AnswerAct" "ep_cover pane = Some CoverExited"
    "\<not> ep_opening pane" "\<not> ep_restarting pane" "ep_waitingForHost pane = None"
  shows "endedPaneShows pane = ViewQuiet ((if fe_whenEnded f = Close then ''Closing'' else ''Restarting'') @ ellipsis) False"
  using assms by (simp add: endedPaneShows_def)

end
