(* ===== verification/Waiting_Answer.thy ===== *)
theory Waiting_Answer
  imports Exit_Action
begin

text \<open>
  The overlay of an ended terminal that waits for an answer, \<^verbatim>\<open>composables/useWaitingAnswer.ts\<close>: the choice made on another
  overlay, or the setting over an end found. Its sources, which the pane owns, are a record that an
  event replaces as a whole, as Vue batches their changes; \<open>act\<close> appends to a log; the grace timer is a
  flag and its expiry an event.
\<close>

section \<open>State\<close>

record WaitingAnswerSources =
  src_waiting :: bool
  src_channelId :: "channel_id option"
  src_hostId :: "host_id option"
  src_hold :: "HeldBack option"
  src_directProcess :: bool
  src_whenEnded :: WhenEnded
  src_inView :: bool
  src_endReason :: "ChannelEndReason option"
  src_settingKnown :: bool
  src_focused :: bool

record waiting_state =
  sources :: WaitingAnswerSources
  followed :: "(AlwaysChoice \<times> bool) option"
  found :: "ChannelEndReason option option"
  settingOverdue :: bool
  overdueTimer :: bool
  hearing :: bool
  acts :: "OverlayAction list"

definition useWaitingAnswer :: "WaitingAnswerSources \<Rightarrow> waiting_state" where
  "useWaitingAnswer src = \<lparr>sources = src, followed = None, found = None, settingOverdue = False, overdueTimer = False, hearing = True, acts = []\<rparr>"

definition dropFound :: "waiting_state \<Rightarrow> waiting_state" where
  "dropFound s = s\<lparr>found := None, settingOverdue := False, overdueTimer := False\<rparr>"

definition overlay :: "WaitingAnswerSources \<Rightarrow> bool \<Rightarrow> WaitingOverlay" where
  "overlay src wasInView =
     \<lparr>wo_channelId = src_channelId src, wo_hostId = src_hostId src, wo_hold = src_hold src, wo_directProcess = src_directProcess src,
      wo_whenEnded = src_whenEnded src, wo_inView = src_inView src, wo_wasInView = wasInView\<rparr>"

definition answer :: "waiting_state \<Rightarrow> waiting_state" where
  "answer s =
     (case followed s of
        None \<Rightarrow> s
      | Some (choice, wasInView) \<Rightarrow>
          (case answerWaiting choice (overlay (sources s) wasInView) of
             AnswerWait \<Rightarrow> if src_inView (sources s) then s\<lparr>followed := Some (choice, True)\<rparr> else s
           | AnswerAsk \<Rightarrow> s\<lparr>followed := None\<rparr>
           | AnswerAct \<Rightarrow> let s' = dropFound (s\<lparr>followed := None\<rparr>) in s'\<lparr>acts := acts s' @ [ac_action choice]\<rparr>))"

definition foundEnd :: "WaitingAnswerSources \<Rightarrow> ChannelEndReason option \<Rightarrow> FoundEnd" where
  "foundEnd src reason =
     \<lparr>fe_hold = src_hold src, fe_directProcess = src_directProcess src,
      fe_endReason = (case reason of None \<Rightarrow> src_endReason src | Some r \<Rightarrow> Some r),
      fe_whenEnded = src_whenEnded src, fe_settingKnown = src_settingKnown src, fe_inView = src_inView src, fe_focused = src_focused src\<rparr>"

fun setting_action :: "WhenEnded \<Rightarrow> OverlayAction option" where
  "setting_action Ask = None"
| "setting_action Restart = Some ActRestart"
| "setting_action Close = Some ActClose"

definition answerFound :: "waiting_state \<Rightarrow> waiting_state" where
  "answerFound s =
     (case found s of
        None \<Rightarrow> s
      | Some reason \<Rightarrow>
          let verdict = answerFoundEnd (foundEnd (sources s) reason) in
          if verdict = AnswerWait then s
          else let s' = dropFound s in
            (case (verdict, setting_action (src_whenEnded (sources s))) of
               (AnswerAct, Some action) \<Rightarrow> s'\<lparr>followed := None, acts := acts s' @ [action]\<rparr>
             | _ \<Rightarrow> s'))"

definition onAlwaysChoice :: "AlwaysChoice \<Rightarrow> waiting_state \<Rightarrow> waiting_state" where
  "onAlwaysChoice choice s =
     (if \<not> hearing s then s
      else if \<not> src_waiting (sources s) then s
      else if (case followed s of None \<Rightarrow> False | Some (c, _) \<Rightarrow> ac_at c > ac_at choice) then s
      else if answerWaiting choice (overlay (sources s) False) = AnswerAsk then s
      else answer (s\<lparr>followed := Some (choice, False)\<rparr>))"

definition answering :: "WaitingAnswerSources \<Rightarrow> bool \<times> WhenEnded \<times> HeldBack option \<times> bool \<times> host_id option \<times> ChannelEndReason option \<times> bool \<times> bool" where
  "answering src = (src_inView src, src_whenEnded src, src_hold src, src_directProcess src, src_hostId src, src_endReason src,
     src_settingKnown src, src_focused src)"

text \<open>The two watchers, in the order they are set up, after the sources changed.\<close>

definition sourcesChanged :: "WaitingAnswerSources \<Rightarrow> waiting_state \<Rightarrow> waiting_state" where
  "sourcesChanged new s =
     (let old = sources s;
          s = s\<lparr>sources := new\<rparr>;
          moved = (src_channelId new \<noteq> src_channelId old);
          s1 = (if hearing s \<and> (src_waiting new \<noteq> src_waiting old \<or> moved) \<and> (\<not> src_waiting new \<or> moved)
                then dropFound (s\<lparr>followed := None\<rparr>) else s)
      in if hearing s \<and> answering new \<noteq> answering old then answerFound (answer s1) else s1)"

definition endFound :: "ChannelEndReason option \<Rightarrow> waiting_state \<Rightarrow> waiting_state" where
  "endFound reason s =
     (if \<not> src_waiting (sources s) then s
      else answerFound ((dropFound s)\<lparr>found := Some reason, overdueTimer := True\<rparr>))"

definition graceOver :: "waiting_state \<Rightarrow> waiting_state" where
  "graceOver s = (if overdueTimer s then s\<lparr>overdueTimer := False, settingOverdue := True\<rparr> else s)"

definition onScopeDispose :: "waiting_state \<Rightarrow> waiting_state" where
  "onScopeDispose s = dropFound (s\<lparr>hearing := False\<rparr>)"

definition foundShown :: "waiting_state \<Rightarrow> FoundEnd option" where
  "foundShown s = map_option (foundEnd (sources s)) (found s)"

section \<open>One answer per question, and never unseen\<close>

datatype wa_event = Chosen AlwaysChoice | SourcesChanged WaitingAnswerSources | EndFound "ChannelEndReason option" | GraceOver | Disposed

fun wa_op :: "wa_event \<Rightarrow> waiting_state \<Rightarrow> waiting_state" where
  "wa_op (Chosen choice) = onAlwaysChoice choice"
| "wa_op (SourcesChanged new) = sourcesChanged new"
| "wa_op (EndFound reason) = endFound reason"
| "wa_op GraceOver = graceOver"
| "wa_op Disposed = onScopeDispose"

fun asks :: "wa_event \<Rightarrow> nat" where
  "asks (Chosen _) = 1"
| "asks (EndFound _) = 1"
| "asks _ = 0"

definition wa_step :: "nat \<times> waiting_state \<Rightarrow> wa_event \<Rightarrow> nat \<times> waiting_state" where
  "wa_step = (\<lambda>(n, s) e. (n + asks e, wa_op e s))"

text \<open>What is open: a choice followed, an end found.\<close>

definition open_questions :: "waiting_state \<Rightarrow> nat" where
  "open_questions s = (if followed s = None then 0 else 1) + (if found s = None then 0 else 1)"

text \<open>The timer runs exactly for an end found whose setting is not overdue; what is open waits on screen.\<close>

definition wa_ok :: "waiting_state \<Rightarrow> bool" where
  "wa_ok s \<longleftrightarrow> (found s = None \<longrightarrow> \<not> settingOverdue s \<and> \<not> overdueTimer s) \<and> (found s \<noteq> None \<longrightarrow> overdueTimer s \<noteq> settingOverdue s)
     \<and> (hearing s \<longrightarrow> (followed s \<noteq> None \<or> found s \<noteq> None) \<longrightarrow> src_waiting (sources s))"

text \<open>What may be done: on screen, by a terminal that runs a shell and whose end holds nothing back, as its setting says.\<close>

definition may_act :: "waiting_state \<Rightarrow> OverlayAction \<Rightarrow> bool" where
  "may_act s a \<longleftrightarrow> src_inView (sources s) \<and> \<not> src_directProcess (sources s) \<and> src_hold (sources s) = None
     \<and> src_whenEnded (sources s) = action_setting a"

definition answered :: "waiting_state \<Rightarrow> waiting_state \<Rightarrow> bool" where
  "answered s s' \<longleftrightarrow> (acts s' = acts s \<and> open_questions s' \<le> open_questions s)
     \<or> (\<exists>a. acts s' = acts s @ [a] \<and> may_act s' a \<and> followed s' = None \<and> found s' = None \<and> 1 \<le> open_questions s)"

lemma setting_action_Some: "setting_action w = Some a \<longleftrightarrow> w = action_setting a"
  by (cases w; cases a) auto

lemma answerWaiting_act:
  "answerWaiting choice ov = AnswerAct \<Longrightarrow> wo_inView ov \<and> \<not> wo_directProcess ov \<and> wo_hold ov = None \<and> wo_whenEnded ov = action_setting (ac_action choice)
     \<and> wo_channelId ov \<noteq> None \<and> wo_channelId ov \<noteq> ac_channelId choice \<and> (ac_scope choice = ScopeHost \<longrightarrow> wo_hostId ov = ac_hostId choice)"
  by (auto simp: answerWaiting_def split: if_splits)

lemma answerFoundEnd_act:
  "answerFoundEnd f = AnswerAct \<Longrightarrow> fe_inView f \<and> fe_focused f \<and> fe_settingKnown f \<and> \<not> fe_directProcess f \<and> fe_hold f = None
     \<and> fe_endReason f \<noteq> Some EndKilled \<and> fe_whenEnded f \<noteq> Ask"
  by (auto simp: answerFoundEnd_def split: if_splits)

lemma answer_facts:
  "answered s (answer s)" "sources (answer s) = sources s" "hearing (answer s) = hearing s"
  "wa_ok s \<Longrightarrow> wa_ok (answer s)"
proof -
  have "answered s (answer s) \<and> sources (answer s) = sources s \<and> hearing (answer s) = hearing s \<and> (wa_ok s \<longrightarrow> wa_ok (answer s))"
  proof (cases "followed s")
    case (Some cw)
    then obtain choice was where c: "followed s = Some (choice, was)" by (cases cw) auto
    show ?thesis
    proof (cases "answerWaiting choice (overlay (sources s) was)")
      case AnswerAct
      from answerWaiting_act [OF this] show ?thesis
        using c AnswerAct by (auto simp: answer_def answered_def may_act_def open_questions_def dropFound_def overlay_def wa_ok_def Let_def)
    qed (use c in \<open>auto simp: answer_def answered_def open_questions_def wa_ok_def\<close>)
  qed (auto simp: answer_def answered_def)
  then show "answered s (answer s)" "sources (answer s) = sources s" "hearing (answer s) = hearing s"
    "wa_ok s \<Longrightarrow> wa_ok (answer s)" by auto
qed

lemma answerFound_facts:
  "answered s (answerFound s)" "sources (answerFound s) = sources s" "hearing (answerFound s) = hearing s"
  "wa_ok s \<Longrightarrow> wa_ok (answerFound s)"
proof -
  have "answered s (answerFound s) \<and> sources (answerFound s) = sources s \<and> hearing (answerFound s) = hearing s \<and> (wa_ok s \<longrightarrow> wa_ok (answerFound s))"
  proof (cases "found s")
    case (Some reason)
    let ?f = "foundEnd (sources s) reason"
    show ?thesis
    proof (cases "answerFoundEnd ?f")
      case AnswerAct
      note f = answerFoundEnd_act [OF this]
      then obtain a where a: "setting_action (src_whenEnded (sources s)) = Some a"
        by (cases "src_whenEnded (sources s)") (auto simp: foundEnd_def)
      have eq: "answerFound s = (dropFound s)\<lparr>followed := None, acts := acts s @ [a]\<rparr>"
        using a Some AnswerAct by (simp add: answerFound_def Let_def dropFound_def)
      have "may_act s a" using f a by (simp add: may_act_def foundEnd_def setting_action_Some)
      then show ?thesis unfolding eq using Some by (auto simp: answered_def may_act_def open_questions_def dropFound_def wa_ok_def)
    next
      case AnswerWait
      then show ?thesis using Some by (auto simp: answerFound_def answered_def Let_def)
    next
      case AnswerAsk
      then show ?thesis using Some by (auto simp: answerFound_def answered_def open_questions_def dropFound_def wa_ok_def Let_def)
    qed
  qed (auto simp: answerFound_def answered_def)
  then show "answered s (answerFound s)" "sources (answerFound s) = sources s" "hearing (answerFound s) = hearing s"
    "wa_ok s \<Longrightarrow> wa_ok (answerFound s)" by auto
qed

lemma answered_both: "answered s (answerFound (answer s))"
proof (cases "acts (answer s) = acts s")
  case True
  then have "open_questions (answer s) \<le> open_questions s" using answer_facts(1) [of s] by (auto simp: answered_def)
  then show ?thesis using True answerFound_facts(1) [of "answer s"] by (auto simp: answered_def)
next
  case False
  then have "found (answer s) = None" using answer_facts(1) [of s] by (auto simp: answered_def)
  then have "answerFound (answer s) = answer s" by (simp add: answerFound_def)
  then show ?thesis using answer_facts(1) by simp
qed

definition wa_inv :: "nat \<times> waiting_state \<Rightarrow> bool" where
  "wa_inv = (\<lambda>(n, s). wa_ok s \<and> length (acts s) + open_questions s \<le> n)"

text \<open>The step in which a question may be asked first: what it opens is one more.\<close>

definition answers :: "nat \<Rightarrow> waiting_state \<Rightarrow> waiting_state \<Rightarrow> bool" where
  "answers k s s' \<longleftrightarrow> (acts s' = acts s \<and> open_questions s' \<le> open_questions s + k)
     \<or> (\<exists>a. acts s' = acts s @ [a] \<and> may_act s' a \<and> followed s' = None \<and> found s' = None \<and> 1 \<le> open_questions s + k)"

lemma answered_after:
  assumes "answered s1 s2" "acts s1 = acts s" "open_questions s1 \<le> open_questions s + k"
  shows "answers k s s2"
  using assms by (auto simp: answered_def answers_def)

lemma choice_facts:
  assumes "wa_ok s"
  shows "wa_ok (onAlwaysChoice c s) \<and> answers 1 s (onAlwaysChoice c s)"
proof (cases "onAlwaysChoice c s = s")
  case True
  then show ?thesis using assms by (simp add: answers_def)
next
  case False
  let ?s = "s\<lparr>followed := Some (c, False)\<rparr>"
  have eq: "onAlwaysChoice c s = answer ?s" and w: "src_waiting (sources s)"
    using False by (auto simp: onAlwaysChoice_def split: if_splits)
  have "wa_ok ?s" using assms w by (auto simp: wa_ok_def)
  then show ?thesis unfolding eq using answer_facts [of ?s] answered_after [OF answer_facts(1) [of ?s], of s 1]
    by (auto simp: open_questions_def)
qed

lemma endFound_facts:
  assumes "wa_ok s"
  shows "wa_ok (endFound r s) \<and> answers 1 s (endFound r s)"
proof (cases "src_waiting (sources s)")
  case True
  let ?s = "(dropFound s)\<lparr>found := Some r, overdueTimer := True\<rparr>"
  have eq: "endFound r s = answerFound ?s" using True by (simp add: endFound_def)
  have "wa_ok ?s" using assms True by (auto simp: wa_ok_def dropFound_def)
  then show ?thesis unfolding eq using answerFound_facts [of ?s] answered_after [OF answerFound_facts(1) [of ?s], of s 1]
    by (auto simp: open_questions_def dropFound_def)
qed (use assms in \<open>simp add: endFound_def answers_def\<close>)

lemma sourcesChanged_cases:
  obtains s1 where "sourcesChanged new s = answerFound (answer s1) \<or> sourcesChanged new s = s1" "wa_ok s \<Longrightarrow> wa_ok s1"
    "acts s1 = acts s" "open_questions s1 \<le> open_questions s" "followed s = None \<Longrightarrow> followed s1 = None"
proof
  let ?s = "s\<lparr>sources := new\<rparr>"
  let ?gone = "hearing s \<and> (src_waiting new \<noteq> src_waiting (sources s) \<or> src_channelId new \<noteq> src_channelId (sources s))
      \<and> (\<not> src_waiting new \<or> src_channelId new \<noteq> src_channelId (sources s))"
  let ?s1 = "if ?gone then dropFound (?s\<lparr>followed := None\<rparr>) else ?s"
  show "sourcesChanged new s = answerFound (answer ?s1) \<or> sourcesChanged new s = ?s1"
    unfolding sourcesChanged_def Let_def by auto
  show "wa_ok s \<Longrightarrow> wa_ok ?s1" by (auto simp: wa_ok_def dropFound_def)
  show "acts ?s1 = acts s" "open_questions ?s1 \<le> open_questions s" "followed s = None \<Longrightarrow> followed ?s1 = None"
    by (simp_all add: dropFound_def open_questions_def)
qed

lemma sourcesChanged_facts:
  assumes "wa_ok s"
  shows "wa_ok (sourcesChanged new s) \<and> answers 0 s (sourcesChanged new s)"
proof -
  obtain s1 where eq: "sourcesChanged new s = answerFound (answer s1) \<or> sourcesChanged new s = s1"
    and s1: "wa_ok s \<Longrightarrow> wa_ok s1" "acts s1 = acts s" "open_questions s1 \<le> open_questions s" by (metis sourcesChanged_cases)
  have "wa_ok (answerFound (answer s1))" using s1(1) assms by (intro answerFound_facts(4) answer_facts(4))
  moreover have "answers 0 s (answerFound (answer s1))" by (rule answered_after [OF answered_both]) (use s1 in auto)
  moreover have "answers 0 s s1" using s1 by (auto simp: answers_def)
  ultimately show ?thesis using eq s1(1) assms by auto
qed

lemma wa_op_facts: "wa_ok s \<Longrightarrow> wa_ok (wa_op e s) \<and> answers (asks e) s (wa_op e s)"
proof (cases e)
  case GraceOver
  then show "wa_ok s \<Longrightarrow> wa_ok (wa_op e s) \<and> answers (asks e) s (wa_op e s)"
    by (auto simp: graceOver_def wa_ok_def answers_def open_questions_def)
next
  case Disposed
  then show "wa_ok s \<Longrightarrow> wa_ok (wa_op e s) \<and> answers (asks e) s (wa_op e s)"
    by (auto simp: onScopeDispose_def dropFound_def wa_ok_def answers_def open_questions_def)
qed (use choice_facts endFound_facts sourcesChanged_facts in auto)

interpretation waiting: event_machine "(0, useWaitingAnswer src)" "\<lambda>_ _. True" wa_step wa_inv
proof
  show "wa_inv (0, useWaitingAnswer src)" by (simp add: wa_inv_def wa_ok_def useWaitingAnswer_def open_questions_def)
  fix ns e assume inv: "wa_inv ns"
  obtain n s where ns: "ns = (n, s)" by fastforce
  then have s: "wa_ok s" "length (acts s) + open_questions s \<le> n" using inv by (auto simp: wa_inv_def)
  from wa_op_facts [OF s(1), of e] s(2) show "wa_inv (wa_step ns e)"
    by (auto simp: ns wa_inv_def wa_step_def answers_def open_questions_def)
qed

lemma runs_always: "runs (\<lambda>_ _. True) step s es"
  by (induction es arbitrary: s) auto

lemma wa_run_count: "foldl wa_step (n, s) es = (n + sum_list (map asks es), foldl (\<lambda>s e. wa_op e s) s es)"
  by (induction es arbitrary: n s) (auto simp: wa_step_def)

lemma found_act_focused:
  assumes "acts (answerFound s) \<noteq> acts s"
  shows "src_focused (sources s) \<and> src_settingKnown (sources s)"
proof -
  obtain r where r: "found s = Some r" using assms by (cases "found s") (auto simp: answerFound_def)
  then have "answerFoundEnd (foundEnd (sources s) r) = AnswerAct"
    using assms by (auto simp: answerFound_def dropFound_def Let_def split: WaitingAnswer.splits option.splits if_splits)
  from answerFoundEnd_act [OF this] show ?thesis by (simp add: foundEnd_def)
qed

text \<open>
  C17: A waiting overlay answers once and is seen to. In every run of choices, changes of what the
  pane knows, ends found and the grace timer, a step acts at most once, and only for a terminal on screen
  that runs a shell, whose end holds nothing back and whose setting now says that action; then no question is left open, and
  never more acts than questions asked. Without a choice to follow it acts only in the window that has the
  focus, with the setting read. The grace timer runs exactly while an end found is not overdue.
\<close>

theorem waiting_overlay_answers_once:
  assumes "foldl (\<lambda>s e. wa_op e s) (useWaitingAnswer src) es = s" "wa_op e s = s'"
  shows "(acts s' = acts s \<or> (\<exists>a. acts s' = acts s @ [a] \<and> may_act s' a \<and> followed s' = None \<and> found s' = None))
     \<and> length (acts s') \<le> sum_list (map asks (es @ [e]))
     \<and> (acts s' \<noteq> acts s \<and> followed s = None \<and> (\<forall>c. e \<noteq> Chosen c) \<longrightarrow> src_focused (sources s') \<and> src_settingKnown (sources s'))
     \<and> (found s' = None \<longrightarrow> \<not> overdueTimer s' \<and> \<not> settingOverdue s') \<and> (found s' \<noteq> None \<longrightarrow> overdueTimer s' \<noteq> settingOverdue s')"
proof -
  have inv: "wa_inv (sum_list (map asks fs), foldl (\<lambda>s e. wa_op e s) (useWaitingAnswer src) fs)" for fs
    using waiting.inv_run [OF runs_always, of src fs] by (simp add: wa_run_count)
  have s: "wa_ok s" using inv [of es] assms(1) by (simp add: wa_inv_def)
  have s': "wa_ok s'" "length (acts s') \<le> sum_list (map asks (es @ [e]))"
    using inv [of "es @ [e]"] assms by (auto simp: wa_inv_def)
  have "answers (asks e) s s'" using wa_op_facts [OF s] assms(2) by blast
  then have a: "acts s' = acts s \<or> (\<exists>a. acts s' = acts s @ [a] \<and> may_act s' a \<and> followed s' = None \<and> found s' = None)"
    by (auto simp: answers_def)
  have "src_focused (sources s') \<and> src_settingKnown (sources s')"
    if acted: "acts s' \<noteq> acts s" and f: "followed s = None" and e: "\<forall>c. e \<noteq> Chosen c"
  proof (cases e)
    case (SourcesChanged new)
    obtain s1 where "s' = answerFound (answer s1) \<or> s' = s1" "acts s1 = acts s" "followed s1 = None"
      using f assms(2) SourcesChanged sourcesChanged_cases [of new s] by (metis wa_op.simps(2))
    moreover have "answer s1 = s1" if "followed s1 = None" using that by (simp add: answer_def)
    ultimately have "s' = answerFound s1" "acts (answerFound s1) \<noteq> acts s1" using acted by auto
    then show ?thesis using found_act_focused [of s1] answerFound_facts(2) [of s1] by simp
  next
    case (EndFound r)
    then obtain t where "s' = answerFound t" "acts (answerFound t) \<noteq> acts t"
      using acted assms(2) by (auto simp: endFound_def dropFound_def split: if_splits)
    then show ?thesis using found_act_focused [of t] answerFound_facts(2) [of t] by simp
  qed (use acted e assms(2) in \<open>auto simp: graceOver_def onScopeDispose_def dropFound_def split: if_splits\<close>)
  then show ?thesis using a s' by (auto simp: wa_ok_def)
qed

definition sample_sources :: WaitingAnswerSources where
  "sample_sources = \<lparr>src_waiting = True, src_channelId = Some ''c1'', src_hostId = Some ''h'', src_hold = None, src_directProcess = False,
     src_whenEnded = Restart, src_inView = True, src_endReason = None, src_settingKnown = True, src_focused = True\<rparr>"

theorem waiting_overlay_answers_once_witness:
  "acts (endFound None (useWaitingAnswer sample_sources)) = [ActRestart]
   \<and> src_focused (sources (endFound None (useWaitingAnswer sample_sources)))"
proof -
  have a: "acts (endFound None (useWaitingAnswer sample_sources)) = [ActRestart]"
    by (simp add: endFound_def useWaitingAnswer_def sample_sources_def dropFound_def answerFound_def foundEnd_def answerFoundEnd_def)
  moreover have "acts (useWaitingAnswer sample_sources) = []" "followed (useWaitingAnswer sample_sources) = None" by (simp_all add: useWaitingAnswer_def)
  ultimately show ?thesis
    using waiting_overlay_answers_once [of sample_sources "[]" "useWaitingAnswer sample_sources" "EndFound None" "endFound None (useWaitingAnswer sample_sources)"]
    by simp
qed

end
