(* ===== verification/JS_Strings.thy ===== *)
theory JS_Strings
  imports Validation "HOL-Library.Sublist"
begin

text \<open>
  The functions on texts that the parsers of the hub use, as JavaScript has them: \<open>split\<close>, \<open>join\<close>, \<open>indexOf\<close>,
  \<open>lastIndexOf\<close>, \<open>trim\<close>, case, \<open>Number.parseInt\<close>. Texts are ASCII, so a character is one code unit and one byte. The interface
  \<open>separated\<close> is what the path and list formats rest on: text cut at a separator joins back, and
  pieces without it are cut as they were joined.
\<close>

abbreviation slash :: char where
  "slash \<equiv> CHR ''/''"

abbreviation bslash :: char where
  "bslash \<equiv> CHR 0x5C"

section \<open>Cutting and joining\<close>

fun split_on :: "'a \<Rightarrow> 'a list \<Rightarrow> 'a list list" where
  "split_on c [] = [[]]"
| "split_on c (x # xs) =
     (if x = c then [] # split_on c xs
      else case split_on c xs of [] \<Rightarrow> [[x]] | p # ps \<Rightarrow> (x # p) # ps)"

fun join :: "'a list \<Rightarrow> 'a list list \<Rightarrow> 'a list" where
  "join s [] = []"
| "join s [x] = x"
| "join s (x # y # ys) = x @ s @ join s (y # ys)"

lemma split_on_not_Nil [simp]: "split_on c xs \<noteq> []"
  by (induction xs) (auto split: list.splits)

lemma join_Cons: "ps \<noteq> [] \<Longrightarrow> join s (p # ps) = p @ s @ join s ps"
  by (cases ps) auto

lemma join_split [simp]: "join [c] (split_on c xs) = xs"
proof (induction xs)
  case (Cons x xs)
  obtain p ps where p: "split_on c xs = p # ps" by (cases "split_on c xs") auto
  with Cons show ?case by (cases ps) auto
qed simp

lemma split_on_pieces: "p \<in> set (split_on c xs) \<Longrightarrow> c \<notin> set p"
  by (induction xs arbitrary: p) (auto split: if_splits list.splits)

lemma split_on_none: "c \<notin> set xs \<Longrightarrow> split_on c xs = [xs]"
  by (induction xs) auto

lemma split_on_append: "c \<notin> set p \<Longrightarrow> split_on c (p @ c # xs) = p # split_on c xs"
  by (induction p) auto

lemma split_join: "ps \<noteq> [] \<Longrightarrow> \<forall>p \<in> set ps. c \<notin> set p \<Longrightarrow> split_on c (join [c] ps) = ps"
  by (induction "[c]" ps rule: join.induct) (auto simp: split_on_none split_on_append)

text \<open>The contract, and what follows from it alone: an encoding that loses nothing.\<close>

locale separated =
  fixes cut :: "'t \<Rightarrow> 't list" and glue :: "'t list \<Rightarrow> 't" and piece :: "'t \<Rightarrow> bool"
  assumes glue_cut: "glue (cut t) = t"
    and cut_pieces: "p \<in> set (cut t) \<Longrightarrow> piece p"
    and cut_some: "cut t \<noteq> []"
    and cut_glue: "ps \<noteq> [] \<Longrightarrow> \<forall>p \<in> set ps. piece p \<Longrightarrow> cut (glue ps) = ps"
begin

lemma glue_inj: "ps \<noteq> [] \<Longrightarrow> qs \<noteq> [] \<Longrightarrow> \<forall>p \<in> set ps. piece p \<Longrightarrow> \<forall>q \<in> set qs. piece q \<Longrightarrow> glue ps = glue qs \<Longrightarrow> ps = qs"
  by (metis cut_glue)

lemma cut_inj: "cut s = cut t \<Longrightarrow> s = t"
  by (metis glue_cut)

lemma cut_filter:
  "filter P (cut t) \<noteq> [] \<Longrightarrow> cut (glue (filter P (cut t))) = filter P (cut t)"
  by (rule cut_glue) (auto intro: cut_pieces)

lemma cut_butlast:
  assumes "1 < length (cut t)"
  shows "cut (glue (butlast (cut t))) = butlast (cut t)"
proof (rule cut_glue)
  show "butlast (cut t) \<noteq> []" using assms by (cases "cut t" rule: rev_cases) auto
qed (auto dest!: in_set_butlastD intro: cut_pieces)

end

interpretation sep: separated "split_on c" "join [c]" "\<lambda>p. c \<notin> set p"
  by unfold_locales (auto simp: split_join dest: split_on_pieces)

section \<open>Positions\<close>

fun indexOf :: "'a \<Rightarrow> 'a list \<Rightarrow> nat option" where
  "indexOf c [] = None"
| "indexOf c (x # xs) = (if x = c then Some 0 else map_option Suc (indexOf c xs))"

definition lastIndexOf :: "'a \<Rightarrow> 'a list \<Rightarrow> nat option" where
  "lastIndexOf c xs = map_option (\<lambda>i. length xs - 1 - i) (indexOf c (rev xs))"

lemma indexOf_Some: "indexOf c xs = Some i \<longleftrightarrow> i < length xs \<and> xs ! i = c \<and> c \<notin> set (take i xs)"
proof (induction xs arbitrary: i)
  case (Cons x xs)
  then show ?case by (cases i) auto
qed simp

lemma indexOf_None: "indexOf c xs = None \<longleftrightarrow> c \<notin> set xs"
  by (induction xs) auto

lemma indexOf_append: "c \<notin> set xs \<Longrightarrow> indexOf c (xs @ c # ys) = Some (length xs)"
  by (induction xs) auto

lemma lastIndexOf_None: "lastIndexOf c xs = None \<longleftrightarrow> c \<notin> set xs"
  by (simp add: lastIndexOf_def indexOf_None)

lemma lastIndexOf_append: "c \<notin> set ys \<Longrightarrow> lastIndexOf c (xs @ c # ys) = Some (length xs)"
  by (simp add: lastIndexOf_def indexOf_append)

lemma lastIndexOf_split: "c \<in> set xs \<Longrightarrow> \<exists>a b. xs = a @ c # b \<and> c \<notin> set b \<and> lastIndexOf c xs = Some (length a)"
  by (metis lastIndexOf_append split_list_last)

section \<open>Spaces, case, numbers\<close>

definition is_space :: "char \<Rightarrow> bool" where
  "is_space c = (c = CHR '' '' \<or> char_between 9 13 c)"

definition trim :: "string \<Rightarrow> string" where
  "trim s = rev (dropWhile is_space (rev (dropWhile is_space s)))"

text \<open>\<open>split\<close> at runs of white space, as in \<open>split(/\s+/)\<close>: an empty piece at either end stays.\<close>

fun split_spaces :: "string \<Rightarrow> string list" where
  "split_spaces [] = [[]]"
| "split_spaces (x # xs) =
     (if is_space x then [] # (case xs of y # _ \<Rightarrow> if is_space y then tl (split_spaces xs) else split_spaces xs | [] \<Rightarrow> [[]])
      else case split_spaces xs of [] \<Rightarrow> [[x]] | p # ps \<Rightarrow> (x # p) # ps)"

definition lower :: "string \<Rightarrow> string" where
  "lower s = map (\<lambda>c. if is_upper c then to_lower c else c) s"

definition upper :: "string \<Rightarrow> string" where
  "upper s = map (\<lambda>c. if is_lower c then to_upper c else c) s"

lemma length_case [simp]: "length (lower s) = length s" "length (upper s) = length s"
  by (simp_all add: lower_def upper_def)

definition starts_with :: "string \<Rightarrow> string \<Rightarrow> bool" where
  "starts_with p s = (take (length p) s = p)"

definition ends_with :: "string \<Rightarrow> string \<Rightarrow> bool" where
  "ends_with p s = starts_with (rev p) (rev s)"

lemma starts_with_append [simp]: "starts_with p (p @ s)"
  by (simp add: starts_with_def)

text \<open>\<open>Number.parseInt(s, 10)\<close>: white space, a sign, then the longest run of digits; \<open>NaN\<close> when there is none.\<close>

definition parseInt :: "string \<Rightarrow> int option" where
  "parseInt s =
     (let s = dropWhile is_space s;
          (neg, s) = (case s of c # r \<Rightarrow> if c = CHR ''-'' then (True, r) else if c = CHR ''+'' then (False, r) else (False, s) | [] \<Rightarrow> (False, []));
          ds = takeWhile is_digit s
      in if ds = [] then None else Some (if neg then - int (digits_value ds) else int (digits_value ds)))"

text \<open>The decimal text of a number.\<close>

fun dec :: "nat \<Rightarrow> string" where
  "dec n = (if n < 10 then [char_of (48 + n)] else dec (n div 10) @ [char_of (48 + n mod 10)])"

declare dec.simps [simp del]

lemma is_digit_char: "d < 10 \<Longrightarrow> is_digit (char_of (48 + d :: nat))"
  by (simp add: is_digit_def char_between_def)

lemma dec_not_Nil [simp]: "dec n \<noteq> []"
  by (subst dec.simps) auto

lemma dec_digits: "list_all is_digit (dec n)"
proof (induction n rule: dec.induct)
  case (1 n)
  show ?case
    by (subst dec.simps) (use 1 in \<open>auto simp: is_digit_char\<close>)
qed

lemma digits_value_snoc: "digits_value (s @ [c]) = 10 * digits_value s + (of_char c - 48)"
  by (simp add: digits_value_def)

lemma digits_value_dec [simp]: "digits_value (dec n) = n"
proof (induction n rule: dec.induct)
  case (1 n)
  show ?case
  proof (cases "n < 10")
    case True
    then show ?thesis by (subst dec.simps) (simp add: digits_value_def)
  next
    case False
    then show ?thesis using 1 by (subst dec.simps) (simp add: digits_value_snoc)
  qed
qed

lemma dec_inj: "dec m = dec n \<longleftrightarrow> m = n"
  by (metis digits_value_dec)

section \<open>JSON\<close>

text \<open>\<open>JSON.stringify\<close> of a text. It can be read back, and a text ends where it ends: no encoding goes on inside another.\<close>

definition hex_digit :: "nat \<Rightarrow> char" where
  "hex_digit n = char_of (if n < 10 then 48 + n else 87 + n)"

definition json_char :: "char \<Rightarrow> string" where
  "json_char c =
     (if c = CHR 0x22 then [bslash, c] else if c = bslash then [bslash, bslash]
      else if c = CHR 0x08 then bslash # ''b'' else if c = CHR 0x0C then bslash # ''f'' else if c = CHR 0x0A then bslash # ''n''
      else if c = CHR 0x0D then bslash # ''r'' else if c = CHR 0x09 then bslash # ''t''
      else if char_between 0 31 c then bslash # ''u00'' @ [hex_digit (of_char c div 16), hex_digit (of_char c mod 16)]
      else [c])"

definition json_string :: "string \<Rightarrow> string" where
  "json_string s = [CHR 0x22] @ concat (map json_char s) @ [CHR 0x22]"

definition json_unchar :: "string \<Rightarrow> char" where
  "json_unchar s =
     (case s of
        [c] \<Rightarrow> c
      | [_, c] \<Rightarrow> if c = CHR ''b'' then CHR 0x08 else if c = CHR ''f'' then CHR 0x0C else if c = CHR ''n'' then CHR 0x0A
                  else if c = CHR ''r'' then CHR 0x0D else if c = CHR ''t'' then CHR 0x09 else c
      | [_, _, _, _, a, b] \<Rightarrow>
          char_of ((if is_digit a then of_char a - 48 else of_char a - 87) * 16 + (if is_digit b then of_char b - 48 else of_char b - 87 :: nat))
      | _ \<Rightarrow> CHR 0x00)"

lemma hex_digit_value:
  "d < 16 \<Longrightarrow> (if is_digit (hex_digit d) then of_char (hex_digit d) - 48 else of_char (hex_digit d) - 87 :: nat) = d"
  by (simp add: hex_digit_def is_digit_def char_between_def Let_def)

lemma json_unchar [simp]: "json_unchar (json_char c) = c"
proof (cases "json_char c = bslash # ''u00'' @ [hex_digit (of_char c div 16), hex_digit (of_char c mod 16)] \<and> char_between 0 31 c")
  case True
  have "(of_char c :: nat) \<le> 31" using True by (simp add: char_between_def Let_def)
  then have "(of_char c :: nat) div 16 < 16" by linarith
  moreover have "(of_char c :: nat) mod 16 < 16" by simp
  ultimately show ?thesis using True by (simp add: json_unchar_def hex_digit_value del: One_nat_def)
next
  case False
  then show ?thesis by (auto simp: json_char_def json_unchar_def split: if_splits)
qed

text \<open>The length of an encoding shows in its first two characters.\<close>

definition json_length :: "string \<Rightarrow> nat" where
  "json_length s = (case s of a # b # _ \<Rightarrow> if a \<noteq> bslash then 1 else if b = CHR ''u'' then 6 else 2 | _ \<Rightarrow> 1)"

lemma json_char_shape: "json_char c \<noteq> []" "hd (json_char c) \<noteq> CHR 0x22"
  by (simp_all add: json_char_def)

lemma json_char_append: "json_length (json_char c @ x) = length (json_char c)"
  by (simp add: json_char_def json_length_def split: list.splits)

lemma json_char_prefix: "json_char c @ x = json_char d @ y \<Longrightarrow> c = d \<and> x = y"
proof -
  assume eq: "json_char c @ x = json_char d @ y"
  then have "length (json_char c) = length (json_char d)" using json_char_append [of c x] json_char_append [of d y] by simp
  then have "json_char c = json_char d" "x = y" using eq by auto
  then show ?thesis by (metis json_unchar)
qed

lemma json_string_prefix: "json_string s @ x = json_string t @ y \<Longrightarrow> s = t \<and> x = y"
proof -
  have quote: "json_char c @ a \<noteq> CHR 0x22 # b" for c a b
    using json_char_shape [of c] by (cases "json_char c") auto
  have "concat (map json_char s) @ CHR 0x22 # x = concat (map json_char t) @ CHR 0x22 # y \<Longrightarrow> s = t \<and> x = y"
  proof (induction s arbitrary: t)
    case Nil
    then show ?case using quote by (cases t) (auto, metis)
  next
    case (Cons c s)
    then obtain d t' where t: "t = d # t'" using quote by (cases t) auto
    then have "c = d \<and> concat (map json_char s) @ CHR 0x22 # x = concat (map json_char t') @ CHR 0x22 # y"
      using Cons.prems by (intro json_char_prefix) simp
    then show ?case using Cons.IH t by auto
  qed
  then show "json_string s @ x = json_string t @ y \<Longrightarrow> s = t \<and> x = y" by (simp add: json_string_def)
qed

text \<open>A number ends at the first character that is no digit.\<close>

lemma dec_prefix:
  assumes "dec m @ a # x = dec n @ b # y" "\<not> is_digit a" "\<not> is_digit b"
  shows "m = n \<and> a # x = b # y"
proof -
  have "takeWhile is_digit (dec k @ c # z) = dec k" if "\<not> is_digit c" for k c z
    using that dec_digits [of k] by (simp add: list_all_iff takeWhile_append2)
  then have "dec m = dec n" using assms by metis
  then show ?thesis using assms(1) by (simp add: dec_inj)
qed

end
