(* ===== verification/Host_Paths.thy ===== *)
theory Host_Paths
  imports JS_Strings
begin

text \<open>
  The paths a client may name on a host, and the one form each takes: \<^verbatim>\<open>packages/hub/src/files/host-paths.ts\<close>. The regular
  expressions are written out as the predicates they test.
\<close>

section \<open>Forms\<close>

datatype PathStyle = Posix | Windows
datatype HostOs = OsLinux | OsDarwin | OsWindows

definition pathStyleOf :: "HostOs \<Rightarrow> PathStyle" where
  "pathStyleOf os = (if os = OsWindows then Windows else Posix)"

datatype NormalisedPath = PathOk string | PathRefused string

definition WINDOWS_ROOT :: string where
  "WINDOWS_ROOT = ''/''"

definition is_alpha :: "char \<Rightarrow> bool" where
  "is_alpha c = (is_upper c \<or> is_lower c)"

definition var_start :: "char \<Rightarrow> bool" where
  "var_start c = (is_alpha c \<or> c = CHR ''_'')"

definition var_char :: "char \<Rightarrow> bool" where
  "var_char c = (is_alpha c \<or> is_digit c \<or> c \<in> set ''_().-'')"

text \<open>A variable starts here: a percent sign, a name, a percent sign.\<close>

definition var_at :: "string \<Rightarrow> bool" where
  "var_at s =
     (case s of
        a # b # r \<Rightarrow> a = CHR ''%'' \<and> var_start b \<and> (case dropWhile var_char r of e # _ \<Rightarrow> e = CHR ''%'' | [] \<Rightarrow> False)
      | _ \<Rightarrow> False)"

fun WINDOWS_VARIABLE :: "string \<Rightarrow> bool" where
  "WINDOWS_VARIABLE [] = False"
| "WINDOWS_VARIABLE (c # cs) = (var_at (c # cs) \<or> WINDOWS_VARIABLE cs)"

definition is_control :: "char \<Rightarrow> bool" where
  "is_control c = (char_between 0 31 c \<or> char_between 127 159 c)"

definition WINDOWS_FORBIDDEN :: "string \<Rightarrow> bool" where
  "WINDOWS_FORBIDDEN s = list_ex (\<lambda>c. c \<in> set ''\"<>|?*'' \<or> is_control c) s"

definition withoutDotSegments :: "string list \<Rightarrow> NormalisedPath option" where
  "withoutDotSegments segs =
     (if list_ex (\<lambda>seg. seg = ''.'' \<or> seg = ''..'') segs
      then Some (PathRefused ''the path has a . or .. segment: name the folder itself'') else None)"

definition nonempty :: "string list \<Rightarrow> string list" where
  "nonempty segs = filter (\<lambda>seg. seg \<noteq> []) segs"

definition normalisePosixPath :: "string \<Rightarrow> NormalisedPath" where
  "normalisePosixPath path =
     (if \<not> starts_with [slash] path then
        (if starts_with ''~'' path then PathRefused ''a path starting with ~ is not expanded: give the home folder's absolute path''
         else if starts_with ''$'' path then PathRefused ''environment variables are not expanded: give the absolute path''
         else PathRefused ''the path is not absolute'')
      else let segs = nonempty (split_on slash path) in
        case withoutDotSegments segs of
          Some r \<Rightarrow> r
        | None \<Rightarrow> PathOk (slash # join [slash] segs))"

definition to_bslash :: "string \<Rightarrow> string" where
  "to_bslash s = map (\<lambda>c. if c = slash then bslash else c) s"

text \<open>The two spellings of Windows SFTP servers, brought back to Windows' own.\<close>

definition drive_after_slash :: "string \<Rightarrow> bool" where
  "drive_after_slash path =
     (case path of b # l # c # r \<Rightarrow> b = bslash \<and> is_alpha l \<and> c = CHR '':'' \<and> (case r of [] \<Rightarrow> True | d # _ \<Rightarrow> d = bslash) | _ \<Rightarrow> False)"

definition unc_slashes :: "string \<Rightarrow> bool" where
  "unc_slashes path = (length (takeWhile (\<lambda>c. c = bslash) path) \<ge> 3 \<and> dropWhile (\<lambda>c. c = bslash) path \<noteq> [])"

definition from_sftp :: "string \<Rightarrow> string" where
  "from_sftp path =
     (let path = (if drive_after_slash path then tl path else path)
      in if unc_slashes path then bslash # bslash # dropWhile (\<lambda>c. c = bslash) path else path)"

definition give_absolute :: string where
  "give_absolute = '': give C:'' @ [bslash] @ ellipsis @ '' or '' @ [bslash, bslash] @ ''server'' @ [bslash] @ ''share'' @ [bslash] @ ellipsis"

text \<open>The root of a path and the rest: a drive's, or a share's.\<close>

definition windows_root :: "string \<Rightarrow> string + string \<times> string" where
  "windows_root path =
     (case path of
        l # c # after \<Rightarrow>
          if is_alpha l \<and> c = CHR '':'' then
            (if after \<noteq> [] \<and> \<not> starts_with [bslash] after
             then Inl (''a drive-relative path (C:name) names no folder: give C:'' @ [bslash] @ ''name'')
             else Inr (upper [l] @ [CHR '':'', bslash], after))
          else if l = bslash \<and> c = bslash then
            (let parts = split_on bslash after;
                 server = (case parts of p # _ \<Rightarrow> p | [] \<Rightarrow> []);
                 share = (case parts of _ # p # _ \<Rightarrow> p | _ \<Rightarrow> [])
             in if server = ''?'' \<or> server = ''.'' then Inl (''device paths ('' @ [bslash, bslash] @ ''?'' @ [bslash] @ '', '' @ [bslash, bslash] @ ''.'' @ [bslash] @ '') are not browsed'')
                else if server = [] \<or> share = [] then Inl (''a UNC path names a server and a share: '' @ [bslash, bslash] @ ''server'' @ [bslash] @ ''share'')
                else Inr ([bslash, bslash] @ server @ [bslash] @ share, join [bslash] (drop 2 parts)))
          else if l = bslash then Inl (''the path names no drive'' @ give_absolute)
          else Inl (''the path is not absolute'' @ give_absolute)
      | _ \<Rightarrow> if path = [bslash] then Inl (''the path names no drive'' @ give_absolute) else Inl (''the path is not absolute'' @ give_absolute))"

definition normaliseWindowsPath :: "string \<Rightarrow> NormalisedPath" where
  "normaliseWindowsPath input =
     (if WINDOWS_VARIABLE input then PathRefused ''the path names an environment variable (%NAME%), which is not expanded: give the folder it stands for''
      else let path = to_bslash input in
        if path \<noteq> [] \<and> list_all (\<lambda>c. c = bslash) path then PathOk WINDOWS_ROOT
        else case windows_root (from_sftp path) of
          Inl reason \<Rightarrow> PathRefused reason
        | Inr (root, rest) \<Rightarrow>
            (let segs = nonempty (split_on bslash rest);
                 rootSegs = split_on bslash (drop 2 root);
                 named = (if starts_with [bslash, bslash] root then rootSegs else []) @ segs
             in case withoutDotSegments (rootSegs @ segs) of
                  Some r \<Rightarrow> r
                | None \<Rightarrow>
                    if list_ex (\<lambda>seg. WINDOWS_FORBIDDEN seg \<or> CHR '':'' \<in> set seg) named
                    then PathRefused (''the path holds a character no Windows name may: '' @ [CHR 0x22] @ '' < > | ? * : or a control character'')
                    else if segs = [] then PathOk root
                    else PathOk (root @ (if ends_with [bslash] root then [] else [bslash]) @ join [bslash] segs)))"

definition normaliseHostPath :: "string \<Rightarrow> PathStyle \<Rightarrow> NormalisedPath" where
  "normaliseHostPath path style =
     (if path = [] then PathRefused ''the path is empty''
      else if CHR 0x00 \<in> set path then PathRefused ''the path holds a NUL character''
      else if style = Windows then normaliseWindowsPath path else normalisePosixPath path)"

section \<open>Moving about\<close>

definition joinHostPath :: "string \<Rightarrow> string \<Rightarrow> PathStyle \<Rightarrow> string" where
  "joinHostPath dir name style =
     (if style = Posix then (if dir = [slash] then slash # name else dir @ slash # name)
      else if dir = WINDOWS_ROOT
      then upper (rev (dropWhile (\<lambda>c. c = CHR '':'' \<or> c = bslash) (rev name))) @ [CHR '':'', bslash]
      else dir @ (if ends_with [bslash] dir then [] else [bslash]) @ name)"

definition drive_root :: "string \<Rightarrow> bool" where
  "drive_root path = (case path of [l, c, b] \<Rightarrow> is_upper l \<and> c = CHR '':'' \<and> b = bslash | _ \<Rightarrow> False)"

definition share_root :: "string \<Rightarrow> bool" where
  "share_root path =
     (case path of
        a # b # r \<Rightarrow> a = bslash \<and> b = bslash \<and> (case split_on bslash r of [server, share] \<Rightarrow> server \<noteq> [] \<and> share \<noteq> [] | _ \<Rightarrow> False)
      | _ \<Rightarrow> False)"

definition after_last :: "char \<Rightarrow> string \<Rightarrow> string" where
  "after_last c path = (case lastIndexOf c path of None \<Rightarrow> path | Some i \<Rightarrow> drop (Suc i) path)"

text \<open>\<open>slice(0, -1)\<close> when there is no separator.\<close>

definition before_last :: "char \<Rightarrow> string \<Rightarrow> string" where
  "before_last c path = (case lastIndexOf c path of None \<Rightarrow> butlast path | Some i \<Rightarrow> take i path)"

definition baseNameOf :: "string \<Rightarrow> PathStyle \<Rightarrow> string" where
  "baseNameOf path style =
     (if style = Posix then (if path = [slash] then [slash] else after_last slash path)
      else if path = WINDOWS_ROOT then WINDOWS_ROOT
      else if drive_root path then take 2 path
      else after_last bslash path)"

definition parentOf :: "string \<Rightarrow> PathStyle \<Rightarrow> string option" where
  "parentOf path style =
     (if style = Posix then
        (if path = [slash] then None
         else if lastIndexOf slash path = Some 0 then Some [slash] else Some (before_last slash path))
      else if path = WINDOWS_ROOT then None
      else if drive_root path then Some WINDOWS_ROOT
      else if share_root path then None
      else let parent = before_last bslash path
        in Some (case parent of [l, c] \<Rightarrow> if is_upper l \<and> c = CHR '':'' then parent @ [bslash] else parent | _ \<Rightarrow> parent))"

section \<open>Posix paths\<close>

definition posix_form :: "string list \<Rightarrow> string" where
  "posix_form segs = slash # join [slash] segs"

definition posix_segs :: "string list \<Rightarrow> bool" where
  "posix_segs segs \<longleftrightarrow> (\<forall>seg \<in> set segs. seg \<noteq> [] \<and> slash \<notin> set seg \<and> seg \<noteq> ''.'' \<and> seg \<noteq> ''..'')"

lemma withoutDotSegments_None: "withoutDotSegments segs = None \<longleftrightarrow> (\<forall>seg \<in> set segs. seg \<noteq> ''.'' \<and> seg \<noteq> ''..'')"
  by (auto simp: withoutDotSegments_def list_ex_iff)

lemma withoutDotSegments_Some: "withoutDotSegments segs = Some r \<Longrightarrow> \<exists>why. r = PathRefused why"
  by (auto simp: withoutDotSegments_def split: if_splits)

lemma posix_accepted:
  "normalisePosixPath p = PathOk q \<Longrightarrow> \<exists>segs. posix_segs segs \<and> q = posix_form segs \<and> segs = nonempty (split_on slash p)"
  by (auto simp: normalisePosixPath_def Let_def posix_form_def posix_segs_def withoutDotSegments_None nonempty_def
      dest: withoutDotSegments_Some split_on_pieces split: if_splits option.splits)

lemma posix_form_split: "posix_segs segs \<Longrightarrow> nonempty (split_on slash (posix_form segs)) = segs"
proof (cases segs)
  case (Cons s ss)
  assume ok: "posix_segs segs"
  then have "split_on slash (join [slash] segs) = segs" using Cons by (intro split_join) (auto simp: posix_segs_def)
  then show ?thesis using ok by (auto simp: posix_form_def nonempty_def posix_segs_def filter_id_conv)
qed (simp add: posix_form_def nonempty_def)

lemma posix_form_normal: "posix_segs segs \<Longrightarrow> normalisePosixPath (posix_form segs) = PathOk (posix_form segs)"
proof -
  assume ok: "posix_segs segs"
  have "withoutDotSegments segs = None" using ok by (auto simp: withoutDotSegments_None posix_segs_def)
  moreover have "starts_with [slash] (posix_form segs)" by (simp add: posix_form_def starts_with_def)
  ultimately show ?thesis by (simp add: normalisePosixPath_def posix_form_split [OF ok] Let_def) (simp add: posix_form_def)
qed

lemma join_snoc: "segs \<noteq> [] \<Longrightarrow> join s (segs @ [x]) = join s segs @ s @ x"
  by (induction s segs rule: join.induct) auto

lemma posix_form_snoc: "posix_form (segs @ [x]) = (if segs = [] then slash # x else posix_form segs @ slash # x)"
  by (simp add: posix_form_def join_snoc)

lemma last_cut: "c \<notin> set x \<Longrightarrow> lastIndexOf c (p @ c # x) = Some (length p)"
  by (rule lastIndexOf_append)

lemma posix_form_root:
  assumes "posix_segs segs"
  shows "posix_form segs = [slash] \<longleftrightarrow> segs = []"
proof (cases segs rule: rev_cases)
  case (snoc segs' x)
  then have "x \<noteq> []" using assms by (simp add: posix_segs_def)
  then have "1 < length (posix_form segs)" by (cases "segs' = []") (simp_all add: snoc posix_form_def join_snoc)
  then show ?thesis by (auto simp: snoc)
qed (simp add: posix_form_def)

lemma posix_moves:
  assumes "posix_segs (segs @ [x])"
  shows "parentOf (posix_form (segs @ [x])) Posix = Some (posix_form segs)"
    and "baseNameOf (posix_form (segs @ [x])) Posix = x"
    and "joinHostPath (posix_form segs) x Posix = posix_form (segs @ [x])"
proof -
  have x: "x \<noteq> []" "slash \<notin> set x" using assms by (auto simp: posix_segs_def)
  have l: "lastIndexOf slash (posix_form (segs @ [x])) = Some (if segs = [] then 0 else length (posix_form segs))"
    using last_cut [OF x(2), of "[]"] last_cut [OF x(2), of "posix_form segs"] by (simp add: posix_form_snoc)
  have ne: "posix_form (segs @ [x]) \<noteq> [slash]" using posix_form_root [OF assms] by simp
  have pos: "posix_form segs \<noteq> []" by (simp add: posix_form_def)
  show "parentOf (posix_form (segs @ [x])) Posix = Some (posix_form segs)"
    using l ne pos by (cases "segs = []") (simp_all add: parentOf_def before_last_def posix_form_snoc, simp add: posix_form_def)
  show "baseNameOf (posix_form (segs @ [x])) Posix = x"
    using l ne by (cases "segs = []") (simp_all add: baseNameOf_def after_last_def posix_form_snoc, simp add: posix_form_def)
  have "posix_segs segs" using assms by (simp add: posix_segs_def)
  then show "joinHostPath (posix_form segs) x Posix = posix_form (segs @ [x])"
    by (simp add: joinHostPath_def posix_form_snoc posix_form_root)
qed

section \<open>Windows paths\<close>

text \<open>No variable spans a separator, so a path holds one exactly when one of its names does.\<close>

lemma var_chars: "\<not> var_char bslash" "\<not> var_char slash" "\<not> var_start bslash" "\<not> var_start slash"
  by (simp_all add: var_char_def var_start_def is_alpha_def is_upper_def is_lower_def is_digit_def char_between_def)

lemma closes_cut:
  "(case dropWhile var_char (hd (split_on bslash r)) of e # _ \<Rightarrow> e = CHR ''%'' | [] \<Rightarrow> False)
   = (case dropWhile var_char r of e # _ \<Rightarrow> e = CHR ''%'' | [] \<Rightarrow> False)"
proof (induction r)
  case (Cons x r)
  obtain p ps where "split_on bslash r = p # ps" by (cases "split_on bslash r") auto
  with Cons show ?case using var_chars(1) by (cases "x = bslash") auto
qed simp

lemma var_at_cut: "var_at (hd (split_on bslash s)) = var_at s"
proof (cases s)
  case (Cons a s1)
  obtain p ps where p: "split_on bslash s1 = p # ps" by (cases "split_on bslash s1") auto
  show ?thesis
  proof (cases s1)
    case Nil
    then show ?thesis by (auto simp: Cons var_at_def)
  next
    case s1: (Cons b r)
    obtain q qs where q: "split_on bslash r = q # qs" by (cases "split_on bslash r") auto
    show ?thesis using closes_cut [of r] var_chars
      by (cases "a = bslash"; cases "b = bslash") (auto simp: Cons s1 var_at_def q)
  qed
qed (simp add: var_at_def)

lemma variable_cut: "WINDOWS_VARIABLE s \<longleftrightarrow> (\<exists>p \<in> set (split_on bslash s). WINDOWS_VARIABLE p)"
proof (induction s)
  case (Cons x s)
  obtain p ps where p: "split_on bslash s = p # ps" by (cases "split_on bslash s") auto
  show ?case
  proof (cases "x = bslash")
    case True
    have "\<not> var_at (x # s)" using True by (auto simp: var_at_def split: list.splits)
    then show ?thesis using Cons True by simp
  next
    case False
    have "var_at (x # s) = var_at (x # p)" using var_at_cut [of "x # s"] False by (simp add: p)
    then show ?thesis using Cons False by (auto simp: p)
  qed
qed simp

lemma closes_map:
  "(case dropWhile var_char (to_bslash r) of e # _ \<Rightarrow> e = CHR ''%'' | [] \<Rightarrow> False)
   = (case dropWhile var_char r of e # _ \<Rightarrow> e = CHR ''%'' | [] \<Rightarrow> False)"
  by (induction r) (auto simp: to_bslash_def var_chars)

lemma variable_to_bslash: "WINDOWS_VARIABLE (to_bslash s) = WINDOWS_VARIABLE s"
proof (induction s)
  case (Cons x s)
  have "var_at (to_bslash (x # s)) = var_at (x # s)"
    using closes_map [of "tl s"] var_chars by (cases s) (auto simp: var_at_def to_bslash_def)
  then show ?case using Cons by (simp add: to_bslash_def)
qed (simp add: to_bslash_def)

text \<open>The three forms of an accepted path.\<close>

definition win_name :: "string \<Rightarrow> bool" where
  "win_name n \<longleftrightarrow> n \<noteq> [] \<and> bslash \<notin> set n \<and> slash \<notin> set n \<and> n \<noteq> ''.'' \<and> n \<noteq> ''..'' \<and> \<not> WINDOWS_FORBIDDEN n \<and> CHR '':'' \<notin> set n
     \<and> \<not> WINDOWS_VARIABLE n"

definition drive_form :: "char \<Rightarrow> string list \<Rightarrow> string" where
  "drive_form l segs = [l, CHR '':'', bslash] @ join [bslash] segs"

definition share_form :: "string \<Rightarrow> string \<Rightarrow> string list \<Rightarrow> string" where
  "share_form server share segs = [bslash, bslash] @ join [bslash] (server # share # segs)"

inductive windows_form :: "string \<Rightarrow> bool" where
  root: "windows_form WINDOWS_ROOT"
| drive: "is_upper l \<Longrightarrow> \<forall>n \<in> set segs. win_name n \<Longrightarrow> windows_form (drive_form l segs)"
| share: "win_name server \<Longrightarrow> win_name share \<Longrightarrow> \<forall>n \<in> set segs. win_name n \<Longrightarrow> windows_form (share_form server share segs)"


text \<open>What a text without variables and slashes keeps when it is cut.\<close>

definition plain_text :: "string \<Rightarrow> bool" where
  "plain_text s \<longleftrightarrow> slash \<notin> set s \<and> \<not> WINDOWS_VARIABLE s"

lemma split_on_chars: "p \<in> set (split_on c s) \<Longrightarrow> set p \<subseteq> set s"
  by (induction s arbitrary: p) (auto split: if_splits list.splits, fastforce+)

lemma plain_text_split: "plain_text s \<Longrightarrow> p \<in> set (split_on bslash s) \<Longrightarrow> plain_text p \<and> bslash \<notin> set p"
  using variable_cut [of s] by (auto simp: plain_text_def dest: split_on_pieces subsetD [OF split_on_chars])

lemma variable_suffix: "WINDOWS_VARIABLE t \<Longrightarrow> WINDOWS_VARIABLE (s @ t)"
  by (induction s) auto

lemma plain_text_suffix: "plain_text (s @ t) \<Longrightarrow> plain_text t"
  by (auto simp: plain_text_def dest: variable_suffix)

lemma plain_text_bslash [simp]: "plain_text (bslash # s) = plain_text s"
  by (auto simp: plain_text_def var_at_def split: list.splits)

lemma plain_text_from_sftp: "plain_text path \<Longrightarrow> plain_text (from_sftp path)"
proof -
  have drop: "plain_text (dropWhile (\<lambda>c. c = bslash) s)" if "plain_text s" for s
    using that plain_text_suffix by (metis takeWhile_dropWhile_id)
  have "plain_text (tl path)" if "plain_text path" using that by (cases path) (auto simp: plain_text_def)
  then show "plain_text path \<Longrightarrow> plain_text (from_sftp path)" by (simp add: from_sftp_def Let_def drop)
qed

lemma upper_alpha: "is_alpha l \<Longrightarrow> upper [l] = [u] \<Longrightarrow> is_upper u"
  by (auto simp: upper_def is_alpha_def is_lower_def is_upper_def char_between_def to_upper_def Let_def split: if_splits)

lemma nonempty_split_join: "\<forall>p \<in> set ps. bslash \<notin> set p \<Longrightarrow> nonempty (split_on bslash (join [bslash] ps)) = nonempty ps"
  by (cases "ps = []") (simp_all add: split_join nonempty_def)

text \<open>An accepted path has one of the three forms.\<close>

lemma windows_root_cases:
  assumes "windows_root path = Inr (root, rest)" "plain_text path"
  obtains (drive) u where "is_upper u" "root = [u, CHR '':'', bslash]" "plain_text rest"
  | (share) server share ps where "server \<noteq> []" "share \<noteq> []" "root = [bslash, bslash] @ server @ [bslash] @ share"
      "rest = join [bslash] ps" "\<forall>p \<in> set (server # share # ps). plain_text p \<and> bslash \<notin> set p"
proof -
  obtain l c after where path: "path = l # c # after"
    using assms(1) by (cases path rule: remdups_adj.cases) (auto simp: windows_root_def split: if_splits)
  have plain: "plain_text after" using assms(2) plain_text_suffix [of "[l, c]" after] by (simp add: path)
  show thesis
  proof (cases "is_alpha l \<and> c = CHR '':''")
    case True
    then have "root = upper [l] @ [CHR '':'', bslash]" "rest = after"
      using assms(1) by (auto simp: windows_root_def path split: if_splits)
    then show thesis using upper_alpha [of l "hd (upper [l])"] True plain by (intro drive [of "hd (upper [l])"]) (auto simp: upper_def)
  next
    case False
    then have b: "l = bslash" "c = bslash" using assms(1) by (auto simp: windows_root_def path split: if_splits)
    obtain server share ps where parts: "split_on bslash after = server # share # ps" "server \<noteq> []" "share \<noteq> []"
      using assms(1) False b
      by (cases "split_on bslash after" rule: remdups_adj.cases) (auto simp: windows_root_def path Let_def split: if_splits)
    show thesis
      using assms(1) False b parts plain_text_split [OF plain]
      by (intro share [of server share ps]) (auto simp: windows_root_def path Let_def split: if_splits)
  qed
qed


lemma windows_accepted:
  assumes "normaliseWindowsPath p = PathOk q"
  shows "windows_form q"
proof (cases "to_bslash p \<noteq> [] \<and> list_all (\<lambda>c. c = bslash) (to_bslash p)")
  case True
  then have "q = WINDOWS_ROOT" using assms by (simp add: normaliseWindowsPath_def Let_def split: if_splits)
  then show ?thesis by (simp add: windows_form.root)
next
  case False
  let ?path = "from_sftp (to_bslash p)"
  have "plain_text (to_bslash p)"
    using assms variable_to_bslash [of p] by (auto simp: plain_text_def to_bslash_def normaliseWindowsPath_def split: if_splits)
  then have plain: "plain_text ?path" by (rule plain_text_from_sftp)
  obtain root rest where root: "windows_root ?path = Inr (root, rest)"
    using assms False by (auto simp: normaliseWindowsPath_def Let_def split: if_splits sum.splits)
  define segs where "segs = nonempty (split_on bslash rest)"
  define rootSegs where "rootSegs = split_on bslash (drop 2 root)"
  have nodots: "\<forall>seg \<in> set (rootSegs @ segs). seg \<noteq> ''.'' \<and> seg \<noteq> ''..''"
    and names: "\<forall>seg \<in> set ((if starts_with [bslash, bslash] root then rootSegs else []) @ segs). \<not> WINDOWS_FORBIDDEN seg \<and> CHR '':'' \<notin> set seg"
    and q: "q = root @ (if segs = [] then [] else (if ends_with [bslash] root then [] else [bslash]) @ join [bslash] segs)"
    using assms False withoutDotSegments_None [of "rootSegs @ segs"]
    by (auto simp: normaliseWindowsPath_def Let_def root list_ex_iff simp flip: segs_def rootSegs_def
        dest: withoutDotSegments_Some split: if_splits option.splits)
  from root plain show ?thesis
  proof (cases rule: windows_root_cases)
    case (drive u)
    have "\<forall>n \<in> set segs. win_name n"
      using nodots names plain_text_split [OF drive(3)] by (auto simp: win_name_def segs_def nonempty_def plain_text_def)
    moreover have "q = drive_form u segs" by (simp add: q drive(2) drive_form_def ends_with_def starts_with_def)
    ultimately show ?thesis using drive(1) by (simp add: windows_form.drive)
  next
    case (share server share ps)
    have b: "bslash \<notin> set server" "bslash \<notin> set share" "\<forall>p \<in> set ps. bslash \<notin> set p" using share(5) by auto
    have rs: "rootSegs = [server, share]" by (simp add: rootSegs_def share(3) split_on_append split_on_none b)
    have segs: "segs = nonempty ps" using nonempty_split_join [OF b(3)] by (simp add: segs_def share(4))
    have u: "starts_with [bslash, bslash] root" by (simp add: share(3) starts_with_def)
    have "\<forall>n \<in> set (server # share # segs). win_name n"
      using nodots names share(1,2,5) by (auto simp: win_name_def u rs segs nonempty_def plain_text_def)
    moreover have "\<not> ends_with [bslash] root"
      using share(2) b(2) by (cases share rule: rev_cases) (auto simp: share(3) ends_with_def starts_with_def)
    then have "q = share_form server share segs"
      by (simp add: q share(3) share_form_def join_Cons)
    ultimately show ?thesis by (simp add: windows_form.share)
  qed
qed

lemma join_chars: "set (join s ps) \<subseteq> set s \<union> (\<Union>p \<in> set ps. set p)"
  by (induction s ps rule: join.induct) auto

text \<open>Each form is its own normal form.\<close>

lemma win_name_parts:
  "win_name n \<Longrightarrow> n \<noteq> [] \<and> bslash \<notin> set n \<and> slash \<notin> set n \<and> n \<noteq> ''.'' \<and> n \<noteq> ''..'' \<and> \<not> WINDOWS_FORBIDDEN n \<and> CHR '':'' \<notin> set n \<and> plain_text n"
  by (auto simp: win_name_def plain_text_def)

lemma plain_text_join:
  "\<forall>p \<in> set ps. bslash \<notin> set p \<and> plain_text p \<Longrightarrow> plain_text (join [bslash] ps)"
proof (cases "ps = []")
  case False
  moreover assume "\<forall>p \<in> set ps. bslash \<notin> set p \<and> plain_text p"
  ultimately show ?thesis using variable_cut [of "join [bslash] ps"] split_join [of ps bslash]
    by (auto simp: plain_text_def dest: subsetD [OF join_chars])
qed (simp add: plain_text_def)

lemma to_bslash_id: "slash \<notin> set s \<Longrightarrow> to_bslash s = s"
  by (induction s) (auto simp: to_bslash_def)

lemma nonempty_names: "\<forall>n \<in> set segs. win_name n \<Longrightarrow> nonempty (split_on bslash (join [bslash] segs)) = segs"
proof -
  assume names: "\<forall>n \<in> set segs. win_name n"
  then have "nonempty segs = segs" by (auto simp: nonempty_def filter_id_conv win_name_def)
  then show ?thesis using names nonempty_split_join [of segs] by (auto simp: win_name_def)
qed


lemma upper_not: "is_upper l \<Longrightarrow> l \<noteq> bslash \<and> l \<noteq> slash \<and> l \<noteq> CHR '':'' \<and> l \<noteq> CHR ''%'' \<and> l \<noteq> CHR 0x00 \<and> is_alpha l \<and> upper [l] = [l]"
  by (auto simp: is_upper_def is_alpha_def upper_def is_lower_def char_between_def Let_def)

lemma names_joined:
  assumes "\<forall>n \<in> set segs. win_name n"
  shows "plain_text (join [bslash] segs)" and "withoutDotSegments segs = None"
    and "\<not> list_ex (\<lambda>seg. WINDOWS_FORBIDDEN seg \<or> CHR '':'' \<in> set seg) segs"
  using assms by (auto intro!: plain_text_join simp: withoutDotSegments_None list_ex_iff dest: win_name_parts)

lemma drive_form_normal:
  assumes l: "is_upper l" and names: "\<forall>n \<in> set segs. win_name n"
  shows "normaliseWindowsPath (drive_form l segs) = PathOk (drive_form l segs)"
proof -
  let ?p = "drive_form l segs"
  have plain: "plain_text ?p" using names_joined(1) [OF names] upper_not [OF l]
    by (auto simp: drive_form_def plain_text_def var_at_def split: list.splits)
  have sftp: "from_sftp ?p = ?p" using upper_not [OF l]
    by (simp add: from_sftp_def drive_after_slash_def unc_slashes_def drive_form_def)
  have root: "windows_root ?p = Inr ([l, CHR '':'', bslash], bslash # join [bslash] segs)" using upper_not [OF l]
    by (simp add: windows_root_def drive_form_def starts_with_def)
  have segs: "nonempty (split_on bslash (bslash # join [bslash] segs)) = segs"
    using nonempty_names [OF names] by (simp add: nonempty_def)
  have dots: "withoutDotSegments ([[], []] @ segs) = None" using names_joined(2) [OF names] by (simp add: withoutDotSegments_None)
  show ?thesis
    using plain sftp root segs dots names_joined(3) [OF names] upper_not [OF l]
    by (simp add: normaliseWindowsPath_def to_bslash_id plain_text_def Let_def starts_with_def ends_with_def)
      (simp add: drive_form_def)
qed

lemma share_form_normal:
  assumes names: "\<forall>n \<in> set (server # share # segs). win_name n"
  shows "normaliseWindowsPath (share_form server share segs) = PathOk (share_form server share segs)"
proof -
  let ?p = "share_form server share segs" and ?root = "[bslash, bslash] @ server @ [bslash] @ share"
  have ss: "server \<noteq> []" "share \<noteq> []" "bslash \<notin> set server" "bslash \<notin> set share" "server \<noteq> ''.''"
    using names by (simp_all add: win_name_def)
  have "WINDOWS_FORBIDDEN ''?''" by (simp add: WINDOWS_FORBIDDEN_def)
  then have q: "server \<noteq> ''?''" using names by (auto dest: win_name_parts)
  obtain a server' where a: "server = a # server'" "a \<noteq> bslash" using ss(1,3) by (cases server) auto
  have plain: "plain_text ?p" using names_joined(1) [OF names] by (simp add: share_form_def)
  have r: "?p = bslash # bslash # a # server' @ bslash # join [bslash] (share # segs)" by (simp add: share_form_def join_Cons a(1))
  have sftp: "from_sftp ?p = ?p" using a(2) var_chars(3) unfolding r
    by (simp add: from_sftp_def drive_after_slash_def unc_slashes_def var_start_def)
  have parts: "split_on bslash (join [bslash] (server # share # segs)) = server # share # segs"
    using names by (intro split_join) (auto simp: win_name_def)
  have root: "windows_root ?p = Inr (?root, join [bslash] segs)" using ss q parts
    by (simp add: windows_root_def share_form_def is_alpha_def is_upper_def is_lower_def char_between_def Let_def)
  have segs: "nonempty (split_on bslash (join [bslash] segs)) = segs" using names by (intro nonempty_names) auto
  have rs: "split_on bslash (server @ bslash # share) = [server, share]" using ss by (simp add: split_on_append split_on_none)
  have dots: "withoutDotSegments ([server, share] @ segs) = None" using names_joined(2) [OF names] by simp
  have ends: "\<not> ends_with [bslash] ?root" using ss(2,4) by (cases share rule: rev_cases) (auto simp: ends_with_def starts_with_def)
  show ?thesis
    using plain sftp root segs dots rs names_joined(3) [OF names] ends ss a
    by (simp add: normaliseWindowsPath_def to_bslash_id plain_text_def Let_def starts_with_def)
      (simp add: share_form_def join_Cons)
qed

lemma windows_form_normal: "windows_form p \<Longrightarrow> normaliseWindowsPath p = PathOk p"
proof (induction rule: windows_form.induct)
  case root
  then show ?case by (simp add: normaliseWindowsPath_def WINDOWS_ROOT_def to_bslash_def var_at_def)
next
  case (share server share segs)
  then show ?case by (intro share_form_normal) simp
qed (rule drive_form_normal)


text \<open>Moving up and down between the forms.\<close>

lemma drive_form_snoc: "drive_form l (segs @ [x]) = drive_form l segs @ (if segs = [] then [] else [bslash]) @ x"
  by (simp add: drive_form_def join_snoc)

lemma share_form_snoc: "share_form server share (segs @ [x]) = share_form server share segs @ bslash # x"
  using join_snoc [of "server # share # segs" "[bslash]" x] by (simp add: share_form_def)

lemma drive_form_ends:
  assumes "\<forall>n \<in> set segs. win_name n"
  shows "ends_with [bslash] (drive_form l segs) \<longleftrightarrow> segs = []"
proof (cases segs rule: rev_cases)
  case (snoc segs' x)
  then have "x \<noteq> [] \<and> bslash \<notin> set x" using assms by (simp add: win_name_def)
  then show ?thesis by (cases x rule: rev_cases) (auto simp: snoc drive_form_snoc ends_with_def starts_with_def)
qed (simp add: drive_form_def ends_with_def starts_with_def)

lemma share_form_ends:
  assumes "\<forall>n \<in> set (share # segs). win_name n"
  shows "\<not> ends_with [bslash] (share_form server share segs)"
proof -
  obtain a x where x: "share_form server share segs = a @ bslash # x" "win_name x"
  proof (cases segs rule: rev_cases)
    case Nil
    then show ?thesis using assms that [of "bslash # bslash # server" share] by (simp add: share_form_def)
  next
    case (snoc segs' y)
    then show ?thesis using assms that [of "share_form server share segs'" y] by (simp add: share_form_snoc)
  qed
  then show ?thesis by (cases x rule: rev_cases) (auto simp: win_name_def ends_with_def starts_with_def)
qed

lemma drive_root_moves:
  assumes "is_upper l"
  shows "parentOf (drive_form l []) Windows = Some WINDOWS_ROOT" "baseNameOf (drive_form l []) Windows = [l, CHR '':'']"
    and "joinHostPath WINDOWS_ROOT [l, CHR '':''] Windows = drive_form l []"
  using assms upper_not [OF assms]
  by (simp_all add: parentOf_def baseNameOf_def joinHostPath_def drive_form_def drive_root_def WINDOWS_ROOT_def is_upper_def char_between_def)

lemma drive_moves:
  assumes l: "is_upper l" and names: "\<forall>n \<in> set (segs @ [x]). win_name n"
  shows "parentOf (drive_form l (segs @ [x])) Windows = Some (drive_form l segs)"
    and "baseNameOf (drive_form l (segs @ [x])) Windows = x"
    and "joinHostPath (drive_form l segs) x Windows = drive_form l (segs @ [x])"
proof -
  let ?p = "drive_form l (segs @ [x])"
  have x: "x \<noteq> []" "bslash \<notin> set x" using names by (auto simp: win_name_def)
  obtain y r where y: "?p = l # CHR '':'' # bslash # y # r"
    using x(1) by (cases "join [bslash] (segs @ [x])") (auto simp: drive_form_def join_snoc split: if_splits, cases "segs = []", auto simp: join_snoc)
  have not: "?p \<noteq> WINDOWS_ROOT" "\<not> drive_root ?p" "\<not> share_root ?p"
    using upper_not [OF l] unfolding y by (simp_all add: WINDOWS_ROOT_def drive_root_def share_root_def)
  have last: "lastIndexOf bslash ?p = Some (if segs = [] then 2 else length (drive_form l segs))"
    using last_cut [OF x(2), of "[l, CHR '':'']"] last_cut [OF x(2), of "drive_form l segs"] by (simp add: drive_form_snoc) (simp add: drive_form_def)
  show "parentOf ?p Windows = Some (drive_form l segs)"
    using not last l by (cases "segs = []") (simp_all add: parentOf_def before_last_def drive_form_snoc Let_def, simp_all add: drive_form_def)
  show "baseNameOf ?p Windows = x"
    using not last by (cases "segs = []") (simp_all add: baseNameOf_def after_last_def drive_form_snoc, simp add: drive_form_def)
  have "drive_form l segs \<noteq> WINDOWS_ROOT" by (simp add: drive_form_def WINDOWS_ROOT_def)
  then show "joinHostPath (drive_form l segs) x Windows = ?p"
    using drive_form_ends [of segs l] names by (simp add: joinHostPath_def drive_form_snoc)
qed

lemma share_moves:
  assumes names: "\<forall>n \<in> set (server # share # segs @ [x]). win_name n"
  shows "parentOf (share_form server share (segs @ [x])) Windows = Some (share_form server share segs)"
    and "baseNameOf (share_form server share (segs @ [x])) Windows = x"
    and "joinHostPath (share_form server share segs) x Windows = share_form server share (segs @ [x])"
proof -
  let ?p = "share_form server share (segs @ [x])"
  have x: "x \<noteq> []" "bslash \<notin> set x" using names by (auto simp: win_name_def)
  have "split_on bslash (join [bslash] (server # share # segs @ [x])) = server # share # segs @ [x]"
    using names by (intro split_join) (auto simp: win_name_def)
  then have not: "?p \<noteq> WINDOWS_ROOT" "\<not> drive_root ?p" "\<not> share_root ?p"
    by (simp_all add: WINDOWS_ROOT_def drive_root_def share_root_def share_form_def is_upper_def char_between_def split: list.splits)
  have last: "lastIndexOf bslash ?p = Some (length (share_form server share segs))"
    using last_cut [OF x(2)] by (simp add: share_form_snoc)
  have "\<not> (\<exists>a c. is_upper a \<and> share_form server share segs = [a, c])"
    by (auto simp: share_form_def is_upper_def char_between_def)
  then show "parentOf ?p Windows = Some (share_form server share segs)"
    using not last by (auto simp: parentOf_def before_last_def share_form_snoc Let_def split: list.splits)
  show "baseNameOf ?p Windows = x" using not last by (simp add: baseNameOf_def after_last_def share_form_snoc)
  have "share_form server share segs \<noteq> WINDOWS_ROOT" by (simp add: share_form_def WINDOWS_ROOT_def)
  then show "joinHostPath (share_form server share segs) x Windows = ?p"
    using share_form_ends [of share segs server] names by (simp add: joinHostPath_def share_form_snoc)
qed


section \<open>What a normalised path is\<close>

lemma windows_form_chars: "windows_form p \<Longrightarrow> p \<noteq> [] \<and> CHR 0x00 \<notin> set p"
proof (induction rule: windows_form.induct)
  have "WINDOWS_FORBIDDEN n" if "CHR 0x00 \<in> set n" for n
    unfolding WINDOWS_FORBIDDEN_def list_ex_iff by (rule bexI [OF _ that]) (simp add: is_control_def char_between_def)
  then have nul: "CHR 0x00 \<notin> set n" if "win_name n" for n using that by (auto dest: win_name_parts)
  {
    case (drive l segs)
    then show ?case using nul upper_not [of l] subsetD [OF join_chars, of "CHR 0x00" "[bslash]" segs] by (auto simp: drive_form_def)
  next
    case (share server share segs)
    then show ?case using nul subsetD [OF join_chars, of "CHR 0x00" "[bslash]" "server # share # segs"] by (auto simp: share_form_def)
  }
qed (simp add: WINDOWS_ROOT_def)

inductive normal_path :: "PathStyle \<Rightarrow> string \<Rightarrow> bool" where
  posix: "posix_segs segs \<Longrightarrow> \<forall>n \<in> set segs. CHR 0x00 \<notin> set n \<Longrightarrow> normal_path Posix (posix_form segs)"
| windows: "windows_form p \<Longrightarrow> normal_path Windows p"

inductive_cases normal_path_cases: "normal_path style p"

lemma accepted_normal: "normaliseHostPath p style = PathOk q \<Longrightarrow> normal_path style q"
proof (cases style)
  case Posix
  assume ok: "normaliseHostPath p style = PathOk q"
  then have "CHR 0x00 \<notin> set p" "normalisePosixPath p = PathOk q" using Posix by (auto simp: normaliseHostPath_def split: if_splits)
  then show ?thesis using posix_accepted [of p q] Posix
    by (auto simp: nonempty_def intro!: normal_path.posix dest: subsetD [OF split_on_chars])
next
  case Windows
  assume "normaliseHostPath p style = PathOk q"
  then show ?thesis using Windows windows_accepted by (auto simp: normaliseHostPath_def intro: normal_path.windows split: if_splits)
qed

lemma normal_accepted: "normal_path style q \<Longrightarrow> normaliseHostPath q style = PathOk q"
proof (induction rule: normal_path.induct)
  case (posix segs)
  then have "CHR 0x00 \<notin> set (posix_form segs)"
    using subsetD [OF join_chars, of "CHR 0x00" "[slash]" segs] by (auto simp: posix_form_def)
  then show ?case using posix by (simp add: normaliseHostPath_def posix_form_normal) (simp add: posix_form_def)
next
  case (windows p)
  then show ?case using windows_form_chars [of p] by (simp add: normaliseHostPath_def windows_form_normal)
qed

text \<open>Going up from a normalised path: the parent is normalised, and the name joined back gives the path.\<close>

definition up_ok :: "PathStyle \<Rightarrow> string \<Rightarrow> string \<Rightarrow> bool" where
  "up_ok style q d \<longleftrightarrow> normal_path style d \<and> joinHostPath d (baseNameOf q style) style = q \<and> length d < length q"

lemma posix_up:
  assumes "normal_path Posix q" "parentOf q Posix = Some d"
  shows "up_ok Posix q d"
proof -
  obtain segs where segs: "q = posix_form segs" "posix_segs segs" "\<forall>n \<in> set segs. CHR 0x00 \<notin> set n"
    using assms(1) by (auto elim: normal_path_cases)
  show ?thesis
  proof (cases segs rule: rev_cases)
    case Nil
    then show ?thesis using assms(2) by (simp add: segs(1) posix_form_def parentOf_def)
  next
    case (snoc segs' x)
    have "posix_segs segs'" "x \<noteq> []" using segs(2) by (auto simp: posix_segs_def snoc)
    then show ?thesis using posix_moves [of segs' x] segs assms(2)
      by (auto simp: snoc up_ok_def posix_form_snoc intro!: normal_path.posix) (simp add: posix_form_def)
  qed
qed

lemma windows_up:
  assumes "windows_form q" "parentOf q Windows = Some d"
  shows "up_ok Windows q d"
  using assms
proof (cases rule: windows_form.cases)
  case root
  then show ?thesis using assms(2) by (simp add: parentOf_def)
next
  case (drive l segs)
  show ?thesis
  proof (cases segs rule: rev_cases)
    case Nil
    then show ?thesis using drive_root_moves [of l] drive assms(2)
      by (auto simp: up_ok_def intro!: normal_path.windows windows_form.root) (simp add: WINDOWS_ROOT_def drive_form_def)
  next
    case (snoc segs' x)
    then have "x \<noteq> []" using drive(3) by (simp add: win_name_def)
    then show ?thesis using drive_moves [of l segs' x] drive assms(2)
      by (auto simp: snoc up_ok_def drive_form_snoc intro!: normal_path.windows windows_form.drive)
  qed
next
  case (share server share segs)
  show ?thesis
  proof (cases segs rule: rev_cases)
    case Nil
    have "split_on bslash (server @ bslash # share) = [server, share]" "server \<noteq> []" "share \<noteq> []"
      using share(2,3) by (simp_all add: win_name_def split_on_append split_on_none)
    then have "share_root q" by (simp add: share_root_def share(1) Nil share_form_def)
    moreover have "q \<noteq> WINDOWS_ROOT" "\<not> drive_root q"
      by (auto simp: share(1) share_form_def WINDOWS_ROOT_def drive_root_def is_upper_def char_between_def split: list.splits)
    ultimately show ?thesis using assms(2) by (simp add: parentOf_def)
  next
    case (snoc segs' x)
    then show ?thesis using share_moves [of server share segs' x] share assms(2)
      by (auto simp: snoc up_ok_def share_form_snoc intro!: normal_path.windows windows_form.share)
  qed
qed


definition separator :: "PathStyle \<Rightarrow> char" where
  "separator style = (if style = Posix then slash else bslash)"

lemma normal_no_dots: "normal_path style q \<Longrightarrow> ''..'' \<notin> set (split_on (separator style) q)"
proof (induction rule: normal_path.induct)
  case (posix segs)
  then have "''..'' \<notin> set (nonempty (split_on slash (posix_form segs)))" by (auto simp: posix_form_split posix_segs_def)
  then show ?case by (simp add: separator_def nonempty_def)
next
  case (windows p)
  have names: "''..'' \<notin> set (split_on bslash (join [bslash] ns))" if "\<forall>n \<in> set ns. win_name n" for ns
  proof (cases "ns = []")
    case False
    then have "split_on bslash (join [bslash] ns) = ns" using that by (intro split_join) (auto simp: win_name_def)
    then show ?thesis using that by (auto simp: win_name_def)
  qed simp
  from windows show ?case
  proof (cases rule: windows_form.cases)
    case (drive l segs)
    then show ?thesis using names [of segs] upper_not [of l] by (simp add: separator_def drive_form_def)
  next
    case (share server share segs)
    then show ?thesis using names [of "server # share # segs"] by (simp add: separator_def share_form_def)
  qed (simp add: separator_def WINDOWS_ROOT_def)
qed

text \<open>
  A path the hub accepts from a client has one form. Normalising it again changes nothing, no segment of it is
  \<open>..\<close>, and going up is safe: its parent is again an accepted path in normal form and shorter, so the way up ends, and
  joining the base name to the parent gives the path back, on POSIX hosts and for Windows drives and shares.
\<close>

theorem normalised_paths:
  assumes "normaliseHostPath p style = PathOk q"
  shows "normaliseHostPath q style = PathOk q
     \<and> ''..'' \<notin> set (split_on (separator style) q)
     \<and> (\<forall>d. parentOf q style = Some d \<longrightarrow>
          normaliseHostPath d style = PathOk d \<and> joinHostPath d (baseNameOf q style) style = q \<and> length d < length q)"
proof -
  have q: "normal_path style q" using assms by (rule accepted_normal)
  have "up_ok style q d" if "parentOf q style = Some d" for d
    using that q posix_up windows_up by (cases style) (auto elim: normal_path_cases)
  then show ?thesis using q by (auto simp: up_ok_def normal_accepted dest: normal_no_dots)
qed

theorem normalised_paths_witness:
  "normaliseHostPath ''C:/Users//me'' Windows = PathOk (''C:'' @ [bslash] @ ''Users'' @ [bslash] @ ''me'')
   \<and> normaliseHostPath (''C:'' @ [bslash] @ ''Users'' @ [bslash] @ ''me'') Windows = PathOk (''C:'' @ [bslash] @ ''Users'' @ [bslash] @ ''me'')"
proof -
  have "normaliseHostPath ''C:/Users//me'' Windows = PathOk (''C:'' @ [bslash] @ ''Users'' @ [bslash] @ ''me'')" by code_simp
  with normalised_paths [OF this] show ?thesis by blast
qed

end
