(* ===== verification/Upload_Tree.thy ===== *)
theory Upload_Tree
  imports Host_Paths "HOL-Library.Char_ord" "HOL-Library.List_Lexorder" "HOL-Library.Product_Lexorder" "HOL-Library.Multiset"
begin

text \<open>
  The check of a whole upload before any byte moves: \<^verbatim>\<open>buildUploadTree\<close> of \<^verbatim>\<open>packages/hub/src/transfers/upload-tree.ts\<close>, with the
  rules on names of \<^verbatim>\<open>packages/shared/src/transfer-protocol.ts\<close>. What a client sent is an item whose fields may be of any
  type; texts are ASCII. SHA-256 is a parameter. Sums of sizes are exact, as JavaScript's are below \<open>2\<^sup>5\<^sup>3\<close>.
\<close>

section \<open>Names\<close>

definition TRANSFER_MAX_FILES :: nat where
  "TRANSFER_MAX_FILES = 100000"

definition TRANSFER_MAX_ITEMS :: nat where
  "TRANSFER_MAX_ITEMS = 200000"

definition TRANSFER_MAX_REL_PATH_LENGTH :: nat where
  "TRANSFER_MAX_REL_PATH_LENGTH = 4096"

definition WINDOWS_MAX_PATH_LENGTH :: nat where
  "WINDOWS_MAX_PATH_LENGTH = 259"

definition MAX_NAME_BYTES :: nat where
  "MAX_NAME_BYTES = 255"

definition reserved_stem :: "string \<Rightarrow> bool" where
  "reserved_stem s =
     (let u = upper s in
        u \<in> set [''CON'', ''PRN'', ''AUX'', ''NUL'', ''CONIN$'', ''CONOUT$'']
        \<or> length u = 4 \<and> (take 3 u = ''COM'' \<or> take 3 u = ''LPT'') \<and> is_digit (u ! 3))"

text \<open>A device's name, whatever follows the first dot.\<close>

definition WINDOWS_RESERVED :: "string \<Rightarrow> bool" where
  "WINDOWS_RESERVED name = (reserved_stem (takeWhile (\<lambda>c. c \<noteq> CHR ''.'') name) \<and> list_all (\<lambda>c. c \<noteq> CHR 0x0A \<and> c \<noteq> CHR 0x0D) name)"

definition WINDOWS_FORBIDDEN_CHARACTERS :: "string \<Rightarrow> bool" where
  "WINDOWS_FORBIDDEN_CHARACTERS name = list_ex (\<lambda>c. c \<in> set ''<>:/|?*'' \<or> c = CHR 0x22 \<or> c = bslash \<or> is_control c) name"

definition windowsNameProblem :: "string \<Rightarrow> string option" where
  "windowsNameProblem name =
     (if WINDOWS_FORBIDDEN_CHARACTERS name
      then Some (''a Windows name holds none of < > : '' @ [CHR 0x22] @ '' / '' @ [bslash] @ '' | ? * nor a control character'')
      else if ends_with ''.'' name \<or> ends_with '' '' name then Some ''a Windows name does not end with a dot or a space''
      else if WINDOWS_RESERVED name
      then Some (''the name is a device's on Windows (CON, PRN, AUX, NUL, COM1'' @ [CHR 0xE2, CHR 0x80, CHR 0x93] @ ''9, LPT1'' @ [CHR 0xE2, CHR 0x80, CHR 0x93] @ ''9), whatever its extension'')
      else None)"

definition relPathProblem :: "string \<Rightarrow> string option" where
  "relPathProblem path =
     (if path = [] then Some ''the path is empty''
      else if length path > TRANSFER_MAX_REL_PATH_LENGTH then Some (''the path is over '' @ dec TRANSFER_MAX_REL_PATH_LENGTH @ '' characters'')
      else if CHR 0x00 \<in> set path then Some ''the path holds a NUL character''
      else if starts_with ''/'' path then Some ''the path is not relative''
      else let segments = split_on slash path in
        if list_ex (\<lambda>seg. seg = []) segments then Some ''the path has an empty name in it''
        else if list_ex (\<lambda>seg. seg = ''.'' \<or> seg = ''..'') segments then Some ''the path has a . or .. in it''
        else if list_ex (\<lambda>seg. length seg > MAX_NAME_BYTES) segments then Some (''a name in the path is over '' @ dec MAX_NAME_BYTES @ '' bytes'')
        else None)"

section \<open>Items\<close>

datatype TransferItemKind = File | Dir

text \<open>A field of a message, as it came: not there, a number, or anything else.\<close>

datatype jsfield = Undefined | Number jsnum | OtherValue

record TransferStartItem =
  si_relPath :: "string option"
  si_kind :: "TransferItemKind option"
  si_size :: jsfield
  si_mtime :: jsfield

record TreeItem =
  ti_id :: nat
  ti_relPath :: string
  ti_name :: string
  ti_kind :: TransferItemKind
  ti_size :: int
  ti_mtime :: "int option"
  ti_parent :: "nat option"
  ti_children :: "nat list"

record TransferNameProblem =
  np_relPath :: string
  np_reason :: string

datatype tree_error = INVALID_ITEMS | INVALID_NAMES | TOO_MANY_FILES

record built_tree =
  bt_items :: "TreeItem list"
  bt_order :: "nat list"
  bt_files :: nat
  bt_bytes :: int
  bt_signature :: string

datatype UploadTree = TreeBuilt built_tree | TreeRefused tree_error string "TransferNameProblem list"

definition PROBLEMS_LISTED :: nat where
  "PROBLEMS_LISTED = 1000"

definition isWholeNumber :: "jsfield \<Rightarrow> bool" where
  "isWholeNumber v = (case v of Number (IntNum n) \<Rightarrow> 0 \<le> n \<and> n \<le> 2 ^ 53 - 1 | _ \<Rightarrow> False)"

definition whole_of :: "jsfield \<Rightarrow> int option" where
  "whole_of v = (case v of Number (IntNum n) \<Rightarrow> if isWholeNumber v then Some n else None | _ \<Rightarrow> None)"

section \<open>Reading the list\<close>

record ParsedItem =
  pi_relPath :: string
  pi_kind :: TransferItemKind
  pi_size :: int
  pi_mtime :: "int option"

definition item_problem :: "TransferStartItem \<Rightarrow> string option" where
  "item_problem item =
     (case si_relPath item of
        None \<Rightarrow> Some ''rel_path must be text''
      | Some relPath \<Rightarrow>
          if si_kind item = None then Some (''kind must be '' @ [CHR 0x22] @ ''file'' @ [CHR 0x22] @ '' or '' @ [CHR 0x22] @ ''dir'' @ [CHR 0x22])
          else if si_kind item = Some File \<and> \<not> isWholeNumber (si_size item) then Some ''a file's size must be a whole number of bytes''
          else if si_mtime item \<noteq> Undefined \<and> \<not> isWholeNumber (si_mtime item) then Some ''mtime must be milliseconds since the epoch''
          else relPathProblem relPath)"

definition parse_item :: "TransferStartItem \<Rightarrow> ParsedItem" where
  "parse_item item =
     (let kind = (if si_kind item = Some Dir then Dir else File)
      in \<lparr>pi_relPath = (case si_relPath item of Some p \<Rightarrow> p | None \<Rightarrow> []), pi_kind = kind,
          pi_size = (if kind = File then (case whole_of (si_size item) of Some n \<Rightarrow> n | None \<Rightarrow> 0) else 0),
          pi_mtime = whole_of (si_mtime item)\<rparr>)"

fun read_items :: "nat \<Rightarrow> TransferStartItem list \<Rightarrow> TransferNameProblem list \<times> ParsedItem list \<times> nat \<times> int" where
  "read_items index [] = ([], [], 0, 0)"
| "read_items index (item # rest) =
     (let p = parse_item item;
          relPath = pi_relPath p;
          (structural, parsed, files, bytes) = read_items (index + 1) rest
      in ((case item_problem item of
             None \<Rightarrow> structural
           | Some reason \<Rightarrow> \<lparr>np_relPath = (if relPath = [] then CHR ''#'' # dec index else relPath), np_reason = reason\<rparr> # structural),
          p # parsed,
          (if pi_kind p = File then files + 1 else files),
          (if pi_kind p = File then pi_size p + bytes else bytes)))"

text \<open>Each path once, and on Windows each path once whatever its case.\<close>

definition path_key :: "PathStyle \<Rightarrow> string \<Rightarrow> string" where
  "path_key style relPath = (if style = Windows then upper relPath else relPath)"

fun key_items :: "PathStyle \<Rightarrow> ParsedItem list \<Rightarrow> nat \<Rightarrow> ParsedItem list \<Rightarrow> (string, nat) jmap
  \<Rightarrow> (string, nat) jmap \<times> TransferNameProblem list \<times> TransferNameProblem list" where
  "key_items style parsed index [] byKey = (byKey, [], [])"
| "key_items style parsed index (item # rest) byKey =
     (let k = path_key style (pi_relPath item) in
      case map_get byKey k of
        None \<Rightarrow> key_items style parsed (index + 1) rest (map_set k index byKey)
      | Some seen \<Rightarrow>
          (let same = (seen < length parsed \<and> pi_relPath (parsed ! seen) = pi_relPath item);
               (byKey, structural, naming) = key_items style parsed (index + 1) rest byKey
           in if same
              then (byKey, \<lparr>np_relPath = pi_relPath item, np_reason = ''the path is in the upload twice''\<rparr> # structural, naming)
              else (byKey, structural, \<lparr>np_relPath = pi_relPath item,
                 np_reason = ''another item has this name but for its case, which a Windows host does not tell apart''\<rparr> # naming)))"

section \<open>The tree\<close>

definition parent_path :: "string \<Rightarrow> string option" where
  "parent_path relPath = map_option (\<lambda>cut. take cut relPath) (lastIndexOf slash relPath)"

definition parent_index :: "PathStyle \<Rightarrow> (string, nat) jmap \<Rightarrow> string \<Rightarrow> nat option" where
  "parent_index style byKey relPath = Option.bind (parent_path relPath) (\<lambda>p. map_get byKey (path_key style p))"

definition place_problem :: "PathStyle \<Rightarrow> ParsedItem list \<Rightarrow> (string, nat) jmap \<Rightarrow> string list \<Rightarrow> ParsedItem \<Rightarrow> TransferNameProblem option" where
  "place_problem style parsed byKey refused item =
     (if parent_path (pi_relPath item) \<noteq> None \<and> pi_relPath item \<notin> set refused then
        (case parent_index style byKey (pi_relPath item) of
           None \<Rightarrow> Some \<lparr>np_relPath = pi_relPath item, np_reason = ''the folder it is in is not in the upload''\<rparr>
         | Some i \<Rightarrow>
             if i < length parsed \<and> pi_kind (parsed ! i) = Dir then None
             else Some \<lparr>np_relPath = pi_relPath item, np_reason = ''what it is in is a file''\<rparr>)
      else None)"

definition tree_item :: "PathStyle \<Rightarrow> (string, nat) jmap \<Rightarrow> nat \<Rightarrow> ParsedItem \<Rightarrow> TreeItem" where
  "tree_item style byKey i item =
     \<lparr>ti_id = i, ti_relPath = pi_relPath item, ti_name = after_last slash (pi_relPath item), ti_kind = pi_kind item,
      ti_size = pi_size item, ti_mtime = pi_mtime item, ti_parent = parent_index style byKey (pi_relPath item), ti_children = []\<rparr>"

definition windows_problem :: "string \<Rightarrow> TreeItem \<Rightarrow> TransferNameProblem option" where
  "windows_problem dir item =
     (case List.find (\<lambda>r. r \<noteq> None) (map windowsNameProblem (split_on slash (ti_relPath item))) of
        Some (Some reason) \<Rightarrow> Some \<lparr>np_relPath = ti_relPath item, np_reason = reason\<rparr>
      | _ \<Rightarrow>
          (let full = joinHostPath dir (to_bslash (ti_relPath item)) Windows
           in if length full > WINDOWS_MAX_PATH_LENGTH
              then Some \<lparr>np_relPath = ti_relPath item,
                np_reason = ''its path on the host would be '' @ dec (length full) @ '' characters, over the '' @ dec WINDOWS_MAX_PATH_LENGTH @ '' Windows allows''\<rparr>
              else None))"

fun link_children :: "TreeItem list \<Rightarrow> TreeItem list \<Rightarrow> TreeItem list" where
  "link_children [] items = items"
| "link_children (item # rest) items =
     link_children rest
       (case ti_parent item of
          None \<Rightarrow> items
        | Some p \<Rightarrow>
            if p < length items then items[p := (items ! p)\<lparr>ti_children := ti_children (items ! p) @ [ti_id item]\<rparr>] else items)"

definition depth :: "string \<Rightarrow> nat" where
  "depth relPath = length (split_on slash relPath)"

definition tree_order :: "TreeItem list \<Rightarrow> nat list" where
  "tree_order items = map ti_id (sort_key (\<lambda>item. (depth (ti_relPath item), ti_id item)) items)"

text \<open>\<open>JSON.stringify\<close> of the parsed items, and the digest of the items in the order of their paths.\<close>

definition json_item :: "ParsedItem \<Rightarrow> string" where
  "json_item p =
     ''{'' @ json_string ''relPath'' @ '':'' @ json_string (pi_relPath p) @ '','' @ json_string ''kind'' @ '':''
     @ json_string (case pi_kind p of File \<Rightarrow> ''file'' | Dir \<Rightarrow> ''dir'') @ '','' @ json_string ''size'' @ '':'' @ dec (nat (pi_size p))
     @ '','' @ json_string ''mtime'' @ '':'' @ (case pi_mtime p of None \<Rightarrow> ''null'' | Some t \<Rightarrow> dec (nat t)) @ ''}''"

definition tree_signature :: "(string \<Rightarrow> string) \<Rightarrow> ParsedItem list \<Rightarrow> string" where
  "tree_signature sha256 parsed = sha256 (''['' @ join '','' (map json_item (sort_key pi_relPath parsed)) @ '']'')"

definition plural :: "nat \<Rightarrow> string" where
  "plural n = (if n = 1 then [] else ''s'')"

definition problems_answer :: "TransferNameProblem list \<Rightarrow> TransferNameProblem list \<Rightarrow> UploadTree" where
  "problems_answer structural naming =
     (let problems = (if structural \<noteq> [] then structural else naming);
          listed = take PROBLEMS_LISTED problems;
          more = length problems - length listed;
          code = (if structural \<noteq> [] then INVALID_ITEMS else INVALID_NAMES);
          first = (if more > 0 then '' (the first '' @ dec (length listed) @ '' are listed)'' else [])
      in TreeRefused code
           (if code = INVALID_NAMES
            then dec (length problems) @ '' name'' @ plural (length problems) @ '' cannot be created on this host'' @ first @ '': leave them out, or cancel''
            else dec (length problems) @ '' item'' @ plural (length problems) @ '' cannot be sent as given'' @ first)
           listed)"

definition buildUploadTree :: "(string \<Rightarrow> string) \<Rightarrow> TransferStartItem list option \<Rightarrow> PathStyle \<Rightarrow> string \<Rightarrow> UploadTree" where
  "buildUploadTree sha256 raw style dir =
     (case raw of
        None \<Rightarrow> TreeRefused INVALID_ITEMS ''items must be a non-empty list'' []
      | Some raw \<Rightarrow>
          if raw = [] then TreeRefused INVALID_ITEMS ''items must be a non-empty list'' []
          else if length raw > TRANSFER_MAX_ITEMS
          then TreeRefused TOO_MANY_FILES (''An upload holds at most '' @ dec TRANSFER_MAX_ITEMS @ '' files and folders: send an archive instead'') []
          else let (structural, parsed, files, bytes) = read_items 0 raw in
            if files > TRANSFER_MAX_FILES
            then TreeRefused TOO_MANY_FILES (''An upload holds at most '' @ dec TRANSFER_MAX_FILES @ '' files: send an archive instead'') []
            else let (byKey, twice, naming) = key_items style parsed 0 parsed [];
                     structural = structural @ twice;
                     refused = map np_relPath structural;
                     structural = structural @ List.map_filter (place_problem style parsed byKey refused) parsed;
                     items = map (\<lambda>(i, item). tree_item style byKey i item) (enumerate 0 parsed);
                     naming = naming @ (if style = Windows then List.map_filter (windows_problem dir) items else [])
                 in if structural \<noteq> [] \<or> naming \<noteq> [] then problems_answer structural naming
                    else let items = link_children items items
                      in TreeBuilt \<lparr>bt_items = items, bt_order = tree_order items, bt_files = files, bt_bytes = bytes,
                           bt_signature = tree_signature sha256 parsed\<rparr>)"


section \<open>What is accepted\<close>

abbreviation item_path :: "TransferStartItem \<Rightarrow> string" where
  "item_path item \<equiv> pi_relPath (parse_item item)"

abbreviation item_key :: "PathStyle \<Rightarrow> ParsedItem \<Rightarrow> string" where
  "item_key style item \<equiv> path_key style (pi_relPath item)"

definition file_count :: "ParsedItem list \<Rightarrow> nat" where
  "file_count parsed = length (filter (\<lambda>p. pi_kind p = File) parsed)"

definition byte_count :: "ParsedItem list \<Rightarrow> int" where
  "byte_count parsed = sum_list (map pi_size (filter (\<lambda>p. pi_kind p = File) parsed))"

definition names_fit :: "string \<Rightarrow> string \<Rightarrow> bool" where
  "names_fit dir path \<longleftrightarrow>
     (\<forall>seg \<in> set (split_on slash path). windowsNameProblem seg = None)
     \<and> length (joinHostPath dir (to_bslash path) Windows) \<le> WINDOWS_MAX_PATH_LENGTH"

definition folder_listed :: "PathStyle \<Rightarrow> TransferStartItem list \<Rightarrow> TransferStartItem \<Rightarrow> bool" where
  "folder_listed style raw item \<longleftrightarrow>
     (\<forall>p. parent_path (item_path item) = Some p \<longrightarrow> (\<exists>d \<in> set raw. si_kind d = Some Dir \<and> path_key style (item_path d) = path_key style p))"

lemma folder_listed_code [code]:
  "folder_listed style raw item =
     (case parent_path (item_path item) of
        None \<Rightarrow> True
      | Some p \<Rightarrow> list_ex (\<lambda>d. si_kind d = Some Dir \<and> path_key style (item_path d) = path_key style p) raw)"
  by (auto simp: folder_listed_def list_ex_iff split: option.splits)

text \<open>What an upload has to be for its tree to be built.\<close>

definition request_ok :: "PathStyle \<Rightarrow> string \<Rightarrow> TransferStartItem list \<Rightarrow> bool" where
  "request_ok style dir raw \<longleftrightarrow>
     raw \<noteq> [] \<and> length raw \<le> TRANSFER_MAX_ITEMS \<and> file_count (map parse_item raw) \<le> TRANSFER_MAX_FILES
     \<and> (\<forall>item \<in> set raw. item_problem item = None)
     \<and> distinct (map (item_key style) (map parse_item raw))
     \<and> (\<forall>item \<in> set raw. folder_listed style raw item)
     \<and> (style = Windows \<longrightarrow> (\<forall>item \<in> set raw. names_fit dir (item_path item)))"

lemma read_items:
  "read_items i raw = (s, parsed, files, bytes) \<Longrightarrow>
     (s = [] \<longleftrightarrow> (\<forall>item \<in> set raw. item_problem item = None)) \<and> parsed = map parse_item raw
     \<and> files = file_count parsed \<and> bytes = byte_count parsed"
proof (induction raw arbitrary: i s parsed files bytes)
  case (Cons item raw)
  obtain s' parsed' files' bytes' where r: "read_items (i + 1) raw = (s', parsed', files', bytes')" by (metis prod_cases4)
  with Cons show ?case by (auto simp: Let_def file_count_def byte_count_def split: option.splits)
qed (auto simp: file_count_def byte_count_def)

lemma key_items_distinct:
  "key_items style parsed i rest m0 = (m, s, n) \<Longrightarrow>
     s = [] \<and> n = [] \<longleftrightarrow> distinct (map (item_key style) rest) \<and> (\<forall>item \<in> set rest. map_get m0 (item_key style item) = None)"
proof (induction rest arbitrary: i m0 m s n)
  case (Cons item rest)
  show ?case
  proof (cases "map_get m0 (item_key style item)")
    case None
    then show ?thesis using Cons.prems Cons.IH [of "i + 1" "map_set (item_key style item) i m0" m s n]
      by (auto simp: Let_def image_iff split: if_splits)
  next
    case (Some j)
    then show ?thesis using Cons.prems by (auto simp: Let_def split: prod.splits if_splits)
  qed
qed simp

lemma key_items_get:
  assumes "key_items style parsed i rest m0 = (m, [], [])"
  shows "map_get m k = Some v \<longleftrightarrow> map_get m0 k = Some v \<or> (\<exists>j < length rest. v = i + j \<and> item_key style (rest ! j) = k)"
  using assms
proof (induction rest arbitrary: i m0)
  case (Cons item rest)
  have new: "map_get m0 (item_key style item) = None" using key_items_distinct [OF Cons.prems] by simp
  then have "key_items style parsed (i + 1) rest (map_set (item_key style item) i m0) = (m, [], [])"
    using Cons.prems by (simp add: Let_def)
  note IH = Cons.IH [OF this]
  have "(\<exists>j < length (item # rest). v = i + j \<and> item_key style ((item # rest) ! j) = k)
     \<longleftrightarrow> v = i \<and> item_key style item = k \<or> (\<exists>j < length rest. v = i + 1 + j \<and> item_key style (rest ! j) = k)"
    unfolding length_Cons Ex_less_Suc2 by simp
  then show ?case using IH new by (cases "item_key style item = k") auto
qed simp

definition keyed :: "PathStyle \<Rightarrow> ParsedItem list \<Rightarrow> (string, nat) jmap \<Rightarrow> bool" where
  "keyed style parsed m \<longleftrightarrow> (\<forall>k v. map_get m k = Some v \<longleftrightarrow> v < length parsed \<and> item_key style (parsed ! v) = k)"

lemma key_items_keyed: "key_items style parsed 0 parsed [] = (m, [], []) \<Longrightarrow> keyed style parsed m"
  unfolding keyed_def using key_items_get [of style parsed 0 parsed "[]" m] by auto

lemma map_filter_Nil: "List.map_filter f xs = [] \<longleftrightarrow> (\<forall>x \<in> set xs. f x = None)"
  by (induction xs) (auto simp: map_filter_simps split: option.splits)

lemma keyed_find:
  assumes "keyed style parsed m"
  shows "(\<exists>d \<in> set parsed. P d \<and> item_key style d = k) \<longleftrightarrow> (\<exists>v. map_get m k = Some v \<and> v < length parsed \<and> P (parsed ! v))"
proof
  assume "\<exists>d \<in> set parsed. P d \<and> item_key style d = k"
  then obtain v where "v < length parsed" "P (parsed ! v)" "item_key style (parsed ! v) = k" by (auto simp: in_set_conv_nth)
  then show "\<exists>v. map_get m k = Some v \<and> v < length parsed \<and> P (parsed ! v)" using assms by (auto simp: keyed_def)
next
  assume "\<exists>v. map_get m k = Some v \<and> v < length parsed \<and> P (parsed ! v)"
  then show "\<exists>d \<in> set parsed. P d \<and> item_key style d = k" using assms by (auto simp: keyed_def)
qed

lemma place_problem_None:
  assumes "keyed style parsed m"
  shows "place_problem style parsed m [] item = None \<longleftrightarrow>
     (\<forall>p. parent_path (pi_relPath item) = Some p \<longrightarrow> (\<exists>d \<in> set parsed. pi_kind d = Dir \<and> item_key style d = path_key style p))"
  unfolding keyed_find [OF assms]
  by (cases "parent_path (pi_relPath item)") (auto simp: place_problem_def parent_index_def split: option.splits)

lemma find_cases: "List.find (\<lambda>r. r \<noteq> None) rs = None \<and> (\<forall>r \<in> set rs. r = None)
   \<or> (\<exists>x. List.find (\<lambda>r. r \<noteq> None) rs = Some (Some x)) \<and> (\<exists>r \<in> set rs. r \<noteq> None)"
  by (induction rs) auto

lemma windows_problem_None: "windows_problem dir item = None \<longleftrightarrow> names_fit dir (ti_relPath item)"
  using find_cases [of "map windowsNameProblem (split_on slash (ti_relPath item))"]
  by (auto simp: windows_problem_def names_fit_def Let_def split: if_splits)

definition placed_items :: "PathStyle \<Rightarrow> (string, nat) jmap \<Rightarrow> ParsedItem list \<Rightarrow> TreeItem list" where
  "placed_items style byKey parsed = map (\<lambda>(i, item). tree_item style byKey i item) (enumerate 0 parsed)"

lemma placed_items_nth [simp]: "i < length parsed \<Longrightarrow> placed_items style m parsed ! i = tree_item style m i (parsed ! i)"
  by (simp add: placed_items_def nth_enumerate_eq)

lemma placed_items_length [simp]: "length (placed_items style m parsed) = length parsed"
  by (simp add: placed_items_def)

lemma placed_items_paths [simp]: "map ti_relPath (placed_items style m parsed) = map pi_relPath parsed"
  by (rule nth_equalityI) (simp_all add: tree_item_def)

lemma placed_names: "(\<forall>item \<in> set (placed_items style m parsed). P (ti_relPath item)) \<longleftrightarrow> (\<forall>item \<in> set parsed. P (pi_relPath item))"
proof -
  have "(\<forall>item \<in> set (placed_items style m parsed). P (ti_relPath item)) \<longleftrightarrow> (\<forall>x \<in> set (map ti_relPath (placed_items style m parsed)). P x)"
    unfolding set_map ball_simps ..
  then show ?thesis by simp
qed

definition upload_tree_of :: "(string \<Rightarrow> string) \<Rightarrow> PathStyle \<Rightarrow> TransferStartItem list \<Rightarrow> built_tree" where
  "upload_tree_of sha256 style raw =
     (let parsed = map parse_item raw;
          placed = placed_items style (fst (key_items style parsed 0 parsed [])) parsed;
          items = link_children placed placed
      in \<lparr>bt_items = items, bt_order = tree_order items, bt_files = file_count parsed, bt_bytes = byte_count parsed,
          bt_signature = tree_signature sha256 parsed\<rparr>)"

lemma problems_answer_not_built [simp]: "problems_answer s n \<noteq> TreeBuilt t"
  by (simp add: problems_answer_def Let_def)

lemma item_kind [simp]: "pi_kind (parse_item item) = Dir \<longleftrightarrow> si_kind item = Some Dir"
  by (auto simp: parse_item_def Let_def)

lemma parents_iff:
  "(\<forall>item \<in> set (map parse_item raw). \<forall>p. parent_path (pi_relPath item) = Some p \<longrightarrow>
      (\<exists>d \<in> set (map parse_item raw). pi_kind d = Dir \<and> item_key style d = path_key style p))
   \<longleftrightarrow> (\<forall>item \<in> set raw. folder_listed style raw item)"
  by (simp add: folder_listed_def)

theorem buildUploadTree_built:
  "buildUploadTree sha256 (Some raw) style dir = TreeBuilt t \<longleftrightarrow> request_ok style dir raw \<and> t = upload_tree_of sha256 style raw"
proof (cases "raw \<noteq> [] \<and> length raw \<le> TRANSFER_MAX_ITEMS \<and> file_count (map parse_item raw) \<le> TRANSFER_MAX_FILES")
  case True
  define parsed where "parsed = map parse_item raw"
  obtain s where s: "read_items 0 raw = (s, parsed, file_count parsed, byte_count parsed)"
    using read_items [of 0 raw] by (metis parsed_def prod_cases4)
  obtain m d n where k: "key_items style parsed 0 parsed [] = (m, d, n)" by (metis prod_cases3)
  define places where "places = List.map_filter (place_problem style parsed m (map np_relPath s @ map np_relPath d)) parsed"
  define wins where "wins = (if style = Windows then List.map_filter (windows_problem dir) (placed_items style m parsed) else [])"
  have build: "buildUploadTree sha256 (Some raw) style dir =
    (if s @ d @ places \<noteq> [] \<or> n @ wins \<noteq> [] then problems_answer (s @ d @ places) (n @ wins) else TreeBuilt (upload_tree_of sha256 style raw))"
    using True unfolding buildUploadTree_def placed_items_def [symmetric]
    by (simp add: s k Let_def upload_tree_of_def flip: parsed_def places_def wins_def)
  have s0: "s = [] \<longleftrightarrow> (\<forall>item \<in> set raw. item_problem item = None)" using read_items [OF s] by simp
  have d0: "d = [] \<and> n = [] \<longleftrightarrow> distinct (map (item_key style) parsed)" using key_items_distinct [OF k] by simp
  have p0: "places = [] \<longleftrightarrow> (\<forall>item \<in> set raw. folder_listed style raw item)" if "s = []" "d = []" "n = []"
  proof -
    have keyed: "keyed style parsed m" using k that by (simp add: key_items_keyed)
    have "places = [] \<longleftrightarrow> (\<forall>item \<in> set parsed. place_problem style parsed m [] item = None)"
      by (simp add: places_def that map_filter_Nil)
    then show ?thesis unfolding place_problem_None [OF keyed] unfolding parsed_def parents_iff .
  qed
  have w0: "wins = [] \<longleftrightarrow> (style = Windows \<longrightarrow> (\<forall>item \<in> set raw. names_fit dir (item_path item)))"
    by (simp add: wins_def map_filter_Nil windows_problem_None placed_names) (simp add: parsed_def)
  show ?thesis using True s0 d0 p0 w0 unfolding build request_ok_def parsed_def by auto
next
  case False
  then show ?thesis using read_items [of 0 raw]
    by (cases "read_items 0 raw") (auto simp: buildUploadTree_def request_ok_def Let_def split: prod.splits)
qed


section \<open>The tree that is built\<close>

lemma link_children_length [simp]: "length (link_children xs items) = length items"
  by (induction xs arbitrary: items) (auto split: option.splits)

lemma link_children_nth:
  "i < length items \<Longrightarrow> link_children xs items ! i
     = (items ! i)\<lparr>ti_children := ti_children (items ! i) @ map ti_id (filter (\<lambda>it. ti_parent it = Some i) xs)\<rparr>"
proof (induction xs arbitrary: items)
  case (Cons x xs)
  show ?case
  proof (cases "ti_parent x")
    case (Some p)
    then show ?thesis using Cons by (cases "p = i") (auto simp: nth_list_update)
  qed (use Cons in simp)
qed simp

lemma parent_path_split:
  "parent_path path = Some p \<Longrightarrow> path = p @ slash # after_last slash path \<and> slash \<notin> set (after_last slash path)"
  using lastIndexOf_split [of slash path] lastIndexOf_None [of slash path]
  by (cases "slash \<in> set path") (auto simp: parent_path_def after_last_def)

lemma parent_path_None: "parent_path path = None \<longleftrightarrow> slash \<notin> set path"
  by (simp add: parent_path_def lastIndexOf_None)

lemma split_on_parts: "split_on c (a @ c # b) = split_on c a @ split_on c b"
proof (induction a)
  case (Cons x a)
  then show ?case by (cases "split_on c a") auto
qed simp

lemma after_last_in_split: "after_last c path \<in> set (split_on c path)"
proof (cases "c \<in> set path")
  case True
  then obtain a b where ab: "path = a @ c # b" "c \<notin> set b" "lastIndexOf c path = Some (length a)" using lastIndexOf_split by metis
  then show ?thesis by (simp add: after_last_def split_on_parts split_on_none)
next
  case False
  then show ?thesis using lastIndexOf_None [of c path] by (simp add: after_last_def split_on_none)
qed

lemma depth_count: "depth s = Suc (length (filter (\<lambda>c. c = slash) s))"
proof (induction s)
  case (Cons x s)
  then show ?case by (cases "split_on slash s") (auto simp: depth_def)
qed (simp add: depth_def)

lemma of_char_slash: "(of_char slash :: nat) = 47"
  by simp

lemma upper_slash: "(if is_lower c then to_upper c else c) = slash \<longleftrightarrow> c = slash"
proof
  assume eq: "(if is_lower c then to_upper c else c) = slash"
  show "c = slash"
  proof (cases "is_lower c")
    case True
    then have "char_of (of_char c - 32 :: nat) = slash" "97 \<le> (of_char c :: nat)" "(of_char c :: nat) \<le> 122"
      using eq by (simp_all add: is_lower_def to_upper_def char_between_def Let_def)
    then have "(of_char c - 32 :: nat) mod 256 = 47" by (metis of_char_of of_char_slash)
    then show ?thesis using \<open>97 \<le> (of_char c :: nat)\<close> \<open>(of_char c :: nat) \<le> 122\<close> by simp
  qed (use eq in simp)
qed (simp add: is_lower_def char_between_def)

lemma depth_key [simp]: "depth (path_key style s) = depth s"
proof -
  have "length (filter (\<lambda>c. c = slash) (upper s)) = length (filter (\<lambda>c. c = slash) s)"
    by (simp add: upper_def filter_map comp_def upper_slash)
  then show ?thesis by (simp add: path_key_def depth_count)
qed

lemma path_key_append: "path_key style (a @ b) = path_key style a @ path_key style b"
  by (simp add: path_key_def upper_def)

lemma depth_parent:
  assumes "parent_path path = Some p"
  shows "depth path = Suc (depth p)"
proof -
  obtain n where "path = p @ slash # n" "slash \<notin> set n" using parent_path_split [OF assms] by blast
  then show ?thesis by (auto simp: depth_count filter_empty_conv)
qed

text \<open>The order puts every folder before what is in it.\<close>

lemma tree_order_parents:
  assumes order: "tree_order items = xs @ i # ys" and ids: "\<forall>j < length items. ti_id (items ! j) = j"
    and i: "i < length items" and p: "p < length items" "depth (ti_relPath (items ! p)) < depth (ti_relPath (items ! i))"
  shows "p \<in> set xs"
proof -
  let ?f = "\<lambda>item. (depth (ti_relPath item), ti_id item)"
  obtain us it vs where cut: "sort_key ?f items = us @ it # vs" "xs = map ti_id us" "i = ti_id it" "ys = map ti_id vs"
    using order by (auto simp: tree_order_def map_eq_append_conv map_eq_Cons_conv)
  have "it \<in> set items" using arg_cong [OF cut(1), of set] by auto
  then have it: "it = items ! i" using ids cut(3) by (auto simp: in_set_conv_nth)
  have "sorted (map ?f (us @ it # vs))" using cut(1) by (metis sorted_sort_key)
  then have after: "?f it \<le> ?f v" if "v \<in> set vs" for v using that by (auto simp: sorted_append)
  have "items ! p \<in> set (us @ it # vs)" using p(1) cut(1) by (metis nth_mem set_sort)
  moreover have "items ! p \<noteq> it" using p(2) it by auto
  moreover have "items ! p \<notin> set vs" using after [of "items ! p"] p(2) it by (auto simp: less_eq_prod_def)
  ultimately have "items ! p \<in> set us" by auto
  then show ?thesis using ids p(1) cut(2) by force
qed

lemma tree_order_perm: "\<forall>j < length items. ti_id (items ! j) = j \<Longrightarrow> mset (tree_order items) = mset [0..<length items]"
proof -
  assume "\<forall>j < length items. ti_id (items ! j) = j"
  then have "map ti_id items = [0..<length items]" by (intro nth_equalityI) simp_all
  then show ?thesis unfolding tree_order_def mset_map mset_sort by (metis mset_map)
qed


text \<open>The signature does not depend on the order the client listed the items in.\<close>

lemma tree_signature_order:
  assumes "mset parsed = mset parsed'" "distinct (map pi_relPath parsed)"
  shows "tree_signature sha256 parsed = tree_signature sha256 parsed'"
proof -
  have "distinct (map pi_relPath parsed')" using assms by (metis mset_eq_imp_distinct_iff mset_map)
  then have "inj_on pi_relPath (set parsed')" by (simp add: distinct_map)
  moreover have "mset (sort_key pi_relPath parsed) = mset parsed'" using assms(1) by simp
  ultimately have "sort_key pi_relPath parsed' = sort_key pi_relPath parsed"
    by (intro sort_key_inj_key_eq) simp_all
  then show ?thesis by (simp add: tree_signature_def)
qed


section \<open>The theorems\<close>

text \<open>One item of a tree: its place, its name, its size and its folder.\<close>

definition item_wf :: "PathStyle \<Rightarrow> TreeItem list \<Rightarrow> nat \<Rightarrow> bool" where
  "item_wf style items i \<longleftrightarrow>
     (let it = items ! i in
        ti_id it = i \<and> relPathProblem (ti_relPath it) = None \<and> ti_name it \<in> set (split_on slash (ti_relPath it))
        \<and> 0 \<le> ti_size it \<and> ti_size it < 2 ^ 53 \<and> (ti_kind it = Dir \<longrightarrow> ti_size it = 0)
        \<and> (ti_parent it = None \<longleftrightarrow> ti_relPath it = ti_name it)
        \<and> (\<forall>p. ti_parent it = Some p \<longrightarrow> p < length items \<and> ti_kind (items ! p) = Dir
             \<and> path_key style (ti_relPath it) = path_key style (ti_relPath (items ! p) @ slash # ti_name it))
        \<and> ti_children it = filter (\<lambda>j. ti_parent (items ! j) = Some i) [0..<length items])"

definition tree_wf :: "PathStyle \<Rightarrow> built_tree \<Rightarrow> bool" where
  "tree_wf style t \<longleftrightarrow>
     (\<forall>i < length (bt_items t). item_wf style (bt_items t) i)
     \<and> distinct (map (\<lambda>it. path_key style (ti_relPath it)) (bt_items t))
     \<and> mset (bt_order t) = mset [0..<length (bt_items t)]
     \<and> (\<forall>xs i ys p. bt_order t = xs @ i # ys \<longrightarrow> ti_parent (bt_items t ! i) = Some p \<longrightarrow> p \<in> set xs)
     \<and> bt_files t = length (filter (\<lambda>it. ti_kind it = File) (bt_items t)) \<and> bt_files t \<le> TRANSFER_MAX_FILES
     \<and> (sum_list (map ti_size (bt_items t)) < 2 ^ 53 \<longrightarrow> bt_bytes t = sum_list (map ti_size (bt_items t)))"

lemma parse_item_size: "0 \<le> pi_size (parse_item item) \<and> pi_size (parse_item item) < 2 ^ 53 \<and> (pi_kind (parse_item item) = Dir \<longrightarrow> pi_size (parse_item item) = 0)"
  by (auto simp: parse_item_def whole_of_def isWholeNumber_def Let_def split: jsfield.splits jsnum.splits)

lemma accepted_path: "item_problem item = None \<Longrightarrow> relPathProblem (item_path item) = None"
  by (auto simp: item_problem_def parse_item_def Let_def split: option.splits if_splits)

lemma byte_count_all: "\<forall>p \<in> set parsed. pi_kind p = Dir \<longrightarrow> pi_size p = 0 \<Longrightarrow> byte_count parsed = sum_list (map pi_size parsed)"
proof (induction parsed)
  case (Cons p parsed)
  then show ?case by (cases "pi_kind p") (auto simp: byte_count_def)
qed (simp add: byte_count_def)

lemma linked_children:
  assumes "i < length parsed"
  shows "map ti_id (filter (\<lambda>it. ti_parent it = Some i) (placed_items style m parsed))
     = filter (\<lambda>j. ti_parent (placed_items style m parsed ! j) = Some i) [0..<length parsed]"
proof -
  have "placed_items style m parsed = map (\<lambda>j. placed_items style m parsed ! j) [0..<length parsed]"
    by (rule nth_equalityI) simp_all
  then have "map ti_id (filter (\<lambda>it. ti_parent it = Some i) (placed_items style m parsed))
     = map ti_id (filter (\<lambda>it. ti_parent it = Some i) (map (\<lambda>j. placed_items style m parsed ! j) [0..<length parsed]))" by simp
  also have "\<dots> = filter (\<lambda>j. ti_parent (placed_items style m parsed ! j) = Some i) [0..<length parsed]"
    unfolding filter_map map_map comp_def by (rule map_idI) (auto simp: tree_item_def)
  finally show ?thesis .
qed

lemma parent_found:
  assumes "keyed style parsed m" "place_problem style parsed m [] item = None" "parent_index style m (pi_relPath item) = Some p"
  shows "p < length parsed \<and> pi_kind (parsed ! p) = Dir
     \<and> path_key style (pi_relPath item) = path_key style (pi_relPath (parsed ! p) @ slash # after_last slash (pi_relPath item))
     \<and> depth (pi_relPath (parsed ! p)) < depth (pi_relPath item)"
proof -
  obtain q where q: "parent_path (pi_relPath item) = Some q" "map_get m (path_key style q) = Some p"
    using assms(3) by (auto simp: parent_index_def bind_eq_Some_conv)
  have key: "p < length parsed" "item_key style (parsed ! p) = path_key style q" using assms(1) q(2) by (auto simp: keyed_def)
  have "pi_kind (parsed ! p) = Dir"
    using assms(2,3) q(1) by (auto simp: place_problem_def split: if_splits)
  moreover have "depth (pi_relPath (parsed ! p)) = depth q" using key(2) by (metis depth_key)
  moreover have "path_key style (pi_relPath item) = path_key style (q @ slash # after_last slash (pi_relPath item))"
    using parent_path_split [OF q(1)] by simp
  then have "path_key style (pi_relPath item) = path_key style (pi_relPath (parsed ! p) @ slash # after_last slash (pi_relPath item))"
    using key(2) by (simp add: path_key_append)
  ultimately show ?thesis using key(1) depth_parent [OF q(1)] by simp
qed


text \<open>What the accepted request gives the tree's items.\<close>

lemma accepted_items:
  assumes "request_ok style dir raw"
  obtains parsed m where "parsed = map parse_item raw" "keyed style parsed m"
    "bt_items (upload_tree_of sha256 style raw) = link_children (placed_items style m parsed) (placed_items style m parsed)"
    "\<forall>item \<in> set parsed. place_problem style parsed m [] item = None"
proof -
  define parsed where "parsed = map parse_item raw"
  obtain m d n where k: "key_items style parsed 0 parsed [] = (m, d, n)" by (metis prod_cases3)
  have "d = []" "n = []" using key_items_distinct [OF k] assms by (simp_all add: request_ok_def parsed_def)
  then have keyed: "keyed style parsed m" using k by (simp add: key_items_keyed)
  moreover have "\<forall>item \<in> set parsed. place_problem style parsed m [] item = None"
    using assms unfolding place_problem_None [OF keyed] unfolding parsed_def parents_iff by (simp add: request_ok_def)
  ultimately show thesis using that [of parsed m] k by (simp add: upload_tree_of_def Let_def flip: parsed_def)
qed

lemma top_level:
  assumes "place_problem style parsed m [] item = None"
  shows "parent_index style m (pi_relPath item) = None \<longleftrightarrow> pi_relPath item = after_last slash (pi_relPath item)"
proof (cases "parent_path (pi_relPath item)")
  case None
  then have "lastIndexOf slash (pi_relPath item) = None" by (simp add: parent_path_def)
  then show ?thesis using None by (simp add: parent_index_def after_last_def)
next
  case (Some p)
  then have "parent_index style m (pi_relPath item) \<noteq> None" using assms by (auto simp: place_problem_def split: option.splits)
  moreover have "pi_relPath item \<noteq> after_last slash (pi_relPath item)"
    using arg_cong [OF conjunct1 [OF parent_path_split [OF Some]], of length] by auto
  ultimately show ?thesis by simp
qed

lemma built_items_wf:
  assumes ok: "request_ok style dir raw" and i: "i < length raw" and items_def: "items = bt_items (upload_tree_of sha256 style raw)"
  shows "item_wf style items i" and "ti_relPath (items ! i) = item_path (raw ! i)" and "ti_kind (items ! i) = pi_kind (parse_item (raw ! i))"
    and "ti_size (items ! i) = pi_size (parse_item (raw ! i))" and "length items = length raw"
    and "\<forall>p. ti_parent (items ! i) = Some p \<longrightarrow> p < length items \<and> depth (ti_relPath (items ! p)) < depth (ti_relPath (items ! i))"
proof -
  obtain parsed m where parsed: "parsed = map parse_item raw" and keyed: "keyed style parsed m"
    and items: "items = link_children (placed_items style m parsed) (placed_items style m parsed)"
    and placed: "\<forall>item \<in> set parsed. place_problem style parsed m [] item = None"
    using accepted_items [OF ok, of sha256] unfolding items_def by metis
  have len: "length parsed = length raw" "length items = length raw" by (simp_all add: parsed items)
  have nth: "items ! j = (tree_item style m j (parse_item (raw ! j)))\<lparr>ti_children := filter (\<lambda>k. ti_parent (placed_items style m parsed ! k) = Some j) [0..<length raw]\<rparr>"
    if "j < length raw" for j
    using that by (simp add: items link_children_nth linked_children len) (simp add: parsed tree_item_def)
  then show "ti_relPath (items ! i) = item_path (raw ! i)" "ti_kind (items ! i) = pi_kind (parse_item (raw ! i))"
    "ti_size (items ! i) = pi_size (parse_item (raw ! i))" "length items = length raw"
    using i len by (simp_all add: tree_item_def)
  have parents: "ti_parent (items ! j) = ti_parent (placed_items style m parsed ! j)" if "j < length raw" for j
    using nth [OF that] that by (simp add: len tree_item_def parsed)
  have found: "p < length items \<and> ti_kind (items ! p) = Dir \<and> path_key style (ti_relPath (items ! i)) = path_key style (ti_relPath (items ! p) @ slash # ti_name (items ! i))
      \<and> depth (ti_relPath (items ! p)) < depth (ti_relPath (items ! i))" if "ti_parent (items ! i) = Some p" for p
    using parent_found [OF keyed, of "parse_item (raw ! i)" p] placed that nth [of p] nth [OF i] i len by (auto simp: parsed tree_item_def)
  then show "\<forall>p. ti_parent (items ! i) = Some p \<longrightarrow> p < length items \<and> depth (ti_relPath (items ! p)) < depth (ti_relPath (items ! i))" by blast
  have top: "ti_parent (items ! i) = None \<longleftrightarrow> ti_relPath (items ! i) = ti_name (items ! i)"
    using top_level [of style parsed m "parse_item (raw ! i)"] placed i by (simp add: nth tree_item_def parsed)
  have children: "ti_children (items ! i) = filter (\<lambda>j. ti_parent (items ! j) = Some i) [0..<length items]"
    unfolding nth [OF i] len using parents by (auto intro: filter_cong)
  show "item_wf style items i"
    unfolding item_wf_def Let_def
    using found top children parse_item_size [of "raw ! i"] accepted_path [of "raw ! i"] ok i after_last_in_split
    by (auto simp: request_ok_def nth [OF i] tree_item_def)
qed


lemma built_tree_lists:
  assumes ok: "request_ok style dir raw"
  shows "map ti_relPath (bt_items (upload_tree_of sha256 style raw)) = map item_path raw"
    and "map ti_kind (bt_items (upload_tree_of sha256 style raw)) = map (\<lambda>item. pi_kind (parse_item item)) raw"
    and "map ti_size (bt_items (upload_tree_of sha256 style raw)) = map (\<lambda>item. pi_size (parse_item item)) raw"
proof -
  have len: "length (bt_items (upload_tree_of sha256 style raw)) = length raw"
    by (cases "raw = []") (use built_items_wf(5) [OF ok, of 0] in \<open>auto simp: upload_tree_of_def Let_def\<close>)
  show "map ti_relPath (bt_items (upload_tree_of sha256 style raw)) = map item_path raw"
    "map ti_kind (bt_items (upload_tree_of sha256 style raw)) = map (\<lambda>item. pi_kind (parse_item item)) raw"
    "map ti_size (bt_items (upload_tree_of sha256 style raw)) = map (\<lambda>item. pi_size (parse_item item)) raw"
    using built_items_wf(2-4) [OF ok _ refl, of _ sha256] len by (auto intro!: nth_equalityI)
qed

lemma length_filter_map: "length (filter P (map f xs)) = length (filter (P \<circ> f) xs)"
  by (simp add: filter_map)

lemma built_tree_wf:
  assumes ok: "request_ok style dir raw"
  shows "tree_wf style (upload_tree_of sha256 style raw)"
proof -
  define t where "t = upload_tree_of sha256 style raw"
  note lists = built_tree_lists [OF ok, of sha256, folded t_def]
  have len: "length (bt_items t) = length raw" using arg_cong [OF lists(1), of length] by simp
  have wf: "item_wf style (bt_items t) i" if "i < length raw" for i using built_items_wf(1) [OF ok that] by (simp add: t_def)
  have ids: "\<forall>j < length (bt_items t). ti_id (bt_items t ! j) = j" using wf by (simp add: item_wf_def Let_def len)
  have order: "bt_order t = tree_order (bt_items t)" by (simp add: t_def upload_tree_of_def Let_def)
  have perm: "mset (bt_order t) = mset [0..<length (bt_items t)]" using tree_order_perm [OF ids] order by simp
  have before: "p \<in> set xs" if "bt_order t = xs @ i # ys" "ti_parent (bt_items t ! i) = Some p" for xs i ys p
  proof -
    have i: "i < length raw" using arg_cong [OF perm, of set_mset] that(1) len by auto
    show ?thesis
      using tree_order_parents [of "bt_items t" xs i ys p] that ids order i built_items_wf(6) [OF ok i refl, of sha256] len by (simp add: t_def)
  qed
  have "distinct (map (path_key style) (map ti_relPath (bt_items t)))" using ok by (simp add: lists(1) request_ok_def comp_def)
  moreover have "bt_files t = length (filter (\<lambda>k. k = File) (map ti_kind (bt_items t)))"
    unfolding lists(2) by (simp add: t_def upload_tree_of_def Let_def file_count_def length_filter_map comp_def)
  moreover have "bt_files t \<le> TRANSFER_MAX_FILES" using ok by (simp add: t_def upload_tree_of_def Let_def request_ok_def)
  moreover have "bt_bytes t = sum_list (map ti_size (bt_items t))"
    unfolding lists(3) using parse_item_size byte_count_all [of "map parse_item raw"] by (simp add: t_def upload_tree_of_def Let_def comp_def)
  ultimately show ?thesis using wf perm before len by (auto simp: tree_wf_def length_filter_map comp_def simp flip: t_def)
qed

text \<open>
  C28: Every upload tree the hub builds is well formed. Items are numbered in the order given; each has a valid relative path of
  names, a size of whole bytes (0 for a folder), its folder as parent, and exactly its own items as children; no path is
  there twice, on Windows not even in another case; the order of work lists every item once and every folder before what
  is in it; and the totals count the files and their bytes.
\<close>

theorem upload_tree_well_formed:
  assumes "buildUploadTree sha256 (Some raw) style dir = TreeBuilt t"
  shows "tree_wf style t"
  using assms built_tree_wf by (auto simp: buildUploadTree_built)

definition sample_upload :: "TransferStartItem list" where
  "sample_upload =
     [\<lparr>si_relPath = Some ''a/b.txt'', si_kind = Some File, si_size = Number (IntNum 3), si_mtime = Undefined\<rparr>,
      \<lparr>si_relPath = Some ''A'', si_kind = Some Dir, si_size = Undefined, si_mtime = Number (IntNum 7)\<rparr>]"

lemma sample_upload_ok: "request_ok Windows ''C:'' sample_upload"
proof -
  have "\<forall>item \<in> set sample_upload. folder_listed Windows sample_upload item" by code_simp
  moreover have "\<forall>item \<in> set sample_upload. names_fit ''C:'' (item_path item)" by code_simp
  moreover have "distinct (map (item_key Windows) (map parse_item sample_upload))" by code_simp
  moreover have "\<forall>item \<in> set sample_upload. item_problem item = None" by code_simp
  moreover have "file_count (map parse_item sample_upload) = 1" "length sample_upload = 2" "sample_upload \<noteq> []" by code_simp+
  ultimately show ?thesis by (simp add: request_ok_def TRANSFER_MAX_ITEMS_def TRANSFER_MAX_FILES_def)
qed

theorem upload_tree_well_formed_witness:
  "tree_wf Windows (upload_tree_of (\<lambda>s. s) Windows sample_upload)"
  using upload_tree_well_formed [of "\<lambda>s. s" sample_upload Windows "''C:''"] sample_upload_ok by (simp add: buildUploadTree_built)

text \<open>
  C29: An upload is refused only for cause, and the order a client lists it in does not matter. The tree is built exactly when
  there are items within the limits, each item is well formed, no two have the same path (but for case, on Windows), each
  one's folder is in the upload as a folder, and on a Windows host each name is one Windows takes and each full path fits;
  and any other listing of the same items is accepted too, with the same signature, files and bytes.
\<close>

theorem upload_tree_exact:
  assumes "mset raw = mset raw'"
  shows "((\<exists>t. buildUploadTree sha256 (Some raw) style dir = TreeBuilt t) \<longleftrightarrow> request_ok style dir raw)
     \<and> (\<forall>t. buildUploadTree sha256 (Some raw) style dir = TreeBuilt t \<longrightarrow>
          (\<exists>t'. buildUploadTree sha256 (Some raw') style dir = TreeBuilt t'
             \<and> bt_signature t' = bt_signature t \<and> bt_files t' = bt_files t \<and> bt_bytes t' = bt_bytes t))"
proof -
  let ?p = "map parse_item raw" and ?p' = "map parse_item raw'"
  have mset: "mset ?p = mset ?p'" using assms by simp
  have set: "set raw = set raw'" and len: "length raw = length raw'" using assms by (auto dest: mset_eq_setD mset_eq_length)
  have keys: "distinct (map (item_key style) ?p) \<longleftrightarrow> distinct (map (item_key style) ?p')"
    using mset by (metis mset_eq_imp_distinct_iff mset_map)
  have files: "file_count ?p = file_count ?p'" using mset unfolding file_count_def by (metis mset_filter size_mset)
  have "sum_mset (image_mset pi_size (filter_mset (\<lambda>p. pi_kind p = File) (mset ?p))) = byte_count ?p"
    "sum_mset (image_mset pi_size (filter_mset (\<lambda>p. pi_kind p = File) (mset ?p'))) = byte_count ?p'"
    unfolding byte_count_def by (simp_all add: sum_mset_sum_list flip: mset_filter mset_map)
  then have bytes: "byte_count ?p = byte_count ?p'" using mset by metis
  have ok: "request_ok style dir raw \<longleftrightarrow> request_ok style dir raw'"
    unfolding request_ok_def folder_listed_def set keys files len using len by (cases "raw = []") auto
  have sign: "tree_signature sha256 ?p = tree_signature sha256 ?p'" if "request_ok style dir raw"
    using that mset by (intro tree_signature_order) (auto simp: request_ok_def distinct_map inj_on_def)
  show ?thesis using ok sign files bytes by (auto simp: buildUploadTree_built upload_tree_of_def Let_def)
qed

theorem upload_tree_exact_witness:
  "mset (rev sample_upload) = mset sample_upload \<and> (\<exists>t. buildUploadTree (\<lambda>s. s) (Some sample_upload) Windows ''C:'' = TreeBuilt t)"
  using upload_tree_exact [of sample_upload "rev sample_upload" "\<lambda>s. s" Windows "''C:''"] sample_upload_ok by simp

end
