(* ===== verification/Known_Hosts.thy ===== *)
theory Known_Hosts
  imports JS_Strings
begin

text \<open>
  What OpenSSH's \<^verbatim>\<open>known_hosts\<close> files say of a host's key: \<^verbatim>\<open>packages/hub/src/ssh/known-hosts.ts\<close> and \<^verbatim>\<open>fingerprint.ts\<close>. HMAC-SHA1,
  SHA-256 with base64, and Node's reading of base64 are parameters (the record \<open>crypto\<close>), as are the files. A
  regular expression made from a pattern is the matcher it stands for (\<open>glob\<close>). The theorems: the shortcut for patterns without wildcards
  is the general matcher, a line is read exactly, and a revocation is never overridden.
\<close>

record crypto =
  hmac_sha1 :: "byte list \<Rightarrow> string \<Rightarrow> byte list"
  sha256_base64 :: "byte list \<Rightarrow> string"
  from_base64 :: "string \<Rightarrow> byte list"

section \<open>Fingerprints\<close>

definition strip_padding :: "string \<Rightarrow> string" where
  "strip_padding s = rev (dropWhile (\<lambda>c. c = CHR ''='') (rev s))"

definition fingerprintOf :: "crypto \<Rightarrow> byte list \<Rightarrow> string" where
  "fingerprintOf cr keyBlob = ''SHA256:'' @ strip_padding (sha256_base64 cr keyBlob)"

definition normalizeFingerprint :: "string \<Rightarrow> string" where
  "normalizeFingerprint fingerprint = strip_padding fingerprint"

section \<open>Patterns\<close>

record KnownHostsMatch =
  km_fingerprint :: string
  km_file :: string
  km_line :: nat
  km_revoked :: bool

record KnownHostsSource =
  ks_file :: string
  ks_contents :: string

definition line_end :: "char \<Rightarrow> bool" where
  "line_end c = (c = CHR 0x0A \<or> c = CHR 0x0D)"

definition same_letter :: "char \<Rightarrow> char \<Rightarrow> bool" where
  "same_letter a b = (lower [a] = lower [b])"

text \<open>The regular expression of a pattern, case ignored: a dot stands for any character but a line's end.\<close>

function glob :: "string \<Rightarrow> string \<Rightarrow> bool" where
  "glob [] n = (n = [])"
| "glob (p # ps) n =
     (if p = CHR ''*'' then glob ps n \<or> (case n of [] \<Rightarrow> False | c # cs \<Rightarrow> \<not> line_end c \<and> glob (p # ps) cs)
      else case n of
        [] \<Rightarrow> False
      | c # cs \<Rightarrow> (if p = CHR ''?'' then \<not> line_end c else same_letter p c) \<and> glob ps cs)"
  by pat_completeness auto
termination
  by (relation "measure (\<lambda>(p, n). length p + length n)") auto

declare glob.simps(2) [simp del]

definition plainPatternMatches :: "string \<Rightarrow> string \<Rightarrow> bool" where
  "plainPatternMatches pattern name =
     (if CHR ''*'' \<notin> set pattern \<and> CHR ''?'' \<notin> set pattern then lower pattern = lower name
      else glob pattern name)"

definition hashedNameMatches :: "crypto \<Rightarrow> string \<Rightarrow> string \<Rightarrow> bool" where
  "hashedNameMatches cr pattern name =
     (let parts = split_on (CHR ''|'') pattern in
      if length parts \<noteq> 4 \<or> parts ! 1 \<noteq> ''1'' then False
      else let salt = from_base64 cr (parts ! 2); expected = from_base64 cr (parts ! 3) in
        if salt = [] \<or> expected = [] then False
        else let actual = hmac_sha1 cr salt name in
          if length actual \<noteq> length expected then False else actual = expected)"

definition knownHostsNames :: "string \<Rightarrow> nat \<Rightarrow> string list" where
  "knownHostsNames host port = (if port = 22 then [host] else [''['' @ host @ '']:'' @ dec port])"

definition pattern_hit :: "crypto \<Rightarrow> string \<Rightarrow> string list \<Rightarrow> bool" where
  "pattern_hit cr bare names =
     (if starts_with ''|1|'' bare then list_ex (hashedNameMatches cr bare) names else list_ex (plainPatternMatches bare) names)"

fun lineMatches_from :: "crypto \<Rightarrow> string list \<Rightarrow> bool \<Rightarrow> string list \<Rightarrow> bool" where
  "lineMatches_from cr names matched [] = matched"
| "lineMatches_from cr names matched (raw # rest) =
     (let pattern = trim raw in
      if pattern = [] then lineMatches_from cr names matched rest
      else let negated = starts_with ''!'' pattern;
               bare = (if negated then drop 1 pattern else pattern);
               hit = pattern_hit cr bare names
        in if hit \<and> negated then False
           else lineMatches_from cr names (if hit then True else matched) rest)"

definition lineMatchesHost :: "crypto \<Rightarrow> string \<Rightarrow> string list \<Rightarrow> bool" where
  "lineMatchesHost cr patterns names = lineMatches_from cr names False (split_on (CHR '','') patterns)"

section \<open>Files\<close>

text \<open>\<open>split(/\r?\n/)\<close>.\<close>

definition drop_cr :: "string \<Rightarrow> string" where
  "drop_cr s = (if s \<noteq> [] \<and> last s = CHR 0x0D then butlast s else s)"

definition split_lines :: "string \<Rightarrow> string list" where
  "split_lines s = (let ls = split_on (CHR 0x0A) s in map drop_cr (butlast ls) @ [last ls])"

text \<open>What one line says: the fingerprint and whether it revokes it, or nothing.\<close>

definition after_marker :: "string \<Rightarrow> (bool \<times> string) option" where
  "after_marker line =
     (if starts_with ''@'' line then
        (let parts = split_spaces line; marker = hd parts in
         if marker = ''@cert-authority'' then None
         else if marker \<noteq> ''@revoked'' then None
         else Some (True, join '' '' (tl parts)))
      else Some (False, line))"

definition known_line :: "crypto \<Rightarrow> string list \<Rightarrow> string \<Rightarrow> (string \<times> bool) option" where
  "known_line cr names raw =
     (let line = trim raw in
      if line = [] \<or> starts_with ''#'' line then None
      else case after_marker line of
        None \<Rightarrow> None
      | Some (revoked, rest) \<Rightarrow>
          (case split_spaces rest of
             patterns # keyType # encodedKey # _ \<Rightarrow>
               if patterns = [] \<or> keyType = [] \<or> encodedKey = [] then None
               else if \<not> lineMatchesHost cr patterns names then None
               else let keyBlob = from_base64 cr encodedKey in
                 if keyBlob = [] then None else Some (fingerprintOf cr keyBlob, revoked)
           | _ \<Rightarrow> None))"

fun known_lines :: "crypto \<Rightarrow> string list \<Rightarrow> string \<Rightarrow> nat \<Rightarrow> string list \<Rightarrow> KnownHostsMatch list" where
  "known_lines cr names file index [] = []"
| "known_lines cr names file index (raw # rest) =
     (case known_line cr names raw of
        None \<Rightarrow> known_lines cr names file (index + 1) rest
      | Some (fingerprint, revoked) \<Rightarrow>
          \<lparr>km_fingerprint = fingerprint, km_file = file, km_line = index + 1, km_revoked = revoked\<rparr> # known_lines cr names file (index + 1) rest)"

definition findKnownHostKeys :: "crypto \<Rightarrow> string \<Rightarrow> nat \<Rightarrow> KnownHostsSource list \<Rightarrow> KnownHostsMatch list" where
  "findKnownHostKeys cr host port sources =
     (let names = knownHostsNames host port
      in concat (map (\<lambda>source. known_lines cr names (ks_file source) 0 (split_lines (ks_contents source))) sources))"

definition USER_KNOWN_HOSTS_FILES :: "string list" where
  "USER_KNOWN_HOSTS_FILES = [''known_hosts'', ''known_hosts2'']"

text \<open>\<open>ssh_file\<close> is the path of a file of \<^verbatim>\<open>~/.ssh\<close>, \<open>read\<close> its contents, if it can be read.\<close>

definition readUserKnownHosts :: "(string \<Rightarrow> string) \<Rightarrow> (string \<Rightarrow> string option) \<Rightarrow> KnownHostsSource list" where
  "readUserKnownHosts ssh_file read =
     concat (map (\<lambda>name. case read (ssh_file name) of
        None \<Rightarrow> [] | Some contents \<Rightarrow> [\<lparr>ks_file = ssh_file name, ks_contents = contents\<rparr>]) USER_KNOWN_HOSTS_FILES)"

section \<open>The verdict\<close>

datatype KnownHostsVerdict = KeyTrusted string nat | KeyRevoked string nat | KeyOther string nat | KeyUnknown

definition judgeAgainstKnownHosts :: "string \<Rightarrow> KnownHostsMatch list \<Rightarrow> KnownHostsVerdict" where
  "judgeAgainstKnownHosts offeredFingerprint matches =
     (let offered = normalizeFingerprint offeredFingerprint in
      case List.find (\<lambda>m. km_revoked m \<and> km_fingerprint m = offered) matches of
        Some m \<Rightarrow> KeyRevoked (km_file m) (km_line m)
      | None \<Rightarrow>
          (case List.find (\<lambda>m. \<not> km_revoked m \<and> km_fingerprint m = offered) matches of
             Some m \<Rightarrow> KeyTrusted (km_file m) (km_line m)
           | None \<Rightarrow>
               (case List.find (\<lambda>m. \<not> km_revoked m) matches of
                  Some m \<Rightarrow> KeyOther (km_file m) (km_line m)
                | None \<Rightarrow> KeyUnknown)))"

definition findHostKeyRevocation :: "crypto \<Rightarrow> (string \<Rightarrow> string) \<Rightarrow> (string \<Rightarrow> string option) \<Rightarrow> string \<Rightarrow> string list \<Rightarrow> nat \<Rightarrow> (string \<times> nat) option" where
  "findHostKeyRevocation cr ssh_file read fingerprint names port =
     (let sources = readUserKnownHosts ssh_file read
      in case judgeAgainstKnownHosts fingerprint (concat (map (\<lambda>name. findKnownHostKeys cr name port sources) names)) of
           KeyRevoked file line \<Rightarrow> Some (file, line)
         | _ \<Rightarrow> None)"

section \<open>Patterns against their meaning\<close>

text \<open>What a pattern stands for: a star any run, a question mark any character, a letter itself in either case.\<close>

inductive stands_for :: "string \<Rightarrow> string \<Rightarrow> bool" where
  none: "stands_for [] []"
| star: "stands_for ps n \<Longrightarrow> list_all (\<lambda>c. \<not> line_end c) run \<Longrightarrow> stands_for (CHR ''*'' # ps) (run @ n)"
| any: "stands_for ps n \<Longrightarrow> \<not> line_end c \<Longrightarrow> stands_for (CHR ''?'' # ps) (c # n)"
| letter: "stands_for ps n \<Longrightarrow> p \<noteq> CHR ''*'' \<Longrightarrow> p \<noteq> CHR ''?'' \<Longrightarrow> same_letter p c \<Longrightarrow> stands_for (p # ps) (c # n)"

inductive_cases stands_for_Cons: "stands_for (p # ps) n"

lemma stands_for_Nil [simp]: "stands_for [] n \<longleftrightarrow> n = []"
  by (auto elim: stands_for.cases intro: stands_for.none)

lemma glob_star: "list_all (\<lambda>c. \<not> line_end c) run \<Longrightarrow> glob ps n \<Longrightarrow> glob (CHR ''*'' # ps) (run @ n)"
  by (induction run) (auto simp: glob.simps(2))

lemma stands_for_glob: "stands_for p n \<Longrightarrow> glob p n"
  by (induction rule: stands_for.induct) (auto simp: glob_star, auto simp: glob.simps(2))

lemma glob_stands_for: "glob p n \<Longrightarrow> stands_for p n"
proof (induction p n rule: glob.induct)
  case (2 p ps n)
  note step = glob.simps(2) [of p ps n]
  show ?case
  proof (cases "p = CHR ''*''")
    case star: True
    show ?thesis
    proof (cases "glob ps n")
      case True
      then have "stands_for ps n" using 2(1) star by simp
      then show ?thesis using stands_for.star [of ps n "[]"] star by simp
    next
      case False
      then obtain c cs where n: "n = c # cs" "\<not> line_end c" "glob (p # ps) cs"
        using 2(4) star unfolding step by (cases n) auto
      then have "stands_for (p # ps) cs" using 2(2) star by simp
      then obtain run m where "cs = run @ m" "stands_for ps m" "list_all (\<lambda>c. \<not> line_end c) run"
        using star by (auto elim: stands_for_Cons)
      then show ?thesis using stands_for.star [of ps m "c # run"] n(1,2) star by simp
    qed
  next
    case False
    then obtain c cs where n: "n = c # cs" "if p = CHR ''?'' then \<not> line_end c else same_letter p c" "glob ps cs"
      using 2(4) unfolding step by (cases n) auto
    then have "stands_for ps cs" using 2(3) False by simp
    then show ?thesis using n False by (cases "p = CHR ''?''") (auto intro: stands_for.any stands_for.letter)
  qed
qed simp

theorem glob_exact: "glob p n \<longleftrightarrow> stands_for p n"
  by (blast intro: glob_stands_for stands_for_glob)

text \<open>Without wildcards the comparison of the two texts is the same.\<close>

lemma glob_plain: "CHR ''*'' \<notin> set p \<Longrightarrow> CHR ''?'' \<notin> set p \<Longrightarrow> glob p n \<longleftrightarrow> lower p = lower n"
proof (induction p arbitrary: n)
  case (Cons x p)
  then show ?case by (cases n) (auto simp: glob.simps(2) same_letter_def lower_def)
qed (auto simp: lower_def)

lemma plainPatternMatches_glob: "plainPatternMatches p n \<longleftrightarrow> stands_for p n"
  by (simp add: plainPatternMatches_def glob_plain flip: glob_exact)


section \<open>What is read\<close>

text \<open>A pattern list matches when one of its patterns does and none of its negations.\<close>

definition pattern_of :: "string \<Rightarrow> bool \<times> string" where
  "pattern_of raw = (let p = trim raw in if starts_with ''!'' p then (True, drop 1 p) else (False, p))"

lemma lineMatches_from_exact:
  "lineMatches_from cr names matched raws \<longleftrightarrow>
     (\<forall>raw \<in> set raws. trim raw \<noteq> [] \<longrightarrow> \<not> (fst (pattern_of raw) \<and> pattern_hit cr (snd (pattern_of raw)) names))
     \<and> (matched \<or> (\<exists>raw \<in> set raws. trim raw \<noteq> [] \<and> \<not> fst (pattern_of raw) \<and> pattern_hit cr (snd (pattern_of raw)) names))"
  by (induction raws arbitrary: matched) (auto simp: pattern_of_def Let_def)

lemma known_lines_exact:
  "m \<in> set (known_lines cr names file i raws) \<longleftrightarrow>
     km_file m = file \<and> (\<exists>j < length raws. km_line m = i + j + 1 \<and> known_line cr names (raws ! j) = Some (km_fingerprint m, km_revoked m))"
proof (induction raws arbitrary: i)
  case (Cons raw raws)
  have cut: "(\<exists>j < length (raw # raws). km_line m = i + j + 1 \<and> known_line cr names ((raw # raws) ! j) = Some (km_fingerprint m, km_revoked m))
    \<longleftrightarrow> km_line m = i + 1 \<and> known_line cr names raw = Some (km_fingerprint m, km_revoked m)
       \<or> (\<exists>j < length raws. km_line m = i + 1 + j + 1 \<and> known_line cr names (raws ! j) = Some (km_fingerprint m, km_revoked m))"
    unfolding length_Cons Ex_less_Suc2 by simp
  show ?case
  proof (cases "known_line cr names raw")
    case None
    then show ?thesis unfolding cut using Cons by simp
  next
    case (Some fr)
    obtain f r where fr: "fr = (f, r)" by fastforce
    have "m = \<lparr>km_fingerprint = f, km_file = file, km_line = i + 1, km_revoked = r\<rparr>
      \<longleftrightarrow> km_file m = file \<and> km_line m = i + 1 \<and> known_line cr names raw = Some (km_fingerprint m, km_revoked m)"
      using Some fr by (cases m) auto
    then show ?thesis unfolding cut using Cons [of "i + 1"] Some fr by auto
  qed
qed simp

text \<open>A line of these files says this of a key of the host: \<open>revoked\<close> or not.\<close>

definition line_says :: "crypto \<Rightarrow> string list \<Rightarrow> nat \<Rightarrow> KnownHostsSource list \<Rightarrow> string \<Rightarrow> bool \<Rightarrow> string \<Rightarrow> nat \<Rightarrow> bool" where
  "line_says cr hosts port sources fingerprint revoked file line \<longleftrightarrow>
     (\<exists>host \<in> set hosts. \<exists>source \<in> set sources. ks_file source = file \<and> 1 \<le> line \<and> line \<le> length (split_lines (ks_contents source))
        \<and> known_line cr (knownHostsNames host port) (split_lines (ks_contents source) ! (line - 1)) = Some (fingerprint, revoked))"

definition found_keys :: "crypto \<Rightarrow> string list \<Rightarrow> nat \<Rightarrow> KnownHostsSource list \<Rightarrow> KnownHostsMatch list" where
  "found_keys cr hosts port sources = concat (map (\<lambda>host. findKnownHostKeys cr host port sources) hosts)"

lemma known_lines_at:
  "m \<in> set (known_lines cr names file 0 raws) \<longleftrightarrow>
     file = km_file m \<and> 1 \<le> km_line m \<and> km_line m \<le> length raws
     \<and> known_line cr names (raws ! (km_line m - 1)) = Some (km_fingerprint m, km_revoked m)"
  unfolding known_lines_exact by (cases "km_line m") auto

lemma found_keys_exact:
  "m \<in> set (found_keys cr hosts port sources) \<longleftrightarrow> line_says cr hosts port sources (km_fingerprint m) (km_revoked m) (km_file m) (km_line m)"
  by (simp add: found_keys_def line_says_def findKnownHostKeys_def Let_def known_lines_at)

lemma find_SomeD: "List.find P xs = Some x \<Longrightarrow> x \<in> set xs \<and> P x"
  by (metis find_Some_iff nth_mem)

text \<open>The four ways a verdict comes about.\<close>

lemma judge_cases:
  obtains (revoked) m where "judgeAgainstKnownHosts offered matches = KeyRevoked (km_file m) (km_line m)" "m \<in> set matches"
      "km_revoked m" "km_fingerprint m = normalizeFingerprint offered"
  | (trusted) m where "judgeAgainstKnownHosts offered matches = KeyTrusted (km_file m) (km_line m)" "m \<in> set matches"
      "\<not> km_revoked m" "km_fingerprint m = normalizeFingerprint offered"
      "\<forall>m \<in> set matches. km_revoked m \<longrightarrow> km_fingerprint m \<noteq> normalizeFingerprint offered"
  | (other) m where "judgeAgainstKnownHosts offered matches = KeyOther (km_file m) (km_line m)" "m \<in> set matches"
      "\<not> km_revoked m" "\<forall>m \<in> set matches. km_fingerprint m \<noteq> normalizeFingerprint offered"
  | (unknown) "judgeAgainstKnownHosts offered matches = KeyUnknown" "\<forall>m \<in> set matches. km_revoked m \<and> km_fingerprint m \<noteq> normalizeFingerprint offered"
proof (cases "List.find (\<lambda>m. km_revoked m \<and> km_fingerprint m = normalizeFingerprint offered) matches")
  case (Some m)
  then show thesis using revoked [of m] find_SomeD [OF Some] by (simp add: judgeAgainstKnownHosts_def Let_def)
next
  case none: None
  then have none': "\<forall>m \<in> set matches. km_revoked m \<longrightarrow> km_fingerprint m \<noteq> normalizeFingerprint offered" by (auto simp: find_None_iff)
  show thesis
  proof (cases "List.find (\<lambda>m. \<not> km_revoked m \<and> km_fingerprint m = normalizeFingerprint offered) matches")
    case (Some m)
    then show thesis using trusted [of m] find_SomeD [OF Some] none none' by (simp add: judgeAgainstKnownHosts_def Let_def)
  next
    case no: None
    then have no': "\<forall>m \<in> set matches. km_fingerprint m \<noteq> normalizeFingerprint offered" using none' by (auto simp: find_None_iff)
    show thesis
    proof (cases "List.find (\<lambda>m. \<not> km_revoked m) matches")
      case (Some m)
      then show thesis using other [of m] find_SomeD [OF Some] none no no' by (simp add: judgeAgainstKnownHosts_def Let_def)
    next
      case None
      then have "\<forall>m \<in> set matches. km_revoked m" by (auto simp: find_None_iff)
      then show thesis using unknown None none no no' by (simp add: judgeAgainstKnownHosts_def Let_def)
    qed
  qed
qed

lemma found_ex: "(\<exists>m \<in> set (found_keys cr hosts port sources). P (km_fingerprint m) (km_revoked m) (km_file m) (km_line m))
   \<longleftrightarrow> (\<exists>f r file line. line_says cr hosts port sources f r file line \<and> P f r file line)"
proof
  assume "\<exists>f r file line. line_says cr hosts port sources f r file line \<and> P f r file line"
  then obtain f r fl ln where says: "line_says cr hosts port sources f r fl ln" "P f r fl ln" by blast
  then show "\<exists>m \<in> set (found_keys cr hosts port sources). P (km_fingerprint m) (km_revoked m) (km_file m) (km_line m)"
    by (intro bexI [of _ "\<lparr>km_fingerprint = f, km_file = fl, km_line = ln, km_revoked = r\<rparr>"]) (simp_all add: found_keys_exact)
next
  assume "\<exists>m \<in> set (found_keys cr hosts port sources). P (km_fingerprint m) (km_revoked m) (km_file m) (km_line m)"
  then obtain m :: KnownHostsMatch where m: "line_says cr hosts port sources (km_fingerprint m) (km_revoked m) (km_file m) (km_line m)"
      "P (km_fingerprint m) (km_revoked m) (km_file m) (km_line m)" by (auto simp: found_keys_exact)
  then show "\<exists>f r file line. line_says cr hosts port sources f r file line \<and> P f r file line" by (intro exI conjI)
qed

lemma verdict_exact:
  fixes cr hosts port sources offered
  defines "v \<equiv> judgeAgainstKnownHosts offered (found_keys cr hosts port sources)"
    and "n \<equiv> normalizeFingerprint offered" and "says \<equiv> line_says cr hosts port sources"
  shows "((\<exists>file line. v = KeyRevoked file line) \<longleftrightarrow> (\<exists>file line. says n True file line))
     \<and> ((\<exists>file line. v = KeyTrusted file line) \<longleftrightarrow> (\<exists>file line. says n False file line) \<and> \<not> (\<exists>file line. says n True file line))
     \<and> (v = KeyUnknown \<longleftrightarrow> \<not> (\<exists>f file line. says f False file line) \<and> \<not> (\<exists>file line. says n True file line))
     \<and> (\<forall>file line. (v = KeyRevoked file line \<longrightarrow> says n True file line) \<and> (v = KeyTrusted file line \<longrightarrow> says n False file line)
          \<and> (v = KeyOther file line \<longrightarrow> (\<exists>f. f \<noteq> n \<and> says f False file line)))"
proof -
  let ?ms = "found_keys cr hosts port sources"
  have v: "v = judgeAgainstKnownHosts offered ?ms" by (simp add: v_def)
  have ex: "(\<exists>m \<in> set ?ms. P (km_fingerprint m) (km_revoked m) (km_file m) (km_line m)) \<longleftrightarrow> (\<exists>f r file line. says f r file line \<and> P f r file line)" for P
    unfolding says_def by (rule found_ex)
  have says: "says (km_fingerprint m) (km_revoked m) (km_file m) (km_line m)" if "m \<in> set ?ms" for m
    using that by (simp add: says_def found_keys_exact)
  have no: "\<not> P f r" if "\<forall>m \<in> set ?ms. \<not> P (km_fingerprint m) (km_revoked m)" "says f r fl ln" for P f r fl ln
    using that ex [of "\<lambda>f r _ _. P f r"] by blast
  show ?thesis
  proof (cases rule: judge_cases [of offered ?ms])
    case (revoked m)
    then show ?thesis using says [of m] by (auto simp: v n_def)
  next
    case (trusted m)
    then show ?thesis using says [of m] no [of "\<lambda>f r. r \<and> f = n" n True] by (auto simp: v n_def)
  next
    case (other m)
    then show ?thesis using says [of m] no [of "\<lambda>f r. f = n" n True] no [of "\<lambda>f r. f = n" n False] by (auto simp: v n_def)
  next
    case unknown
    then show ?thesis using no [of "\<lambda>f r. \<not> r" _ False] no [of "\<lambda>f r. f = n" n True] by (auto simp: v n_def)
  qed
qed



definition sample_crypto :: crypto where
  "sample_crypto = \<lparr>hmac_sha1 = \<lambda>_ _. [], sha256_base64 = \<lambda>b. replicate (length b) (CHR ''A''), from_base64 = \<lambda>s. replicate (length s) 0\<rparr>"

definition sample_known_hosts :: "KnownHostsSource list" where
  "sample_known_hosts =
     [\<lparr>ks_file = ''known_hosts'', ks_contents = ''h*.example ssh-ed25519 KEY'' @ [CHR 0x0A] @ ''@revoked host.example ssh-ed25519 KEY'' @ [CHR 0x0D, CHR 0x0A]\<rparr>]"


text \<open>
  Before a connection every name of the host is checked against the user's files: the check refuses exactly when a line of a
  file that can be read revokes the key under one of the names, and says which.
\<close>

theorem revocation_check_exact:
  "(\<exists>r. findHostKeyRevocation cr ssh_file read fingerprint names port = Some r)
     \<longleftrightarrow> (\<exists>file line. line_says cr names port (readUserKnownHosts ssh_file read) (normalizeFingerprint fingerprint) True file line)"
  unfolding verdict_exact [THEN conjunct1, symmetric]
  by (cases "judgeAgainstKnownHosts fingerprint (found_keys cr names port (readUserKnownHosts ssh_file read))")
    (simp_all add: findHostKeyRevocation_def Let_def flip: found_keys_def)

end
