(* ===== verification/Auth_Tokens.thy ===== *)
theory Auth_Tokens
  imports JS_Strings
begin

text \<open>
  The credentials of the hub and the gate on its REST requests: the token store of \<^verbatim>\<open>packages/hub/src/auth.ts\<close>, the start and the
  \<^verbatim>\<open>onRequest\<close> hook of \<^verbatim>\<open>server.ts\<close>, and the routes of \<^verbatim>\<open>api/tokens.ts\<close>. The table \<^verbatim>\<open>auth_tokens\<close> is a list of rows with its primary key and
  its unique hash (\<^verbatim>\<open>021-baseline.sql\<close>); times are milliseconds, as ISO 8601 texts of one form compare. SHA-256 (\<open>hashToken\<close>) is a parameter; fresh ids and tokens,
  and whether the store can be read and written, come with the events.
\<close>

section \<open>The store\<close>

definition PRIMARY_TOKEN_ID :: string where
  "PRIMARY_TOKEN_ID = ''primary''"

record AuthTokenRecord =
  at_id :: string
  at_hash :: string
  at_label :: string
  at_createdAt :: int
  at_expiresAt :: "int option"
  at_revokedAt :: "int option"
  at_sweptAt :: "int option"
  at_lastUsedAt :: "int option"

datatype store_error = UNIQUE_CONSTRAINT_FAILED

type_synonym token_table = "AuthTokenRecord list"

definition insert_row :: "AuthTokenRecord \<Rightarrow> token_table \<Rightarrow> store_error + token_table" where
  "insert_row row db = (if at_id row \<in> at_id ` set db \<or> at_hash row \<in> at_hash ` set db then Inl UNIQUE_CONSTRAINT_FAILED else Inr (db @ [row]))"

definition new_row :: "string \<Rightarrow> string \<Rightarrow> string \<Rightarrow> int \<Rightarrow> int option \<Rightarrow> AuthTokenRecord" where
  "new_row tid hash label now expires =
     \<lparr>at_id = tid, at_hash = hash, at_label = label, at_createdAt = now, at_expiresAt = expires, at_revokedAt = None, at_sweptAt = None, at_lastUsedAt = None\<rparr>"

lemma new_row_fields [simp]:
  "at_id (new_row tid hash label now expires) = tid" "at_hash (new_row tid hash label now expires) = hash"
  "at_expiresAt (new_row tid hash label now expires) = expires" "at_revokedAt (new_row tid hash label now expires) = None"
  "at_sweptAt (new_row tid hash label now expires) = None"
  by (simp_all add: new_row_def)

definition upsertPrimaryToken :: "string \<Rightarrow> int \<Rightarrow> token_table \<Rightarrow> store_error + token_table" where
  "upsertPrimaryToken hash now db =
     (if PRIMARY_TOKEN_ID \<in> at_id ` set db then
        (if list_ex (\<lambda>r. at_id r \<noteq> PRIMARY_TOKEN_ID \<and> at_hash r = hash) db then Inl UNIQUE_CONSTRAINT_FAILED
         else Inr (map (\<lambda>r. if at_id r = PRIMARY_TOKEN_ID then r\<lparr>at_hash := hash\<rparr> else r) db))
      else insert_row (new_row PRIMARY_TOKEN_ID hash ''Primary'' now None) db)"

definition createToken :: "(string \<Rightarrow> string) \<Rightarrow> string \<Rightarrow> string \<Rightarrow> int \<Rightarrow> string \<Rightarrow> int option \<Rightarrow> token_table \<Rightarrow> store_error + token_table" where
  "createToken hashToken tid token now label expires db = insert_row (new_row tid (hashToken token) label now expires) db"

definition sweepNonPrimaryTokens :: "int \<Rightarrow> token_table \<Rightarrow> token_table" where
  "sweepNonPrimaryTokens now db =
     map (\<lambda>r. if at_id r \<noteq> PRIMARY_TOKEN_ID \<and> at_sweptAt r = None then r\<lparr>at_sweptAt := Some now\<rparr> else r) db"

definition getTokenByHash :: "string \<Rightarrow> token_table \<Rightarrow> AuthTokenRecord option" where
  "getTokenByHash hash db = List.find (\<lambda>r. at_hash r = hash) db"

definition listTokens :: "token_table \<Rightarrow> AuthTokenRecord list" where
  "listTokens db = sort_key (\<lambda>r. - at_createdAt r) db"

definition revocable :: "string \<Rightarrow> AuthTokenRecord \<Rightarrow> bool" where
  "revocable tid r = (at_id r = tid \<and> at_id r \<noteq> PRIMARY_TOKEN_ID \<and> at_revokedAt r = None)"

definition revokeToken :: "string \<Rightarrow> int \<Rightarrow> token_table \<Rightarrow> bool \<times> token_table" where
  "revokeToken tid now db =
     (list_ex (revocable tid) db, map (\<lambda>r. if revocable tid r then r\<lparr>at_revokedAt := Some now\<rparr> else r) db)"

definition DAY_MS :: int where
  "DAY_MS = 86400000"

definition touchToken :: "string \<Rightarrow> nat \<Rightarrow> int \<Rightarrow> token_table \<Rightarrow> token_table" where
  "touchToken tid ttlDays now db =
     map (\<lambda>r. if at_id r = tid
              then r\<lparr>at_lastUsedAt := Some now,
                     at_expiresAt := (if ttlDays > 0 then map_option (\<lambda>_. now + int ttlDays * DAY_MS) (at_expiresAt r) else at_expiresAt r)\<rparr>
              else r) db"

section \<open>Validation\<close>

datatype InvalidTokenReason = TokenUnknown | TokenRevoked | TokenSwept | TokenExpired

datatype TokenValidation = TokenValid AuthTokenRecord | TokenInvalid InvalidTokenReason | TokenUnavailable

text \<open>\<open>readable\<close>: the query answers, rather than throwing.\<close>

definition validateTokenHash :: "bool \<Rightarrow> string \<Rightarrow> int \<Rightarrow> token_table \<Rightarrow> TokenValidation" where
  "validateTokenHash readable tokenHash now db =
     (if \<not> readable then TokenUnavailable
      else case getTokenByHash tokenHash db of
        None \<Rightarrow> TokenInvalid TokenUnknown
      | Some r \<Rightarrow>
          if at_revokedAt r \<noteq> None then TokenInvalid TokenRevoked
          else if at_sweptAt r \<noteq> None then TokenInvalid TokenSwept
          else if (case at_expiresAt r of None \<Rightarrow> False | Some e \<Rightarrow> e \<le> now) then TokenInvalid TokenExpired
          else TokenValid r)"

definition validateTokenRecord :: "(string \<Rightarrow> string) \<Rightarrow> bool \<Rightarrow> string \<Rightarrow> int \<Rightarrow> token_table \<Rightarrow> TokenValidation" where
  "validateTokenRecord hashToken readable token now db = validateTokenHash readable (hashToken token) now db"

section \<open>The server's state\<close>

datatype log_line =
    StoreUnavailable
  | StoreAnswering nat
  | TouchFailed string
  | TouchingAgain nat
  | MissingHeader
  | MalformedHeader
  | InvalidCredential InvalidTokenReason
  | DatabaseUnavailable

datatype security_event =
    RestAuthFailed string string "InvalidTokenReason option"
  | RestAuthSucceeded string string
  | TokenRevocation string string string string
  | TokenRotated string

text \<open>\<open>onRevoked\<close> lists the calls that end what a revoked token had opened. \<open>outage\<close> and \<open>touchFailures\<close> are the two \<open>WeakMap\<close> entries of the database, 0 when there is none.\<close>

record auth_state =
  auth_db :: token_table
  outage :: nat
  touchFailures :: nat
  restCredentialsSeen :: "string jset"
  hub_log :: "log_line list"
  security_log :: "security_event list"
  onRevoked :: "string list"

definition reportTokenStore :: "TokenValidation \<Rightarrow> auth_state \<Rightarrow> auth_state" where
  "reportTokenStore validation s =
     (let refused = outage s in
      if validation = TokenUnavailable
      then s\<lparr>hub_log := hub_log s @ (if refused = 0 then [StoreUnavailable] else []), outage := refused + 1\<rparr>
      else if refused > 0 then s\<lparr>outage := 0, hub_log := hub_log s @ [StoreAnswering refused]\<rparr> else s)"

definition touchTokenBestEffort :: "bool \<Rightarrow> string \<Rightarrow> nat \<Rightarrow> int \<Rightarrow> auth_state \<Rightarrow> auth_state" where
  "touchTokenBestEffort writable tid ttlDays now s =
     (let failed = touchFailures s in
      if \<not> writable then s\<lparr>hub_log := hub_log s @ (if failed = 0 then [TouchFailed tid] else []), touchFailures := failed + 1\<rparr>
      else let s = s\<lparr>auth_db := touchToken tid ttlDays now (auth_db s)\<rparr>
        in if failed > 0 then s\<lparr>touchFailures := 0, hub_log := hub_log s @ [TouchingAgain failed]\<rparr> else s)"

section \<open>The gate\<close>

record http_request =
  rq_method :: string
  rq_pathname :: string
  rq_authorization :: "string option"
  rq_ip :: string

datatype gate_answer = Passed "AuthTokenRecord option" | Refused nat string

definition exempt :: "http_request \<Rightarrow> bool" where
  "exempt rq =
     (rq_method rq = ''OPTIONS'' \<or> rq_pathname rq = ''/api/health'' \<or> rq_pathname rq = ''/api/pair/verify''
      \<or> rq_method rq = ''POST'' \<and> (rq_pathname rq = ''/api/shutdown'' \<or> rq_pathname rq = ''/api/quit'')
      \<or> rq_pathname rq = ''/ws'' \<or> starts_with ''/ws/'' (rq_pathname rq)
      \<or> \<not> starts_with ''/api/'' (rq_pathname rq))"

definition auth_failed :: "http_request \<Rightarrow> string \<Rightarrow> InvalidTokenReason option \<Rightarrow> auth_state \<Rightarrow> auth_state" where
  "auth_failed rq reason status s = s\<lparr>security_log := security_log s @ [RestAuthFailed (rq_ip rq) reason status]\<rparr>"

definition log_warn :: "log_line \<Rightarrow> auth_state \<Rightarrow> auth_state" where
  "log_warn l s = s\<lparr>hub_log := hub_log s @ [l]\<rparr>"

text \<open>The token of \<open>Bearer <token>\<close>.\<close>

definition bearer :: "string \<Rightarrow> string option" where
  "bearer header =
     (case split_on (CHR '' '') header of
        scheme # token # _ \<Rightarrow> if scheme = ''Bearer'' \<and> token \<noteq> [] then Some token else None
      | _ \<Rightarrow> None)"

definition accepted :: "http_request \<Rightarrow> AuthTokenRecord \<Rightarrow> bool \<Rightarrow> nat \<Rightarrow> int \<Rightarrow> auth_state \<Rightarrow> auth_state" where
  "accepted rq r writable ttlDays now s =
     (let s = touchTokenBestEffort writable (at_id r) ttlDays now s;
          credentialAndAddress = at_id r @ '' '' @ rq_ip rq
      in if credentialAndAddress \<notin> set (restCredentialsSeen s)
         then s\<lparr>restCredentialsSeen := set_add credentialAndAddress (restCredentialsSeen s),
                security_log := security_log s @ [RestAuthSucceeded (rq_ip rq) (at_id r)]\<rparr>
         else s)"

text \<open>\<open>hasDb\<close>: the server was given a database; without one every guarded request is refused.\<close>

definition onRequest :: "(string \<Rightarrow> string) \<Rightarrow> bool \<Rightarrow> bool \<Rightarrow> bool \<Rightarrow> nat \<Rightarrow> int \<Rightarrow> http_request \<Rightarrow> auth_state \<Rightarrow> gate_answer \<times> auth_state" where
  "onRequest hashToken hasDb readable writable ttlDays now rq s =
     (if exempt rq then (Passed None, s)
      else case rq_authorization rq of
        None \<Rightarrow> (Refused 401 ''AUTH_REQUIRED'', auth_failed rq ''missing_header'' None (log_warn MissingHeader s))
      | Some header \<Rightarrow>
          if header = [] then (Refused 401 ''AUTH_REQUIRED'', auth_failed rq ''missing_header'' None (log_warn MissingHeader s))
          else (case bearer header of
            None \<Rightarrow> (Refused 401 ''AUTH_REQUIRED'', auth_failed rq ''malformed_header'' None (log_warn MalformedHeader s))
          | Some token \<Rightarrow>
              if \<not> hasDb then (Refused 500 ''SERVER_ERROR'', auth_failed rq ''database_unavailable'' None (log_warn DatabaseUnavailable s))
              else let validation = validateTokenRecord hashToken readable token now (auth_db s);
                       s = reportTokenStore validation s
                in case validation of
                     TokenUnavailable \<Rightarrow> (Refused 503 ''AUTH_UNAVAILABLE'', s)
                   | TokenInvalid reason \<Rightarrow>
                       (Refused 401 ''AUTH_INVALID'', auth_failed rq ''invalid_token'' (Some reason) (log_warn (InvalidCredential reason) s))
                   | TokenValid r \<Rightarrow> (Passed (Some r), accepted rq r writable ttlDays now s)))"

text \<open>A start of the hub: the sweep, then the primary token of \<^verbatim>\<open>auth.json\<close>; the sets and counts of the run before are gone.\<close>

definition start_hub :: "(string \<Rightarrow> string) \<Rightarrow> string \<Rightarrow> int \<Rightarrow> auth_state \<Rightarrow> store_error + auth_state" where
  "start_hub hashToken primaryToken now s =
     (let db = sweepNonPrimaryTokens now (auth_db s);
          previous = List.find (\<lambda>r. at_id r = PRIMARY_TOKEN_ID) (listTokens db)
      in case upsertPrimaryToken (hashToken primaryToken) now db of
           Inl e \<Rightarrow> Inl e
         | Inr db \<Rightarrow>
             Inr \<lparr>auth_db = db, outage = 0, touchFailures = 0, restCredentialsSeen = [], hub_log = hub_log s,
                  security_log = security_log s
                    @ (case previous of
                         Some r \<Rightarrow> if at_hash r \<noteq> hashToken primaryToken then [TokenRotated PRIMARY_TOKEN_ID] else []
                       | None \<Rightarrow> []),
                  onRevoked = []\<rparr>)"

text \<open>\<open>DELETE /api/auth/tokens/:tid\<close>, asked by the credential \<open>by\<close>.\<close>

definition deleteToken :: "string \<Rightarrow> string \<Rightarrow> string \<Rightarrow> int \<Rightarrow> auth_state \<Rightarrow> nat \<times> auth_state" where
  "deleteToken tid byTokenId ip now s =
     (let record = (\<lambda>outcome s. s\<lparr>security_log := security_log s @ [TokenRevocation tid byTokenId ip outcome]\<rparr>) in
      if tid = PRIMARY_TOKEN_ID then (409, record ''not_revocable'' s)
      else let (revoked, db) = revokeToken tid now (auth_db s); s = s\<lparr>auth_db := db\<rparr>
        in if \<not> revoked then (404, record ''not_found'' s) else (200, let s = record ''revoked'' s in s\<lparr>onRevoked := onRevoked s @ [tid]\<rparr>))"

section \<open>The machine\<close>

datatype auth_event =
    Start string int
  | Request bool bool nat int http_request
  | PairToken string string int string "int option"
  | Revoke string string string int

definition auth_init :: auth_state where
  "auth_init = \<lparr>auth_db = [], outage = 0, touchFailures = 0, restCredentialsSeen = [], hub_log = [], security_log = [], onRevoked = []\<rparr>"

text \<open>A start that throws leaves no hub, and nothing reaches a hub that never started; a token is paired only when its row can be inserted.\<close>

definition hub_started :: "auth_state \<Rightarrow> bool" where
  "hub_started s = (PRIMARY_TOKEN_ID \<in> at_id ` set (auth_db s))"

fun auth_enabled :: "(string \<Rightarrow> string) \<Rightarrow> auth_state \<Rightarrow> auth_event \<Rightarrow> bool" where
  "auth_enabled hashToken s (Start token now) = (\<not> isl (start_hub hashToken token now s))"
| "auth_enabled hashToken s (PairToken tid token now label expires) =
     (hub_started s \<and> \<not> isl (createToken hashToken tid token now label expires (auth_db s)))"
| "auth_enabled hashToken s e = hub_started s"

fun auth_step :: "(string \<Rightarrow> string) \<Rightarrow> auth_state \<Rightarrow> auth_event \<Rightarrow> auth_state" where
  "auth_step hashToken s (Start token now) = (case start_hub hashToken token now s of Inr s' \<Rightarrow> s' | Inl _ \<Rightarrow> s)"
| "auth_step hashToken s (Request readable writable ttlDays now rq) = snd (onRequest hashToken True readable writable ttlDays now rq s)"
| "auth_step hashToken s (PairToken tid token now label expires) =
     (case createToken hashToken tid token now label expires (auth_db s) of Inr db \<Rightarrow> s\<lparr>auth_db := db\<rparr> | Inl _ \<Rightarrow> s)"
| "auth_step hashToken s (Revoke tid byTokenId ip now) = snd (deleteToken tid byTokenId ip now s)"


section \<open>The rows\<close>

text \<open>What every operation keeps: keys and hashes are unique, and the primary row is never expired, revoked or swept.\<close>

definition table_ok :: "token_table \<Rightarrow> bool" where
  "table_ok db \<longleftrightarrow> distinct (map at_id db) \<and> distinct (map at_hash db)
     \<and> (\<forall>r \<in> set db. at_id r = PRIMARY_TOKEN_ID \<longrightarrow> at_expiresAt r = None \<and> at_revokedAt r = None \<and> at_sweptAt r = None)"

text \<open>No row goes away or comes back: it keeps its id, its end, and but for the primary its hash.\<close>

definition row_kept :: "AuthTokenRecord \<Rightarrow> AuthTokenRecord \<Rightarrow> bool" where
  "row_kept r r' \<longleftrightarrow> at_id r' = at_id r \<and> (at_id r \<noteq> PRIMARY_TOKEN_ID \<longrightarrow> at_hash r' = at_hash r)
     \<and> (at_revokedAt r \<noteq> None \<longrightarrow> at_revokedAt r' \<noteq> None) \<and> (at_sweptAt r \<noteq> None \<longrightarrow> at_sweptAt r' \<noteq> None)"

definition rows_kept :: "token_table \<Rightarrow> token_table \<Rightarrow> bool" where
  "rows_kept db db' \<longleftrightarrow> (\<forall>r \<in> set db. \<exists>r' \<in> set db'. row_kept r r')"

lemma rows_kept_refl [simp]: "rows_kept db db"
  by (auto simp: rows_kept_def row_kept_def intro: bexI)

lemma rows_kept_trans: "rows_kept a b \<Longrightarrow> rows_kept b c \<Longrightarrow> rows_kept a c"
  unfolding rows_kept_def row_kept_def by (metis (no_types, lifting))

text \<open>An update of rows in place keeps a table when it keeps each row's key and hash and spares the primary.\<close>

definition in_place :: "(AuthTokenRecord \<Rightarrow> AuthTokenRecord) \<Rightarrow> bool" where
  "in_place f \<longleftrightarrow> (\<forall>r. row_kept r (f r) \<and> at_hash (f r) = at_hash r
     \<and> (at_id r = PRIMARY_TOKEN_ID \<longrightarrow> at_revokedAt (f r) = at_revokedAt r \<and> at_sweptAt (f r) = at_sweptAt r \<and> (at_expiresAt r = None \<longrightarrow> at_expiresAt (f r) = None)))"

lemma in_place_table:
  assumes "in_place f"
  shows "rows_kept db (map f db)" and "table_ok db \<Longrightarrow> table_ok (map f db)"
    and "at_id ` set (map f db) = at_id ` set db" and "map at_hash (map f db) = map at_hash db"
proof -
  have keep: "at_id (f r) = at_id r" "at_hash (f r) = at_hash r" for r using assms by (auto simp: in_place_def row_kept_def)
  show "rows_kept db (map f db)" using assms by (auto simp: rows_kept_def in_place_def)
  show "table_ok db \<Longrightarrow> table_ok (map f db)"
    using assms by (auto simp: table_ok_def in_place_def keep comp_def)
  show "at_id ` set (map f db) = at_id ` set db" "map at_hash (map f db) = map at_hash db" by (auto simp: keep image_iff)
qed

lemma sweep_in_place: "in_place (\<lambda>r. if at_id r \<noteq> PRIMARY_TOKEN_ID \<and> at_sweptAt r = None then r\<lparr>at_sweptAt := Some now\<rparr> else r)"
  by (simp add: in_place_def row_kept_def)

lemma revoke_in_place: "in_place (\<lambda>r. if revocable tid r then r\<lparr>at_revokedAt := Some now\<rparr> else r)"
  by (auto simp: in_place_def row_kept_def revocable_def)

lemma touch_in_place:
  "in_place (\<lambda>r. if at_id r = tid
     then r\<lparr>at_lastUsedAt := Some now, at_expiresAt := (if ttlDays > 0 then map_option (\<lambda>_. now + int ttlDays * DAY_MS) (at_expiresAt r) else at_expiresAt r)\<rparr> else r)"
  by (simp add: in_place_def row_kept_def)

lemmas sweep_table = in_place_table [OF sweep_in_place, folded sweepNonPrimaryTokens_def]
lemmas touch_table = in_place_table [OF touch_in_place, folded touchToken_def]
lemmas revoke_table = in_place_table [OF revoke_in_place]

lemma insert_row_table:
  assumes "insert_row row db = Inr db'" "table_ok db" "at_id row = PRIMARY_TOKEN_ID \<Longrightarrow> at_expiresAt row = None \<and> at_revokedAt row = None \<and> at_sweptAt row = None"
  shows "table_ok db'" "rows_kept db db'" "set db' = insert row (set db)"
  using assms by (auto simp: insert_row_def table_ok_def rows_kept_def row_kept_def split: if_splits)


definition primary_hash :: "string \<Rightarrow> token_table \<Rightarrow> bool" where
  "primary_hash hash db \<longleftrightarrow> (\<exists>r \<in> set db. at_id r = PRIMARY_TOKEN_ID \<and> at_hash r = hash)"

lemma primary_hash_in_place: "in_place f \<Longrightarrow> primary_hash hash db \<Longrightarrow> primary_hash hash (map f db)"
  by (fastforce simp: primary_hash_def in_place_def row_kept_def)

lemmas primary_hash_touch = primary_hash_in_place [OF touch_in_place, folded touchToken_def]

lemma upsert_table:
  assumes "upsertPrimaryToken hash now db = Inr db'" "table_ok db"
  shows "table_ok db'" "rows_kept db db'" "primary_hash hash db'"
proof -
  let ?f = "\<lambda>r. if at_id r = PRIMARY_TOKEN_ID then r\<lparr>at_hash := hash\<rparr> else r"
  let ?taken = "list_ex (\<lambda>r. at_id r \<noteq> PRIMARY_TOKEN_ID \<and> at_hash r = hash) db"
  consider (update) "PRIMARY_TOKEN_ID \<in> at_id ` set db" "\<not> ?taken" "db' = map ?f db"
    | (insert) "insert_row (new_row PRIMARY_TOKEN_ID hash ''Primary'' now None) db = Inr db'"
    using assms(1) unfolding upsertPrimaryToken_def by (cases "PRIMARY_TOKEN_ID \<in> at_id ` set db"; cases ?taken) simp_all
  then have "table_ok db' \<and> rows_kept db db' \<and> primary_hash hash db'"
  proof cases
    case update
    define f :: "AuthTokenRecord \<Rightarrow> AuthTokenRecord" where "f = ?f"
    have f: "at_id (f r) = at_id r" "row_kept r (f r)" "at_expiresAt (f r) = at_expiresAt r" "at_revokedAt (f r) = at_revokedAt r"
      "at_sweptAt (f r) = at_sweptAt r" "at_id r = PRIMARY_TOKEN_ID \<Longrightarrow> at_hash (f r) = hash" "at_id r \<noteq> PRIMARY_TOKEN_ID \<Longrightarrow> at_hash (f r) = at_hash r" for r
      by (simp_all add: f_def row_kept_def)
    have inj: "inj_on at_id (set db)" "inj_on at_hash (set db)" "distinct db" using assms(2) by (auto simp: table_ok_def distinct_map)
    have "inj_on (\<lambda>r. at_hash (f r)) (set db)"
    proof (rule inj_onI)
      fix r q
      assume "r \<in> set db" "q \<in> set db" "at_hash (f r) = at_hash (f q)"
      then show "r = q" using inj(1,2) update(2) unfolding list_ex_iff
        by (cases "at_id r = PRIMARY_TOKEN_ID"; cases "at_id q = PRIMARY_TOKEN_ID") (auto simp: inj_on_def f)
    qed
    then have "distinct (map at_hash (map f db))" using inj(3) by (simp add: distinct_map comp_def)
    then have "table_ok (map f db)" using assms(2) by (auto simp: table_ok_def f comp_def)
    moreover have "rows_kept db (map f db)" using f(2) by (auto simp: rows_kept_def)
    moreover have "primary_hash hash (map f db)" using update(1) f(1,6) by (force simp: primary_hash_def)
    ultimately show ?thesis using update(3) by (simp add: f_def)
  next
    case insert
    then show ?thesis using insert_row_table [OF insert assms(2)] by (simp add: primary_hash_def)
  qed
  then show "table_ok db'" "rows_kept db db'" "primary_hash hash db'" by auto
qed

lemma report_db [simp]: "auth_db (reportTokenStore v s) = auth_db s"
  by (simp add: reportTokenStore_def Let_def)

lemma accepted_db: "auth_db (accepted rq r writable ttlDays now s) = (if writable then touchToken (at_id r) ttlDays now (auth_db s) else auth_db s)"
  by (simp add: accepted_def touchTokenBestEffort_def Let_def)

lemma onRequest_db:
  "auth_db (snd (onRequest hashToken hasDb readable writable ttlDays now rq s)) = auth_db s
   \<or> (\<exists>tid. auth_db (snd (onRequest hashToken hasDb readable writable ttlDays now rq s)) = touchToken tid ttlDays now (auth_db s))"
  by (auto simp: onRequest_def auth_failed_def log_warn_def accepted_db Let_def split: option.splits TokenValidation.splits)

lemma auth_step_table:
  assumes "auth_enabled hashToken s e" "table_ok (auth_db s)"
  shows "table_ok (auth_db (auth_step hashToken s e))" "rows_kept (auth_db s) (auth_db (auth_step hashToken s e))"
    and "(\<And>t now. e \<noteq> Start t now) \<Longrightarrow> primary_hash hash (auth_db s) \<Longrightarrow> primary_hash hash (auth_db (auth_step hashToken s e))"
    and "e = Start t now \<Longrightarrow> primary_hash (hashToken t) (auth_db (auth_step hashToken s e))"
proof -
  have "table_ok (auth_db (auth_step hashToken s e)) \<and> rows_kept (auth_db s) (auth_db (auth_step hashToken s e))
    \<and> ((\<forall>t now. e \<noteq> Start t now) \<longrightarrow> primary_hash hash (auth_db s) \<longrightarrow> primary_hash hash (auth_db (auth_step hashToken s e)))
    \<and> (\<forall>t now. e = Start t now \<longrightarrow> primary_hash (hashToken t) (auth_db (auth_step hashToken s e)))"
  proof (cases e)
    case (Start t now)
    let ?swept = "sweepNonPrimaryTokens now (auth_db s)"
    obtain db where db: "upsertPrimaryToken (hashToken t) now ?swept = Inr db"
      using assms(1) Start by (cases "upsertPrimaryToken (hashToken t) now ?swept") (auto simp: start_hub_def Let_def)
    have "table_ok ?swept" "rows_kept (auth_db s) ?swept" using sweep_table(1,2) assms(2) by blast+
    then show ?thesis using upsert_table [OF db] Start rows_kept_trans by (auto simp: start_hub_def Let_def db)
  next
    case (Request readable writable ttlDays now rq)
    then show ?thesis
      using onRequest_db [of hashToken True readable writable ttlDays now rq s] touch_table(1,2) assms(2) primary_hash_touch by auto
  next
    case (PairToken tid token now label expires)
    obtain db where db: "insert_row (new_row tid (hashToken token) label now expires) (auth_db s) = Inr db"
      using assms(1) PairToken by (cases "insert_row (new_row tid (hashToken token) label now expires) (auth_db s)") (auto simp: createToken_def)
    have "tid \<noteq> PRIMARY_TOKEN_ID" using db assms(1) PairToken by (auto simp: insert_row_def hub_started_def split: if_splits)
    then show ?thesis using insert_row_table [OF db assms(2)] PairToken
      by (auto simp: createToken_def db primary_hash_def)
  next
    case (Revoke tid byTokenId ip now)
    then show ?thesis using revoke_table(1,2) assms(2) primary_hash_in_place [OF revoke_in_place]
      by (auto simp: deleteToken_def revokeToken_def Let_def)
  qed
  then show "table_ok (auth_db (auth_step hashToken s e))" "rows_kept (auth_db s) (auth_db (auth_step hashToken s e))"
    "(\<And>t now. e \<noteq> Start t now) \<Longrightarrow> primary_hash hash (auth_db s) \<Longrightarrow> primary_hash hash (auth_db (auth_step hashToken s e))"
    "e = Start t now \<Longrightarrow> primary_hash (hashToken t) (auth_db (auth_step hashToken s e))" by blast+
qed

interpretation auth: event_machine auth_init "auth_enabled h" "auth_step h" "\<lambda>s. table_ok (auth_db s)" for h
  by unfold_locales (simp add: auth_init_def table_ok_def, rule auth_step_table(1))

lemma rows_kept_run: "table_ok (auth_db s) \<Longrightarrow> runs (auth_enabled h) (auth_step h) s es \<Longrightarrow> rows_kept (auth_db s) (auth_db (foldl (auth_step h) s es))"
  by (induction es arbitrary: s) (auto intro: rows_kept_trans auth_step_table(1,2))

lemma primary_run:
  "table_ok (auth_db s) \<Longrightarrow> runs (auth_enabled h) (auth_step h) s es \<Longrightarrow> \<forall>t now. Start t now \<notin> set es \<Longrightarrow> primary_hash hash (auth_db s)
   \<Longrightarrow> primary_hash hash (auth_db (foldl (auth_step h) s es))"
proof (induction es arbitrary: s)
  case (Cons e es)
  have "\<forall>t now. e \<noteq> Start t now" using Cons.prems(3) by auto
  then have "primary_hash hash (auth_db (auth_step h s e))" using auth_step_table(3) [of h s e hash] Cons.prems by auto
  then show ?case using auth_step_table(1) [of h s e] Cons by auto
qed simp


section \<open>The gate\<close>

lemma getTokenByHash_Some: "table_ok db \<Longrightarrow> getTokenByHash hash db = Some r \<longleftrightarrow> r \<in> set db \<and> at_hash r = hash"
proof -
  assume ok: "table_ok db"
  then have inj: "inj_on at_hash (set db)" by (simp add: table_ok_def distinct_map)
  show ?thesis
  proof (cases "getTokenByHash hash db")
    case None
    then have "\<forall>r \<in> set db. at_hash r \<noteq> hash" by (auto simp: getTokenByHash_def find_None_iff)
    then show ?thesis using None by auto
  next
    case (Some q)
    then have "q \<in> set db" "at_hash q = hash" by (auto simp: getTokenByHash_def find_Some_iff)
    then show ?thesis using Some inj by (auto simp: inj_on_def)
  qed
qed

text \<open>A row that lets its token in at \<open>now\<close>.\<close>

definition in_force :: "int \<Rightarrow> AuthTokenRecord \<Rightarrow> bool" where
  "in_force now r \<longleftrightarrow> at_revokedAt r = None \<and> at_sweptAt r = None \<and> (case at_expiresAt r of None \<Rightarrow> True | Some e \<Rightarrow> now < e)"

lemma validate_valid: "table_ok db \<Longrightarrow> validateTokenHash readable hash now db = TokenValid r \<longleftrightarrow> readable \<and> r \<in> set db \<and> at_hash r = hash \<and> in_force now r"
proof -
  assume ok: "table_ok db"
  have "validateTokenHash readable hash now db = TokenValid r \<longleftrightarrow> readable \<and> getTokenByHash hash db = Some r \<and> in_force now r"
    by (cases "getTokenByHash hash db") (auto simp: validateTokenHash_def in_force_def split: option.splits if_splits)
  then show ?thesis by (simp add: getTokenByHash_Some [OF ok])
qed

definition presented :: "http_request \<Rightarrow> string option" where
  "presented rq = Option.bind (rq_authorization rq) bearer"

lemma bearer_Nil [simp]: "bearer [] = None"
  by (simp add: bearer_def)

lemma gate_passes:
  assumes "table_ok (auth_db s)" "\<not> exempt rq"
  shows "fst (onRequest h True readable writable ttlDays now rq s) = Passed a
     \<longleftrightarrow> (\<exists>t r. a = Some r \<and> presented rq = Some t \<and> readable \<and> r \<in> set (auth_db s) \<and> at_hash r = h t \<and> in_force now r)"
proof (cases "presented rq")
  case None
  then show ?thesis using assms(2)
    by (cases "rq_authorization rq") (auto simp: onRequest_def presented_def)
next
  case (Some t)
  then obtain header where header: "rq_authorization rq = Some header" "bearer header = Some t"
    by (cases "rq_authorization rq") (auto simp: presented_def)
  then have "header \<noteq> []" by auto
  then show ?thesis using assms(2) Some header validate_valid [OF assms(1), of readable "h t" now]
    by (cases "validateTokenHash readable (h t) now (auth_db s)") (auto simp: onRequest_def validateTokenRecord_def Let_def)
qed

text \<open>
  C31: The REST gate. In every run of the hub, over its restarts, a request to a guarded path passes exactly when it presents a
  bearer token whose row is in the store, neither revoked nor swept nor expired, and the store can be read. A token
  that was revoked, or swept by a restart, never passes again, whatever happens since; the token of \<^verbatim>\<open>auth.json\<close> at the last start always
  does.
\<close>

theorem token_gate:
  assumes run: "runs (auth_enabled h) (auth_step h) auth_init es" and s: "s = foldl (auth_step h) auth_init es" and rq: "\<not> exempt rq"
  shows "(fst (onRequest h True readable writable ttlDays now rq s) = Passed a
       \<longleftrightarrow> (\<exists>t r. a = Some r \<and> presented rq = Some t \<and> readable \<and> r \<in> set (auth_db s) \<and> at_hash r = h t \<and> in_force now r))
     \<and> (\<forall>es1 es2 r t. es = es1 @ es2 \<and> r \<in> set (auth_db (foldl (auth_step h) auth_init es1)) \<and> at_id r \<noteq> PRIMARY_TOKEN_ID
          \<and> (at_revokedAt r \<noteq> None \<or> at_sweptAt r \<noteq> None) \<and> presented rq = Some t \<and> h t = at_hash r
          \<longrightarrow> fst (onRequest h True readable writable ttlDays now rq s) \<noteq> Passed a)
     \<and> (\<forall>es1 t n es2. es = es1 @ Start t n # es2 \<and> (\<forall>t n. Start t n \<notin> set es2) \<and> presented rq = Some t
          \<longrightarrow> (\<exists>r. at_id r = PRIMARY_TOKEN_ID \<and> fst (onRequest h True True writable ttlDays now rq s) = Passed (Some r)))"
proof (intro conjI allI impI)
  have ok: "table_ok (auth_db s)" using auth.inv_run [OF run] s by simp
  note passes = gate_passes [OF ok rq]
  show "fst (onRequest h True readable writable ttlDays now rq s) = Passed a
      \<longleftrightarrow> (\<exists>t r. a = Some r \<and> presented rq = Some t \<and> readable \<and> r \<in> set (auth_db s) \<and> at_hash r = h t \<and> in_force now r)"
    by (rule passes)
  {
    fix es1 es2 r t
    assume a: "es = es1 @ es2 \<and> r \<in> set (auth_db (foldl (auth_step h) auth_init es1)) \<and> at_id r \<noteq> PRIMARY_TOKEN_ID
      \<and> (at_revokedAt r \<noteq> None \<or> at_sweptAt r \<noteq> None) \<and> presented rq = Some t \<and> h t = at_hash r"
    have "rows_kept (auth_db (foldl (auth_step h) auth_init es1)) (auth_db s)"
      using rows_kept_run [of "foldl (auth_step h) auth_init es1" h es2] auth.inv_every_prefix [of h es1 es2] run a by (simp add: s runs_append)
    then obtain r' where r': "r' \<in> set (auth_db s)" "row_kept r r'" using a by (auto simp: rows_kept_def)
    then have "q = r'" if "q \<in> set (auth_db s)" "at_hash q = h t" for q
      using that a ok by (auto simp: row_kept_def table_ok_def distinct_map inj_on_def)
    then show "fst (onRequest h True readable writable ttlDays now rq s) \<noteq> Passed a" using passes a r' by (auto simp: in_force_def row_kept_def)
  next
    fix es1 t n es2
    assume a: "es = es1 @ Start t n # es2 \<and> (\<forall>t n. Start t n \<notin> set es2) \<and> presented rq = Some t"
    let ?s1 = "auth_step h (foldl (auth_step h) auth_init es1) (Start t n)"
    have "table_ok (auth_db (foldl (auth_step h) auth_init es1))" using auth.inv_every_prefix [of h es1] run a by blast
    moreover have "auth_enabled h (foldl (auth_step h) auth_init es1) (Start t n)" using run a by (simp add: runs_append)
    ultimately have "primary_hash (h t) (auth_db ?s1)" "table_ok (auth_db ?s1)" by (blast intro: auth_step_table(1,4))+
    then have "primary_hash (h t) (auth_db s)" using primary_run [of ?s1 h es2 "h t"] run a by (auto simp: s runs_append)
    then obtain r where r: "r \<in> set (auth_db s)" "at_id r = PRIMARY_TOKEN_ID" "at_hash r = h t" by (auto simp: primary_hash_def)
    then have "in_force now r" using ok by (auto simp: table_ok_def in_force_def)
    then show "\<exists>r. at_id r = PRIMARY_TOKEN_ID \<and> fst (onRequest h True True writable ttlDays now rq s) = Passed (Some r)"
      using passes r a gate_passes [OF ok rq, of h True writable ttlDays now "Some r"] by blast
  }
qed

theorem token_gate_witness:
  "let rq = \<lparr>rq_method = ''GET'', rq_pathname = ''/api/hosts'', rq_authorization = Some ''Bearer two'', rq_ip = ''::1''\<rparr>;
       es = [Start ''one'' 1, PairToken ''P'' ''two'' 2 ''Phone'' (Some 90), Revoke ''P'' ''primary'' ''::1'' 3];
       s = foldl (auth_step (\<lambda>t. t)) auth_init es
   in runs (auth_enabled (\<lambda>t. t)) (auth_step (\<lambda>t. t)) auth_init es
      \<and> fst (onRequest (\<lambda>t. t) True True True 30 4 rq (foldl (auth_step (\<lambda>t. t)) auth_init (take 2 es))) \<noteq> Refused 401 ''AUTH_INVALID''
      \<and> (\<forall>a. fst (onRequest (\<lambda>t. t) True True True 30 4 rq s) \<noteq> Passed a)"
proof -
  let ?rq = "\<lparr>rq_method = ''GET'', rq_pathname = ''/api/hosts'', rq_authorization = Some ''Bearer two'', rq_ip = ''::1''\<rparr>"
  let ?es = "[Start ''one'' 1, PairToken ''P'' ''two'' 2 ''Phone'' (Some 90), Revoke ''P'' ''primary'' ''::1'' 3]"
  have run: "runs (auth_enabled (\<lambda>t. t)) (auth_step (\<lambda>t. t)) auth_init ?es" by code_simp
  have first: "fst (onRequest (\<lambda>t. t) True True True 30 4 ?rq (foldl (auth_step (\<lambda>t. t)) auth_init (take 2 ?es))) \<noteq> Refused 401 ''AUTH_INVALID''" by code_simp
  have "\<not> exempt ?rq" by code_simp
  moreover have "presented ?rq = Some ''two''" by code_simp
  moreover have "\<exists>r \<in> set (auth_db (foldl (auth_step (\<lambda>t. t)) auth_init ?es)). at_id r \<noteq> PRIMARY_TOKEN_ID \<and> at_revokedAt r \<noteq> None \<and> at_hash r = ''two''" by code_simp
  ultimately have "fst (onRequest (\<lambda>t. t) True True True 30 4 ?rq (foldl (auth_step (\<lambda>t. t)) auth_init ?es)) \<noteq> Passed a" for a
    using token_gate [OF run refl, of ?rq True True 30 4 a] by (metis append_Nil2)
  then show ?thesis using run first unfolding Let_def by blast
qed

end
