(* ===== verification/Pairing.thy ===== *)
theory Pairing
  imports Auth_Tokens
begin

text \<open>
  Pairing a device with an 8-digit code: the two routes of \<^verbatim>\<open>packages/hub/src/api/pair.ts\<close> over \<^verbatim>\<open>pairing-codes-dal.ts\<close> and
  \<^verbatim>\<open>pair-rate-limits-dal.ts\<close>. The tables are lists with their keys; \<open>hashCode key code\<close>, the keyed hash of a code, is a parameter; random draws and fresh
  ids come with the events. The route's schema is \<open>verify\<close>'s own check of the code. The security log is part of the state, and says when each code was issued and redeemed.
\<close>

section \<open>Codes\<close>

record PairingCodeRow =
  pc_id :: string
  pc_hash :: string
  pc_createdAt :: int
  pc_expiresAt :: int
  pc_used :: bool
  pc_usedAt :: "int option"
  pc_usedByIp :: "string option"

definition createPairingCode :: "string \<Rightarrow> string \<Rightarrow> int \<Rightarrow> int \<Rightarrow> PairingCodeRow list \<Rightarrow> store_error + PairingCodeRow list" where
  "createPairingCode pid codeHash createdAt expiresAt codes =
     (if pid \<in> pc_id ` set codes \<or> codeHash \<in> pc_hash ` set codes then Inl UNIQUE_CONSTRAINT_FAILED
      else Inr (codes @ [\<lparr>pc_id = pid, pc_hash = codeHash, pc_createdAt = createdAt, pc_expiresAt = expiresAt, pc_used = False,
                          pc_usedAt = None, pc_usedByIp = None\<rparr>]))"

definition getPairingCodeByHash :: "string \<Rightarrow> PairingCodeRow list \<Rightarrow> PairingCodeRow option" where
  "getPairingCodeByHash codeHash codes = List.find (\<lambda>r. pc_hash r = codeHash) codes"

definition markPairingCodeUsed :: "string \<Rightarrow> int \<Rightarrow> string \<Rightarrow> PairingCodeRow list \<Rightarrow> PairingCodeRow list" where
  "markPairingCodeUsed pid usedAt usedByIp codes =
     map (\<lambda>r. if pc_id r = pid then r\<lparr>pc_used := True, pc_usedAt := Some usedAt, pc_usedByIp := Some usedByIp\<rparr> else r) codes"

definition active_code :: "int \<Rightarrow> PairingCodeRow \<Rightarrow> bool" where
  "active_code now r = (\<not> pc_used r \<and> pc_expiresAt r > now)"

definition countActivePairingCodes :: "int \<Rightarrow> PairingCodeRow list \<Rightarrow> nat" where
  "countActivePairingCodes now codes = length (filter (active_code now) codes)"

definition deleteUnredeemedPairingCodes :: "PairingCodeRow list \<Rightarrow> PairingCodeRow list" where
  "deleteUnredeemedPairingCodes codes = filter pc_used codes"

section \<open>Attempts\<close>

record RateLimitRow =
  rl_attempts :: nat
  rl_windowStart :: int

definition backoff :: "nat \<Rightarrow> nat \<Rightarrow> nat \<Rightarrow> nat" where
  "backoff attempts maxAttempts backoffThreshold =
     (if attempts \<ge> backoffThreshold then min 8 (2 ^ ((attempts - backoffThreshold) div maxAttempts + 1)) else 1)"

definition checkAndIncrement :: "string \<Rightarrow> nat \<Rightarrow> int \<Rightarrow> nat \<Rightarrow> int \<Rightarrow> (string, RateLimitRow) jmap \<Rightarrow> bool \<times> (string, RateLimitRow) jmap" where
  "checkAndIncrement ip maxAttempts windowMs backoffThreshold now limits =
     (case map_get limits ip of
        None \<Rightarrow> (True, map_set ip \<lparr>rl_attempts = 1, rl_windowStart = now\<rparr> limits)
      | Some row \<Rightarrow>
          (let effectiveWindow = windowMs * int (backoff (rl_attempts row) maxAttempts backoffThreshold) in
           if now - rl_windowStart row \<ge> effectiveWindow
           then (True, map_set ip \<lparr>rl_attempts = 1, rl_windowStart = now\<rparr> limits)
           else (rl_attempts row + 1 \<le> maxAttempts, map_set ip (row\<lparr>rl_attempts := rl_attempts row + 1\<rparr>) limits)))"

definition cleanExpired :: "int \<Rightarrow> int \<Rightarrow> (string, RateLimitRow) jmap \<Rightarrow> (string, RateLimitRow) jmap" where
  "cleanExpired windowMs now limits = filter (\<lambda>(ip, row). \<not> rl_windowStart row < now - windowMs * 8) limits"

section \<open>The routes\<close>

definition VERIFY_WINDOW_MS :: int where
  "VERIFY_WINDOW_MS = 60000"

definition VERIFY_MAX :: nat where
  "VERIFY_MAX = 10"

definition VERIFY_BACKOFF :: nat where
  "VERIFY_BACKOFF = 5"

datatype pair_event_log =
    PairStarted
  | PairingCodeGenerated string int string
  | PairingCodeVerified string string string int
  | PairFailed string string

record pair_state =
  pair_codes :: "PairingCodeRow list"
  pair_limits :: "(string, RateLimitRow) jmap"
  pair_tokens :: token_table
  pair_key :: nat
  pair_clock :: int
  pair_log :: "pair_event_log list"

datatype pair_reply = CodeIssued string int | TokenIssued string | PairError nat string | PairThrown

definition pad8 :: "string \<Rightarrow> string" where
  "pad8 s = replicate (8 - length s) (CHR ''0'') @ s"

text \<open>The draws of one request, at most five; a draw whose hash is taken is followed by the next.\<close>

fun issue_code :: "(string \<Rightarrow> string) \<Rightarrow> string \<Rightarrow> int \<Rightarrow> int \<Rightarrow> nat \<Rightarrow> nat list \<Rightarrow> PairingCodeRow list \<Rightarrow> (string \<times> PairingCodeRow list) option" where
  "issue_code hash pid now expiresAt attempt [] codes = None"
| "issue_code hash pid now expiresAt attempt (n # draws) codes =
     (let code = pad8 (dec n) in
      case createPairingCode pid (hash code) now expiresAt codes of
        Inr codes \<Rightarrow> Some (code, codes)
      | Inl _ \<Rightarrow> if attempt < 4 then issue_code hash pid now expiresAt (attempt + 1) draws codes else None)"

definition pair_create :: "(nat \<Rightarrow> string \<Rightarrow> string) \<Rightarrow> string \<Rightarrow> nat list \<Rightarrow> string \<Rightarrow> int \<Rightarrow> pair_state \<Rightarrow> pair_reply \<times> pair_state" where
  "pair_create hashCode pid draws ip now s =
     (if countActivePairingCodes now (pair_codes s) \<ge> 3 then (PairError 429 ''RATE_LIMIT'', s)
      else let expiresAt = now + 60000 in
        case issue_code (hashCode (pair_key s)) pid now expiresAt 0 draws (pair_codes s) of
          None \<Rightarrow> (PairThrown, s)
        | Some (code, codes) \<Rightarrow>
            (CodeIssued code expiresAt, s\<lparr>pair_codes := codes, pair_log := pair_log s @ [PairingCodeGenerated pid expiresAt ip]\<rparr>))"

definition pair_refused :: "string \<Rightarrow> string \<Rightarrow> pair_state \<Rightarrow> pair_state" where
  "pair_refused ip reason s = s\<lparr>pair_log := pair_log s @ [PairFailed ip reason]\<rparr>"

definition eight_digits :: "string \<Rightarrow> bool" where
  "eight_digits code = (length code = 8 \<and> list_all is_digit code)"

text \<open>\<open>code\<close> is the body's, when it is a text; \<open>tokenId\<close> and \<open>token\<close> are the fresh ones \<open>createToken\<close> draws.\<close>

definition pair_verify :: "(nat \<Rightarrow> string \<Rightarrow> string) \<Rightarrow> (string \<Rightarrow> string) \<Rightarrow> nat \<Rightarrow> string \<Rightarrow> string option \<Rightarrow> string \<Rightarrow> string \<Rightarrow> int \<Rightarrow> pair_state \<Rightarrow> pair_reply \<times> pair_state" where
  "pair_verify hashCode hashToken tokenTtlDays ip code tokenId token now s =
     (let (allowed, limits) = checkAndIncrement ip VERIFY_MAX VERIFY_WINDOW_MS VERIFY_BACKOFF now (pair_limits s);
          s = s\<lparr>pair_limits := limits\<rparr>
      in if \<not> allowed then (PairError 429 ''RATE_LIMIT'', pair_refused ip ''rate_limited'' s)
         else let s = s\<lparr>pair_limits := cleanExpired VERIFY_WINDOW_MS now (pair_limits s)\<rparr> in
           case code of
             None \<Rightarrow> (PairError 400 ''INVALID_FORMAT'', pair_refused ip ''invalid_format'' s)
           | Some code \<Rightarrow>
               if \<not> eight_digits code then (PairError 400 ''INVALID_FORMAT'', pair_refused ip ''invalid_format'' s)
               else (case getPairingCodeByHash (hashCode (pair_key s) code) (pair_codes s) of
                 None \<Rightarrow> (PairError 404 ''CODE_NOT_FOUND'', pair_refused ip ''unknown_code'' s)
               | Some row \<Rightarrow>
                   if pc_used row then (PairError 409 ''CODE_USED'', pair_refused ip ''code_used'' s)
                   else if pc_expiresAt row < now then (PairError 410 ''CODE_EXPIRED'', pair_refused ip ''code_expired'' s)
                   else let s = s\<lparr>pair_codes := markPairingCodeUsed (pc_id row) now ip (pair_codes s)\<rparr>;
                            tokenExpiresAt = (if tokenTtlDays > 0 then Some (now + int tokenTtlDays * DAY_MS) else None)
                     in case createToken hashToken tokenId token now (''Paired from '' @ ip) tokenExpiresAt (pair_tokens s) of
                          Inl _ \<Rightarrow> (PairThrown, s)
                        | Inr db \<Rightarrow> (TokenIssued token, s\<lparr>pair_tokens := db, pair_log := pair_log s @ [PairingCodeVerified (pc_id row) tokenId ip now]\<rparr>)))"

text \<open>A start of the hub draws a new key and drops what nobody redeemed.\<close>

definition pair_start :: "nat \<Rightarrow> pair_state \<Rightarrow> pair_state" where
  "pair_start key s = s\<lparr>pair_key := key, pair_codes := deleteUnredeemedPairingCodes (pair_codes s), pair_log := pair_log s @ [PairStarted]\<rparr>"

section \<open>The machine\<close>

datatype pair_event =
    PStart nat int
  | PCreate string "nat list" string int
  | PVerify nat string "string option" string string int

fun pair_time :: "pair_event \<Rightarrow> int" where
  "pair_time (PStart key now) = now"
| "pair_time (PCreate pid draws ip now) = now"
| "pair_time (PVerify ttl ip code tokenId token now) = now"

text \<open>Time does not go back, and a request draws five numbers of eight digits at most.\<close>

definition pair_enabled :: "pair_state \<Rightarrow> pair_event \<Rightarrow> bool" where
  "pair_enabled s e = (pair_clock s \<le> pair_time e \<and> (case e of PCreate _ draws _ _ \<Rightarrow> length draws = 5 \<and> list_all (\<lambda>n. length (dec n) \<le> 8) draws | _ \<Rightarrow> True))"

fun pair_run :: "(nat \<Rightarrow> string \<Rightarrow> string) \<Rightarrow> (string \<Rightarrow> string) \<Rightarrow> pair_state \<Rightarrow> pair_event \<Rightarrow> pair_state" where
  "pair_run hashCode hashToken s (PStart key now) = pair_start key s"
| "pair_run hashCode hashToken s (PCreate pid draws ip now) = snd (pair_create hashCode pid draws ip now s)"
| "pair_run hashCode hashToken s (PVerify ttl ip code tokenId token now) = snd (pair_verify hashCode hashToken ttl ip code tokenId token now s)"

definition pair_step :: "(nat \<Rightarrow> string \<Rightarrow> string) \<Rightarrow> (string \<Rightarrow> string) \<Rightarrow> pair_state \<Rightarrow> pair_event \<Rightarrow> pair_state" where
  "pair_step hashCode hashToken s e = pair_run hashCode hashToken (s\<lparr>pair_clock := pair_time e\<rparr>) e"

definition pair_init :: pair_state where
  "pair_init = \<lparr>pair_codes = [], pair_limits = [], pair_tokens = [], pair_key = 0, pair_clock = 0, pair_log = []\<rparr>"


section \<open>A code is redeemed once, in time\<close>

fun verified_ids :: "pair_event_log list \<Rightarrow> string list" where
  "verified_ids [] = []"
| "verified_ids (PairingCodeVerified pid tokenId ip now # log) = pid # verified_ids log"
| "verified_ids (_ # log) = verified_ids log"

lemma verified_ids_append [simp]: "verified_ids (a @ b) = verified_ids a @ verified_ids b"
  by (induction a rule: verified_ids.induct) auto

text \<open>The code \<open>pid\<close> was issued, to expire at \<open>e\<close>, since the hub last started.\<close>

definition issued_in_run :: "string \<Rightarrow> int \<Rightarrow> pair_event_log list \<Rightarrow> bool" where
  "issued_in_run pid e log \<longleftrightarrow> (\<exists>a b ip. log = a @ PairingCodeGenerated pid e ip # b \<and> PairStarted \<notin> set b)"

lemma issued_append: "issued_in_run pid e log \<Longrightarrow> PairStarted \<notin> set rest \<Longrightarrow> issued_in_run pid e (log @ rest)"
  unfolding issued_in_run_def by (metis (no_types, opaque_lifting) Un_iff append.assoc append_Cons set_append)

lemma issued_now: "issued_in_run pid e (log @ [PairingCodeGenerated pid e ip])"
  unfolding issued_in_run_def by (intro exI [of _ log] exI [of _ "[]"] exI [of _ ip]) simp

definition redeemed_ok :: "pair_event_log list \<Rightarrow> bool" where
  "redeemed_ok log \<longleftrightarrow> (\<forall>a pid tokenId ip t b. log = a @ PairingCodeVerified pid tokenId ip t # b \<longrightarrow> (\<exists>e. issued_in_run pid e a \<and> t \<le> e))"

lemma redeemed_append:
  assumes "redeemed_ok log" "\<And>pid tokenId ip t. x = PairingCodeVerified pid tokenId ip t \<Longrightarrow> \<exists>e. issued_in_run pid e log \<and> t \<le> e"
  shows "redeemed_ok (log @ [x])"
  unfolding redeemed_ok_def
proof (intro allI impI)
  fix a pid tokenId ip t b
  assume eq: "log @ [x] = a @ PairingCodeVerified pid tokenId ip t # b"
  show "\<exists>e. issued_in_run pid e a \<and> t \<le> e"
  proof (cases b rule: rev_cases)
    case Nil
    then show ?thesis using eq assms(2) [of pid tokenId ip t] by simp
  next
    case (snoc b' y)
    then have "log = a @ PairingCodeVerified pid tokenId ip t # b'" using eq by simp
    then show ?thesis using assms(1) unfolding redeemed_ok_def by blast
  qed
qed

definition pair_inv :: "pair_state \<Rightarrow> bool" where
  "pair_inv s \<longleftrightarrow> distinct (map pc_id (pair_codes s)) \<and> distinct (map pc_hash (pair_codes s))
     \<and> distinct (verified_ids (pair_log s)) \<and> set (verified_ids (pair_log s)) \<subseteq> pc_id ` {r \<in> set (pair_codes s). pc_used r}
     \<and> (\<forall>r \<in> set (pair_codes s). \<not> pc_used r \<longrightarrow> issued_in_run (pc_id r) (pc_expiresAt r) (pair_log s))
     \<and> countActivePairingCodes (pair_clock s) (pair_codes s) \<le> 3
     \<and> redeemed_ok (pair_log s) \<and> length (pair_tokens s) = length (verified_ids (pair_log s))"

lemma count_later: "now \<le> now' \<Longrightarrow> countActivePairingCodes now' codes \<le> countActivePairingCodes now codes"
  unfolding countActivePairingCodes_def by (induction codes) (auto simp: active_code_def)

lemma pair_inv_later: "pair_inv s \<Longrightarrow> pair_clock s \<le> now \<Longrightarrow> pair_inv (s\<lparr>pair_clock := now\<rparr>)"
  using count_later [of "pair_clock s" now "pair_codes s"] by (auto simp: pair_inv_def)

lemma pair_inv_limits [simp]: "pair_inv (s\<lparr>pair_limits := l\<rparr>) = pair_inv s"
  by (simp add: pair_inv_def)

lemma pair_inv_refused: "pair_inv s \<Longrightarrow> pair_inv (pair_refused ip reason s)"
  by (auto simp: pair_inv_def pair_refused_def intro: issued_append redeemed_append)

lemma pair_inv_start: "pair_inv s \<Longrightarrow> pair_inv (pair_start key s)"
  by (auto simp: pair_inv_def pair_start_def deleteUnredeemedPairingCodes_def countActivePairingCodes_def active_code_def
      distinct_map inj_on_def intro: redeemed_append)

lemma issue_code_row:
  "issue_code hash pid now e attempt draws codes = Some (code, codes') \<Longrightarrow>
     \<exists>r. codes' = codes @ [r] \<and> pc_id r = pid \<and> pc_expiresAt r = e \<and> \<not> pc_used r \<and> pc_id r \<notin> pc_id ` set codes \<and> pc_hash r \<notin> pc_hash ` set codes"
proof (induction draws arbitrary: attempt)
  case (Cons n draws)
  then show ?case by (auto simp: createPairingCode_def Let_def split: if_splits)
qed simp

lemma pair_inv_create:
  assumes "pair_inv s" "pair_clock s = now"
  shows "pair_inv (snd (pair_create hashCode pid draws ip now s))"
proof (cases "countActivePairingCodes now (pair_codes s) \<ge> 3")
  case False
  show ?thesis
  proof (cases "issue_code (hashCode (pair_key s)) pid now (now + 60000) 0 draws (pair_codes s)")
    case (Some ic)
    obtain code codes where ic: "ic = (code, codes)" by fastforce
    then obtain r where r: "codes = pair_codes s @ [r]" "pc_id r = pid" "pc_expiresAt r = now + 60000" "\<not> pc_used r"
      "pc_id r \<notin> pc_id ` set (pair_codes s)" "pc_hash r \<notin> pc_hash ` set (pair_codes s)"
      using issue_code_row Some by blast
    have "countActivePairingCodes now codes \<le> 3" using False by (simp add: r(1) countActivePairingCodes_def)
    then show ?thesis using assms r False Some ic issued_now
      by (auto simp: pair_inv_def pair_create_def Let_def intro: issued_append redeemed_append)
  qed (use assms False in \<open>simp add: pair_create_def Let_def\<close>)
qed (use assms in \<open>simp add: pair_create_def\<close>)


lemma mark_used:
  "map pc_id (markPairingCodeUsed pid t ip codes) = map pc_id codes" "map pc_hash (markPairingCodeUsed pid t ip codes) = map pc_hash codes"
  "countActivePairingCodes now (markPairingCodeUsed pid t ip codes) \<le> countActivePairingCodes now codes"
  by (induction codes) (auto simp: markPairingCodeUsed_def countActivePairingCodes_def active_code_def)

lemma mark_used_rows:
  "r \<in> set (markPairingCodeUsed pid t ip codes) \<Longrightarrow> \<not> pc_used r \<Longrightarrow> r \<in> set codes \<and> pc_id r \<noteq> pid"
  "r \<in> set codes \<Longrightarrow> pc_used r \<or> pc_id r = pid \<Longrightarrow> pc_id r \<in> pc_id ` {r \<in> set (markPairingCodeUsed pid t ip codes). pc_used r}"
proof -
  let ?f = "\<lambda>r. if pc_id r = pid then r\<lparr>pc_used := True, pc_usedAt := Some t, pc_usedByIp := Some ip\<rparr> else r"
  show "r \<in> set (markPairingCodeUsed pid t ip codes) \<Longrightarrow> \<not> pc_used r \<Longrightarrow> r \<in> set codes \<and> pc_id r \<noteq> pid"
    by (auto simp: markPairingCodeUsed_def split: if_splits)
  assume "r \<in> set codes" "pc_used r \<or> pc_id r = pid"
  then have "?f r \<in> {r \<in> set (markPairingCodeUsed pid t ip codes). pc_used r}" by (auto simp: markPairingCodeUsed_def)
  moreover have "pc_id r = pc_id (?f r)" by simp
  ultimately show "pc_id r \<in> pc_id ` {r \<in> set (markPairingCodeUsed pid t ip codes). pc_used r}" by (rule rev_image_eqI)
qed

lemma pair_inv_mark:
  assumes "pair_inv s"
  shows "pair_inv (s\<lparr>pair_codes := markPairingCodeUsed pid t ip (pair_codes s)\<rparr>)"
proof -
  have "pc_id ` {r \<in> set (pair_codes s). pc_used r} \<subseteq> pc_id ` {r \<in> set (markPairingCodeUsed pid t ip (pair_codes s)). pc_used r}"
    using mark_used_rows(2) by blast
  then show ?thesis using assms mark_used(3) [of "pair_clock s" pid t ip "pair_codes s"]
    by (auto simp: pair_inv_def mark_used(1,2) dest: mark_used_rows(1))
qed

lemma pair_inv_redeem:
  assumes inv: "pair_inv s" and row: "row \<in> set (pair_codes s)" "\<not> pc_used row" "now \<le> pc_expiresAt row"
    and db: "length db = Suc (length (pair_tokens s))"
  shows "pair_inv (s\<lparr>pair_codes := markPairingCodeUsed (pc_id row) now ip (pair_codes s), pair_tokens := db,
     pair_log := pair_log s @ [PairingCodeVerified (pc_id row) tokenId ip now]\<rparr>)"
proof -
  have "pc_id row \<notin> set (verified_ids (pair_log s))"
  proof
    assume "pc_id row \<in> set (verified_ids (pair_log s))"
    then obtain q where "q \<in> set (pair_codes s)" "pc_used q" "pc_id row = pc_id q" using inv by (auto simp: pair_inv_def dest!: subsetD)
    then show False using inv row by (auto simp: pair_inv_def distinct_map inj_on_def)
  qed
  moreover have "pc_id row \<in> pc_id ` {r \<in> set (markPairingCodeUsed (pc_id row) now ip (pair_codes s)). pc_used r}"
    using row(1) by (intro mark_used_rows(2)) auto
  moreover have "redeemed_ok (pair_log s @ [PairingCodeVerified (pc_id row) tokenId ip now])"
    using inv row by (intro redeemed_append) (auto simp: pair_inv_def)
  ultimately show ?thesis using pair_inv_mark [OF inv, of "pc_id row" now ip] db by (auto simp: pair_inv_def intro: issued_append)
qed

lemma createToken_length: "createToken hashToken tokenId token now label e db = Inr db' \<Longrightarrow> length db' = Suc (length db)"
  by (auto simp: createToken_def insert_row_def split: if_splits)

lemma pair_inv_verify:
  assumes "pair_inv s"
  shows "pair_inv (snd (pair_verify hashCode hashToken ttl ip code tokenId token now s))"
proof -
  have row: "row \<in> set (pair_codes s)" if "getPairingCodeByHash h (pair_codes s) = Some row" for h row
    using that by (auto simp: getPairingCodeByHash_def find_Some_iff)
  show ?thesis
    using assms
    by (auto simp: pair_verify_def Let_def row createToken_length intro!: pair_inv_refused pair_inv_mark [of "s\<lparr>pair_limits := l\<rparr>" for l, simplified]
        pair_inv_redeem [of "s\<lparr>pair_limits := l\<rparr>" for l, simplified] split: prod.splits option.splits sum.splits)
qed

lemma pair_inv_step: "pair_inv s \<Longrightarrow> pair_enabled s e \<Longrightarrow> pair_inv (pair_step hashCode hashToken s e)"
  using pair_inv_later [of s "pair_time e"]
  by (cases e) (auto simp: pair_step_def pair_enabled_def intro: pair_inv_start pair_inv_create pair_inv_verify)

interpretation pairing: event_machine pair_init pair_enabled "pair_step hashCode hashToken" pair_inv for hashCode hashToken
  by unfold_locales (simp add: pair_init_def pair_inv_def countActivePairingCodes_def redeemed_ok_def, rule pair_inv_step)

text \<open>
  C32: Pairing gives a token for a code once and in time. In every run of the hub, over its restarts, no code is redeemed
  twice, each redeemed code was issued since the hub last started and had not expired, exactly one token is created for each, and at most three codes are active
  at once.
\<close>

theorem pairing_codes_once:
  assumes "runs pair_enabled (pair_step hashCode hashToken) pair_init es" "s = foldl (pair_step hashCode hashToken) pair_init es"
  shows "distinct (verified_ids (pair_log s)) \<and> length (pair_tokens s) = length (verified_ids (pair_log s))
     \<and> (\<forall>a pid tokenId ip t b. pair_log s = a @ PairingCodeVerified pid tokenId ip t # b \<longrightarrow> (\<exists>e. issued_in_run pid e a \<and> t \<le> e))
     \<and> countActivePairingCodes (pair_clock s) (pair_codes s) \<le> 3"
  using pairing.inv_run [OF assms(1)] assms(2) unfolding pair_inv_def redeemed_ok_def by blast

theorem pairing_codes_once_witness:
  "let es = [PStart 1 0, PCreate ''A'' [7, 8, 9, 10, 11] ''::1'' 5, PVerify 30 ''::2'' (Some ''00000007'') ''T'' ''tok'' 9, PVerify 30 ''::2'' (Some ''00000007'') ''U'' ''tok2'' 10];
       s = foldl (pair_step (\<lambda>k c. c) (\<lambda>t. t)) pair_init es
   in runs pair_enabled (pair_step (\<lambda>k c. c) (\<lambda>t. t)) pair_init es \<and> verified_ids (pair_log s) = [''A''] \<and> length (pair_tokens s) = length (verified_ids (pair_log s))"
proof -
  let ?es = "[PStart 1 0, PCreate ''A'' [7, 8, 9, 10, 11] ''::1'' 5, PVerify 30 ''::2'' (Some ''00000007'') ''T'' ''tok'' 9, PVerify 30 ''::2'' (Some ''00000007'') ''U'' ''tok2'' 10]"
  have run: "runs pair_enabled (pair_step (\<lambda>k c. c) (\<lambda>t. t)) pair_init ?es" by code_simp
  moreover have "verified_ids (pair_log (foldl (pair_step (\<lambda>k c. c) (\<lambda>t. t)) pair_init ?es)) = [''A'']" by code_simp
  ultimately show ?thesis using pairing_codes_once [OF run refl] unfolding Let_def by blast
qed


section \<open>How often an address may try\<close>

lemma backoff_bounds: "1 \<le> backoff a m t" "backoff a m t \<le> 8"
  by (auto simp: backoff_def min_def)

text \<open>One attempt, as the route makes it: the check, and the clean-up when it is allowed.\<close>

definition attempt :: "bool \<Rightarrow> string \<Rightarrow> int \<Rightarrow> (string, RateLimitRow) jmap \<Rightarrow> bool \<times> (string, RateLimitRow) jmap" where
  "attempt clean ip now limits =
     (let (allowed, limits) = checkAndIncrement ip VERIFY_MAX VERIFY_WINDOW_MS VERIFY_BACKOFF now limits
      in (allowed, if allowed \<and> clean then cleanExpired VERIFY_WINDOW_MS now limits else limits))"

lemma pair_verify_attempt:
  "pair_limits (snd (pair_verify hashCode hashToken ttl ip code tokenId token now s)) = snd (attempt True ip now (pair_limits s))"
  "fst (pair_verify hashCode hashToken ttl ip code tokenId token now s) = PairError 429 ''RATE_LIMIT'' \<longleftrightarrow> \<not> fst (attempt True ip now (pair_limits s))"
  by (simp_all add: pair_verify_def attempt_def pair_refused_def Let_def split: prod.splits option.splits sum.splits)

lemma checkAndIncrement_other: "ip' \<noteq> ip \<Longrightarrow> map_get (snd (checkAndIncrement ip m w b now l)) ip' = map_get l ip'"
  by (auto simp: checkAndIncrement_def Let_def split: option.splits)

lemma checkAndIncrement_ok: "map_ok l \<Longrightarrow> map_ok (snd (checkAndIncrement ip m w b now l))"
  by (auto simp: checkAndIncrement_def Let_def split: option.splits)

lemma cleanExpired_get:
  "map_ok l \<Longrightarrow> map_get (cleanExpired w now l) ip
     = (case map_get l ip of Some row \<Rightarrow> if rl_windowStart row < now - w * 8 then None else Some row | None \<Rightarrow> None)"
  unfolding cleanExpired_def using map_get_filter [of l "\<lambda>row. \<not> rl_windowStart row < now - w * 8" ip] by (auto split: option.splits)

lemma attempt_ok: "map_ok l \<Longrightarrow> map_ok (snd (attempt c ip now l))"
  using checkAndIncrement_ok [of l ip VERIFY_MAX VERIFY_WINDOW_MS VERIFY_BACKOFF now]
  by (auto simp: attempt_def cleanExpired_def Let_def map_ok_filter split: prod.splits)

text \<open>The clean-up only drops rows whose window is over whatever the back-off: an attempt cannot tell.\<close>

definition same_limits :: "int \<Rightarrow> (string, RateLimitRow) jmap \<Rightarrow> (string, RateLimitRow) jmap \<Rightarrow> bool" where
  "same_limits clock l l' \<longleftrightarrow> (\<forall>ip. map_get l ip = map_get l' ip
     \<or> map_get l ip = None \<and> (\<exists>row. map_get l' ip = Some row \<and> rl_windowStart row < clock - VERIFY_WINDOW_MS * 8))"

lemma stale_reset:
  assumes "rl_windowStart row < clock - VERIFY_WINDOW_MS * 8" "clock \<le> now" "map_get l' ip = Some row" "map_get l ip = None"
  shows "fst (checkAndIncrement ip m VERIFY_WINDOW_MS b now l') = fst (checkAndIncrement ip m VERIFY_WINDOW_MS b now l)"
    and "map_get (snd (checkAndIncrement ip m VERIFY_WINDOW_MS b now l')) ip = map_get (snd (checkAndIncrement ip m VERIFY_WINDOW_MS b now l)) ip"
proof -
  have "VERIFY_WINDOW_MS * int (backoff (rl_attempts row) m b) \<le> now - rl_windowStart row"
    using assms(1,2) backoff_bounds(2) [of "rl_attempts row" m b] by (simp add: VERIFY_WINDOW_MS_def)
  then show "fst (checkAndIncrement ip m VERIFY_WINDOW_MS b now l') = fst (checkAndIncrement ip m VERIFY_WINDOW_MS b now l)"
    "map_get (snd (checkAndIncrement ip m VERIFY_WINDOW_MS b now l')) ip = map_get (snd (checkAndIncrement ip m VERIFY_WINDOW_MS b now l)) ip"
    using assms(3,4) by (simp_all add: checkAndIncrement_def Let_def)
qed

lemma same_limits_clean:
  assumes "same_limits now l l'" "map_ok l"
  shows "same_limits now (cleanExpired VERIFY_WINDOW_MS now l) l'"
  unfolding same_limits_def
proof
  fix ip
  show "map_get (cleanExpired VERIFY_WINDOW_MS now l) ip = map_get l' ip
    \<or> map_get (cleanExpired VERIFY_WINDOW_MS now l) ip = None \<and> (\<exists>row. map_get l' ip = Some row \<and> rl_windowStart row < now - VERIFY_WINDOW_MS * 8)"
    using assms(1) [unfolded same_limits_def, rule_format, of ip] cleanExpired_get [OF assms(2), of VERIFY_WINDOW_MS now ip]
    by (cases "map_get l ip"; cases "map_get l' ip") (auto split: if_splits)
qed

lemma same_limits_attempt:
  assumes "same_limits clock l l'" "clock \<le> now" "map_ok l"
  shows "fst (attempt True ip now l) = fst (attempt False ip now l')" and "same_limits now (snd (attempt True ip now l)) (snd (attempt False ip now l'))"
proof -
  define c where "c = checkAndIncrement ip VERIFY_MAX VERIFY_WINDOW_MS VERIFY_BACKOFF now l"
  define c' where "c' = checkAndIncrement ip VERIFY_MAX VERIFY_WINDOW_MS VERIFY_BACKOFF now l'"
  have eq: "fst c = fst c' \<and> map_get (snd c) ip = map_get (snd c') ip"
  proof (cases "map_get l ip = map_get l' ip")
    case True
    then show ?thesis by (simp add: c_def c'_def checkAndIncrement_def Let_def split: option.splits)
  next
    case False
    then obtain row where "map_get l ip = None" "map_get l' ip = Some row" "rl_windowStart row < clock - VERIFY_WINDOW_MS * 8"
      using assms(1) by (auto simp: same_limits_def)
    then show ?thesis using stale_reset [of row clock now l' ip l] assms(2) unfolding c_def c'_def by metis
  qed
  show "fst (attempt True ip now l) = fst (attempt False ip now l')"
    using eq by (simp add: attempt_def Let_def split_beta flip: c_def c'_def)
  have "same_limits now (snd c) (snd c')"
    unfolding same_limits_def
  proof
    fix ip'
    show "map_get (snd c) ip' = map_get (snd c') ip' \<or> map_get (snd c) ip' = None \<and> (\<exists>row. map_get (snd c') ip' = Some row \<and> rl_windowStart row < now - VERIFY_WINDOW_MS * 8)"
    proof (cases "ip' = ip")
      case False
      then show ?thesis using assms(1,2) checkAndIncrement_other [OF False] unfolding same_limits_def c_def c'_def by fastforce
    qed (use eq in simp)
  qed
  moreover have "same_limits now (cleanExpired VERIFY_WINDOW_MS now (snd c)) (snd c')"
    using calculation checkAndIncrement_ok [OF assms(3)] by (intro same_limits_clean) (simp_all add: c_def)
  ultimately show "same_limits now (snd (attempt True ip now l)) (snd (attempt False ip now l'))"
    by (simp add: attempt_def Let_def split_beta flip: c_def c'_def)
qed


fun attempts :: "bool \<Rightarrow> (string, RateLimitRow) jmap \<Rightarrow> (string \<times> int) list \<Rightarrow> bool list" where
  "attempts clean l [] = []"
| "attempts clean l ((ip, now) # reqs) = fst (attempt clean ip now l) # attempts clean (snd (attempt clean ip now l)) reqs"

lemma attempts_same:
  "same_limits clock l l' \<Longrightarrow> map_ok l \<Longrightarrow> sorted (clock # map snd reqs) \<Longrightarrow> attempts True l reqs = attempts False l' reqs"
proof (induction reqs arbitrary: clock l l')
  case (Cons req reqs)
  obtain ip now where req: "req = (ip, now)" by fastforce
  have "clock \<le> now" using Cons.prems(3) by (simp add: req)
  note same = same_limits_attempt [OF Cons.prems(1) this Cons.prems(2), of ip]
  show ?case using Cons.IH [OF same(2)] same(1) Cons.prems(3) attempt_ok [OF Cons.prems(2), of True ip now] by (simp add: req)
qed simp

text \<open>
  C34: Cleaning up old attempts is invisible. Over any requests in the order of their times, from any addresses, the route answers
  each as it would if the table were never cleaned: a row is dropped only once even the longest back-off of its address is over.
\<close>

theorem clean_up_unobservable:
  assumes "map_ok limits" "sorted (map snd reqs)"
  shows "attempts True limits reqs = attempts False limits reqs"
proof (cases reqs)
  case (Cons req reqs')
  have "same_limits (snd req) limits limits" by (simp add: same_limits_def)
  then show ?thesis using attempts_same [of "snd req" limits limits reqs] assms Cons by simp
qed simp

theorem clean_up_unobservable_witness:
  "attempts True [(''a'', \<lparr>rl_attempts = 30, rl_windowStart = 0\<rparr>)] [(''b'', 480001), (''a'', 480002)]
     = attempts False [(''a'', \<lparr>rl_attempts = 30, rl_windowStart = 0\<rparr>)] [(''b'', 480001), (''a'', 480002)]"
  by (rule clean_up_unobservable) (simp_all add: map_ok_def)

text \<open>The most an address can have been let try, from when its window stands.\<close>

definition within_budget :: "string \<Rightarrow> int \<Rightarrow> int \<Rightarrow> int \<Rightarrow> (string, RateLimitRow) jmap \<Rightarrow> bool" where
  "within_budget ip t0 clock c l \<longleftrightarrow>
     (case map_get l ip of
        None \<Rightarrow> c \<le> 10 + 10 * ((clock - t0) div 60000)
      | Some row \<Rightarrow>
          if rl_windowStart row < t0 then c \<le> min (int (rl_attempts row)) 10
          else rl_windowStart row \<le> clock \<and> c \<le> 10 + 10 * ((rl_windowStart row - t0) div 60000) + min (int (rl_attempts row)) 10)"

lemmas verify_constants = VERIFY_WINDOW_MS_def VERIFY_MAX_def VERIFY_BACKOFF_def

lemma budget_clean:
  assumes "within_budget ip t0 now c l" "map_ok l" "t0 \<le> now"
  shows "within_budget ip t0 now c (cleanExpired VERIFY_WINDOW_MS now l)"
proof (cases "map_get l ip")
  case (Some row)
  have "(rl_windowStart row - t0) div 60000 + 1 \<le> (now - t0) div 60000" if "rl_windowStart row < now - 480000" using that by linarith
  moreover have "0 \<le> (now - t0) div 60000" using assms(3) by simp
  ultimately show ?thesis using assms cleanExpired_get [OF assms(2), of VERIFY_WINDOW_MS now ip] Some
    by (auto simp: within_budget_def verify_constants split: if_splits)
qed (use assms cleanExpired_get [OF assms(2), of VERIFY_WINDOW_MS now ip] in \<open>simp add: within_budget_def\<close>)

lemma budget_later: "within_budget ip t0 clock c l \<Longrightarrow> clock \<le> now \<Longrightarrow> within_budget ip t0 now c l"
  using zdiv_mono1 [of "clock - t0" "now - t0" 60000] by (auto simp: within_budget_def split: option.splits if_splits)

lemma budget_check:
  assumes "within_budget ip t0 clock c l" "clock \<le> now" "t0 \<le> now"
  shows "within_budget ip t0 now (c + (if fst (checkAndIncrement ip VERIFY_MAX VERIFY_WINDOW_MS VERIFY_BACKOFF now l) then 1 else 0))
     (snd (checkAndIncrement ip VERIFY_MAX VERIFY_WINDOW_MS VERIFY_BACKOFF now l))"
proof (cases "map_get l ip")
  case None
  have "(clock - t0) div 60000 \<le> (now - t0) div 60000" using assms(2) by (intro zdiv_mono1) auto
  then show ?thesis using assms None by (simp add: within_budget_def checkAndIncrement_def)
next
  case (Some row)
  define w where "w = VERIFY_WINDOW_MS * int (backoff (rl_attempts row) VERIFY_MAX VERIFY_BACKOFF)"
  have w: "60000 \<le> w" using backoff_bounds(1) [of "rl_attempts row" VERIFY_MAX VERIFY_BACKOFF] by (simp add: w_def VERIFY_WINDOW_MS_def)
  have "(rl_windowStart row - t0) div 60000 + 1 \<le> (now - t0) div 60000" if "w \<le> now - rl_windowStart row" using that w by linarith
  moreover have "0 \<le> (now - t0) div 60000" using assms(3) by simp
  ultimately show ?thesis using assms Some
    by (auto simp: within_budget_def checkAndIncrement_def VERIFY_MAX_def w_def [symmetric] w_def [symmetric, unfolded VERIFY_MAX_def] Let_def split: if_splits)
qed


lemma budget_attempt:
  assumes "within_budget ip t0 clock c l" "clock \<le> now" "t0 \<le> now" "map_ok l"
  shows "within_budget ip t0 now (c + (if ip' = ip \<and> fst (attempt True ip' now l) then 1 else 0)) (snd (attempt True ip' now l))"
proof -
  let ?c = "checkAndIncrement ip' VERIFY_MAX VERIFY_WINDOW_MS VERIFY_BACKOFF now l"
  have "within_budget ip t0 now (c + (if ip' = ip \<and> fst ?c then 1 else 0)) (snd ?c)"
  proof (cases "ip' = ip")
    case True
    then show ?thesis using budget_check [OF assms(1-3)] by simp
  next
    case False
    then have "map_get (snd ?c) ip = map_get l ip" by (simp add: checkAndIncrement_other)
    then show ?thesis using budget_later [OF assms(1,2)] False by (simp add: within_budget_def)
  qed
  then show ?thesis using budget_clean [OF _ checkAndIncrement_ok [OF assms(4)] assms(3)]
    by (auto simp: attempt_def Let_def split_beta)
qed

text \<open>How many of an address's requests were let through to the codes, over a run.\<close>

fun tried :: "(nat \<Rightarrow> string \<Rightarrow> string) \<Rightarrow> (string \<Rightarrow> string) \<Rightarrow> pair_state \<Rightarrow> string \<Rightarrow> pair_event list \<Rightarrow> nat" where
  "tried hashCode hashToken s ip [] = 0"
| "tried hashCode hashToken s ip (e # es) =
     (case e of
        PVerify ttl ip' code tokenId token now \<Rightarrow>
          if ip' = ip \<and> fst (pair_verify hashCode hashToken ttl ip' code tokenId token now (s\<lparr>pair_clock := now\<rparr>)) \<noteq> PairError 429 ''RATE_LIMIT'' then 1 else 0
      | _ \<Rightarrow> 0)
     + tried hashCode hashToken (pair_step hashCode hashToken s e) ip es"

lemma create_limits [simp]: "pair_limits (snd (pair_create hashCode pid draws ip now s)) = pair_limits s"
  by (simp add: pair_create_def Let_def split: option.splits prod.splits)

lemma step_limits_ok: "map_ok (pair_limits s) \<Longrightarrow> map_ok (pair_limits (pair_step hashCode hashToken s e))"
  by (cases e) (simp_all add: pair_step_def pair_start_def pair_verify_attempt attempt_ok)

lemma step_clock: "pair_clock (pair_step hashCode hashToken s e) = pair_time e"
  by (cases e) (simp_all add: pair_step_def pair_start_def pair_create_def pair_verify_def pair_refused_def Let_def split: option.splits prod.splits sum.splits)

lemma run_times: "runs pair_enabled (pair_step hashCode hashToken) s es \<Longrightarrow> e \<in> set es \<Longrightarrow> pair_clock s \<le> pair_time e"
proof (induction es arbitrary: s)
  case (Cons d es)
  then have "pair_clock s \<le> pair_time d" by (simp add: pair_enabled_def)
  moreover have "pair_time d \<le> pair_time e" if "e \<in> set es" using Cons that step_clock [of hashCode hashToken s d] by force
  ultimately show ?case using Cons.prems(2) by auto
qed simp

lemma tried_budget:
  assumes "within_budget ip t0 k c (pair_limits s)" "map_ok (pair_limits s)" "runs pair_enabled (pair_step hashCode hashToken) s es"
    "\<forall>e \<in> set es. t0 \<le> pair_time e \<and> k \<le> pair_time e \<and> pair_time e \<le> t1" "k \<le> t1"
  shows "\<exists>k l. k \<le> t1 \<and> within_budget ip t0 k (c + int (tried hashCode hashToken s ip es)) l"
  using assms
proof (induction es arbitrary: s c k)
  case (Cons e es)
  let ?s = "pair_step hashCode hashToken s e"
  let ?n = "int (case e of PVerify ttl ip' code tokenId token now \<Rightarrow>
     if ip' = ip \<and> fst (pair_verify hashCode hashToken ttl ip' code tokenId token now (s\<lparr>pair_clock := now\<rparr>)) \<noteq> PairError 429 ''RATE_LIMIT'' then 1 else 0 | _ \<Rightarrow> 0)"
  have time: "k \<le> pair_time e" "t0 \<le> pair_time e" using Cons.prems(4) by auto
  have "within_budget ip t0 (pair_time e) (c + ?n) (pair_limits ?s)"
  proof (cases e)
    case (PVerify ttl ip' code tokenId token now)
    then show ?thesis using budget_attempt [OF Cons.prems(1) time Cons.prems(2), of ip']
      by (cases "ip' = ip") (simp_all add: pair_step_def pair_verify_attempt split: if_splits)
  qed (use budget_later [OF Cons.prems(1) time(1)] in \<open>simp_all add: pair_step_def pair_start_def\<close>)
  moreover have "\<forall>d \<in> set es. pair_time e \<le> pair_time d" using run_times [of hashCode hashToken ?s es] Cons.prems(3) by (auto simp: step_clock)
  ultimately show ?case using Cons.IH [of "pair_time e" "c + ?n" ?s] Cons.prems step_limits_ok [OF Cons.prems(2)] by (auto simp: add.assoc)
qed auto

text \<open>No window starts in the future.\<close>

definition limits_inv :: "pair_state \<Rightarrow> bool" where
  "limits_inv s \<longleftrightarrow> map_ok (pair_limits s) \<and> (\<forall>ip row. map_get (pair_limits s) ip = Some row \<longrightarrow> rl_windowStart row \<le> pair_clock s)"

lemma attempt_starts:
  assumes "map_get (snd (attempt c ip' now l)) ip = Some row" "map_ok l"
  shows "rl_windowStart row = now \<or> (\<exists>row'. map_get l ip = Some row' \<and> rl_windowStart row = rl_windowStart row')"
proof -
  let ?c = "checkAndIncrement ip' VERIFY_MAX VERIFY_WINDOW_MS VERIFY_BACKOFF now l"
  have "map_get (snd ?c) ip = Some row"
    using assms cleanExpired_get [OF checkAndIncrement_ok [OF assms(2)], of VERIFY_WINDOW_MS now ip' VERIFY_MAX VERIFY_WINDOW_MS VERIFY_BACKOFF now ip]
    by (auto simp: attempt_def Let_def split_beta split: if_splits option.splits)
  then show ?thesis by (cases "ip' = ip") (auto simp: checkAndIncrement_def Let_def split: option.splits if_splits)
qed

lemma limits_inv_step: "limits_inv s \<Longrightarrow> pair_enabled s e \<Longrightarrow> limits_inv (pair_step hashCode hashToken s e)"
proof -
  assume inv: "limits_inv s" and en: "pair_enabled s e"
  have later: "rl_windowStart row \<le> pair_time e" if "map_get (pair_limits s) ip = Some row" for ip row
    using that inv en by (fastforce simp: limits_inv_def pair_enabled_def)
  have "rl_windowStart row \<le> pair_time e" if "map_get (pair_limits (pair_step hashCode hashToken s e)) ip = Some row" for ip row
    using that later attempt_starts inv
    by (cases e) (force simp: pair_step_def pair_start_def pair_verify_attempt limits_inv_def)+
  then show ?thesis using step_limits_ok [of s hashCode hashToken e] inv by (simp add: limits_inv_def step_clock)
qed

interpretation limits: event_machine pair_init pair_enabled "pair_step hashCode hashToken" limits_inv for hashCode hashToken
  by unfold_locales (simp add: pair_init_def limits_inv_def, rule limits_inv_step)

text \<open>
  C33: Guessing is bounded. Whatever the hub did before, over restarts and from whatever state of the table, in any span of time an address
  gets at most ten requests to the codes for each minute begun in it, and ten more from the window already open; every other request is refused with 429.
\<close>

theorem pair_guesses_bounded:
  assumes "runs pair_enabled (pair_step hashCode hashToken) pair_init (es1 @ es2)" "s = foldl (pair_step hashCode hashToken) pair_init es1"
    and "\<forall>e \<in> set es2. t0 \<le> pair_time e \<and> pair_time e \<le> t1" "t0 \<le> t1"
  shows "int (tried hashCode hashToken s ip es2) \<le> int VERIFY_MAX * ((t1 - t0) div VERIFY_WINDOW_MS + 2)"
proof (cases es2)
  case Nil
  have "0 \<le> (t1 - t0) div 60000" using assms(4) by simp
  then show ?thesis using Nil by (simp add: verify_constants)
next
  case (Cons e es)
  have inv: "limits_inv s" using limits.inv_every_prefix [OF assms(1)] assms(2) by simp
  have run: "runs pair_enabled (pair_step hashCode hashToken) s es2" using assms(1,2) by (simp add: runs_append)
  let ?k = "max t0 (pair_clock s)"
  have "pair_clock s \<le> t1" using run_times [OF run, of e] assms(3) Cons by auto
  then have k: "?k \<le> t1" using assms(4) by simp
  have "0 \<le> (?k - t0) div 60000" by simp
  then have "within_budget ip t0 ?k 0 (pair_limits s)" using inv
    by (auto simp: within_budget_def limits_inv_def pos_imp_zdiv_nonneg_iff le_max_iff_disj split: option.splits)
  then obtain k l where kl: "k \<le> t1" "within_budget ip t0 k (0 + int (tried hashCode hashToken s ip es2)) l"
    using tried_budget [of ip t0 ?k 0 s hashCode hashToken es2 t1] run k run_times [OF run] assms(3) inv by (auto simp: limits_inv_def)
  have "(k - t0) div 60000 \<le> (t1 - t0) div 60000" using kl(1) by (intro zdiv_mono1) auto
  moreover have "(w - t0) div 60000 \<le> (t1 - t0) div 60000" if "w \<le> k" for w using that kl(1) by (intro zdiv_mono1) auto
  moreover have "0 \<le> (t1 - t0) div 60000" using assms(4) by simp
  ultimately show ?thesis using kl(2)
    by (cases "map_get l ip") (force simp: within_budget_def verify_constants split: if_splits)+
qed

theorem pair_guesses_bounded_witness:
  "let es = [PVerify 30 ''a'' (Some ''00000001'') ''T'' ''t'' 5, PVerify 30 ''a'' (Some ''00000002'') ''T'' ''t'' 6]
   in runs pair_enabled (pair_step (\<lambda>k c. c) (\<lambda>t. t)) pair_init es
      \<and> int (tried (\<lambda>k c. c) (\<lambda>t. t) pair_init ''a'' es) \<le> int VERIFY_MAX * ((6 - 5) div VERIFY_WINDOW_MS + 2)"
proof -
  let ?es = "[PVerify 30 ''a'' (Some ''00000001'') ''T'' ''t'' 5, PVerify 30 ''a'' (Some ''00000002'') ''T'' ''t'' 6]"
  have run: "runs pair_enabled (pair_step (\<lambda>k c. c) (\<lambda>t. t)) pair_init ([] @ ?es)" by code_simp
  have "pair_init = foldl (pair_step (\<lambda>k c. c) (\<lambda>t. t)) pair_init []" by simp
  from pair_guesses_bounded [OF run this, of 5 6 "''a''"] run show ?thesis unfolding Let_def by simp
qed

end
