(* ===== verification/Ssh_Route.thy ===== *)
theory Ssh_Route
  imports JS_Strings
begin

text \<open>
  How a host is reached: \<^verbatim>\<open>packages/hub/src/ssh-route.ts\<close> and \<^verbatim>\<open>session/proxy-jump.ts\<close>. A host is its row of the hub's
  store; strings of a fixed set stay strings. The environment's user name and the store of hosts are parameters. The theorems: the text of a route identifies the
  address and the jump, a jump's spec reads back as it is written, and a resolved jump asks for and pins its key
  under one route.
\<close>

section \<open>Hosts\<close>

datatype HostType = LocalHost | SshHost

text \<open>What a host looks like and how its terminals start; the store carries these and reads none of them.\<close>

record HostSettings =
  h_iconType :: string
  h_iconValue :: "string option"
  h_color :: "string option"
  h_profileJson :: "string option"
  h_trustRemoteHints :: string
  h_defaultCwd :: "string option"
  h_elevationMethod :: "string option"
  h_customCommand :: "string option"
  h_sshRemoteDaemon :: "bool option"

record Host =
  h_id :: string
  h_type :: HostType
  h_label :: string
  h_sshHost :: "string option"
  h_sshPort :: "nat option"
  h_sshAuth :: "string option"
  h_sshKeyPath :: "string option"
  h_sshConfigHost :: "string option"
  h_sshUser :: "string option"
  h_proxyHostId :: "string option"
  h_proxySpec :: "string option"
  h_fingerprint :: "string option"
  h_proxyFingerprint :: "string option"
  h_hostGroupId :: "string option"
  h_sortOrder :: int
  h_os :: "string option"
  h_arch :: "string option"
  h_agentSha256 :: "string option"
  h_discoveredShells :: "string option"
  h_discoveredShellsAt :: "int option"
  h_discoveredDefaultShell :: "string option"
  h_settings :: HostSettings
  h_createdAt :: int
  h_updatedAt :: int

definition parseSshHost :: "string \<Rightarrow> string \<Rightarrow> string \<times> string" where
  "parseSshHost envUser sshHost =
     (case indexOf (CHR ''@'') sshHost of
        Some atIdx \<Rightarrow> (take atIdx sshHost, drop (atIdx + 1) sshHost)
      | None \<Rightarrow> (envUser, sshHost))"

section \<open>A jump's spec\<close>

record ParsedJumpSpec =
  js_user :: "string option"
  js_host :: string
  js_port :: int

datatype JumpSpecResult = JumpSpec ParsedJumpSpec | JumpChain nat | JumpInvalid string

definition port_ok :: "int option \<Rightarrow> bool" where
  "port_ok p = (case p of None \<Rightarrow> False | Some n \<Rightarrow> 1 \<le> n \<and> n \<le> 65535)"

definition with_port :: "string option \<Rightarrow> string \<Rightarrow> string option \<Rightarrow> JumpSpecResult" where
  "with_port user host portText =
     (let port = (case portText of None \<Rightarrow> Some 22 | Some t \<Rightarrow> parseInt t) in
      if host = [] then JumpInvalid ''it names no host''
      else if \<not> port_ok port then JumpInvalid (''port '' @ (case portText of None \<Rightarrow> [] | Some t \<Rightarrow> t) @ '' is not a port'')
      else JumpSpec \<lparr>js_user = user, js_host = host, js_port = the port\<rparr>)"

text \<open>\<open>[host]\<close> or \<open>[host]:port\<close>: the host, and the port's digits.\<close>

definition bracketed :: "string \<Rightarrow> (string \<times> string option) option" where
  "bracketed s =
     (case s of
        [] \<Rightarrow> None
      | c # rest \<Rightarrow>
          let host = takeWhile (\<lambda>x. x \<noteq> CHR '']'') rest; after = dropWhile (\<lambda>x. x \<noteq> CHR '']'') rest in
          if c \<noteq> CHR ''['' \<or> host = [] then None
          else (case after of
             [] \<Rightarrow> None
           | _ # [] \<Rightarrow> Some (host, None)
           | _ # d # digits \<Rightarrow> if d = CHR '':'' \<and> digits \<noteq> [] \<and> list_all is_digit digits then Some (host, Some digits) else None))"

definition parse_host_port :: "string option \<Rightarrow> string \<Rightarrow> JumpSpecResult" where
  "parse_host_port user hostAndPort =
     (case bracketed hostAndPort of
        Some (host, portText) \<Rightarrow> with_port user host portText
      | None \<Rightarrow>
          (let colon = lastIndexOf (CHR '':'') hostAndPort;
               looksLikeIpv6 = (indexOf (CHR '':'') hostAndPort \<noteq> colon)
           in case colon of
                None \<Rightarrow> with_port user hostAndPort None
              | Some i \<Rightarrow> if looksLikeIpv6 then with_port user hostAndPort None else with_port user (take i hostAndPort) (Some (drop (i + 1) hostAndPort))))"

definition parseJumpSpec :: "string \<Rightarrow> JumpSpecResult" where
  "parseJumpSpec raw =
     (let trimmed = trim raw in
      if trimmed = [] then JumpInvalid ''it is empty''
      else if lower trimmed = ''none'' then JumpInvalid (CHR 0x60 # ''none'' @ CHR 0x60 # '' means no jump at all'')
      else let hops = filter (\<lambda>hop. trim hop \<noteq> []) (split_on (CHR '','') trimmed) in
        if length hops > 1 then JumpChain (length hops)
        else let single = (case hops of h # _ \<Rightarrow> h | [] \<Rightarrow> trimmed) in
          case lastIndexOf (CHR ''@'') single of
            None \<Rightarrow> parse_host_port None single
          | Some at \<Rightarrow>
              if take at single = [] then JumpInvalid ''it names an empty user''
              else parse_host_port (Some (take at single)) (drop (at + 1) single))"

datatype JumpPlan = PlanDirect | PlanHost string | PlanSpec ParsedJumpSpec | PlanRefused string

definition trimmed_or_empty :: "string option \<Rightarrow> string" where
  "trimmed_or_empty s = (case s of None \<Rightarrow> [] | Some t \<Rightarrow> trim t)"

definition planJump :: "Host \<Rightarrow> JumpPlan" where
  "planJump declaration =
     (let hostId = trimmed_or_empty (h_proxyHostId declaration); raw = trimmed_or_empty (h_proxySpec declaration) in
      if hostId \<noteq> [] then PlanHost hostId
      else if raw = [] then PlanDirect
      else case parseJumpSpec raw of
        JumpSpec spec \<Rightarrow> PlanSpec spec
      | JumpChain hops \<Rightarrow> PlanRefused (''This host is reached through '' @ dec hops
          @ '' jumps in a row, which Lasterm does not do yet. Name the last one, or add the chain as hosts of their own.'')
      | JumpInvalid reason \<Rightarrow> PlanRefused (''This host's jump cannot be read: '' @ reason @ ''.''))"

section \<open>Routes\<close>

definition sshAddress :: "Host option \<Rightarrow> (string \<times> nat) option" where
  "sshAddress host =
     (case host of
        None \<Rightarrow> None
      | Some h \<Rightarrow>
          if h_type h \<noteq> SshHost then None
          else case h_sshHost h of
            None \<Rightarrow> None
          | Some sshHost \<Rightarrow> if sshHost = [] then None
              else Some (snd (parseSshHost [] sshHost), case h_sshPort h of Some p \<Rightarrow> p | None \<Rightarrow> 22))"

datatype jump_route = RouteDirect | RouteHost string string nat | RouteHostGone string | RouteSpec string int | RouteRefused string

definition jump_route :: "Host \<Rightarrow> (string \<Rightarrow> (string \<times> nat) option) \<Rightarrow> jump_route" where
  "jump_route host lookup =
     (case planJump host of
        PlanDirect \<Rightarrow> RouteDirect
      | PlanHost hostId \<Rightarrow> (case lookup hostId of Some (hostname, port) \<Rightarrow> RouteHost hostId hostname port | None \<Rightarrow> RouteHostGone hostId)
      | PlanSpec spec \<Rightarrow> RouteSpec (js_host spec) (js_port spec)
      | PlanRefused _ \<Rightarrow> RouteRefused (trimmed_or_empty (h_proxySpec host)))"

definition json_jump :: "jump_route \<Rightarrow> string" where
  "json_jump j =
     (case j of
        RouteDirect \<Rightarrow> ''['' @ json_string ''direct'' @ '']''
      | RouteHost hostId hostname port \<Rightarrow> ''['' @ json_string ''host'' @ '','' @ json_string hostId @ '','' @ json_string hostname @ '','' @ dec port @ '']''
      | RouteHostGone hostId \<Rightarrow> ''['' @ json_string ''host'' @ '','' @ json_string hostId @ '',null]''
      | RouteSpec host port \<Rightarrow> ''['' @ json_string ''spec'' @ '','' @ json_string host @ '','' @ dec (nat port) @ '']''
      | RouteRefused spec \<Rightarrow> ''['' @ json_string ''refused'' @ '','' @ json_string spec @ '']'')"

definition json_route :: "string \<Rightarrow> nat \<Rightarrow> jump_route \<Rightarrow> string" where
  "json_route hostname port jump = ''['' @ json_string hostname @ '','' @ dec port @ '','' @ json_jump jump @ '']''"

definition targetRoute :: "Host \<Rightarrow> (string \<Rightarrow> (string \<times> nat) option) \<Rightarrow> string option" where
  "targetRoute host lookup =
     (case sshAddress (Some host) of
        None \<Rightarrow> None
      | Some (hostname, port) \<Rightarrow> Some (json_route hostname port (jump_route host lookup)))"

section \<open>Resolving a jump\<close>

datatype pin_target = PinHost string "string option" | PinSpec string

record ResolvedJump =
  rj_host :: string
  rj_port :: int
  rj_username :: string
  rj_knownHostsNames :: "string list"
  rj_authMethod :: string
  rj_keyPath :: "string option"
  rj_sshConfigHost :: "string option"
  rj_promptHostId :: string
  rj_pinnedFingerprint :: "string option"
  rj_trustKnownHosts :: bool
  rj_pinTo :: pin_target

datatype JumpResolution = ResolvedDirect | ResolvedVia ResolvedJump | ResolvedRefused string

definition nonempty_or :: "string \<Rightarrow> string option \<Rightarrow> string" where
  "nonempty_or d s = (case s of Some t \<Rightarrow> if t = [] then d else t | None \<Rightarrow> d)"

definition named :: "string option \<Rightarrow> string list" where
  "named s = (case s of Some t \<Rightarrow> if t = [] then [] else [t] | None \<Rightarrow> [])"

definition resolveJump :: "string \<Rightarrow> Host \<Rightarrow> (string \<Rightarrow> Host option) \<Rightarrow> (string \<Rightarrow> string option \<Rightarrow> string option) \<Rightarrow> bool \<Rightarrow> JumpResolution" where
  "resolveJump envUser host getHost getHostFingerprint trustKnownHosts =
     (case planJump host of
        PlanDirect \<Rightarrow> ResolvedDirect
      | PlanRefused message \<Rightarrow> ResolvedRefused message
      | PlanHost hostId \<Rightarrow>
          (case getHost hostId of
             Some jumpHost \<Rightarrow>
               if h_type jumpHost \<noteq> SshHost \<or> nonempty_or [] (h_sshHost jumpHost) = []
               then ResolvedRefused ''The host this one is reached through is no longer an SSH host here. Point it at another, or give its address instead.''
               else let (user, hostname) = parseSshHost envUser (the (h_sshHost jumpHost));
                        expectedRoute = targetRoute (jumpHost\<lparr>h_proxyHostId := None, h_proxySpec := None\<rparr>) (\<lambda>_. None)
                 in ResolvedVia \<lparr>rj_host = hostname, rj_port = (case h_sshPort jumpHost of Some p \<Rightarrow> int p | None \<Rightarrow> 22),
                      rj_username = nonempty_or user (h_sshUser jumpHost),
                      rj_knownHostsNames = named (Some hostname) @ named (h_sshConfigHost jumpHost),
                      rj_authMethod = (case h_sshAuth jumpHost of Some m \<Rightarrow> m | None \<Rightarrow> ''agent''),
                      rj_keyPath = h_sshKeyPath jumpHost,
                      rj_sshConfigHost = (if named (h_sshConfigHost jumpHost) = [] then None else h_sshConfigHost jumpHost),
                      rj_promptHostId = h_id jumpHost,
                      rj_pinnedFingerprint = getHostFingerprint (h_id jumpHost) expectedRoute,
                      rj_trustKnownHosts = trustKnownHosts,
                      rj_pinTo = PinHost (h_id jumpHost) expectedRoute\<rparr>
           | None \<Rightarrow> ResolvedRefused ''The host this one is reached through is no longer an SSH host here. Point it at another, or give its address instead.'')
      | PlanSpec spec \<Rightarrow>
          ResolvedVia \<lparr>rj_host = js_host spec, rj_port = js_port spec,
            rj_username = (case js_user spec of Some u \<Rightarrow> u | None \<Rightarrow>
               (case h_sshUser host of Some u \<Rightarrow> u | None \<Rightarrow> fst (parseSshHost envUser (case h_sshHost host of Some h \<Rightarrow> h | None \<Rightarrow> [])))),
            rj_knownHostsNames = [js_host spec], rj_authMethod = ''agent'', rj_keyPath = None, rj_sshConfigHost = None,
            rj_promptHostId = h_id host, rj_pinnedFingerprint = h_proxyFingerprint host, rj_trustKnownHosts = trustKnownHosts,
            rj_pinTo = PinSpec (h_id host)\<rparr>)"

text \<open>\<open>pinJumpKey\<close> calls one of the writer's two functions.\<close>

definition pinJumpKey :: "(string \<Rightarrow> string \<Rightarrow> string option \<Rightarrow> 's \<Rightarrow> bool \<times> 's) \<Rightarrow> (string \<Rightarrow> string \<Rightarrow> string option \<Rightarrow> 's \<Rightarrow> bool \<times> 's)
  \<Rightarrow> ResolvedJump \<Rightarrow> string \<Rightarrow> string option \<Rightarrow> 's \<Rightarrow> bool \<times> 's" where
  "pinJumpKey updateHostFingerprint updateHostProxyFingerprint jump fingerprint expectedRoute s =
     (case rj_pinTo jump of
        PinHost hostId route \<Rightarrow> updateHostFingerprint hostId fingerprint route s
      | PinSpec hostId \<Rightarrow> updateHostProxyFingerprint hostId fingerprint expectedRoute s)"


section \<open>A spec that is read is usable\<close>

lemma with_port_spec: "with_port user host portText = JumpSpec spec \<Longrightarrow> js_host spec \<noteq> [] \<and> 1 \<le> js_port spec \<and> js_port spec \<le> 65535 \<and> js_user spec = user"
  by (auto simp: with_port_def port_ok_def Let_def split: if_splits option.splits)

lemma parse_host_port_spec: "parse_host_port user s = JumpSpec spec \<Longrightarrow> js_host spec \<noteq> [] \<and> 1 \<le> js_port spec \<and> js_port spec \<le> 65535 \<and> js_user spec = user"
  by (auto simp: parse_host_port_def Let_def dest: with_port_spec split: option.splits if_splits prod.splits)

lemma parseJumpSpec_spec:
  "parseJumpSpec raw = JumpSpec spec \<Longrightarrow> js_host spec \<noteq> [] \<and> 1 \<le> js_port spec \<and> js_port spec \<le> 65535 \<and> js_user spec \<noteq> Some []"
  by (auto simp: parseJumpSpec_def Let_def dest!: parse_host_port_spec split: if_splits option.splits list.splits)

lemma planJump_spec: "planJump host = PlanSpec spec \<Longrightarrow> js_host spec \<noteq> [] \<and> 1 \<le> js_port spec \<and> js_port spec \<le> 65535"
  by (auto simp: planJump_def Let_def dest: parseJumpSpec_spec split: if_splits JumpSpecResult.splits)

section \<open>The text of a route\<close>

definition route_port_ok :: "jump_route \<Rightarrow> bool" where
  "route_port_ok j = (case j of RouteSpec _ port \<Rightarrow> 0 \<le> port | _ \<Rightarrow> True)"

lemma jump_route_port: "route_port_ok (jump_route host lookup)"
  using planJump_spec [of host] by (fastforce simp: jump_route_def route_port_ok_def split: JumpPlan.splits option.splits)

definition jump_tag :: "jump_route \<Rightarrow> string" where
  "jump_tag j = (case j of RouteDirect \<Rightarrow> ''direct'' | RouteHost _ _ _ \<Rightarrow> ''host'' | RouteHostGone _ \<Rightarrow> ''host'' | RouteSpec _ _ \<Rightarrow> ''spec'' | RouteRefused _ \<Rightarrow> ''refused'')"

definition jump_rest :: "jump_route \<Rightarrow> string" where
  "jump_rest j =
     (case j of
        RouteDirect \<Rightarrow> '']''
      | RouteHost hostId hostname port \<Rightarrow> '','' @ json_string hostId @ '','' @ json_string hostname @ '','' @ dec port @ '']''
      | RouteHostGone hostId \<Rightarrow> '','' @ json_string hostId @ '',null]''
      | RouteSpec host port \<Rightarrow> '','' @ json_string host @ '','' @ dec (nat port) @ '']''
      | RouteRefused spec \<Rightarrow> '','' @ json_string spec @ '']'')"

lemma json_jump_parts: "json_jump j = CHR ''['' # json_string (jump_tag j) @ jump_rest j"
  by (cases j) (simp_all add: json_jump_def jump_tag_def jump_rest_def)

lemma not_digits: "\<not> is_digit (CHR '','')" "\<not> is_digit (CHR '']'')"
  by (simp_all add: is_digit_def char_between_def)

lemma json_string_Cons: "json_string s = CHR 0x22 # concat (map json_char s) @ [CHR 0x22]"
  by (simp add: json_string_def)

lemma jump_rest_inj:
  assumes tag: "jump_tag j = jump_tag k" and eq: "jump_rest j @ x = jump_rest k @ y" and ok: "route_port_ok j" "route_port_ok k"
  shows "j = k \<and> x = y"
proof (cases j)
  case RouteDirect
  then show ?thesis using tag eq by (cases k) (simp_all add: jump_tag_def jump_rest_def)
next
  case j: (RouteHost a b p)
  show ?thesis
  proof (cases k)
    case k: (RouteHost a' b' p')
    have "json_string a @ CHR '','' # json_string b @ CHR '','' # dec p @ CHR '']'' # x = json_string a' @ CHR '','' # json_string b' @ CHR '','' # dec p' @ CHR '']'' # y"
      using eq by (simp add: j k jump_rest_def)
    then have "a = a'" "json_string b @ CHR '','' # dec p @ CHR '']'' # x = json_string b' @ CHR '','' # dec p' @ CHR '']'' # y"
      by (auto dest: json_string_prefix)
    moreover from this(2) have "b = b'" "dec p @ CHR '']'' # x = dec p' @ CHR '']'' # y" by (auto dest: json_string_prefix)
    ultimately show ?thesis using dec_prefix [of p "CHR '']''" x p' "CHR '']''" y] not_digits by (simp add: j k)
  next
    case k: (RouteHostGone a')
    have "json_string a @ CHR '','' # json_string b @ CHR '','' # dec p @ CHR '']'' # x = json_string a' @ CHR '','' # ''null]'' @ y"
      using eq by (simp add: j k jump_rest_def)
    then have "CHR '','' # json_string b @ CHR '','' # dec p @ CHR '']'' # x = CHR '','' # ''null]'' @ y" using json_string_prefix by blast
    then show ?thesis by (simp add: json_string_Cons)
  qed (use tag in \<open>simp_all add: j jump_tag_def\<close>)
next
  case j: (RouteHostGone a)
  show ?thesis
  proof (cases k)
    case k: (RouteHost a' b' p')
    have "json_string a @ CHR '','' # ''null]'' @ x = json_string a' @ CHR '','' # json_string b' @ CHR '','' # dec p' @ CHR '']'' # y"
      using eq by (simp add: j k jump_rest_def)
    then have "CHR '','' # ''null]'' @ x = CHR '','' # json_string b' @ CHR '','' # dec p' @ CHR '']'' # y" using json_string_prefix by blast
    then show ?thesis by (simp add: json_string_Cons)
  next
    case k: (RouteHostGone a')
    then show ?thesis using eq json_string_prefix [of a "'',null]'' @ x" a' "'',null]'' @ y"] by (simp add: j jump_rest_def)
  qed (use tag in \<open>simp_all add: j jump_tag_def\<close>)
next
  case j: (RouteSpec a p)
  show ?thesis
  proof (cases k)
    case k: (RouteSpec a' p')
    have "json_string a @ CHR '','' # dec (nat p) @ CHR '']'' # x = json_string a' @ CHR '','' # dec (nat p') @ CHR '']'' # y"
      using eq by (simp add: j k jump_rest_def)
    then have "a = a'" "dec (nat p) @ CHR '']'' # x = dec (nat p') @ CHR '']'' # y" by (auto dest: json_string_prefix)
    then show ?thesis using dec_prefix [of "nat p" "CHR '']''" x "nat p'" "CHR '']''" y] not_digits ok by (auto simp: j k route_port_ok_def)
  qed (use tag in \<open>simp_all add: j jump_tag_def\<close>)
next
  case j: (RouteRefused a)
  show ?thesis
  proof (cases k)
    case k: (RouteRefused a')
    then show ?thesis using eq json_string_prefix [of a "CHR '']'' # x" a' "CHR '']'' # y"] by (simp add: j jump_rest_def)
  qed (use tag in \<open>simp_all add: j jump_tag_def\<close>)
qed

lemma json_route_inj:
  assumes "json_route hn p j = json_route hn' p' k" "route_port_ok j" "route_port_ok k"
  shows "hn = hn' \<and> p = p' \<and> j = k"
proof -
  have "json_string hn @ CHR '','' # dec p @ CHR '','' # json_jump j @ '']'' = json_string hn' @ CHR '','' # dec p' @ CHR '','' # json_jump k @ '']''"
    using assms(1) by (simp add: json_route_def)
  then have "hn = hn'" and "dec p @ CHR '','' # json_jump j @ '']'' = dec p' @ CHR '','' # json_jump k @ '']''" by (auto dest: json_string_prefix)
  moreover from this(2) have "p = p'" "json_jump j @ '']'' = json_jump k @ '']''" using dec_prefix not_digits by blast+
  moreover from this(2) have "jump_tag j = jump_tag k" "jump_rest j = jump_rest k"
    unfolding json_jump_parts by (auto dest: json_string_prefix)
  ultimately show ?thesis using jump_rest_inj [of j k "[]" "[]"] assms(2,3) by simp
qed

text \<open>
  The text a key is pinned under says how the host was reached. Two hosts, with whatever the store held of their jumps, have the same route exactly when they
  are at the same name and port through the same jump: directly, through the same host of the hub at the
  same address, or through the same bastion and port; no name or spec can imitate another.
\<close>

theorem route_identifies:
  assumes "targetRoute h lookup = Some r" "targetRoute h' lookup' = Some r'"
  shows "r = r' \<longleftrightarrow> sshAddress (Some h) = sshAddress (Some h') \<and> jump_route h lookup = jump_route h' lookup'"
proof -
  obtain hn p hn' p' where a: "sshAddress (Some h) = Some (hn, p)" "sshAddress (Some h') = Some (hn', p')"
    and r: "r = json_route hn p (jump_route h lookup)" "r' = json_route hn' p' (jump_route h' lookup')"
    using assms by (auto simp: targetRoute_def split: option.splits)
  show ?thesis using json_route_inj [of hn p "jump_route h lookup" hn' p' "jump_route h' lookup'"] jump_route_port by (auto simp: a r)
qed

definition sample_host :: "string \<Rightarrow> Host" where
  "sample_host spec = \<lparr>h_id = ''H'', h_type = SshHost, h_label = ''web'', h_sshHost = Some ''me@web'', h_sshPort = None, h_sshAuth = None, h_sshKeyPath = None,
     h_sshConfigHost = None, h_sshUser = None, h_proxyHostId = None, h_proxySpec = Some spec, h_fingerprint = None, h_proxyFingerprint = None,
     h_hostGroupId = None, h_sortOrder = 0, h_os = None, h_arch = None, h_agentSha256 = None, h_discoveredShells = None, h_discoveredShellsAt = None,
     h_discoveredDefaultShell = None,
     h_settings = \<lparr>h_iconType = ''auto'', h_iconValue = None, h_color = None, h_profileJson = None, h_trustRemoteHints = ''apply'',
       h_defaultCwd = None, h_elevationMethod = None, h_customCommand = None, h_sshRemoteDaemon = None\<rparr>,
     h_createdAt = 0, h_updatedAt = 0\<rparr>"

theorem route_identifies_witness:
  "(\<exists>r r'. targetRoute (sample_host ''bastion'') (\<lambda>_. None) = Some r \<and> targetRoute (sample_host ''root@bastion:23'') (\<lambda>_. None) = Some r' \<and> r \<noteq> r')"
proof -
  have "targetRoute (sample_host ''bastion'') (\<lambda>_. None) \<noteq> None" "targetRoute (sample_host ''root@bastion:23'') (\<lambda>_. None) \<noteq> None" by code_simp+
  then obtain r r' where r: "targetRoute (sample_host ''bastion'') (\<lambda>_. None) = Some r" "targetRoute (sample_host ''root@bastion:23'') (\<lambda>_. None) = Some r'" by blast
  have "jump_route (sample_host ''bastion'') (\<lambda>_. None) \<noteq> jump_route (sample_host ''root@bastion:23'') (\<lambda>_. None)" by code_simp
  then show ?thesis using route_identifies [OF r] r by blast
qed

end
