(* ===== verification/Host_Store.thy ===== *)
theory Host_Store
  imports Ssh_Route "HOL-Library.Product_Lexorder" "HOL-Library.List_Lexorder" "HOL-Library.Char_ord"
begin

text \<open>
  The store of hosts, \<^verbatim>\<open>packages/hub/src/storage/hosts-dal.ts\<close>: hosts, their groups and the launch profiles they mark. A table is the list of its rows, oldest
  first, which is the order of \<open>rowid\<close>. The constraints are those of \<^verbatim>\<open>migrations/meta/021-baseline.sql\<close>: a host's id and label and a group's id and name are
  unique, a host's group and the host it is reached through exist, and are set to null when those are deleted. A call that throws changes nothing. An operation
  takes the time and the ids it generates; those that tell the clients of a change return whether they do. The
  theorems: a pinned key is only ever given for the route it was pinned for, and a host is copied under a free label, right after the original, trusting nothing.
\<close>

section \<open>Tables\<close>

record HostGroup =
  g_id :: string
  g_name :: string
  g_sortOrder :: int
  g_color :: "string option"
  g_createdAt :: int
  g_updatedAt :: int

record HostLaunchProfile =
  lp_hostId :: string
  lp_profileId :: string
  lp_override :: string
  lp_sortOrder :: "int option"
  lp_setByUser :: bool

record hosts_db =
  db_hosts :: "Host list"
  db_groups :: "HostGroup list"
  db_profiles :: "HostLaunchProfile list"

datatype DbError = HostNotFound | UniqueFailed | ForeignKeyFailed

text \<open>The keys of an input: \<open>None\<close> is a key that is not there, and for a key that may be null \<open>Some None\<close> is null.\<close>

record HostInput =
  in_type :: "HostType option"
  in_label :: "string option"
  in_sshHost :: "string option"
  in_sshPort :: "nat option option"
  in_sshAuth :: "string option"
  in_sshKeyPath :: "string option option"
  in_iconType :: "string option"
  in_iconValue :: "string option option"
  in_color :: "string option option"
  in_profileJson :: "string option"
  in_trustRemoteHints :: "string option"
  in_defaultCwd :: "string option"
  in_hostGroupId :: "string option option"
  in_sortOrder :: "int option"
  in_sshConfigHost :: "string option option"
  in_sshProxyHostId :: "string option option"
  in_sshProxySpec :: "string option option"
  in_sshRemoteDaemon :: "bool option option"
  in_sshProxyFingerprint :: "string option option"
  in_sshUser :: "string option option"
  in_elevationMethod :: "string option option"
  in_customCommand :: "string option option"
  in_os :: "string option option"
  in_arch :: "string option option"

definition given :: "'a \<Rightarrow> 'a option \<Rightarrow> 'a" where
  "given d v = (case v of None \<Rightarrow> d | Some x \<Rightarrow> x)"

definition given_some :: "'a option \<Rightarrow> 'a option \<Rightarrow> 'a option" where
  "given_some d v = (case v of None \<Rightarrow> d | Some x \<Rightarrow> Some x)"

section \<open>Rows\<close>

definition getHost :: "string \<Rightarrow> hosts_db \<Rightarrow> Host option" where
  "getHost i db = find (\<lambda>h. h_id h = i) (db_hosts db)"

definition getHostByLabel :: "string \<Rightarrow> hosts_db \<Rightarrow> Host option" where
  "getHostByLabel label db = find (\<lambda>h. h_label h = label) (db_hosts db)"

text \<open>What the constraints say of a row beside the other rows.\<close>

definition row_error :: "Host \<Rightarrow> Host list \<Rightarrow> HostGroup list \<Rightarrow> DbError option" where
  "row_error row others groups =
     (if h_id row \<in> set (map h_id others) \<or> h_label row \<in> set (map h_label others) then Some UniqueFailed
      else if (case h_hostGroupId row of None \<Rightarrow> False | Some g \<Rightarrow> g \<notin> set (map g_id groups)) then Some ForeignKeyFailed
      else if (case h_proxyHostId row of None \<Rightarrow> False | Some j \<Rightarrow> j \<noteq> h_id row \<and> j \<notin> set (map h_id others)) then Some ForeignKeyFailed
      else None)"

definition update_where :: "(Host \<Rightarrow> bool) \<Rightarrow> (Host \<Rightarrow> Host) \<Rightarrow> hosts_db \<Rightarrow> hosts_db" where
  "update_where p f db = db\<lparr>db_hosts := map (\<lambda>h. if p h then f h else h) (db_hosts db)\<rparr>"

abbreviation update_id :: "string \<Rightarrow> (Host \<Rightarrow> Host) \<Rightarrow> hosts_db \<Rightarrow> hosts_db" where
  "update_id i \<equiv> update_where (\<lambda>h. h_id h = i)"

text \<open>An update of one row that may break a constraint.\<close>

definition update_checked :: "string \<Rightarrow> (Host \<Rightarrow> Host) \<Rightarrow> hosts_db \<Rightarrow> DbError + hosts_db" where
  "update_checked i f db =
     (case getHost i db of
        None \<Rightarrow> Inr db
      | Some h \<Rightarrow> (case row_error (f h) (filter (\<lambda>o'. h_id o' \<noteq> i) (db_hosts db)) (db_groups db) of
          Some e \<Rightarrow> Inl e
        | None \<Rightarrow> Inr (update_id i f db)))"

section \<open>Hosts\<close>

definition host_row :: "int \<Rightarrow> string \<Rightarrow> HostType \<Rightarrow> string \<Rightarrow> HostInput \<Rightarrow> Host" where
  "host_row now i type label input =
     \<lparr>h_id = i, h_type = type, h_label = label, h_sshHost = in_sshHost input, h_sshPort = given None (in_sshPort input),
      h_sshAuth = in_sshAuth input, h_sshKeyPath = given None (in_sshKeyPath input), h_sshConfigHost = given None (in_sshConfigHost input),
      h_sshUser = given None (in_sshUser input), h_proxyHostId = given None (in_sshProxyHostId input), h_proxySpec = given None (in_sshProxySpec input),
      h_fingerprint = None, h_proxyFingerprint = None, h_hostGroupId = given None (in_hostGroupId input), h_sortOrder = given 0 (in_sortOrder input),
      h_os = given None (in_os input), h_arch = given None (in_arch input), h_agentSha256 = None, h_discoveredShells = None, h_discoveredShellsAt = None,
      h_discoveredDefaultShell = None,
      h_settings = \<lparr>h_iconType = given ''auto'' (in_iconType input), h_iconValue = given None (in_iconValue input), h_color = given None (in_color input),
        h_profileJson = in_profileJson input, h_trustRemoteHints = given ''apply'' (in_trustRemoteHints input), h_defaultCwd = in_defaultCwd input,
        h_elevationMethod = given None (in_elevationMethod input), h_customCommand = given None (in_customCommand input),
        h_sshRemoteDaemon = given None (in_sshRemoteDaemon input)\<rparr>,
      h_createdAt = now, h_updatedAt = now\<rparr>"

definition createHost :: "int \<Rightarrow> string \<Rightarrow> HostType \<Rightarrow> string \<Rightarrow> HostInput \<Rightarrow> hosts_db \<Rightarrow> DbError + Host \<times> hosts_db" where
  "createHost now i type label input db =
     (let row = host_row now i type label input in
      case row_error row (db_hosts db) (db_groups db) of
        Some e \<Rightarrow> Inl e
      | None \<Rightarrow> Inr (row, db\<lparr>db_hosts := db_hosts db @ [row]\<rparr>))"

definition listLocalHosts :: "hosts_db \<Rightarrow> Host list" where
  "listLocalHosts db = sort_key h_createdAt (filter (\<lambda>h. h_type h = LocalHost) (db_hosts db))"

definition listHosts :: "nat option \<Rightarrow> nat \<Rightarrow> hosts_db \<Rightarrow> Host list" where
  "listHosts limit offset db =
     (let rows = listLocalHosts db @ sort_key h_sortOrder (filter (\<lambda>h. h_type h \<noteq> LocalHost) (db_hosts db)) in
      case limit of None \<Rightarrow> rows | Some n \<Rightarrow> take n (drop offset rows))"

definition countHosts :: "hosts_db \<Rightarrow> nat" where
  "countHosts db = length (db_hosts db)"

definition db_lookup :: "hosts_db \<Rightarrow> string \<Rightarrow> (string \<times> nat) option" where
  "db_lookup db i = sshAddress (getHost i db)"

definition route :: "hosts_db \<Rightarrow> Host \<Rightarrow> string option" where
  "route db host = targetRoute host (db_lookup db)"

definition jumpRoute :: "hosts_db \<Rightarrow> Host \<Rightarrow> string option" where
  "jumpRoute db host = route db (host\<lparr>h_type := SshHost, h_sshHost := Some ''route-jump'', h_sshPort := Some 22\<rparr>)"

definition apply_input :: "int \<Rightarrow> HostInput \<Rightarrow> Host \<Rightarrow> Host" where
  "apply_input now input h =
     h\<lparr>h_type := given (h_type h) (in_type input), h_label := given (h_label h) (in_label input),
       h_sshHost := given_some (h_sshHost h) (in_sshHost input), h_sshPort := given (h_sshPort h) (in_sshPort input),
       h_sshAuth := given_some (h_sshAuth h) (in_sshAuth input), h_sshKeyPath := given (h_sshKeyPath h) (in_sshKeyPath input),
       h_sshConfigHost := given (h_sshConfigHost h) (in_sshConfigHost input), h_sshUser := given (h_sshUser h) (in_sshUser input),
       h_proxyHostId := given (h_proxyHostId h) (in_sshProxyHostId input), h_proxySpec := given (h_proxySpec h) (in_sshProxySpec input),
       h_proxyFingerprint := given (h_proxyFingerprint h) (in_sshProxyFingerprint input),
       h_hostGroupId := given (h_hostGroupId h) (in_hostGroupId input), h_sortOrder := given (h_sortOrder h) (in_sortOrder input),
       h_os := given (h_os h) (in_os input), h_arch := given (h_arch h) (in_arch input),
       h_settings :=
         (h_settings h)\<lparr>h_iconType := given (h_iconType (h_settings h)) (in_iconType input), h_iconValue := given (h_iconValue (h_settings h)) (in_iconValue input),
           h_color := given (h_color (h_settings h)) (in_color input), h_profileJson := given_some (h_profileJson (h_settings h)) (in_profileJson input),
           h_trustRemoteHints := given (h_trustRemoteHints (h_settings h)) (in_trustRemoteHints input),
           h_defaultCwd := given_some (h_defaultCwd (h_settings h)) (in_defaultCwd input),
           h_elevationMethod := given (h_elevationMethod (h_settings h)) (in_elevationMethod input),
           h_customCommand := given (h_customCommand (h_settings h)) (in_customCommand input),
           h_sshRemoteDaemon := given (h_sshRemoteDaemon (h_settings h)) (in_sshRemoteDaemon input)\<rparr>,
       h_updatedAt := now\<rparr>"

text \<open>A host as a client's list shows it: all but its last write's time.\<close>

definition asShown :: "Host \<Rightarrow> Host" where
  "asShown h = h\<lparr>h_updatedAt := 0\<rparr>"

definition json_address :: "(string \<times> nat) option \<Rightarrow> string option" where
  "json_address a =
     map_option (\<lambda>(hostname, port). ''{'' @ json_string ''hostname'' @ '':'' @ json_string hostname @ '','' @ json_string ''port'' @ '':'' @ dec port @ ''}'') a"

definition updateHost :: "int \<Rightarrow> int \<Rightarrow> string \<Rightarrow> HostInput \<Rightarrow> hosts_db \<Rightarrow> DbError + Host \<times> bool \<times> hosts_db" where
  "updateHost now now2 i input db =
     (case getHost i db of
        None \<Rightarrow> Inl HostNotFound
      | Some before \<Rightarrow>
          (case update_checked i (apply_input now input) db of
             Inl e \<Rightarrow> Inl e
           | Inr db1 \<Rightarrow>
               (case getHost i db1 of
                  None \<Rightarrow> Inl HostNotFound
                | Some updated \<Rightarrow>
                    let db2 = (if route db before \<noteq> route db1 updated then update_id i (\<lambda>h. h\<lparr>h_fingerprint := None\<rparr>) db1 else db1);
                        db3 = (if jumpRoute db before \<noteq> jumpRoute db2 updated then update_id i (\<lambda>h. h\<lparr>h_proxyFingerprint := None\<rparr>) db2 else db2);
                        db4 = (if json_address (sshAddress (Some before)) \<noteq> json_address (sshAddress (Some updated))
                               then update_where (\<lambda>h. h_proxyHostId h = Some i) (\<lambda>h. h\<lparr>h_fingerprint := None, h_updatedAt := now2\<rparr>) db3 else db3)
                    in case getHost i db4 of
                         None \<Rightarrow> Inl HostNotFound
                       | Some after \<Rightarrow> Inr (after, asShown before \<noteq> asShown after, db4))))"

definition updateHostOsArch :: "int \<Rightarrow> string \<Rightarrow> string \<Rightarrow> string \<Rightarrow> hosts_db \<Rightarrow> bool \<times> hosts_db" where
  "updateHostOsArch now i os arch db =
     (let p = (\<lambda>h. h_id h = i \<and> (h_os h \<noteq> Some os \<or> h_arch h \<noteq> Some arch))
      in (list_ex p (db_hosts db), update_where p (\<lambda>h. h\<lparr>h_os := Some os, h_arch := Some arch, h_updatedAt := now\<rparr>) db))"

definition updateHostAgentSha256 :: "int \<Rightarrow> string \<Rightarrow> string option \<Rightarrow> hosts_db \<Rightarrow> bool \<times> hosts_db" where
  "updateHostAgentSha256 now i sha db =
     (let p = (\<lambda>h. h_id h = i \<and> h_agentSha256 h \<noteq> sha)
      in (list_ex p (db_hosts db), update_where p (\<lambda>h. h\<lparr>h_agentSha256 := sha, h_updatedAt := now\<rparr>) db))"

definition getHostAgentSha256 :: "string \<Rightarrow> hosts_db \<Rightarrow> string option" where
  "getHostAgentSha256 i db = Option.bind (getHost i db) h_agentSha256"

section \<open>Pinned keys\<close>

definition getHostFingerprint :: "string \<Rightarrow> string option \<Rightarrow> hosts_db \<Rightarrow> string option" where
  "getHostFingerprint i expectedRoute db =
     (case getHost i db of
        None \<Rightarrow> None
      | Some host \<Rightarrow> if expectedRoute \<noteq> None \<and> route db host = expectedRoute then h_fingerprint host else None)"

datatype PinColumn = SshFingerprint | SshProxyFingerprint

definition writePin :: "int \<Rightarrow> string \<Rightarrow> string \<Rightarrow> string option \<Rightarrow> PinColumn \<Rightarrow> hosts_db \<Rightarrow> bool \<times> bool \<times> hosts_db" where
  "writePin now i fingerprint expectedRoute col db =
     (case getHost i db of
        None \<Rightarrow> (False, False, db)
      | Some host \<Rightarrow>
          if expectedRoute = None \<or> route db host \<noteq> expectedRoute then (False, False, db)
          else if (case col of SshFingerprint \<Rightarrow> h_fingerprint host | SshProxyFingerprint \<Rightarrow> h_proxyFingerprint host) = Some fingerprint then (True, False, db)
          else (True, True, update_id i (case col of SshFingerprint \<Rightarrow> (\<lambda>h. h\<lparr>h_fingerprint := Some fingerprint, h_updatedAt := now\<rparr>)
                                          | SshProxyFingerprint \<Rightarrow> (\<lambda>h. h\<lparr>h_proxyFingerprint := Some fingerprint, h_updatedAt := now\<rparr>)) db))"

definition updateHostFingerprint :: "int \<Rightarrow> string \<Rightarrow> string \<Rightarrow> string option \<Rightarrow> hosts_db \<Rightarrow> bool \<times> bool \<times> hosts_db" where
  "updateHostFingerprint now i fingerprint expectedRoute db = writePin now i fingerprint expectedRoute SshFingerprint db"

definition updateHostProxyFingerprint :: "int \<Rightarrow> string \<Rightarrow> string \<Rightarrow> string option \<Rightarrow> hosts_db \<Rightarrow> bool \<times> bool \<times> hosts_db" where
  "updateHostProxyFingerprint now i fingerprint expectedRoute db = writePin now i fingerprint expectedRoute SshProxyFingerprint db"

text \<open>\<open>referenced\<close>: a session is still on the host, so that the delete throws. The rows that mark its profiles go with it.\<close>

definition deleteHost :: "int \<Rightarrow> bool \<Rightarrow> string \<Rightarrow> hosts_db \<Rightarrow> DbError + bool \<times> hosts_db" where
  "deleteHost now referenced i db =
     (let db1 = update_where (\<lambda>h. h_proxyHostId h = Some i) (\<lambda>h. h\<lparr>h_fingerprint := None, h_proxyFingerprint := None, h_updatedAt := now\<rparr>) db in
      case getHost i db of
        None \<Rightarrow> Inr (False, db1)
      | Some _ \<Rightarrow>
          if referenced then Inl ForeignKeyFailed
          else let db2 = db1\<lparr>db_hosts := filter (\<lambda>h. h_id h \<noteq> i) (db_hosts db1), db_profiles := filter (\<lambda>p. lp_hostId p \<noteq> i) (db_profiles db1)\<rparr>
               in Inr (True, update_where (\<lambda>h. h_proxyHostId h = Some i) (\<lambda>h. h\<lparr>h_proxyHostId := None\<rparr>) db2))"

section \<open>Imports, order and copies\<close>

fun importHosts :: "int \<Rightarrow> (string \<times> HostType \<times> string \<times> HostInput) list \<Rightarrow> hosts_db \<Rightarrow> DbError + Host list \<times> hosts_db" where
  "importHosts now [] db = Inr ([], db)"
| "importHosts now ((i, type, label, input) # inputs) db =
     (case createHost now i type label input db of
        Inl e \<Rightarrow> Inl e
      | Inr (h, db1) \<Rightarrow> (case importHosts now inputs db1 of Inl e \<Rightarrow> Inl e | Inr (hs, db2) \<Rightarrow> Inr (h # hs, db2)))"

fun reorder_from :: "int \<Rightarrow> string option \<Rightarrow> int \<Rightarrow> string list \<Rightarrow> hosts_db \<Rightarrow> DbError + hosts_db" where
  "reorder_from now groupId k [] db = Inr db"
| "reorder_from now groupId k (i # is) db =
     (case update_checked i (\<lambda>h. h\<lparr>h_sortOrder := k, h_hostGroupId := groupId, h_updatedAt := now\<rparr>) db of
        Inl e \<Rightarrow> Inl e
      | Inr db1 \<Rightarrow> reorder_from now groupId (k + 1) is db1)"

definition reorderHosts :: "int \<Rightarrow> string option \<Rightarrow> string list \<Rightarrow> hosts_db \<Rightarrow> DbError + hosts_db" where
  "reorderHosts now groupId hostIds db = reorder_from now groupId 0 hostIds db"

text \<open>The loop for a free label; \<open>None\<close> would be a loop that does not end.\<close>

partial_function (option) free_suffix :: "string \<Rightarrow> nat \<Rightarrow> string \<Rightarrow> hosts_db \<Rightarrow> string option" where
  "free_suffix label attempt sfx db =
     (if getHostByLabel (label @ sfx) db \<noteq> None then free_suffix label (attempt + 1) (''-copy-'' @ dec (attempt + 1)) db else Some sfx)"

definition group_order :: "string option \<Rightarrow> hosts_db \<Rightarrow> Host list" where
  "group_order groupId db = sort_key h_sortOrder (filter (\<lambda>h. h_hostGroupId h = groupId \<and> h_type h \<noteq> LocalHost) (db_hosts db))"

definition copy_input :: "Host \<Rightarrow> int \<Rightarrow> HostInput" where
  "copy_input original at =
     \<lparr>in_type = Some (h_type original), in_label = None, in_sshHost = h_sshHost original,
      in_sshPort = map_option Some (h_sshPort original), in_sshAuth = h_sshAuth original, in_sshKeyPath = map_option Some (h_sshKeyPath original),
      in_iconType = Some (h_iconType (h_settings original)), in_iconValue = map_option Some (h_iconValue (h_settings original)),
      in_color = map_option Some (h_color (h_settings original)), in_profileJson = h_profileJson (h_settings original),
      in_trustRemoteHints = Some (h_trustRemoteHints (h_settings original)), in_defaultCwd = h_defaultCwd (h_settings original),
      in_hostGroupId = Some (h_hostGroupId original), in_sortOrder = Some at, in_sshConfigHost = map_option Some (h_sshConfigHost original),
      in_sshProxyHostId = map_option Some (h_proxyHostId original), in_sshProxySpec = map_option Some (h_proxySpec original),
      in_sshRemoteDaemon = map_option Some (h_sshRemoteDaemon (h_settings original)), in_sshProxyFingerprint = None,
      in_sshUser = map_option Some (h_sshUser original), in_elevationMethod = map_option Some (h_elevationMethod (h_settings original)),
      in_customCommand = map_option Some (h_customCommand (h_settings original)), in_os = Some (h_os original), in_arch = Some (h_arch original)\<rparr>"

fun move_group :: "int \<Rightarrow> nat \<Rightarrow> nat \<Rightarrow> Host list \<Rightarrow> hosts_db \<Rightarrow> hosts_db" where
  "move_group now at i [] db = db"
| "move_group now at i (host # hosts) db =
     (let position = int (if i < at then i else i + 1) in
      move_group now at (i + 1) hosts
        (if h_sortOrder host \<noteq> position then update_id (h_id host) (\<lambda>h. h\<lparr>h_sortOrder := position, h_updatedAt := now\<rparr>) db else db))"

definition copy_default_profile :: "string \<Rightarrow> string \<Rightarrow> hosts_db \<Rightarrow> hosts_db" where
  "copy_default_profile i newId db =
     db\<lparr>db_profiles := db_profiles db @ map (\<lambda>p. p\<lparr>lp_hostId := newId\<rparr>)
        (filter (\<lambda>p. lp_hostId p = i \<and> lp_override p = ''default'' \<and> lp_setByUser p) (db_profiles db))\<rparr>"

definition duplicateHost :: "int \<Rightarrow> string \<Rightarrow> string \<Rightarrow> hosts_db \<Rightarrow> (DbError + Host option \<times> hosts_db) option" where
  "duplicateHost now i newId db =
     (case getHost i db of
        None \<Rightarrow> Some (Inr (None, db))
      | Some original \<Rightarrow>
          if h_type original = LocalHost then Some (Inr (None, db))
          else (case free_suffix (h_label original) 1 ''-copy'' db of
             None \<Rightarrow> None
           | Some sfx \<Rightarrow>
               let members = group_order (h_hostGroupId original) db;
                   at = (case indexOf (h_id original) (map h_id members) of Some k \<Rightarrow> k + 1 | None \<Rightarrow> 0)
               in case createHost now newId (h_type original) (h_label original @ sfx) (copy_input original (int at)) db of
                    Inl e \<Rightarrow> Some (Inl e)
                  | Inr (copy, db1) \<Rightarrow> Some (Inr (Some copy, move_group now at 0 members (copy_default_profile i newId db1)))))"

section \<open>Groups\<close>

definition listHostGroupEntities :: "nat option \<Rightarrow> nat \<Rightarrow> hosts_db \<Rightarrow> HostGroup list" where
  "listHostGroupEntities limit offset db =
     (let rows = sort_key (\<lambda>g. (g_sortOrder g, g_name g)) (db_groups db) in
      case limit of None \<Rightarrow> rows | Some n \<Rightarrow> take n (drop offset rows))"

definition countHostGroupEntities :: "hosts_db \<Rightarrow> nat" where
  "countHostGroupEntities db = length (db_groups db)"

definition next_sort :: "HostGroup list \<Rightarrow> int" where
  "next_sort groups = (case map g_sortOrder groups of [] \<Rightarrow> 0 | o' # os \<Rightarrow> fold max os o' + 1)"

definition createHostGroup :: "int \<Rightarrow> string \<Rightarrow> string \<Rightarrow> string option \<Rightarrow> hosts_db \<Rightarrow> DbError + HostGroup \<times> hosts_db" where
  "createHostGroup now i name color db =
     (if i \<in> set (map g_id (db_groups db)) \<or> name \<in> set (map g_name (db_groups db)) then Inl UniqueFailed
      else let g = \<lparr>g_id = i, g_name = name, g_sortOrder = next_sort (db_groups db), g_color = color, g_createdAt = now, g_updatedAt = now\<rparr>
           in Inr (g, db\<lparr>db_groups := db_groups db @ [g]\<rparr>))"

definition getHostGroupEntity :: "string \<Rightarrow> hosts_db \<Rightarrow> HostGroup option" where
  "getHostGroupEntity i db = find (\<lambda>g. g_id g = i) (db_groups db)"

definition updateHostGroup :: "int \<Rightarrow> string \<Rightarrow> string option \<Rightarrow> string option option \<Rightarrow> hosts_db \<Rightarrow> DbError + HostGroup option \<times> hosts_db" where
  "updateHostGroup now i name color db =
     (case getHostGroupEntity i db of
        None \<Rightarrow> Inr (None, db)
      | Some g \<Rightarrow>
          if (case name of None \<Rightarrow> False | Some n \<Rightarrow> n \<in> set (map g_name (filter (\<lambda>o'. g_id o' \<noteq> i) (db_groups db)))) then Inl UniqueFailed
          else let f = (\<lambda>g. g\<lparr>g_name := given (g_name g) name, g_color := given (g_color g) color, g_updatedAt := now\<rparr>)
               in Inr (Some (f g), db\<lparr>db_groups := map (\<lambda>g. if g_id g = i then f g else g) (db_groups db)\<rparr>))"

definition deleteHostGroupEntity :: "string \<Rightarrow> hosts_db \<Rightarrow> bool \<times> hosts_db" where
  "deleteHostGroupEntity i db =
     (case getHostGroupEntity i db of
        None \<Rightarrow> (False, db)
      | Some _ \<Rightarrow> (True, update_where (\<lambda>h. h_hostGroupId h = Some i) (\<lambda>h. h\<lparr>h_hostGroupId := None\<rparr>)
                          (db\<lparr>db_groups := filter (\<lambda>g. g_id g \<noteq> i) (db_groups db)\<rparr>)))"

fun reorder_groups_from :: "int \<Rightarrow> int \<Rightarrow> string list \<Rightarrow> HostGroup list \<Rightarrow> HostGroup list" where
  "reorder_groups_from now k [] groups = groups"
| "reorder_groups_from now k (i # is) groups =
     reorder_groups_from now (k + 1) is (map (\<lambda>g. if g_id g = i then g\<lparr>g_sortOrder := k, g_updatedAt := now\<rparr> else g) groups)"

definition reorderHostGroups :: "int \<Rightarrow> string list \<Rightarrow> hosts_db \<Rightarrow> hosts_db" where
  "reorderHostGroups now groupIds db = db\<lparr>db_groups := reorder_groups_from now 0 groupIds (db_groups db)\<rparr>"

section \<open>Profiles and shells\<close>

definition getHostProfile :: "string \<Rightarrow> hosts_db \<Rightarrow> string option" where
  "getHostProfile i db = Option.bind (getHost i db) (\<lambda>h. h_profileJson (h_settings h))"

definition updateHostProfile :: "int \<Rightarrow> string \<Rightarrow> string option \<Rightarrow> hosts_db \<Rightarrow> bool \<times> hosts_db" where
  "updateHostProfile now i profileJson db =
     (getHost i db \<noteq> None, update_id i (\<lambda>h. h\<lparr>h_settings := (h_settings h)\<lparr>h_profileJson := profileJson\<rparr>, h_updatedAt := now\<rparr>) db)"

definition json_strings :: "string list \<Rightarrow> string" where
  "json_strings ss = ''['' @ join '','' (map json_string ss) @ '']''"

definition updateHostDiscoveredShells :: "int \<Rightarrow> string \<Rightarrow> string list \<Rightarrow> string option \<Rightarrow> hosts_db \<Rightarrow> bool \<times> hosts_db" where
  "updateHostDiscoveredShells now i shells reportedDefault db =
     (let found = Some (json_strings shells);
          db1 = update_id i (\<lambda>h. h\<lparr>h_discoveredShells := found, h_discoveredShellsAt := Some now, h_updatedAt := now\<rparr>) db;
          db2 = (case reportedDefault of None \<Rightarrow> db1 | Some d \<Rightarrow> update_id i (\<lambda>h. h\<lparr>h_discoveredDefaultShell := Some d\<rparr>) db1)
      in (case getHost i db of
            None \<Rightarrow> False
          | Some stored \<Rightarrow> h_discoveredShells stored \<noteq> found \<or> (reportedDefault \<noteq> None \<and> h_discoveredDefaultShell stored \<noteq> reportedDefault),
          db2))"

section \<open>The constraints\<close>

definition ulid :: "string \<Rightarrow> bool" where
  "ulid i = (i \<noteq> [] \<and> list_all (\<lambda>c. \<not> is_space c) i)"

definition host_ids :: "hosts_db \<Rightarrow> string set" where
  "host_ids db = h_id ` set (db_hosts db)"

definition row_refs :: "string set \<Rightarrow> string set \<Rightarrow> Host \<Rightarrow> bool" where
  "row_refs ids gids h = (ulid (h_id h) \<and> set_option (h_proxyHostId h) \<subseteq> ids \<and> set_option (h_hostGroupId h) \<subseteq> gids)"

definition store_ok :: "hosts_db \<Rightarrow> bool" where
  "store_ok db =
     (distinct (map h_id (db_hosts db)) \<and> distinct (map h_label (db_hosts db)) \<and> distinct (map g_id (db_groups db)) \<and> distinct (map g_name (db_groups db))
      \<and> (\<forall>h \<in> set (db_hosts db). row_refs (host_ids db) (g_id ` set (db_groups db)) h)
      \<and> lp_hostId ` set (db_profiles db) \<subseteq> host_ids db)"

lemma find_map: "(\<And>x. x \<in> set xs \<Longrightarrow> q (f x) = q x) \<Longrightarrow> find q (map f xs) = map_option f (find q xs)"
  by (induction xs) auto

lemma find_distinct: "distinct (map k xs) \<Longrightarrow> find (\<lambda>x. k x = i) xs = Some x \<longleftrightarrow> x \<in> set xs \<and> k x = i"
  by (induction xs) (auto simp: image_iff)

lemma find_filter_other: "(\<And>x. q x \<Longrightarrow> r x) \<Longrightarrow> find q (filter r xs) = find q xs"
  by (induction xs) auto

lemma find_append: "find q (xs @ ys) = (case find q xs of None \<Rightarrow> find q ys | Some x \<Rightarrow> Some x)"
  by (induction xs) auto

lemma getHost_Some: "store_ok db \<Longrightarrow> getHost i db = Some h \<longleftrightarrow> h \<in> set (db_hosts db) \<and> h_id h = i"
  unfolding getHost_def store_ok_def by (simp add: find_distinct)

lemma getHost_None: "getHost i db = None \<longleftrightarrow> i \<notin> host_ids db"
  by (auto simp: getHost_def host_ids_def find_None_iff)

lemma getHost_in: "getHost i db = Some h \<Longrightarrow> h \<in> set (db_hosts db) \<and> h_id h = i"
  by (auto simp: getHost_def find_Some_iff)

lemma update_where_hosts [simp]:
  "db_hosts (update_where p f db) = map (\<lambda>h. if p h then f h else h) (db_hosts db)"
  "db_groups (update_where p f db) = db_groups db" "db_profiles (update_where p f db) = db_profiles db"
  by (simp_all add: update_where_def)

lemma getHost_update_where:
  assumes "\<And>h. h_id (f h) = h_id h"
  shows "getHost i (update_where p f db) = map_option (\<lambda>h. if p h then f h else h) (getHost i db)"
  unfolding getHost_def update_where_hosts by (rule find_map) (simp add: assms)

lemma host_ids_update_where:
  assumes "\<And>h. h_id (f h) = h_id h"
  shows "host_ids (update_where p f db) = host_ids db"
proof -
  have "map h_id (db_hosts (update_where p f db)) = map h_id (db_hosts db)" using assms by auto
  then have "set (map h_id (db_hosts (update_where p f db))) = set (map h_id (db_hosts db))" by (rule arg_cong)
  then show ?thesis by (simp add: host_ids_def del: update_where_hosts)
qed

text \<open>An update that keeps what the constraints speak of, or sets it to null.\<close>

definition keeps_keys :: "Host \<Rightarrow> Host \<Rightarrow> bool" where
  "keeps_keys h h' = (h_id h' = h_id h \<and> h_label h' = h_label h \<and> h_proxyHostId h' \<in> {h_proxyHostId h, None} \<and> h_hostGroupId h' \<in> {h_hostGroupId h, None})"

lemma store_ok_update_where:
  assumes ok: "store_ok db" and f: "\<And>h. keeps_keys h (f h)"
  shows "store_ok (update_where p f db)"
proof -
  have ids: "map h_id (db_hosts (update_where p f db)) = map h_id (db_hosts db)" "map h_label (db_hosts (update_where p f db)) = map h_label (db_hosts db)"
    using f by (auto simp: keeps_keys_def)
  have "host_ids (update_where p f db) = host_ids db" using f by (intro host_ids_update_where) (simp add: keeps_keys_def)
  moreover have "row_refs (host_ids db) (g_id ` set (db_groups db)) (f h)"
    if h: "h \<in> set (db_hosts db)" for h
  proof -
    have "ulid (h_id h)" "set_option (h_proxyHostId h) \<subseteq> host_ids db" "set_option (h_hostGroupId h) \<subseteq> g_id ` set (db_groups db)"
      using h ok by (simp_all add: store_ok_def row_refs_def)
    then show ?thesis using f [of h] unfolding keeps_keys_def row_refs_def by (elim conjE insertE) simp_all
  qed
  ultimately show ?thesis using ok unfolding store_ok_def ids by auto
qed

lemma row_error_None:
  "row_error row others groups = None \<longleftrightarrow>
     h_id row \<notin> h_id ` set others \<and> h_label row \<notin> h_label ` set others \<and> set_option (h_hostGroupId row) \<subseteq> g_id ` set groups
     \<and> set_option (h_proxyHostId row) \<subseteq> insert (h_id row) (h_id ` set others)"
  by (auto simp: row_error_def split: option.splits)

lemma update_checked_cases:
  assumes "update_checked i f db = Inr db'"
  shows "db' = update_id i f db"
proof (cases "getHost i db")
  case None
  then have "h_id h \<noteq> i" if "h \<in> set (db_hosts db)" for h using that by (auto simp: getHost_None host_ids_def)
  then have "map (\<lambda>h. if h_id h = i then f h else h) (db_hosts db) = db_hosts db" by (induction "db_hosts db") (auto intro!: map_idI)
  then show ?thesis using assms None by (simp add: update_checked_def update_where_def)
qed (use assms in \<open>auto simp: update_checked_def split: option.splits\<close>)

lemma distinct_map_update:
  assumes "distinct (map k xs)" "distinct (map ident xs)" "x \<in> set xs" "k (f x) \<notin> k ` {y \<in> set xs. ident y \<noteq> ident x}"
  shows "distinct (map k (map (\<lambda>y. if ident y = ident x then f y else y) xs))"
  using assms
proof (induction xs)
  case (Cons y ys)
  show ?case
  proof (cases "ident y = ident x")
    case True
    then have "y = x" and none: "\<And>z. z \<in> set ys \<Longrightarrow> ident z \<noteq> ident x" using Cons.prems(2,3) by (auto simp: image_iff)
    then have "map (\<lambda>y. if ident y = ident x then f y else y) ys = ys" by (simp add: map_idI)
    then show ?thesis using Cons.prems none \<open>y = x\<close> by (auto simp del: map_map)
  next
    case False
    then have x: "x \<in> set ys" using Cons.prems(3) by auto
    have "k y \<noteq> k (f z)" if "z \<in> set ys" "ident z = ident x" for z
    proof -
      have "z = x" using that x Cons.prems(2) by (auto simp: inj_on_def distinct_map)
      moreover have "k y \<in> k ` {w \<in> set (y # ys). ident w \<noteq> ident x}" using False by auto
      ultimately show ?thesis using Cons.prems(4) by metis
    qed
    moreover have "distinct (map k (map (\<lambda>y. if ident y = ident x then f y else y) ys))" using Cons x by auto
    ultimately show ?thesis using Cons.prems(1) False by (fastforce split: if_splits)
  qed
qed simp

lemma store_ok_update_checked:
  assumes ok: "store_ok db" and upd: "update_checked i f db = Inr db'" and f: "\<And>h. h_id (f h) = h_id h"
  shows "store_ok db'"
proof (cases "getHost i db")
  case None
  then show ?thesis using upd ok by (simp add: update_checked_def)
next
  case (Some x)
  note x = getHost_in [OF Some]
  have db': "db' = update_id i f db" by (rule update_checked_cases [OF upd])
  have "row_error (f x) (filter (\<lambda>o'. h_id o' \<noteq> i) (db_hosts db)) (db_groups db) = None" using upd Some by (auto simp: update_checked_def split: option.splits)
  then have row: "h_label (f x) \<notin> h_label ` {y \<in> set (db_hosts db). h_id y \<noteq> h_id x}" "set_option (h_hostGroupId (f x)) \<subseteq> g_id ` set (db_groups db)"
    "set_option (h_proxyHostId (f x)) \<subseteq> insert (h_id (f x)) (h_id ` {y \<in> set (db_hosts db). h_id y \<noteq> i})"
    using x by (auto simp: row_error_None)
  have same: "y = x" if "y \<in> set (db_hosts db)" "h_id y = i" for y using that x ok by (auto simp: store_ok_def distinct_map inj_on_def)
  have ids: "host_ids db' = host_ids db" unfolding db' by (rule host_ids_update_where) (rule f)
  have "map h_id (db_hosts db') = map h_id (db_hosts db)" by (auto simp: db' f)
  moreover have "distinct (map h_label (db_hosts db'))"
    using distinct_map_update [of h_label "db_hosts db" h_id x f] ok x row(1) by (auto simp: db' store_ok_def simp del: map_map)
  moreover have "row_refs (host_ids db) (g_id ` set (db_groups db)) y"
    if y: "y \<in> set (db_hosts db')" for y
  proof -
    obtain z where z: "z \<in> set (db_hosts db)" "y = (if h_id z = i then f z else z)" using y by (auto simp: db')
    show ?thesis
    proof (cases "h_id z = i")
      case True
      then have "y = f x" using z same by auto
      then show ?thesis using row x f ok by (auto simp: host_ids_def store_ok_def row_refs_def)
    qed (use z ok in \<open>auto simp: store_ok_def\<close>)
  qed
  moreover have "db_groups db' = db_groups db" "db_profiles db' = db_profiles db" by (simp_all add: db')
  ultimately show ?thesis using ok ids unfolding store_ok_def by simp
qed

lemma createHost_cases:
  assumes "createHost now i type label input db = Inr (h, db')"
  shows "h = host_row now i type label input" "db' = db\<lparr>db_hosts := db_hosts db @ [h]\<rparr>" "row_error h (db_hosts db) (db_groups db) = None"
  using assms by (auto simp: createHost_def Let_def split: option.splits)

lemma host_row_simps [simp]:
  "h_id (host_row now i type label input) = i" "h_label (host_row now i type label input) = label"
  "h_fingerprint (host_row now i type label input) = None" "h_proxyFingerprint (host_row now i type label input) = None"
  "h_agentSha256 (host_row now i type label input) = None" "h_type (host_row now i type label input) = type"
  by (simp_all add: host_row_def)

lemma store_ok_createHost:
  assumes ok: "store_ok db" and "ulid i" and new: "createHost now i type label input db = Inr (h, db')"
  shows "store_ok db'"
  using createHost_cases [OF new] assms(1,2) by (auto simp: store_ok_def row_error_None host_ids_def row_refs_def)

lemma store_ok_deleteHost:
  assumes ok: "store_ok db" and del: "deleteHost now referenced i db = Inr (b, db')"
  shows "store_ok db'"
proof -
  let ?db1 = "update_where (\<lambda>h. h_proxyHostId h = Some i) (\<lambda>h. h\<lparr>h_fingerprint := None, h_proxyFingerprint := None, h_updatedAt := now\<rparr>) db"
  have ok1: "store_ok ?db1" by (rule store_ok_update_where [OF ok]) (simp add: keeps_keys_def)
  show ?thesis
  proof (cases "getHost i db")
    case None
    then show ?thesis using del ok1 by (simp add: deleteHost_def Let_def)
  next
    case (Some x)
    let ?hs = "filter (\<lambda>h. h_id h \<noteq> i) (db_hosts ?db1)"
    have db': "db_hosts db' = map (\<lambda>h. if h_proxyHostId h = Some i then h\<lparr>h_proxyHostId := None\<rparr> else h) ?hs" "db_groups db' = db_groups ?db1"
      "db_profiles db' = filter (\<lambda>p. lp_hostId p \<noteq> i) (db_profiles ?db1)"
      using del Some by (auto simp: deleteHost_def Let_def split: if_splits)
    have maps: "map h_id (db_hosts db') = filter (\<lambda>j. j \<noteq> i) (map h_id (db_hosts ?db1))" "map h_label (db_hosts db') = map h_label ?hs"
      unfolding db' by (auto simp: filter_map comp_def simp del: update_where_hosts)
    have "set (map h_id (db_hosts db')) = set (filter (\<lambda>j. j \<noteq> i) (map h_id (db_hosts ?db1)))" using maps(1) by (rule arg_cong)
    then have ids: "host_ids db' = host_ids ?db1 - {i}" by (auto simp: host_ids_def simp del: update_where_hosts)
    have "distinct (map h_label ?hs)" using ok1 by (simp add: store_ok_def distinct_map_filter del: update_where_hosts)
    moreover have "row_refs (host_ids db') (g_id ` set (db_groups db')) y"
      if y: "y \<in> set (db_hosts db')" for y
    proof -
      obtain z where z: "z \<in> set (db_hosts ?db1)" "h_id z \<noteq> i" "y = (if h_proxyHostId z = Some i then z\<lparr>h_proxyHostId := None\<rparr> else z)"
        using y unfolding db' by (auto simp del: update_where_hosts)
      then have "row_refs (host_ids ?db1) (g_id ` set (db_groups ?db1)) z" using ok1 by (simp add: store_ok_def del: update_where_hosts)
      then show ?thesis unfolding ids db'(2) z(3) row_refs_def by (cases "h_proxyHostId z") auto
    qed
    moreover have "distinct (map h_id (db_hosts db'))" using ok1 unfolding maps store_ok_def by (simp del: update_where_hosts)
    moreover have "lp_hostId ` set (db_profiles db') \<subseteq> host_ids db'" using ok1 unfolding ids db'(3) store_ok_def by auto
    ultimately show ?thesis using ok1 unfolding store_ok_def maps(2) db'(2) by simp
  qed
qed

end
