(* ===== verification/Host_Pins.thy ===== *)
theory Host_Pins
  imports Host_Store
begin

text \<open>
  The runs of the store of hosts: every sequence of its operations, each with the time and the ids it generates. The
  ids of hosts are those of \<^verbatim>\<open>generateId\<close>, which hold no white space. The theorems follow the keys the hub
  pins: which route a key is given for, and which bastion.
\<close>

section \<open>Updates that leave a host's reach as it is\<close>

definition same_reach :: "Host \<Rightarrow> Host \<Rightarrow> bool" where
  "same_reach h h' =
     (h_id h' = h_id h \<and> h_type h' = h_type h \<and> h_sshHost h' = h_sshHost h \<and> h_sshPort h' = h_sshPort h
      \<and> h_proxyHostId h' = h_proxyHostId h \<and> h_proxySpec h' = h_proxySpec h)"

definition calm :: "Host \<Rightarrow> Host \<Rightarrow> bool" where
  "calm h h' = (same_reach h h' \<and> h_fingerprint h' \<in> {h_fingerprint h, None} \<and> h_proxyFingerprint h' \<in> {h_proxyFingerprint h, None})"

lemma sshAddress_cong:
  "h_type h' = h_type h \<Longrightarrow> h_sshHost h' = h_sshHost h \<Longrightarrow> h_sshPort h' = h_sshPort h \<Longrightarrow> sshAddress (Some h') = sshAddress (Some h)"
  by (cases "h_sshHost h") (simp_all add: sshAddress_def)

lemma planJump_cong: "h_proxyHostId h' = h_proxyHostId h \<Longrightarrow> h_proxySpec h' = h_proxySpec h \<Longrightarrow> planJump h' = planJump h"
  by (simp add: planJump_def)

lemma jump_route_cong:
  assumes "h_proxyHostId h' = h_proxyHostId h" "h_proxySpec h' = h_proxySpec h" "\<And>i. planJump h = PlanHost i \<Longrightarrow> lookup' i = lookup i"
  shows "jump_route h' lookup' = jump_route h lookup"
  using assms planJump_cong [of h' h] by (auto simp: jump_route_def split: JumpPlan.splits)

lemma route_cong:
  assumes "same_reach h h'" "\<And>i. planJump h = PlanHost i \<Longrightarrow> db_lookup db' i = db_lookup db i"
  shows "route db' h' = route db h"
  using assms sshAddress_cong [of h' h] jump_route_cong [of h' h "db_lookup db'" "db_lookup db"]
  by (simp add: route_def targetRoute_def same_reach_def cong: option.case_cong)

lemma lookup_update_where:
  assumes "\<And>h. same_reach h (f h)"
  shows "db_lookup (update_where p f db) = db_lookup db"
proof
  fix i
  show "db_lookup (update_where p f db) i = db_lookup db i"
    unfolding db_lookup_def using assms
    by (subst getHost_update_where; cases "getHost i db") (auto simp: same_reach_def intro!: sshAddress_cong)
qed

section \<open>Pins that are kept\<close>

definition keeps_pins :: "hosts_db \<Rightarrow> hosts_db \<Rightarrow> bool" where
  "keeps_pins db db' =
     (\<forall>h' \<in> set (db_hosts db').
        (\<forall>f. h_fingerprint h' = Some f \<longrightarrow> (\<exists>h \<in> set (db_hosts db). h_id h = h_id h' \<and> h_fingerprint h = Some f \<and> route db h = route db' h'))
      \<and> (\<forall>f n p. h_proxyFingerprint h' = Some f \<longrightarrow> jump_route h' (db_lookup db') = RouteSpec n p \<longrightarrow>
           (\<exists>h \<in> set (db_hosts db). h_id h = h_id h' \<and> h_proxyFingerprint h = Some f \<and> jump_route h (db_lookup db) = RouteSpec n p)))"

lemma keeps_pins_refl [simp]: "keeps_pins db db"
  by (auto simp: keeps_pins_def)

lemma keeps_pins_trans: "keeps_pins db db' \<Longrightarrow> keeps_pins db' db'' \<Longrightarrow> keeps_pins db db''"
  unfolding keeps_pins_def by metis

lemma keeps_pins_rows:
  assumes "\<And>h'. h' \<in> set (db_hosts db') \<Longrightarrow> h_fingerprint h' \<noteq> None \<or> h_proxyFingerprint h' \<noteq> None \<Longrightarrow>
      \<exists>h \<in> set (db_hosts db). calm h h' \<and> (\<forall>i. planJump h = PlanHost i \<longrightarrow> db_lookup db' i = db_lookup db i)"
  shows "keeps_pins db db'"
  unfolding keeps_pins_def
proof (intro ballI conjI allI impI)
  fix h' f assume h': "h' \<in> set (db_hosts db')" "h_fingerprint h' = Some f"
  then obtain h where h: "h \<in> set (db_hosts db)" "calm h h'" "\<forall>i. planJump h = PlanHost i \<longrightarrow> db_lookup db' i = db_lookup db i" using assms [of h'] by auto
  then have "route db' h' = route db h" by (intro route_cong) (auto simp: calm_def)
  then show "\<exists>h \<in> set (db_hosts db). h_id h = h_id h' \<and> h_fingerprint h = Some f \<and> route db h = route db' h'"
    using h h' by (intro bexI [of _ h]) (auto simp: calm_def same_reach_def)
next
  fix h' f n p assume h': "h' \<in> set (db_hosts db')" "h_proxyFingerprint h' = Some f" "jump_route h' (db_lookup db') = RouteSpec n p"
  then obtain h where h: "h \<in> set (db_hosts db)" "calm h h'" "\<forall>i. planJump h = PlanHost i \<longrightarrow> db_lookup db' i = db_lookup db i" using assms [of h'] by auto
  then have "jump_route h' (db_lookup db') = jump_route h (db_lookup db)" by (intro jump_route_cong) (auto simp: calm_def same_reach_def)
  then show "\<exists>h \<in> set (db_hosts db). h_id h = h_id h' \<and> h_proxyFingerprint h = Some f \<and> jump_route h (db_lookup db) = RouteSpec n p"
    using h h' by (intro bexI [of _ h]) (auto simp: calm_def same_reach_def)
qed

lemma keeps_pins_update_where:
  assumes "\<And>h. calm h (f h)"
  shows "keeps_pins db (update_where p f db)"
proof (rule keeps_pins_rows)
  fix h' assume "h' \<in> set (db_hosts (update_where p f db))"
  then obtain h where h: "h \<in> set (db_hosts db)" "h' = (if p h then f h else h)" by auto
  have "db_lookup (update_where p f db) = db_lookup db" using assms by (intro lookup_update_where) (simp add: calm_def)
  then show "\<exists>h \<in> set (db_hosts db). calm h h' \<and> (\<forall>i. planJump h = PlanHost i \<longrightarrow> db_lookup (update_where p f db) i = db_lookup db i)"
    using h assms [of h] by (intro bexI [of _ h]) (auto simp: calm_def same_reach_def)
qed

lemma keeps_pins_update_checked: "update_checked i f db = Inr db' \<Longrightarrow> (\<And>h. calm h (f h)) \<Longrightarrow> keeps_pins db db'"
  using update_checked_cases [of i f db db'] keeps_pins_update_where by blast

lemma ulid_trim: "ulid i \<Longrightarrow> trim i = i"
proof -
  assume u: "ulid i"
  then have "dropWhile is_space i = i" by (cases i) (auto simp: ulid_def)
  moreover have "dropWhile is_space (rev i) = rev i" using u by (cases "rev i") (auto simp: ulid_def list_all_iff simp flip: set_rev [of i])
  ultimately show "trim i = i" by (simp add: trim_def)
qed

lemma plan_host:
  assumes ok: "store_ok db" and h: "h \<in> set (db_hosts db)" and plan: "planJump h = PlanHost i"
  shows "h_proxyHostId h = Some i" "i \<in> host_ids db"
proof -
  obtain j where j: "h_proxyHostId h = Some j" "i = trim j" using plan
    by (auto simp: planJump_def trimmed_or_empty_def Let_def split: if_splits option.splits JumpSpecResult.splits)
  then have "j \<in> host_ids db" using ok h by (force simp: store_ok_def row_refs_def)
  moreover from this have "ulid j" using ok by (auto simp: host_ids_def store_ok_def row_refs_def)
  ultimately show "h_proxyHostId h = Some i" "i \<in> host_ids db" using j ulid_trim by auto
qed

lemma keeps_pins_createHost:
  assumes ok: "store_ok db" and new: "createHost now i type label input db = Inr (h, db')"
  shows "keeps_pins db db'"
proof (rule keeps_pins_rows)
  note c = createHost_cases [OF new]
  fix h' assume h': "h' \<in> set (db_hosts db')" "h_fingerprint h' \<noteq> None \<or> h_proxyFingerprint h' \<noteq> None"
  then have old: "h' \<in> set (db_hosts db)" using c by auto
  have "db_lookup db' j = db_lookup db j" if plan: "planJump h' = PlanHost j" for j
  proof -
    obtain x where "getHost j db = Some x" using plan_host(2) [OF ok old plan] getHost_None by (cases "getHost j db") auto
    moreover from this have "getHost j db' = Some x" by (auto simp: getHost_def c(2) find_append)
    ultimately show ?thesis by (simp add: db_lookup_def)
  qed
  then show "\<exists>h \<in> set (db_hosts db). calm h h' \<and> (\<forall>i. planJump h = PlanHost i \<longrightarrow> db_lookup db' i = db_lookup db i)"
    using old by (intro bexI [of _ h']) (auto simp: calm_def same_reach_def)
qed

lemma keeps_pins_deleteHost:
  assumes ok: "store_ok db" and del: "deleteHost now referenced i db = Inr (b, db')"
  shows "keeps_pins db db'"
proof -
  let ?f = "\<lambda>h. h\<lparr>h_fingerprint := None, h_proxyFingerprint := None, h_updatedAt := now\<rparr>"
  let ?db1 = "update_where (\<lambda>h. h_proxyHostId h = Some i) ?f db"
  have keep1: "keeps_pins db ?db1" by (rule keeps_pins_update_where) (simp add: calm_def same_reach_def)
  show ?thesis
  proof (cases "getHost i db")
    case None
    then show ?thesis using del keep1 by (simp add: deleteHost_def Let_def)
  next
    case (Some x)
    have ok1: "store_ok ?db1" by (rule store_ok_update_where [OF ok]) (simp add: keeps_keys_def)
    have db': "db_hosts db' = map (\<lambda>h. if h_proxyHostId h = Some i then h\<lparr>h_proxyHostId := None\<rparr> else h) (filter (\<lambda>h. h_id h \<noteq> i) (db_hosts ?db1))"
      using del Some by (auto simp: deleteHost_def Let_def split: if_splits)
    have "keeps_pins ?db1 db'"
    proof (rule keeps_pins_rows)
      fix h' assume h': "h' \<in> set (db_hosts db')" "h_fingerprint h' \<noteq> None \<or> h_proxyFingerprint h' \<noteq> None"
      then obtain h where h: "h \<in> set (db_hosts ?db1)" "h' = (if h_proxyHostId h = Some i then h\<lparr>h_proxyHostId := None\<rparr> else h)"
        unfolding db' by (auto simp del: update_where_hosts)
      have free: "h_proxyHostId h \<noteq> Some i" using h h'(2) by (auto split: if_splits)
      have "db_lookup db' j = db_lookup ?db1 j" if "planJump h = PlanHost j" for j
      proof -
        have "j \<noteq> i" using plan_host(1) [OF ok1 h(1) that] free by auto
        have "getHost j db' = map_option (\<lambda>h. if h_proxyHostId h = Some i then h\<lparr>h_proxyHostId := None\<rparr> else h) (getHost j ?db1)"
          unfolding getHost_def db' by (subst find_map) (use \<open>j \<noteq> i\<close> in \<open>auto simp: find_filter_other simp del: update_where_hosts\<close>)
        then show ?thesis unfolding db_lookup_def by (cases "getHost j ?db1") (auto intro!: sshAddress_cong)
      qed
      then show "\<exists>h \<in> set (db_hosts ?db1). calm h h' \<and> (\<forall>i. planJump h = PlanHost i \<longrightarrow> db_lookup db' i = db_lookup ?db1 i)"
        using h free by (intro bexI [of _ h]) (auto simp: calm_def same_reach_def simp del: update_where_hosts)
    qed
    then show ?thesis by (rule keeps_pins_trans [OF keep1])
  qed
qed

section \<open>The update of a host\<close>

lemma json_address_inj: "json_address a = json_address b \<longleftrightarrow> a = b"
proof
  assume eq: "json_address a = json_address b"
  show "a = b"
  proof (cases a)
    case None
    then show ?thesis using eq by (simp add: json_address_def)
  next
    case (Some x)
    obtain hn p where x: "x = (hn, p)" by (cases x)
    obtain hn' p' where b: "b = Some (hn', p')" using eq Some by (cases b) (auto simp: json_address_def)
    have "json_string hn @ CHR '','' # json_string ''port'' @ CHR '':'' # dec p @ ''}'' = json_string hn' @ CHR '','' # json_string ''port'' @ CHR '':'' # dec p' @ ''}''"
      using eq by (simp add: json_address_def Some x b)
    from json_string_prefix [OF this] show ?thesis by (simp add: Some x b dec_inj)
  qed
qed simp

definition update_result :: "int \<Rightarrow> int \<Rightarrow> string \<Rightarrow> HostInput \<Rightarrow> hosts_db \<Rightarrow> Host \<Rightarrow> hosts_db \<Rightarrow> bool" where
  "update_result now now2 i input db before db' =
     (\<exists>db1 db2 db3 updated. getHost i db = Some before \<and> update_checked i (apply_input now input) db = Inr db1 \<and> updated = apply_input now input before
        \<and> db2 = (if route db before \<noteq> route db1 updated then update_id i (\<lambda>h. h\<lparr>h_fingerprint := None\<rparr>) db1 else db1)
        \<and> db3 = (if jumpRoute db before \<noteq> jumpRoute db2 updated then update_id i (\<lambda>h. h\<lparr>h_proxyFingerprint := None\<rparr>) db2 else db2)
        \<and> db' = (if sshAddress (Some before) \<noteq> sshAddress (Some updated)
                 then update_where (\<lambda>h. h_proxyHostId h = Some i) (\<lambda>h. h\<lparr>h_fingerprint := None, h_updatedAt := now2\<rparr>) db3 else db3))"

lemma apply_input_id [simp]: "h_id (apply_input now input h) = h_id h"
  by (simp add: apply_input_def)

lemma updateHost_result:
  assumes "updateHost now now2 i input db = Inr (after, told, db')"
  shows "\<exists>before. update_result now now2 i input db before db'"
proof -
  obtain before where before: "getHost i db = Some before" using assms by (cases "getHost i db") (auto simp: updateHost_def)
  obtain db1 where db1: "update_checked i (apply_input now input) db = Inr db1" using assms before
    by (cases "update_checked i (apply_input now input) db") (auto simp: updateHost_def)
  have "getHost i db1 = Some (apply_input now input before)"
    unfolding update_checked_cases [OF db1] using before getHost_in [OF before] by (subst getHost_update_where) auto
  then show ?thesis using assms before db1 unfolding update_result_def updateHost_def
    by (fastforce simp: Let_def json_address_inj split: option.splits)
qed

lemma store_ok_updateHost:
  assumes ok: "store_ok db" and upd: "updateHost now now2 i input db = Inr (after, told, db')"
  shows "store_ok db'"
proof -
  obtain before db1 where db1: "update_checked i (apply_input now input) db = Inr db1" and r: "update_result now now2 i input db before db'"
    using updateHost_result [OF upd] by (auto simp: update_result_def)
  have "store_ok db1" by (rule store_ok_update_checked [OF ok db1]) simp
  then show ?thesis using r db1 unfolding update_result_def by (auto intro!: store_ok_update_where simp: keeps_keys_def)
qed

lemma jumpRoute_eq: "jumpRoute db h = Some (json_route ''route-jump'' 22 (jump_route h (db_lookup db)))"
proof -
  let ?h = "h\<lparr>h_type := SshHost, h_sshHost := Some ''route-jump'', h_sshPort := Some 22\<rparr>"
  have "jump_route ?h (db_lookup db) = jump_route h (db_lookup db)" by (rule jump_route_cong) simp_all
  moreover have "sshAddress (Some ?h) = Some (''route-jump'', 22)" by (simp add: sshAddress_def parseSshHost_def)
  ultimately show ?thesis by (simp add: jumpRoute_def route_def targetRoute_def)
qed

lemma jumpRoute_inj: "jumpRoute db h = jumpRoute db' h' \<longleftrightarrow> jump_route h (db_lookup db) = jump_route h' (db_lookup db')"
  unfolding jumpRoute_eq using json_route_inj [of "''route-jump''" 22 "jump_route h (db_lookup db)" "''route-jump''" 22 "jump_route h' (db_lookup db')"] jump_route_port
  by auto

lemma spec_not_host: "jump_route h lookup = RouteSpec n p \<Longrightarrow> planJump h \<noteq> PlanHost i"
  by (auto simp: jump_route_def split: option.splits)

text \<open>What became of a row: the one updated, and the others.\<close>

definition updated_row :: "hosts_db \<Rightarrow> Host \<Rightarrow> hosts_db \<Rightarrow> Host \<Rightarrow> Host \<Rightarrow> bool" where
  "updated_row db before db' updated h' =
     (calm updated h' \<and> (route db before \<noteq> route db' updated \<longrightarrow> h_fingerprint h' = None)
      \<and> (jump_route before (db_lookup db) \<noteq> jump_route updated (db_lookup db') \<longrightarrow> h_proxyFingerprint h' = None))"

lemma in_updated:
  "h' \<in> set (db_hosts (if b then update_where p f db else db)) \<longleftrightarrow> (\<exists>h \<in> set (db_hosts db). h' = (if b \<and> p h then f h else h))"
  by auto

lemma update_result_rows:
  assumes ok: "store_ok db" and r: "update_result now now2 i input db before db'" and h': "h' \<in> set (db_hosts db')"
  defines "updated \<equiv> apply_input now input before"
  shows "db_lookup db' = (db_lookup db)(i := sshAddress (Some updated))" "db_lookup db i = sshAddress (Some before)"
    and "updated_row db before db' updated h' \<or>
      (\<exists>h \<in> set (db_hosts db). h_id h \<noteq> i \<and> calm h h' \<and> (sshAddress (Some before) \<noteq> sshAddress (Some updated) \<and> h_proxyHostId h = Some i \<longrightarrow> h_fingerprint h' = None))"
proof -
  obtain db1 db2 db3 where before: "getHost i db = Some before" and db1: "update_checked i (apply_input now input) db = Inr db1"
    and db2: "db2 = (if route db before \<noteq> route db1 updated then update_id i (\<lambda>h. h\<lparr>h_fingerprint := None\<rparr>) db1 else db1)"
    and db3: "db3 = (if jumpRoute db before \<noteq> jumpRoute db2 updated then update_id i (\<lambda>h. h\<lparr>h_proxyFingerprint := None\<rparr>) db2 else db2)"
    and db': "db' = (if sshAddress (Some before) \<noteq> sshAddress (Some updated)
                 then update_where (\<lambda>h. h_proxyHostId h = Some i) (\<lambda>h. h\<lparr>h_fingerprint := None, h_updatedAt := now2\<rparr>) db3 else db3)"
    using r unfolding update_result_def updated_def by blast
  have d1: "db1 = update_id i (apply_input now input) db" by (rule update_checked_cases [OF db1])
  have look: "db_lookup db2 = db_lookup db1" "db_lookup db3 = db_lookup db1" "db_lookup db' = db_lookup db1"
    unfolding db' db3 db2 by (simp_all add: lookup_update_where same_reach_def)
  have "db_lookup db1 j = ((db_lookup db)(i := sshAddress (Some updated))) j" for j
    unfolding db_lookup_def d1 using before getHost_in [of j db]
    by (subst getHost_update_where) (cases "getHost j db"; auto simp: updated_def)+
  then show lk: "db_lookup db' = (db_lookup db)(i := sshAddress (Some updated))" "db_lookup db i = sshAddress (Some before)"
    using look before by (auto simp: db_lookup_def)
  have routes: "route db1 updated = route db' updated" "jumpRoute db2 updated = jumpRoute db' updated"
    by (simp_all add: route_def jumpRoute_def look)
  let ?a = "\<lambda>h. h\<lparr>h_fingerprint := None, h_updatedAt := now2\<rparr>"
  obtain h where h: "h \<in> set (db_hosts db)"
    and row: "h' = (let h1 = (if h_id h = i then apply_input now input h else h);
                        h2 = (if route db before \<noteq> route db' updated \<and> h_id h1 = i then h1\<lparr>h_fingerprint := None\<rparr> else h1);
                        h3 = (if jumpRoute db before \<noteq> jumpRoute db' updated \<and> h_id h2 = i then h2\<lparr>h_proxyFingerprint := None\<rparr> else h2)
                    in if sshAddress (Some before) \<noteq> sshAddress (Some updated) \<and> h_proxyHostId h3 = Some i then ?a h3 else h3)"
  proof -
    obtain h3 where h3: "h3 \<in> set (db_hosts db3)" "h' = (if sshAddress (Some before) \<noteq> sshAddress (Some updated) \<and> h_proxyHostId h3 = Some i then ?a h3 else h3)"
      using h' unfolding db' in_updated by blast
    obtain h2 where h2: "h2 \<in> set (db_hosts db2)" "h3 = (if jumpRoute db before \<noteq> jumpRoute db' updated \<and> h_id h2 = i then h2\<lparr>h_proxyFingerprint := None\<rparr> else h2)"
      using h3(1) unfolding db3 in_updated routes by blast
    obtain h1 where h1: "h1 \<in> set (db_hosts db1)" "h2 = (if route db before \<noteq> route db' updated \<and> h_id h1 = i then h1\<lparr>h_fingerprint := None\<rparr> else h1)"
      using h2(1) unfolding db2 in_updated routes by blast
    obtain h where h: "h \<in> set (db_hosts db)" "h1 = (if h_id h = i then apply_input now input h else h)" using h1(1) unfolding d1 by auto
    show thesis by (rule that [of h]) (simp_all only: h h1(2) h2(2) h3(2) Let_def)
  qed
  show "updated_row db before db' updated h' \<or>
      (\<exists>h \<in> set (db_hosts db). h_id h \<noteq> i \<and> calm h h' \<and> (sshAddress (Some before) \<noteq> sshAddress (Some updated) \<and> h_proxyHostId h = Some i \<longrightarrow> h_fingerprint h' = None))"
  proof (cases "h_id h = i")
    case True
    then have "getHost i db = Some h" using h getHost_Some [OF ok] by blast
    then have "h = before" using before by simp
    then have "updated_row db before db' updated h'" unfolding row updated_row_def
      using True by (simp add: Let_def updated_def [symmetric] calm_def same_reach_def jumpRoute_inj) (simp add: updated_def)
    then show ?thesis by blast
  next
    case False
    then show ?thesis using h unfolding row by (intro disjI2 bexI [of _ h]) (auto simp: Let_def calm_def same_reach_def)
  qed
qed

lemma updateHost_pins:
  assumes ok: "store_ok db" and r: "update_result now now2 i input db before db'" and h': "h' \<in> set (db_hosts db')"
  shows "h_fingerprint h' = Some f \<Longrightarrow> \<exists>h \<in> set (db_hosts db). h_id h = h_id h' \<and> h_fingerprint h = Some f \<and> route db h = route db' h'" (is "?F \<Longrightarrow> ?A")
    and "h_proxyFingerprint h' = Some f \<Longrightarrow> jump_route h' (db_lookup db') = RouteSpec n p \<Longrightarrow>
      (\<exists>h \<in> set (db_hosts db). h_id h = h_id h' \<and> h_proxyFingerprint h = Some f \<and> jump_route h (db_lookup db) = RouteSpec n p)
      \<or> h_id h' = i \<and> in_sshProxyFingerprint input = Some (Some f)" (is "?P \<Longrightarrow> ?R \<Longrightarrow> ?B")
proof -
  let ?updated = "apply_input now input before"
  note look = update_result_rows(1,2) [OF ok r h']
  have before: "before \<in> set (db_hosts db)" "h_id before = i" using r getHost_in by (auto simp: update_result_def)
  consider (row) "updated_row db before db' ?updated h'"
    | (other) h where "h \<in> set (db_hosts db)" "h_id h \<noteq> i" "calm h h'"
        "sshAddress (Some before) \<noteq> sshAddress (Some ?updated) \<and> h_proxyHostId h = Some i \<longrightarrow> h_fingerprint h' = None"
    using update_result_rows(3) [OF ok r h'] by blast
  then have "(?F \<longrightarrow> ?A) \<and> (?P \<longrightarrow> ?R \<longrightarrow> ?B)"
  proof cases
    case row
    then have calm: "calm ?updated h'" by (simp add: updated_row_def)
    have same: "route db' h' = route db' ?updated" "jump_route h' (db_lookup db') = jump_route ?updated (db_lookup db')"
      using calm by (auto simp: calm_def same_reach_def intro!: route_cong jump_route_cong)
    have fps: "h_fingerprint ?updated = h_fingerprint before" "h_proxyFingerprint ?updated = given (h_proxyFingerprint before) (in_sshProxyFingerprint input)"
      by (simp_all add: apply_input_def)
    have "?F \<longrightarrow> ?A" using row before calm same fps by (intro impI bexI [of _ before]) (auto simp: updated_row_def calm_def same_reach_def)
    moreover have "?P \<longrightarrow> ?R \<longrightarrow> ?B"
      using row before calm same fps by (cases "in_sshProxyFingerprint input") (auto simp: updated_row_def calm_def same_reach_def given_def intro!: bexI [of _ before])
    ultimately show ?thesis by blast
  next
    case (other h)
    have "?F \<longrightarrow> ?A"
    proof
      assume f: ?F
      have "route db' h' = route db h"
      proof (rule route_cong)
        fix j assume "planJump h = PlanHost j"
        then have "h_proxyHostId h = Some j" by (rule plan_host(1) [OF ok other(1)])
        then show "db_lookup db' j = db_lookup db j" using other(4) f look by auto
      qed (use other in \<open>simp add: calm_def\<close>)
      then show ?A using other f by (intro bexI [of _ h]) (auto simp: calm_def same_reach_def)
    qed
    moreover have "?P \<longrightarrow> ?R \<longrightarrow> ?B"
    proof (intro impI disjI1 bexI [of _ h] conjI)
      assume ?P ?R
      have "planJump h = planJump h'" using other(3) by (intro planJump_cong) (auto simp: calm_def same_reach_def)
      then have "\<forall>j. planJump h \<noteq> PlanHost j" using spec_not_host [OF \<open>?R\<close>] by metis
      then have "jump_route h' (db_lookup db') = jump_route h (db_lookup db)" using other(3)
        by (intro jump_route_cong) (simp_all add: calm_def same_reach_def)
      then show "jump_route h (db_lookup db) = RouteSpec n p" using \<open>?R\<close> by simp
    qed (use other in \<open>auto simp: calm_def same_reach_def\<close>)
    ultimately show ?thesis by blast
  qed
  then show "?F \<Longrightarrow> ?A" "?P \<Longrightarrow> ?R \<Longrightarrow> ?B" by blast+
qed

section \<open>Writing a pin\<close>

lemma writePin_store_ok: "store_ok db \<Longrightarrow> writePin now i f expected col db = (b, told, db') \<Longrightarrow> store_ok db'"
  by (auto simp: writePin_def keeps_keys_def split: option.splits if_splits PinColumn.splits intro!: store_ok_update_where)

lemma writePin_pins:
  assumes ok: "store_ok db" and w: "writePin now i fp expected col db = (b, told, db')" and h': "h' \<in> set (db_hosts db')"
  shows "h_fingerprint h' = Some f \<Longrightarrow> (\<exists>h \<in> set (db_hosts db). h_id h = h_id h' \<and> h_fingerprint h = Some f \<and> route db h = route db' h')
      \<or> (b \<and> h_id h' = i \<and> f = fp \<and> col = SshFingerprint \<and> expected \<noteq> None \<and> route db' h' = expected)" (is "?F \<Longrightarrow> ?A")
    and "h_proxyFingerprint h' = Some f \<Longrightarrow> jump_route h' (db_lookup db') = RouteSpec n p \<Longrightarrow>
      (\<exists>h \<in> set (db_hosts db). h_id h = h_id h' \<and> h_proxyFingerprint h = Some f \<and> jump_route h (db_lookup db) = RouteSpec n p)
      \<or> (h_id h' = i \<and> f = fp \<and> col = SshProxyFingerprint)" (is "?P \<Longrightarrow> ?R \<Longrightarrow> ?B")
proof -
  have "(?F \<longrightarrow> ?A) \<and> (?P \<longrightarrow> ?R \<longrightarrow> ?B)"
  proof (cases "db' = db")
    case True
    then show ?thesis using h' by blast
  next
    case False
    let ?g = "case col of SshFingerprint \<Rightarrow> (\<lambda>h. h\<lparr>h_fingerprint := Some fp, h_updatedAt := now\<rparr>) | SshProxyFingerprint \<Rightarrow> (\<lambda>h. h\<lparr>h_proxyFingerprint := Some fp, h_updatedAt := now\<rparr>)"
    obtain host where host: "getHost i db = Some host" "expected \<noteq> None" "route db host = expected" and db': "db' = update_id i ?g db" and b: b
      using w False by (auto simp: writePin_def split: option.splits if_splits)
    have g: "same_reach h (?g h)" for h by (cases col) (simp_all add: same_reach_def)
    have look: "db_lookup db' = db_lookup db" unfolding db' by (rule lookup_update_where) (rule g)
    obtain h where h: "h \<in> set (db_hosts db)" "h' = (if h_id h = i then ?g h else h)" using h' by (auto simp: db')
    have same: "route db' h' = route db h" "jump_route h' (db_lookup db') = jump_route h (db_lookup db)" "h_id h' = h_id h"
      using g [of h] h(2) look by (auto simp: same_reach_def intro!: route_cong jump_route_cong)
    have "route db h = expected" if "h_id h = i" using that h host getHost_Some [OF ok, of i h] by auto
    then show ?thesis using h same host b by (cases col) (auto split: if_splits intro!: bexI [of _ h])
  qed
  then show "?F \<Longrightarrow> ?A" "?P \<Longrightarrow> ?R \<Longrightarrow> ?B" by blast+
qed

section \<open>Runs\<close>

datatype host_event =
    HCreate int string HostType string HostInput
  | HUpdate int int string HostInput
  | HOsArch int string string string
  | HAgent int string "string option"
  | HPin int string string "string option" PinColumn
  | HDelete int bool string
  | HImport int "(string \<times> HostType \<times> string \<times> HostInput) list"
  | HReorder int "string option" "string list"
  | HDuplicate int string string
  | HProfile int string "string option"
  | HShells int string "string list" "string option"
  | GCreate int string string "string option"
  | GUpdate int string "string option" "string option option"
  | GDelete string
  | GReorder int "string list"

definition or_else :: "'s \<Rightarrow> ('r \<Rightarrow> 's) \<Rightarrow> 'e + 'r \<Rightarrow> 's" where
  "or_else db get r = (case r of Inl _ \<Rightarrow> db | Inr x \<Rightarrow> get x)"

fun host_step :: "hosts_db \<Rightarrow> host_event \<Rightarrow> hosts_db" where
  "host_step db (HCreate now i type label input) = or_else db snd (createHost now i type label input db)"
| "host_step db (HUpdate now now2 i input) = or_else db (snd \<circ> snd) (updateHost now now2 i input db)"
| "host_step db (HOsArch now i os arch) = snd (updateHostOsArch now i os arch db)"
| "host_step db (HAgent now i sha) = snd (updateHostAgentSha256 now i sha db)"
| "host_step db (HPin now i f expected col) =
     snd (snd (case col of SshFingerprint \<Rightarrow> updateHostFingerprint now i f expected db | SshProxyFingerprint \<Rightarrow> updateHostProxyFingerprint now i f expected db))"
| "host_step db (HDelete now referenced i) = or_else db snd (deleteHost now referenced i db)"
| "host_step db (HImport now inputs) = or_else db snd (importHosts now inputs db)"
| "host_step db (HReorder now groupId ids) = or_else db id (reorderHosts now groupId ids db)"
| "host_step db (HDuplicate now i newId) = (case duplicateHost now i newId db of None \<Rightarrow> db | Some r \<Rightarrow> or_else db snd r)"
| "host_step db (HProfile now i json) = snd (updateHostProfile now i json db)"
| "host_step db (HShells now i shells reported) = snd (updateHostDiscoveredShells now i shells reported db)"
| "host_step db (GCreate now i name color) = or_else db snd (createHostGroup now i name color db)"
| "host_step db (GUpdate now i name color) = or_else db snd (updateHostGroup now i name color db)"
| "host_step db (GDelete i) = snd (deleteHostGroupEntity i db)"
| "host_step db (GReorder now ids) = reorderHostGroups now ids db"

fun host_enabled :: "hosts_db \<Rightarrow> host_event \<Rightarrow> bool" where
  "host_enabled db (HCreate now i type label input) = ulid i"
| "host_enabled db (HImport now inputs) = list_all (\<lambda>(i, _). ulid i) inputs"
| "host_enabled db (HDuplicate now i newId) = ulid newId"
| "host_enabled db _ = True"

definition no_hosts :: hosts_db where
  "no_hosts = \<lparr>db_hosts = [], db_groups = [], db_profiles = []\<rparr>"

section \<open>The constraints hold in every run\<close>

text \<open>Operations that only write what neither the constraints nor the pins speak of.\<close>

definition quiet :: "hosts_db \<Rightarrow> hosts_db \<Rightarrow> bool" where
  "quiet db db' = (keeps_pins db db' \<and> (store_ok db \<longrightarrow> store_ok db'))"

lemma quiet_refl [simp]: "quiet db db"
  by (simp add: quiet_def)

lemma quiet_trans: "quiet db db' \<Longrightarrow> quiet db' db'' \<Longrightarrow> quiet db db''"
  unfolding quiet_def using keeps_pins_trans by blast

lemma quiet_update_where: "(\<And>h. calm h (f h)) \<Longrightarrow> (\<And>h. keeps_keys h (f h)) \<Longrightarrow> quiet db (update_where p f db)"
  by (simp add: quiet_def keeps_pins_update_where store_ok_update_where)

lemma quiet_update_checked: "update_checked i f db = Inr db' \<Longrightarrow> (\<And>h. calm h (f h)) \<Longrightarrow> quiet db db'"
  using keeps_pins_update_checked [of i f db db'] store_ok_update_checked [of db i f db'] by (auto simp: quiet_def calm_def same_reach_def)

lemma quiet_reorder_from: "reorder_from now g k ids db = Inr db' \<Longrightarrow> quiet db db'"
proof (induction ids arbitrary: k db)
  case (Cons i ids)
  then obtain db1 where db1: "update_checked i (\<lambda>h. h\<lparr>h_sortOrder := k, h_hostGroupId := g, h_updatedAt := now\<rparr>) db = Inr db1" "reorder_from now g (k + 1) ids db1 = Inr db'"
    by (auto split: sum.splits)
  have "quiet db db1" by (rule quiet_update_checked [OF db1(1)]) (simp add: calm_def same_reach_def)
  then show ?case using Cons.IH [OF db1(2)] quiet_trans by blast
qed simp

lemma quiet_move_group: "quiet db (move_group now at i members db)"
proof (induction members arbitrary: i db)
  case (Cons h members)
  let ?db1 = "let position = int (if i < at then i else i + 1) in if h_sortOrder h \<noteq> position then update_id (h_id h) (\<lambda>h. h\<lparr>h_sortOrder := position, h_updatedAt := now\<rparr>) db else db"
  have "quiet db ?db1" by (auto simp: Let_def calm_def same_reach_def keeps_keys_def intro!: quiet_update_where)
  then have "quiet db (move_group now at (i + 1) members ?db1)" using Cons.IH by (rule quiet_trans)
  then show ?case by (simp add: Let_def)
qed simp

lemma quiet_hosts: "db_hosts db' = db_hosts db \<Longrightarrow> keeps_pins db db'"
  by (rule keeps_pins_rows) (auto simp: calm_def same_reach_def db_lookup_def getHost_def)

lemma quiet_copy_default_profile: "i' \<in> host_ids db \<Longrightarrow> quiet db (copy_default_profile i i' db)"
  unfolding quiet_def by (auto intro!: quiet_hosts simp: copy_default_profile_def store_ok_def host_ids_def)

lemma createHost_quiet: "createHost now i type label input db = Inr (h, db') \<Longrightarrow> store_ok db \<Longrightarrow> ulid i \<Longrightarrow> keeps_pins db db' \<and> store_ok db'"
  using keeps_pins_createHost store_ok_createHost by blast

lemma importHosts_quiet:
  "importHosts now inputs db = Inr (hs, db') \<Longrightarrow> store_ok db \<Longrightarrow> list_all (\<lambda>(i, _). ulid i) inputs \<Longrightarrow> keeps_pins db db' \<and> store_ok db'"
proof (induction now inputs db arbitrary: hs rule: importHosts.induct)
  case (2 now i type label input inputs db)
  then obtain h db1 hs' where new: "createHost now i type label input db = Inr (h, db1)" and rest: "importHosts now inputs db1 = Inr (hs', db')"
    by (auto split: sum.splits)
  have one: "keeps_pins db db1 \<and> store_ok db1" using createHost_quiet [OF new] 2 by auto
  then have "keeps_pins db1 db' \<and> store_ok db'" using 2(1) [OF new refl rest] 2(4) by auto
  then show ?case using one keeps_pins_trans by blast
qed simp

lemma duplicateHost_cases:
  assumes "duplicateHost now i newId db = Some (Inr (c, db'))" "db' \<noteq> db"
  obtains original sfx at copy db1 where "getHost i db = Some original" "h_type original \<noteq> LocalHost" "free_suffix (h_label original) 1 ''-copy'' db = Some sfx"
    "at = (case indexOf i (map h_id (group_order (h_hostGroupId original) db)) of Some k \<Rightarrow> k + 1 | None \<Rightarrow> 0)"
    "createHost now newId (h_type original) (h_label original @ sfx) (copy_input original (int at)) db = Inr (copy, db1)" "c = Some copy"
    "db' = move_group now at 0 (group_order (h_hostGroupId original) db) (copy_default_profile i newId db1)"
  using assms getHost_in [of i db] by (auto simp: duplicateHost_def Let_def split: option.splits if_splits sum.splits)

lemma duplicateHost_quiet:
  assumes "duplicateHost now i newId db = Some (Inr (c, db'))" "store_ok db" "ulid newId"
  shows "keeps_pins db db' \<and> store_ok db'"
proof (cases "db' = db")
  case False
  then obtain original sfx at copy db1 where new: "createHost now newId (h_type original) (h_label original @ sfx) (copy_input original (int at)) db = Inr (copy, db1)"
    and db': "db' = move_group now at 0 (group_order (h_hostGroupId original) db) (copy_default_profile i newId db1)"
    by (rule duplicateHost_cases [OF assms(1)])
  have one: "keeps_pins db db1 \<and> store_ok db1" using createHost_quiet [OF new assms(2,3)] .
  have "newId \<in> host_ids db1" using createHost_cases [OF new] by (simp add: host_ids_def)
  then have "quiet db1 db'" unfolding db' by (rule quiet_trans [OF quiet_copy_default_profile quiet_move_group])
  then show ?thesis using one keeps_pins_trans by (auto simp: quiet_def)
qed (use assms in simp)

lemma row_refs_mono: "row_refs ids gids h \<Longrightarrow> gids \<subseteq> gids' \<Longrightarrow> row_refs ids gids' h"
  by (auto simp: row_refs_def)

lemma createHostGroup_quiet:
  assumes "createHostGroup now i name color db = Inr (g, db')"
  shows "quiet db db'"
proof -
  have db': "db_hosts db' = db_hosts db" "db_profiles db' = db_profiles db" "host_ids db' = host_ids db" "db_groups db' = db_groups db @ [g]"
    and g: "g_id g \<notin> g_id ` set (db_groups db)" "g_name g \<notin> g_name ` set (db_groups db)"
    using assms by (auto simp: createHostGroup_def Let_def host_ids_def split: if_splits)
  have "store_ok db'" if "store_ok db"
    using that g unfolding store_ok_def db' by (auto intro: row_refs_mono)
  then show ?thesis using db' quiet_hosts by (simp add: quiet_def)
qed

text \<open>Groups that keep their ids.\<close>

lemma groups_quiet:
  assumes "db_hosts db' = db_hosts db" "db_profiles db' = db_profiles db" "map g_id (db_groups db') = map g_id (db_groups db)"
    and "store_ok db \<Longrightarrow> distinct (map g_name (db_groups db'))"
  shows "quiet db db'"
proof -
  have "g_id ` set (db_groups db') = g_id ` set (db_groups db)" "host_ids db' = host_ids db"
    using arg_cong [OF assms(3), of set] assms(1) by (simp_all add: host_ids_def)
  then have "store_ok db'" if "store_ok db" using that assms by (simp add: store_ok_def)
  then show ?thesis using quiet_hosts [OF assms(1)] by (simp add: quiet_def)
qed

lemma updateHostGroup_quiet:
  assumes upd: "updateHostGroup now i name color db = Inr (r, db')"
  shows "quiet db db'"
proof (cases "getHostGroupEntity i db")
  case None
  then show ?thesis using upd by (simp add: updateHostGroup_def)
next
  case (Some x)
  let ?f = "\<lambda>g. g\<lparr>g_name := given (g_name g) name, g_color := given (g_color g) color, g_updatedAt := now\<rparr>"
  have x: "x \<in> set (db_groups db)" "g_id x = i" using Some by (auto simp: getHostGroupEntity_def find_Some_iff)
  have free: "\<forall>n. name = Some n \<longrightarrow> n \<notin> g_name ` {g \<in> set (db_groups db). g_id g \<noteq> i}"
    and db': "db' = db\<lparr>db_groups := map (\<lambda>g. if g_id g = i then ?f g else g) (db_groups db)\<rparr>"
    using upd Some by (auto simp: updateHostGroup_def Let_def split: if_splits)
  show ?thesis
  proof (rule groups_quiet)
    assume ok: "store_ok db"
    then have d: "distinct (map g_name (db_groups db))" "distinct (map g_id (db_groups db))" by (simp_all add: store_ok_def)
    have "g_name x \<notin> g_name ` {g \<in> set (db_groups db). g_id g \<noteq> i}" using d(1) x by (auto simp: distinct_map inj_on_def)
    then have "g_name (?f x) \<notin> g_name ` {g \<in> set (db_groups db). g_id g \<noteq> g_id x}" using free x by (cases name) (auto simp: given_def)
    then show "distinct (map g_name (db_groups db'))" using distinct_map_update [OF d x(1), of ?f] x(2) by (simp add: db')
  qed (auto simp: db')
qed

lemma deleteHostGroupEntity_quiet: "quiet db (snd (deleteHostGroupEntity i db))"
proof (cases "getHostGroupEntity i db")
  case None
  then show ?thesis by (simp add: deleteHostGroupEntity_def)
next
  case (Some x)
  let ?f = "\<lambda>h. h\<lparr>h_hostGroupId := None\<rparr>"
  let ?db1 = "db\<lparr>db_groups := filter (\<lambda>g. g_id g \<noteq> i) (db_groups db)\<rparr>"
  let ?db' = "update_where (\<lambda>h. h_hostGroupId h = Some i) ?f ?db1"
  have "keeps_pins ?db1 ?db'" by (rule keeps_pins_update_where) (simp add: calm_def same_reach_def)
  moreover have "keeps_pins db ?db1" by (rule quiet_hosts) simp
  ultimately have "keeps_pins db ?db'" by (rule keeps_pins_trans [rotated])
  moreover have "store_ok ?db'" if ok: "store_ok db"
  proof -
    have "host_ids ?db' = host_ids ?db1" by (rule host_ids_update_where) simp
    then have ids: "host_ids ?db' = host_ids db" by (simp add: host_ids_def)
    have refs: "row_refs (host_ids db) (g_id ` {g \<in> set (db_groups db). g_id g \<noteq> i}) (if h_hostGroupId h = Some i then ?f h else h)" if "h \<in> set (db_hosts db)" for h
    proof -
      have "row_refs (host_ids db) (g_id ` set (db_groups db)) h" using ok that by (simp add: store_ok_def)
      then show ?thesis by (cases "h_hostGroupId h") (auto simp: row_refs_def)
    qed
    have rows: "\<forall>h \<in> set (db_hosts ?db'). row_refs (host_ids db) (g_id ` set (db_groups ?db')) h"
    proof (intro ballI)
      fix h' assume "h' \<in> set (db_hosts ?db')"
      then obtain h where "h \<in> set (db_hosts db)" "h' = (if h_hostGroupId h = Some i then ?f h else h)" by auto
      then show "row_refs (host_ids db) (g_id ` set (db_groups ?db')) h'" using refs by simp
    qed
    have maps: "map h_id (db_hosts ?db') = map h_id (db_hosts db)" "map h_label (db_hosts ?db') = map h_label (db_hosts db)" by auto
    have "distinct (map g_id (db_groups ?db'))" "distinct (map g_name (db_groups ?db'))" "db_profiles ?db' = db_profiles db"
      using ok by (simp_all add: store_ok_def distinct_map_filter)
    then show ?thesis using ok rows unfolding store_ok_def maps ids by (simp del: update_where_hosts)
  qed
  ultimately show ?thesis using Some by (simp add: deleteHostGroupEntity_def quiet_def)
qed

lemma reorder_groups_keys:
  "map g_id (reorder_groups_from now k ids groups) = map g_id groups \<and> map g_name (reorder_groups_from now k ids groups) = map g_name groups"
proof (induction ids arbitrary: k groups)
  case (Cons i ids)
  let ?gs = "map (\<lambda>g. if g_id g = i then g\<lparr>g_sortOrder := k, g_updatedAt := now\<rparr> else g) groups"
  have "map g_id ?gs = map g_id groups" "map g_name ?gs = map g_name groups" by auto
  then show ?case using Cons.IH [of "k + 1" ?gs] by simp
qed simp

lemma reorderHostGroups_quiet: "quiet db (reorderHostGroups now ids db)"
  by (rule groups_quiet) (simp_all add: reorderHostGroups_def reorder_groups_keys store_ok_def)

lemma quiet_steps:
  "quiet db (snd (updateHostOsArch now i os arch db))" "quiet db (snd (updateHostAgentSha256 now i sha db))"
  "quiet db (snd (updateHostProfile now i json db))"
  unfolding updateHostOsArch_def updateHostAgentSha256_def updateHostProfile_def Let_def
  by (auto simp: calm_def same_reach_def keeps_keys_def intro!: quiet_update_where)

lemma quiet_shells: "quiet db (snd (updateHostDiscoveredShells now i shells reported db))"
proof -
  let ?db1 = "update_id i (\<lambda>h. h\<lparr>h_discoveredShells := Some (json_strings shells), h_discoveredShellsAt := Some now, h_updatedAt := now\<rparr>) db"
  have 1: "quiet db ?db1" by (rule quiet_update_where) (simp_all add: calm_def same_reach_def keeps_keys_def)
  have "quiet ?db1 (update_id i (\<lambda>h. h\<lparr>h_discoveredDefaultShell := Some d\<rparr>) ?db1)" for d
    by (rule quiet_update_where) (simp_all add: calm_def same_reach_def keeps_keys_def)
  then show ?thesis using 1 quiet_trans [OF 1] by (simp add: updateHostDiscoveredShells_def Let_def split: option.split)
qed

text \<open>A step that pins nothing keeps the pins; every step keeps the constraints.\<close>

definition pins :: "host_event \<Rightarrow> bool" where
  "pins e = (case e of HPin _ _ _ _ _ \<Rightarrow> True | HUpdate _ _ _ _ \<Rightarrow> True | _ \<Rightarrow> False)"

lemma step_keeps_pins:
  assumes ok: "store_ok db" and en: "host_enabled db e" and no: "\<not> pins e"
  shows "keeps_pins db (host_step db e) \<and> store_ok (host_step db e)"
proof -
  have q: "keeps_pins db db' \<and> store_ok db'" if "quiet db db'" for db' using that ok by (simp add: quiet_def)
  have id: "keeps_pins db db \<and> store_ok db" using ok by simp
  show ?thesis
  proof (cases e)
    case (HDuplicate now i newId)
    then show ?thesis using duplicateHost_quiet [OF _ ok, of now i newId] en id
      by (auto simp: or_else_def split: option.splits sum.splits)
  next
    case (HCreate now i type label input)
    then show ?thesis using createHost_quiet [OF _ ok, of now i type label input] en id
      by (cases "createHost now i type label input db") (auto simp: or_else_def)
  next
    case (HImport now inputs)
    then show ?thesis using importHosts_quiet [OF _ ok, of now inputs] en id
      by (cases "importHosts now inputs db") (auto simp: or_else_def)
  next
    case (HDelete now referenced i)
    then show ?thesis using keeps_pins_deleteHost [OF ok, of now referenced i] store_ok_deleteHost [OF ok, of now referenced i] id
      by (cases "deleteHost now referenced i db") (auto simp: or_else_def)
  next
    case (HReorder now g ids)
    then show ?thesis using quiet_reorder_from [of now g 0 ids db] q id
      by (cases "reorder_from now g 0 ids db") (auto simp: or_else_def reorderHosts_def)
  next
    case (GCreate now i name color)
    then show ?thesis using createHostGroup_quiet [of now i name color db] q id
      by (cases "createHostGroup now i name color db") (auto simp: or_else_def)
  next
    case (GUpdate now i name color)
    then show ?thesis using updateHostGroup_quiet [of now i name color db] q id
      by (cases "updateHostGroup now i name color db") (auto simp: or_else_def)
  qed (use no q quiet_steps quiet_shells deleteHostGroupEntity_quiet reorderHostGroups_quiet in \<open>auto simp: pins_def\<close>)
qed

lemma writePin_step: "host_step db (HPin now i f expected col) = snd (snd (writePin now i f expected col db))"
  by (cases col) (simp_all add: updateHostFingerprint_def updateHostProxyFingerprint_def)

lemma step_store_ok: "store_ok db \<Longrightarrow> host_enabled db e \<Longrightarrow> store_ok (host_step db e)"
proof (cases "pins e")
  case True
  assume ok: "store_ok db"
  consider (pin) now i f expected col where "e = HPin now i f expected col" | (update) now now2 i input where "e = HUpdate now now2 i input"
    using True by (auto simp: pins_def split: host_event.splits)
  then show ?thesis
  proof cases
    case pin
    then show ?thesis unfolding pin writePin_step
      by (cases "writePin now i f expected col db") (auto dest: writePin_store_ok [OF ok])
  next
    case update
    then show ?thesis using ok store_ok_updateHost [OF ok, of now now2 i input]
      by (cases "updateHost now now2 i input db") (auto simp: or_else_def)
  qed
qed (use step_keeps_pins in blast)

interpretation hosts: event_machine no_hosts host_enabled host_step store_ok
  by unfold_locales (simp add: no_hosts_def store_ok_def host_ids_def, rule step_store_ok)

lemma step_pins:
  assumes ok: "store_ok db" and en: "host_enabled db e" and h': "h' \<in> set (db_hosts (host_step db e))"
  shows "h_fingerprint h' = Some f \<Longrightarrow> (\<exists>h \<in> set (db_hosts db). h_id h = h_id h' \<and> h_fingerprint h = Some f \<and> route db h = route (host_step db e) h')
      \<or> (\<exists>now r. e = HPin now (h_id h') f (Some r) SshFingerprint \<and> fst (updateHostFingerprint now (h_id h') f (Some r) db) \<and> route (host_step db e) h' = Some r)"
    and "h_proxyFingerprint h' = Some f \<Longrightarrow> jump_route h' (db_lookup (host_step db e)) = RouteSpec n p \<Longrightarrow>
      (\<exists>h \<in> set (db_hosts db). h_id h = h_id h' \<and> h_proxyFingerprint h = Some f \<and> jump_route h (db_lookup db) = RouteSpec n p)
      \<or> (\<exists>now expected. e = HPin now (h_id h') f expected SshProxyFingerprint)
      \<or> (\<exists>now now2 input. e = HUpdate now now2 (h_id h') input \<and> in_sshProxyFingerprint input = Some (Some f))"
proof -
  consider (quiet) "keeps_pins db (host_step db e)" | (pin) now i fp expected col where "e = HPin now i fp expected col"
    | (update) now now2 i input before where "e = HUpdate now now2 i input" "update_result now now2 i input db before (host_step db e)"
  proof (cases "pins e")
    case True
    then consider now i f expected col where "e = HPin now i f expected col" | now now2 i input where "e = HUpdate now now2 i input"
      by (auto simp: pins_def split: host_event.splits)
    then show thesis
    proof cases
      case (2 now now2 i input)
      show thesis
      proof (cases "updateHost now now2 i input db")
        case (Inl a)
        then show thesis using 2 that(1) by (simp add: or_else_def)
      next
        case (Inr x)
        then show thesis using 2 that(3) updateHost_result [of now now2 i input db] by (cases x) (fastforce simp: or_else_def)
      qed
    qed (use that(2) in blast)
  qed (use step_keeps_pins [OF ok en] that(1) in blast)
  then show "h_fingerprint h' = Some f \<Longrightarrow> (\<exists>h \<in> set (db_hosts db). h_id h = h_id h' \<and> h_fingerprint h = Some f \<and> route db h = route (host_step db e) h')
      \<or> (\<exists>now r. e = HPin now (h_id h') f (Some r) SshFingerprint \<and> fst (updateHostFingerprint now (h_id h') f (Some r) db) \<and> route (host_step db e) h' = Some r)"
    and "h_proxyFingerprint h' = Some f \<Longrightarrow> jump_route h' (db_lookup (host_step db e)) = RouteSpec n p \<Longrightarrow>
      (\<exists>h \<in> set (db_hosts db). h_id h = h_id h' \<and> h_proxyFingerprint h = Some f \<and> jump_route h (db_lookup db) = RouteSpec n p)
      \<or> (\<exists>now expected. e = HPin now (h_id h') f expected SshProxyFingerprint)
      \<or> (\<exists>now now2 input. e = HUpdate now now2 (h_id h') input \<and> in_sshProxyFingerprint input = Some (Some f))"
  proof (atomize (full), cases, goal_cases)
    case 1
    then show ?case using h' unfolding keeps_pins_def by blast
  next
    case (2 now i fp expected col)
    obtain b told db' where w: "writePin now i fp expected col db = (b, told, db')" by (cases "writePin now i fp expected col db")
    have s: "host_step db (HPin now i fp expected col) = db'" using writePin_step w by simp
    have h2: "h' \<in> set (db_hosts db')" using h' unfolding 2 s .
    show ?case using writePin_pins [OF ok w h2, of f] unfolding 2 s using w by (cases expected) (auto simp: updateHostFingerprint_def)
  next
    case (3 now now2 i input before)
    show ?case using updateHost_pins [OF ok 3(2) h', of f] unfolding 3(1) by blast
  qed
qed

section \<open>Where the trusted keys come from\<close>

text \<open>A key was pinned for a host and a route: a request to pin it for that route was accepted.\<close>

definition pinned :: "host_event list \<Rightarrow> string \<Rightarrow> string \<Rightarrow> string \<Rightarrow> bool" where
  "pinned es i f r = (\<exists>es1 now es2. es = es1 @ HPin now i f (Some r) SshFingerprint # es2 \<and> fst (updateHostFingerprint now i f (Some r) (foldl host_step no_hosts es1)))"

text \<open>A key was given for a host's bastion: pinned, or set by an edit of the host, at a time the host's jump was that bastion and port.\<close>

definition pinned_spec :: "host_event list \<Rightarrow> string \<Rightarrow> string \<Rightarrow> string \<Rightarrow> int \<Rightarrow> bool" where
  "pinned_spec es i f n p =
     (\<exists>es1 e es2 h. es = es1 @ e # es2
        \<and> ((\<exists>now expected. e = HPin now i f expected SshProxyFingerprint) \<or> (\<exists>now now2 input. e = HUpdate now now2 i input \<and> in_sshProxyFingerprint input = Some (Some f)))
        \<and> h \<in> set (db_hosts (foldl host_step no_hosts (es1 @ [e]))) \<and> h_id h = i
        \<and> jump_route h (db_lookup (foldl host_step no_hosts (es1 @ [e]))) = RouteSpec n p)"

lemma pinned_more: "pinned es i f r \<Longrightarrow> pinned (es @ [e]) i f r"
  unfolding pinned_def by (metis append.assoc append_Cons)

lemma pinned_spec_more: "pinned_spec es i f n p \<Longrightarrow> pinned_spec (es @ [e]) i f n p"
  unfolding pinned_spec_def by (metis append.assoc append_Cons)

lemma run_pins:
  assumes "runs host_enabled host_step no_hosts es" "h \<in> set (db_hosts (foldl host_step no_hosts es))"
  shows "(h_fingerprint h = Some f \<longrightarrow> (\<exists>r. route (foldl host_step no_hosts es) h = Some r \<and> pinned es (h_id h) f r))
       \<and> (h_proxyFingerprint h = Some f \<longrightarrow> jump_route h (db_lookup (foldl host_step no_hosts es)) = RouteSpec n p \<longrightarrow> pinned_spec es (h_id h) f n p)"
  using assms
proof (induction es arbitrary: h rule: rev_induct)
  case Nil
  then show ?case by (simp add: no_hosts_def)
next
  case (snoc e es)
  let ?db = "foldl host_step no_hosts es"
  have run: "runs host_enabled host_step no_hosts es" and en: "host_enabled ?db e" and h: "h \<in> set (db_hosts (host_step ?db e))"
    using snoc.prems by (simp_all add: runs_append)
  have ok: "store_ok ?db" using hosts.inv_run [OF run] .
  have "pinned (es @ [e]) (h_id h) f r" if "e = HPin now (h_id h) f (Some r) SshFingerprint" "fst (updateHostFingerprint now (h_id h) f (Some r) ?db)" for now r
    unfolding pinned_def using that by (intro exI [of _ es] exI [of _ now] exI [of _ "[]"]) simp
  then have one: "h_fingerprint h = Some f \<longrightarrow> (\<exists>r. route (host_step ?db e) h = Some r \<and> pinned (es @ [e]) (h_id h) f r)"
    using step_pins(1) [OF ok en h, of f] snoc.IH [OF run] pinned_more by metis
  have "pinned_spec (es @ [e]) (h_id h) f n p" if "jump_route h (db_lookup (host_step ?db e)) = RouteSpec n p"
    "(\<exists>now expected. e = HPin now (h_id h) f expected SshProxyFingerprint) \<or> (\<exists>now now2 input. e = HUpdate now now2 (h_id h) input \<and> in_sshProxyFingerprint input = Some (Some f))"
    unfolding pinned_spec_def using that h by (intro exI [of _ es] exI [of _ e] exI [of _ "[]"] exI [of _ h]) simp
  then have "h_proxyFingerprint h = Some f \<longrightarrow> jump_route h (db_lookup (host_step ?db e)) = RouteSpec n p \<longrightarrow> pinned_spec (es @ [e]) (h_id h) f n p"
    using step_pins(2) [OF ok en h, of f n p] snoc.IH [OF run] pinned_spec_more by metis
  then show ?case using one by simp
qed

lemma fingerprint_pinned:
  assumes "runs host_enabled host_step no_hosts es" "db = foldl host_step no_hosts es" "getHostFingerprint i expected db = Some f"
  obtains h r where "getHost i db = Some h" "expected = Some r" "route db h = Some r" "pinned es i f r"
proof -
  obtain h r where h: "getHost i db = Some h" "expected = Some r" "route db h = Some r" "h_fingerprint h = Some f"
    using assms(3) by (auto simp: getHostFingerprint_def split: option.splits if_splits)
  then have "pinned es i f r" using run_pins [OF assms(1), of h f] getHost_in [OF h(1)] assms(2) by auto
  then show thesis using that h by blast
qed

text \<open>
  C35: A pinned key is only given for the route it was pinned for. Whatever hosts were created, edited, moved, copied, imported and deleted since, if the store gives a
  key for a host and a route, a request to pin this key for this host and this very route was accepted before, and the host is at that route now.
\<close>

theorem pinned_key_fits_route:
  assumes "runs host_enabled host_step no_hosts es" "db = foldl host_step no_hosts es" "getHostFingerprint i expected db = Some f"
  shows "\<exists>h r. getHost i db = Some h \<and> expected = Some r \<and> route db h = Some r \<and> pinned es i f r"
  by (rule fingerprint_pinned [OF assms]) blast

definition blank_input :: HostInput where
  "blank_input = \<lparr>in_type = None, in_label = None, in_sshHost = None, in_sshPort = None, in_sshAuth = None, in_sshKeyPath = None, in_iconType = None,
     in_iconValue = None, in_color = None, in_profileJson = None, in_trustRemoteHints = None, in_defaultCwd = None, in_hostGroupId = None, in_sortOrder = None,
     in_sshConfigHost = None, in_sshProxyHostId = None, in_sshProxySpec = None, in_sshRemoteDaemon = None, in_sshProxyFingerprint = None, in_sshUser = None,
     in_elevationMethod = None, in_customCommand = None, in_os = None, in_arch = None\<rparr>"

definition direct_route :: "string \<Rightarrow> string" where
  "direct_route hostname = json_route hostname 22 RouteDirect"

theorem pinned_key_fits_route_witness:
  "let es = [HCreate 1 ''A'' SshHost ''web'' (blank_input\<lparr>in_sshHost := Some ''web''\<rparr>), HPin 2 ''A'' ''K'' (Some (direct_route ''web'')) SshFingerprint] in
   getHostFingerprint ''A'' (Some (direct_route ''web'')) (foldl host_step no_hosts es) = Some ''K'' \<and> pinned es ''A'' ''K'' (direct_route ''web'')"
proof -
  let ?es = "[HCreate 1 ''A'' SshHost ''web'' (blank_input\<lparr>in_sshHost := Some ''web''\<rparr>), HPin 2 ''A'' ''K'' (Some (direct_route ''web'')) SshFingerprint]"
  have run: "runs host_enabled host_step no_hosts ?es" by code_simp
  have key: "getHostFingerprint ''A'' (Some (direct_route ''web'')) (foldl host_step no_hosts ?es) = Some ''K''" by code_simp
  show ?thesis using pinned_key_fits_route [OF run refl key] key unfolding Let_def by auto
qed

lemma parseSshHost_host: "snd (parseSshHost u s) = snd (parseSshHost v s)"
  by (simp add: parseSshHost_def split: option.split)

lemma direct_target:
  assumes "h_type h = SshHost" "h_sshHost h = Some s" "s \<noteq> []"
  shows "targetRoute (h\<lparr>h_proxyHostId := None, h_proxySpec := None\<rparr>) lookup
    = Some (json_route (snd (parseSshHost u s)) (case h_sshPort h of Some p \<Rightarrow> p | None \<Rightarrow> 22) RouteDirect)"
  using assms parseSshHost_host [of "[]" s u]
  by (simp add: targetRoute_def sshAddress_def jump_route_def planJump_def trimmed_or_empty_def)

text \<open>
  A jump is only trusted with a key pinned for it. When a host of the store is reached through another host, the key held for the jump was pinned for that
  host reached directly at the very name and port the hub is about to dial; through a bastion given as a spec, it was pinned on this host while its jump was the
  same bastion and port. Where a new key is then pinned is the place this one came from.
\<close>

theorem jump_key_fits_bastion:
  assumes "runs host_enabled host_step no_hosts es" "db = foldl host_step no_hosts es" "h \<in> set (db_hosts db)"
    and "resolveJump envUser h (\<lambda>i. getHost i db) (\<lambda>i r. getHostFingerprint i r db) trust = ResolvedVia j" "rj_pinnedFingerprint j = Some f"
  shows "case rj_pinTo j of
      PinHost i r \<Rightarrow> planJump h = PlanHost i \<and> (\<exists>n. int n = rj_port j \<and> r = Some (json_route (rj_host j) n RouteDirect) \<and> pinned es i f (json_route (rj_host j) n RouteDirect))
    | PinSpec i \<Rightarrow> i = h_id h \<and> pinned_spec es i f (rj_host j) (rj_port j)"
proof (cases "planJump h")
  case (PlanHost i)
  obtain g where g: "getHost i db = Some g" using assms(4) PlanHost by (cases "getHost i db") (auto simp: resolveJump_def)
  then have id: "h_id g = i" using getHost_in by blast
  obtain s where s: "h_type g = SshHost" "h_sshHost g = Some s" "s \<noteq> []" using assms(4) PlanHost g
    by (cases "h_sshHost g") (auto simp: resolveJump_def nonempty_or_def split: if_splits)
  let ?p = "case h_sshPort g of Some p \<Rightarrow> p | None \<Rightarrow> 22"
  have j: "rj_host j = snd (parseSshHost envUser s)" "rj_port j = int ?p" "rj_pinTo j = PinHost i (Some (json_route (rj_host j) ?p RouteDirect))"
    "rj_pinnedFingerprint j = getHostFingerprint i (Some (json_route (rj_host j) ?p RouteDirect)) db"
    using assms(4) s direct_target [OF s, of _ envUser]
    by (auto simp: resolveJump_def PlanHost g nonempty_or_def id Let_def case_prod_beta split: option.split)
  obtain r where "Some (json_route (rj_host j) ?p RouteDirect) = Some r" "pinned es i f r"
    using fingerprint_pinned [OF assms(1,2), of i _ f] j(4) assms(5) by metis
  then show ?thesis using j(2,3) PlanHost by auto
next
  case (PlanSpec spec)
  have j: "rj_host j = js_host spec" "rj_port j = js_port spec" "rj_pinTo j = PinSpec (h_id h)" "h_proxyFingerprint h = Some f"
    using assms(4,5) PlanSpec by (auto simp: resolveJump_def)
  have "jump_route h (db_lookup db) = RouteSpec (rj_host j) (rj_port j)" by (simp add: jump_route_def PlanSpec j)
  then show ?thesis using run_pins [OF assms(1), of h f] assms(2,3) j by auto
qed (use assms(4) in \<open>auto simp: resolveJump_def\<close>)

definition sample_jump :: "host_event list" where
  "sample_jump =
     [HCreate 1 ''A'' SshHost ''bastion'' (blank_input\<lparr>in_sshHost := Some ''gate''\<rparr>), HPin 2 ''A'' ''K'' (Some (direct_route ''gate'')) SshFingerprint,
      HCreate 3 ''B'' SshHost ''web'' (blank_input\<lparr>in_sshHost := Some ''web'', in_sshProxyHostId := Some (Some ''A'')\<rparr>)]"

theorem jump_key_fits_bastion_witness:
  "pinned sample_jump ''A'' ''K'' (direct_route ''gate'')"
proof -
  let ?db = "foldl host_step no_hosts sample_jump"
  have run: "runs host_enabled host_step no_hosts sample_jump" by code_simp
  have "getHost ''B'' ?db \<noteq> None" by code_simp
  then obtain h where h: "getHost ''B'' ?db = Some h" by blast
  have "case resolveJump ''me'' (the (getHost ''B'' ?db)) (\<lambda>i. getHost i ?db) (\<lambda>i r. getHostFingerprint i r ?db) True of
      ResolvedVia j \<Rightarrow> rj_pinnedFingerprint j = Some ''K'' \<and> rj_pinTo j = PinHost ''A'' (Some (direct_route ''gate'')) | _ \<Rightarrow> False" by code_simp
  then obtain j where j: "resolveJump ''me'' h (\<lambda>i. getHost i ?db) (\<lambda>i r. getHostFingerprint i r ?db) True = ResolvedVia j" "rj_pinnedFingerprint j = Some ''K''"
    "rj_pinTo j = PinHost ''A'' (Some (direct_route ''gate''))"
    unfolding h option.sel by (auto split: JumpResolution.splits)
  have "h \<in> set (db_hosts ?db)" using getHost_in [OF h] by simp
  from jump_key_fits_bastion [OF run refl this j(1,2)] show ?thesis unfolding j(3) by auto
qed

end
