(* ===== verification/Host_Copies.thy ===== *)
theory Host_Copies
  imports Host_Pins "HOL-Library.Multiset"
begin

text \<open>
  Copies of hosts, \<open>duplicateHost\<close> of \<^verbatim>\<open>packages/hub/src/storage/hosts-dal.ts\<close>. The theorems: the search
  for a free label ends, and the copy stands right after the original in its group.
\<close>

section \<open>A free label\<close>

lemma label_taken: "getHostByLabel label db \<noteq> None \<longleftrightarrow> label \<in> h_label ` set (db_hosts db)"
  by (auto simp: getHostByLabel_def find_None_iff)

lemma some_label_free: "\<exists>k > a. getHostByLabel (label @ ''-copy-'' @ dec k) db = None"
proof (rule ccontr)
  assume "\<not> ?thesis"
  then have "(\<lambda>k. label @ ''-copy-'' @ dec k) ` {a<..} \<subseteq> h_label ` set (db_hosts db)" using label_taken by fastforce
  moreover have "inj_on (\<lambda>k. label @ ''-copy-'' @ dec k) {a<..}" by (simp add: inj_on_def dec_inj)
  ultimately have "finite {a<..}" by (meson List.finite_set finite_imageD finite_imageI finite_subset)
  then show False using infinite_Ioi by blast
qed

lemma free_suffix_found:
  assumes "getHostByLabel (label @ ''-copy-'' @ dec k) db = None" "a < k"
  shows "\<exists>sfx'. free_suffix label a sfx db = Some sfx' \<and> getHostByLabel (label @ sfx') db = None"
  using assms
proof (induction "k - a" arbitrary: a sfx)
  case (Suc n)
  show ?case
  proof (cases "getHostByLabel (label @ sfx) db = None")
    case True
    then show ?thesis by (subst free_suffix.simps) auto
  next
    case taken: False
    have "\<exists>sfx'. free_suffix label (a + 1) (''-copy-'' @ dec (a + 1)) db = Some sfx' \<and> getHostByLabel (label @ sfx') db = None"
    proof (cases "k = a + 1")
      case True
      then show ?thesis using Suc.prems(1) by (subst free_suffix.simps) auto
    next
      case False
      then show ?thesis using Suc by (intro Suc.hyps(1)) auto
    qed
    then show ?thesis using taken by (subst free_suffix.simps) simp
  qed
qed simp

lemma free_suffix_total: "\<exists>sfx'. free_suffix label a sfx db = Some sfx' \<and> getHostByLabel (label @ sfx') db = None"
  using some_label_free [of a label db] free_suffix_found by blast

section \<open>The copy\<close>

lemma copy_row:
  assumes "copy = host_row now newId (h_type original) label (copy_input original at)"
  shows "h_sshHost copy = h_sshHost original" "h_sshPort copy = h_sshPort original" "h_proxyHostId copy = h_proxyHostId original"
    "h_proxySpec copy = h_proxySpec original" "h_hostGroupId copy = h_hostGroupId original" "h_sortOrder copy = at" "h_settings copy = h_settings original"
    "h_sshUser copy = h_sshUser original" "h_sshAuth copy = h_sshAuth original" "h_sshKeyPath copy = h_sshKeyPath original" "h_sshConfigHost copy = h_sshConfigHost original"
  unfolding assms host_row_def copy_input_def
  by (simp_all add: given_def split: option.split)

lemma duplicateHost_some:
  assumes ok: "store_ok db" and original: "getHost i db = Some original" "h_type original = SshHost" and fresh: "newId \<notin> host_ids db"
  obtains label at copy db1 where "getHostByLabel label db = None"
    "at = (case indexOf i (map h_id (group_order (h_hostGroupId original) db)) of Some k \<Rightarrow> k + 1 | None \<Rightarrow> 0)"
    "copy = host_row now newId (h_type original) label (copy_input original (int at))" "db1 = db\<lparr>db_hosts := db_hosts db @ [copy]\<rparr>"
    "duplicateHost now i newId db = Some (Inr (Some copy, move_group now at 0 (group_order (h_hostGroupId original) db) (copy_default_profile i newId db1)))"
proof -
  obtain sfx where sfx: "free_suffix (h_label original) 1 ''-copy'' db = Some sfx" "getHostByLabel (h_label original @ sfx) db = None"
    using free_suffix_total by blast
  let ?at = "case indexOf i (map h_id (group_order (h_hostGroupId original) db)) of Some k \<Rightarrow> k + 1 | None \<Rightarrow> 0"
  let ?copy = "host_row now newId (h_type original) (h_label original @ sfx) (copy_input original (int ?at))"
  have o': "original \<in> set (db_hosts db)" "h_id original = i" using getHost_in [OF original(1)] by auto
  then have refs: "row_refs (host_ids db) (g_id ` set (db_groups db)) original" using ok by (simp add: store_ok_def)
  have "row_error ?copy (db_hosts db) (db_groups db) = None"
    using sfx(2) fresh refs label_taken [of "h_label original @ sfx" db] copy_row [OF refl, of now newId original "h_label original @ sfx" "int ?at"]
    by (auto simp: row_error_None host_ids_def row_refs_def)
  then have "duplicateHost now i newId db = Some (Inr (Some ?copy, move_group now ?at 0 (group_order (h_hostGroupId original) db) (copy_default_profile i newId (db\<lparr>db_hosts := db_hosts db @ [?copy]\<rparr>))))"
    using original sfx(1) o'(2) by (simp add: duplicateHost_def createHost_def Let_def)
  then show thesis by (rule that [OF sfx(2) refl refl refl])
qed

lemma lookup_append: "j \<in> host_ids db \<Longrightarrow> db_lookup (db\<lparr>db_hosts := db_hosts db @ hs\<rparr>) j = db_lookup db j"
  using getHost_None [of j db] by (cases "getHost j db") (auto simp: db_lookup_def getHost_def find_append)

lemma lookup_move_group: "db_lookup (move_group now at i members db) = db_lookup db"
proof (induction members arbitrary: i db)
  case (Cons h members)
  show ?case by (simp add: Let_def Cons.IH lookup_update_where same_reach_def)
qed simp

lemma copy_reach:
  assumes ok: "store_ok db" and o': "original \<in> set (db_hosts db)"
    and copy: "copy = host_row now newId (h_type original) label (copy_input original at')"
  shows "route (move_group now at 0 members (copy_default_profile i newId (db\<lparr>db_hosts := db_hosts db @ [copy]\<rparr>))) copy = route db original"
proof -
  let ?db1 = "db\<lparr>db_hosts := db_hosts db @ [copy]\<rparr>"
  let ?db' = "move_group now at 0 members (copy_default_profile i newId ?db1)"
  have look: "db_lookup ?db' = db_lookup ?db1"
    unfolding lookup_move_group by (rule ext) (simp add: db_lookup_def getHost_def copy_default_profile_def)
  have "jump_route copy (db_lookup ?db') = jump_route original (db_lookup db)"
    unfolding look using copy_row [OF copy] plan_host(2) [OF ok o'] by (intro jump_route_cong) (auto simp: lookup_append)
  moreover have "sshAddress (Some copy) = sshAddress (Some original)" using copy_row [OF copy] copy by (intro sshAddress_cong) auto
  ultimately show ?thesis by (simp add: route_def targetRoute_def cong: option.case_cong)
qed


definition sample_store :: hosts_db where
  "sample_store = foldl host_step no_hosts
     [HCreate 1 ''A'' SshHost ''web'' (blank_input\<lparr>in_sshHost := Some ''web''\<rparr>), HCreate 2 ''B'' SshHost ''web-copy'' blank_input, HCreate 3 ''C'' SshHost ''db'' blank_input]"


section \<open>Its place\<close>

definition only_moves :: "Host \<Rightarrow> Host \<Rightarrow> bool" where
  "only_moves h h' = (h_id h' = h_id h \<and> h_type h' = h_type h \<and> h_hostGroupId h' = h_hostGroupId h)"

lemma move_group_rows:
  assumes "distinct (map h_id members)"
  shows "\<exists>F. db_hosts (move_group now at i members db) = map F (db_hosts db) \<and> (\<forall>h. only_moves h (F h)) \<and> (\<forall>h. h_id h \<notin> h_id ` set members \<longrightarrow> F h = h)
    \<and> (\<forall>k < length members. h_sortOrder (F (members ! k)) = int (if i + k < at then i + k else i + k + 1))"
  using assms
proof (induction members arbitrary: i db)
  case Nil
  show ?case by (intro exI [of _ id]) (simp add: only_moves_def)
next
  case (Cons m members)
  let ?pos = "int (if i < at then i else i + 1)"
  let ?G = "\<lambda>h. if h_sortOrder m \<noteq> ?pos \<and> h_id h = h_id m then h\<lparr>h_sortOrder := ?pos, h_updatedAt := now\<rparr> else h"
  let ?db1 = "if h_sortOrder m \<noteq> ?pos then update_id (h_id m) (\<lambda>h. h\<lparr>h_sortOrder := ?pos, h_updatedAt := now\<rparr>) db else db"
  obtain F where F: "db_hosts (move_group now at (i + 1) members ?db1) = map F (db_hosts ?db1)" "\<forall>h. only_moves h (F h)"
    "\<forall>h. h_id h \<notin> h_id ` set members \<longrightarrow> F h = h"
    "\<forall>k < length members. h_sortOrder (F (members ! k)) = int (if i + 1 + k < at then i + 1 + k else i + 1 + k + 1)"
    using Cons.IH [of "i + 1" ?db1] Cons.prems by auto
  have m: "h_id m \<notin> h_id ` set members" using Cons.prems by simp
  have "db_hosts (move_group now at i (m # members) db) = map (F \<circ> ?G) (db_hosts db)"
    using F(1) by (simp add: Let_def)
  moreover have "only_moves h ((F \<circ> ?G) h)" for h using F(2) by (simp add: only_moves_def)
  moreover have "(F \<circ> ?G) h = h" if "h_id h \<notin> h_id ` set (m # members)" for h using that F(3) by auto
  moreover have "h_sortOrder ((F \<circ> ?G) ((m # members) ! k)) = int (if i + k < at then i + k else i + k + 1)" if k: "k < length (m # members)" for k
  proof (cases k)
    case 0
    then show ?thesis using F(3) m by simp
  next
    case (Suc k')
    then have "h_id (members ! k') \<in> h_id ` set members" using k by simp
    then have "h_id (members ! k') \<noteq> h_id m" using m by metis
    then show ?thesis using F(4) k Suc by simp
  qed
  ultimately show ?case by (intro exI [of _ "F \<circ> ?G"] conjI allI impI) blast+
qed

lemma int_list_sorted: "sorted (map int [0..<n])" "distinct (map int [0..<n])"
  by (simp_all add: sorted_map distinct_map)

text \<open>A group whose rows are numbered as a list says is in the order of the list.\<close>

lemma numbered_order:
  assumes "mset ys = mset xs" "map h_sortOrder ys = map int [0..<length ys]"
  shows "sort_key h_sortOrder xs = ys"
proof (rule sort_key_inj_key_eq)
  have "distinct (map h_sortOrder ys)" "sorted (map h_sortOrder ys)" unfolding assms(2) by (rule int_list_sorted)+
  then show "inj_on h_sortOrder (set xs)" "sorted (map h_sortOrder ys)"
    using mset_eq_setD [OF assms(1)] by (auto simp: distinct_map)
qed (use assms(1) in simp)

lemma inserted_positions:
  assumes "at \<le> length ms" "\<forall>k < length ms. f (ms ! k) = int (if k < at then k else k + 1)" "f c = int at"
  shows "map f (take at ms @ c # drop at ms) = map int [0..<length ms + 1]"
proof (rule nth_equalityI)
  fix k assume "k < length (map f (take at ms @ c # drop at ms))"
  then have k: "k < length ms + 1" using assms(1) by simp
  consider "k < at" | "k = at" | j where "k = Suc (at + j)" "at + j < length ms" using k assms(1) less_iff_Suc_add [of at k] by (cases k at rule: linorder_cases) auto
  then show "map f (take at ms @ c # drop at ms) ! k = map int [0..<length ms + 1] ! k"
    using assms k by cases (auto simp: nth_append min_def)
qed (use assms(1) in simp)

text \<open>
  A copy stands right after its original. In the order the group is shown in, the hosts of the group
  stay in their order, whatever numbers they had, and the copy is the one after the original.
\<close>

theorem copy_right_after_original:
  assumes "store_ok db" "getHost i db = Some original" "h_type original = SshHost" "newId \<notin> host_ids db"
    and "duplicateHost now i newId db = Some (Inr (Some copy, db'))"
  shows "\<exists>front back. map h_id (group_order (h_hostGroupId original) db) = front @ i # back
           \<and> map h_id (group_order (h_hostGroupId original) db') = front @ i # newId # back"
proof -
  let ?in = "\<lambda>h. h_hostGroupId h = h_hostGroupId original \<and> h_type h \<noteq> LocalHost"
  let ?ms = "group_order (h_hostGroupId original) db"
  obtain label at db1 where at: "at = (case indexOf i (map h_id ?ms) of Some k \<Rightarrow> k + 1 | None \<Rightarrow> 0)"
    and copy: "copy = host_row now newId (h_type original) label (copy_input original (int at))" and db1: "db1 = db\<lparr>db_hosts := db_hosts db @ [copy]\<rparr>"
    and db': "db' = move_group now at 0 ?ms (copy_default_profile i newId db1)"
    by (rule duplicateHost_some [OF assms(1-4), of now]) (use assms(5) in simp)
  have o': "original \<in> set (db_hosts db)" "h_id original = i" using getHost_in [OF assms(2)] by auto
  have ms: "mset ?ms = mset (filter ?in (db_hosts db))" "set ?ms = set (filter ?in (db_hosts db))" by (simp_all add: group_order_def)
  have "distinct (map h_id (filter ?in (db_hosts db)))" using assms(1) by (simp add: store_ok_def distinct_map_filter)
  moreover have "mset (map h_id ?ms) = mset (map h_id (filter ?in (db_hosts db)))" by (simp add: ms(1))
  ultimately have d: "distinct (map h_id ?ms)" using mset_eq_imp_distinct_iff by blast
  obtain k where k: "indexOf i (map h_id ?ms) = Some k" using o' assms(3) ms(2) indexOf_None [of i "map h_id ?ms"] by (cases "indexOf i (map h_id ?ms)") auto
  then have "at = k + 1" by (simp add: at)
  moreover have "k < length ?ms" "h_id (?ms ! k) = i" using k by (auto simp: indexOf_Some)
  ultimately have ki: "k < length ?ms" "h_id (?ms ! k) = i" "at = k + 1" by blast+
  have hosts1: "db_hosts (copy_default_profile i newId db1) = db_hosts db1" by (simp add: copy_default_profile_def)
  obtain F where F: "db_hosts db' = map F (db_hosts db1)" "\<forall>h. only_moves h (F h)" "\<forall>h. h_id h \<notin> h_id ` set ?ms \<longrightarrow> F h = h"
    "\<forall>j < length ?ms. h_sortOrder (F (?ms ! j)) = int (if j < at then j else j + 1)"
    using move_group_rows [OF d, of now at 0 "copy_default_profile i newId db1"] unfolding hosts1 db' [symmetric] add_0 by blast
  have "newId \<notin> h_id ` set ?ms" using assms(4) ms(2) by (auto simp: host_ids_def)
  then have Fc: "F copy = copy" using F(3) copy by simp
  let ?ys = "map F (take at ?ms) @ copy # map F (drop at ?ms)"
  have "?in (F h) = ?in h" for h using F(2) by (simp add: only_moves_def)
  then have "filter ?in (db_hosts db') = map F (filter ?in (db_hosts db)) @ [copy]"
    using copy_row(5) [OF copy] copy assms(3) Fc by (simp add: F(1) db1 filter_map comp_def)
  moreover have "mset (map F (filter ?in (db_hosts db))) = mset (map F ?ms)" by (simp add: ms(1))
  moreover have "mset (map F ?ms) = mset (map F (take at ?ms)) + mset (map F (drop at ?ms))"
    by (metis append_take_drop_id map_append mset_append)
  ultimately have same: "mset ?ys = mset (filter ?in (db_hosts db'))" by simp
  have "map (h_sortOrder \<circ> F) (take at ?ms @ copy # drop at ?ms) = map int [0..<length ?ms + 1]"
    using F(4) Fc ki copy_row(6) [OF copy] by (intro inserted_positions) auto
  moreover have "length ?ys = length ?ms + 1" using ki by simp
  ultimately have "map h_sortOrder ?ys = map int [0..<length ?ys]" using Fc by (simp add: comp_def)
  from numbered_order [OF same this] have "group_order (h_hostGroupId original) db' = ?ys" by (simp only: group_order_def)
  moreover have "h_id (F h) = h_id h" for h using F(2) by (simp add: only_moves_def)
  ultimately have "map h_id (group_order (h_hostGroupId original) db') = take at (map h_id ?ms) @ newId # drop at (map h_id ?ms)"
    using copy by (simp add: take_map drop_map comp_def)
  moreover have "take at (map h_id ?ms) = take k (map h_id ?ms) @ [i]" using ki by (simp add: take_Suc_conv_app_nth)
  moreover have "map h_id ?ms = take k (map h_id ?ms) @ i # drop at (map h_id ?ms)" using ki id_take_nth_drop [of k "map h_id ?ms"] by simp
  ultimately show ?thesis by (metis append.assoc append_Cons append_Nil)
qed

theorem copy_right_after_original_witness:
  "\<exists>front back copy db'. duplicateHost 9 ''A'' ''D'' sample_store = Some (Inr (Some copy, db')) \<and> map h_id (group_order None db') = front @ ''A'' # ''D'' # back"
proof -
  have "getHost ''A'' sample_store \<noteq> None" by code_simp
  then obtain original where original: "getHost ''A'' sample_store = Some original" by blast
  have "h_type (the (getHost ''A'' sample_store)) = SshHost" "h_hostGroupId (the (getHost ''A'' sample_store)) = None" by code_simp+
  then have o': "h_type original = SshHost" "h_hostGroupId original = None" using original by simp_all
  have ok: "store_ok sample_store" "''D'' \<notin> host_ids sample_store" by code_simp+
  obtain copy db' where dup: "duplicateHost 9 ''A'' ''D'' sample_store = Some (Inr (Some copy, db'))"
    by (rule duplicateHost_some [OF ok(1) original o'(1) ok(2), of 9]) blast
  from copy_right_after_original [OF ok(1) original o'(1) ok(2) dup] dup show ?thesis unfolding o'(2) by blast
qed

end
