(* ===== verification/Upload_Send.thy ===== *)
theory Upload_Send
  imports JS_Strings "HOL-Library.Word"
begin

text \<open>
  Sending a file's bytes from a window: \<^verbatim>\<open>packages/clients/web/src/utils/upload-send.ts\<close>. The loop of \<^verbatim>\<open>sendFileBytes\<close> runs against whatever answers its
  requests: \<open>so_put\<close>, \<open>so_stopped\<close> and \<open>so_wait\<close> act on a state \<^typ>\<open>'s\<close> of the world outside. The loop says, beside its outcome, the requests it
  made and what it told \<^verbatim>\<open>onAcked\<close>. The interface \<open>chunk_host\<close> is what it relies on of the hub; \<open>Upload_Link\<close> interprets it on the hub's own model.
\<close>

section \<open>Answers and outcomes\<close>

datatype ChunkAnswer = ChunkOk int | ChunkNo (ca_status: nat) (ca_code: string) (ca_message: string) (ca_acked: "int option") (ca_state: "string option")

text \<open>What a call of \<^verbatim>\<open>put\<close> comes to: an answer, or an exception with its name and its text.\<close>

datatype put_outcome = PutAnswered ChunkAnswer | PutThrew string string

datatype SendOutcome = Sent int | SendStopped "string option" | SendFailed string string bool

record 's SendOptions =
  so_file :: "byte list"
  so_from :: int
  so_put :: "'s \<Rightarrow> int \<Rightarrow> byte list \<Rightarrow> put_outcome \<times> 's"
  so_chunkBytes :: "int option"
  so_stopped :: "'s \<Rightarrow> bool"
  so_wait :: "nat \<Rightarrow> 's \<Rightarrow> 's"

definition CHUNK_RETRIES :: nat where
  "CHUNK_RETRIES = 5"

definition MAX_OFFSET_MOVES :: nat where
  "MAX_OFFSET_MOVES = 8"

definition TRANSFER_CHUNK_BYTES :: int where
  "TRANSFER_CHUNK_BYTES = 1024 * 1024"

definition defaultBackoff :: "nat \<Rightarrow> nat" where
  "defaultBackoff attempt = 500 * 2 ^ (attempt - 1)"

text \<open>\<^verbatim>\<open>Blob.slice\<close>: an index below zero counts from the end, one past it is the end.\<close>

definition slice_index :: "int \<Rightarrow> int \<Rightarrow> nat" where
  "slice_index n i = nat (if i < 0 then max (n + i) 0 else min i n)"

definition blob_slice :: "byte list \<Rightarrow> int \<Rightarrow> int \<Rightarrow> byte list" where
  "blob_slice file a b = drop (slice_index (int (length file)) a) (take (slice_index (int (length file)) b) file)"

definition transient :: "ChunkAnswer \<Rightarrow> bool" where
  "transient a = (case a of ChunkOk n \<Rightarrow> False | ChunkNo status code message acked state \<Rightarrow> status = 0 \<or> code = ''ITEM_BUSY'' \<or> status = 503)"

section \<open>The loop\<close>

text \<open>What an answer leads to: the end, the next chunk from an offset the hub gave (told to \<^verbatim>\<open>onAcked\<close>), or the same one again after a wait.\<close>

datatype send_next = EndSend SendOutcome | SendFrom int nat nat | SendAgain nat

definition next_send :: "ChunkAnswer \<Rightarrow> int \<Rightarrow> nat \<Rightarrow> nat \<Rightarrow> send_next" where
  "next_send answer offset retries moves =
     (case answer of
        ChunkOk acked \<Rightarrow>
          if acked \<le> offset
          then if moves + 1 > MAX_OFFSET_MOVES then EndSend (SendFailed ''NO_PROGRESS'' ''The host took none of it'' False) else SendFrom acked 0 (moves + 1)
          else SendFrom acked 0 moves
      | ChunkNo status code message acked state \<Rightarrow>
          if code = ''ITEM_NOT_SENDING'' then EndSend (SendStopped state)
          else if code = ''OFFSET_MISMATCH'' \<and> acked \<noteq> None
          then if moves + 1 > MAX_OFFSET_MOVES then EndSend (SendFailed code message False) else SendFrom (the acked) retries (moves + 1)
          else if transient answer \<and> retries < CHUNK_RETRIES then SendAgain (retries + 1)
          else if status = 409 \<or> status = 502 then EndSend (SendStopped None)
          else EndSend (SendFailed code message False))"

definition unreadable :: "string \<Rightarrow> bool" where
  "unreadable name = (name = ''NotReadableError'' \<or> name = ''NotFoundError'')"

definition put_next :: "put_outcome \<Rightarrow> int \<Rightarrow> nat \<Rightarrow> nat \<Rightarrow> send_next" where
  "put_next outcome offset retries moves =
     (case outcome of
        PutAnswered answer \<Rightarrow> next_send answer offset retries moves
      | PutThrew name text \<Rightarrow>
          if unreadable name then EndSend (SendFailed name ''The file changed or was removed since it was dropped'' True)
          else next_send (ChunkNo 0 ''HUB_UNREACHABLE'' text None None) offset retries moves)"

lemma next_send_from:
  "next_send answer offset retries moves = SendFrom offset' retries' moves' \<Longrightarrow>
     (moves' = moves \<and> offset < offset' \<and> retries' = 0) \<or> (moves' = moves + 1 \<and> moves' \<le> MAX_OFFSET_MOVES)"
  by (auto simp: next_send_def split: ChunkAnswer.splits if_splits)

lemma next_send_again: "next_send answer offset retries moves = SendAgain retries' \<Longrightarrow> retries' = retries + 1 \<and> retries < CHUNK_RETRIES"
  by (auto simp: next_send_def split: ChunkAnswer.splits if_splits)

lemma put_next_from:
  "put_next outcome offset retries moves = SendFrom offset' retries' moves' \<Longrightarrow>
     (moves' = moves \<and> offset < offset' \<and> retries' = 0) \<or> (moves' = moves + 1 \<and> moves' \<le> MAX_OFFSET_MOVES)"
  by (auto simp: put_next_def dest!: next_send_from split: put_outcome.splits if_splits)

lemma put_next_again: "put_next outcome offset retries moves = SendAgain retries' \<Longrightarrow> retries' = retries + 1 \<and> retries < CHUNK_RETRIES"
  by (auto simp: put_next_def dest: next_send_again split: put_outcome.splits if_splits)

definition chunk_at :: "'s SendOptions \<Rightarrow> int \<Rightarrow> byte list" where
  "chunk_at opts offset =
     blob_slice (so_file opts) offset
       (min (int (length (so_file opts))) (offset + max 1 (case so_chunkBytes opts of Some n \<Rightarrow> n | None \<Rightarrow> TRANSFER_CHUNK_BYTES)))"

text \<open>The outcome, the requests made (offset and chunk), the offsets told, and the world after.\<close>

function send_loop :: "'s SendOptions \<Rightarrow> int \<Rightarrow> nat \<Rightarrow> nat \<Rightarrow> 's \<Rightarrow> SendOutcome \<times> (int \<times> byte list) list \<times> int list \<times> 's" where
  "send_loop opts offset retries moves s =
     (if offset \<ge> int (length (so_file opts)) then (Sent offset, [], [], s)
      else if so_stopped opts s then (SendStopped None, [], [], s)
      else let (outcome, s) = so_put opts s offset (chunk_at opts offset)
        in case put_next outcome offset retries moves of
             EndSend result \<Rightarrow> (result, [(offset, chunk_at opts offset)], [], s)
           | SendFrom offset' retries' moves' \<Rightarrow>
               let (result, sent, told, s) = send_loop opts offset' retries' moves' s in (result, (offset, chunk_at opts offset) # sent, offset' # told, s)
           | SendAgain retries' \<Rightarrow>
               let (result, sent, told, s) = send_loop opts offset retries' moves (so_wait opts retries' s) in (result, (offset, chunk_at opts offset) # sent, told, s))"
  by pat_completeness auto

termination send_loop
  by (relation "measures [\<lambda>(opts, offset, retries, moves, s). MAX_OFFSET_MOVES - moves,
                          \<lambda>(opts, offset, retries, moves, s). nat (int (length (so_file opts)) - offset),
                          \<lambda>(opts, offset, retries, moves, s). CHUNK_RETRIES - retries]")
    (auto dest!: put_next_from put_next_again)

declare send_loop.simps [simp del]

definition sendFileBytes :: "'s SendOptions \<Rightarrow> 's \<Rightarrow> SendOutcome \<times> (int \<times> byte list) list \<times> int list \<times> 's" where
  "sendFileBytes opts s = send_loop opts (min (max 0 (so_from opts)) (int (length (so_file opts)))) 0 0 s"

section \<open>One request\<close>

text \<open>
  The reply to a \<^verbatim>\<open>PUT\<close>: its status and its body, which says \<^verbatim>\<open>acked\<close>, or an error with those of its fields that are of the type the client reads; or is no JSON.
  A request that never got a reply says the name and the text of what was thrown.
\<close>

record chunk_error =
  ce_code :: "string option"
  ce_message :: "string option"
  ce_acked :: "int option"
  ce_state :: "string option"

datatype chunk_body = AckedBody "int option" | ErrorBody chunk_error | NotJson

datatype fetched = FetchThrew string string | Fetched nat chunk_body

definition answered_text :: "nat \<Rightarrow> string" where
  "answered_text status = ''The hub answered '' @ dec status"

definition refusalOf :: "nat \<Rightarrow> chunk_body \<Rightarrow> ChunkAnswer" where
  "refusalOf status body =
     (let e = (case body of ErrorBody e \<Rightarrow> e | _ \<Rightarrow> \<lparr>ce_code = None, ce_message = None, ce_acked = None, ce_state = None\<rparr>)
      in ChunkNo status (case ce_code e of Some c \<Rightarrow> c | None \<Rightarrow> ''HTTP_'' @ dec status) (case ce_message e of Some m \<Rightarrow> m | None \<Rightarrow> answered_text status)
           (ce_acked e) (ce_state e))"

definition putChunk :: "fetched \<Rightarrow> put_outcome" where
  "putChunk f =
     (case f of
        FetchThrew name text \<Rightarrow> if unreadable name then PutThrew name text else PutAnswered (ChunkNo 0 ''HUB_UNREACHABLE'' text None None)
      | Fetched status body \<Rightarrow>
          PutAnswered (if \<not> (200 \<le> status \<and> status < 300) then refusalOf status body
                       else case body of AckedBody (Some n) \<Rightarrow> ChunkOk n | _ \<Rightarrow> ChunkNo status ''BAD_ANSWER'' ''The hub's answer had no acked'' None None))"

section \<open>How many requests\<close>

text \<open>An answer is sane when the offset it gives is none below zero.\<close>

fun sane_answer :: "put_outcome \<Rightarrow> bool" where
  "sane_answer (PutAnswered (ChunkOk n)) \<longleftrightarrow> 0 \<le> n"
| "sane_answer (PutAnswered (ChunkNo status code message acked state)) \<longleftrightarrow> (\<forall>n. acked = Some n \<longrightarrow> 0 \<le> n)"
| "sane_answer (PutThrew name text) \<longleftrightarrow> True"

definition budget :: "nat \<Rightarrow> int \<Rightarrow> nat \<Rightarrow> nat \<Rightarrow> int" where
  "budget n offset retries moves =
     (if offset \<ge> int n then 0 else (8 - int moves) * (6 * int n + 6) + 6 * (int n - offset) + (5 - int retries))"

lemma put_next_sane:
  "put_next outcome offset retries moves = SendFrom offset' retries' moves' \<Longrightarrow> sane_answer outcome \<Longrightarrow> 0 \<le> offset'"
  by (auto simp: put_next_def next_send_def split: put_outcome.splits ChunkAnswer.splits if_splits)

lemma put_next_retries: "put_next outcome offset retries moves = SendFrom offset' retries' moves' \<Longrightarrow> retries' = 0 \<or> retries' = retries"
  by (auto simp: put_next_def next_send_def split: put_outcome.splits ChunkAnswer.splits if_splits)

lemma budget_spent:
  assumes "put_next outcome offset retries moves = SendFrom offset' retries' moves'" and "sane_answer outcome"
    and "0 \<le> offset" "offset < int n" "moves \<le> MAX_OFFSET_MOVES" "retries \<le> CHUNK_RETRIES"
  shows "1 + budget n offset' retries' moves' \<le> budget n offset retries moves"
proof -
  have o': "0 \<le> offset'" using assms by (blast dest: put_next_sane)
  have r': "retries' \<le> 5" using put_next_retries [OF assms(1)] assms(6) by (auto simp: CHUNK_RETRIES_def)
  from put_next_from [OF assms(1)] show ?thesis
  proof (elim disjE conjE)
    assume m: "moves' = moves" and less: "offset < offset'" and "retries' = 0"
    then show ?thesis using assms by (auto simp: budget_def MAX_OFFSET_MOVES_def CHUNK_RETRIES_def)
  next
    assume m: "moves' = moves + 1" "moves' \<le> MAX_OFFSET_MOVES"
    define k where "k = (8 - int moves') * (6 * int n + 6)"
    have "0 \<le> k" unfolding k_def using m by (intro mult_nonneg_nonneg) (simp_all add: MAX_OFFSET_MOVES_def)
    moreover have "(8 - int moves) * (6 * int n + 6) = k + (6 * int n + 6)" using m by (simp add: k_def algebra_simps)
    ultimately have k: "0 \<le> k" "(8 - int moves) * (6 * int n + 6) = k + (6 * int n + 6)" .
    have "budget n offset retries moves = k + (6 * int n + 6) + 6 * (int n - offset) + (5 - int retries)" using k assms(4) by (simp add: budget_def)
    moreover have "budget n offset' retries' moves' \<le> k + 6 * int n + 5" using k o' by (auto simp: budget_def k_def [symmetric])
    ultimately show ?thesis using assms(4,6) by (simp add: CHUNK_RETRIES_def)
  qed
qed

lemma budget_positive: "offset < int n \<Longrightarrow> moves \<le> MAX_OFFSET_MOVES \<Longrightarrow> retries \<le> CHUNK_RETRIES \<Longrightarrow> 1 \<le> budget n offset retries moves"
  by (simp add: budget_def MAX_OFFSET_MOVES_def CHUNK_RETRIES_def add_nonneg_pos add_pos_nonneg)

lemma budget_again: "offset < int n \<Longrightarrow> 1 + budget n offset (retries + 1) moves = budget n offset retries moves"
  by (simp add: budget_def)

lemma send_loop_bounded:
  assumes "\<And>s offset chunk. sane_answer (fst (so_put opts s offset chunk))"
    and "0 \<le> offset" "moves \<le> MAX_OFFSET_MOVES" "retries \<le> CHUNK_RETRIES" "send_loop opts offset retries moves s = (result, sent, told, s')"
  shows "int (length sent) \<le> budget (length (so_file opts)) offset retries moves"
  using assms
proof (induction opts offset retries moves s arbitrary: result sent told s' rule: send_loop.induct)
  case (1 opts offset retries moves s)
  let ?n = "length (so_file opts)"
  show ?case
  proof (cases "offset \<ge> int ?n \<or> so_stopped opts s")
    case True
    then have "sent = []" using 1(7) by (subst (asm) send_loop.simps) (auto split: if_splits)
    with budget_positive [of offset ?n moves retries] 1(5,6) show ?thesis by (cases "offset < int ?n") (auto simp: budget_def)
  next
    case False
    obtain outcome t where put: "so_put opts s offset (chunk_at opts offset) = (outcome, t)" by fastforce
    have sane: "sane_answer outcome" using 1(3) [of s offset "chunk_at opts offset"] put by simp
    show ?thesis
    proof (cases "put_next outcome offset retries moves")
      case (EndSend r)
      with 1(7) False put have "length sent = 1" by (subst (asm) send_loop.simps) auto
      then show ?thesis using budget_positive [of offset ?n moves retries] False 1(5,6) by simp
    next
      case (SendFrom offset' retries' moves')
      obtain r sent' told' t' where rec: "send_loop opts offset' retries' moves' t = (r, sent', told', t')" by (metis prod_cases4)
      with 1(7) False put SendFrom have len: "length sent = Suc (length sent')" by (subst (asm) send_loop.simps) auto
      have "0 \<le> offset'" "moves' \<le> MAX_OFFSET_MOVES" "retries' \<le> CHUNK_RETRIES"
        using put_next_sane [OF SendFrom sane] put_next_from [OF SendFrom] put_next_retries [OF SendFrom] 1(5,6) by auto
      then have "int (length sent') \<le> budget ?n offset' retries' moves'" using 1(1) [OF _ _ put [symmetric] _ SendFrom 1(3) _ _ _ rec] False by auto
      with budget_spent [OF SendFrom sane 1(4), of ?n] False 1(5,6) len show ?thesis by auto
    next
      case (SendAgain retries')
      obtain r sent' told' t' where rec: "send_loop opts offset retries' moves (so_wait opts retries' t) = (r, sent', told', t')" by (metis prod_cases4)
      with 1(7) False put SendAgain have len: "length sent = Suc (length sent')" by (subst (asm) send_loop.simps) auto
      have again: "retries' = retries + 1" "retries < CHUNK_RETRIES" using put_next_again [OF SendAgain] by auto
      then have "int (length sent') \<le> budget ?n offset retries' moves" using 1(2) [OF _ _ put [symmetric] _ SendAgain 1(3,4,5) _ rec] False by auto
      with budget_again [of offset ?n retries moves] again False len show ?thesis by auto
    qed
  qed
qed


definition stubborn_hub :: "unit SendOptions" where
  "stubborn_hub = \<lparr>so_file = [1, 2, 3], so_from = 1, so_put = (\<lambda>s offset chunk. (PutAnswered (ChunkNo 409 ''OFFSET_MISMATCH'' ''no'' (Some 0) None), s)),
     so_chunkBytes = Some 2, so_stopped = (\<lambda>_. False), so_wait = (\<lambda>k s. s)\<rparr>"


section \<open>What arrives\<close>

lemma chunk_at_prefix:
  assumes "prefix h (so_file opts)" and "offset = int (length h)"
  shows "prefix (h @ chunk_at opts offset) (so_file opts)"
proof -
  obtain t where t: "so_file opts = h @ t" using assms(1) by (auto simp: prefix_def)
  define k where "k = max 1 (case so_chunkBytes opts of Some n \<Rightarrow> n | None \<Rightarrow> TRANSFER_CHUNK_BYTES)"
  have "1 \<le> k" by (simp add: k_def)
  then have "chunk_at opts offset = take (nat k) t"
    by (simp add: chunk_at_def k_def [symmetric] blob_slice_def slice_index_def t assms(2) min_def nat_add_distrib)
  then show ?thesis using take_is_prefix t by (simp add: prefix_def)
qed

text \<open>
  What the loop relies on of the hub that takes its chunks. In a state the hub holds \<open>held\<close> of the file, or it no longer takes its bytes (\<open>closed\<close>). A chunk
  acknowledged was added at its offset; a chunk whose answer was lost was added, or not, or the hub closed the file; an offset the hub names is where its bytes end.
\<close>

locale chunk_host =
  fixes put :: "'s \<Rightarrow> int \<Rightarrow> byte list \<Rightarrow> put_outcome \<times> 's"
    and wait :: "nat \<Rightarrow> 's \<Rightarrow> 's"
    and held :: "'s \<Rightarrow> byte list"
    and closed :: "'s \<Rightarrow> bool"
    and ok :: "'s \<Rightarrow> bool"
  assumes put_ok: "ok s \<Longrightarrow> put s offset chunk = (outcome, s') \<Longrightarrow> ok s'"
    and put_held:
      "ok s \<Longrightarrow> \<not> closed s \<Longrightarrow> put s offset chunk = (outcome, s') \<Longrightarrow>
         closed s' \<or> held s' = held s \<or> (held s' = held s @ chunk \<and> offset = int (length (held s)))"
    and put_acked:
      "ok s \<Longrightarrow> put s offset chunk = (PutAnswered (ChunkOk n), s') \<Longrightarrow>
         \<not> closed s \<and> held s' = held s @ chunk \<and> offset = int (length (held s)) \<and> n = int (length (held s'))"
    and put_mismatch:
      "ok s \<Longrightarrow> put s offset chunk = (PutAnswered (ChunkNo status ''OFFSET_MISMATCH'' message (Some n) state), s') \<Longrightarrow>
         \<not> closed s \<and> held s' = held s \<and> n = int (length (held s'))"
    and put_closed: "ok s \<Longrightarrow> closed s \<Longrightarrow> put s offset chunk = (outcome, s') \<Longrightarrow> closed s'"
    and wait_ok: "ok s \<Longrightarrow> ok (wait k s) \<and> held (wait k s) = held s \<and> closed (wait k s) = closed s"
begin

text \<open>What the host holds is a beginning of the file; past the end, the loop knows it to be the whole.\<close>

definition on_course :: "byte list \<Rightarrow> int \<Rightarrow> 's \<Rightarrow> bool" where
  "on_course file offset s \<longleftrightarrow> ok s \<and> (closed s \<or> prefix (held s) file) \<and> (offset < int (length file) \<or> (prefix (held s) file \<and> offset = int (length (held s))))"

lemma put_on_course:
  assumes "so_put opts = put" "on_course (so_file opts) offset s" "offset < int (length (so_file opts))" "put s offset (chunk_at opts offset) = (outcome, s')"
  shows "closed s' \<or> prefix (held s') (so_file opts)"
proof (cases "closed s")
  case True
  then show ?thesis using put_closed assms(2,4) by (auto simp: on_course_def)
next
  case False
  with assms(2) have "ok s" "prefix (held s) (so_file opts)" by (simp_all add: on_course_def)
  then show ?thesis using put_held [OF _ False assms(4)] chunk_at_prefix by metis
qed

lemma next_on_course:
  assumes "so_put opts = put" "on_course (so_file opts) offset s" "offset < int (length (so_file opts))" "put s offset (chunk_at opts offset) = (outcome, s')"
    and "put_next outcome offset retries moves = SendFrom offset' retries' moves'"
  shows "on_course (so_file opts) offset' s'"
proof -
  have ok: "ok s" "ok s'" using assms(2,4) put_ok by (auto simp: on_course_def)
  from assms(5) consider "outcome = PutAnswered (ChunkOk offset')"
    | status message state where "outcome = PutAnswered (ChunkNo status ''OFFSET_MISMATCH'' message (Some offset') state)"
    by (auto simp: put_next_def next_send_def split: put_outcome.splits ChunkAnswer.splits if_splits)
  then show ?thesis
  proof cases
    case 1
    with put_acked [of s offset "chunk_at opts offset" offset' s'] assms(4) ok have ack: "\<not> closed s" "held s' = held s @ chunk_at opts offset" "offset = int (length (held s))" "offset' = int (length (held s'))" by simp_all
    with assms(2) have "prefix (held s) (so_file opts)" by (simp add: on_course_def)
    with ack chunk_at_prefix ok show ?thesis by (metis on_course_def)
  next
    case 2
    with put_mismatch [OF ok(1)] assms(4) have "\<not> closed s" "held s' = held s" "offset' = int (length (held s'))" by blast+
    with assms(2) ok show ?thesis by (simp add: on_course_def)
  qed
qed

lemma again_on_course:
  assumes "so_put opts = put" "on_course (so_file opts) offset s" "offset < int (length (so_file opts))" "put s offset (chunk_at opts offset) = (outcome, s')"
  shows "on_course (so_file opts) offset (wait k s')"
  using put_on_course [OF assms] put_ok [OF _ assms(4)] assms(2,3) wait_ok [of s' k] by (auto simp: on_course_def)

lemma put_next_unsent: "put_next outcome offset retries moves \<noteq> EndSend (Sent n)"
  by (auto simp: put_next_def next_send_def split: put_outcome.splits ChunkAnswer.splits if_splits)

lemma loop_delivers:
  assumes "so_put opts = put" "so_wait opts = wait" "on_course (so_file opts) offset s" "send_loop opts offset retries moves s = (result, sent, told, s')"
  shows "(closed s' \<or> prefix (held s') (so_file opts)) \<and> (\<forall>n. result = Sent n \<longrightarrow> held s' = so_file opts)"
  using assms
proof (induction opts offset retries moves s arbitrary: result sent told s' rule: send_loop.induct)
  case (1 opts offset retries moves s)
  show ?case
  proof (cases "offset \<ge> int (length (so_file opts)) \<or> so_stopped opts s")
    case True
    with 1(6) have "s' = s" "\<And>n. result = Sent n \<Longrightarrow> offset \<ge> int (length (so_file opts))" by (subst (asm) send_loop.simps, auto split: if_splits)+
    with 1(5) show ?thesis by (auto simp: on_course_def prefix_def)
  next
    case False
    obtain outcome t where put: "put s offset (chunk_at opts offset) = (outcome, t)" by fastforce
    have run: "so_put opts s offset (chunk_at opts offset) = (outcome, t)" using put 1(3) by simp
    show ?thesis
    proof (cases "put_next outcome offset retries moves")
      case (EndSend r)
      with 1(6) False run have "s' = t" "result = r" by (subst (asm) send_loop.simps, auto)+
      with put_on_course [OF 1(3,5) _ put] False EndSend put_next_unsent show ?thesis by auto
    next
      case (SendFrom offset' retries' moves')
      obtain sent' told' where rec: "send_loop opts offset' retries' moves' t = (result, sent', told', s')"
        using 1(6) False run SendFrom by (subst (asm) send_loop.simps) (auto split: prod.splits)
      then show ?thesis using 1(1) [OF _ _ run [symmetric] _ SendFrom 1(3,4) next_on_course [OF 1(3,5) _ put SendFrom] rec] False by auto
    next
      case (SendAgain retries')
      obtain sent' told' where rec: "send_loop opts offset retries' moves (so_wait opts retries' t) = (result, sent', told', s')"
        using 1(6) False run SendAgain by (subst (asm) send_loop.simps) (auto split: prod.splits)
      have "on_course (so_file opts) offset (so_wait opts retries' t)" using again_on_course [OF 1(3,5) _ put] False 1(4) by simp
      then show ?thesis using 1(2) [OF _ _ run [symmetric] _ SendAgain 1(3,4) _ rec] False by auto
    qed
  qed
qed

lemma delivers:
  assumes "so_put opts = put" "so_wait opts = wait" "ok s" "prefix (held s) (so_file opts)" "so_from opts = int (length (held s))"
    and "sendFileBytes opts s = (result, sent, told, s')"
  shows "(closed s' \<or> prefix (held s') (so_file opts)) \<and> (\<forall>n. result = Sent n \<longrightarrow> held s' = so_file opts)"
proof -
  have "length (held s) \<le> length (so_file opts)" using assms(4) by (rule prefix_length_le)
  then have "min (max 0 (so_from opts)) (int (length (so_file opts))) = int (length (held s))" using assms(5) by simp
  moreover have "on_course (so_file opts) (int (length (held s))) s" using assms(3,4) by (simp add: on_course_def)
  ultimately show ?thesis using loop_delivers assms(1,2,6) unfolding sendFileBytes_def by metis
qed

end

end
