(* ===== verification/Transfer_Items.thy ===== *)
theory Transfer_Items
  imports Upload_Tree "HOL-Library.Word"
begin

text \<open>
  The state of an upload under way and the steps it is moved by: the synchronous parts of \<^verbatim>\<open>packages/hub/src/transfers/transfer-service.ts\<close>, with the names and
  errors of \<^verbatim>\<open>packages/hub/src/files/upload-backend.ts\<close>. The hub is one without a store (\<^verbatim>\<open>deps.store\<close> null), so that \<^verbatim>\<open>persist\<close> does nothing. An item is
  known by its place in the list, which is its id; an id that is no item's changes nothing. What is asked of the host is logged, and a promise under way is a task of
  the upload (see \<open>Transfer_Tasks\<close>). A running hash is the bytes it was given, a time a host says its milliseconds. Walks up or down the tree carry
  as fuel the number of items, which is enough (\<open>above_chained\<close> and \<open>walk_exact\<close> in \<open>Transfer_Counts\<close>).
\<close>

section \<open>Entries, names and errors of a host\<close>

datatype FileKind = KFile | KDirectory | KSymlink | KOther

datatype LinkKind = LinkFile | LinkDirectory | LinkOther | LinkMissing

record FileEntry =
  fe_name :: string
  fe_kind :: FileKind
  fe_size :: "int option"
  fe_mtime :: "int option"
  fe_linkKind :: "LinkKind option"

definition isFolderLike :: "FileEntry \<Rightarrow> bool" where
  "isFolderLike entry = (fe_kind entry = KDirectory \<or> (fe_kind entry = KSymlink \<and> fe_linkKind entry = Some LinkDirectory))"

definition keepBothName :: "string \<Rightarrow> nat \<Rightarrow> TransferItemKind \<Rightarrow> string" where
  "keepBothName name n kind =
     (case (if kind = File then lastIndexOf (CHR ''.'') name else None) of
        None \<Rightarrow> name @ '' ('' @ dec n @ '')''
      | Some dot \<Rightarrow> if dot = 0 then name @ '' ('' @ dec n @ '')'' else take dot name @ '' ('' @ dec n @ '')'' @ drop dot name)"

definition TEMP_TAIL_LENGTH :: nat where
  "TEMP_TAIL_LENGTH = length ''.0123456789abcdef.partial''"

definition tempPathFor :: "string \<Rightarrow> PathStyle \<Rightarrow> string \<Rightarrow> string option" where
  "tempPathFor target style random =
     (case parentOf target style of
        None \<Rightarrow> None
      | Some parent \<Rightarrow>
          let base = baseNameOf target style;
              name = (let kept = take (MAX_NAME_BYTES - 1 - TEMP_TAIL_LENGTH) base in if kept = [] then (if base = [] then ''x'' else take 1 base) else kept);
              temp = joinHostPath parent (''.'' @ name @ ''.'' @ random @ ''.partial'') style
          in if style = Windows \<and> length temp > WINDOWS_MAX_PATH_LENGTH
             then let name = take (max 1 (length name - (length temp - WINDOWS_MAX_PATH_LENGTH))) name
                  in Some (joinHostPath parent (''.'' @ name @ ''.'' @ random @ ''.partial'') style)
             else Some temp)"

text \<open>What a rejected promise says: whether it is an interruption (\<^verbatim>\<open>isInterruption\<close>), its code (\<^verbatim>\<open>codeOf\<close>) and message.\<close>

record host_error =
  er_interruption :: bool
  er_code :: string
  er_message :: string

definition no_free_name :: host_error where
  "no_free_name = \<lparr>er_interruption = False, er_code = ''FILE_ACCESS_FAILED'', er_message = ''No free name was found for it''\<rparr>"

definition root_has_no_temp :: host_error where
  "root_has_no_temp = \<lparr>er_interruption = False, er_code = ''UNSUPPORTED_PATH'', er_message = ''A root has no temporary''\<rparr>"

definition name_taken :: host_error where
  "name_taken = \<lparr>er_interruption = False, er_code = ''TRANSFER_FAILED'', er_message = ''Something has that name already''\<rparr>"

section \<open>Items and totals\<close>

datatype TransferItemState = Queued | Sending | Verifying | Placed | FailedItem | Skipped | InConflict | Cancelled | Interrupted

datatype TransferConflictAction = ReplaceIt | KeepBoth | SkipIt

datatype TransferOnConflict = OnAsk | OnReplace | OnKeepBoth | OnSkip

datatype TransferOutcome = OutPlaced | OutReplaced | OutKeptBoth | OutSkipped | OutCreated | OutMerged

datatype TransferVerification = BySize | BySha256 | NoHashTool | BySizeResumed

record Item =
  it_id :: nat
  it_relPath :: string
  it_name :: string
  it_kind :: TransferItemKind
  it_size :: int
  it_mtime :: "int option"
  it_parent :: "nat option"
  it_children :: "nat list"
  it_state :: TransferItemState
  it_existing :: "FileEntry option"
  it_typeClash :: bool
  it_late :: bool
  it_resolution :: "TransferConflictAction option"
  it_finalName :: "string option"
  it_path :: "string option"
  it_outcome :: "TransferOutcome option"
  it_verification :: "TransferVerification option"
  it_acked :: int
  it_temp :: "string option"
  it_tempWhole :: bool
  it_direct :: bool
  it_hash :: "8 word list option"
  it_sink :: "string option"
  it_opening :: bool
  it_writing :: bool
  it_reason :: "string option"
  it_code :: "string option"
  it_carried :: bool

record Totals =
  tt_files :: nat
  tt_bytes :: int
  tt_acked :: int
  tt_states :: "(TransferItemState, nat) jmap"

definition emptyTotals :: Totals where
  "emptyTotals = \<lparr>tt_files = 0, tt_bytes = 0, tt_acked = 0, tt_states = []\<rparr>"

definition UNSETTLED :: "TransferItemState list" where
  "UNSETTLED = [Queued, Sending, Verifying, InConflict, Interrupted]"

definition FOLDER_BATCH :: nat where
  "FOLDER_BATCH = 500"

definition KEEP_BOTH_TRIES :: nat where
  "KEEP_BOTH_TRIES = 10000"

section \<open>Uploads\<close>

datatype UploadTransport = LocalTransport | SftpTransport | ExecTransport

record Backend =
  be_transport :: UploadTransport
  be_style :: PathStyle
  be_lost :: bool

text \<open>What is asked of the host: the requests that write.\<close>

datatype host_call =
    CallOpen string int
  | CallWrite string int "8 word list"
  | CallFinish string "8 word list option"
  | CallAbort string
  | CallPlace nat string string bool
  | CallRemove string
  | CallTruncate string int
  | CallMkdirs "string list"
  | CallRelease

text \<open>What runs on once a promise settles: the rest of \<^verbatim>\<open>open\<close>, \<^verbatim>\<open>place\<close>, \<^verbatim>\<open>createFolders\<close> and their likes after each \<^verbatim>\<open>await\<close>, with the locals it has.\<close>

datatype after_backend = ThenOpen nat | ThenPlace nat | ThenFolders "nat list" "nat list"

datatype after_stop = FromOpen | FromReceive | FromCancel

datatype task =
    TBackend "Backend option" after_backend
  | TOpenStat nat UploadTransport string string
  | TOpenTruncate nat string string
  | TOpenRemove nat string string
  | TPlacement nat string string
  | TOpenTemp nat string string bool
  | TOpenDirect nat string nat bool
  | TAfterStop nat after_stop
  | TReceive nat int "8 word list"
  | TWrite nat string "8 word list"
  | TFinish nat
  | TPlaceReplace nat string
  | TPlaceKeep nat string string nat
  | TPlacePlain nat string
  | TMkdirs "nat list" "(nat \<times> string) list"
  | TKeepFolder nat nat "nat list"

datatype TransferUploadState = UploadRunning | UploadInterrupted | UploadDone

record TransferItemProgress =
  pr_itemId :: nat
  pr_state :: TransferItemState
  pr_acked :: "int option"
  pr_outcome :: "TransferOutcome option"
  pr_finalName :: "string option"
  pr_verification :: "TransferVerification option"
  pr_reason :: "string option"
  pr_code :: "string option"

datatype message =
    TransferProgress "TransferItemProgress list" "(nat \<times> Totals) list" Totals
  | TransferConflict "(nat \<times> FileEntry option \<times> bool) list"
  | TransferDone Totals
  | TransferState TransferUploadState "string option"

text \<open>What a chunk is answered over REST: the bytes the host holds, or the status and code of its refusal.\<close>

datatype chunk_answer = ChunkAcked int | ChunkRefused nat string

record Upload =
  up_channelId :: string
  up_hostId :: string
  up_hostType :: string
  up_dir :: string
  up_style :: PathStyle
  up_onConflict :: TransferOnConflict
  up_verify :: bool
  up_tokenId :: "string option"
  up_signature :: string
  up_items :: "Item list"
  up_order :: "nat list"
  up_folderTotals :: "(nat, Totals) jmap"
  up_totals :: Totals
  up_folderStates :: "(TransferItemState, nat) jmap"
  up_source :: "string option"
  up_backend :: "Backend option"
  up_queue :: "nat list"
  up_folderQueue :: "nat list"
  up_creatingFolders :: bool
  up_waiting :: "(nat, nat list) jmap"
  up_dirtyItems :: "nat jset"
  up_dirtyFolders :: "nat jset"
  up_conflicts :: "(nat \<times> FileEntry option \<times> bool) list"
  up_flushTimer :: bool
  up_flushSoon :: bool
  up_doneSaid :: bool
  up_forgetTimer :: bool
  up_busy :: int
  up_reason :: "string option"
  up_linkDropped :: bool
  up_stale :: bool
  up_said :: "(TransferUploadState \<times> string option) option"
  up_tasks :: "task list"
  up_calls :: "host_call list"
  up_sent :: "message list"
  up_answers :: "(nat \<times> chunk_answer) list"

definition upd_item :: "nat \<Rightarrow> (Item \<Rightarrow> Item) \<Rightarrow> Upload \<Rightarrow> Upload" where
  "upd_item i f u = u\<lparr>up_items := (up_items u)[i := f (up_items u ! i)]\<rparr>"

abbreviation item :: "Upload \<Rightarrow> nat \<Rightarrow> Item" where
  "item u i \<equiv> up_items u ! i"

definition add_task :: "task \<Rightarrow> Upload \<Rightarrow> Upload" where
  "add_task t u = u\<lparr>up_tasks := up_tasks u @ [t]\<rparr>"

definition call :: "host_call \<Rightarrow> Upload \<Rightarrow> Upload" where
  "call c u = u\<lparr>up_calls := up_calls u @ [c]\<rparr>"

section \<open>Counts\<close>

fun parents_from :: "Item list \<Rightarrow> nat \<Rightarrow> nat option \<Rightarrow> nat list" where
  "parents_from items 0 p = []"
| "parents_from items (Suc n) None = []"
| "parents_from items (Suc n) (Some p) = p # parents_from items n (if p < length items then it_parent (items ! p) else None)"

definition above :: "Item list \<Rightarrow> nat \<Rightarrow> nat list" where
  "above items i = parents_from items (length items) (it_parent (items ! i))"

definition upd_totals :: "nat \<Rightarrow> (Totals \<Rightarrow> Totals) \<Rightarrow> Upload \<Rightarrow> Upload" where
  "upd_totals i f u =
     u\<lparr>up_totals := f (up_totals u),
       up_folderTotals := foldl (\<lambda>m p. case map_get m p of None \<Rightarrow> m | Some t \<Rightarrow> map_set p (f t) m) (up_folderTotals u) (above (up_items u) i)\<rparr>"

definition move_count :: "TransferItemState \<Rightarrow> TransferItemState \<Rightarrow> (TransferItemState, nat) jmap \<Rightarrow> (TransferItemState, nat) jmap" where
  "move_count prior state m =
     (let left = (case map_get m prior of Some n \<Rightarrow> n | None \<Rightarrow> 1) - 1;
          m = (if left > 0 then map_set prior left m else map_delete prior m)
      in map_set state ((case map_get m state of Some n \<Rightarrow> n | None \<Rightarrow> 0) + 1) m)"

definition markFolders :: "nat \<Rightarrow> Upload \<Rightarrow> Upload" where
  "markFolders i u = u\<lparr>up_dirtyFolders := foldl (\<lambda>d p. set_add p d) (up_dirtyFolders u) (above (up_items u) i)\<rparr>"

definition setState :: "nat \<Rightarrow> TransferItemState \<Rightarrow> Upload \<Rightarrow> Upload" where
  "setState i state u =
     (if i \<ge> length (up_items u) then u
      else
      let prior = it_state (item u i);
          u = (upd_item i (\<lambda>x. x\<lparr>it_state := state\<rparr>) u)\<lparr>up_dirtyItems := set_add i (up_dirtyItems u)\<rparr>
      in if prior = state then u
         else if it_kind (item u i) \<noteq> File then u\<lparr>up_folderStates := move_count prior state (up_folderStates u)\<rparr>
         else markFolders i (upd_totals i (\<lambda>t. t\<lparr>tt_states := move_count prior state (tt_states t)\<rparr>) u))"

definition addAcked :: "nat \<Rightarrow> int \<Rightarrow> Upload \<Rightarrow> Upload" where
  "addAcked i delta u =
     (if delta = 0 \<or> i \<ge> length (up_items u) then u
      else let u = (upd_item i (\<lambda>x. x\<lparr>it_acked := it_acked x + delta\<rparr>) u)\<lparr>up_dirtyItems := set_add i (up_dirtyItems u)\<rparr>
           in markFolders i (upd_totals i (\<lambda>t. t\<lparr>tt_acked := tt_acked t + delta\<rparr>) u))"

definition count_of :: "(TransferItemState, nat) jmap \<Rightarrow> TransferItemState \<Rightarrow> nat" where
  "count_of m state = (case map_get m state of Some n \<Rightarrow> n | None \<Rightarrow> 0)"

definition counted :: "Upload \<Rightarrow> TransferItemState list \<Rightarrow> nat" where
  "counted u states = sum_list (map (\<lambda>state. count_of (tt_states (up_totals u)) state + count_of (up_folderStates u) state) states)"

definition isSettled :: "Upload \<Rightarrow> bool" where
  "isSettled u = (up_busy u = 0 \<and> counted u UNSETTLED = 0)"

definition isActive :: "Upload \<Rightarrow> bool" where
  "isActive u =
     (if up_busy u > 0 \<or> up_creatingFolders u then True
      else if up_source u = None then False
      else counted u [Queued, Sending, Verifying] > 0)"

definition uploadState :: "Upload \<Rightarrow> TransferUploadState" where
  "uploadState u = (if isSettled u then UploadDone else if up_source u = None then UploadInterrupted else UploadRunning)"

definition settle :: "bool \<Rightarrow> Upload \<Rightarrow> Upload" where
  "settle now u =
     (if now then u\<lparr>up_flushSoon := True\<rparr>
      else if \<not> up_flushTimer u \<and> \<not> up_flushSoon u then u\<lparr>up_flushTimer := True\<rparr>
      else u)"

section \<open>Queues\<close>

definition parentPath :: "Upload \<Rightarrow> nat \<Rightarrow> string" where
  "parentPath u i = (case it_parent (item u i) of None \<Rightarrow> up_dir u | Some p \<Rightarrow> (case it_path (item u p) of Some path \<Rightarrow> path | None \<Rightarrow> up_dir u))"

definition parentReady :: "Upload \<Rightarrow> nat \<Rightarrow> bool" where
  "parentReady u i = (case it_parent (item u i) of None \<Rightarrow> True | Some p \<Rightarrow> p < length (up_items u) \<and> it_state (item u p) = Placed)"

definition enqueue :: "nat \<Rightarrow> Upload \<Rightarrow> Upload" where
  "enqueue i u =
     (if \<not> parentReady u i then
        let parent = the (it_parent (item u i));
            waiting = (case map_get (up_waiting u) parent of Some w \<Rightarrow> w | None \<Rightarrow> [])
        in u\<lparr>up_waiting := map_set parent (waiting @ [i]) (up_waiting u)\<rparr>
      else if it_kind (item u i) = Dir then u\<lparr>up_folderQueue := up_folderQueue u @ [i]\<rparr>
      else u\<lparr>up_queue := up_queue u @ [i]\<rparr>)"

definition enqueue_queued :: "Upload \<Rightarrow> nat \<Rightarrow> Upload" where
  "enqueue_queued u i = (if it_state (item u i) = Queued then enqueue i u else u)"

definition enqueueReady :: "nat option \<Rightarrow> Upload \<Rightarrow> Upload" where
  "enqueueReady folder u =
     (case folder of
        None \<Rightarrow> foldl enqueue_queued u (up_order u)
      | Some f \<Rightarrow>
          let waiting = (case map_get (up_waiting u) f of Some w \<Rightarrow> w | None \<Rightarrow> [])
          in foldl enqueue_queued (u\<lparr>up_waiting := map_delete f (up_waiting u)\<rparr>) waiting)"

section \<open>Steps of an item\<close>

definition releaseBackend :: "Upload \<Rightarrow> Upload" where
  "releaseBackend u = (if up_backend u = None then u else call CallRelease u)\<lparr>up_backend := None\<rparr>"

definition backend_reached :: "Upload \<Rightarrow> bool" where
  "backend_reached u = (case up_backend u of None \<Rightarrow> False | Some be \<Rightarrow> \<not> be_lost be)"

text \<open>\<^verbatim>\<open>backendOf\<close> up to its first await: the backend at hand, or one asked for.\<close>

definition backendOf :: "after_backend \<Rightarrow> Upload \<Rightarrow> Upload" where
  "backendOf next u = (if backend_reached u then add_task (TBackend (up_backend u) next) u else add_task (TBackend None next) (releaseBackend u))"

definition restartFile :: "nat \<Rightarrow> Upload \<Rightarrow> Upload" where
  "restartFile i u =
     upd_item i (\<lambda>x. x\<lparr>it_temp := None, it_tempWhole := False, it_hash := None, it_carried := False\<rparr>) (addAcked i (- it_acked (item u i)) u)"

definition abort_sink :: "string option \<Rightarrow> Upload \<Rightarrow> Upload" where
  "abort_sink sink u = (case sink of None \<Rightarrow> u | Some path \<Rightarrow> call (CallAbort path) u)"

definition remove_temp :: "string option \<Rightarrow> Upload \<Rightarrow> Upload" where
  "remove_temp temp u = (case temp of None \<Rightarrow> u | Some t \<Rightarrow> call (CallRemove t) u)"

definition interrupt :: "string \<Rightarrow> nat \<Rightarrow> Upload \<Rightarrow> Upload" where
  "interrupt reason i u =
     (let sink = it_sink (item u i);
          u = setState i Interrupted (upd_item i (\<lambda>x. x\<lparr>it_sink := None, it_reason := Some reason, it_code := Some ''INTERRUPTED''\<rparr>) u)
      in if it_writing (item u i) then u else abort_sink sink u)"

definition interruptAll :: "string \<Rightarrow> Upload \<Rightarrow> Upload" where
  "interruptAll reason u =
     (if backend_reached u then u
      else let u = foldl (\<lambda>u i. if it_state (item u i) = Sending \<or> it_state (item u i) = Queued then interrupt reason i u else u) u [0..<length (up_items u)];
               u = (if up_source u \<noteq> None then u\<lparr>up_linkDropped := True\<rparr> else u)
           in releaseBackend u)"

definition fileFailed :: "host_error \<Rightarrow> nat \<Rightarrow> Upload \<Rightarrow> Upload" where
  "fileFailed e i u =
     (let sink = it_sink (item u i);
          u = upd_item i (\<lambda>x. x\<lparr>it_sink := None\<rparr>) u
      in if er_interruption e then
           let u = abort_sink sink u;
               u = upd_item i (\<lambda>x. x\<lparr>it_reason := Some (er_message e), it_code := Some (er_code e)\<rparr>) (setState i Interrupted u)
           in interruptAll (er_message e) u
         else
           let u = setState i FailedItem (upd_item i (\<lambda>x. x\<lparr>it_reason := Some (er_message e), it_code := Some (er_code e)\<rparr>) u);
               temp = it_temp (item u i);
               u = restartFile i u;
               u = abort_sink sink u
           in if temp \<noteq> None \<and> \<not> it_direct (item u i) \<and> up_backend u \<noteq> None then remove_temp temp u else u)"

definition filePlaced :: "nat \<Rightarrow> string \<Rightarrow> TransferOutcome \<Rightarrow> Upload \<Rightarrow> Upload" where
  "filePlaced i path outcome u =
     setState i Placed (upd_item i (\<lambda>x. x\<lparr>it_path := Some path, it_outcome := Some outcome, it_temp := None, it_tempWhole := False\<rparr>) u)"

text \<open>\<^verbatim>\<open>afterStop\<close>: the sink is aborted; the rest runs once it is.\<close>

definition afterStop :: "nat \<Rightarrow> string option \<Rightarrow> after_stop \<Rightarrow> Upload \<Rightarrow> Upload" where
  "afterStop i sink after u = add_task (TAfterStop i after) (abort_sink sink u)"

definition stopped :: "nat \<Rightarrow> Upload \<Rightarrow> Upload" where
  "stopped i u =
     (if it_state (item u i) \<noteq> Cancelled then u
      else let temp = it_temp (item u i); u = restartFile i u
           in if backend_reached u then remove_temp temp u else u)"

fun stopItem :: "nat \<Rightarrow> Upload \<Rightarrow> nat \<Rightarrow> Upload" where
  "stopItem 0 u i = u"
| "stopItem (Suc n) u i =
     (let sink = it_sink (item u i);
          u = upd_item i (\<lambda>x. x\<lparr>it_reason := None\<rparr>) (setState i Cancelled (upd_item i (\<lambda>x. x\<lparr>it_sink := None\<rparr>) u))
      in if it_kind (item u i) = Dir
         then foldl (\<lambda>u j. if it_state (item u j) \<in> {Queued, InConflict, Interrupted, Sending} then stopItem n u j else u) u (it_children (item u i))
         else if \<not> it_writing (item u i) then afterStop i sink FromCancel u else u)"

fun skip :: "nat \<Rightarrow> Upload \<Rightarrow> nat \<Rightarrow> Upload" where
  "skip 0 u i = u"
| "skip (Suc n) u i =
     (let temp = it_temp (item u i);
          u = setState i Skipped (upd_item i (\<lambda>x. x\<lparr>it_outcome := Some OutSkipped\<rparr>) u)
      in if it_kind (item u i) = File
         then (let u = restartFile i u in if up_backend u \<noteq> None then remove_temp temp u else u)
         else foldl (\<lambda>u j. if it_state (item u j) \<noteq> Placed \<and> it_state (item u j) \<noteq> Skipped then skip n u j else u) u (it_children (item u i)))"

fun failSubtree :: "nat \<Rightarrow> string \<Rightarrow> string \<Rightarrow> Upload \<Rightarrow> nat \<Rightarrow> Upload" where
  "failSubtree 0 code reason u i = u"
| "failSubtree (Suc n) code reason u i =
     (let u = setState i FailedItem (upd_item i (\<lambda>x. x\<lparr>it_code := Some code, it_reason := Some reason\<rparr>) u)
      in foldl (\<lambda>u j. if it_state (item u j) = Queued \<or> it_state (item u j) = InConflict
                then failSubtree n code ''The folder it is in could not be created'' u j else u) u (it_children (item u i)))"

definition skip_item :: "nat \<Rightarrow> Upload \<Rightarrow> Upload" where
  "skip_item i u = skip (length (up_items u)) u i"

definition fail_item :: "string \<Rightarrow> string \<Rightarrow> nat \<Rightarrow> Upload \<Rightarrow> Upload" where
  "fail_item code reason i u = failSubtree (length (up_items u)) code reason u i"

text \<open>\<^verbatim>\<open>place\<close> up to its first await.\<close>

definition place :: "nat \<Rightarrow> Upload \<Rightarrow> Upload" where
  "place i u =
     (if it_temp (item u i) = None then u
      else let u = settle False (setState i Verifying u) in backendOf (ThenPlace i) (u\<lparr>up_busy := up_busy u + 1\<rparr>))"

definition say_conflict :: "nat \<Rightarrow> FileEntry option \<Rightarrow> bool \<Rightarrow> Upload \<Rightarrow> Upload" where
  "say_conflict i existing clash u = u\<lparr>up_conflicts := up_conflicts u @ [(i, existing, clash)]\<rparr>"

definition conflictFound :: "nat \<Rightarrow> FileEntry option \<Rightarrow> Upload \<Rightarrow> Upload" where
  "conflictFound i existing u =
     (let clash = (case existing of None \<Rightarrow> False | Some e \<Rightarrow> isFolderLike e);
          u = upd_item i (\<lambda>x. x\<lparr>it_existing := existing, it_typeClash := clash, it_late := True\<rparr>) u;
          again = (\<lambda>action. let u = upd_item i (\<lambda>x. x\<lparr>it_resolution := Some action\<rparr>) u
                   in if it_tempWhole (item u i) then place i u else enqueue i (setState i Queued u))
      in case up_onConflict u of
           OnSkip \<Rightarrow> skip_item i u
         | OnKeepBoth \<Rightarrow> again KeepBoth
         | _ \<Rightarrow> if up_onConflict u = OnReplace \<and> \<not> clash then again ReplaceIt
                else let u = (if it_tempWhole (item u i) then u else upd_item i (\<lambda>x. x\<lparr>it_sink := None, it_temp := None\<rparr>) u)
                     in say_conflict i existing clash (setState i InConflict u))"

definition folderPlaced :: "nat \<Rightarrow> string \<Rightarrow> TransferOutcome \<Rightarrow> Upload \<Rightarrow> Upload" where
  "folderPlaced i path outcome u =
     enqueueReady (Some i) (setState i Placed (upd_item i (\<lambda>x. x\<lparr>it_path := Some path, it_outcome := Some outcome\<rparr>) u))"

definition folderClash :: "nat \<Rightarrow> FileEntry option \<Rightarrow> Upload \<Rightarrow> Upload" where
  "folderClash i existing u =
     (let u = upd_item i (\<lambda>x. x\<lparr>it_existing := existing, it_typeClash := True, it_late := True\<rparr>) u
      in case up_onConflict u of
           OnSkip \<Rightarrow> skip_item i u
         | OnKeepBoth \<Rightarrow> (upd_item i (\<lambda>x. x\<lparr>it_resolution := Some KeepBoth\<rparr>) u)\<lparr>up_folderQueue := up_folderQueue u @ [i]\<rparr>
         | _ \<Rightarrow> say_conflict i existing True (setState i InConflict u))"

section \<open>Queueing again\<close>

definition requeue :: "nat \<Rightarrow> Upload \<Rightarrow> Upload" where
  "requeue i u =
     (let u = upd_item i (\<lambda>x. x\<lparr>it_reason := None, it_code := None\<rparr>) u
      in if it_kind (item u i) = File \<and> it_tempWhole (item u i) then place i u else enqueue i (setState i Queued u))"

definition stopped_state :: "TransferItemState \<Rightarrow> bool" where
  "stopped_state state = (state = FailedItem \<or> state = Cancelled \<or> state = Interrupted)"

text \<open>The folders an item is in that need it, the nearest first, up to one seen to already.\<close>

fun requeue_folders :: "nat list \<Rightarrow> nat list \<times> Upload \<Rightarrow> nat list \<times> Upload" where
  "requeue_folders [] st = st"
| "requeue_folders (p # ps) (requeued, u) =
     (if p \<ge> length (up_items u) \<or> p \<in> set requeued then (requeued, u)
      else if stopped_state (it_state (item u p)) then requeue_folders ps (requeued @ [p], requeue p u)
      else requeue_folders ps (requeued, u))"

definition requeue_one :: "nat list \<times> Upload \<Rightarrow> nat \<Rightarrow> nat list \<times> Upload" where
  "requeue_one st i =
     (let (requeued, u) = requeue_folders (above (up_items (snd st)) i) st
      in if i \<in> set requeued then (requeued, u) else (requeued @ [i], requeue i u))"

definition requeueAll :: "nat list \<Rightarrow> Upload \<Rightarrow> Upload" where
  "requeueAll again u =
     (let u = snd (foldl requeue_one ([], u) again);
          u = (if up_stale u then enqueueReady None (u\<lparr>up_stale := False, up_queue := [], up_folderQueue := [], up_waiting := []\<rparr>) else u)
      in u\<lparr>up_doneSaid := False, up_forgetTimer := False\<rparr>)"

text \<open>The items a scope covers: one and everything under it, or all.\<close>

datatype TransferScope = WholeUpload | OneItem nat

fun walk :: "nat \<Rightarrow> Upload \<Rightarrow> nat \<Rightarrow> nat list" where
  "walk 0 u i = []"
| "walk (Suc n) u i = i # concat (map (walk n u) (it_children (item u i)))"

definition scoped :: "Upload \<Rightarrow> TransferScope \<Rightarrow> nat list option" where
  "scoped u scope =
     (case scope of
        WholeUpload \<Rightarrow> Some [0..<length (up_items u)]
      | OneItem i \<Rightarrow> if i < length (up_items u) then Some (walk (length (up_items u)) u i) else None)"

end
