(* ===== verification/Transfer_Tasks.thy ===== *)
theory Transfer_Tasks
  imports Transfer_Items
begin

text \<open>
  What runs on once a promise of an upload settles, in \<^verbatim>\<open>packages/hub/src/transfers/transfer-service.ts\<close>: the rest of \<^verbatim>\<open>open\<close>, \<^verbatim>\<open>openDirect\<close>,
  \<^verbatim>\<open>finishFile\<close>, \<^verbatim>\<open>place\<close>, \<^verbatim>\<open>createFolders\<close>, \<^verbatim>\<open>keepBothFolder\<close>, \<^verbatim>\<open>receive\<close> and \<^verbatim>\<open>afterStop\<close> after each \<^verbatim>\<open>await\<close>, up to the next. An answer is what the host
  said; promises settle in any order. Each step gives the upload and whether it schedules the pump.
\<close>

section \<open>Opening a file\<close>

datatype folder_result = FolderCreated | FolderMerged | FolderClash "FileEntry option" | FolderFailed host_error

datatype answer =
    AnswerBackend Backend
  | AnswerSize int
  | AnswerOk
  | AnswerPlacement bool
  | AnswerExists "FileEntry option"
  | AnswerVerified TransferVerification
  | AnswerFolders "folder_result list"
  | AnswerError host_error

definition finishFile :: "nat \<Rightarrow> Upload \<Rightarrow> Upload \<times> bool" where
  "finishFile i u =
     (case it_sink (item u i) of
        None \<Rightarrow> (u, False)
      | Some sink \<Rightarrow>
      if it_state (item u i) \<noteq> Sending then (u, False)
      else let u = settle False (setState i Verifying (upd_item i (\<lambda>x. x\<lparr>it_sink := None\<rparr>) u));
               u = call (CallFinish sink (it_hash (item u i))) (u\<lparr>up_busy := up_busy u + 1\<rparr>)
           in (add_task (TFinish i) u, True))"

text \<open>What \<^verbatim>\<open>admit\<close> does once \<^verbatim>\<open>open\<close> settles.\<close>

definition open_resolved :: "nat \<Rightarrow> Upload \<Rightarrow> Upload \<times> bool" where
  "open_resolved i u =
     (let u = upd_item i (\<lambda>x. x\<lparr>it_opening := False\<rparr>) u
      in if it_state (item u i) = Sending \<and> it_acked (item u i) = it_size (item u i) then finishFile i u else (u, False))"

definition open_rejected :: "host_error \<Rightarrow> nat \<Rightarrow> Upload \<Rightarrow> Upload \<times> bool" where
  "open_rejected e i u =
     (let u = upd_item i (\<lambda>x. x\<lparr>it_opening := False\<rparr>) u
      in (if it_state (item u i) = Sending then fileFailed e i u else u, False))"

definition open_temp :: "nat \<Rightarrow> string \<Rightarrow> bool \<Rightarrow> Upload \<Rightarrow> Upload" where
  "open_temp i target second u =
     (let temp = (case it_temp (item u i) of Some t \<Rightarrow> t | None \<Rightarrow> [])
      in add_task (TOpenTemp i target temp second) (call (CallOpen temp (it_acked (item u i))) u))"

definition direct_name :: "Upload \<Rightarrow> nat \<Rightarrow> nat \<Rightarrow> string" where
  "direct_name u i n =
     (if n = 0 then (case it_finalName (item u i) of Some f \<Rightarrow> f | None \<Rightarrow> it_name (item u i)) else keepBothName (it_name (item u i)) n File)"

definition openDirect :: "nat \<Rightarrow> string \<Rightarrow> nat \<Rightarrow> bool \<Rightarrow> Upload \<Rightarrow> Upload \<times> bool" where
  "openDirect i parent n keepBoth u =
     (if n > KEEP_BOTH_TRIES then open_rejected no_free_name i u
      else (add_task (TOpenDirect i parent n keepBoth) (call (CallOpen (joinHostPath parent (direct_name u i n) (up_style u)) 0) u), False))"

definition with_new_temp :: "nat \<Rightarrow> string \<Rightarrow> string \<Rightarrow> bool \<Rightarrow> Upload \<Rightarrow> Upload \<times> bool" where
  "with_new_temp i target rnd second u =
     (case tempPathFor target (up_style u) rnd of
        None \<Rightarrow> open_rejected root_has_no_temp i u
      | Some temp \<Rightarrow> (open_temp i target second (upd_item i (\<lambda>x. x\<lparr>it_temp := Some temp\<rparr>) u), False))"

definition open_decided :: "nat \<Rightarrow> string \<Rightarrow> string \<Rightarrow> string \<Rightarrow> bool \<Rightarrow> Upload \<Rightarrow> Upload \<times> bool" where
  "open_decided i parent target rnd direct u =
     (let u = upd_item i (\<lambda>x. x\<lparr>it_direct := direct\<rparr>) u;
          u = (if up_verify u then upd_item i (\<lambda>x. x\<lparr>it_hash := Some []\<rparr>) u else u)
      in if direct
         then let keepBoth = (it_resolution (item u i) = Some KeepBoth) in openDirect i parent (if keepBoth then 1 else 0) keepBoth u
         else with_new_temp i target rnd False u)"

definition open_new :: "nat \<Rightarrow> string \<Rightarrow> string \<Rightarrow> string \<Rightarrow> Upload \<Rightarrow> Upload \<times> bool" where
  "open_new i parent target rnd u =
     (if it_temp (item u i) = None
      then (if it_resolution (item u i) \<noteq> Some ReplaceIt then (add_task (TPlacement i parent target) u, False) else open_decided i parent target rnd False u)
      else (open_temp i target False u, False))"

definition open_over :: "nat \<Rightarrow> string \<Rightarrow> string \<Rightarrow> Upload \<Rightarrow> Upload \<times> bool" where
  "open_over i parent target u = (add_task (TOpenRemove i parent target) (remove_temp (it_temp (item u i)) u), False)"

definition open_from :: "Backend \<Rightarrow> nat \<Rightarrow> string \<Rightarrow> Upload \<Rightarrow> Upload \<times> bool" where
  "open_from be i rnd u =
     (let parent = parentPath u i;
          target = joinHostPath parent (case it_finalName (item u i) of Some f \<Rightarrow> f | None \<Rightarrow> it_name (item u i)) (up_style u)
      in if it_temp (item u i) \<noteq> None \<and> it_acked (item u i) > 0 then (add_task (TOpenStat i (be_transport be) parent target) u, False)
         else if it_temp (item u i) \<noteq> None then open_over i parent target u
         else open_new i parent target rnd u)"

definition open_stat :: "nat \<Rightarrow> UploadTransport \<Rightarrow> string \<Rightarrow> string \<Rightarrow> string \<Rightarrow> int \<Rightarrow> Upload \<Rightarrow> Upload \<times> bool" where
  "open_stat i transport parent target rnd sz u =
     (let acked = it_acked (item u i);
          resumable = (if transport = ExecTransport \<and> \<not> it_carried (item u i) then sz = acked else sz \<ge> acked)
      in if resumable \<and> sz > acked then (add_task (TOpenTruncate i parent target) (call (CallTruncate (case it_temp (item u i) of Some t \<Rightarrow> t | None \<Rightarrow> []) acked) u), False)
         else if \<not> resumable then open_over i parent target u
         else open_new i parent target rnd u)"

definition opened :: "nat \<Rightarrow> string \<Rightarrow> Upload \<Rightarrow> Upload \<times> bool" where
  "opened i temp u =
     (if it_state (item u i) \<noteq> Sending then (afterStop i (Some temp) FromOpen (upd_item i (\<lambda>x. x\<lparr>it_sink := None\<rparr>) u), False)
      else open_resolved i (upd_item i (\<lambda>x. x\<lparr>it_sink := Some temp\<rparr>) u))"

definition admit :: "nat \<Rightarrow> Upload \<Rightarrow> Upload" where
  "admit i u =
     settle True (backendOf (ThenOpen i) (upd_item i (\<lambda>x. x\<lparr>it_reason := None, it_code := None, it_opening := True\<rparr>) (setState i Sending u)))"

section \<open>Placing a file\<close>

definition place_done :: "Upload \<Rightarrow> Upload \<times> bool" where
  "place_done u = (settle False (u\<lparr>up_busy := up_busy u - 1\<rparr>), True)"

definition place_failed :: "host_error \<Rightarrow> nat \<Rightarrow> Upload \<Rightarrow> Upload \<times> bool" where
  "place_failed e i u = place_done (fileFailed e i u)"

definition place_keep :: "nat \<Rightarrow> string \<Rightarrow> string \<Rightarrow> nat \<Rightarrow> Upload \<Rightarrow> Upload \<times> bool" where
  "place_keep i parent temp n u =
     (if n > KEEP_BOTH_TRIES then place_failed no_free_name i u
      else (add_task (TPlaceKeep i parent temp n)
              (call (CallPlace i temp (joinHostPath parent (keepBothName (it_name (item u i)) n File) (up_style u)) False) u), False))"

definition place_from :: "nat \<Rightarrow> Upload \<Rightarrow> Upload \<times> bool" where
  "place_from i u =
     (let parent = parentPath u i;
          temp = (case it_temp (item u i) of Some t \<Rightarrow> t | None \<Rightarrow> []);
          target = joinHostPath parent (it_name (item u i)) (up_style u)
      in case it_resolution (item u i) of
           Some ReplaceIt \<Rightarrow> (add_task (TPlaceReplace i target) (call (CallPlace i temp target True) u), False)
         | Some KeepBoth \<Rightarrow> place_keep i parent temp 1 u
         | _ \<Rightarrow> (add_task (TPlacePlain i target) (call (CallPlace i temp target False) u), False))"

definition finished :: "nat \<Rightarrow> TransferVerification \<Rightarrow> Upload \<Rightarrow> Upload \<times> bool" where
  "finished i v u =
     (let v = (if it_carried (item u i) \<and> up_verify u \<and> map_option be_transport (up_backend u) = Some ExecTransport \<and> v = BySize then BySizeResumed else v);
          u = upd_item i (\<lambda>x. x\<lparr>it_verification := Some v, it_tempWhole := True, it_hash := None\<rparr>) (u\<lparr>up_busy := up_busy u - 1\<rparr>)
      in if it_direct (item u i)
         then (filePlaced i (case it_temp (item u i) of Some t \<Rightarrow> t | None \<Rightarrow> []) (if it_finalName (item u i) \<noteq> None then OutKeptBoth else OutPlaced) u, False)
         else (place i u, False))"

section \<open>Creating folders\<close>

definition folders_end :: "Upload \<Rightarrow> Upload \<times> bool" where
  "folders_end u = (settle False (u\<lparr>up_creatingFolders := False, up_busy := up_busy u - 1\<rparr>), True)"

definition folders_next :: "Upload \<Rightarrow> Upload \<times> bool" where
  "folders_next u =
     (if up_folderQueue u = [] then folders_end u
      else let batch = filter (\<lambda>i. it_state (item u i) = Queued) (take FOLDER_BATCH (up_folderQueue u));
               plain = filter (\<lambda>i. it_resolution (item u i) \<noteq> Some KeepBoth) batch
           in (backendOf (ThenFolders batch plain) (u\<lparr>up_folderQueue := drop FOLDER_BATCH (up_folderQueue u)\<rparr>), False))"

definition createFolders :: "Upload \<Rightarrow> Upload \<times> bool" where
  "createFolders u = folders_next (u\<lparr>up_creatingFolders := True, up_busy := up_busy u + 1\<rparr>)"

definition folders_failed :: "host_error \<Rightarrow> Upload \<Rightarrow> Upload \<times> bool" where
  "folders_failed e u =
     (let ids = up_folderQueue u;
          u = foldl (\<lambda>u i. if it_state (item u i) \<noteq> Queued then u
                     else if er_interruption e then interrupt (er_message e) i u else fail_item (er_code e) (er_message e) i u) (u\<lparr>up_folderQueue := []\<rparr>) ids
      in folders_end (if er_interruption e then interruptAll (er_message e) u else u))"

definition folders_from :: "nat list \<Rightarrow> nat list \<Rightarrow> Upload \<Rightarrow> Upload \<times> bool" where
  "folders_from batch plain u =
     (let paths = map (\<lambda>i. (i, joinHostPath (parentPath u i) (it_name (item u i)) (up_style u))) plain
      in (add_task (TMkdirs batch paths) (call (CallMkdirs (map snd paths)) u), False))"

definition folder_made :: "Upload \<Rightarrow> (nat \<times> string) \<times> folder_result \<Rightarrow> Upload" where
  "folder_made u r =
     (let ((i, path), result) = r
      in if it_state (item u i) \<noteq> Queued then u
         else case result of
                FolderCreated \<Rightarrow> folderPlaced i path OutCreated u
              | FolderMerged \<Rightarrow> folderPlaced i path OutMerged u
              | FolderClash existing \<Rightarrow> folderClash i existing u
              | FolderFailed e \<Rightarrow> fail_item (er_code e) (er_message e) i u)"

definition keep_folder_path :: "Upload \<Rightarrow> nat \<Rightarrow> nat \<Rightarrow> string" where
  "keep_folder_path u i n = joinHostPath (parentPath u i) (keepBothName (it_name (item u i)) n Dir) (up_style u)"

fun keep_folders :: "nat list \<Rightarrow> Upload \<Rightarrow> Upload \<times> bool" where
  "keep_folders [] u = folders_next u"
| "keep_folders (i # rest) u =
     (if it_state (item u i) = Queued then (add_task (TKeepFolder i 1 rest) (call (CallMkdirs [keep_folder_path u i 1]) u), False) else keep_folders rest u)"

definition folders_made :: "nat list \<Rightarrow> (nat \<times> string) list \<Rightarrow> folder_result list \<Rightarrow> Upload \<Rightarrow> Upload \<times> bool" where
  "folders_made batch paths results u =
     (let u = foldl folder_made u (zip paths results)
      in keep_folders (filter (\<lambda>i. it_resolution (item u i) = Some KeepBoth) batch) u)"

definition folder_kept :: "nat \<Rightarrow> nat \<Rightarrow> nat list \<Rightarrow> folder_result list \<Rightarrow> Upload \<Rightarrow> Upload \<times> bool" where
  "folder_kept i n rest results u =
     (case results of
        FolderCreated # _ \<Rightarrow>
          keep_folders rest (folderPlaced i (keep_folder_path u i n) OutKeptBoth
            (upd_item i (\<lambda>x. x\<lparr>it_finalName := Some (keepBothName (it_name x) n Dir)\<rparr>) u))
      | FolderFailed e # _ \<Rightarrow> keep_folders rest (fail_item (er_code e) (er_message e) i u)
      | _ \<Rightarrow> if n < KEEP_BOTH_TRIES then (add_task (TKeepFolder i (n + 1) rest) (call (CallMkdirs [keep_folder_path u i (n + 1)]) u), False)
             else keep_folders rest (fail_item ''NO_FREE_NAME'' ''No free name was found for it'' i u))"

section \<open>A promise settles\<close>

definition go_on :: "after_backend \<Rightarrow> Backend \<Rightarrow> string \<Rightarrow> Upload \<Rightarrow> Upload \<times> bool" where
  "go_on next be rnd u =
     (case next of ThenOpen i \<Rightarrow> open_from be i rnd u | ThenPlace i \<Rightarrow> place_from i u | ThenFolders batch plain \<Rightarrow> folders_from batch plain u)"

definition go_wrong :: "after_backend \<Rightarrow> host_error \<Rightarrow> Upload \<Rightarrow> Upload \<times> bool" where
  "go_wrong next e u =
     (case next of ThenOpen i \<Rightarrow> open_rejected e i u | ThenPlace i \<Rightarrow> place_failed e i u | ThenFolders _ _ \<Rightarrow> folders_failed e u)"

definition got_backend :: "Backend option \<Rightarrow> after_backend \<Rightarrow> string \<Rightarrow> answer \<Rightarrow> Upload \<Rightarrow> Upload \<times> bool" where
  "got_backend have next rnd a u =
     (case have of
        Some be \<Rightarrow> go_on next be rnd u
      | None \<Rightarrow>
          (case a of
             AnswerBackend be \<Rightarrow>
               (case up_backend u of Some mine \<Rightarrow> go_on next mine rnd (call CallRelease u) | None \<Rightarrow> go_on next be rnd (u\<lparr>up_backend := Some be\<rparr>))
           | AnswerError e \<Rightarrow> go_wrong next e u
           | _ \<Rightarrow> (u, False)))"

definition answer_chunk :: "nat \<Rightarrow> chunk_answer \<Rightarrow> Upload \<Rightarrow> Upload" where
  "answer_chunk i a u = u\<lparr>up_answers := up_answers u @ [(i, a)]\<rparr>"

definition written :: "nat \<Rightarrow> string \<Rightarrow> 8 word list \<Rightarrow> answer \<Rightarrow> Upload \<Rightarrow> Upload \<times> bool" where
  "written i sink data a u =
     (case a of
        AnswerError e \<Rightarrow>
          (answer_chunk i (ChunkRefused (if er_interruption e then 409 else 502) (er_code e))
             (upd_item i (\<lambda>x. x\<lparr>it_writing := False\<rparr>) (if it_state (item u i) = Sending then fileFailed e i u else u)), False)
      | _ \<Rightarrow>
          let u = upd_item i (\<lambda>x. x\<lparr>it_writing := False\<rparr>) u
          in if it_state (item u i) \<noteq> Sending then (afterStop i (Some sink) FromReceive u, False)
             else let u = addAcked i (int (length data)) (upd_item i (\<lambda>x. x\<lparr>it_hash := map_option (\<lambda>h. h @ data) (it_hash x)\<rparr>) u);
                      (u, pump) = (if it_acked (item u i) = it_size (item u i) then finishFile i u else (u, False));
                      u = settle False u
                  in (answer_chunk i (ChunkAcked (it_acked (item u i))) u, pump))"

definition not_sending :: chunk_answer where
  "not_sending = ChunkRefused 409 ''ITEM_NOT_SENDING''"

definition chunk_problem :: "Item \<Rightarrow> int \<Rightarrow> 8 word list \<Rightarrow> chunk_answer option" where
  "chunk_problem x offset data =
     (if it_state x \<noteq> Sending \<or> it_sink x = None then Some not_sending
      else if it_writing x then Some (ChunkRefused 409 ''ITEM_BUSY'')
      else if offset \<noteq> it_acked x then Some (ChunkRefused 409 ''OFFSET_MISMATCH'')
      else if data = [] \<or> offset + int (length data) > it_size x then Some (ChunkRefused 400 ''PAST_END'')
      else None)"

definition write_chunk :: "nat \<Rightarrow> int \<Rightarrow> 8 word list \<Rightarrow> Upload \<Rightarrow> Upload" where
  "write_chunk i offset data u =
     (case chunk_problem (item u i) offset data of
        Some refusal \<Rightarrow> answer_chunk i refusal u
      | None \<Rightarrow>
          let sink = the (it_sink (item u i))
          in add_task (TWrite i sink data) (call (CallWrite sink offset data) (upd_item i (\<lambda>x. x\<lparr>it_writing := True\<rparr>) u)))"

fun run_task :: "task \<Rightarrow> string \<Rightarrow> answer \<Rightarrow> Upload \<Rightarrow> Upload \<times> bool" where
  "run_task (TBackend have next) rnd a u = got_backend have next rnd a u"
| "run_task (TOpenStat i transport parent target) rnd a u =
     open_stat i transport parent target rnd (case a of AnswerSize sz \<Rightarrow> sz | _ \<Rightarrow> -1) u"
| "run_task (TOpenTruncate i parent target) rnd a u =
     (case a of
        AnswerError e \<Rightarrow> if er_interruption e then open_rejected e i u else open_over i parent target u
      | _ \<Rightarrow> open_new i parent target rnd u)"
| "run_task (TOpenRemove i parent target) rnd a u = open_new i parent target rnd (restartFile i u)"
| "run_task (TPlacement i parent target) rnd a u =
     (case a of
        AnswerError e \<Rightarrow> open_rejected e i u
      | AnswerPlacement direct \<Rightarrow> open_decided i parent target rnd direct u
      | _ \<Rightarrow> open_decided i parent target rnd False u)"
| "run_task (TOpenTemp i target temp second) rnd a u =
     (case a of
        AnswerError e \<Rightarrow> open_rejected e i u
      | AnswerExists _ \<Rightarrow> if second \<or> it_acked (item u i) > 0 then open_rejected name_taken i u else with_new_temp i target rnd True u
      | _ \<Rightarrow> opened i temp u)"
| "run_task (TOpenDirect i parent n keepBoth) rnd a u =
     (case a of
        AnswerError e \<Rightarrow> open_rejected e i u
      | AnswerExists existing \<Rightarrow> if keepBoth then openDirect i parent (n + 1) keepBoth u else open_resolved i (conflictFound i existing u)
      | _ \<Rightarrow> let path = joinHostPath parent (direct_name u i n) (up_style u)
             in open_resolved i (upd_item i (\<lambda>x. x\<lparr>it_sink := Some path, it_temp := Some path,
               it_finalName := (if n > 0 then Some (direct_name u i n) else it_finalName x)\<rparr>) u))"
| "run_task (TAfterStop i after) rnd a u =
     (case after of
        FromOpen \<Rightarrow> open_resolved i (stopped i u)
      | FromReceive \<Rightarrow> (answer_chunk i not_sending (stopped i u), False)
      | FromCancel \<Rightarrow> (stopped i u, False))"
| "run_task (TReceive i offset data) rnd a u = (write_chunk i offset data u, False)"
| "run_task (TWrite i sink data) rnd a u = written i sink data a u"
| "run_task (TFinish i) rnd a u =
     (case a of
        AnswerVerified v \<Rightarrow> finished i v u
      | AnswerError e \<Rightarrow> (fileFailed e i (u\<lparr>up_busy := up_busy u - 1\<rparr>), False)
      | _ \<Rightarrow> finished i BySize u)"
| "run_task (TPlaceReplace i target) rnd a u =
     (case a of
        AnswerError e \<Rightarrow> place_failed e i u
      | _ \<Rightarrow> place_done (filePlaced i target (if it_existing (item u i) \<noteq> None \<or> it_late (item u i) then OutReplaced else OutPlaced) u))"
| "run_task (TPlaceKeep i parent temp n) rnd a u =
     (case a of
        AnswerError e \<Rightarrow> place_failed e i u
      | AnswerExists _ \<Rightarrow> place_keep i parent temp (n + 1) u
      | _ \<Rightarrow> let name = keepBothName (it_name (item u i)) n File
             in place_done (filePlaced i (joinHostPath parent name (up_style u)) OutKeptBoth (upd_item i (\<lambda>x. x\<lparr>it_finalName := Some name\<rparr>) u)))"
| "run_task (TPlacePlain i target) rnd a u =
     (case a of
        AnswerError e \<Rightarrow> place_failed e i u
      | AnswerExists existing \<Rightarrow> place_done (conflictFound i existing u)
      | _ \<Rightarrow> place_done (filePlaced i target OutPlaced u))"
| "run_task (TMkdirs batch paths) rnd a u =
     (case a of AnswerError e \<Rightarrow> folders_failed e u | AnswerFolders results \<Rightarrow> folders_made batch paths results u | _ \<Rightarrow> folders_made batch paths [] u)"
| "run_task (TKeepFolder i n rest) rnd a u =
     (case a of AnswerError e \<Rightarrow> folders_failed e u | AnswerFolders results \<Rightarrow> folder_kept i n rest results u | _ \<Rightarrow> folder_kept i n rest [] u)"

text \<open>The answers a task may get: a promise settles once, and a chunk waits for its file to be open.\<close>

fun expects :: "Upload \<Rightarrow> task \<Rightarrow> answer \<Rightarrow> bool" where
  "expects u (TBackend have next) a = (case a of AnswerBackend _ \<Rightarrow> have = None | AnswerError _ \<Rightarrow> have = None | AnswerOk \<Rightarrow> have \<noteq> None | _ \<Rightarrow> False)"
| "expects u (TOpenStat _ _ _ _) a = (case a of AnswerSize n \<Rightarrow> n \<ge> -1 | _ \<Rightarrow> False)"
| "expects u (TOpenTruncate _ _ _) a = (case a of AnswerOk \<Rightarrow> True | AnswerError _ \<Rightarrow> True | _ \<Rightarrow> False)"
| "expects u (TOpenRemove _ _ _) a = (case a of AnswerOk \<Rightarrow> True | _ \<Rightarrow> False)"
| "expects u (TPlacement _ _ _) a = (case a of AnswerPlacement _ \<Rightarrow> True | AnswerError _ \<Rightarrow> True | _ \<Rightarrow> False)"
| "expects u (TOpenTemp _ _ _ _) a = (case a of AnswerOk \<Rightarrow> True | AnswerExists _ \<Rightarrow> True | AnswerError _ \<Rightarrow> True | _ \<Rightarrow> False)"
| "expects u (TOpenDirect _ _ _ _) a = (case a of AnswerOk \<Rightarrow> True | AnswerExists _ \<Rightarrow> True | AnswerError _ \<Rightarrow> True | _ \<Rightarrow> False)"
| "expects u (TAfterStop _ _) a = (case a of AnswerOk \<Rightarrow> True | _ \<Rightarrow> False)"
| "expects u (TReceive i _ _) a = (case a of AnswerOk \<Rightarrow> \<not> it_opening (item u i) | _ \<Rightarrow> False)"
| "expects u (TWrite _ _ _) a = (case a of AnswerOk \<Rightarrow> True | AnswerError _ \<Rightarrow> True | _ \<Rightarrow> False)"
| "expects u (TFinish _) a = (case a of AnswerVerified _ \<Rightarrow> True | AnswerError _ \<Rightarrow> True | _ \<Rightarrow> False)"
| "expects u (TPlaceReplace _ _) a = (case a of AnswerOk \<Rightarrow> True | AnswerExists _ \<Rightarrow> True | AnswerError _ \<Rightarrow> True | _ \<Rightarrow> False)"
| "expects u (TPlaceKeep _ _ _ _) a = (case a of AnswerOk \<Rightarrow> True | AnswerExists _ \<Rightarrow> True | AnswerError _ \<Rightarrow> True | _ \<Rightarrow> False)"
| "expects u (TPlacePlain _ _) a = (case a of AnswerOk \<Rightarrow> True | AnswerExists _ \<Rightarrow> True | AnswerError _ \<Rightarrow> True | _ \<Rightarrow> False)"
| "expects u (TMkdirs _ _) a = (case a of AnswerFolders _ \<Rightarrow> True | AnswerError _ \<Rightarrow> True | _ \<Rightarrow> False)"
| "expects u (TKeepFolder _ _ _) a = (case a of AnswerFolders _ \<Rightarrow> True | AnswerError _ \<Rightarrow> True | _ \<Rightarrow> False)"

end
