(* ===== verification/Transfer_Service.thy ===== *)
theory Transfer_Service
  imports Transfer_Tasks
begin

text \<open>
  The transfer service of \<^verbatim>\<open>packages/hub/src/transfers/transfer-service.ts\<close> as a machine over its uploads. An event is a request of a window, a timer, a
  promise that settles, or a change around the service: a window that leaves, a write lock that changes hands, a connection that is lost or closed on purpose. What the
  service asks of the rest of the hub (\<^verbatim>\<open>TransferDeps\<close>) comes with the event. An upload being prepared by \<^verbatim>\<open>start\<close> is a pending start, at the
  await it has reached. A message is said to the upload's audience: every client attached to its terminal, and its window.
\<close>

section \<open>State\<close>

record TransferDeps =
  td_mayWrite :: "string \<Rightarrow> string \<Rightarrow> bool"
  td_channelEnded :: "string \<Rightarrow> bool"
  td_isConnected :: "string \<Rightarrow> bool"
  td_channelHost :: "string \<Rightarrow> (string \<times> string) option"
  td_verifyFor :: "string \<Rightarrow> string \<Rightarrow> bool"
  td_maxConcurrent :: nat
  td_now :: int
  td_generateId :: string
  td_random :: string

record TransferRequester =
  rq_clientId :: string
  rq_tokenId :: "string option"

record TransferStartMessage =
  sm_requestId :: "string option"
  sm_channelId :: js_value
  sm_dir :: "string option"
  sm_onConflict :: "TransferOnConflict option"
  sm_items :: "TransferStartItem list option"

record TransferAccepted =
  ta_requestId :: string
  ta_transferId :: string
  ta_joined :: bool
  ta_items :: "(nat \<times> TransferItemState \<times> FileEntry option \<times> bool) list"
  ta_folderConflicts :: "(nat \<times> nat \<times> nat) list"

datatype reply =
    StartRefused string string string "TransferNameProblem list"
  | ControlRefused string string
  | StartAccepted TransferAccepted
  | ReceiveRefused string nat nat string

text \<open>Where a start waits: connecting, reaching the host, looking at its folder, at its free space, at what is there, and removing what a dead hub left there.\<close>

datatype start_phase =
    Connecting
  | Reaching
  | Looking Backend string
  | Measuring Backend string built_tree
  | Listing string Upload
  | Sweeping string Upload Backend "(string \<times> FileEntry list) list"

record pending_start =
  ps_requester :: TransferRequester
  ps_requestId :: string
  ps_channelId :: string
  ps_dir :: string
  ps_onConflict :: TransferOnConflict
  ps_items :: "TransferStartItem list option"
  ps_hostId :: string
  ps_hostType :: string
  ps_phase :: start_phase

datatype start_answer =
    StartConnected bool
  | StartBackend Backend
  | StartEntry FileEntry
  | StartSpace "int option"
  | StartListed "string \<Rightarrow> FileEntry list"
  | StartSwept
  | StartError "string option" string

record TransferService =
  sv_uploads :: "(string, Upload) jmap"
  sv_starting :: "(string, nat) jmap"
  sv_activeHosts :: "string jset"
  sv_pumpScheduled :: bool
  sv_starts :: "(nat, pending_start) jmap"
  sv_retries :: "(nat, TransferRequester \<times> string \<times> nat list) jmap"
  sv_next :: nat
  sv_replies :: "(string \<times> reply) list"
  sv_hostIdle :: "string list"
  sv_hostCalls :: "(string \<times> host_call) list"

definition initial_service :: TransferService where
  "initial_service = \<lparr>sv_uploads = [], sv_starting = [], sv_activeHosts = [], sv_pumpScheduled = False, sv_starts = [], sv_retries = [],
     sv_next = 0, sv_replies = [], sv_hostIdle = [], sv_hostCalls = []\<rparr>"

definition reply_to :: "string \<Rightarrow> reply \<Rightarrow> TransferService \<Rightarrow> TransferService" where
  "reply_to client r s = s\<lparr>sv_replies := sv_replies s @ [(client, r)]\<rparr>"

definition schedulePump :: "TransferService \<Rightarrow> TransferService" where
  "schedulePump s = s\<lparr>sv_pumpScheduled := True\<rparr>"

definition put_upload :: "string \<Rightarrow> Upload \<Rightarrow> TransferService \<Rightarrow> TransferService" where
  "put_upload tid u s = s\<lparr>sv_uploads := map_set tid u (sv_uploads s)\<rparr>"

definition each_upload :: "(Upload \<Rightarrow> Upload) \<Rightarrow> TransferService \<Rightarrow> TransferService" where
  "each_upload f s = s\<lparr>sv_uploads := map (\<lambda>(tid, u). (tid, f u)) (sv_uploads s)\<rparr>"

section \<open>Holding a host's connection\<close>

definition activeOn :: "string \<Rightarrow> TransferService \<Rightarrow> nat" where
  "activeOn hostId s =
     (case map_get (sv_starting s) hostId of Some n \<Rightarrow> n | None \<Rightarrow> 0)
     + length (filter (\<lambda>(tid, u). up_hostId u = hostId \<and> isActive u) (sv_uploads s))"

definition noteHost :: "string \<Rightarrow> string \<Rightarrow> TransferService \<Rightarrow> TransferService" where
  "noteHost hostId hostType s =
     (if hostType = ''local'' then s
      else if activeOn hostId s > 0 then s\<lparr>sv_activeHosts := set_add hostId (sv_activeHosts s)\<rparr>
      else if hostId \<in> set (sv_activeHosts s)
      then s\<lparr>sv_activeHosts := set_delete hostId (sv_activeHosts s), sv_hostIdle := sv_hostIdle s @ [hostId]\<rparr>
      else s)"

definition hold :: "string \<Rightarrow> TransferService \<Rightarrow> TransferService" where
  "hold hostId s = s\<lparr>sv_starting := map_set hostId ((case map_get (sv_starting s) hostId of Some n \<Rightarrow> n | None \<Rightarrow> 0) + 1) (sv_starting s)\<rparr>"

definition letGo :: "string \<Rightarrow> string \<Rightarrow> TransferService \<Rightarrow> TransferService" where
  "letGo hostId hostType s =
     (let left = (case map_get (sv_starting s) hostId of Some n \<Rightarrow> n | None \<Rightarrow> 1) - 1
      in noteHost hostId hostType
           (s\<lparr>sv_starting := (if left > 0 then map_set hostId left (sv_starting s) else map_delete hostId (sv_starting s))\<rparr>))"

definition interrupt_closed :: "Upload \<Rightarrow> Upload" where
  "interrupt_closed u =
     settle False (releaseBackend
       (foldl (\<lambda>u i. if it_state (item u i) \<in> {Queued, Sending, Verifying} then interrupt ''The connection to the host was closed'' i u else u) u
          [0..<length (up_items u)]))"

definition interruptOn :: "string \<Rightarrow> TransferService \<Rightarrow> TransferService" where
  "interruptOn hostId s = each_upload (\<lambda>u. if up_hostId u = hostId then interrupt_closed u else u) s"

section \<open>Making an upload\<close>

definition new_item :: "TreeItem \<Rightarrow> Item" where
  "new_item t =
     \<lparr>it_id = ti_id t, it_relPath = ti_relPath t, it_name = ti_name t, it_kind = ti_kind t, it_size = ti_size t, it_mtime = ti_mtime t,
      it_parent = ti_parent t, it_children = ti_children t, it_state = Queued, it_existing = None, it_typeClash = False, it_late = False,
      it_resolution = None, it_finalName = None, it_path = None, it_outcome = None, it_verification = None, it_acked = 0, it_temp = None,
      it_tempWhole = False, it_direct = False, it_hash = None, it_sink = None, it_opening = False, it_writing = False, it_reason = None,
      it_code = None, it_carried = False\<rparr>"

definition bump :: "TransferItemState \<Rightarrow> (TransferItemState, nat) jmap \<Rightarrow> (TransferItemState, nat) jmap" where
  "bump state m = map_set state ((case map_get m state of Some n \<Rightarrow> n | None \<Rightarrow> 0) + 1) m"

definition count_folder :: "Upload \<Rightarrow> nat \<Rightarrow> Upload" where
  "count_folder u i =
     (if it_kind (item u i) \<noteq> Dir then u
      else u\<lparr>up_folderTotals := map_set i emptyTotals (up_folderTotals u), up_folderStates := bump (it_state (item u i)) (up_folderStates u)\<rparr>)"

definition count_file :: "Upload \<Rightarrow> nat \<Rightarrow> Upload" where
  "count_file u i =
     (let x = item u i
      in if it_kind x \<noteq> File then u
         else upd_totals i (\<lambda>t. t\<lparr>tt_files := tt_files t + 1, tt_bytes := tt_bytes t + it_size x, tt_acked := tt_acked t + it_acked x,
                tt_states := bump (it_state x) (tt_states t)\<rparr>) u)"

definition count_items :: "Upload \<Rightarrow> Upload" where
  "count_items u = (let ids = [0..<length (up_items u)] in foldl count_file (foldl count_folder u ids) ids)"

definition create :: "TransferDeps \<Rightarrow> pending_start \<Rightarrow> string \<Rightarrow> Backend \<Rightarrow> built_tree \<Rightarrow> Upload" where
  "create deps p dir backend tree =
     count_items
       \<lparr>up_channelId = ps_channelId p, up_hostId = ps_hostId p, up_hostType = ps_hostType p, up_dir = dir, up_style = be_style backend,
        up_onConflict = ps_onConflict p, up_verify = (be_transport backend = ExecTransport \<and> td_verifyFor deps (ps_hostId p) (ps_channelId p)),
        up_tokenId = rq_tokenId (ps_requester p), up_signature = bt_signature tree, up_items = map new_item (bt_items tree), up_order = bt_order tree,
        up_folderTotals = [], up_totals = emptyTotals, up_folderStates = [], up_source = Some (rq_clientId (ps_requester p)), up_backend = Some backend,
        up_queue = [], up_folderQueue = [], up_creatingFolders = False, up_waiting = [], up_dirtyItems = [], up_dirtyFolders = [], up_conflicts = [],
        up_flushTimer = False, up_flushSoon = False, up_doneSaid = False, up_forgetTimer = False, up_busy = 0, up_reason = None,
        up_linkDropped = False, up_stale = False, up_said = None, up_tasks = [], up_calls = [], up_sent = [], up_answers = []\<rparr>"

text \<open>
  What already has each item's name, a level of the destination at a time. A folder met is merged into and looked into in turn.
\<close>

definition name_key :: "PathStyle \<Rightarrow> string \<Rightarrow> string" where
  "name_key style name = (if style = Windows then upper name else name)"

definition entry_named :: "PathStyle \<Rightarrow> FileEntry list \<Rightarrow> string \<Rightarrow> FileEntry option" where
  "entry_named style entries name = find (\<lambda>e. name_key style (fe_name e) = name_key style name) (rev entries)"

definition look_at :: "string \<Rightarrow> FileEntry list \<Rightarrow> (string \<times> nat list) list \<times> Upload \<Rightarrow> nat \<Rightarrow> (string \<times> nat list) list \<times> Upload" where
  "look_at path entries st i =
     (let (next, u) = st
      in case entry_named (up_style u) entries (it_name (item u i)) of
           None \<Rightarrow> (next, u)
         | Some entry \<Rightarrow>
             if it_kind (item u i) = Dir \<and> isFolderLike entry
             then (let u = upd_item i (\<lambda>x. x\<lparr>it_existing := None\<rparr>) u; children = filter (\<lambda>j. j < length (up_items u)) (it_children (item u i))
                   in (if children = [] then next else next @ [(joinHostPath path (fe_name entry) (up_style u), children)], u))
             else (next, upd_item i (\<lambda>x. x\<lparr>it_existing := Some entry, it_typeClash := it_kind x = Dir \<or> isFolderLike entry\<rparr>) u))"

definition look_level :: "(string \<Rightarrow> FileEntry list) \<Rightarrow> (string \<times> nat list) list \<Rightarrow> Upload \<Rightarrow> (string \<times> nat list) list \<times> Upload" where
  "look_level listing level u = foldl (\<lambda>st (path, ids). foldl (look_at path (listing path)) st ids) ([], u) level"

fun look_levels :: "nat \<Rightarrow> (string \<Rightarrow> FileEntry list) \<Rightarrow> (string \<times> nat list) list \<Rightarrow> Upload \<Rightarrow> (string \<times> FileEntry list) list \<times> Upload" where
  "look_levels 0 listing level u = ([], u)"
| "look_levels (Suc n) listing level u =
     (if level = [] then ([], u)
      else let (next, u) = look_level listing level u;
               (seen, u) = look_levels n listing next u
           in (map (\<lambda>(path, ids). (path, listing path)) level @ seen, u))"

definition lookAtDestination :: "(string \<Rightarrow> FileEntry list) \<Rightarrow> Upload \<Rightarrow> (string \<times> FileEntry list) list \<times> Upload" where
  "lookAtDestination listing u =
     look_levels (Suc (length (up_items u))) listing [(up_dir u, filter (\<lambda>i. it_parent (item u i) = None) [0..<length (up_items u)])] u"

definition policy_item :: "Upload \<Rightarrow> nat \<Rightarrow> Upload" where
  "policy_item u i =
     (let x = item u i
      in if it_existing x = None \<or> it_state x \<noteq> Queued then u
         else case up_onConflict u of
                OnSkip \<Rightarrow> skip_item i u
              | OnKeepBoth \<Rightarrow> upd_item i (\<lambda>x. x\<lparr>it_resolution := Some KeepBoth\<rparr>) u
              | OnReplace \<Rightarrow> if it_typeClash x then setState i InConflict u else upd_item i (\<lambda>x. x\<lparr>it_resolution := Some ReplaceIt\<rparr>) u
              | OnAsk \<Rightarrow> setState i InConflict u)"

definition applyPolicy :: "Upload \<Rightarrow> Upload" where
  "applyPolicy u = foldl policy_item u (up_order u)"

definition accepted_item :: "Upload \<Rightarrow> nat \<Rightarrow> nat \<times> TransferItemState \<times> FileEntry option \<times> bool" where
  "accepted_item u i =
     (let x = item u i
      in (it_id x, it_state x, if it_state x = InConflict then it_existing x else None, it_state x = InConflict \<and> it_typeClash x))"

definition conflicting_in :: "Upload \<Rightarrow> (nat, nat) jmap" where
  "conflicting_in u =
     foldl (\<lambda>m i. if it_kind (item u i) \<noteq> File \<or> it_existing (item u i) = None then m
                  else foldl (\<lambda>m p. map_set p ((case map_get m p of Some n \<Rightarrow> n | None \<Rightarrow> 0) + 1) m) m (above (up_items u) i)) [] [0..<length (up_items u)]"

definition accepted :: "string \<Rightarrow> Upload \<Rightarrow> string \<Rightarrow> bool \<Rightarrow> nat list option \<Rightarrow> TransferAccepted" where
  "accepted tid u requestId joined order =
     \<lparr>ta_requestId = requestId, ta_transferId = tid, ta_joined = joined,
      ta_items = map (accepted_item u) (case order of Some o' \<Rightarrow> o' | None \<Rightarrow> map it_id (up_items u)),
      ta_folderConflicts = map (\<lambda>(i, n). (i, n, case map_get (up_folderTotals u) i of Some t \<Rightarrow> tt_files t | None \<Rightarrow> 0)) (conflicting_in u)\<rparr>"

definition joinable :: "string \<Rightarrow> string \<Rightarrow> string \<Rightarrow> TransferService \<Rightarrow> (string \<times> Upload) option" where
  "joinable hostId dir signature s =
     find (\<lambda>(tid, u). up_source u = None \<and> up_hostId u = hostId \<and> up_dir u = dir \<and> up_signature u = signature
             \<and> list_ex (\<lambda>x. it_kind x = File \<and> it_state x \<noteq> Placed \<and> it_state x \<noteq> Skipped) (up_items u)) (sv_uploads s)"

definition stopped_items :: "Upload \<Rightarrow> nat list \<Rightarrow> nat list" where
  "stopped_items u ids = filter (\<lambda>i. stopped_state (it_state (item u i))) ids"

definition join_order :: "Upload \<Rightarrow> TransferStartItem list \<Rightarrow> nat list" where
  "join_order u raw =
     map (\<lambda>r. case find (\<lambda>x. it_relPath x = item_path r) (rev (up_items u)) of Some x \<Rightarrow> it_id x | None \<Rightarrow> 0) raw"

definition join_upload :: "string \<Rightarrow> Upload \<Rightarrow> pending_start \<Rightarrow> TransferService \<Rightarrow> TransferService" where
  "join_upload tid u p s =
     (let u = u\<lparr>up_source := Some (rq_clientId (ps_requester p)), up_reason := None, up_linkDropped := False\<rparr>;
          u = requeueAll (stopped_items u (up_order u)) u;
          s = reply_to (rq_clientId (ps_requester p))
                (StartAccepted (accepted tid u (ps_requestId p) True (Some (join_order u (case ps_items p of Some raw \<Rightarrow> raw | None \<Rightarrow> []))))) s
      in schedulePump (put_upload tid (settle False u) s))"

section \<open>The sweep\<close>

definition SWEEP_MIN_AGE_MS :: int where
  "SWEEP_MIN_AGE_MS = 60 * 60000"

definition hex_char :: "char \<Rightarrow> bool" where
  "hex_char c = (is_digit c \<or> char_between 97 102 c)"

definition TEMP_NAME :: "string \<Rightarrow> bool" where
  "TEMP_NAME name =
     (let rest = length name - TEMP_TAIL_LENGTH; tail = drop rest name; stem = take rest name
      in length name \<ge> TEMP_TAIL_LENGTH + 2 \<and> hd stem = CHR ''.'' \<and> list_all (\<lambda>c. c \<noteq> CHR 0x0A \<and> c \<noteq> CHR 0x0D) stem
         \<and> hd tail = CHR ''.'' \<and> list_all hex_char (take 16 (drop 1 tail)) \<and> drop 17 tail = ''.partial'')"

definition known_temps :: "TransferService \<Rightarrow> string list" where
  "known_temps s = concat (map (\<lambda>(tid, u). List.map_filter it_temp (up_items u)) (sv_uploads s))"

definition stale_temps :: "int \<Rightarrow> Backend \<Rightarrow> string \<Rightarrow> FileEntry list \<Rightarrow> TransferService \<Rightarrow> string list" where
  "stale_temps now backend dir entries s =
     (let known = map (name_key (be_style backend)) (known_temps s);
          old = filter (\<lambda>e. fe_kind e = KFile \<and> TEMP_NAME (fe_name e) \<and> (case fe_mtime e of None \<Rightarrow> False | Some t \<Rightarrow> t < now - SWEEP_MIN_AGE_MS)) entries
      in filter (\<lambda>path. name_key (be_style backend) path \<notin> set known) (map (\<lambda>e. joinHostPath dir (fe_name e) (be_style backend)) old))"

definition sweep :: "int \<Rightarrow> string \<Rightarrow> Backend \<Rightarrow> string \<Rightarrow> FileEntry list \<Rightarrow> TransferService \<Rightarrow> TransferService" where
  "sweep now hostId backend dir entries s =
     s\<lparr>sv_hostCalls := sv_hostCalls s @ map (\<lambda>path. (hostId, CallRemove path)) (stale_temps now backend dir entries s)\<rparr>"

section \<open>Starting\<close>

definition end_start :: "nat \<Rightarrow> pending_start \<Rightarrow> bool \<Rightarrow> TransferService \<Rightarrow> TransferService" where
  "end_start k p release s =
     (let s = (if release then s\<lparr>sv_hostCalls := sv_hostCalls s @ [(ps_hostId p, CallRelease)]\<rparr> else s)
      in letGo (ps_hostId p) (ps_hostType p) (s\<lparr>sv_starts := map_delete k (sv_starts s)\<rparr>))"

definition refuse_start :: "pending_start \<Rightarrow> string \<Rightarrow> string \<Rightarrow> TransferNameProblem list \<Rightarrow> TransferService \<Rightarrow> TransferService" where
  "refuse_start p code text names s = reply_to (rq_clientId (ps_requester p)) (StartRefused (ps_requestId p) code text names) s"

definition quoted :: "string \<Rightarrow> string" where
  "quoted s = [CHR 0x22] @ s @ [CHR 0x22]"

definition start :: "TransferDeps \<Rightarrow> TransferRequester \<Rightarrow> TransferStartMessage \<Rightarrow> TransferService \<Rightarrow> TransferService" where
  "start deps requester msg s =
     (let requestId = (case sm_requestId msg of Some r \<Rightarrow> take 128 r | None \<Rightarrow> []);
          refuse = (\<lambda>code text. reply_to (rq_clientId requester) (StartRefused requestId code text []) s)
      in if \<not> isValidUlid (sm_channelId msg) then refuse ''INVALID_INPUT'' ''Invalid channelId''
         else let channelId = (case sm_channelId msg of JStr c \<Rightarrow> c | _ \<Rightarrow> []) in
         case sm_dir msg of
           None \<Rightarrow> refuse ''INVALID_INPUT'' ''dir must be an absolute path of at most 4096 characters''
         | Some dir \<Rightarrow>
             if dir = [] \<or> length dir > 4096 then refuse ''INVALID_INPUT'' ''dir must be an absolute path of at most 4096 characters''
             else case sm_onConflict msg of
               None \<Rightarrow> refuse ''INVALID_INPUT'' (''on_conflict must be '' @ quoted ''ask'' @ '', '' @ quoted ''replace'' @ '', '' @ quoted ''keep_both'' @ '' or '' @ quoted ''skip'')
             | Some onConflict \<Rightarrow>
                 if \<not> td_mayWrite deps channelId (rq_clientId requester)
                 then refuse ''WRITE_LOCK_DENIED'' ''This window does not hold the write lock for this terminal''
                 else case td_channelHost deps channelId of
                   None \<Rightarrow> refuse ''CHANNEL_NOT_FOUND'' ''Channel not found''
                 | Some (hostId, hostType) \<Rightarrow>
                     hold hostId s\<lparr>sv_starts := map_set (sv_next s)
                         \<lparr>ps_requester = requester, ps_requestId = requestId, ps_channelId = channelId, ps_dir = dir, ps_onConflict = onConflict,
                          ps_items = sm_items msg, ps_hostId = hostId, ps_hostType = hostType,
                          ps_phase = (if td_isConnected deps hostId then Reaching else Connecting)\<rparr> (sv_starts s),
                       sv_next := sv_next s + 1\<rparr>)"

definition next_phase :: "nat \<Rightarrow> pending_start \<Rightarrow> start_phase \<Rightarrow> TransferService \<Rightarrow> TransferService" where
  "next_phase k p phase s = s\<lparr>sv_starts := map_set k (p\<lparr>ps_phase := phase\<rparr>) (sv_starts s)\<rparr>"

definition start_reached :: "nat \<Rightarrow> pending_start \<Rightarrow> Backend \<Rightarrow> TransferService \<Rightarrow> TransferService" where
  "start_reached k p backend s =
     (case normaliseHostPath (ps_dir p) (be_style backend) of
        PathRefused reason \<Rightarrow> end_start k p True (refuse_start p ''UNSUPPORTED_PATH'' reason [] s)
      | PathOk dir \<Rightarrow> next_phase k p (Looking backend dir) s)"

definition tree_code :: "tree_error \<Rightarrow> string" where
  "tree_code e = (case e of INVALID_ITEMS \<Rightarrow> ''INVALID_ITEMS'' | INVALID_NAMES \<Rightarrow> ''INVALID_NAMES'' | TOO_MANY_FILES \<Rightarrow> ''TOO_MANY_FILES'')"

definition start_looked :: "(string \<Rightarrow> string) \<Rightarrow> nat \<Rightarrow> pending_start \<Rightarrow> Backend \<Rightarrow> string \<Rightarrow> FileEntry \<Rightarrow> TransferService \<Rightarrow> TransferService" where
  "start_looked sha256 k p backend dir target s =
     (if \<not> isFolderLike target then end_start k p True (refuse_start p ''NOT_A_DIRECTORY'' ''The destination is not a folder'' [] s)
      else case buildUploadTree sha256 (ps_items p) (be_style backend) dir of
             TreeRefused e text names \<Rightarrow> end_start k p True (refuse_start p (tree_code e) text names s)
           | TreeBuilt tree \<Rightarrow>
               (case joinable (ps_hostId p) dir (bt_signature tree) s of
                  Some (tid, u) \<Rightarrow> end_start k p True (join_upload tid u p s)
                | None \<Rightarrow> next_phase k p (Measuring backend dir tree) s))"

definition start_measured :: "TransferDeps \<Rightarrow> nat \<Rightarrow> pending_start \<Rightarrow> Backend \<Rightarrow> string \<Rightarrow> built_tree \<Rightarrow> int option \<Rightarrow> TransferService \<Rightarrow> TransferService" where
  "start_measured deps k p backend dir tree space s =
     (if (case space of None \<Rightarrow> False | Some available \<Rightarrow> available < bt_bytes tree)
      then end_start k p True (refuse_start p ''INSUFFICIENT_SPACE''
             (''The upload is '' @ dec (nat (bt_bytes tree)) @ '' bytes and the host has '' @ dec (nat (the space)) @ '' free there'') [] s)
      else next_phase k p (Listing (td_generateId deps) (create deps p dir backend tree)) s)"

definition record_said :: "Upload \<Rightarrow> Upload" where
  "record_said u = u\<lparr>up_said := Some (uploadState u, None)\<rparr>"

definition markAll :: "Upload \<Rightarrow> Upload" where
  "markAll u = u\<lparr>up_dirtyItems := [], up_dirtyFolders := []\<rparr>"

definition adopt :: "nat \<Rightarrow> pending_start \<Rightarrow> string \<Rightarrow> Upload \<Rightarrow> TransferService \<Rightarrow> TransferService" where
  "adopt k p tid u s =
     (let u = record_said (applyPolicy u);
          s = reply_to (rq_clientId (ps_requester p)) (StartAccepted (accepted tid u (ps_requestId p) False None)) s
      in end_start k p False (schedulePump (put_upload tid (settle False (enqueueReady None (markAll u))) s)))"

definition start_swept :: "TransferDeps \<Rightarrow> nat \<Rightarrow> pending_start \<Rightarrow> string \<Rightarrow> Upload \<Rightarrow> Backend \<Rightarrow> (string \<times> FileEntry list) list
  \<Rightarrow> TransferService \<Rightarrow> TransferService" where
  "start_swept deps k p tid u backend folders s =
     (case folders of
        [] \<Rightarrow> adopt k p tid u s
      | (path, entries) # rest \<Rightarrow> next_phase k p (Sweeping tid u backend rest) (sweep (td_now deps) (ps_hostId p) backend path entries s))"

definition start_listed :: "TransferDeps \<Rightarrow> nat \<Rightarrow> pending_start \<Rightarrow> string \<Rightarrow> Upload \<Rightarrow> (string \<Rightarrow> FileEntry list) \<Rightarrow> TransferService \<Rightarrow> TransferService" where
  "start_listed deps k p tid u listing s =
     (let (seen, u) = lookAtDestination listing u in start_swept deps k p tid u (the (up_backend u)) seen s)"

definition holds_backend :: "start_phase \<Rightarrow> bool" where
  "holds_backend phase = (phase \<noteq> Connecting \<and> phase \<noteq> Reaching)"

definition start_failed :: "nat \<Rightarrow> pending_start \<Rightarrow> string option \<Rightarrow> string \<Rightarrow> TransferService \<Rightarrow> TransferService" where
  "start_failed k p code text s =
     end_start k p (holds_backend (ps_phase p))
       (case code of
          Some code \<Rightarrow> refuse_start p code text [] s
        | None \<Rightarrow> refuse_start p ''TRANSFER_FAILED'' (''The upload could not start: '' @ text) [] s)"

definition start_answered :: "(string \<Rightarrow> string) \<Rightarrow> TransferDeps \<Rightarrow> nat \<Rightarrow> pending_start \<Rightarrow> start_answer \<Rightarrow> TransferService \<Rightarrow> TransferService" where
  "start_answered sha256 deps k p a s =
     (case (ps_phase p, a) of
        (Connecting, StartConnected True) \<Rightarrow> next_phase k p Reaching s
      | (Connecting, StartConnected False) \<Rightarrow>
          end_start k p False (refuse_start p ''HOST_NOT_CONNECTED'' ''This terminal's host could not be connected'' [] s)
      | (Reaching, StartBackend backend) \<Rightarrow> start_reached k p backend s
      | (Looking backend dir, StartEntry target) \<Rightarrow> start_looked sha256 k p backend dir target s
      | (Measuring backend dir tree, StartSpace space) \<Rightarrow> start_measured deps k p backend dir tree space s
      | (Listing tid u, StartListed listing) \<Rightarrow> start_listed deps k p tid u listing s
      | (Sweeping tid u backend folders, StartSwept) \<Rightarrow> start_swept deps k p tid u backend folders s
      | (Measuring _ _ _, StartError _ _) \<Rightarrow> s
      | (Sweeping _ _ _ _, StartError _ _) \<Rightarrow> s
      | (_, StartError code text) \<Rightarrow> start_failed k p code text s
      | _ \<Rightarrow> s)"

end
