(* ===== verification/Transfer_Machine.thy ===== *)
theory Transfer_Machine
  imports Transfer_Service
begin

text \<open>
  The rest of the transfer service: the control messages of a window, the chunks it sends, the pump that starts queued files and folders, and what clients are told; then
  the machine of them all.
\<close>

section \<open>Control\<close>

definition controlledById :: "TransferDeps \<Rightarrow> TransferRequester \<Rightarrow> string \<Rightarrow> TransferService \<Rightarrow> string + Upload" where
  "controlledById deps requester tid s =
     (case map_get (sv_uploads s) tid of
        None \<Rightarrow> Inl ''TRANSFER_NOT_FOUND''
      | Some u \<Rightarrow>
          let allowed = (if td_channelEnded deps (up_channelId u) then rq_tokenId requester = up_tokenId u
                         else td_mayWrite deps (up_channelId u) (rq_clientId requester))
          in if allowed then Inr u else Inl ''WRITE_LOCK_DENIED'')"

definition refuseControl :: "TransferRequester \<Rightarrow> string \<Rightarrow> string \<Rightarrow> TransferService \<Rightarrow> TransferService" where
  "refuseControl requester tid code s = reply_to (rq_clientId requester) (ControlRefused tid code) s"

definition scope_items :: "Upload \<Rightarrow> TransferScope option \<Rightarrow> nat list option" where
  "scope_items u scope = Option.bind scope (scoped u)"

definition resolve_item :: "TransferConflictAction \<Rightarrow> Upload \<Rightarrow> nat \<Rightarrow> Upload" where
  "resolve_item action u i =
     (if it_state (item u i) \<noteq> InConflict then u
      else if action = ReplaceIt \<and> it_typeClash (item u i) then u
      else if action = SkipIt then skip_item i u
      else let u = upd_item i (\<lambda>x. x\<lparr>it_resolution := Some action\<rparr>) u
           in if it_kind (item u i) = File \<and> it_tempWhole (item u i) then place i u else enqueue i (setState i Queued u))"

definition clash_named :: "Upload \<Rightarrow> TransferConflictAction \<Rightarrow> TransferScope option \<Rightarrow> bool" where
  "clash_named u action scope =
     (action = ReplaceIt \<and> (case scope of Some (OneItem i) \<Rightarrow> it_state (item u i) = InConflict \<and> it_typeClash (item u i) | _ \<Rightarrow> False))"

definition resolve :: "TransferDeps \<Rightarrow> TransferRequester \<Rightarrow> string \<Rightarrow> TransferConflictAction option \<Rightarrow> TransferScope option \<Rightarrow> TransferService \<Rightarrow> TransferService" where
  "resolve deps requester tid action scope s =
     (case controlledById deps requester tid s of
        Inl code \<Rightarrow> refuseControl requester tid code s
      | Inr u \<Rightarrow>
          (case action of
             None \<Rightarrow> refuseControl requester tid ''INVALID_INPUT'' s
           | Some action \<Rightarrow>
               (case scope_items u scope of
                  None \<Rightarrow> refuseControl requester tid ''ITEM_NOT_FOUND'' s
                | Some ids \<Rightarrow>
                    if clash_named u action scope then refuseControl requester tid ''INVALID_ACTION'' s
                    else schedulePump (put_upload tid (settle False (foldl (resolve_item action) u ids)) s))))"

definition requeue_upload :: "string \<Rightarrow> nat list \<Rightarrow> Upload \<Rightarrow> TransferService \<Rightarrow> TransferService" where
  "requeue_upload tid again u s = schedulePump (put_upload tid (settle False (requeueAll again u)) s)"

definition retry :: "TransferDeps \<Rightarrow> TransferRequester \<Rightarrow> string \<Rightarrow> TransferScope option \<Rightarrow> TransferService \<Rightarrow> TransferService" where
  "retry deps requester tid scope s =
     (case controlledById deps requester tid s of
        Inl code \<Rightarrow> refuseControl requester tid code s
      | Inr u \<Rightarrow>
          (case scope_items u scope of
             None \<Rightarrow> refuseControl requester tid ''ITEM_NOT_FOUND'' s
           | Some ids \<Rightarrow>
               let again = stopped_items u ids
               in if again = [] then s
                  else if td_isConnected deps (up_hostId u) then requeue_upload tid again u s
                  else s\<lparr>sv_retries := map_set (sv_next s) (requester, tid, again) (sv_retries s), sv_next := sv_next s + 1\<rparr>))"

text \<open>The items were chosen before the host was connected.\<close>

definition retry_connected :: "nat \<Rightarrow> bool \<Rightarrow> TransferService \<Rightarrow> TransferService" where
  "retry_connected k connected s =
     (case map_get (sv_retries s) k of
        None \<Rightarrow> s
      | Some (requester, tid, again) \<Rightarrow>
          let s = s\<lparr>sv_retries := map_delete k (sv_retries s)\<rparr>
          in if \<not> connected then refuseControl requester tid ''HOST_NOT_CONNECTED'' s
             else case map_get (sv_uploads s) tid of None \<Rightarrow> s | Some u \<Rightarrow> requeue_upload tid again u s)"

definition cancel_item :: "Upload \<Rightarrow> nat \<Rightarrow> Upload" where
  "cancel_item u i = (if it_state (item u i) \<in> {Queued, Sending, InConflict, Interrupted} then stopItem (length (up_items u)) u i else u)"

definition cancel :: "TransferDeps \<Rightarrow> TransferRequester \<Rightarrow> string \<Rightarrow> TransferScope option \<Rightarrow> TransferService \<Rightarrow> TransferService" where
  "cancel deps requester tid scope s =
     (case controlledById deps requester tid s of
        Inl code \<Rightarrow> refuseControl requester tid code s
      | Inr u \<Rightarrow>
          (case scope_items u scope of
             None \<Rightarrow> refuseControl requester tid ''ITEM_NOT_FOUND'' s
           | Some ids \<Rightarrow> schedulePump (put_upload tid (settle False (foldl cancel_item u ids)) s)))"

definition source_gone :: "string \<Rightarrow> Upload \<Rightarrow> Upload" where
  "source_gone clientId u =
     (if up_source u \<noteq> Some clientId then u
      else settle False
             (foldl (\<lambda>u i. if it_state (item u i) = Sending then interrupt ''The window sending it left'' i u else u) (u\<lparr>up_source := None\<rparr>)
                [0..<length (up_items u)]))"

definition clientGone :: "string \<Rightarrow> TransferService \<Rightarrow> TransferService" where
  "clientGone clientId s = schedulePump (each_upload (source_gone clientId) s)"

definition lockChanged :: "string \<Rightarrow> TransferService \<Rightarrow> TransferService" where
  "lockChanged channelId s = (if list_ex (\<lambda>(tid, u). up_channelId u = channelId) (sv_uploads s) then schedulePump s else s)"

section \<open>The bytes\<close>

definition receive :: "TransferRequester \<Rightarrow> string \<Rightarrow> nat \<Rightarrow> int \<Rightarrow> 8 word list \<Rightarrow> TransferService \<Rightarrow> TransferService" where
  "receive requester tid i offset data s =
     (let refuse = (\<lambda>status code. reply_to (rq_clientId requester) (ReceiveRefused tid i status code) s)
      in case map_get (sv_uploads s) tid of
           None \<Rightarrow> refuse 404 ''TRANSFER_NOT_FOUND''
         | Some u \<Rightarrow>
             if i \<ge> length (up_items u) \<or> it_kind (item u i) \<noteq> File then refuse 404 ''ITEM_NOT_FOUND''
             else if up_source u \<noteq> Some (rq_clientId requester) \<or> up_tokenId u \<noteq> rq_tokenId requester then refuse 403 ''NOT_THE_SENDER''
             else if it_state (item u i) \<noteq> Sending then refuse 409 ''ITEM_NOT_SENDING''
             else put_upload tid (add_task (TReceive i offset data) u) s)"

section \<open>Moving on\<close>

definition sending_now :: "TransferService \<Rightarrow> (string, nat) jmap" where
  "sending_now s =
     foldl (\<lambda>m (tid, u).
        case up_source u of
          None \<Rightarrow> m
        | Some source \<Rightarrow>
            let files = count_of (tt_states (up_totals u)) Sending
            in if files > 0 then map_set source ((case map_get m source of Some n \<Rightarrow> n | None \<Rightarrow> 0) + files) m else m) [] (sv_uploads s)"

definition sourceMayWrite :: "TransferDeps \<Rightarrow> Upload \<Rightarrow> bool" where
  "sourceMayWrite deps u =
     (case up_source u of None \<Rightarrow> False | Some source \<Rightarrow> td_channelEnded deps (up_channelId u) \<or> td_mayWrite deps (up_channelId u) source)"

text \<open>The queue from its front, while there is room: the files started, and what is left.\<close>

fun start_files :: "nat \<Rightarrow> nat \<Rightarrow> nat list \<Rightarrow> Upload \<Rightarrow> nat \<times> Upload" where
  "start_files limit n [] u = (n, u\<lparr>up_queue := []\<rparr>)"
| "start_files limit n (i # rest) u =
     (if n \<ge> limit then (n, u\<lparr>up_queue := i # rest\<rparr>)
      else if i \<ge> length (up_items u) \<or> it_state (item u i) \<noteq> Queued then start_files limit n rest u
      else if it_tempWhole (item u i) then start_files limit n rest (place i u)
      else start_files limit (n + 1) rest (admit i u))"

definition pump_upload :: "TransferDeps \<Rightarrow> nat \<Rightarrow> (string, nat) jmap \<Rightarrow> Upload \<Rightarrow> (string, nat) jmap \<times> Upload" where
  "pump_upload deps limit sending u =
     (let u = (if up_folderQueue u \<noteq> [] \<and> \<not> up_creatingFolders u then fst (createFolders u) else u)
      in case up_source u of
           None \<Rightarrow> (sending, u)
         | Some source \<Rightarrow>
             if \<not> sourceMayWrite deps u then (sending, u)
             else let prior = (case map_get sending source of Some n \<Rightarrow> n | None \<Rightarrow> 0);
                      (n, u) = start_files limit prior (up_queue u) u
                  in (if n > prior then map_set source n sending else sending, u))"

fun pump_uploads :: "TransferDeps \<Rightarrow> nat \<Rightarrow> (string, nat) jmap \<Rightarrow> (string, Upload) jmap \<Rightarrow> (string, Upload) jmap" where
  "pump_uploads deps limit sending [] = []"
| "pump_uploads deps limit sending ((tid, u) # rest) =
     (let (sending, u) = pump_upload deps limit sending u in (tid, u) # pump_uploads deps limit sending rest)"

definition pump :: "TransferDeps \<Rightarrow> TransferService \<Rightarrow> TransferService" where
  "pump deps s =
     s\<lparr>sv_pumpScheduled := False, sv_uploads := pump_uploads deps (max 1 (td_maxConcurrent deps)) (sending_now s) (sv_uploads s)\<rparr>"

section \<open>Saying it\<close>

definition say :: "message \<Rightarrow> Upload \<Rightarrow> Upload" where
  "say m u = u\<lparr>up_sent := up_sent u @ [m]\<rparr>"

definition progressOf :: "Item \<Rightarrow> TransferItemProgress" where
  "progressOf x =
     \<lparr>pr_itemId = it_id x, pr_state = it_state x, pr_acked = (if it_kind x = File then Some (it_acked x) else None),
      pr_outcome = (if it_state x = Placed \<or> it_state x = Skipped then it_outcome x else None),
      pr_finalName = (if it_state x = Placed then it_finalName x else None),
      pr_verification = (if it_state x = Placed then it_verification x else None), pr_reason = it_reason x, pr_code = it_code x\<rparr>"

definition say_progress :: "Upload \<Rightarrow> Upload" where
  "say_progress u =
     (if up_dirtyItems u = [] \<and> up_dirtyFolders u = [] then u
      else let items = map (\<lambda>i. progressOf (item u i)) (up_dirtyItems u);
               folders = map (\<lambda>i. (i, case map_get (up_folderTotals u) i of Some t \<Rightarrow> t | None \<Rightarrow> emptyTotals)) (up_dirtyFolders u)
           in say (TransferProgress items folders (up_totals u)) (u\<lparr>up_dirtyItems := [], up_dirtyFolders := []\<rparr>))"

definition say_conflicts :: "Upload \<Rightarrow> Upload" where
  "say_conflicts u = (if up_conflicts u = [] then u else say (TransferConflict (up_conflicts u)) (u\<lparr>up_conflicts := []\<rparr>))"

definition say_done :: "Upload \<Rightarrow> Upload" where
  "say_done u =
     (if isSettled u \<and> \<not> up_doneSaid u
      then let u = releaseBackend (say (TransferDone (up_totals u)) (u\<lparr>up_doneSaid := True\<rparr>))
           in if list_all (\<lambda>x. it_state x = Placed \<or> it_state x = Skipped) (up_items u) then u\<lparr>up_forgetTimer := True\<rparr> else u
      else u)"

definition sayState :: "Upload \<Rightarrow> Upload" where
  "sayState u =
     (let now = (uploadState u, up_reason u)
      in if up_said u = Some now then u else say (TransferState (fst now) (snd now)) (u\<lparr>up_said := Some now\<rparr>))"

definition flush_upload :: "Upload \<Rightarrow> Upload" where
  "flush_upload u =
     (let u = sayState (say_done (say_conflicts (say_progress u)))
      in if \<not> isActive u \<and> up_source u = None then releaseBackend u else u)"

definition flush :: "string \<Rightarrow> Upload \<Rightarrow> TransferService \<Rightarrow> TransferService" where
  "flush tid u s = noteHost (up_hostId u) (up_hostType u) (put_upload tid (flush_upload u) s)"

section \<open>The machine\<close>

datatype event =
    EvStart TransferRequester TransferStartMessage
  | EvStartAnswer nat start_answer
  | EvResolve TransferRequester string "TransferConflictAction option" "TransferScope option"
  | EvRetry TransferRequester string "TransferScope option"
  | EvRetryConnected nat bool
  | EvCancel TransferRequester string "TransferScope option"
  | EvClientGone string
  | EvLockChanged string
  | EvInterruptOn string
  | EvReceive TransferRequester string nat int "8 word list"
  | EvPump
  | EvFlushTimer string
  | EvFlushSoon string
  | EvTask string nat answer
  | EvLost string
  | EvForget string

definition remove_nth :: "nat \<Rightarrow> 'a list \<Rightarrow> 'a list" where
  "remove_nth k xs = take k xs @ drop (Suc k) xs"

definition settle_task :: "TransferDeps \<Rightarrow> string \<Rightarrow> nat \<Rightarrow> answer \<Rightarrow> Upload \<Rightarrow> TransferService \<Rightarrow> TransferService" where
  "settle_task deps tid k a u s =
     (let (u, pump) = run_task (up_tasks u ! k) (td_random deps) a (u\<lparr>up_tasks := remove_nth k (up_tasks u)\<rparr>);
          s = put_upload tid u s
      in if pump then schedulePump s else s)"

definition lose_backend :: "Upload \<Rightarrow> Upload" where
  "lose_backend u = u\<lparr>up_backend := map_option (\<lambda>be. be\<lparr>be_lost := True\<rparr>) (up_backend u)\<rparr>"

fun step :: "(string \<Rightarrow> string) \<Rightarrow> TransferService \<Rightarrow> TransferDeps \<times> event \<Rightarrow> TransferService" where
  "step sha256 s (deps, EvStart requester msg) = start deps requester msg s"
| "step sha256 s (deps, EvStartAnswer k a) = (case map_get (sv_starts s) k of None \<Rightarrow> s | Some p \<Rightarrow> start_answered sha256 deps k p a s)"
| "step sha256 s (deps, EvResolve requester tid action scope) = resolve deps requester tid action scope s"
| "step sha256 s (deps, EvRetry requester tid scope) = retry deps requester tid scope s"
| "step sha256 s (deps, EvRetryConnected k connected) = retry_connected k connected s"
| "step sha256 s (deps, EvCancel requester tid scope) = cancel deps requester tid scope s"
| "step sha256 s (deps, EvClientGone clientId) = clientGone clientId s"
| "step sha256 s (deps, EvLockChanged channelId) = lockChanged channelId s"
| "step sha256 s (deps, EvInterruptOn hostId) = interruptOn hostId s"
| "step sha256 s (deps, EvReceive requester tid i offset data) = receive requester tid i offset data s"
| "step sha256 s (deps, EvPump) = pump deps s"
| "step sha256 s (deps, EvFlushTimer tid) = (case map_get (sv_uploads s) tid of None \<Rightarrow> s | Some u \<Rightarrow> flush tid (u\<lparr>up_flushTimer := False\<rparr>) s)"
| "step sha256 s (deps, EvFlushSoon tid) = (case map_get (sv_uploads s) tid of None \<Rightarrow> s | Some u \<Rightarrow> flush tid (u\<lparr>up_flushSoon := False, up_flushTimer := False\<rparr>) s)"
| "step sha256 s (deps, EvTask tid k a) = (case map_get (sv_uploads s) tid of None \<Rightarrow> s | Some u \<Rightarrow> settle_task deps tid k a u s)"
| "step sha256 s (deps, EvLost tid) = (case map_get (sv_uploads s) tid of None \<Rightarrow> s | Some u \<Rightarrow> put_upload tid (lose_backend u) s)"
| "step sha256 s (deps, EvForget tid) = s\<lparr>sv_uploads := map_delete tid (sv_uploads s)\<rparr>"

definition upload_has :: "string \<Rightarrow> (Upload \<Rightarrow> bool) \<Rightarrow> TransferService \<Rightarrow> bool" where
  "upload_has tid P s = (case map_get (sv_uploads s) tid of None \<Rightarrow> False | Some u \<Rightarrow> P u)"

definition id_unused :: "string \<Rightarrow> TransferService \<Rightarrow> bool" where
  "id_unused tid s =
     (\<not> map_has (sv_uploads s) tid
      \<and> list_all (\<lambda>(k, p). case ps_phase p of Listing t _ \<Rightarrow> t \<noteq> tid | Sweeping t _ _ _ \<Rightarrow> t \<noteq> tid | _ \<Rightarrow> True) (sv_starts s))"

text \<open>What may come: a timer or a pump only once set, a promise only while it waits, and an id made for an upload is no other's.\<close>

fun enabled :: "TransferService \<Rightarrow> TransferDeps \<times> event \<Rightarrow> bool" where
  "enabled s (deps, EvStartAnswer k a) = (map_has (sv_starts s) k \<and> (case a of StartSpace _ \<Rightarrow> id_unused (td_generateId deps) s | _ \<Rightarrow> True))"
| "enabled s (deps, EvRetryConnected k _) = map_has (sv_retries s) k"
| "enabled s (deps, EvPump) = sv_pumpScheduled s"
| "enabled s (deps, EvFlushTimer tid) = upload_has tid up_flushTimer s"
| "enabled s (deps, EvFlushSoon tid) = upload_has tid up_flushSoon s"
| "enabled s (deps, EvTask tid k a) = upload_has tid (\<lambda>u. k < length (up_tasks u) \<and> expects u (up_tasks u ! k) a) s"
| "enabled s (deps, EvForget tid) = upload_has tid up_forgetTimer s"
| "enabled s _ = True"

end
