(* ===== verification/Transfer_Counts.thy ===== *)
theory Transfer_Counts
  imports Transfer_Machine
begin

text \<open>
  What every step of an upload keeps. The counts an upload carries (of its files by state, their bytes and the bytes acknowledged, for the whole and for
  each folder) are what counting its items again gives. A file is sent over another only where that was asked for. No step but \<open>admit\<close> adds to the files
  being sent, and none changes the window they come from. The three are one predicate, \<open>steady\<close>, with a lemma per operation.
\<close>

section \<open>Counting again\<close>

definition tally :: "Item list \<Rightarrow> (nat \<Rightarrow> bool) \<Rightarrow> (Item \<Rightarrow> 'a::comm_monoid_add) \<Rightarrow> 'a" where
  "tally items P f = (\<Sum>i<length items. if P i then f (items ! i) else 0)"

definition in_state :: "TransferItemState \<Rightarrow> Item \<Rightarrow> nat" where
  "in_state st x = (if it_state x = st then 1 else 0)"

definition states_counted :: "Item list \<Rightarrow> (nat \<Rightarrow> bool) \<Rightarrow> (TransferItemState, nat) jmap \<Rightarrow> bool" where
  "states_counted items P m \<longleftrightarrow> (\<forall>st. map_get m st = (let n = tally items P (in_state st) in if n = 0 then None else Some n))"

definition a_file :: "Item list \<Rightarrow> nat \<Rightarrow> bool" where
  "a_file items i \<longleftrightarrow> it_kind (items ! i) = File"

definition is_under :: "Item list \<Rightarrow> nat \<Rightarrow> nat \<Rightarrow> bool" where
  "is_under items p i \<longleftrightarrow> p \<in> set (above items i)"

text \<open>Totals over the items of \<open>Q\<close>, of which the files are those of \<open>F\<close>.\<close>

definition totals_counted :: "Item list \<Rightarrow> (nat \<Rightarrow> bool) \<Rightarrow> (nat \<Rightarrow> bool) \<Rightarrow> Totals \<Rightarrow> bool" where
  "totals_counted items F Q t \<longleftrightarrow>
     tt_files t = tally items (\<lambda>i. F i \<and> Q i) (\<lambda>x. 1) \<and> tt_bytes t = tally items (\<lambda>i. F i \<and> Q i) it_size
     \<and> tt_acked t = tally items Q it_acked \<and> states_counted items (\<lambda>i. F i \<and> Q i) (tt_states t)"

definition tree_shape :: "Item list \<Rightarrow> bool" where
  "tree_shape items \<longleftrightarrow>
     (\<forall>i < length items. \<forall>p. it_parent (items ! i) = Some p \<longrightarrow>
        p < length items \<and> it_kind (items ! p) = Dir \<and> depth (it_relPath (items ! p)) < depth (it_relPath (items ! i)))"

definition counts_exact :: "Upload \<Rightarrow> bool" where
  "counts_exact u \<longleftrightarrow>
     totals_counted (up_items u) (a_file (up_items u)) (\<lambda>i. True) (up_totals u)
     \<and> (\<forall>p < length (up_items u). it_kind (item u p) = Dir \<longrightarrow>
          (\<exists>t. map_get (up_folderTotals u) p = Some t \<and> totals_counted (up_items u) (a_file (up_items u)) (is_under (up_items u) p) t))
     \<and> states_counted (up_items u) (\<lambda>i. \<not> a_file (up_items u) i) (up_folderStates u)"

lemma nth_update: "xs[i := x] ! j = (if j = i \<and> i < length xs then x else xs ! j)"
  by (cases "i < length xs") (auto simp: nth_list_update list_update_beyond)

lemma tally_cong:
  assumes "length items' = length items" and "\<And>i. i < length items \<Longrightarrow> P' i = P i"
    and "\<And>i. i < length items \<Longrightarrow> P i \<Longrightarrow> f (items' ! i) = f (items ! i)"
  shows "tally items' P' f = tally items P f"
  unfolding tally_def by (rule sum.cong) (use assms in auto)

lemma tally_update:
  assumes "i < length items" and "P i"
  shows "tally (items[i := x]) P f + f (items ! i) = tally items P f + f x"
proof -
  have "(\<Sum>j\<in>{..<length items} - {i}. if P j then f (items[i := x] ! j) else 0) = (\<Sum>j\<in>{..<length items} - {i}. if P j then f (items ! j) else 0)"
    by (rule sum.cong) (auto simp: nth_update)
  then show ?thesis unfolding tally_def using assms by (simp add: sum.remove [of "{..<length items}" i] ac_simps)
qed

lemma tally_update_out:
  assumes "\<not> P i"
  shows "tally (items[i := x]) P f = tally items P f"
  unfolding tally_def by (rule sum.cong) (use assms in \<open>auto simp: nth_update\<close>)

lemma tally_member: "i < length items \<Longrightarrow> P i \<Longrightarrow> it_state (items ! i) = st \<Longrightarrow> tally items P (in_state st) > 0"
  unfolding tally_def by (rule sum_pos2 [of _ i]) (auto simp: in_state_def)

lemma tally_zero: "tally items P (in_state st) = 0 \<longleftrightarrow> (\<forall>i < length items. P i \<longrightarrow> it_state (items ! i) \<noteq> st)"
  unfolding tally_def in_state_def by (auto simp: sum_eq_0_iff)

section \<open>The folders an item is in\<close>

lemma parents_from_cong:
  assumes "length items' = length items" and "\<And>i. i < length items \<Longrightarrow> it_parent (items' ! i) = it_parent (items ! i)"
  shows "parents_from items' n p = parents_from items n p"
proof (induction n arbitrary: p)
  case (Suc n)
  then show ?case by (cases p) (use assms in auto)
qed simp

lemma above_cong:
  assumes "length items' = length items" and "\<And>i. i < length items \<Longrightarrow> it_parent (items' ! i) = it_parent (items ! i)" and "i < length items"
  shows "above items' i = above items i"
  unfolding above_def using assms by (simp add: parents_from_cong [OF assms(1,2)])

lemma parents_from_deeper:
  assumes "tree_shape items" and "\<And>p. q = Some p \<Longrightarrow> p < length items \<and> it_kind (items ! p) = Dir \<and> depth (it_relPath (items ! p)) < d"
  shows "distinct (parents_from items n q)
     \<and> (\<forall>p \<in> set (parents_from items n q). p < length items \<and> it_kind (items ! p) = Dir \<and> depth (it_relPath (items ! p)) < d)"
  using assms(2)
proof (induction n arbitrary: q d)
  case (Suc n)
  show ?case
  proof (cases q)
    case (Some p)
    then have p: "p < length items" "it_kind (items ! p) = Dir" "depth (it_relPath (items ! p)) < d" using Suc.prems by auto
    have "\<And>p'. it_parent (items ! p) = Some p' \<Longrightarrow>
        p' < length items \<and> it_kind (items ! p') = Dir \<and> depth (it_relPath (items ! p')) < depth (it_relPath (items ! p))"
      using assms(1) p(1) by (auto simp: tree_shape_def)
    from Suc.IH [OF this] show ?thesis using Some p by fastforce
  qed simp
qed simp

lemma above_shape:
  assumes "tree_shape items" and "i < length items"
  shows "distinct (above items i)" and "\<And>p. p \<in> set (above items i) \<Longrightarrow> p < length items \<and> it_kind (items ! p) = Dir"
proof -
  have "\<And>p. it_parent (items ! i) = Some p \<Longrightarrow>
      p < length items \<and> it_kind (items ! p) = Dir \<and> depth (it_relPath (items ! p)) < depth (it_relPath (items ! i))"
    using assms by (auto simp: tree_shape_def)
  from parents_from_deeper [OF assms(1) this, of "it_parent (items ! i)" "length items"]
  show "distinct (above items i)" "\<And>p. p \<in> set (above items i) \<Longrightarrow> p < length items \<and> it_kind (items ! p) = Dir"
    by (auto simp: above_def)
qed

lemma map_update_each:
  assumes "distinct ps"
  shows "map_get (foldl (\<lambda>m p. case map_get m p of None \<Rightarrow> m | Some t \<Rightarrow> map_set p (f t) m) m ps) q
     = (if q \<in> set ps then map_option f (map_get m q) else map_get m q)"
  using assms by (induction ps arbitrary: m) (auto split: option.splits)

section \<open>Moving an item from a state to another\<close>

lemma move_count_get:
  assumes "\<And>st. map_get m st = (if c st = (0::nat) then None else Some (c st))" and "before \<noteq> state" and "c before > 0"
  shows "map_get (move_count before state m) st
     = (let n = (if st = before then c st - 1 else if st = state then c st + 1 else c st) in if n = 0 then None else Some n)"
  using assms by (auto simp: move_count_def Let_def)

lemma states_counted_move:
  assumes m: "states_counted items P m" and i: "i < length items" "P i" and x: "it_state x = state" "it_state (items ! i) \<noteq> state"
  shows "states_counted (items[i := x]) P (move_count (it_state (items ! i)) state m)"
proof -
  let ?c = "\<lambda>st. tally items P (in_state st)"
  have c: "\<And>st. map_get m st = (if ?c st = 0 then None else Some (?c st))" using m by (simp add: states_counted_def Let_def)
  have pos: "?c (it_state (items ! i)) > 0" using i by (rule tally_member) simp
  show ?thesis
    unfolding states_counted_def
  proof
    fix st
    have "tally (items[i := x]) P (in_state st) + in_state st (items ! i) = ?c st + in_state st x" by (rule tally_update) (use i in auto)
    then have "tally (items[i := x]) P (in_state st) = (if st = it_state (items ! i) then ?c st - 1 else if st = state then ?c st + 1 else ?c st)"
      using x by (auto simp: in_state_def split: if_splits)
    then show "map_get (move_count (it_state (items ! i)) state m) st
        = (let n = tally (items[i := x]) P (in_state st) in if n = 0 then None else Some n)"
      using move_count_get [OF c x(2) pos, of st] by simp
  qed
qed

lemma totals_counted_move:
  assumes "totals_counted items F Q t" and "i < length items" and "F i" and "Q i" and "it_state (items ! i) \<noteq> state"
  shows "totals_counted (items[i := (items ! i)\<lparr>it_state := state\<rparr>]) F Q (t\<lparr>tt_states := move_count (it_state (items ! i)) state (tt_states t)\<rparr>)"
  using assms tally_update [of i items "\<lambda>i. F i \<and> Q i" "(items ! i)\<lparr>it_state := state\<rparr>" it_size]
    tally_update [of i items Q "(items ! i)\<lparr>it_state := state\<rparr>" it_acked]
    tally_update [of i items "\<lambda>i. F i \<and> Q i" "(items ! i)\<lparr>it_state := state\<rparr>" "\<lambda>x. 1 :: nat"]
  by (auto simp: totals_counted_def intro: states_counted_move)

lemma states_counted_out: "states_counted items P m \<Longrightarrow> \<not> P i \<Longrightarrow> states_counted (items[i := x]) P m"
  by (simp add: states_counted_def tally_update_out)

lemma tally_same: "f x = f (items ! i) \<Longrightarrow> tally (items[i := x]) P f = tally items P f"
  by (rule tally_cong) (auto simp: nth_update)

lemma totals_counted_out:
  assumes "totals_counted items F Q t" and "\<not> F i \<or> \<not> Q i" and "it_acked x = it_acked (items ! i) \<or> \<not> Q i"
  shows "totals_counted (items[i := x]) F Q t"
proof -
  have "tally (items[i := x]) Q it_acked = tally items Q it_acked" using assms(3) by (metis tally_same tally_update_out)
  with assms show ?thesis by (simp add: totals_counted_def tally_update_out states_counted_out)
qed

lemma states_counted_same: "states_counted items P m \<Longrightarrow> it_state x = it_state (items ! i) \<Longrightarrow> states_counted (items[i := x]) P m"
  by (simp add: states_counted_def tally_same in_state_def)

lemma totals_counted_acked:
  assumes t: "totals_counted items F Q t" and i: "i < length items" "Q i" and x: "x = (items ! i)\<lparr>it_acked := it_acked (items ! i) + d\<rparr>"
  shows "totals_counted (items[i := x]) F Q (t\<lparr>tt_acked := tt_acked t + d\<rparr>)"
proof -
  have "tally (items[i := x]) Q it_acked = tally items Q it_acked + d" using tally_update [of i items Q x it_acked] i x by simp
  with t x show ?thesis by (simp add: totals_counted_def tally_same states_counted_same)
qed

section \<open>What every step keeps\<close>

definition sending_files :: "Upload \<Rightarrow> nat" where
  "sending_files u = tally (up_items u) (a_file (up_items u)) (in_state Sending)"

text \<open>
  \<open>steady asked k src u\<close>: the counts are exact; what is to replace something is among the items \<open>asked\<close> for, which are all where the policy is to replace; at most
  \<open>k\<close> files are being sent; and \<open>src\<close> is the window sending and the policy.
\<close>

definition replaces_asked :: "(nat \<Rightarrow> bool) \<Rightarrow> Upload \<Rightarrow> bool" where
  "replaces_asked asked u \<longleftrightarrow>
     (up_onConflict u = OnReplace \<longrightarrow> (\<forall>i. asked i))
     \<and> (\<forall>i < length (up_items u). it_resolution (item u i) = Some ReplaceIt \<longrightarrow> asked i)
     \<and> (\<forall>i temp target. CallPlace i temp target True \<in> set (up_calls u) \<longrightarrow> i < length (up_items u) \<longrightarrow> asked i)"

definition steady :: "(nat \<Rightarrow> bool) \<Rightarrow> nat \<Rightarrow> string option \<times> TransferOnConflict \<Rightarrow> Upload \<Rightarrow> bool" where
  "steady asked k src u \<longleftrightarrow>
     tree_shape (up_items u) \<and> counts_exact u \<and> replaces_asked asked u \<and> sending_files u \<le> k \<and> (up_source u, up_onConflict u) = src"

definition same_counts :: "Item \<Rightarrow> Item \<Rightarrow> bool" where
  "same_counts x y \<longleftrightarrow> it_state x = it_state y \<and> it_acked x = it_acked y \<and> it_size x = it_size y \<and> it_kind x = it_kind y
     \<and> it_parent x = it_parent y \<and> it_relPath x = it_relPath y"

lemma same_shape:
  assumes "length items' = length items"
    and "\<And>i. i < length items \<Longrightarrow> it_kind (items' ! i) = it_kind (items ! i) \<and> it_parent (items' ! i) = it_parent (items ! i)"
    and "i < length items"
  shows "a_file items' i = a_file items i" and "is_under items' p i = is_under items p i"
  using assms(3) assms(2) [OF assms(3)] above_cong [OF assms(1), of i] assms(2) by (auto simp: is_under_def a_file_def)

lemma states_counted_cong:
  assumes "length items' = length items" and "\<And>i. i < length items \<Longrightarrow> P' i = P i"
    and "\<And>i. i < length items \<Longrightarrow> P i \<Longrightarrow> it_state (items' ! i) = it_state (items ! i)"
  shows "states_counted items' P' m = states_counted items P m"
proof -
  have "tally items' P' (in_state st) = tally items P (in_state st)" for st by (rule tally_cong) (use assms in \<open>auto simp: in_state_def\<close>)
  then show ?thesis by (simp add: states_counted_def)
qed

lemma totals_counted_cong:
  assumes "length items' = length items" and "\<And>i. i < length items \<Longrightarrow> F' i = F i" and "\<And>i. i < length items \<Longrightarrow> Q' i = Q i"
    and "\<And>i. i < length items \<Longrightarrow> Q i \<Longrightarrow> same_counts (items' ! i) (items ! i)"
  shows "totals_counted items' F' Q' t = totals_counted items F Q t"
proof -
  have "tally items' (\<lambda>i. F' i \<and> Q' i) it_size = tally items (\<lambda>i. F i \<and> Q i) it_size" "tally items' Q' it_acked = tally items Q it_acked"
    "tally items' (\<lambda>i. F' i \<and> Q' i) (\<lambda>x. 1 :: nat) = tally items (\<lambda>i. F i \<and> Q i) (\<lambda>x. 1)"
    by (rule tally_cong; use assms in \<open>auto simp: same_counts_def\<close>)+
  moreover have "states_counted items' (\<lambda>i. F' i \<and> Q' i) m = states_counted items (\<lambda>i. F i \<and> Q i) m" for m
    by (rule states_counted_cong) (use assms in \<open>auto simp: same_counts_def\<close>)
  ultimately show ?thesis by (simp add: totals_counted_def)
qed

lemma upd_item_items: "up_items (upd_item i f u) = (up_items u)[i := f (item u i)]"
  by (simp add: upd_item_def)

lemma upd_item_rest [simp]:
  "up_totals (upd_item i f u) = up_totals u" "up_folderTotals (upd_item i f u) = up_folderTotals u" "up_folderStates (upd_item i f u) = up_folderStates u"
  "up_onConflict (upd_item i f u) = up_onConflict u" "up_calls (upd_item i f u) = up_calls u" "up_source (upd_item i f u) = up_source u"
  "length (up_items (upd_item i f u)) = length (up_items u)" "up_backend (upd_item i f u) = up_backend u"
  by (simp_all add: upd_item_def)

lemma item_upd_item: "item (upd_item i f u) j = (if j = i \<and> i < length (up_items u) then f (item u i) else item u j)"
  by (simp add: upd_item_def nth_update)

lemma tree_shape_cong:
  assumes "length items' = length items" and "\<And>i. i < length items \<Longrightarrow> it_kind (items' ! i) = it_kind (items ! i)
     \<and> it_parent (items' ! i) = it_parent (items ! i) \<and> it_relPath (items' ! i) = it_relPath (items ! i)"
  shows "tree_shape items' = tree_shape items"
  using assms unfolding tree_shape_def by (metis (no_types, lifting))

lemma steady_upd_item:
  assumes u: "steady asked k src u" and f: "\<And>x. same_counts (f x) x"
    and r: "it_resolution (f (item u i)) = Some ReplaceIt \<Longrightarrow> i < length (up_items u) \<Longrightarrow> asked i"
  shows "steady asked k src (upd_item i f u)"
proof -
  have same: "\<And>j. j < length (up_items u) \<Longrightarrow> same_counts (item (upd_item i f u) j) (item u j)"
    using f by (simp add: item_upd_item) (simp add: same_counts_def)
  note len = upd_item_rest(7) [of i f u]
  have kind: "\<And>j. j < length (up_items u) \<Longrightarrow> a_file (up_items (upd_item i f u)) j = a_file (up_items u) j"
    and under: "\<And>j p. j < length (up_items u) \<Longrightarrow> is_under (up_items (upd_item i f u)) p j = is_under (up_items u) p j"
    using same same_shape [OF len] by (simp_all add: same_counts_def)
  have "totals_counted (up_items (upd_item i f u)) (a_file (up_items (upd_item i f u))) (\<lambda>i. True) t
      = totals_counted (up_items u) (a_file (up_items u)) (\<lambda>i. True) t" for t
    by (rule totals_counted_cong [OF len kind refl same])
  moreover have "totals_counted (up_items (upd_item i f u)) (a_file (up_items (upd_item i f u))) (is_under (up_items (upd_item i f u)) p) t
      = totals_counted (up_items u) (a_file (up_items u)) (is_under (up_items u) p) t" for p t
    by (rule totals_counted_cong [OF len kind under same])
  moreover have "states_counted (up_items (upd_item i f u)) (\<lambda>j. \<not> a_file (up_items (upd_item i f u)) j) m
      = states_counted (up_items u) (\<lambda>j. \<not> a_file (up_items u) j) m" for m
    by (rule states_counted_cong [OF len]) (use kind same in \<open>auto simp: same_counts_def\<close>)
  moreover have "\<And>p. p < length (up_items u) \<Longrightarrow> it_kind (item (upd_item i f u) p) = it_kind (item u p)"
    using same by (simp add: same_counts_def)
  ultimately have "counts_exact (upd_item i f u)" using u by (simp add: steady_def counts_exact_def)
  moreover have "sending_files (upd_item i f u) = sending_files u"
    unfolding sending_files_def by (rule tally_cong) (use same kind len in \<open>auto simp: in_state_def same_counts_def\<close>)
  moreover have "tree_shape (up_items (upd_item i f u))"
    using u tree_shape_cong [OF len] same by (simp add: steady_def same_counts_def)
  moreover have "replaces_asked asked (upd_item i f u)"
    using u r by (auto simp: steady_def replaces_asked_def item_upd_item)
  ultimately show ?thesis using u by (simp add: steady_def)
qed

section \<open>The two writers of the counts\<close>

text \<open>Counts over items one of which is changed, its kind and its folder kept, are over the same selections.\<close>

lemma counted_update:
  assumes "it_kind x = it_kind (items ! i)" and "it_parent x = it_parent (items ! i)"
  shows "totals_counted (items[i := x]) (a_file (items[i := x])) (\<lambda>i. True) t = totals_counted (items[i := x]) (a_file items) (\<lambda>i. True) t"
    and "totals_counted (items[i := x]) (a_file (items[i := x])) (is_under (items[i := x]) p) t
       = totals_counted (items[i := x]) (a_file items) (is_under items p) t"
    and "states_counted (items[i := x]) (\<lambda>j. \<not> a_file (items[i := x]) j) m = states_counted (items[i := x]) (\<lambda>j. \<not> a_file items j) m"
    and "tally (items[i := x]) (a_file (items[i := x])) f = tally (items[i := x]) (a_file items) f"
    and "j < length items \<Longrightarrow> it_kind (items[i := x] ! j) = it_kind (items ! j)"
proof -
  have kept: "\<And>j. j < length items \<Longrightarrow> it_kind (items[i := x] ! j) = it_kind (items ! j) \<and> it_parent (items[i := x] ! j) = it_parent (items ! j)"
    using assms by (auto simp: nth_update)
  have shape: "j < length items \<Longrightarrow> a_file (items[i := x]) j = a_file items j" "j < length items \<Longrightarrow> is_under (items[i := x]) p j = is_under items p j" for j p
    by (rule same_shape; use kept in simp)+
  show "totals_counted (items[i := x]) (a_file (items[i := x])) (\<lambda>i. True) t = totals_counted (items[i := x]) (a_file items) (\<lambda>i. True) t"
    "totals_counted (items[i := x]) (a_file (items[i := x])) (is_under (items[i := x]) p) t
       = totals_counted (items[i := x]) (a_file items) (is_under items p) t"
    by (rule totals_counted_cong; simp add: shape same_counts_def)+
  show "states_counted (items[i := x]) (\<lambda>j. \<not> a_file (items[i := x]) j) m = states_counted (items[i := x]) (\<lambda>j. \<not> a_file items j) m"
    by (rule states_counted_cong; simp add: shape)
  show "tally (items[i := x]) (a_file (items[i := x])) f = tally (items[i := x]) (a_file items) f"
    by (rule tally_cong; simp add: shape)
  show "j < length items \<Longrightarrow> it_kind (items[i := x] ! j) = it_kind (items ! j)" using kept by simp
qed

lemma above_update:
  assumes "it_parent x = it_parent (items ! i)"
  shows "j < length items \<Longrightarrow> above (items[i := x]) j = above items j"
  by (rule above_cong) (use assms in \<open>auto simp: nth_update\<close>)

lemma setState_items: "up_items (setState i st u) = (up_items u)[i := (item u i)\<lparr>it_state := st\<rparr>]"
  by (auto simp: setState_def upd_item_def upd_totals_def markFolders_def Let_def list_update_beyond)

lemma addAcked_items: "up_items (addAcked i d u) = (up_items u)[i := (item u i)\<lparr>it_acked := it_acked (item u i) + d\<rparr>]"
  by (auto simp: addAcked_def upd_item_def upd_totals_def markFolders_def Let_def list_update_beyond)

lemma setState_rest [simp]:
  "up_onConflict (setState i st u) = up_onConflict u" "up_calls (setState i st u) = up_calls u" "up_source (setState i st u) = up_source u"
  "up_backend (setState i st u) = up_backend u"
  by (simp_all add: setState_def upd_item_def upd_totals_def markFolders_def Let_def)

lemma addAcked_rest [simp]:
  "up_onConflict (addAcked i st u) = up_onConflict u" "up_calls (addAcked i st u) = up_calls u" "up_source (addAcked i st u) = up_source u"
  "up_backend (addAcked i st u) = up_backend u"
  by (simp_all add: addAcked_def upd_item_def upd_totals_def markFolders_def Let_def)

lemma folders_updated:
  assumes shape: "tree_shape items" and i: "i < length items"
    and old: "\<forall>p < length items. it_kind (items ! p) = Dir \<longrightarrow> (\<exists>t. map_get m p = Some t \<and> totals_counted items F (is_under items p) t)"
    and new: "\<And>p t. totals_counted items F (is_under items p) t \<Longrightarrow> is_under items p i \<Longrightarrow> totals_counted items' F (is_under items p) (f t)"
    and out: "\<And>p t. totals_counted items F (is_under items p) t \<Longrightarrow> \<not> is_under items p i \<Longrightarrow> totals_counted items' F (is_under items p) t"
    and p: "p < length items" "it_kind (items ! p) = Dir"
  shows "\<exists>t. map_get (foldl (\<lambda>m p. case map_get m p of None \<Rightarrow> m | Some t \<Rightarrow> map_set p (f t) m) m (above items i)) p = Some t
     \<and> totals_counted items' F (is_under items p) t"
proof -
  obtain t where t: "map_get m p = Some t" "totals_counted items F (is_under items p) t" using old p by blast
  show ?thesis
    using t new [OF t(2)] out [OF t(2)] map_update_each [OF above_shape(1) [OF shape i], of f m p] by (cases "is_under items p i") (auto simp: is_under_def)
qed

lemma counts_exact_setState:
  assumes shape: "tree_shape (up_items u)" and u: "counts_exact u"
  shows "counts_exact (setState i st u)"
proof -
  let ?x = "(item u i)\<lparr>it_state := st\<rparr>" and ?items = "(up_items u)[i := (item u i)\<lparr>it_state := st\<rparr>]"
  let ?F = "a_file (up_items u)" and ?U = "is_under (up_items u)"
  note counted = counted_update [of ?x "up_items u" i, simplified]
  consider (unmoved) "i \<ge> length (up_items u) \<or> it_state (item u i) = st"
    | (folder) "i < length (up_items u)" "it_state (item u i) \<noteq> st" "\<not> ?F i"
    | (one_file) "i < length (up_items u)" "it_state (item u i) \<noteq> st" "?F i" by linarith
  then show ?thesis
  proof cases
    case unmoved
    then have "?items = up_items u" by (auto simp: list_update_beyond)
    with unmoved u show ?thesis by (auto simp: counts_exact_def setState_def upd_item_def Let_def)
  next
    case folder
    then have new: "up_totals (setState i st u) = up_totals u" "up_folderTotals (setState i st u) = up_folderTotals u"
        "up_folderStates (setState i st u) = move_count (it_state (item u i)) st (up_folderStates u)"
      by (simp_all add: setState_def Let_def item_upd_item a_file_def)
    have "totals_counted ?items ?F Q t" if "totals_counted (up_items u) ?F Q t" for Q t
      using totals_counted_out [OF that, of i ?x] folder by simp
    moreover have "states_counted ?items (\<lambda>j. \<not> ?F j) (move_count (it_state (item u i)) st (up_folderStates u))"
      using states_counted_move [of "up_items u" "\<lambda>j. \<not> ?F j" "up_folderStates u" i ?x st] u folder by (simp add: counts_exact_def)
    ultimately show ?thesis using u unfolding counts_exact_def new setState_items by (simp add: counted) blast
  next
    case one_file
    let ?f = "\<lambda>t. t\<lparr>tt_states := move_count (it_state (item u i)) st (tt_states t)\<rparr>"
    have new: "up_totals (setState i st u) = ?f (up_totals u)" "up_folderStates (setState i st u) = up_folderStates u"
      "up_folderTotals (setState i st u)
         = foldl (\<lambda>m p. case map_get m p of None \<Rightarrow> m | Some t \<Rightarrow> map_set p (?f t) m) (up_folderTotals u) (above (up_items u) i)"
      using one_file by (simp_all add: setState_def upd_totals_def markFolders_def Let_def item_upd_item upd_item_items above_update a_file_def)
    have moved: "totals_counted ?items ?F Q (?f t)" if "totals_counted (up_items u) ?F Q t" "Q i" for Q t
      using totals_counted_move [OF that(1) one_file(1,3) that(2) one_file(2)] by simp
    have unmoved: "totals_counted ?items ?F Q t" if "totals_counted (up_items u) ?F Q t" "\<not> Q i" for Q t
      using totals_counted_out [OF that(1), of i ?x] that(2) by simp
    have "totals_counted ?items ?F (\<lambda>i. True) (?f (up_totals u))" using u moved by (simp add: counts_exact_def)
    moreover have "states_counted ?items (\<lambda>j. \<not> ?F j) (up_folderStates u)"
      using u one_file by (simp add: counts_exact_def states_counted_out)
    moreover have "\<exists>t. map_get (up_folderTotals (setState i st u)) p = Some t \<and> totals_counted ?items ?F (?U p) t"
      if "p < length (up_items u)" "it_kind (item u p) = Dir" for p
      unfolding new by (rule folders_updated [OF shape one_file(1) _ moved unmoved that]) (use u in \<open>simp_all add: counts_exact_def\<close>)
    ultimately show ?thesis by (simp add: counts_exact_def setState_items new(1,2) counted)
  qed
qed

lemma counts_exact_addAcked:
  assumes shape: "tree_shape (up_items u)" and u: "counts_exact u"
  shows "counts_exact (addAcked i d u)"
proof (cases "i \<ge> length (up_items u) \<or> d = 0")
  case True
  then have "addAcked i d u = u" by (auto simp: addAcked_def)
  with u show ?thesis by simp
next
  case False
  let ?x = "(item u i)\<lparr>it_acked := it_acked (item u i) + d\<rparr>" and ?items = "(up_items u)[i := (item u i)\<lparr>it_acked := it_acked (item u i) + d\<rparr>]"
  let ?f = "\<lambda>t. t\<lparr>tt_acked := tt_acked t + d\<rparr>" and ?F = "a_file (up_items u)" and ?U = "is_under (up_items u)"
  note counted = counted_update [of ?x "up_items u" i, simplified]
  have new: "up_totals (addAcked i d u) = ?f (up_totals u)" "up_folderStates (addAcked i d u) = up_folderStates u"
    "up_folderTotals (addAcked i d u)
       = foldl (\<lambda>m p. case map_get m p of None \<Rightarrow> m | Some t \<Rightarrow> map_set p (?f t) m) (up_folderTotals u) (above (up_items u) i)"
    using False by (simp_all add: addAcked_def upd_totals_def markFolders_def Let_def item_upd_item upd_item_items above_update)
  have moved: "totals_counted ?items ?F Q (?f t)" if "totals_counted (up_items u) ?F Q t" "Q i" for Q t
    using totals_counted_acked [OF that(1) _ that(2) refl] False by simp
  have unmoved: "totals_counted ?items ?F Q t" if "totals_counted (up_items u) ?F Q t" "\<not> Q i" for Q t
    using totals_counted_out [OF that(1), of i ?x] that(2) by simp
  have "totals_counted ?items ?F (\<lambda>i. True) (?f (up_totals u))" using u moved by (simp add: counts_exact_def)
  moreover have "states_counted ?items (\<lambda>j. \<not> ?F j) (up_folderStates u)" using u by (simp add: counts_exact_def states_counted_same)
  moreover have "\<exists>t. map_get (up_folderTotals (addAcked i d u)) p = Some t \<and> totals_counted ?items ?F (?U p) t"
    if "p < length (up_items u)" "it_kind (item u p) = Dir" for p
    unfolding new by (rule folders_updated [OF shape _ _ moved unmoved that]) (use u False in \<open>simp_all add: counts_exact_def\<close>)
  ultimately show ?thesis by (simp add: counts_exact_def addAcked_items new(1,2) counted)
qed

section \<open>The fuel is enough\<close>

text \<open>Each of the folders an item is in, from the nearest on, and then none.\<close>

fun chained :: "Item list \<Rightarrow> nat \<Rightarrow> nat list \<Rightarrow> bool" where
  "chained items p [] = (it_parent (items ! p) = None)"
| "chained items p (q # qs) = (it_parent (items ! p) = Some q \<and> chained items q qs)"

lemma parents_from_chained:
  assumes "tree_shape items" and "p < length items" and "length (parents_from items f (it_parent (items ! p))) < f"
  shows "chained items p (parents_from items f (it_parent (items ! p)))"
  using assms(2,3)
proof (induction f arbitrary: p)
  case (Suc f)
  then show ?case using assms(1) by (cases "it_parent (items ! p)") (auto simp: tree_shape_def)
qed simp

lemma above_short:
  assumes "tree_shape items" and "j < length items"
  shows "length (above items j) < length items"
proof -
  have "\<And>p. it_parent (items ! j) = Some p \<Longrightarrow>
      p < length items \<and> it_kind (items ! p) = Dir \<and> depth (it_relPath (items ! p)) < depth (it_relPath (items ! j))"
    using assms by (auto simp: tree_shape_def)
  from parents_from_deeper [OF assms(1) this, of "it_parent (items ! j)" "length items"]
  have "distinct (above items j)" "set (above items j) \<subseteq> {..<length items} - {j}" by (auto simp: above_def)
  then have "length (above items j) \<le> card ({..<length items} - {j})" by (metis card_mono distinct_card finite_Diff finite_lessThan)
  then show ?thesis using assms(2) by simp
qed

lemma above_chained:
  assumes "tree_shape items" and "j < length items"
  shows "chained items j (above items j)"
  unfolding above_def by (rule parents_from_chained [OF assms]) (use above_short [OF assms] in \<open>simp add: above_def\<close>)

lemma chained_parent:
  assumes "chained items j xs" and "m \<le> length xs"
  shows "it_parent (items ! ((j # xs) ! m)) = Some i \<longleftrightarrow> m < length xs \<and> xs ! m = i"
  using assms
proof (induction xs arbitrary: j m)
  case (Cons x xs)
  then show ?case by (cases m) auto
qed simp

definition linked :: "Item list \<Rightarrow> bool" where
  "linked items \<longleftrightarrow> tree_shape items \<and> (\<forall>i < length items. it_children (items ! i) = filter (\<lambda>j. it_parent (items ! j) = Some i) [0..<length items])"

lemma walk_levels:
  assumes "linked (up_items u)" and "i < length (up_items u)"
  shows "set (walk k u i) = {j. j < length (up_items u) \<and> (\<exists>m < k. m \<le> length (above (up_items u) j) \<and> (j # above (up_items u) j) ! m = i)}"
  using assms(2)
proof (induction k arbitrary: i)
  case (Suc k)
  have children: "set (it_children (item u i)) = {c. c < length (up_items u) \<and> it_parent (item u c) = Some i}"
    using assms(1) Suc.prems by (auto simp: linked_def)
  have "(\<exists>c < length (up_items u). it_parent (item u c) = Some i \<and> (\<exists>m < k. m \<le> length (above (up_items u) j) \<and> (j # above (up_items u) j) ! m = c))
      \<longleftrightarrow> (\<exists>m < k. m < length (above (up_items u) j) \<and> above (up_items u) j ! m = i)" if j: "j < length (up_items u)" for j
  proof -
    have shape: "tree_shape (up_items u)" using assms(1) by (simp add: linked_def)
    have "(j # above (up_items u) j) ! m < length (up_items u)" if "m \<le> length (above (up_items u) j)" for m
      using that j above_shape(2) [OF shape j] by (cases m) auto
    then show ?thesis using chained_parent [OF above_chained [OF shape j]] by (metis less_imp_le_nat)
  qed
  moreover have "(\<exists>m < Suc k. m \<le> length xs \<and> (j # xs) ! m = i) \<longleftrightarrow> j = i \<or> (\<exists>m < k. m < length xs \<and> xs ! m = i)" for j and xs :: "nat list"
    by (auto simp: Ex_less_Suc2 Suc_le_eq)
  moreover have "set (walk (Suc k) u i) = insert i (\<Union>c \<in> set (it_children (item u i)). set (walk k u c))" by simp
  ultimately show ?case using Suc.IH Suc.prems children by auto
qed simp

text \<open>The items a scope covers are the one it names and all that is under it: the number of items is fuel enough.\<close>

lemma walk_exact:
  assumes "linked (up_items u)" and "i < length (up_items u)"
  shows "set (walk (length (up_items u)) u i) = {j. j < length (up_items u) \<and> (j = i \<or> is_under (up_items u) i j)}"
proof -
  have "(\<exists>m < length (up_items u). m \<le> length (above (up_items u) j) \<and> (j # above (up_items u) j) ! m = i) \<longleftrightarrow> i \<in> set (j # above (up_items u) j)"
    if "j < length (up_items u)" for j
    using above_short [OF _ that] assms(1) unfolding in_set_conv_nth linked_def by (metis le_imp_less_Suc le_less_trans length_Cons less_Suc_eq_le)
  then show ?thesis unfolding walk_levels [OF assms] by (intro Collect_cong conj_cong refl) (simp add: is_under_def eq_commute)
qed

end
