(* ===== verification/Transfer_Steady.thy ===== *)
theory Transfer_Steady
  imports Transfer_Counts
begin

text \<open>
  Every operation on an upload keeps \<open>steady\<close>: a lemma per operation, in the order of \<^verbatim>\<open>Transfer_Items\<close>, \<^verbatim>\<open>Transfer_Tasks\<close>, \<^verbatim>\<open>Transfer_Service\<close> and
  \<^verbatim>\<open>Transfer_Machine\<close>, collected in \<open>steady_simps\<close>.
\<close>

named_theorems steady_simps \<open>operations that keep an upload steady\<close>

section \<open>Items and queues\<close>

lemma steady_setState:
  assumes u: "steady asked k src u" and k: "sending_files u + (if st = Sending then 1 else 0) \<le> k'"
  shows "steady asked k' src (setState i st u)"
proof -
  let ?x = "(item u i)\<lparr>it_state := st\<rparr>"
  note counted = counted_update [of ?x "up_items u" i, simplified]
  have "tally ((up_items u)[i := ?x]) (a_file (up_items u)) (in_state Sending) \<le> sending_files u + (if st = Sending then 1 else 0)"
    using tally_update [of i "up_items u" "a_file (up_items u)" ?x "in_state Sending"]
      tally_update_out [of "a_file (up_items u)" i "up_items u" ?x "in_state Sending"]
    by (cases "i < length (up_items u) \<and> a_file (up_items u) i") (auto simp: sending_files_def in_state_def list_update_beyond split: if_splits)
  then have "sending_files (setState i st u) \<le> k'" using k by (simp add: sending_files_def setState_items counted)
  moreover have "tree_shape (up_items (setState i st u)) = tree_shape (up_items u)"
    unfolding setState_items by (rule tree_shape_cong) (auto simp: nth_update)
  moreover have "replaces_asked asked (setState i st u)" using u by (auto simp: steady_def replaces_asked_def setState_items nth_update split: if_splits)
  ultimately show ?thesis using u counts_exact_setState [of u i st] by (simp add: steady_def)
qed

lemma steady_setState_other [steady_simps]: "steady asked k src u \<Longrightarrow> st \<noteq> Sending \<Longrightarrow> steady asked k src (setState i st u)"
  by (rule steady_setState) (auto simp: steady_def)

lemma steady_addAcked [steady_simps]:
  assumes u: "steady asked k src u"
  shows "steady asked k src (addAcked i d u)"
proof -
  let ?x = "(item u i)\<lparr>it_acked := it_acked (item u i) + d\<rparr>"
  note counted = counted_update [of ?x "up_items u" i, simplified]
  have "sending_files (addAcked i d u) = sending_files u" by (simp add: sending_files_def addAcked_items counted tally_same in_state_def)
  moreover have "tree_shape (up_items (addAcked i d u)) = tree_shape (up_items u)"
    unfolding addAcked_items by (rule tree_shape_cong) (auto simp: nth_update)
  moreover have "replaces_asked asked (addAcked i d u)" using u by (auto simp: steady_def replaces_asked_def addAcked_items nth_update split: if_splits)
  ultimately show ?thesis using u counts_exact_addAcked [of u i d] by (simp add: steady_def)
qed

lemma steady_upd [steady_simps]:
  assumes "steady asked k src u" and "\<And>x. same_counts (f x) x \<and> (it_resolution (f x) = it_resolution x \<or> it_resolution (f x) \<noteq> Some ReplaceIt)"
  shows "steady asked k src (upd_item i f u)"
proof (rule steady_upd_item [OF assms(1)])
  show "same_counts (f x) x" for x using assms(2) by blast
  show "it_resolution (f (item u i)) = Some ReplaceIt \<Longrightarrow> i < length (up_items u) \<Longrightarrow> asked i"
    using assms by (metis replaces_asked_def steady_def)
qed

lemma steady_fields [simp]:
  "steady asked k src (u\<lparr>up_backend := b\<rparr>) = steady asked k src u" "steady asked k src (u\<lparr>up_queue := q\<rparr>) = steady asked k src u"
  "steady asked k src (u\<lparr>up_folderQueue := q\<rparr>) = steady asked k src u" "steady asked k src (u\<lparr>up_creatingFolders := c\<rparr>) = steady asked k src u"
  "steady asked k src (u\<lparr>up_waiting := w\<rparr>) = steady asked k src u" "steady asked k src (u\<lparr>up_dirtyItems := d\<rparr>) = steady asked k src u"
  "steady asked k src (u\<lparr>up_dirtyFolders := d\<rparr>) = steady asked k src u" "steady asked k src (u\<lparr>up_conflicts := cs\<rparr>) = steady asked k src u"
  "steady asked k src (u\<lparr>up_flushTimer := c\<rparr>) = steady asked k src u" "steady asked k src (u\<lparr>up_flushSoon := c\<rparr>) = steady asked k src u"
  "steady asked k src (u\<lparr>up_doneSaid := c\<rparr>) = steady asked k src u" "steady asked k src (u\<lparr>up_forgetTimer := c\<rparr>) = steady asked k src u"
  "steady asked k src (u\<lparr>up_busy := n\<rparr>) = steady asked k src u" "steady asked k src (u\<lparr>up_reason := r\<rparr>) = steady asked k src u"
  "steady asked k src (u\<lparr>up_linkDropped := c\<rparr>) = steady asked k src u" "steady asked k src (u\<lparr>up_stale := c\<rparr>) = steady asked k src u"
  "steady asked k src (u\<lparr>up_said := sd\<rparr>) = steady asked k src u" "steady asked k src (u\<lparr>up_tasks := ts\<rparr>) = steady asked k src u"
  "steady asked k src (u\<lparr>up_sent := ms\<rparr>) = steady asked k src u" "steady asked k src (u\<lparr>up_answers := as\<rparr>) = steady asked k src u"
  by (simp_all add: steady_def counts_exact_def replaces_asked_def sending_files_def)

fun replacing :: "host_call \<Rightarrow> bool" where
  "replacing (CallPlace _ _ _ replace) = replace"
| "replacing _ = False"

lemma steady_call_asked:
  assumes u: "steady asked k src u" and c: "\<And>i temp target. c = CallPlace i temp target True \<Longrightarrow> i < length (up_items u) \<Longrightarrow> asked i"
  shows "steady asked k src (call c u)"
proof -
  have "replaces_asked asked (call c u)" using u c unfolding steady_def replaces_asked_def call_def by simp metis
  then show ?thesis using u by (simp add: steady_def counts_exact_def sending_files_def call_def)
qed

lemma steady_call [steady_simps]: "steady asked k src u \<Longrightarrow> \<not> replacing c \<Longrightarrow> steady asked k src (call c u)"
  by (erule steady_call_asked) auto

lemma steady_fold: "steady asked k src u \<Longrightarrow> (\<And>u i. steady asked k src u \<Longrightarrow> steady asked k src (f u i)) \<Longrightarrow> steady asked k src (foldl f u is)"
  by (rule foldl_inv)

lemma steady_add_task [simp]: "steady asked k src (add_task t u) = steady asked k src u"
  by (simp add: add_task_def)

lemma steady_settle [simp]: "steady asked k src (settle now u) = steady asked k src u"
  by (simp add: settle_def)

lemma steady_enqueue [simp]: "steady asked k src (enqueue i u) = steady asked k src u"
  by (simp add: enqueue_def Let_def)

lemma steady_enqueueReady [steady_simps]: "steady asked k src u \<Longrightarrow> steady asked k src (enqueueReady folder u)"
  by (cases folder) (auto simp: enqueueReady_def enqueue_queued_def Let_def intro!: steady_fold)

lemma steady_release [steady_simps]: "steady asked k src u \<Longrightarrow> steady asked k src (releaseBackend u)"
  by (simp add: releaseBackend_def steady_simps)

lemma steady_backendOf [steady_simps]: "steady asked k src u \<Longrightarrow> steady asked k src (backendOf next u)"
  by (simp add: backendOf_def steady_simps)

lemma steady_restartFile [steady_simps]: "steady asked k src u \<Longrightarrow> steady asked k src (restartFile i u)"
  by (simp add: restartFile_def steady_simps same_counts_def)

lemma steady_abort_sink [steady_simps]: "steady asked k src u \<Longrightarrow> steady asked k src (abort_sink sink u)"
  by (cases sink) (simp_all add: abort_sink_def steady_simps)

lemma steady_remove_temp [steady_simps]: "steady asked k src u \<Longrightarrow> steady asked k src (remove_temp temp u)"
  by (cases temp) (simp_all add: remove_temp_def steady_simps)

lemma steady_interrupt [steady_simps]: "steady asked k src u \<Longrightarrow> steady asked k src (interrupt reason i u)"
  by (simp add: interrupt_def Let_def steady_simps same_counts_def)

lemma steady_interruptAll [steady_simps]: "steady asked k src u \<Longrightarrow> steady asked k src (interruptAll reason u)"
  by (auto simp: interruptAll_def Let_def steady_simps intro!: steady_release steady_fold)

lemma steady_fileFailed [steady_simps]: "steady asked k src u \<Longrightarrow> steady asked k src (fileFailed e i u)"
  by (simp add: fileFailed_def Let_def steady_simps same_counts_def)

lemma steady_filePlaced [steady_simps]: "steady asked k src u \<Longrightarrow> steady asked k src (filePlaced i path outcome u)"
  by (simp add: filePlaced_def steady_simps same_counts_def)

lemma steady_afterStop [steady_simps]: "steady asked k src u \<Longrightarrow> steady asked k src (afterStop i sink after u)"
  by (simp add: afterStop_def steady_simps)

lemma steady_stopped [steady_simps]: "steady asked k src u \<Longrightarrow> steady asked k src (stopped i u)"
  by (simp add: stopped_def Let_def steady_simps)

lemma steady_stopItem [steady_simps]: "steady asked k src u \<Longrightarrow> steady asked k src (stopItem n u i)"
proof (induction n arbitrary: u i)
  case (Suc n)
  then show ?case by (auto simp: Let_def steady_simps same_counts_def intro!: steady_fold)
qed simp

lemma steady_skip [steady_simps]: "steady asked k src u \<Longrightarrow> steady asked k src (skip n u i)"
proof (induction n arbitrary: u i)
  case (Suc n)
  then show ?case by (auto simp: Let_def steady_simps same_counts_def intro!: steady_fold)
qed simp

lemma steady_failSubtree [steady_simps]: "steady asked k src u \<Longrightarrow> steady asked k src (failSubtree n code reason u i)"
proof (induction n arbitrary: u i reason)
  case (Suc n)
  then show ?case by (auto simp: Let_def steady_simps same_counts_def intro!: steady_fold)
qed simp

lemma steady_skip_item [steady_simps]: "steady asked k src u \<Longrightarrow> steady asked k src (skip_item i u)"
  by (simp add: skip_item_def steady_simps)

lemma steady_fail_item [steady_simps]: "steady asked k src u \<Longrightarrow> steady asked k src (fail_item code reason i u)"
  by (simp add: fail_item_def steady_simps)

lemma steady_place [steady_simps]: "steady asked k src u \<Longrightarrow> steady asked k src (place i u)"
  by (simp add: place_def Let_def steady_simps)

lemma steady_say_conflict [simp]: "steady asked k src (say_conflict i existing clash u) = steady asked k src u"
  by (simp add: say_conflict_def)

text \<open>What the policy or an answer asks for: the one way an item comes to replace another.\<close>

lemma steady_resolution:
  assumes "steady asked k src u" and "action = ReplaceIt \<Longrightarrow> i < length (up_items u) \<Longrightarrow> asked i"
  shows "steady asked k src (upd_item i (\<lambda>x. x\<lparr>it_resolution := Some action\<rparr>) u)"
  by (rule steady_upd_item [OF assms(1)]) (use assms(2) in \<open>auto simp: same_counts_def\<close>)

lemma steady_policy: "steady asked k src u \<Longrightarrow> up_onConflict u = OnReplace \<Longrightarrow> asked i"
  by (simp add: steady_def replaces_asked_def)

lemma steady_conflictFound [steady_simps]:
  assumes "steady asked k src u"
  shows "steady asked k src (conflictFound i existing u)"
proof -
  let ?u = "\<lambda>clash. upd_item i (\<lambda>x. x\<lparr>it_existing := existing, it_typeClash := clash, it_late := True\<rparr>) u"
  have u: "steady asked k src (?u clash)" for clash using assms by (simp add: steady_simps same_counts_def)
  have "steady asked k src (upd_item i (\<lambda>x. x\<lparr>it_resolution := Some action\<rparr>) (?u clash))"
    if "action = ReplaceIt \<longrightarrow> up_onConflict u = OnReplace" for action clash
    by (rule steady_resolution [OF u]) (use that steady_policy [OF assms] in blast)
  then show ?thesis using u by (cases "up_onConflict u") (simp_all add: conflictFound_def Let_def steady_simps same_counts_def)
qed

lemma steady_folderPlaced [steady_simps]: "steady asked k src u \<Longrightarrow> steady asked k src (folderPlaced i path outcome u)"
  by (simp add: folderPlaced_def steady_simps same_counts_def)

lemma steady_folderClash [steady_simps]: "steady asked k src u \<Longrightarrow> steady asked k src (folderClash i existing u)"
  by (simp add: folderClash_def Let_def steady_simps same_counts_def split: TransferOnConflict.splits)

lemma steady_requeue [steady_simps]: "steady asked k src u \<Longrightarrow> steady asked k src (requeue i u)"
  by (simp add: requeue_def Let_def steady_simps same_counts_def)

lemma steady_requeue_folders: "steady asked k src (snd st) \<Longrightarrow> steady asked k src (snd (requeue_folders ps st))"
  by (induction ps st rule: requeue_folders.induct) (auto simp: steady_simps)

lemma steady_requeue_one: "steady asked k src (snd st) \<Longrightarrow> steady asked k src (snd (requeue_one st i))"
  using steady_requeue_folders [of asked k src st "above (up_items (snd st)) i"]
  by (auto simp: requeue_one_def Let_def steady_simps split: prod.splits)

lemma steady_requeueAll [steady_simps]:
  assumes "steady asked k src u"
  shows "steady asked k src (requeueAll again u)"
proof -
  have "steady asked k src (snd (foldl requeue_one ([], u) again))"
    by (rule foldl_inv [where P = "\<lambda>st. steady asked k src (snd st)"]) (use assms steady_requeue_one in auto)
  then show ?thesis by (simp add: requeueAll_def Let_def steady_simps)
qed

section \<open>Promises\<close>

lemma steady_finishFile [steady_simps]: "steady asked k src u \<Longrightarrow> steady asked k src (fst (finishFile i u))"
  by (simp add: finishFile_def Let_def steady_simps same_counts_def split: option.splits)

lemma steady_open_resolved [steady_simps]: "steady asked k src u \<Longrightarrow> steady asked k src (fst (open_resolved i u))"
  by (simp add: open_resolved_def Let_def steady_simps same_counts_def)

lemma steady_open_rejected [steady_simps]: "steady asked k src u \<Longrightarrow> steady asked k src (fst (open_rejected e i u))"
  by (simp add: open_rejected_def Let_def steady_simps same_counts_def)

lemma steady_open_temp [steady_simps]: "steady asked k src u \<Longrightarrow> steady asked k src (open_temp i target second u)"
  by (simp add: open_temp_def Let_def steady_simps)

lemma steady_openDirect [steady_simps]: "steady asked k src u \<Longrightarrow> steady asked k src (fst (openDirect i parent n keepBoth u))"
  by (simp add: openDirect_def steady_simps)

lemma steady_with_new_temp [steady_simps]: "steady asked k src u \<Longrightarrow> steady asked k src (fst (with_new_temp i target rnd second u))"
  by (simp add: with_new_temp_def steady_simps same_counts_def split: option.splits)

lemma steady_open_decided [steady_simps]: "steady asked k src u \<Longrightarrow> steady asked k src (fst (open_decided i parent target rnd direct u))"
  by (simp add: open_decided_def Let_def steady_simps same_counts_def)

lemma steady_open_new [steady_simps]: "steady asked k src u \<Longrightarrow> steady asked k src (fst (open_new i parent target rnd u))"
  by (simp add: open_new_def steady_simps)

lemma steady_open_over [steady_simps]: "steady asked k src u \<Longrightarrow> steady asked k src (fst (open_over i parent target u))"
  by (simp add: open_over_def steady_simps)

lemma steady_open_from [steady_simps]: "steady asked k src u \<Longrightarrow> steady asked k src (fst (open_from be i rnd u))"
  by (simp add: open_from_def Let_def steady_simps)

lemma steady_open_stat [steady_simps]: "steady asked k src u \<Longrightarrow> steady asked k src (fst (open_stat i transport parent target rnd sz u))"
  by (simp add: open_stat_def Let_def steady_simps)

lemma steady_opened [steady_simps]: "steady asked k src u \<Longrightarrow> steady asked k src (fst (opened i temp u))"
  by (simp add: opened_def steady_simps same_counts_def)

lemma steady_place_done [simp]: "steady asked k src (fst (place_done u)) = steady asked k src u"
  by (simp add: place_done_def)

lemma steady_place_failed [steady_simps]: "steady asked k src u \<Longrightarrow> steady asked k src (fst (place_failed e i u))"
  by (simp add: place_failed_def steady_simps)

lemma steady_place_keep [steady_simps]: "steady asked k src u \<Longrightarrow> steady asked k src (fst (place_keep i parent temp n u))"
  by (simp add: place_keep_def steady_simps)

lemma steady_place_from [steady_simps]:
  assumes "steady asked k src u"
  shows "steady asked k src (fst (place_from i u))"
proof (cases "it_resolution (item u i)")
  case (Some action)
  have "steady asked k src (call (CallPlace i temp target True) u)" if "action = ReplaceIt" for temp target
    by (rule steady_call_asked [OF assms]) (use assms Some that in \<open>auto simp: steady_def replaces_asked_def\<close>)
  with Some assms show ?thesis by (cases action) (simp_all add: place_from_def Let_def steady_simps)
qed (use assms in \<open>simp add: place_from_def Let_def steady_simps\<close>)

lemma steady_finished [steady_simps]: "steady asked k src u \<Longrightarrow> steady asked k src (fst (finished i v u))"
  by (simp add: finished_def Let_def steady_simps same_counts_def)

lemma steady_folders_end [simp]: "steady asked k src (fst (folders_end u)) = steady asked k src u"
  by (simp add: folders_end_def)

lemma steady_folders_next [steady_simps]: "steady asked k src u \<Longrightarrow> steady asked k src (fst (folders_next u))"
  by (simp add: folders_next_def Let_def steady_simps)

lemma steady_createFolders [steady_simps]: "steady asked k src u \<Longrightarrow> steady asked k src (fst (createFolders u))"
  by (simp add: createFolders_def steady_simps)

lemma steady_folders_failed [steady_simps]: "steady asked k src u \<Longrightarrow> steady asked k src (fst (folders_failed e u))"
  by (auto simp: folders_failed_def Let_def steady_simps intro!: steady_interruptAll steady_fold)

lemma steady_folders_from [steady_simps]: "steady asked k src u \<Longrightarrow> steady asked k src (fst (folders_from batch plain u))"
  by (simp add: folders_from_def Let_def steady_simps)

lemma steady_folder_made [steady_simps]: "steady asked k src u \<Longrightarrow> steady asked k src (folder_made u r)"
  by (simp add: folder_made_def Let_def steady_simps split: prod.splits folder_result.splits)

lemma steady_keep_folders [steady_simps]: "steady asked k src u \<Longrightarrow> steady asked k src (fst (keep_folders is u))"
  by (induction "is") (auto simp: steady_simps)

lemma steady_folders_made [steady_simps]: "steady asked k src u \<Longrightarrow> steady asked k src (fst (folders_made batch paths results u))"
  by (auto simp: folders_made_def Let_def steady_simps intro!: steady_keep_folders steady_fold)

lemma steady_folder_kept [steady_simps]: "steady asked k src u \<Longrightarrow> steady asked k src (fst (folder_kept i n rest results u))"
  by (auto simp: folder_kept_def steady_simps same_counts_def split: list.splits folder_result.splits)

lemma steady_got_backend [steady_simps]: "steady asked k src u \<Longrightarrow> steady asked k src (fst (got_backend have_be next rnd a u))"
  by (auto simp: got_backend_def go_on_def go_wrong_def steady_simps split: option.splits answer.splits after_backend.splits)

lemma steady_answer_chunk [simp]: "steady asked k src (answer_chunk i a u) = steady asked k src u"
  by (simp add: answer_chunk_def)

lemma steady_written [steady_simps]:
  assumes "steady asked k src u"
  shows "steady asked k src (fst (written i sink data a u))"
proof -
  have acked: "steady asked k src (addAcked i n (upd_item i (\<lambda>x. x\<lparr>it_hash := h x\<rparr>) (upd_item i (\<lambda>x. x\<lparr>it_writing := False\<rparr>) u)))" for n h
    using assms by (simp add: steady_simps same_counts_def)
  show ?thesis
  proof (cases a)
    case (AnswerError e)
    with assms show ?thesis by (simp add: written_def steady_simps same_counts_def)
  qed (use assms acked in \<open>simp_all add: written_def Let_def split_beta steady_simps same_counts_def\<close>)
qed

lemma steady_write_chunk [steady_simps]: "steady asked k src u \<Longrightarrow> steady asked k src (write_chunk i offset data u)"
  by (simp add: write_chunk_def Let_def steady_simps same_counts_def split: option.splits)

lemma steady_run_task:
  assumes "steady asked k src u"
  shows "steady asked k src (fst (run_task t rnd a u))"
proof (cases t)
  case (TOpenDirect i parent n keepBoth)
  with assms show ?thesis by (cases a) (simp_all add: Let_def steady_simps same_counts_def)
next
  case (TPlaceKeep i parent temp n)
  with assms show ?thesis by (cases a) (simp_all add: Let_def steady_simps same_counts_def)
qed (use assms in \<open>auto simp: steady_simps split: answer.splits after_stop.splits\<close>)

lemma steady_admit: "steady asked k src u \<Longrightarrow> sending_files u < k \<Longrightarrow> steady asked k src (admit i u)"
  using steady_setState [of asked k src u Sending k i] by (simp add: admit_def steady_simps same_counts_def)

section \<open>Control\<close>

lemma steady_resolve_item:
  assumes u: "steady asked k src u" and asked: "action = ReplaceIt \<Longrightarrow> i < length (up_items u) \<Longrightarrow> asked i"
  shows "steady asked k src (resolve_item action u i)"
proof -
  have "steady asked k src (upd_item i (\<lambda>x. x\<lparr>it_resolution := Some action\<rparr>) u)" by (rule steady_resolution [OF u]) (fact asked)
  then show ?thesis using u by (simp add: resolve_item_def Let_def steady_simps)
qed

lemma steady_cancel_item [steady_simps]: "steady asked k src u \<Longrightarrow> steady asked k src (cancel_item u i)"
  by (simp add: cancel_item_def steady_simps)

lemma steady_interrupt_closed [steady_simps]: "steady asked k src u \<Longrightarrow> steady asked k src (interrupt_closed u)"
  by (auto simp: interrupt_closed_def steady_simps intro!: steady_release steady_fold)

lemma steady_policy_item [steady_simps]:
  assumes u: "steady asked k src u"
  shows "steady asked k src (policy_item u i)"
proof -
  have "steady asked k src (upd_item i (\<lambda>x. x\<lparr>it_resolution := Some action\<rparr>) u)" if "action = ReplaceIt \<longrightarrow> up_onConflict u = OnReplace" for action
    by (rule steady_resolution [OF u]) (use that steady_policy [OF u] in blast)
  then show ?thesis using u by (cases "up_onConflict u") (simp_all add: policy_item_def Let_def steady_simps)
qed

lemma steady_applyPolicy [steady_simps]: "steady asked k src u \<Longrightarrow> steady asked k src (applyPolicy u)"
  by (simp add: applyPolicy_def steady_fold steady_simps)

lemma steady_look_at: "steady asked k src (snd st) \<Longrightarrow> steady asked k src (snd (look_at path entries st i))"
  by (cases st) (simp add: look_at_def Let_def steady_simps same_counts_def split: option.splits)

lemma steady_look_level: "steady asked k src u \<Longrightarrow> steady asked k src (snd (look_level listing level u))"
  unfolding look_level_def
  by (rule foldl_inv [where P = "\<lambda>st. steady asked k src (snd st)"])
    (auto intro!: foldl_inv [where P = "\<lambda>st. steady asked k src (snd st)"] steady_look_at)

lemma steady_look_levels: "steady asked k src u \<Longrightarrow> steady asked k src (snd (look_levels n listing level u))"
proof (induction n arbitrary: level u)
  case (Suc n)
  then show ?case using steady_look_level [OF Suc.prems, of listing level] by (simp add: split_beta Let_def)
qed simp

lemma steady_lookAtDestination: "steady asked k src u \<Longrightarrow> steady asked k src (snd (lookAtDestination listing u))"
  unfolding lookAtDestination_def by (rule steady_look_levels)

section \<open>What is said\<close>

lemma steady_say [simp]: "steady asked k src (say m u) = steady asked k src u"
  by (simp add: say_def)

lemma steady_flush_upload [steady_simps]: "steady asked k src u \<Longrightarrow> steady asked k src (flush_upload u)"
  by (simp add: flush_upload_def say_progress_def say_conflicts_def say_done_def sayState_def Let_def steady_simps)

lemma steady_lose_backend [simp]: "steady asked k src (lose_backend u) = steady asked k src u"
  by (simp add: lose_backend_def)

end
