(* ===== verification/Transfer_Safety.thy ===== *)
theory Transfer_Safety
  imports Transfer_Steady
begin

text \<open>
  What the transfer service promises over a whole run: the counts it says are exact, nothing is replaced that was not asked for, and a window never has more
  files being sent than the limit. First that an upload starts \<open>steady\<close>, then the invariant of the machine of \<^verbatim>\<open>Transfer_Machine\<close>.
\<close>

section \<open>A new upload is steady\<close>

definition below :: "nat \<Rightarrow> (nat \<Rightarrow> bool) \<Rightarrow> nat \<Rightarrow> bool" where
  "below m P i \<longleftrightarrow> P i \<and> i < m"

lemma both_below: "(\<lambda>i. F i \<and> below m Q i) = below m (\<lambda>i. F i \<and> Q i)"
  by (auto simp: below_def)

lemma tally_below_Suc:
  assumes "m < length items"
  shows "tally items (below (Suc m) P) f = tally items (below m P) f + (if P m then f (items ! m) else 0)"
proof -
  have "(\<Sum>i<length items. if below (Suc m) P i then f (items ! i) else 0)
      = (\<Sum>i<length items. (if below m P i then f (items ! i) else 0) + (if i = m then if P m then f (items ! m) else 0 else 0))"
    by (rule sum.cong) (auto simp: below_def less_Suc_eq)
  then show ?thesis using assms by (simp add: tally_def sum.distrib)
qed

lemma tally_below [simp]: "tally items (below 0 P) f = 0" "tally items (below (length items) P) f = tally items P f"
  by (simp add: tally_def below_def) (rule tally_cong, auto simp: below_def)

lemma states_counted_bump:
  assumes "states_counted items (below m P) c" and "m < length items"
  shows "states_counted items (below (Suc m) P) (if P m then bump (it_state (items ! m)) c else c)"
  using assms by (auto simp: states_counted_def tally_below_Suc bump_def Let_def in_state_def)

definition count_one :: "Item \<Rightarrow> Totals \<Rightarrow> Totals" where
  "count_one x t = t\<lparr>tt_files := tt_files t + 1, tt_bytes := tt_bytes t + it_size x, tt_acked := tt_acked t + it_acked x,
     tt_states := bump (it_state x) (tt_states t)\<rparr>"

lemma totals_counted_one:
  assumes t: "totals_counted items F (below m Q) t" and m: "m < length items" and acked: "\<not> F m \<longrightarrow> it_acked (items ! m) = 0"
  shows "totals_counted items F (below (Suc m) Q) (if F m \<and> Q m then count_one (items ! m) t else t)"
  using t acked states_counted_bump [of items m "\<lambda>i. F i \<and> Q i" "tt_states t", OF _ m]
  by (cases "F m"; cases "Q m") (auto simp: totals_counted_def both_below tally_below_Suc [OF m] count_one_def)

text \<open>The counts half way through \<open>count_items\<close>: folders first, then files, in the order of their ids.\<close>

definition counted_to :: "Item list \<Rightarrow> nat \<Rightarrow> Upload \<Rightarrow> bool" where
  "counted_to items m u \<longleftrightarrow>
     up_items u = items \<and> totals_counted items (a_file items) (below m (\<lambda>i. True)) (up_totals u)
     \<and> (\<forall>p < length items. it_kind (items ! p) = Dir \<longrightarrow>
          (\<exists>t. map_get (up_folderTotals u) p = Some t \<and> totals_counted items (a_file items) (below m (is_under items p)) t))
     \<and> states_counted items (\<lambda>i. \<not> a_file items i) (up_folderStates u)"

definition folders_counted :: "Item list \<Rightarrow> Totals \<Rightarrow> nat \<Rightarrow> Upload \<Rightarrow> bool" where
  "folders_counted items t m u \<longleftrightarrow>
     up_items u = items \<and> up_totals u = t \<and> (\<forall>p < m. it_kind (items ! p) = Dir \<longrightarrow> map_get (up_folderTotals u) p = Some emptyTotals)
     \<and> states_counted items (below m (\<lambda>i. \<not> a_file items i)) (up_folderStates u)"

lemma count_folder_step:
  assumes "folders_counted items t m u" and "m < length items"
  shows "folders_counted items t (Suc m) (count_folder u m)"
proof -
  have "states_counted items (below m (\<lambda>i. \<not> a_file items i)) (up_folderStates u)" using assms by (simp add: folders_counted_def)
  from states_counted_bump [OF this assms(2)] assms show ?thesis
    by (cases "it_kind (items ! m)") (auto simp: folders_counted_def count_folder_def a_file_def less_Suc_eq)
qed

lemma count_folders:
  assumes "folders_counted items t 0 u" and "m \<le> length items"
  shows "folders_counted items t m (foldl count_folder u [0..<m])"
  using assms(2)
proof (induction m)
  case (Suc m)
  then show ?case using count_folder_step [of items t m "foldl count_folder u [0..<m]"] by simp
qed (use assms in simp)

lemma count_files:
  assumes shape: "tree_shape items" and dirs: "\<forall>i < length items. it_kind (items ! i) \<noteq> File \<longrightarrow> it_acked (items ! i) = 0"
    and u: "counted_to items 0 u" and m: "m \<le> length items"
  shows "counted_to items m (foldl count_file u [0..<m])"
  using m
proof (induction m)
  case (Suc m)
  let ?u = "foldl count_file u [0..<m]" and ?F = "a_file items"
  have IH: "counted_to items m ?u" and len: "m < length items" using Suc by auto
  have items: "up_items ?u = items" using IH by (simp add: counted_to_def)
  have "\<not> ?F m \<longrightarrow> it_acked (items ! m) = 0" using dirs len by (simp add: a_file_def)
  note one = totals_counted_one [where F = ?F, OF _ len this]
  show ?case
  proof (cases "?F m")
    case False
    then have "count_file ?u m = ?u" by (simp add: count_file_def items a_file_def Let_def)
    moreover have "totals_counted items ?F (below (Suc m) Q) t" if "totals_counted items ?F (below m Q) t" for Q t using one [OF that] False by simp
    ultimately show ?thesis using IH unfolding counted_to_def by simp blast
  next
    case True
    have new: "count_file ?u m = upd_totals m (count_one (items ! m)) ?u"
      using True by (simp add: count_file_def items a_file_def Let_def count_one_def [abs_def])
    have "\<exists>t. map_get (up_folderTotals (count_file ?u m)) p = Some t \<and> totals_counted items ?F (below (Suc m) (is_under items p)) t"
      if p: "p < length items" "it_kind (items ! p) = Dir" for p
    proof -
      obtain t where t: "map_get (up_folderTotals ?u) p = Some t" "totals_counted items ?F (below m (is_under items p)) t"
        using IH p by (auto simp: counted_to_def)
      show ?thesis
        using one [OF t(2)] t(1) True map_update_each [OF above_shape(1) [OF shape len], of "count_one (items ! m)" "up_folderTotals ?u" p]
        by (cases "p \<in> set (above items m)") (simp_all add: new upd_totals_def items is_under_def)
    qed
    moreover have "totals_counted items ?F (below (Suc m) (\<lambda>i. True)) (up_totals (count_file ?u m))"
      using one [of "\<lambda>i. True" "up_totals ?u"] IH True by (simp add: counted_to_def new upd_totals_def)
    ultimately show ?thesis using IH by (simp add: counted_to_def new) (simp add: upd_totals_def)
  qed
qed (use u in simp)

lemma count_items_exact:
  assumes "tree_shape (up_items u)" and "\<forall>x \<in> set (up_items u). it_kind x \<noteq> File \<longrightarrow> it_acked x = 0"
    and "up_folderTotals u = []" and "up_folderStates u = []" and "up_totals u = emptyTotals"
  shows "counts_exact (count_items u)"
proof -
  let ?ids = "[0..<length (up_items u)]"
  have empty: "totals_counted (up_items u) F (below 0 Q) emptyTotals" for F Q
    by (simp add: totals_counted_def both_below states_counted_def emptyTotals_def)
  have "counted_to (up_items u) 0 (foldl count_folder u ?ids)"
    using count_folders [of "up_items u" emptyTotals u "length (up_items u)"] assms empty
    by (simp add: counted_to_def folders_counted_def states_counted_def)
  from count_files [OF assms(1) _ this le_refl] assms(2)
  have "counted_to (up_items u) (length (up_items u)) (count_items u)" by (simp add: count_items_def Let_def)
  then show ?thesis by (simp add: counted_to_def counts_exact_def totals_counted_def both_below states_counted_def)
qed

lemma new_items_shape:
  assumes "tree_wf style tree"
  shows "tree_shape (map new_item (bt_items tree))"
  unfolding tree_shape_def
proof (intro allI impI)
  fix i p
  assume i: "i < length (map new_item (bt_items tree))" and "it_parent (map new_item (bt_items tree) ! i) = Some p"
  then have p: "ti_parent (bt_items tree ! i) = Some p" by (simp add: new_item_def)
  have "item_wf style (bt_items tree) i" using assms i by (simp add: tree_wf_def)
  then have wf: "p < length (bt_items tree)" "ti_kind (bt_items tree ! p) = Dir"
      "path_key style (ti_relPath (bt_items tree ! i)) = path_key style (ti_relPath (bt_items tree ! p) @ slash # ti_name (bt_items tree ! i))"
    using p by (auto simp: item_wf_def Let_def)
  have "depth (ti_relPath (bt_items tree ! i)) = depth (ti_relPath (bt_items tree ! p) @ slash # ti_name (bt_items tree ! i))"
    using wf(3) by (metis depth_key)
  then have "depth (ti_relPath (bt_items tree ! p)) < depth (ti_relPath (bt_items tree ! i))" by (simp add: depth_count)
  then show "p < length (map new_item (bt_items tree)) \<and> it_kind (map new_item (bt_items tree) ! p) = Dir
      \<and> depth (it_relPath (map new_item (bt_items tree) ! p)) < depth (it_relPath (map new_item (bt_items tree) ! i))"
    using wf i by (simp add: new_item_def)
qed

lemma new_items_linked:
  assumes "tree_wf style tree"
  shows "linked (map new_item (bt_items tree))"
proof -
  have "ti_children (bt_items tree ! i) = filter (\<lambda>j. ti_parent (bt_items tree ! j) = Some i) [0..<length (bt_items tree)]" if "i < length (bt_items tree)" for i
    using assms that by (auto simp: tree_wf_def item_wf_def Let_def)
  then show ?thesis using new_items_shape [OF assms] by (auto simp: linked_def new_item_def intro!: filter_cong)
qed

lemma count_fold_keeps [simp]:
  "up_items (foldl count_folder u is) = up_items u" "up_source (foldl count_folder u is) = up_source u" "up_onConflict (foldl count_folder u is) = up_onConflict u"
  "up_calls (foldl count_folder u is) = up_calls u"
  "up_items (foldl count_file u is) = up_items u" "up_source (foldl count_file u is) = up_source u" "up_onConflict (foldl count_file u is) = up_onConflict u"
  "up_calls (foldl count_file u is) = up_calls u"
  by (rule foldl_eq; simp add: count_folder_def count_file_def upd_totals_def Let_def)+

lemma create_fields [simp]:
  "up_items (create deps p dir be tree) = map new_item (bt_items tree)" "up_calls (create deps p dir be tree) = []"
  "up_source (create deps p dir be tree) = Some (rq_clientId (ps_requester p))" "up_onConflict (create deps p dir be tree) = ps_onConflict p"
  by (simp_all add: create_def count_items_def Let_def)

lemma new_upload_steady:
  assumes "tree_wf style tree" and "ps_onConflict p = OnReplace \<longrightarrow> (\<forall>i. asked i)"
  shows "steady asked 0 (Some (rq_clientId (ps_requester p)), ps_onConflict p) (create deps p dir be tree)"
proof -
  have "counts_exact (create deps p dir be tree)"
    unfolding create_def by (rule count_items_exact) (use new_items_shape [OF assms(1)] in \<open>auto simp: new_item_def\<close>)
  moreover have "sending_files (create deps p dir be tree) = 0"
    by (simp add: sending_files_def tally_zero) (simp add: new_item_def)
  moreover have "replaces_asked asked (create deps p dir be tree)" using assms(2) by (simp add: replaces_asked_def) (simp add: new_item_def)
  ultimately show ?thesis using new_items_shape [OF assms(1)] by (simp add: steady_def)
qed

section \<open>An upload of the service\<close>

definition sound :: "(nat \<Rightarrow> bool) \<Rightarrow> Upload \<Rightarrow> bool" where
  "sound H u \<longleftrightarrow> steady (\<lambda>i. up_onConflict u = OnReplace \<or> H i) (sending_files u) (up_source u, up_onConflict u) u"

definition sent_by :: "string \<Rightarrow> Upload \<Rightarrow> nat" where
  "sent_by w u = (if up_source u = Some w then sending_files u else 0)"

definition upload_ok :: "(nat \<Rightarrow> bool) \<Rightarrow> Upload \<Rightarrow> bool" where
  "upload_ok H u \<longleftrightarrow> sound H u \<and> (up_source u = None \<longrightarrow> sending_files u = 0)"

lemma steady_more: "steady asked k src u \<Longrightarrow> (\<And>i. asked i \<Longrightarrow> asked' i) \<Longrightarrow> k \<le> k' \<Longrightarrow> steady asked' k' src u"
  unfolding steady_def replaces_asked_def by (meson order_trans)

lemma sound_more: "sound H u \<Longrightarrow> (\<And>i. H i \<Longrightarrow> H' i) \<Longrightarrow> sound H' u"
  unfolding sound_def by (erule steady_more) auto

lemma soundI: "steady asked k (src, policy) u \<Longrightarrow> (\<And>i. asked i \<Longrightarrow> policy = OnReplace \<or> H i) \<Longrightarrow> sound H u"
  unfolding sound_def steady_def replaces_asked_def by auto

lemma sound_step:
  assumes "\<And>asked k src. steady asked k src u \<Longrightarrow> steady asked k src (f u)" and "sound H u"
  shows "sound H (f u) \<and> sending_files (f u) \<le> sending_files u \<and> up_source (f u) = up_source u \<and> up_onConflict (f u) = up_onConflict u"
proof -
  have f: "steady (\<lambda>i. up_onConflict u = OnReplace \<or> H i) (sending_files u) (up_source u, up_onConflict u) (f u)"
    using assms by (simp add: sound_def)
  then show ?thesis using soundI [OF f] by (simp add: steady_def)
qed

lemma upload_ok_step:
  assumes "\<And>asked k src. steady asked k src u \<Longrightarrow> steady asked k src (f u)" and "upload_ok H u"
  shows "upload_ok H (f u) \<and> sent_by w (f u) \<le> sent_by w u"
  using sound_step [of u f H] assms by (auto simp: upload_ok_def sent_by_def)

section \<open>The files of a window\<close>

definition window_sending :: "string \<Rightarrow> (string, Upload) jmap \<Rightarrow> nat" where
  "window_sending w us = sum_list (map (\<lambda>(tid, u). sent_by w u) us)"

lemma window_sending_simps [simp]:
  "window_sending w [] = 0" "window_sending w ((tid, u) # us) = sent_by w u + window_sending w us"
  by (simp_all add: window_sending_def)

lemma window_map:
  assumes "\<forall>(tid, u) \<in> set us. sent_by w (f u) \<le> sent_by w u"
  shows "window_sending w (map (\<lambda>(tid, u). (tid, f u)) us) \<le> window_sending w us"
  using assms by (induction us) (auto intro: add_mono)

lemma window_map_set:
  assumes "case map_get us tid of None \<Rightarrow> sent_by w u = 0 | Some u0 \<Rightarrow> sent_by w u \<le> sent_by w u0"
  shows "window_sending w (map_set tid u us) \<le> window_sending w us"
  using assms by (induction tid u us rule: map_set.induct) auto

lemma window_map_delete: "window_sending w (map_delete tid us) \<le> window_sending w us"
  by (induction us) (auto simp: map_delete_def)

lemma sending_count:
  assumes "sound H u"
  shows "count_of (tt_states (up_totals u)) Sending = sending_files u"
  using assms by (auto simp: sound_def steady_def counts_exact_def totals_counted_def states_counted_def count_of_def sending_files_def Let_def)

definition counted_for :: "(string, nat) jmap \<Rightarrow> string \<Rightarrow> nat" where
  "counted_for m w = (case map_get m w of Some n \<Rightarrow> n | None \<Rightarrow> 0)"

lemma counted_for_set [simp]: "counted_for (map_set v n m) w = (if w = v then n else counted_for m w)"
  by (simp add: counted_for_def)

lemma sending_now_counts:
  assumes "\<forall>(tid, u) \<in> set (sv_uploads s). sound (H tid) u"
  shows "counted_for (sending_now s) w = window_sending w (sv_uploads s)"
proof -
  define f where "f = (\<lambda>m (tid :: string, u :: Upload). case up_source u of None \<Rightarrow> m
     | Some source \<Rightarrow> let files = count_of (tt_states (up_totals u)) Sending
         in if files > 0 then map_set source (counted_for m source + files) m else m)"
  have "counted_for (foldl f m us) w = counted_for m w + window_sending w us" if "\<forall>(tid, u) \<in> set us. sound (H tid) u" for m us
    using that
  proof (induction us arbitrary: m)
    case (Cons x us)
    obtain tid u where x: "x = (tid, u)" by fastforce
    have "sound (H tid) u" using Cons.prems x by simp
    then have "counted_for (f m x) w = counted_for m w + sent_by w u"
      by (auto simp: f_def x sending_count sent_by_def Let_def split: option.splits)
    then show ?case using Cons x by simp
  qed simp
  from this [OF assms, of "[]"] have "counted_for (foldl f [] (sv_uploads s)) w = window_sending w (sv_uploads s)" by (simp add: counted_for_def)
  then show ?thesis unfolding sending_now_def f_def counted_for_def .
qed

section \<open>The pump\<close>

lemma start_files_bound:
  assumes "steady asked k src u" and "sending_files u + c \<le> n" and "n \<le> max n0 limit"
  shows "let (n', u') = start_files limit n q u in n \<le> n' \<and> n' \<le> max n0 limit \<and> sending_files u' + c \<le> n' \<and> steady asked (sending_files u') src u'"
  using assms
proof (induction q arbitrary: k n u)
  case Nil
  then show ?case by (auto simp: steady_def sending_files_def counts_exact_def replaces_asked_def)
next
  case (Cons i q)
  have u: "steady asked (sending_files u) src u" using Cons.prems(1) by (simp add: steady_def)
  have queue: "sending_files (u\<lparr>up_queue := qs\<rparr>) = sending_files u" for qs by (simp add: sending_files_def)
  have placed: "steady asked (sending_files u) src (place i u)" using u by (simp add: steady_simps)
  have admitted: "steady asked (Suc (sending_files u)) src (admit i u)"
    by (rule steady_admit [OF steady_more [OF u]]) auto
  consider (full) "n \<ge> limit" | (gone) "n < limit" "i \<ge> length (up_items u) \<or> it_state (item u i) \<noteq> Queued"
    | (whole) "n < limit" "\<not> (i \<ge> length (up_items u) \<or> it_state (item u i) \<noteq> Queued)" "it_tempWhole (item u i)"
    | (new) "n < limit" "\<not> (i \<ge> length (up_items u) \<or> it_state (item u i) \<noteq> Queued)" "\<not> it_tempWhole (item u i)" by linarith
  then show ?case
  proof cases
    case full
    then show ?thesis using Cons.prems u by (simp add: queue)
  next
    case gone
    then show ?thesis using Cons.IH [OF Cons.prems] by simp
  next
    case whole
    have "sending_files (place i u) + c \<le> n" using placed Cons.prems(2) by (simp add: steady_def)
    then show ?thesis using whole Cons.IH [OF placed _ Cons.prems(3)] by simp
  next
    case new
    have "sending_files (admit i u) + c \<le> n + 1" using admitted Cons.prems(2) by (simp add: steady_def)
    moreover have "n + 1 \<le> max n0 limit" using new(1) by simp
    ultimately show ?thesis using new Cons.IH [OF admitted, of "n + 1"] by (auto simp: split_beta Let_def)
  qed
qed

lemma pump_upload_bound:
  assumes ok: "upload_ok H u" and d: "d + sent_by w u \<le> counted_for m w"
    and all: "\<And>v. sent_by v u \<le> counted_for m v"
  shows "let (m', u') = pump_upload deps limit m u in
     upload_ok H u' \<and> d + sent_by w u' \<le> counted_for m' w \<and> (\<forall>v. counted_for m v \<le> counted_for m' v) \<and> counted_for m' w \<le> max (counted_for m w) limit"
proof -
  define u1 where "u1 = (if up_folderQueue u \<noteq> [] \<and> \<not> up_creatingFolders u then fst (createFolders u) else u)"
  have step: "steady asked k src u \<Longrightarrow> steady asked k src u1" for asked k src by (simp add: u1_def steady_simps)
  have u1: "upload_ok H u1" "sent_by v u1 \<le> sent_by v u" for v
    using upload_ok_step [of u "\<lambda>_. u1", OF step ok] by auto
  show ?thesis
  proof (cases "up_source u1 = None \<or> \<not> sourceMayWrite deps u1")
    case True
    then have "pump_upload deps limit m u = (m, u1)" by (auto simp: pump_upload_def u1_def [symmetric] Let_def split: option.splits)
    with u1(1) u1(2) [of w] d show ?thesis by simp
  next
    case False
    then obtain source where source: "up_source u1 = Some source" by auto
    let ?n = "counted_for m source"
    obtain n' u' where r: "start_files limit ?n (up_queue u1) u1 = (n', u')" by fastforce
    have pu: "pump_upload deps limit m u = (if n' > ?n then map_set source n' m else m, u')"
      using False source r by (simp add: pump_upload_def u1_def [symmetric] Let_def counted_for_def)
    let ?asked = "\<lambda>i. up_onConflict u1 = OnReplace \<or> H i"
    have st: "steady ?asked (sending_files u1) (Some source, up_onConflict u1) u1" using u1(1) source by (simp add: upload_ok_def sound_def)
    define c where "c = ?n - sending_files u1"
    have "sending_files u1 \<le> ?n" using u1(2) [of source] all [of source] source by (simp add: sent_by_def)
    then have c: "sending_files u1 + c \<le> ?n" "?n \<le> max ?n limit" by (auto simp: c_def)
    from start_files_bound [OF st this, of "up_queue u1"] r
    have n': "?n \<le> n'" "n' \<le> max ?n limit" "sending_files u' + c \<le> n'" and st': "steady ?asked (sending_files u') (Some source, up_onConflict u1) u'"
      by auto
    have "up_source u' = Some source" using st' by (simp add: steady_def)
    moreover have "upload_ok H u'" using soundI [OF st', of H] calculation by (simp add: upload_ok_def)
    moreover have "sending_files u' + ?n \<le> n' + sending_files u1" using n'(3) c by (simp add: c_def)
    moreover have "w = source \<Longrightarrow> d + sending_files u1 \<le> ?n" using d u1(2) [of w] source by (simp add: sent_by_def)
    ultimately show ?thesis using n' d u1(2) [of w] source by (auto simp: pu sent_by_def)
  qed
qed

lemma pump_uploads_bound:
  assumes "\<forall>(tid, u) \<in> set us. upload_ok (H tid) u" and "\<And>w. d w + window_sending w us \<le> counted_for m w"
  shows "(\<forall>(tid, u) \<in> set (pump_uploads deps limit m us). upload_ok (H tid) u)
     \<and> (\<forall>w. d w + window_sending w (pump_uploads deps limit m us) \<le> max (counted_for m w) limit)"
  using assms
proof (induction us arbitrary: m d)
  case Nil
  then show ?case by (auto simp: le_max_iff_disj)
next
  case (Cons x us)
  obtain tid u where x: "x = (tid, u)" by fastforce
  obtain m' u' where r: "pump_upload deps limit m u = (m', u')" by fastforce
  have u: "upload_ok (H tid) u" using Cons.prems(1) x by simp
  have part: "d w + window_sending w us + sent_by w u \<le> counted_for m w" for w using Cons.prems(2) [of w] x by simp
  have all: "sent_by v u \<le> counted_for m v" for v using part [of v] by simp
  note bound = pump_upload_bound [OF u part all, where deps = deps and limit = limit, unfolded r, simplified]
  have "(d w + sent_by w u') + window_sending w us \<le> counted_for m' w" for w using bound [of w] by simp
  from Cons.IH [OF _ this] Cons.prems(1) x
  have IH: "\<forall>(tid, u) \<in> set (pump_uploads deps limit m' us). upload_ok (H tid) u"
      "\<And>w. d w + sent_by w u' + window_sending w (pump_uploads deps limit m' us) \<le> max (counted_for m' w) limit" by auto
  have "d w + sent_by w u' + window_sending w (pump_uploads deps limit m' us) \<le> max (counted_for m w) limit" for w
    using IH(2) [of w] bound [of w] by (simp add: max_def split: if_splits)
  then show ?case using IH(1) bound x by (auto simp: r Let_def algebra_simps)
qed

section \<open>The service\<close>

definition start_ok :: "pending_start \<Rightarrow> bool" where
  "start_ok p \<longleftrightarrow>
     (case ps_phase p of
        Measuring be dir tree \<Rightarrow> \<exists>style. tree_wf style tree
      | Listing tid u \<Rightarrow> sound (\<lambda>i. False) u \<and> sending_files u = 0
      | Sweeping tid u be folders \<Rightarrow> sound (\<lambda>i. False) u \<and> sending_files u = 0
      | _ \<Rightarrow> True)"

definition service_ok :: "(string \<Rightarrow> nat \<Rightarrow> bool) \<Rightarrow> nat \<Rightarrow> TransferService \<Rightarrow> bool" where
  "service_ok H L s \<longleftrightarrow>
     map_ok (sv_uploads s) \<and> (\<forall>(tid, u) \<in> set (sv_uploads s). upload_ok (H tid) u) \<and> (\<forall>(k, p) \<in> set (sv_starts s). start_ok p)
     \<and> (\<forall>w. window_sending w (sv_uploads s) \<le> L)"

lemma service_ok_same [simp]:
  "service_ok H L (reply_to c m s) = service_ok H L s" "service_ok H L (schedulePump s) = service_ok H L s" "service_ok H L (noteHost h t s) = service_ok H L s"
  "service_ok H L (hold h s) = service_ok H L s" "service_ok H L (letGo h t s) = service_ok H L s" "service_ok H L (refuseControl r tid code s) = service_ok H L s"
  "service_ok H L (refuse_start p code text names s) = service_ok H L s" "service_ok H L (sweep now h be dir entries s) = service_ok H L s"
  "service_ok H L (s\<lparr>sv_retries := rs\<rparr>) = service_ok H L s" "service_ok H L (s\<lparr>sv_next := n\<rparr>) = service_ok H L s"
  by (simp_all add: service_ok_def reply_to_def schedulePump_def noteHost_def hold_def letGo_def refuseControl_def refuse_start_def sweep_def Let_def)

lemma reply_uploads [simp]: "sv_uploads (reply_to c m s) = sv_uploads s"
  by (simp add: reply_to_def)

lemma service_ok_more:
  assumes "service_ok H L s" and "\<And>tid i. H tid i \<Longrightarrow> H' tid i"
  shows "service_ok H' L s"
proof -
  have "upload_ok (H tid) u \<Longrightarrow> upload_ok (H' tid) u" for tid u unfolding upload_ok_def using sound_more [of "H tid" u "H' tid"] assms(2) by blast
  then show ?thesis using assms(1) unfolding service_ok_def by blast
qed

lemma set_map_set: "set (map_set k v m) \<subseteq> insert (k, v) (set m)"
  by (induction k v m rule: map_set.induct) auto

lemma set_map_delete: "set (map_delete k m) \<subseteq> set m"
  by (auto simp: map_delete_def)

lemma service_ok_put:
  assumes s: "service_ok H L s" and u: "upload_ok (H tid) u"
    and w: "\<And>w. case map_get (sv_uploads s) tid of None \<Rightarrow> sent_by w u = 0 | Some u0 \<Rightarrow> sent_by w u \<le> sent_by w u0"
  shows "service_ok H L (put_upload tid u s)"
proof -
  have "window_sending w (map_set tid u (sv_uploads s)) \<le> L" for w
    using window_map_set [where us = "sv_uploads s" and tid = tid and w = w and u = u] w s by (meson order_trans service_ok_def)
  then show ?thesis using s u set_map_set [of tid u "sv_uploads s"] by (fastforce simp: service_ok_def put_upload_def)
qed

lemma service_ok_upload: "service_ok H L s \<Longrightarrow> map_get (sv_uploads s) tid = Some u \<Longrightarrow> upload_ok (H tid) u"
  by (auto simp: service_ok_def dest!: map_get_in_set)

lemma service_ok_step:
  assumes s: "service_ok H L s" "map_get (sv_uploads s) tid = Some u" and f: "\<And>asked k src. steady asked k src u \<Longrightarrow> steady asked k src u'"
  shows "service_ok H L (put_upload tid u' s)"
  using upload_ok_step [of u "\<lambda>_. u'", OF f service_ok_upload [OF s]] s by (auto intro!: service_ok_put)

lemma service_ok_each:
  assumes s: "service_ok H L s" and f: "\<And>H' w u. upload_ok H' u \<Longrightarrow> upload_ok H' (f u) \<and> sent_by w (f u) \<le> sent_by w u"
  shows "service_ok H L (each_upload f s)"
proof -
  have "window_sending w (map (\<lambda>(tid, u). (tid, f u)) (sv_uploads s)) \<le> L" for w
    using window_map [where us = "sv_uploads s" and w = w and f = f] s f by (fastforce simp: service_ok_def intro: order_trans)
  moreover have "map_ok (map (\<lambda>(tid, u). (tid, f u)) (sv_uploads s))" using s by (simp add: service_ok_def map_ok_def comp_def split_beta)
  ultimately show ?thesis using s f by (fastforce simp: service_ok_def each_upload_def)
qed

lemma service_ok_starts:
  assumes "service_ok H L s" and "\<And>k p. (k, p) \<in> set starts \<Longrightarrow> start_ok p"
  shows "service_ok H L (s\<lparr>sv_starts := starts\<rparr>)"
  using assms by (auto simp: service_ok_def)

lemma service_ok_next_phase: "service_ok H L s \<Longrightarrow> start_ok (p\<lparr>ps_phase := phase\<rparr>) \<Longrightarrow> service_ok H L (next_phase k p phase s)"
  unfolding next_phase_def by (rule service_ok_starts) (use set_map_set in \<open>fastforce simp: service_ok_def\<close>)+

lemma service_ok_end_start [simp]: "service_ok H L s \<Longrightarrow> service_ok H L (end_start k p release s)"
  unfolding end_start_def Let_def service_ok_same
  by (rule service_ok_starts) (auto simp: service_ok_def map_delete_def split: if_splits)

section \<open>Every step keeps the invariant\<close>

lemma join_ok:
  assumes s: "service_ok H L s" and j: "joinable hostId dir sig s = Some (tid, u)"
  shows "service_ok H L (join_upload tid u p s)"
proof -
  have "(tid, u) \<in> set (sv_uploads s)" and none: "up_source u = None"
    using j by (auto simp: joinable_def find_Some_iff in_set_conv_nth)
  then have u: "upload_ok (H tid) u" and get: "map_get (sv_uploads s) tid = Some u" using s by (auto simp: service_ok_def in_set_map_get)
  let ?u = "u\<lparr>up_source := Some (rq_clientId (ps_requester p)), up_reason := None, up_linkDropped := False\<rparr>"
  let ?asked = "\<lambda>i. up_onConflict u = OnReplace \<or> H tid i"
  have "steady ?asked 0 (Some (rq_clientId (ps_requester p)), up_onConflict u) ?u"
    using u none by (auto simp: upload_ok_def sound_def steady_def counts_exact_def replaces_asked_def sending_files_def)
  then have st: "steady ?asked 0 (Some (rq_clientId (ps_requester p)), up_onConflict u) (settle False (requeueAll again ?u))" for again by (simp add: steady_simps)
  have "upload_ok (H tid) (settle False (requeueAll again ?u))" "sent_by w (settle False (requeueAll again ?u)) = 0" for again w
    using soundI [OF st [of again], of "H tid"] st [of again] by (auto simp: upload_ok_def sent_by_def steady_def)
  then show ?thesis unfolding join_upload_def Let_def service_ok_same
    by (intro service_ok_put) (simp_all add: get s)
qed

lemma adopt_ok:
  assumes s: "service_ok H L s" and u: "sound (\<lambda>i. False) u" "sending_files u = 0"
  shows "service_ok H L (adopt k p tid u s)"
proof -
  let ?u = "settle False (enqueueReady None (markAll (record_said (applyPolicy u))))"
  have f: "steady asked k src u \<Longrightarrow> steady asked k src ?u" for asked k src by (simp add: record_said_def markAll_def steady_simps)
  have "sound (H tid) ?u \<and> sending_files ?u = 0" using sound_step [of u "\<lambda>_. ?u", OF f u(1)] u(2) sound_more [of "\<lambda>i. False" ?u] by auto
  then have "upload_ok (H tid) ?u" "sent_by w ?u = 0" for w by (simp_all add: upload_ok_def sent_by_def)
  then show ?thesis unfolding adopt_def Let_def
    by (intro service_ok_end_start) (auto simp: s intro!: service_ok_put split: option.splits)
qed

lemma start_ok_sound: "start_ok (p\<lparr>ps_phase := Sweeping tid u be folders\<rparr>) \<longleftrightarrow> sound (\<lambda>i. False) u \<and> sending_files u = 0"
  "start_ok (p\<lparr>ps_phase := Listing tid u\<rparr>) \<longleftrightarrow> sound (\<lambda>i. False) u \<and> sending_files u = 0"
  by (simp_all add: start_ok_def)

lemma start_swept_ok:
  assumes "service_ok H L s" and "sound (\<lambda>i. False) u" and "sending_files u = 0"
  shows "service_ok H L (start_swept deps k p tid u be folders s)"
  using assms by (auto simp: start_swept_def start_ok_sound intro!: adopt_ok service_ok_next_phase split: list.splits)

lemma start_measured_ok:
  assumes s: "service_ok H L s" and tree: "tree_wf style tree"
  shows "service_ok H L (start_measured deps k p be dir tree space s)"
proof -
  let ?u = "create deps p dir be tree" and ?asked = "\<lambda>i. ps_onConflict p = OnReplace"
  have st: "steady ?asked 0 (Some (rq_clientId (ps_requester p)), ps_onConflict p) ?u" by (rule new_upload_steady [OF tree]) simp
  have "sound (\<lambda>i. False) ?u \<and> sending_files ?u = 0" using soundI [OF st, of "\<lambda>i. False"] st by (simp add: steady_def)
  then show ?thesis using s by (simp add: start_measured_def start_ok_sound service_ok_next_phase)
qed

lemma start_looked_ok:
  assumes s: "service_ok H L s"
  shows "service_ok H L (start_looked sha256 k p be dir target s)"
proof -
  have tree: "tree_wf (be_style be) tree" if "buildUploadTree sha256 (ps_items p) (be_style be) dir = TreeBuilt tree" for tree
  proof (cases "ps_items p")
    case None
    with that show ?thesis by (simp add: buildUploadTree_def)
  next
    case (Some raw)
    with that show ?thesis using built_tree_wf by (auto simp: buildUploadTree_built)
  qed
  show ?thesis using s tree join_ok [OF s]
    by (auto simp: start_looked_def start_ok_def intro!: service_ok_next_phase split: UploadTree.splits option.splits)
qed

lemma start_answered_ok:
  assumes s: "service_ok H L s" and p: "start_ok p"
  shows "service_ok H L (start_answered sha256 deps k p a s)"
proof (cases "ps_phase p")
  case Connecting
  then show ?thesis using s by (cases a) (auto simp: start_answered_def start_failed_def start_ok_def intro!: service_ok_next_phase split: bool.splits option.splits)
next
  case Reaching
  then show ?thesis using s
    by (cases a) (auto simp: start_answered_def start_failed_def start_reached_def start_ok_def intro!: service_ok_next_phase split: NormalisedPath.splits option.splits)
next
  case (Looking be dir)
  then show ?thesis using s by (cases a) (auto simp: start_answered_def start_failed_def start_looked_ok split: option.splits)
next
  case (Measuring be dir tree)
  then show ?thesis using s p by (cases a) (auto simp: start_answered_def start_ok_def start_measured_ok)
next
  case (Listing tid u)
  then have u: "sound (\<lambda>i. False) u" "sending_files u = 0" using p by (auto simp: start_ok_def)
  have "sound (\<lambda>i. False) (snd (lookAtDestination listing u)) \<and> sending_files (snd (lookAtDestination listing u)) = 0" for listing
    using sound_step [of u "\<lambda>_. snd (lookAtDestination listing u)", OF steady_lookAtDestination u(1)] u(2) by auto
  then show ?thesis using s Listing
    by (cases a) (auto simp: start_answered_def start_failed_def start_listed_def split_beta start_swept_ok split: option.splits)
next
  case (Sweeping tid u be folders)
  then show ?thesis using s p by (cases a) (auto simp: start_answered_def start_ok_def start_swept_ok)
qed

lemma start_event_ok:
  assumes s: "service_ok H L s"
  shows "service_ok H L (start deps requester msg s)"
proof -
  have "service_ok H L (hold h s\<lparr>sv_starts := map_set n p (sv_starts s), sv_next := n'\<rparr>)" if "start_ok p" for h n p n'
    using service_ok_starts [OF s, of "map_set n p (sv_starts s)"] that s set_map_set [of n p "sv_starts s"]
    by (fastforce simp: service_ok_def hold_def)
  then show ?thesis using s by (simp add: start_def Let_def start_ok_def split: option.splits)
qed

text \<open>An answer to conflicts that asks to replace what an item has the name of.\<close>

fun asks :: "TransferService \<Rightarrow> TransferDeps \<times> event \<Rightarrow> string \<Rightarrow> nat \<Rightarrow> bool" where
  "asks s (deps, EvResolve requester t (Some ReplaceIt) scope) tid i =
     (t = tid \<and> (case controlledById deps requester tid s of
        Inl _ \<Rightarrow> False
      | Inr u \<Rightarrow> (case scope_items u scope of None \<Rightarrow> False | Some ids \<Rightarrow> i \<in> set ids)))"
| "asks s _ tid i = False"

lemma controlled_get: "controlledById deps requester tid s = Inr u \<Longrightarrow> map_get (sv_uploads s) tid = Some u"
  by (simp add: controlledById_def Let_def split: option.splits if_splits)

lemma steady_resolve:
  assumes "steady asked k src u" and "\<And>i. action = ReplaceIt \<Longrightarrow> i \<in> set ids \<Longrightarrow> asked i"
  shows "steady asked k src (foldl (resolve_item action) u ids)"
  using assms by (intro foldl_inv [where P = "steady asked k src"] steady_resolve_item) auto

lemma resolve_ok:
  assumes s: "service_ok H L s"
  shows "service_ok (\<lambda>tid i. H tid i \<or> asks s (deps, EvResolve requester t action scope) tid i) L (resolve deps requester t action scope s)"
proof (cases "controlledById deps requester t s")
  case (Inl code)
  then show ?thesis using service_ok_more [OF s] by (simp add: resolve_def)
next
  case (Inr u)
  let ?H = "\<lambda>tid i. H tid i \<or> asks s (deps, EvResolve requester t action scope) tid i"
  have s': "service_ok ?H L s" by (rule service_ok_more [OF s]) blast
  have get: "map_get (sv_uploads s) t = Some u" by (rule controlled_get [OF Inr])
  have "service_ok ?H L (put_upload t (settle False (foldl (resolve_item act) u ids)) s)" if act: "action = Some act" "scope_items u scope = Some ids" for act ids
  proof (rule service_ok_put [OF s'])
    let ?asked = "\<lambda>i. up_onConflict u = OnReplace \<or> ?H t i"
    have ok: "upload_ok (?H t) u" by (rule service_ok_upload [OF s' get])
    then have "steady ?asked (sending_files u) (up_source u, up_onConflict u) u" by (simp add: upload_ok_def sound_def)
    then have st: "steady ?asked (sending_files u) (up_source u, up_onConflict u) (foldl (resolve_item act) u ids)"
      by (rule steady_resolve) (use act Inr in auto)
    then have le: "sending_files (foldl (resolve_item act) u ids) \<le> sending_files u" "up_source (foldl (resolve_item act) u ids) = up_source u"
      by (auto simp: steady_def)
    moreover have "sound (?H t) (settle False (foldl (resolve_item act) u ids))" by (rule soundI [where k = "sending_files u"]) (use st in auto)
    moreover have "sending_files (settle False v) = sending_files v" "up_source (settle False v) = up_source v" for v by (simp_all add: settle_def sending_files_def)
    ultimately show "upload_ok (?H t) (settle False (foldl (resolve_item act) u ids))"
      "case map_get (sv_uploads s) t of None \<Rightarrow> sent_by w (settle False (foldl (resolve_item act) u ids)) = 0
        | Some u0 \<Rightarrow> sent_by w (settle False (foldl (resolve_item act) u ids)) \<le> sent_by w u0" for w
      using ok by (auto simp: upload_ok_def sent_by_def get)
  qed
  then show ?thesis using s s' Inr by (cases action; cases "scope_items u scope") (simp_all add: resolve_def)
qed

lemma requeue_upload_ok: "service_ok H L s \<Longrightarrow> map_get (sv_uploads s) tid = Some u \<Longrightarrow> service_ok H L (requeue_upload tid again u s)"
  unfolding requeue_upload_def service_ok_same by (rule service_ok_step [where u = u]) (auto simp: steady_simps)

lemma retry_ok:
  assumes "service_ok H L s"
  shows "service_ok H L (retry deps requester tid scope s)"
proof (cases "controlledById deps requester tid s")
  case (Inr u)
  then show ?thesis using assms controlled_get [OF Inr] by (simp add: retry_def Let_def requeue_upload_ok split: option.splits)
qed (use assms in \<open>simp add: retry_def\<close>)

lemma retry_connected_ok: "service_ok H L s \<Longrightarrow> service_ok H L (retry_connected k connected s)"
  by (auto simp: retry_connected_def Let_def intro!: requeue_upload_ok split: option.splits)

lemma cancel_ok:
  assumes "service_ok H L s"
  shows "service_ok H L (cancel deps requester tid scope s)"
proof (cases "controlledById deps requester tid s")
  case (Inr u)
  have "service_ok H L (put_upload tid (settle False (foldl cancel_item u ids)) s)" for ids
    by (rule service_ok_step [OF assms controlled_get [OF Inr]]) (simp add: steady_fold steady_simps)
  then show ?thesis using assms Inr by (simp add: cancel_def split: option.splits)
qed (use assms in \<open>simp add: cancel_def\<close>)

lemma interrupt_state: "it_state (item (interrupt reason i u) j) = (if j = i \<and> i < length (up_items u) then Interrupted else it_state (item u j))"
proof -
  have "up_items (abort_sink sink v) = up_items v" for sink v by (cases sink) (simp_all add: abort_sink_def call_def)
  then show ?thesis by (auto simp: interrupt_def Let_def setState_items nth_update item_upd_item)
qed

lemma interrupt_length [simp]: "length (up_items (interrupt reason i u)) = length (up_items u)"
proof -
  have "up_items (abort_sink sink v) = up_items v" for sink v by (cases sink) (simp_all add: abort_sink_def call_def)
  then show ?thesis by (simp add: interrupt_def Let_def setState_items)
qed

lemma interrupted_none_sending:
  "let v = foldl (\<lambda>u i. if it_state (item u i) = Sending then interrupt reason i u else u) u is in
     length (up_items v) = length (up_items u)
     \<and> (\<forall>j < length (up_items u). it_state (item v j) = Sending \<longrightarrow> it_state (item u j) = Sending \<and> j \<notin> set is)"
proof (induction "is" arbitrary: u)
  case (Cons i "is")
  let ?u = "if it_state (item u i) = Sending then interrupt reason i u else u"
  show ?case using Cons.IH [of ?u] by (auto simp: Let_def interrupt_state split: if_splits)
qed simp

lemma source_gone_ok:
  assumes ok: "upload_ok H u"
  shows "upload_ok H (source_gone clientId u) \<and> sent_by w (source_gone clientId u) \<le> sent_by w u"
proof (cases "up_source u = Some clientId")
  case True
  let ?f = "\<lambda>u i. if it_state (item u i) = Sending then interrupt ''The window sending it left'' i u else u"
  let ?v = "foldl ?f (u\<lparr>up_source := None\<rparr>) [0..<length (up_items u)]"
  let ?asked = "\<lambda>i. up_onConflict u = OnReplace \<or> H i"
  have "steady ?asked (sending_files u) (None, up_onConflict u) (u\<lparr>up_source := None\<rparr>)"
    using ok by (auto simp: upload_ok_def sound_def steady_def counts_exact_def replaces_asked_def sending_files_def)
  then have st: "steady ?asked (sending_files u) (None, up_onConflict u) ?v" by (auto intro!: steady_fold steady_interrupt)
  have "sending_files ?v = 0"
    using interrupted_none_sending [of "''The window sending it left''" "u\<lparr>up_source := None\<rparr>" "[0..<length (up_items u)]"]
    by (auto simp: sending_files_def tally_zero Let_def)
  then have "sending_files (settle False ?v) = 0" by (simp add: settle_def sending_files_def)
  moreover have "sound H (settle False ?v)" by (rule soundI [where k = "sending_files u"]) (use st in auto)
  ultimately show ?thesis using True by (simp add: source_gone_def upload_ok_def sent_by_def)
qed (use ok in \<open>simp add: source_gone_def\<close>)

lemma receive_ok: "service_ok H L s \<Longrightarrow> service_ok H L (receive requester tid i offset data s)"
  by (auto simp: receive_def Let_def intro!: service_ok_step split: option.splits)

lemma pump_ok:
  assumes s: "service_ok H L s" and L: "max 1 (td_maxConcurrent deps) \<le> L"
  shows "service_ok H L (pump deps s)"
proof -
  let ?us = "pump_uploads deps (max 1 (td_maxConcurrent deps)) (sending_now s) (sv_uploads s)"
  have ok: "\<forall>(tid, u) \<in> set (sv_uploads s). upload_ok (H tid) u" using s by (simp add: service_ok_def)
  then have count: "counted_for (sending_now s) w = window_sending w (sv_uploads s)" for w
    by (intro sending_now_counts [where H = H]) (auto simp: upload_ok_def)
  have "map fst (pump_uploads deps limit m us) = map fst us" for limit m us
    by (induction us arbitrary: m) (auto simp: split_beta Let_def)
  then have "map_ok ?us" using s by (simp add: service_ok_def map_ok_def)
  moreover have "window_sending w ?us \<le> L" for w
    using pump_uploads_bound [OF ok, of "\<lambda>_. 0" "sending_now s" deps "max 1 (td_maxConcurrent deps)"] count s L
    by (simp add: service_ok_def) (meson le_trans max.bounded_iff max.boundedI)
  ultimately show ?thesis
    using pump_uploads_bound [OF ok, of "\<lambda>_. 0" "sending_now s" deps "max 1 (td_maxConcurrent deps)"] count s by (simp add: service_ok_def pump_def)
qed

lemma flush_ok:
  assumes "service_ok H L s" and "map_get (sv_uploads s) tid = Some u0" and "\<And>asked k src. steady asked k src u0 \<Longrightarrow> steady asked k src u"
  shows "service_ok H L (flush tid u s)"
  unfolding flush_def service_ok_same by (rule service_ok_step [OF assms(1,2)]) (use assms(3) in \<open>simp add: steady_simps\<close>)

lemma settle_task_ok:
  assumes "service_ok H L s" and "map_get (sv_uploads s) tid = Some u"
  shows "service_ok H L (settle_task deps tid k a u s)"
proof -
  have "service_ok H L (put_upload tid (fst (run_task t rnd a (u\<lparr>up_tasks := ts\<rparr>))) s)" for t rnd ts
    by (rule service_ok_step [OF assms]) (simp add: steady_run_task)
  then show ?thesis by (simp add: settle_task_def split_beta Let_def)
qed

lemma other_step_ok:
  assumes s: "service_ok H L s" and L: "max 1 (td_maxConcurrent deps) \<le> L" and e: "\<And>r t a sc. ev \<noteq> EvResolve r t a sc"
  shows "service_ok H L (step sha256 s (deps, ev))"
proof (cases ev)
  case (EvStartAnswer k a)
  then show ?thesis using s by (auto simp: service_ok_def split: option.splits intro!: start_answered_ok [unfolded service_ok_def] dest!: map_get_in_set)
next
  case (EvFlushTimer tid)
  then show ?thesis using s by (auto split: option.splits intro!: flush_ok)
next
  case (EvFlushSoon tid)
  then show ?thesis using s by (auto split: option.splits intro!: flush_ok)
next
  case (EvTask tid k a)
  then show ?thesis using s by (auto split: option.splits intro!: settle_task_ok)
next
  case (EvLost tid)
  then show ?thesis using s by (auto split: option.splits intro!: service_ok_step)
next
  case (EvForget tid)
  have "window_sending w (map_delete tid (sv_uploads s)) \<le> L" for w
    using window_map_delete [of w tid "sv_uploads s"] s by (meson order_trans service_ok_def)
  then show ?thesis using EvForget s by (auto simp: service_ok_def map_delete_def intro: map_ok_filter)
next
  case (EvClientGone c)
  then show ?thesis using s by (simp add: clientGone_def service_ok_each source_gone_ok)
next
  case (EvInterruptOn h)
  have "upload_ok H' (if up_hostId u = h then interrupt_closed u else u) \<and> sent_by w (if up_hostId u = h then interrupt_closed u else u) \<le> sent_by w u"
    if "upload_ok H' u" for H' w u using upload_ok_step [of u interrupt_closed H' w] that by (simp add: steady_simps)
  then show ?thesis using EvInterruptOn s by (simp add: interruptOn_def service_ok_each)
qed (use s L e in \<open>auto simp: start_event_ok retry_ok retry_connected_ok cancel_ok receive_ok pump_ok lockChanged_def\<close>)

lemma step_ok:
  assumes s: "service_ok H L s" and L: "max 1 (td_maxConcurrent deps) \<le> L"
  shows "service_ok (\<lambda>tid i. H tid i \<or> asks s (deps, ev) tid i) L (step sha256 s (deps, ev))"
proof (cases "\<exists>r t a sc. ev = EvResolve r t a sc")
  case True
  then show ?thesis using resolve_ok [OF s] by auto
next
  case False
  then have "service_ok H L (step sha256 s (deps, ev))" by (intro other_step_ok [OF s L]) blast
  then show ?thesis by (rule service_ok_more) simp
qed

section \<open>Over a run\<close>

definition asked_before :: "(string \<Rightarrow> string) \<Rightarrow> (TransferDeps \<times> event) list \<Rightarrow> string \<Rightarrow> nat \<Rightarrow> bool" where
  "asked_before sha256 es tid i \<longleftrightarrow> (\<exists>es1 e es2. es = es1 @ e # es2 \<and> asks (foldl (step sha256) initial_service es1) e tid i)"

lemma asked_before_snoc:
  assumes "asked_before sha256 es tid i \<or> asks (foldl (step sha256) initial_service es) e tid i"
  shows "asked_before sha256 (es @ [e]) tid i"
  using assms
proof
  assume "asked_before sha256 es tid i"
  then obtain es1 e1 es2 where "es @ [e] = es1 @ e1 # (es2 @ [e])" "asks (foldl (step sha256) initial_service es1) e1 tid i"
    by (auto simp: asked_before_def)
  then show ?thesis unfolding asked_before_def by blast
next
  assume "asks (foldl (step sha256) initial_service es) e tid i"
  moreover have "es @ [e] = es @ e # []" by simp
  ultimately show ?thesis unfolding asked_before_def by blast
qed

lemma initial_ok: "service_ok H L initial_service"
  by (simp add: service_ok_def initial_service_def)

lemma run_ok:
  assumes "\<forall>(deps, ev) \<in> set es. max 1 (td_maxConcurrent deps) \<le> L"
  shows "service_ok (asked_before sha256 es) L (foldl (step sha256) initial_service es)"
  using assms
proof (induction es rule: rev_induct)
  case (snoc e es)
  obtain deps ev where e: "e = (deps, ev)" by fastforce
  have "max 1 (td_maxConcurrent deps) \<le> L" "\<forall>(deps, ev) \<in> set es. max 1 (td_maxConcurrent deps) \<le> L" using snoc.prems e by simp_all
  then have "service_ok (\<lambda>tid i. asked_before sha256 es tid i \<or> asks (foldl (step sha256) initial_service es) (deps, ev) tid i) L
      (step sha256 (foldl (step sha256) initial_service es) (deps, ev))" by (intro step_ok snoc.IH)
  then have "service_ok (\<lambda>tid i. asked_before sha256 es tid i \<or> asks (foldl (step sha256) initial_service es) e tid i) L
      (foldl (step sha256) initial_service (es @ [e]))" by (simp add: e)
  then show ?case by (rule service_ok_more) (use asked_before_snoc in blast)
qed (simp add: initial_ok)

lemma service_ok_limit: "service_ok H L s \<Longrightarrow> L \<le> L' \<Longrightarrow> service_ok H L' s"
  unfolding service_ok_def by (meson order_trans)

definition service_sound :: "TransferService \<Rightarrow> bool" where
  "service_sound s \<longleftrightarrow> (\<exists>H L. service_ok H L s)"

interpretation transfers: event_machine initial_service enabled "step sha256" service_sound for sha256
proof
  show "service_sound initial_service" using initial_ok by (auto simp: service_sound_def)
  fix s :: TransferService and e :: "TransferDeps \<times> event"
  assume "service_sound s"
  then obtain H L where s: "service_ok H L s" by (auto simp: service_sound_def)
  obtain deps ev where e: "e = (deps, ev)" by fastforce
  have "service_ok H (max L (max 1 (td_maxConcurrent deps))) s" by (rule service_ok_limit [OF s]) simp
  from step_ok [OF this, of deps ev sha256] e show "service_sound (step sha256 s e)" by (auto simp: service_sound_def)
qed

lemma settled_counts:
  assumes "counts_exact u"
  shows "isSettled u \<longleftrightarrow> up_busy u = 0 \<and> (\<forall>x \<in> set (up_items u). it_state x \<notin> set UNSETTLED)"
proof -
  have "count_of (tt_states (up_totals u)) st = tally (up_items u) (a_file (up_items u)) (in_state st)"
      "count_of (up_folderStates u) st = tally (up_items u) (\<lambda>i. \<not> a_file (up_items u) i) (in_state st)" for st
    using assms by (simp_all add: counts_exact_def totals_counted_def states_counted_def count_of_def Let_def)
  then have "count_of (tt_states (up_totals u)) st + count_of (up_folderStates u) st = 0 \<longleftrightarrow> (\<forall>i < length (up_items u). it_state (item u i) \<noteq> st)" for st
    using tally_zero [of "up_items u" _ st] by simp blast
  then have "count_of (tt_states (up_totals u)) st + count_of (up_folderStates u) st = 0 \<longleftrightarrow> (\<forall>x \<in> set (up_items u). it_state x \<noteq> st)" for st
    by (metis in_set_conv_nth)
  then show ?thesis by (auto simp: isSettled_def counted_def UNSETTLED_def)
qed

end
