(* ===== verification/Transfer_Runs.thy ===== *)
theory Transfer_Runs
  imports Transfer_Safety
begin

text \<open>
  The properties of the transfer service over its runs, runs that show them at work, and three runs in which the service goes wrong.
\<close>

section \<open>Sample runs\<close>

text \<open>Limits are compared as integers when a run is computed.\<close>

lemma limits_as_integers [code_unfold]:
  "length raw > TRANSFER_MAX_ITEMS \<longleftrightarrow> int (length raw) > 200000" "n > TRANSFER_MAX_FILES \<longleftrightarrow> int n > 100000" "n > KEEP_BOTH_TRIES \<longleftrightarrow> int n > 10000"
  by (auto simp: TRANSFER_MAX_ITEMS_def TRANSFER_MAX_FILES_def KEEP_BOTH_TRIES_def)

definition sample_deps :: "string \<Rightarrow> TransferDeps" where
  "sample_deps rnd =
     \<lparr>td_mayWrite = (\<lambda>_ _. True), td_channelEnded = (\<lambda>_. False), td_isConnected = (\<lambda>_. True), td_channelHost = (\<lambda>_. Some (''h'', ''ssh'')),
      td_verifyFor = (\<lambda>_ _. False), td_maxConcurrent = 1, td_now = 0, td_generateId = ''u'', td_random = rnd\<rparr>"

definition with_deps :: "string \<Rightarrow> event list \<Rightarrow> (TransferDeps \<times> event) list" where
  "with_deps rnd es = map (Pair (sample_deps rnd)) es"

definition sample_host :: Backend where
  "sample_host = \<lparr>be_transport = SftpTransport, be_style = Posix, be_lost = False\<rparr>"

definition sample_entry :: "string \<Rightarrow> FileKind \<Rightarrow> FileEntry" where
  "sample_entry name kind = \<lparr>fe_name = name, fe_kind = kind, fe_size = None, fe_mtime = None, fe_linkKind = None\<rparr>"

definition sample_error :: host_error where
  "sample_error = \<lparr>er_interruption = False, er_code = ''X'', er_message = ''no''\<rparr>"

definition sample_window :: TransferRequester where
  "sample_window = \<lparr>rq_clientId = ''w'', rq_tokenId = None\<rparr>"

definition sample_item :: "string \<Rightarrow> TransferItemKind \<Rightarrow> TransferStartItem" where
  "sample_item name kind = \<lparr>si_relPath = Some name, si_kind = Some kind, si_size = Number (IntNum 2), si_mtime = Undefined\<rparr>"

text \<open>An upload started to the folder \<^verbatim>\<open>/d\<close>, which holds \<open>there\<close>.\<close>

definition started :: "TransferStartItem list \<Rightarrow> FileEntry list \<Rightarrow> event list" where
  "started items there =
     [EvStart sample_window \<lparr>sm_requestId = None, sm_channelId = JStr (replicate 26 (CHR ''0'')), sm_dir = Some ''/d'', sm_onConflict = Some OnAsk, sm_items = Some items\<rparr>,
      EvStartAnswer 0 (StartBackend sample_host), EvStartAnswer 0 (StartEntry (sample_entry ''d'' KDirectory)), EvStartAnswer 0 (StartSpace None),
      EvStartAnswer 0 (StartListed (\<lambda>_. there)), EvStartAnswer 0 StartSwept]"

definition outcome :: "(TransferDeps \<times> event) list \<Rightarrow> TransferService" where
  "outcome es = foldl (step (\<lambda>x. x)) initial_service es"

abbreviation real_run :: "(TransferDeps \<times> event) list \<Rightarrow> bool" where
  "real_run es \<equiv> runs enabled (step (\<lambda>x. x)) initial_service es"

text \<open>A file whose name is taken, replaced as its window answers.\<close>

definition replacing_run :: "(TransferDeps \<times> event) list" where
  "replacing_run =
     with_deps ''1'' (started [sample_item ''a'' File] [sample_entry ''a'' KFile]
       @ [EvResolve sample_window ''u'' (Some ReplaceIt) (Some (OneItem 0)), EvPump, EvTask ''u'' 0 AnswerOk, EvTask ''u'' 0 AnswerOk,
          EvReceive sample_window ''u'' 0 0 [1, 2], EvTask ''u'' 0 AnswerOk, EvTask ''u'' 0 AnswerOk, EvTask ''u'' 0 (AnswerVerified BySize), EvTask ''u'' 0 AnswerOk])"

definition replaces_item :: "nat \<Rightarrow> Upload \<Rightarrow> bool" where
  "replaces_item i u = list_ex (\<lambda>c. case c of CallPlace j temp target replace \<Rightarrow> j = i \<and> replace | _ \<Rightarrow> False) (up_calls u)"

lemma replaces_itemE:
  assumes "replaces_item i u"
  obtains temp target where "CallPlace i temp target True \<in> set (up_calls u)"
proof -
  obtain c where c: "c \<in> set (up_calls u)" "case c of CallPlace j temp target replace \<Rightarrow> j = i \<and> replace | _ \<Rightarrow> False"
    using assms by (auto simp: replaces_item_def list_ex_iff)
  show thesis by (cases c) (use c that in auto)
qed

lemma replacing_run_real: "real_run replacing_run"
  by code_simp

lemma replacing_run_replaces:
  "map_has (sv_uploads (outcome replacing_run)) ''u'' \<and> upload_has ''u'' (\<lambda>u. replaces_item 0 u \<and> length (up_items u) = 1 \<and> up_onConflict u = OnAsk) (outcome replacing_run)"
  by code_simp

section \<open>The properties\<close>

text \<open>
  C11: The counts the service says of an upload are never off. After any run, the totals of every upload and of each of its folders (files, bytes, bytes
  acknowledged, files by state) and its count of folders by state are what counting its items again gives; so it is taken for settled exactly when no work is
  under way and no item waits to be sent, answered or placed, and TRANSFER_DONE, sent on that, is neither early nor missed by a count.
\<close>

theorem transfer_counts_exact:
  assumes "runs enabled (step sha256) initial_service es" and "map_get (sv_uploads (foldl (step sha256) initial_service es)) tid = Some u"
  shows "counts_exact u \<and> (isSettled u \<longleftrightarrow> up_busy u = 0 \<and> (\<forall>x \<in> set (up_items u). it_state x \<notin> set UNSETTLED))"
proof -
  obtain H L where "service_ok H L (foldl (step sha256) initial_service es)"
    using transfers.inv_run [OF assms(1)] by (auto simp: service_sound_def)
  from service_ok_upload [OF this assms(2)] have "counts_exact u" by (simp add: upload_ok_def sound_def steady_def)
  then show ?thesis using settled_counts by blast
qed

theorem transfer_counts_exact_witness:
  "\<exists>u. map_get (sv_uploads (outcome replacing_run)) ''u'' = Some u \<and> counts_exact u"
proof -
  obtain u where u: "map_get (sv_uploads (outcome replacing_run)) ''u'' = Some u" using replacing_run_replaces by (auto simp: map_has_def)
  with transfer_counts_exact [OF replacing_run_real, of "''u''" u] show ?thesis by (auto simp: outcome_def)
qed

text \<open>
  C10: Nothing on a host is replaced that nobody asked for. After any run, if the host was asked to put a file of an upload in the place of what has its name,
  then the upload was started with the policy to replace, or before that a window with the right to act on the upload answered a conflict with Replace, for a scope that
  covers the file. A conflict found late, a retry, a resumed send or another window's start never makes one.
\<close>

theorem nothing_replaced_unasked:
  assumes "runs enabled (step sha256) initial_service es" and "map_get (sv_uploads (foldl (step sha256) initial_service es)) tid = Some u"
    and "CallPlace i temp target True \<in> set (up_calls u)" and "i < length (up_items u)"
  shows "up_onConflict u = OnReplace \<or> asked_before sha256 es tid i"
proof -
  define L where "L = Max (insert 1 ((\<lambda>(deps, ev). max 1 (td_maxConcurrent deps)) ` set es))"
  have "\<forall>(deps, ev) \<in> set es. max 1 (td_maxConcurrent deps) \<le> L"
  proof (clarify)
    fix deps ev
    assume "(deps, ev) \<in> set es"
    then show "max 1 (td_maxConcurrent deps) \<le> L" unfolding L_def by (intro Max_ge) force+
  qed
  from service_ok_upload [OF run_ok [OF this] assms(2)] assms(3,4)
  show ?thesis by (auto simp: upload_ok_def sound_def steady_def replaces_asked_def)
qed

theorem nothing_replaced_unasked_witness: "asked_before (\<lambda>x. x) replacing_run ''u'' 0"
proof -
  obtain u where u: "map_get (sv_uploads (outcome replacing_run)) ''u'' = Some u" using replacing_run_replaces by (auto simp: map_has_def)
  then have r: "replaces_item 0 u" "length (up_items u) = 1" "up_onConflict u = OnAsk" using replacing_run_replaces by (auto simp: upload_has_def)
  obtain temp target where "CallPlace 0 temp target True \<in> set (up_calls u)" using r(1) by (rule replaces_itemE)
  with nothing_replaced_unasked [OF replacing_run_real, of "''u''" u 0] u r show ?thesis by (auto simp: outcome_def)
qed



section \<open>Runs that go wrong\<close>

definition written_at :: "string \<Rightarrow> int \<Rightarrow> Upload \<Rightarrow> bool" where
  "written_at path offset u = list_ex (\<lambda>c. case c of CallWrite p off data \<Rightarrow> p = path \<and> off = offset | _ \<Rightarrow> False) (up_calls u)"

definition placed_from :: "string \<Rightarrow> Upload \<Rightarrow> bool" where
  "placed_from path u = list_ex (\<lambda>c. case c of CallPlace i temp target replace \<Rightarrow> temp = path | _ \<Rightarrow> False) (up_calls u)"

text \<open>A file cancelled and retried while its first chunk is being written: the chunk is acknowledged once the file is open again, under another temporary.\<close>

definition stale_chunk_run :: "(TransferDeps \<times> event) list" where
  "stale_chunk_run =
     with_deps ''1'' (started [sample_item ''a'' File] []
       @ [EvPump, EvTask ''u'' 0 AnswerOk, EvTask ''u'' 0 (AnswerPlacement False), EvTask ''u'' 0 AnswerOk, EvReceive sample_window ''u'' 0 0 [1],
          EvTask ''u'' 0 AnswerOk, EvCancel sample_window ''u'' (Some WholeUpload), EvRetry sample_window ''u'' (Some WholeUpload), EvPump,
          EvTask ''u'' 1 AnswerOk, EvTask ''u'' 1 AnswerOk])
     @ with_deps ''2''
         [EvTask ''u'' 1 (AnswerPlacement False), EvTask ''u'' 1 AnswerOk, EvTask ''u'' 0 AnswerOk, EvReceive sample_window ''u'' 0 1 [2], EvTask ''u'' 0 AnswerOk,
          EvTask ''u'' 0 AnswerOk, EvTask ''u'' 0 (AnswerVerified BySize), EvTask ''u'' 0 AnswerOk, EvTask ''u'' 0 AnswerOk]"

lemma stale_chunk_real: "real_run stale_chunk_run"
  by code_simp

lemma stale_chunk_placed:
  "upload_has ''u'' (\<lambda>u. it_state (item u 0) = Placed \<and> placed_from ''/d/.a.2.partial'' u \<and> \<not> written_at ''/d/.a.2.partial'' 0 u) (outcome stale_chunk_run)"
  by code_simp


text \<open>Nothing is under way for an upload, and nothing is due: only a message from a window moves it.\<close>

definition stranded :: "string \<Rightarrow> TransferService \<Rightarrow> bool" where
  "stranded tid s =
     (\<not> sv_pumpScheduled s \<and> sv_starts s = [] \<and> sv_retries s = []
      \<and> upload_has tid (\<lambda>u. up_tasks u = [] \<and> \<not> up_flushTimer u \<and> \<not> up_flushSoon u \<and> \<not> up_forgetTimer u \<and> \<not> isSettled u) s)"

text \<open>Two files, one at a time, of which the first cannot be opened: \<^verbatim>\<open>fileFailed\<close> neither pumps nor settles, and the second waits.\<close>

definition failed_open_run :: "(TransferDeps \<times> event) list" where
  "failed_open_run =
     with_deps ''1'' (started [sample_item ''a'' File, sample_item ''b'' File] []
       @ [EvPump, EvTask ''u'' 0 AnswerOk, EvFlushSoon ''u'', EvTask ''u'' 0 (AnswerError sample_error)])"

theorem failed_open_strands_queue:
  "real_run failed_open_run \<and> stranded ''u'' (outcome failed_open_run)
     \<and> upload_has ''u'' (\<lambda>u. it_state (item u 0) = FailedItem \<and> it_state (item u 1) = Queued \<and> up_queue u = [1]) (outcome failed_open_run)"
proof -
  have "real_run failed_open_run" by code_simp
  moreover have "stranded ''u'' (outcome failed_open_run)" by code_simp
  moreover have "upload_has ''u'' (\<lambda>u. it_state (item u 0) = FailedItem \<and> it_state (item u 1) = Queued \<and> up_queue u = [1]) (outcome failed_open_run)" by code_simp
  ultimately show ?thesis by blast
qed

text \<open>A folder whose creation is refused with an error: the batch it is in is in no queue any more, and it stays queued.\<close>

definition failed_folder_run :: "(TransferDeps \<times> event) list" where
  "failed_folder_run =
     with_deps ''1'' (started [sample_item ''a'' Dir] []
       @ [EvPump, EvTask ''u'' 0 AnswerOk, EvTask ''u'' 0 (AnswerError sample_error), EvFlushTimer ''u'', EvPump])"

theorem failed_folder_stranded:
  "real_run failed_folder_run \<and> stranded ''u'' (outcome failed_folder_run)
     \<and> upload_has ''u'' (\<lambda>u. it_state (item u 0) = Queued \<and> up_folderQueue u = [] \<and> up_waiting u = []) (outcome failed_folder_run)"
proof -
  have "real_run failed_folder_run" by code_simp
  moreover have "stranded ''u'' (outcome failed_folder_run)" by code_simp
  moreover have "upload_has ''u'' (\<lambda>u. it_state (item u 0) = Queued \<and> up_folderQueue u = [] \<and> up_waiting u = []) (outcome failed_folder_run)" by code_simp
  ultimately show ?thesis by blast
qed

end
