(* ===== verification/Upload_Link.thy ===== *)
theory Upload_Link
  imports Upload_Send Transfer_Runs
begin

text \<open>
  A window sending a file to the hub: the loop of \<open>Upload_Send\<close> against the transfer service of \<open>Transfer_Machine\<close>, through the route of
  \<^verbatim>\<open>packages/hub/src/api/transfers.ts\<close>. A request may be lost on its way, or its answer; the host may fail a write, having written part of it. Nothing else moves the upload meanwhile.
\<close>

section \<open>The route\<close>

definition MAX_SAFE_INTEGER :: nat where
  "MAX_SAFE_INTEGER = 2 ^ 53 - 1"

definition readOffset :: "string \<Rightarrow> nat option" where
  "readOffset s =
     (if 1 \<le> length s \<and> length s \<le> 16 \<and> list_all is_digit s
      then (if digits_value s \<le> MAX_SAFE_INTEGER then Some (digits_value s) else None) else None)"

definition offset_text :: "int \<Rightarrow> string" where
  "offset_text n = (if n < 0 then CHR ''-'' # dec (nat (- n)) else dec (nat n))"

definition state_text :: "TransferItemState \<Rightarrow> string" where
  "state_text st =
     (case st of Queued \<Rightarrow> ''queued'' | Sending \<Rightarrow> ''sending'' | Verifying \<Rightarrow> ''verifying'' | Placed \<Rightarrow> ''placed'' | FailedItem \<Rightarrow> ''failed''
      | Skipped \<Rightarrow> ''skipped'' | InConflict \<Rightarrow> ''conflict'' | Cancelled \<Rightarrow> ''cancelled'' | Interrupted \<Rightarrow> ''interrupted'')"

text \<open>What the route answers: the bytes acknowledged, the host's error, or the service's own refusal with its details, read from the file as it is then.\<close>

definition refusal_text :: "Item \<Rightarrow> string \<Rightarrow> string" where
  "refusal_text x code =
     (if code = ''ITEM_NOT_SENDING'' then ''This file is '' @ state_text (it_state x)
      else if code = ''ITEM_BUSY'' then ''A chunk of this file is being written''
      else if code = ''OFFSET_MISMATCH'' then ''The host holds '' @ offset_text (it_acked x) @ '' bytes of it: send from there''
      else ''The chunk is empty or goes past the file's size'')"

definition route_answer :: "Item \<Rightarrow> string option \<Rightarrow> chunk_answer \<Rightarrow> fetched" where
  "route_answer x failed a =
     (case a of
        ChunkAcked n \<Rightarrow> Fetched 200 (AckedBody (Some n))
      | ChunkRefused status code \<Rightarrow>
          Fetched status (ErrorBody
            (case failed of
               Some message \<Rightarrow> \<lparr>ce_code = Some code, ce_message = Some message, ce_acked = None, ce_state = None\<rparr>
             | None \<Rightarrow> \<lparr>ce_code = Some code, ce_message = Some (refusal_text x code),
                 ce_acked = (if code = ''OFFSET_MISMATCH'' then Some (it_acked x) else None),
                 ce_state = (if code = ''ITEM_NOT_SENDING'' then Some (state_text (it_state x)) else None)\<rparr>)))"

text \<open>The checks of the route before the service is asked: the item and the offset, or the refusal.\<close>

definition chunk_route ::
  "bool \<Rightarrow> (string \<Rightarrow> string option option) \<Rightarrow> string \<Rightarrow> string \<Rightarrow> string \<Rightarrow> bool \<Rightarrow> string option \<Rightarrow> string option \<Rightarrow> fetched + nat \<times> nat" where
  "chunk_route on clientToken tid item_text off_text isBuffer clientId tokenId =
     (let refuse = (\<lambda>status code text. Inl (Fetched status (ErrorBody \<lparr>ce_code = Some code, ce_message = Some text, ce_acked = None, ce_state = None\<rparr>)))
      in if \<not> on then refuse 404 ''FILE_TRANSFER_DISABLED'' ''File transfer is off: [experimental] file_transfer''
         else if \<not> isValidUlid (JStr tid) then refuse 400 ''VALIDATION_ERROR'' ''Invalid transfer ID''
         else if \<not> (1 \<le> length item_text \<and> length item_text \<le> 9 \<and> list_all is_digit item_text) then refuse 400 ''VALIDATION_ERROR'' ''Invalid item ID''
         else case readOffset off_text of
                None \<Rightarrow> refuse 400 ''VALIDATION_ERROR'' ''offset must be a whole number of bytes''
              | Some offset \<Rightarrow>
                  if \<not> isBuffer then refuse 415 ''VALIDATION_ERROR'' ''A chunk is sent as application/octet-stream''
                  else if clientId = None \<or> \<not> isValidUlid (JStr (the clientId)) \<or> clientToken (the clientId) \<noteq> Some tokenId
                  then refuse 403 ''NOT_THE_SENDER'' ''Name in X-Lasterm-Client-Id the window of this credential that started the upload''
                  else Inr (digits_value item_text, offset))"

section \<open>A chunk through the service\<close>

record upload_ref =
  ur_enabled :: bool
  ur_clientToken :: "string \<Rightarrow> string option option"
  ur_deps :: TransferDeps
  ur_requester :: TransferRequester
  ur_tid :: string
  ur_item :: nat
  ur_sha256 :: "string \<Rightarrow> string"

abbreviation the_upload :: "upload_ref \<Rightarrow> TransferService \<Rightarrow> Upload" where
  "the_upload r s \<equiv> the (map_get (sv_uploads s) (ur_tid r))"

definition last_task :: "upload_ref \<Rightarrow> TransferService \<Rightarrow> nat" where
  "last_task r s = length (up_tasks (the_upload r s)) - 1"

definition last_answer :: "upload_ref \<Rightarrow> TransferService \<Rightarrow> chunk_answer" where
  "last_answer r s = snd (last (up_answers (the_upload r s)))"

definition last_refusal :: "TransferService \<Rightarrow> chunk_answer" where
  "last_refusal s = (case snd (last (sv_replies s)) of ReceiveRefused tid i status code \<Rightarrow> ChunkRefused status code | _ \<Rightarrow> not_sending)"

text \<open>The request, its file open, and the host's answer to the write: the answer, whether anything was written, and the service after.\<close>

definition take_chunk :: "upload_ref \<Rightarrow> host_error option \<Rightarrow> int \<Rightarrow> byte list \<Rightarrow> TransferService \<Rightarrow> chunk_answer \<times> bool \<times> TransferService" where
  "take_chunk r failure offset data s =
     (let go = (\<lambda>ev s. step (ur_sha256 r) s (ur_deps r, ev));
          s1 = go (EvReceive (ur_requester r) (ur_tid r) (ur_item r) offset data) s
      in if sv_replies s1 \<noteq> sv_replies s then (last_refusal s1, False, s1)
         else let s2 = go (EvTask (ur_tid r) (last_task r s1) AnswerOk) s1
           in if up_answers (the_upload r s2) \<noteq> up_answers (the_upload r s1) then (last_answer r s2, False, s2)
              else let s3 = go (EvTask (ur_tid r) (last_task r s2) (case failure of None \<Rightarrow> AnswerOk | Some e \<Rightarrow> AnswerError e)) s2
                in (last_answer r s3, True, s3))"

text \<open>A file of an upload this window sends, open, with no chunk being written.\<close>

definition tracked :: "upload_ref \<Rightarrow> Upload \<Rightarrow> bool" where
  "tracked r u \<longleftrightarrow> ur_item r < length (up_items u) \<and> it_kind (item u (ur_item r)) = File \<and> up_source u = Some (rq_clientId (ur_requester r))
     \<and> up_tokenId u = rq_tokenId (ur_requester r) \<and> \<not> it_opening (item u (ur_item r)) \<and> \<not> it_writing (item u (ur_item r))"

abbreviation file_of :: "upload_ref \<Rightarrow> TransferService \<Rightarrow> Item" where
  "file_of r s \<equiv> item (the_upload r s) (ur_item r)"

definition takes :: "Item \<Rightarrow> bool" where
  "takes x \<longleftrightarrow> it_state x = Sending \<and> it_sink x \<noteq> None"

lemma more_rest [simp]:
  "up_tokenId (upd_item i f u) = up_tokenId u" "up_answers (upd_item i f u) = up_answers u" "up_tasks (upd_item i f u) = up_tasks u"
  "up_tokenId (setState i st u) = up_tokenId u" "up_answers (setState i st u) = up_answers u" "up_tasks (setState i st u) = up_tasks u"
  "up_tokenId (addAcked i d u) = up_tokenId u" "up_answers (addAcked i d u) = up_answers u" "up_tasks (addAcked i d u) = up_tasks u"
  by (simp_all add: upd_item_def setState_def addAcked_def upd_totals_def markFolders_def Let_def)

lemma settle_rest [simp]:
  "up_items (settle now u) = up_items u" "up_source (settle now u) = up_source u" "up_tokenId (settle now u) = up_tokenId u" "up_answers (settle now u) = up_answers u"
  by (simp_all add: settle_def)

lemma call_rest [simp]:
  "up_items (call c u) = up_items u" "up_source (call c u) = up_source u" "up_tokenId (call c u) = up_tokenId u" "up_answers (call c u) = up_answers u"
  "up_tasks (call c u) = up_tasks u" "up_backend (call c u) = up_backend u"
  by (simp_all add: call_def)

lemma add_task_rest [simp]:
  "up_items (add_task t u) = up_items u" "up_source (add_task t u) = up_source u" "up_tokenId (add_task t u) = up_tokenId u" "up_answers (add_task t u) = up_answers u"
  by (simp_all add: add_task_def)

lemma answer_chunk_rest [simp]:
  "up_items (answer_chunk i a u) = up_items u" "up_source (answer_chunk i a u) = up_source u" "up_tokenId (answer_chunk i a u) = up_tokenId u"
  "up_answers (answer_chunk i a u) = up_answers u @ [(i, a)]"
  by (simp_all add: answer_chunk_def)

lemmas item_simps = upd_item_items setState_items addAcked_items nth_update

lemma take_chunk_refused_early:
  assumes "map_get (sv_uploads s) (ur_tid r) = Some u" "tracked r u" "it_state (item u (ur_item r)) \<noteq> Sending"
  shows "take_chunk r failure offset data s = (not_sending, False, reply_to (rq_clientId (ur_requester r)) (ReceiveRefused (ur_tid r) (ur_item r) 409 ''ITEM_NOT_SENDING'') s)"
  using assms by (simp add: take_chunk_def receive_def tracked_def reply_to_def last_refusal_def not_sending_def)

lemma map_set_twice [simp]: "map_set k v (map_set k w m) = map_set k v m"
  by (induction m) auto

lemma take_chunk_refused:
  assumes "map_get (sv_uploads s) (ur_tid r) = Some u" "tracked r u" "it_state (item u (ur_item r)) = Sending"
    and "chunk_problem (item u (ur_item r)) offset data = Some a"
  shows "take_chunk r failure offset data s = (a, False, put_upload (ur_tid r) (answer_chunk (ur_item r) a u) s)"
  using assms
  by (simp add: take_chunk_def receive_def tracked_def last_task_def last_answer_def put_upload_def settle_task_def add_task_def remove_nth_def write_chunk_def
      answer_chunk_def)

lemma take_chunk_written:
  assumes "map_get (sv_uploads s) (ur_tid r) = Some u" "tracked r u" "it_sink (item u (ur_item r)) = Some sink"
    and "chunk_problem (item u (ur_item r)) offset data = None"
    and "written (ur_item r) sink data (case failure of None \<Rightarrow> AnswerOk | Some e \<Rightarrow> AnswerError e)
           (call (CallWrite sink offset data) (upd_item (ur_item r) (\<lambda>x. x\<lparr>it_writing := True\<rparr>) u)) = (u', again)"
  shows "take_chunk r failure offset data s =
     (snd (last (up_answers u')), True, (if again then schedulePump else (\<lambda>s. s)) (put_upload (ur_tid r) u' s))"
proof -
  have "it_state (item u (ur_item r)) = Sending" using assms(4) by (simp add: chunk_problem_def split: if_splits)
  moreover have "u\<lparr>up_tasks := up_tasks u\<rparr> = u" by simp
  ultimately show ?thesis
    using assms
    by (simp add: take_chunk_def receive_def tracked_def last_task_def last_answer_def put_upload_def settle_task_def add_task_def remove_nth_def write_chunk_def
        call_def upd_item_def schedulePump_def)
qed

section \<open>What a write leads to\<close>

lemma written_ok:
  assumes "tracked r u" "it_sink (item u i) = Some sink" "it_state (item u i) = Sending" "i = ur_item r"
    and "written i sink data AnswerOk (call c (upd_item i (\<lambda>x. x\<lparr>it_writing := True\<rparr>) u)) = (u', again)"
  shows "snd (last (up_answers u')) = ChunkAcked (it_acked (item u i) + int (length data)) \<and> it_acked (item u' i) = it_acked (item u i) + int (length data) \<and> tracked r u'"
proof -
  let ?full = "it_acked (item u i) + int (length data) = it_size (item u i)"
  from assms show ?thesis
    by (cases ?full) (auto simp: written_def Let_def item_simps tracked_def finishFile_def split: prod.splits)
qed

lemma abort_sink_rest [simp]:
  "up_items (abort_sink sink u) = up_items u" "up_source (abort_sink sink u) = up_source u" "up_tokenId (abort_sink sink u) = up_tokenId u"
  "up_backend (abort_sink sink u) = up_backend u"
  by (simp_all add: abort_sink_def split: option.splits)

lemma interrupt_rest:
  "j \<noteq> i \<Longrightarrow> item (interrupt reason j u) i = item u i" "length (up_items (interrupt reason j u)) = length (up_items u)"
  "up_source (interrupt reason j u) = up_source u" "up_tokenId (interrupt reason j u) = up_tokenId u"
  by (simp_all add: interrupt_def Let_def item_simps)

lemma interruptAll_keeps:
  assumes "i < length (up_items u)" "it_state (item u i) = Interrupted"
  shows "item (interruptAll reason u) i = item u i \<and> length (up_items (interruptAll reason u)) = length (up_items u)
     \<and> up_source (interruptAll reason u) = up_source u \<and> up_tokenId (interruptAll reason u) = up_tokenId u"
proof -
  let ?f = "\<lambda>u j. if it_state (item u j) = Sending \<or> it_state (item u j) = Queued then interrupt reason j u else u"
  let ?P = "\<lambda>v. item v i = item u i \<and> length (up_items v) = length (up_items u) \<and> up_source v = up_source u \<and> up_tokenId v = up_tokenId u"
  have "?P (foldl ?f u [0..<length (up_items u)])"
  proof (rule foldl_inv)
    fix v j
    assume "?P v"
    then show "?P (?f v j)" using assms(2) by (cases "j = i") (simp_all add: interrupt_rest)
  qed simp
  then show ?thesis by (auto simp: interruptAll_def Let_def releaseBackend_def)
qed

lemma written_error:
  assumes "tracked r u" "it_sink (item u i) = Some sink" "it_state (item u i) = Sending" "i = ur_item r"
    and "written i sink data (AnswerError e) (call c (upd_item i (\<lambda>x. x\<lparr>it_writing := True\<rparr>) u)) = (u', again)"
  shows "snd (last (up_answers u')) = ChunkRefused (if er_interruption e then 409 else 502) (er_code e) \<and> \<not> takes (item u' i)
     \<and> (it_acked (item u' i) = it_acked (item u i) \<or> it_acked (item u' i) = 0) \<and> tracked r u'"
proof -
  define v where "v = call c (upd_item i (\<lambda>x. x\<lparr>it_writing := True\<rparr>) u)"
  have i: "i < length (up_items v)" using assms by (simp add: v_def tracked_def)
  have v: "it_state (item v i) = Sending" "it_kind (item v i) = File" "\<not> it_opening (item v i)" "it_acked (item v i) = it_acked (item u i)"
    "up_source v = up_source u" "up_tokenId v = up_tokenId u" "length (up_items v) = length (up_items u)"
    using assms by (simp_all add: v_def tracked_def item_simps)
  have u': "u' = answer_chunk i (ChunkRefused (if er_interruption e then 409 else 502) (er_code e)) (upd_item i (\<lambda>x. x\<lparr>it_writing := False\<rparr>) (fileFailed e i v))"
    using assms(5) v(1) by (simp add: written_def v_def [symmetric])
  show ?thesis
  proof (cases "er_interruption e")
    case True
    define w where "w = upd_item i (\<lambda>x. x\<lparr>it_reason := Some (er_message e), it_code := Some (er_code e)\<rparr>) (setState i Interrupted (abort_sink (it_sink (item v i)) (upd_item i (\<lambda>x. x\<lparr>it_sink := None\<rparr>) v)))"
    have w: "it_state (item w i) = Interrupted" "it_kind (item w i) = File" "\<not> it_opening (item w i)" "it_acked (item w i) = it_acked (item u i)"
      "up_source w = up_source u" "up_tokenId w = up_tokenId u" "length (up_items w) = length (up_items u)"
      using v i by (auto simp: w_def item_simps abort_sink_def split: option.splits)
    have "fileFailed e i v = interruptAll (er_message e) w" using True by (simp add: fileFailed_def w_def Let_def)
    then show ?thesis using u' w interruptAll_keeps [of i w "er_message e"] i v assms by (auto simp: item_simps tracked_def takes_def)
  next
    case False
    then show ?thesis using u' v i assms
      by (auto simp: fileFailed_def Let_def item_simps tracked_def takes_def restartFile_def abort_sink_def remove_temp_def split: option.splits if_splits)
  qed
qed

section \<open>The link\<close>

text \<open>
  What becomes of a request: it is carried to the hub, where the host takes its write or fails it with so many bytes written, and its answer is heard or not; or it is lost.
\<close>

datatype net = Carried "(host_error \<times> nat) option" bool | Dropped

record link =
  ln_service :: TransferService
  ln_bytes :: "byte list"
  ln_net :: "net list"

definition write_at :: "nat \<Rightarrow> byte list \<Rightarrow> byte list \<Rightarrow> byte list" where
  "write_at offset data bytes = take offset bytes @ data @ drop (offset + length data) bytes"

definition lost_reply :: fetched where
  "lost_reply = FetchThrew ''TypeError'' ''Failed to fetch''"

definition carried :: "upload_ref \<Rightarrow> (host_error \<times> nat) option \<Rightarrow> int \<Rightarrow> byte list \<Rightarrow> link \<Rightarrow> fetched \<times> link" where
  "carried r failure offset data l =
     (case chunk_route (ur_enabled r) (ur_clientToken r) (ur_tid r) (dec (ur_item r)) (offset_text offset) True
             (Some (rq_clientId (ur_requester r))) (rq_tokenId (ur_requester r)) of
        Inl refusal \<Rightarrow> (refusal, l)
      | Inr (i, n) \<Rightarrow>
          let (a, wrote, s) = take_chunk r (map_option fst failure) (int n) data (ln_service l);
              part = (case failure of None \<Rightarrow> data | Some (e, k) \<Rightarrow> take k data)
          in (route_answer (file_of r (ln_service l)) (if wrote then map_option (er_message \<circ> fst) failure else None) a,
              l\<lparr>ln_service := s, ln_bytes := (if wrote then write_at n part (ln_bytes l) else ln_bytes l)\<rparr>))"

definition hub_put :: "upload_ref \<Rightarrow> link \<Rightarrow> int \<Rightarrow> byte list \<Rightarrow> put_outcome \<times> link" where
  "hub_put r l offset data =
     (case ln_net l of
        [] \<Rightarrow> (let (f, l) = carried r None offset data l in (putChunk f, l))
      | Dropped # net \<Rightarrow> (putChunk lost_reply, l\<lparr>ln_net := net\<rparr>)
      | Carried failure heard # net \<Rightarrow>
          (let (f, l) = carried r failure offset data (l\<lparr>ln_net := net\<rparr>) in (putChunk (if heard then f else lost_reply), l)))"

text \<open>What the host holds of the file, as the hub has it: the bytes it acknowledged.\<close>

definition held_bytes :: "upload_ref \<Rightarrow> link \<Rightarrow> byte list" where
  "held_bytes r l = take (nat (it_acked (file_of r (ln_service l)))) (ln_bytes l)"

definition file_closed :: "upload_ref \<Rightarrow> link \<Rightarrow> bool" where
  "file_closed r l \<longleftrightarrow> \<not> takes (file_of r (ln_service l))"

definition link_ok :: "upload_ref \<Rightarrow> link \<Rightarrow> bool" where
  "link_ok r l \<longleftrightarrow> map_has (sv_uploads (ln_service l)) (ur_tid r) \<and> tracked r (the_upload r (ln_service l))
     \<and> 0 \<le> it_acked (file_of r (ln_service l)) \<and> it_acked (file_of r (ln_service l)) \<le> int (length (ln_bytes l))"

lemma route_offset:
  assumes "chunk_route on clientToken tid item_text (offset_text offset) isBuffer clientId tokenId = Inr (i, n)"
  shows "offset = int n"
proof -
  have "readOffset (offset_text offset) = Some n" using assms by (auto simp: chunk_route_def Let_def split: if_splits option.splits)
  then have v: "list_all is_digit (offset_text offset)" "digits_value (offset_text offset) = n" by (auto simp: readOffset_def split: if_splits)
  have "\<not> is_digit (CHR ''-'')" by (simp add: is_digit_def char_between_def)
  then have "0 \<le> offset" using v(1) by (auto simp: offset_text_def split: if_splits)
  then show ?thesis using v(2) by (simp add: offset_text_def)
qed

lemma route_refuses: "chunk_route on clientToken tid item_text off_text isBuffer clientId tokenId = Inl f \<Longrightarrow> \<exists>status e. f = Fetched status (ErrorBody e) \<and> status \<ge> 400 \<and> ce_acked e = None"
  by (auto simp: chunk_route_def Let_def split: if_splits option.splits)

lemma write_at_length: "offset \<le> length bytes \<Longrightarrow> length bytes \<le> length (write_at offset data bytes)"
  by (auto simp: write_at_def)

lemma write_at_take: "offset \<le> length bytes \<Longrightarrow> take offset (write_at offset data bytes) = take offset bytes"
  by (simp add: write_at_def)

lemma write_at_all: "offset \<le> length bytes \<Longrightarrow> take (offset + length data) (write_at offset data bytes) = take offset bytes @ data"
  by (simp add: write_at_def)

text \<open>A request carried to the hub: refused, with nothing changed of the file; taken whole; or failed, and the file closed.\<close>

definition was_refused :: "upload_ref \<Rightarrow> link \<Rightarrow> fetched \<Rightarrow> link \<Rightarrow> bool" where
  "was_refused r l f l' \<longleftrightarrow> file_of r (ln_service l') = file_of r (ln_service l) \<and> ln_bytes l' = ln_bytes l
     \<and> (\<exists>status e. f = Fetched status (ErrorBody e) \<and> status \<ge> 400
          \<and> (\<forall>n. ce_acked e = Some n \<longrightarrow> takes (file_of r (ln_service l)) \<and> n = it_acked (file_of r (ln_service l))))"

definition was_taken :: "upload_ref \<Rightarrow> int \<Rightarrow> byte list \<Rightarrow> link \<Rightarrow> fetched \<Rightarrow> link \<Rightarrow> bool" where
  "was_taken r offset data l f l' \<longleftrightarrow> takes (file_of r (ln_service l)) \<and> offset = it_acked (file_of r (ln_service l))
     \<and> it_acked (file_of r (ln_service l')) = offset + int (length data) \<and> ln_bytes l' = write_at (nat offset) data (ln_bytes l)
     \<and> f = Fetched 200 (AckedBody (Some (offset + int (length data))))"

definition was_failed :: "upload_ref \<Rightarrow> link \<Rightarrow> fetched \<Rightarrow> link \<Rightarrow> bool" where
  "was_failed r l f l' \<longleftrightarrow> takes (file_of r (ln_service l)) \<and> file_closed r l' \<and> (\<exists>status e. f = Fetched status (ErrorBody e) \<and> status \<ge> 400 \<and> ce_acked e = None)"

abbreviation routed :: "upload_ref \<Rightarrow> int \<Rightarrow> fetched + nat \<times> nat" where
  "routed r offset \<equiv> chunk_route (ur_enabled r) (ur_clientToken r) (ur_tid r) (dec (ur_item r)) (offset_text offset) True
     (Some (rq_clientId (ur_requester r))) (rq_tokenId (ur_requester r))"

lemma carried_unrouted:
  assumes "link_ok r l" "carried r failure offset data l = (f, l')" "routed r offset = Inl g"
  shows "link_ok r l' \<and> was_refused r l f l'"
proof -
  have "f = g" "l' = l" using assms(2,3) by (simp_all add: carried_def)
  then show ?thesis using route_refuses [OF assms(3)] assms(1) by (auto simp: was_refused_def)
qed

lemma carried_refused:
  assumes "link_ok r l" "carried r failure offset data l = (f, l')" "routed r offset = Inr (i, n)"
    and u: "map_get (sv_uploads (ln_service l)) (ur_tid r) = Some u" "tracked r u"
    and "it_state (item u (ur_item r)) \<noteq> Sending \<or> chunk_problem (item u (ur_item r)) offset data \<noteq> None"
  shows "link_ok r l' \<and> was_refused r l f l'"
proof (cases "it_state (item u (ur_item r)) = Sending")
  case False
  then have "l' = l\<lparr>ln_service := reply_to (rq_clientId (ur_requester r)) (ReceiveRefused (ur_tid r) (ur_item r) 409 ''ITEM_NOT_SENDING'') (ln_service l)\<rparr>"
    "f = route_answer (item u (ur_item r)) None not_sending"
    using assms(2,3) u by (auto simp: carried_def take_chunk_refused_early)
  then show ?thesis using assms(1) u by (auto simp: was_refused_def link_ok_def reply_to_def route_answer_def not_sending_def)
next
  case True
  then obtain a where a: "chunk_problem (item u (ur_item r)) offset data = Some a" using assms(6) by auto
  then have "l' = l\<lparr>ln_service := put_upload (ur_tid r) (answer_chunk (ur_item r) a u) (ln_service l)\<rparr>" "f = route_answer (item u (ur_item r)) None a"
    using assms(2,3) u True take_chunk_refused [OF u True, of offset data a] route_offset [OF assms(3)] by (auto simp: carried_def)
  then show ?thesis using assms(1) u a True
    by (auto simp: was_refused_def link_ok_def put_upload_def map_has_def route_answer_def not_sending_def chunk_problem_def takes_def tracked_def split: if_splits)
qed

lemma carried_written:
  assumes "link_ok r l" "carried r failure offset data l = (f, l')" "routed r offset = Inr (i, n)"
    and u: "map_get (sv_uploads (ln_service l)) (ur_tid r) = Some u" "tracked r u" and sending: "it_state (item u (ur_item r)) = Sending"
    and none: "chunk_problem (item u (ur_item r)) offset data = None"
  shows "link_ok r l' \<and> (was_taken r offset data l f l' \<or> was_failed r l f l')"
proof -
  let ?x = "item u (ur_item r)"
  have acked: "0 \<le> it_acked ?x" "it_acked ?x \<le> int (length (ln_bytes l))" using assms(1) u by (auto simp: link_ok_def)
  obtain sink where sink: "it_sink ?x = Some sink" and at: "offset = it_acked ?x" using none by (auto simp: chunk_problem_def split: if_splits)
  have n: "offset = int n" "nat offset = n" "n \<le> length (ln_bytes l)" using route_offset [OF assms(3)] at acked by simp_all
  obtain u' again where w: "written (ur_item r) sink data (case map_option fst failure of None \<Rightarrow> AnswerOk | Some e \<Rightarrow> AnswerError e)
      (call (CallWrite sink offset data) (upd_item (ur_item r) (\<lambda>x. x\<lparr>it_writing := True\<rparr>) u)) = (u', again)" by fastforce
  have l': "l' = l\<lparr>ln_service := (if again then schedulePump else (\<lambda>s. s)) (put_upload (ur_tid r) u' (ln_service l)),
      ln_bytes := write_at n (case failure of None \<Rightarrow> data | Some (e, k) \<Rightarrow> take k data) (ln_bytes l)\<rparr>"
    and f: "f = route_answer ?x (map_option (er_message \<circ> fst) failure) (snd (last (up_answers u')))"
    using assms(2,3) n(1) take_chunk_written [OF u sink none w] u by (auto simp: carried_def)
  have file': "the_upload r (ln_service l') = u'" "map_has (sv_uploads (ln_service l')) (ur_tid r)" using l' by (auto simp: put_upload_def schedulePump_def map_has_def)
  show ?thesis
  proof (cases failure)
    case None
    with written_ok [OF u(2) sink sending refl] w have "snd (last (up_answers u')) = ChunkAcked (it_acked ?x + int (length data))"
      "it_acked (item u' (ur_item r)) = it_acked ?x + int (length data)" "tracked r u'" by auto
    moreover have "link_ok r l'" using file' calculation acked at n l' None by (auto simp: link_ok_def write_at_def)
    ultimately show ?thesis using file' at n l' f None u sink sending by (simp add: was_taken_def route_answer_def takes_def)
  next
    case (Some p)
    obtain e k where p: "p = (e, k)" by fastforce
    with written_error [OF u(2) sink sending refl] w Some have er: "snd (last (up_answers u')) = ChunkRefused (if er_interruption e then 409 else 502) (er_code e)"
      "\<not> takes (item u' (ur_item r))" "it_acked (item u' (ur_item r)) = it_acked ?x \<or> it_acked (item u' (ur_item r)) = 0" "tracked r u'" by auto
    moreover have "link_ok r l'" using file' er acked l' Some p write_at_length [OF n(3), of "take k data"] by (auto simp: link_ok_def)
    ultimately show ?thesis using file' f Some p u sink sending by (simp add: was_failed_def route_answer_def takes_def file_closed_def)
  qed
qed

lemma carried_cases:
  assumes "link_ok r l" "carried r failure offset data l = (f, l')"
  shows "link_ok r l' \<and> (was_refused r l f l' \<or> was_taken r offset data l f l' \<or> was_failed r l f l')"
proof -
  obtain u where u: "map_get (sv_uploads (ln_service l)) (ur_tid r) = Some u" "tracked r u" using assms(1) by (auto simp: link_ok_def map_has_def)
  show ?thesis
  proof (cases "routed r offset")
    case (Inr p)
    then obtain i n where "routed r offset = Inr (i, n)" by (cases p) simp
    with carried_refused [OF assms _ u] carried_written [OF assms _ u] show ?thesis by blast
  qed (use carried_unrouted assms in blast)
qed

section \<open>The interface, on the hub\<close>

lemma held_taken: "link_ok r l \<Longrightarrow> was_taken r offset data l f l' \<Longrightarrow> held_bytes r l' = held_bytes r l @ data \<and> offset = int (length (held_bytes r l))"
  by (auto simp: was_taken_def held_bytes_def link_ok_def nat_add_distrib write_at_all)

lemma link_net [simp]:
  "link_ok r (l\<lparr>ln_net := net\<rparr>) = link_ok r l" "held_bytes r (l\<lparr>ln_net := net\<rparr>) = held_bytes r l" "file_closed r (l\<lparr>ln_net := net\<rparr>) = file_closed r l"
  by (simp_all add: link_ok_def held_bytes_def file_closed_def)

lemma was_net [simp]:
  "was_refused r (l\<lparr>ln_net := net\<rparr>) f l' = was_refused r l f l'" "was_taken r offset data (l\<lparr>ln_net := net\<rparr>) f l' = was_taken r offset data l f l'"
  "was_failed r (l\<lparr>ln_net := net\<rparr>) f l' = was_failed r l f l'"
  by (simp_all add: was_refused_def was_taken_def was_failed_def)

text \<open>A request either never reached the hub, or was carried, its answer heard or not.\<close>

lemma hub_put_cases:
  assumes "link_ok r l" "hub_put r l offset data = (res, l')"
  obtains (dropped) "link_ok r l'" "held_bytes r l' = held_bytes r l" "file_closed r l' = file_closed r l" "res = putChunk lost_reply"
    | (refused) f where "link_ok r l'" "was_refused r l f l'" "res = putChunk f \<or> res = putChunk lost_reply"
    | (taken) f where "link_ok r l'" "was_taken r offset data l f l'" "res = putChunk f \<or> res = putChunk lost_reply"
    | (failed) f where "link_ok r l'" "was_failed r l f l'" "res = putChunk f \<or> res = putChunk lost_reply"
proof -
  have carried: thesis if "carried r failure offset data (l\<lparr>ln_net := net\<rparr>) = (f, l')" "res = putChunk f \<or> res = putChunk lost_reply" for failure net f
    using carried_cases [of r "l\<lparr>ln_net := net\<rparr>", OF _ that(1)] that(2) assms(1) refused taken failed by auto
  show thesis
  proof (cases "ln_net l")
    case Nil
    obtain f where f: "carried r None offset data l = (f, l')" "res = putChunk f" using assms(2) Nil by (auto simp: hub_put_def split: prod.splits)
    have "l\<lparr>ln_net := []\<rparr> = l" using Nil by simp
    with f carried [of None "[]"] show thesis by simp
  next
    case (Cons n net)
    show thesis
    proof (cases n)
      case Dropped
      then show thesis using assms Cons dropped by (auto simp: hub_put_def)
    next
      case (Carried failure heard)
      then show thesis using assms(2) Cons carried [of failure net] by (auto simp: hub_put_def split: prod.splits if_splits)
    qed
  qed
qed

lemma lost_unheard [simp]: "putChunk lost_reply = PutAnswered (ChunkNo 0 ''HUB_UNREACHABLE'' ''Failed to fetch'' None None)"
  by (simp add: lost_reply_def putChunk_def unreadable_def)

lemma taken_heard [simp]: "putChunk (Fetched 200 (AckedBody (Some n))) = PutAnswered (ChunkOk n)"
  by (simp add: putChunk_def)

lemma refused_unacked: "was_refused r l f l' \<or> was_failed r l f l' \<Longrightarrow> putChunk f \<noteq> PutAnswered (ChunkOk n)"
  by (auto simp: was_refused_def was_failed_def putChunk_def refusalOf_def Let_def)

lemma mismatch_refused:
  "putChunk f = PutAnswered (ChunkNo status code message (Some n) state) \<Longrightarrow> was_refused r l f l' \<or> was_taken r offset data l f l' \<or> was_failed r l f l' \<Longrightarrow>
     was_refused r l f l' \<and> takes (file_of r (ln_service l)) \<and> n = it_acked (file_of r (ln_service l))"
  by (auto simp: was_refused_def was_failed_def was_taken_def putChunk_def refusalOf_def Let_def split: if_splits)

lemma held_refused: "was_refused r l f l' \<Longrightarrow> held_bytes r l' = held_bytes r l \<and> file_closed r l' = file_closed r l"
  by (simp add: was_refused_def held_bytes_def file_closed_def)

interpretation hub: chunk_host "hub_put r" "\<lambda>k l. l" "held_bytes r" "file_closed r" "link_ok r"
proof
  fix s s' :: link and offset chunk res status message n state
  assume ok: "link_ok r s"
  show "link_ok r s'" if "hub_put r s offset chunk = (res, s')" using ok that by (cases rule: hub_put_cases)
  show "file_closed r s' \<or> held_bytes r s' = held_bytes r s \<or> (held_bytes r s' = held_bytes r s @ chunk \<and> offset = int (length (held_bytes r s)))"
    if "hub_put r s offset chunk = (res, s')"
    using ok that by (cases rule: hub_put_cases) (use ok in \<open>auto dest: held_refused held_taken simp: was_failed_def\<close>)
  show "file_closed r s'" if "file_closed r s" "hub_put r s offset chunk = (res, s')"
    using ok that(2) by (cases rule: hub_put_cases) (use that(1) in \<open>auto dest: held_refused simp: was_failed_def was_taken_def file_closed_def\<close>)
  show "\<not> file_closed r s \<and> held_bytes r s' = held_bytes r s @ chunk \<and> offset = int (length (held_bytes r s)) \<and> n = int (length (held_bytes r s'))"
    if "hub_put r s offset chunk = (PutAnswered (ChunkOk n), s')"
    using ok that
  proof (cases rule: hub_put_cases)
    case (taken f)
    then have "n = offset + int (length chunk)" "takes (file_of r (ln_service s))" by (auto simp: was_taken_def)
    with held_taken [OF ok taken(2)] show ?thesis by (simp add: file_closed_def)
  next
    case (refused f)
    then show ?thesis using refused_unacked [of r s f s' n] by auto
  next
    case (failed f)
    then show ?thesis using refused_unacked [of r s f s' n] by auto
  qed simp
  show "\<not> file_closed r s \<and> held_bytes r s' = held_bytes r s \<and> n = int (length (held_bytes r s'))"
    if "hub_put r s offset chunk = (PutAnswered (ChunkNo status ''OFFSET_MISMATCH'' message (Some n) state), s')"
  proof -
    have "\<exists>f. putChunk f = PutAnswered (ChunkNo status ''OFFSET_MISMATCH'' message (Some n) state)
        \<and> (was_refused r s f s' \<or> was_taken r offset chunk s f s' \<or> was_failed r s f s')"
      using ok that by (cases rule: hub_put_cases) auto
    then obtain f where "putChunk f = PutAnswered (ChunkNo status ''OFFSET_MISMATCH'' message (Some n) state)"
      "was_refused r s f s' \<or> was_taken r offset chunk s f s' \<or> was_failed r s f s'" by blast
    from mismatch_refused [OF this] have "was_refused r s f s'" "takes (file_of r (ln_service s))" "n = it_acked (file_of r (ln_service s))" by auto
    with held_refused [OF this(1)] ok show ?thesis by (auto simp: held_bytes_def file_closed_def link_ok_def)
  qed
qed simp

text \<open>
  C7: A file sent is on the host, byte for byte. When the loop of the window ends with every byte sent, the temporary of the file holds exactly the file,
  whatever requests or answers were lost on the way and however often the hub moved the offset; and whatever the res, what the hub acknowledged of a file it still takes is
  a beginning of the file. (Nothing else acts on the file meanwhile: \<open>retried_file_misses_bytes\<close> shows what a cancel and a retry do.)
\<close>

theorem file_arrives:
  assumes "so_put opts = hub_put r" "so_wait opts = (\<lambda>k l. l)" "link_ok r l" "prefix (held_bytes r l) (so_file opts)" "so_from opts = int (length (held_bytes r l))"
    and "sendFileBytes opts l = (result, sent, told, l')"
  shows "(\<forall>n. result = Sent n \<longrightarrow> held_bytes r l' = so_file opts) \<and> (file_closed r l' \<or> prefix (held_bytes r l') (so_file opts))"
  using hub.delivers [OF assms] by blast

section \<open>A file over a bad link\<close>

text \<open>An upload of three bytes, its file open: the hub's window sends it byte by byte; an answer and a request are lost.\<close>

definition sample_ref :: upload_ref where
  "sample_ref = \<lparr>ur_enabled = True, ur_clientToken = (\<lambda>_. Some None), ur_deps = (sample_deps ''1'')\<lparr>td_generateId := replicate 26 (CHR ''1'')\<rparr>,
     ur_requester = \<lparr>rq_clientId = replicate 26 (CHR ''2''), rq_tokenId = None\<rparr>, ur_tid = replicate 26 (CHR ''1''), ur_item = 0, ur_sha256 = (\<lambda>x. x)\<rparr>"

definition sample_service :: TransferService where
  "sample_service =
     foldl (\<lambda>s ev. step (\<lambda>x. x) s (ur_deps sample_ref, ev)) initial_service
       (EvStart (ur_requester sample_ref) \<lparr>sm_requestId = None, sm_channelId = JStr (replicate 26 (CHR ''0'')), sm_dir = Some ''/d'', sm_onConflict = Some OnAsk,
          sm_items = Some [(sample_item ''a'' File)\<lparr>si_size := Number (IntNum 3)\<rparr>]\<rparr>
        # tl (started [] []) @ [EvPump, EvTask (ur_tid sample_ref) 0 AnswerOk, EvTask (ur_tid sample_ref) 0 (AnswerPlacement False), EvTask (ur_tid sample_ref) 0 AnswerOk])"

definition sample_link :: link where
  "sample_link = \<lparr>ln_service = sample_service, ln_bytes = [], ln_net = [Carried None True, Carried None False, Dropped, Carried None True]\<rparr>"

definition sample_sending :: "link SendOptions" where
  "sample_sending = \<lparr>so_file = [7, 8, 9], so_from = 0, so_put = hub_put sample_ref, so_chunkBytes = Some 1, so_stopped = (\<lambda>_. False), so_wait = (\<lambda>k l. l)\<rparr>"

lemma safe_as_integer [code_unfold]: "n \<le> MAX_SAFE_INTEGER \<longleftrightarrow> int n \<le> 9007199254740991"
  by (simp add: MAX_SAFE_INTEGER_def)

theorem file_arrives_witness: "held_bytes sample_ref (snd (snd (snd (sendFileBytes sample_sending sample_link)))) = [7, 8, 9]"
proof -
  obtain result sent told l' where run: "sendFileBytes sample_sending sample_link = (result, sent, told, l')" by (metis prod_cases4)
  have "fst (sendFileBytes sample_sending sample_link) = Sent 3" by code_simp
  with run have "result = Sent 3" by simp
  moreover have "link_ok sample_ref sample_link" by code_simp
  moreover have "held_bytes sample_ref sample_link = []" by (simp add: held_bytes_def sample_link_def)
  ultimately show ?thesis using file_arrives [of sample_sending sample_ref sample_link, OF _ _ _ _ _ run] run by (simp add: sample_sending_def)
qed

end
