(* ===== verification/Agent_Version.thy ===== *)
theory Agent_Version
  imports JS_Strings
begin

text \<open>
  Versions as semver orders them: \<^verbatim>\<open>parseSemver\<close>, \<^verbatim>\<open>compareSemver\<close> and \<^verbatim>\<open>isOlderVersion\<close> of \<^verbatim>\<open>packages/hub/src/session/agent-retirement.ts\<close>. The regular expression is read from
  left to right: no character that may follow a part can be in it, so the parts are the longest runs. Numbers are exact, as they are in the code below \<open>2\<^sup>5\<^sup>3\<close>.
\<close>

section \<open>Reading a version\<close>

record Semver =
  smv_core :: "nat \<times> nat \<times> nat"
  smv_prerelease :: "string list"

definition id_char :: "char \<Rightarrow> bool" where
  "id_char c = (is_digit c \<or> is_upper c \<or> is_lower c \<or> c = CHR ''-'')"

definition numeric :: "string \<Rightarrow> bool" where
  "numeric s = (s \<noteq> [] \<and> list_all is_digit s)"

text \<open>A run of digits, and the rest.\<close>

definition read_number :: "string \<Rightarrow> (nat \<times> string) option" where
  "read_number s = (let ds = takeWhile is_digit s in if ds = [] then None else Some (digits_value ds, dropWhile is_digit s))"

definition read_dot :: "string \<Rightarrow> string option" where
  "read_dot s = (case s of c # r \<Rightarrow> if c = CHR ''.'' then Some r else None | [] \<Rightarrow> None)"

definition build_ok :: "string \<Rightarrow> bool" where
  "build_ok s = (case s of [] \<Rightarrow> True | c # b \<Rightarrow> c = CHR ''+'' \<and> b \<noteq> [] \<and> list_all (\<lambda>c. id_char c \<or> c = CHR ''.'') b)"

definition read_prerelease :: "string \<Rightarrow> string list option" where
  "read_prerelease s =
     (case s of
        [] \<Rightarrow> Some []
      | c # r \<Rightarrow>
          if c = CHR ''-''
          then let ids = split_on (CHR ''.'') (takeWhile (\<lambda>c. c \<noteq> CHR ''+'') r)
               in if list_all (\<lambda>p. p \<noteq> [] \<and> list_all id_char p) ids \<and> build_ok (dropWhile (\<lambda>c. c \<noteq> CHR ''+'') r) then Some ids else None
          else if build_ok s then Some [] else None)"

definition parseSemver :: "string \<Rightarrow> Semver option" where
  "parseSemver version =
     Option.bind (read_number (trim version)) (\<lambda>(major, s).
     Option.bind (read_dot s) (\<lambda>s.
     Option.bind (read_number s) (\<lambda>(minor, s).
     Option.bind (read_dot s) (\<lambda>s.
     Option.bind (read_number s) (\<lambda>(patch, s).
     map_option (\<lambda>ids. \<lparr>smv_core = (major, minor, patch), smv_prerelease = ids\<rparr>) (read_prerelease s))))))"

section \<open>Comparing\<close>

text \<open>\<^verbatim>\<open>a < b\<close> on texts, by code unit.\<close>

fun text_compare :: "string \<Rightarrow> string \<Rightarrow> int" where
  "text_compare [] [] = 0"
| "text_compare [] (y # ys) = -1"
| "text_compare (x # xs) [] = 1"
| "text_compare (x # xs) (y # ys) =
     (if of_char x < (of_char y :: nat) then -1 else if of_char y < (of_char x :: nat) then 1 else text_compare xs ys)"

definition compareIdentifiers :: "string \<Rightarrow> string \<Rightarrow> int" where
  "compareIdentifiers a b =
     (if numeric a \<and> numeric b then int (digits_value a) - int (digits_value b)
      else if numeric a then -1
      else if numeric b then 1
      else text_compare a b)"

fun compare_ids :: "string list \<Rightarrow> string list \<Rightarrow> int" where
  "compare_ids [] [] = 0"
| "compare_ids [] (y # ys) = -1"
| "compare_ids (x # xs) [] = 1"
| "compare_ids (x # xs) (y # ys) = (let d = compareIdentifiers x y in if d \<noteq> 0 then d else compare_ids xs ys)"

definition compare_core :: "nat \<times> nat \<times> nat \<Rightarrow> nat \<times> nat \<times> nat \<Rightarrow> int" where
  "compare_core a b =
     (case (a, b) of ((a1, a2, a3), (b1, b2, b3)) \<Rightarrow>
        if a1 \<noteq> b1 then int a1 - int b1 else if a2 \<noteq> b2 then int a2 - int b2 else int a3 - int b3)"

definition compareSemver :: "Semver \<Rightarrow> Semver \<Rightarrow> int" where
  "compareSemver a b =
     (let d = compare_core (smv_core a) (smv_core b)
      in if d \<noteq> 0 then d
         else if smv_prerelease a = [] \<or> smv_prerelease b = [] then int (length (smv_prerelease b)) - int (length (smv_prerelease a))
         else compare_ids (smv_prerelease a) (smv_prerelease b))"

definition isOlderVersion :: "string \<Rightarrow> string \<Rightarrow> bool" where
  "isOlderVersion running expected =
     (case (parseSemver running, parseSemver expected) of (Some a, Some b) \<Rightarrow> compareSemver a b < 0 | _ \<Rightarrow> False)"

section \<open>The order\<close>

text \<open>A comparator that orders what it compares: swapped it turns over, and \<open>\<le> 0\<close> carries over.\<close>

locale comparator =
  fixes cmp :: "'a \<Rightarrow> 'a \<Rightarrow> int"
  assumes cmp_swap: "cmp a b < 0 \<longleftrightarrow> cmp b a > 0"
    and cmp_trans: "cmp a b \<le> 0 \<Longrightarrow> cmp b c \<le> 0 \<Longrightarrow> cmp a c \<le> 0"
begin

lemma cmp_zero: "cmp a b = 0 \<longleftrightarrow> cmp b a = 0"
  using cmp_swap [of a b] cmp_swap [of b a] by linarith

lemma cmp_refl: "cmp a a = 0"
  using cmp_swap [of a a] by linarith

lemma cmp_less_trans: "cmp a b < 0 \<Longrightarrow> cmp b c \<le> 0 \<Longrightarrow> cmp a c < 0"
  using cmp_trans [of b c a] cmp_trans [of a b c] cmp_swap [of a c] cmp_swap [of a b] cmp_zero [of a c] by linarith

lemma cmp_le_less_trans: "cmp a b \<le> 0 \<Longrightarrow> cmp b c < 0 \<Longrightarrow> cmp a c < 0"
  using cmp_trans [of c a b] cmp_trans [of a b c] cmp_swap [of a c] cmp_swap [of b c] cmp_zero [of a c] by linarith

lemma cmp_zero_trans: "cmp a b = 0 \<Longrightarrow> cmp b c = 0 \<Longrightarrow> cmp a c = 0"
  using cmp_trans [of a b c] cmp_trans [of c b a] cmp_zero [of a b] cmp_zero [of b c] cmp_swap [of a c] cmp_swap [of c a] by linarith

text \<open>One comparator after another, on what the first holds equal.\<close>

lemma then_trans:
  assumes "comparator cmp'"
    and "(if cmp a b \<noteq> 0 then cmp a b else cmp' a' b') \<le> 0" "(if cmp b c \<noteq> 0 then cmp b c else cmp' b' c') \<le> 0"
  shows "(if cmp a c \<noteq> 0 then cmp a c else cmp' a' c') \<le> 0"
proof -
  have le: "cmp a b \<le> 0" "cmp b c \<le> 0" using assms(2,3) by (auto split: if_splits)
  show ?thesis
  proof (cases "cmp a b = 0 \<and> cmp b c = 0")
    case True
    then have "cmp' a' b' \<le> 0" "cmp' b' c' \<le> 0" "cmp a c = 0" using assms(2,3) cmp_zero_trans by auto
    then show ?thesis using comparator.cmp_trans [OF assms(1)] by auto
  next
    case False
    then have "cmp a c < 0" using le cmp_less_trans cmp_le_less_trans by (metis order_le_less)
    then show ?thesis by simp
  qed
qed

end

lemma text_compare_swap: "text_compare a b < 0 \<longleftrightarrow> text_compare b a > 0"
  by (induction a b rule: text_compare.induct) auto

lemma text_compare_trans: "text_compare a b \<le> 0 \<Longrightarrow> text_compare b c \<le> 0 \<Longrightarrow> text_compare a c \<le> 0"
proof (induction a b arbitrary: c rule: text_compare.induct)
  case (4 x xs y ys)
  show ?case
  proof (cases c)
    case Nil
    then show ?thesis using 4(3) by simp
  next
    case (Cons z zs)
    have le: "of_char x \<le> (of_char y :: nat)" "of_char y \<le> (of_char z :: nat)" using 4(2,3) Cons by (simp_all split: if_splits)
    show ?thesis
    proof (cases "of_char x < (of_char z :: nat)")
      case False
      with le have "of_char x = (of_char y :: nat)" "of_char y = (of_char z :: nat)" by linarith+
      then show ?thesis using 4 Cons by simp
    qed (use Cons in simp)
  qed
next
  case (2 y ys)
  then show ?case by (cases c) auto
qed auto

interpretation texts: comparator text_compare
  by unfold_locales (rule text_compare_swap, rule text_compare_trans)

interpretation idents: comparator compareIdentifiers
proof
  show "compareIdentifiers a b < 0 \<longleftrightarrow> compareIdentifiers b a > 0" for a b using texts.cmp_swap by (auto simp: compareIdentifiers_def)
  show "compareIdentifiers a b \<le> 0 \<Longrightarrow> compareIdentifiers b c \<le> 0 \<Longrightarrow> compareIdentifiers a c \<le> 0" for a b c
    using texts.cmp_trans [of a b c] by (auto simp: compareIdentifiers_def split: if_splits)
qed

lemma compare_ids_swap: "compare_ids a b < 0 \<longleftrightarrow> compare_ids b a > 0"
  by (induction a b rule: compare_ids.induct) (auto simp: Let_def idents.cmp_swap idents.cmp_zero)

lemma compare_ids_trans: "compare_ids a b \<le> 0 \<Longrightarrow> compare_ids b c \<le> 0 \<Longrightarrow> compare_ids a c \<le> 0"
proof (induction a b arbitrary: c rule: compare_ids.induct)
  case (4 x xs y ys)
  show ?case
  proof (cases c)
    case Nil
    then show ?thesis using 4 by simp
  next
    case (Cons z zs)
    have le: "compareIdentifiers x y \<le> 0" "compareIdentifiers y z \<le> 0" using 4(2,3) Cons by (auto simp: Let_def split: if_splits)
    show ?thesis
    proof (cases "compareIdentifiers x y = 0 \<and> compareIdentifiers y z = 0")
      case True
      then show ?thesis using 4 Cons idents.cmp_zero_trans by (auto simp: Let_def)
    next
      case False
      then have "compareIdentifiers x z < 0" using le idents.cmp_less_trans idents.cmp_le_less_trans by (metis order_le_less)
      then show ?thesis using Cons by simp
    qed
  qed
next
  case (2 y ys)
  then show ?case by (cases c) auto
qed auto

interpretation ids: comparator compare_ids
  by unfold_locales (rule compare_ids_swap, rule compare_ids_trans)

interpretation core: comparator compare_core
  by unfold_locales (auto simp: compare_core_def split: prod.splits if_splits)

text \<open>A pre-release comes before its release.\<close>

definition compare_prerelease :: "string list \<Rightarrow> string list \<Rightarrow> int" where
  "compare_prerelease a b = (if a = [] \<or> b = [] then int (length b) - int (length a) else compare_ids a b)"

interpretation prerelease: comparator compare_prerelease
proof
  show "compare_prerelease a b < 0 \<longleftrightarrow> compare_prerelease b a > 0" for a b using ids.cmp_swap by (auto simp: compare_prerelease_def)
  show "compare_prerelease a b \<le> 0 \<Longrightarrow> compare_prerelease b c \<le> 0 \<Longrightarrow> compare_prerelease a c \<le> 0" for a b c
    using ids.cmp_trans [of a b c] by (auto simp: compare_prerelease_def split: if_splits)
qed

lemma compareSemver_alt:
  "compareSemver a b = (if compare_core (smv_core a) (smv_core b) \<noteq> 0 then compare_core (smv_core a) (smv_core b) else compare_prerelease (smv_prerelease a) (smv_prerelease b))"
  by (simp add: compareSemver_def compare_prerelease_def Let_def)

interpretation semver: comparator compareSemver
proof
  show "compareSemver a b < 0 \<longleftrightarrow> compareSemver b a > 0" for a b
    using core.cmp_swap core.cmp_zero prerelease.cmp_swap by (auto simp: compareSemver_alt)
  show "compareSemver a b \<le> 0 \<Longrightarrow> compareSemver b c \<le> 0 \<Longrightarrow> compareSemver a c \<le> 0" for a b c
    unfolding compareSemver_alt by (rule core.then_trans [OF prerelease.comparator_axioms])
qed

lemma isOlderVersion_iff: "isOlderVersion a b \<longleftrightarrow> (\<exists>x y. parseSemver a = Some x \<and> parseSemver b = Some y \<and> compareSemver x y < 0)"
  by (auto simp: isOlderVersion_def split: option.splits)

lemma older_irrefl: "\<not> isOlderVersion v v"
  by (auto simp: isOlderVersion_iff semver.cmp_refl)

lemma older_trans: "isOlderVersion a b \<Longrightarrow> isOlderVersion b c \<Longrightarrow> isOlderVersion a c"
  unfolding isOlderVersion_iff using semver.cmp_less_trans by (metis less_imp_le option.inject)

lemma older_same:
  assumes "parseSemver a \<noteq> None" "parseSemver b \<noteq> None" "\<not> isOlderVersion a b" "\<not> isOlderVersion b a"
  shows "isOlderVersion a c \<Longrightarrow> isOlderVersion b c"
proof -
  obtain x y where p: "parseSemver a = Some x" "parseSemver b = Some y" using assms by auto
  then have "compareSemver y x \<le> 0" using assms(3) by (auto simp: isOlderVersion_iff semver.cmp_swap)
  then show "isOlderVersion a c \<Longrightarrow> isOlderVersion b c" using p semver.cmp_le_less_trans by (auto simp: isOlderVersion_iff)
qed

text \<open>
  What the hub calls older is an order of the versions. No version is older than itself, older than older is older, and two versions of which neither is older are
  of the same precedence: the same versions are newer than both. A text that is not a version is not older than anything.
\<close>

theorem older_is_an_order:
  "\<not> isOlderVersion a a \<and> (isOlderVersion a b \<and> isOlderVersion b c \<longrightarrow> isOlderVersion a c)
     \<and> (parseSemver a = None \<longrightarrow> \<not> isOlderVersion a b)
     \<and> (parseSemver a \<noteq> None \<and> parseSemver b \<noteq> None \<and> \<not> isOlderVersion a b \<and> \<not> isOlderVersion b a \<longrightarrow> isOlderVersion a c = isOlderVersion b c)"
proof (intro conjI impI)
  assume "parseSemver a \<noteq> None \<and> parseSemver b \<noteq> None \<and> \<not> isOlderVersion a b \<and> \<not> isOlderVersion b a"
  then show "isOlderVersion a c = isOlderVersion b c" using older_same by blast
next
  assume "parseSemver a = None"
  then show "\<not> isOlderVersion a b" by (simp add: isOlderVersion_iff)
qed (use older_irrefl older_trans in blast)+

theorem older_is_an_order_witness:
  "isOlderVersion ''1.2.0-rc.2'' ''1.10.0'' \<and> \<not> isOlderVersion ''1.2'' ''1.10.0''
     \<and> isOlderVersion ''1.2.0+b'' ''1.10.0'' = isOlderVersion ''1.2.0'' ''1.10.0''"
proof -
  have "isOlderVersion ''1.2.0-rc.2'' ''1.2.0-rc.10''" "isOlderVersion ''1.2.0-rc.10'' ''1.10.0''" by code_simp+
  moreover have "parseSemver ''1.2'' = None" by code_simp
  moreover have "parseSemver ''1.2.0+b'' \<noteq> None \<and> parseSemver ''1.2.0'' \<noteq> None" "\<not> isOlderVersion ''1.2.0+b'' ''1.2.0'' \<and> \<not> isOlderVersion ''1.2.0'' ''1.2.0+b''"
    by code_simp+
  ultimately show ?thesis using older_is_an_order [of "''1.2.0-rc.2''" "''1.2.0-rc.10''" "''1.10.0''"] older_is_an_order [of "''1.2''" "''1.10.0''"]
      older_is_an_order [of "''1.2.0+b''" "''1.2.0''" "''1.10.0''"] by blast
qed

end
