(* ===== verification/Agent_Retirement.thy ===== *)
theory Agent_Retirement
  imports Agent_Version Ssh_Route
begin

text \<open>
  Replacing an agent older than the hub: \<^verbatim>\<open>packages/hub/src/session/agent-retirement.ts\<close> with the request it makes, \<^verbatim>\<open>daemon-stop.ts\<close>, over what they read of the session context. A
  retirement under way is an entry of \<open>rt_pending\<close>: its STOP waits for an answer, or is settled and its continuation due, or the local agent is being started. What it asks of others is logged. The
  environment is the session manager's: a terminal starts within a \<^verbatim>\<open>startOn\<close>, its SPAWN is not sent to a host being stopped, a connection is not made to one, and another stop takes the fence only when it is free.
\<close>

section \<open>State\<close>

record AgentConn =
  ag_connected :: bool
  ag_version :: "string option"
  ag_usedRemoteDaemon :: bool
  ag_closedByHub :: bool

datatype DaemonStopOutcome =
    Stopped
  | Displaced
  | ClosedByHub
  | StopRefused string "nat option"
  | StopError string string
  | StopTimeout
  | StopUnsent string

datatype RetirementOutcome = Retired | RetireRefused string "nat option" | Unconfirmed string

datatype phase = Waiting | Settled DaemonStopOutcome | StartingLocal

record retirement =
  re_host :: host_id
  re_agent :: nat
  re_running :: string
  re_detached :: bool
  re_phase :: phase

datatype asked =
    StopSent host_id nat string bool
  | Released host_id nat
  | LocalStart host_id session_id
  | AgentClosed nat

record RetirementState =
  rt_agents :: "(host_id, nat) jmap"
  rt_conns :: "(nat, AgentConn) jmap"
  rt_channels :: "(channel_id, host_id \<times> bool) jmap"
  rt_stoppingAgents :: "host_id jset"
  rt_quitting :: bool
  rt_sessions :: "(host_id, session_id) jmap"
  rt_hosts :: "(host_id, HostType) jmap"
  rt_transfersOn :: "(host_id, nat) jmap"
  rt_underWay :: "(host_id, nat) jmap"
  rt_starts :: "(host_id, nat) jmap"
  rt_retiredVersions :: "(host_id, string) jmap"
  rt_tokens :: "(nat, host_id \<times> bool) jmap"
  rt_pending :: "(nat, retirement) jmap"
  rt_next :: nat
  rt_others :: "host_id jset"
  rt_asked :: "asked list"
  rt_outcomes :: "(nat \<times> RetirementOutcome) list"

definition initial_retirement :: "(host_id, HostType) jmap \<Rightarrow> RetirementState" where
  "initial_retirement hosts =
     \<lparr>rt_agents = [], rt_conns = [], rt_channels = [], rt_stoppingAgents = [], rt_quitting = False, rt_sessions = [], rt_hosts = hosts, rt_transfersOn = [],
      rt_underWay = [], rt_starts = [], rt_retiredVersions = [], rt_tokens = [], rt_pending = [], rt_next = 0, rt_others = [], rt_asked = [], rt_outcomes = []\<rparr>"

definition ask :: "asked \<Rightarrow> RetirementState \<Rightarrow> RetirementState" where
  "ask a s = s\<lparr>rt_asked := rt_asked s @ [a]\<rparr>"

section \<open>Asking a daemon to stop\<close>

definition upd_pending :: "nat \<Rightarrow> (retirement \<Rightarrow> retirement) \<Rightarrow> RetirementState \<Rightarrow> RetirementState" where
  "upd_pending k f s = s\<lparr>rt_pending := map (\<lambda>(k', p). (k', if k' = k then f p else p)) (rt_pending s)\<rparr>"

text \<open>\<^verbatim>\<open>finish\<close>: only the first outcome counts.\<close>

definition finish_stop :: "DaemonStopOutcome \<Rightarrow> retirement \<Rightarrow> retirement" where
  "finish_stop outcome p = (if re_phase p = Waiting then p\<lparr>re_phase := Settled outcome\<rparr> else p)"

text \<open>An ERROR of the agent about no channel; a refusal's count is read where it is one.\<close>

definition stop_error :: "string \<Rightarrow> string \<Rightarrow> nat option \<Rightarrow> DaemonStopOutcome" where
  "stop_error code message count =
     (if code = ''DISPLACED'' then Displaced else if code = ''OTHER_HUBS_HOLD_CHANNELS'' then StopRefused message count else StopError code message)"

definition on_message :: "nat \<Rightarrow> string \<Rightarrow> string \<Rightarrow> nat option \<Rightarrow> RetirementState \<Rightarrow> RetirementState" where
  "on_message agent code message count s =
     s\<lparr>rt_pending := map (\<lambda>(k, p). (k, if re_agent p = agent then finish_stop (stop_error code message count) p else p)) (rt_pending s)\<rparr>"

definition releaseAgent :: "host_id \<Rightarrow> nat \<Rightarrow> RetirementState \<Rightarrow> RetirementState" where
  "releaseAgent h agent s = (if map_get (rt_agents s) h = Some agent then s\<lparr>rt_agents := map_delete h (rt_agents s)\<rparr> else s)"

definition upd_conn :: "nat \<Rightarrow> (AgentConn \<Rightarrow> AgentConn) \<Rightarrow> RetirementState \<Rightarrow> RetirementState" where
  "upd_conn agent f s = s\<lparr>rt_conns := map (\<lambda>(a, c). (a, if a = agent then f c else c)) (rt_conns s)\<rparr>"

text \<open>The connection ended: by this hub's own doing, or the daemon stopped, and its owner lets go of it first.\<close>

definition on_close_one :: "nat \<Rightarrow> RetirementState \<Rightarrow> nat \<times> retirement \<Rightarrow> RetirementState" where
  "on_close_one agent s kp =
     (case kp of (k, p) \<Rightarrow>
        if re_agent p \<noteq> agent \<or> re_phase p \<noteq> Waiting then s
        else if rt_quitting s \<or> (case map_get (rt_conns s) agent of Some c \<Rightarrow> ag_closedByHub c | None \<Rightarrow> False)
        then upd_pending k (finish_stop ClosedByHub) s
        else upd_pending k (finish_stop Stopped)
               (ask (Released (re_host p) agent) (releaseAgent (re_host p) agent (upd_conn agent (\<lambda>c. c\<lparr>ag_closedByHub := True\<rparr>) s))))"

definition on_close :: "nat \<Rightarrow> RetirementState \<Rightarrow> RetirementState" where
  "on_close agent s = foldl (on_close_one agent) (upd_conn agent (\<lambda>c. c\<lparr>ag_connected := False\<rparr>) s) (rt_pending s)"

section \<open>Retiring\<close>

definition isUnderWay :: "host_id \<Rightarrow> RetirementState \<Rightarrow> bool" where
  "isUnderWay h s = map_has (rt_underWay s) h"

definition isStarting :: "host_id \<Rightarrow> RetirementState \<Rightarrow> bool" where
  "isStarting h s = ((case map_get (rt_starts s) h of Some n \<Rightarrow> n | None \<Rightarrow> 0) > 0)"

definition wasRetired :: "host_id \<Rightarrow> string \<Rightarrow> RetirementState \<Rightarrow> bool" where
  "wasRetired h version s = (map_get (rt_retiredVersions s) h = Some version)"

definition holds_terminal :: "host_id \<Rightarrow> RetirementState \<Rightarrow> bool" where
  "holds_terminal h s = list_ex (\<lambda>(ch, h', alive). h' = h \<and> alive) (rt_channels s)"

definition qualifies :: "string \<Rightarrow> host_id \<Rightarrow> nat \<Rightarrow> RetirementState \<Rightarrow> bool" where
  "qualifies hubVersion h agent s =
     (if rt_quitting s then False
      else if List.member (rt_stoppingAgents s) h then False
      else if isStarting h s then False
      else case map_get (rt_conns s) agent of
             None \<Rightarrow> False
           | Some c \<Rightarrow>
               if \<not> ag_connected c then False
               else case ag_version c of
                      None \<Rightarrow> False
                    | Some running \<Rightarrow>
                        if \<not> isOlderVersion running hubVersion then False
                        else if wasRetired h running s then False
                        else let kind = map_get (rt_hosts s) h
                          in if \<not> (kind = Some LocalHost \<or> (kind = Some SshHost \<and> ag_usedRemoteDaemon c)) then False
                             else if holds_terminal h s then False
                             else \<not> (kind = Some SshHost \<and> (case map_get (rt_transfersOn s) h of Some n \<Rightarrow> n | None \<Rightarrow> 0) > 0))"

text \<open>\<^verbatim>\<open>begin\<close> with \<^verbatim>\<open>retire\<close> up to its await: the fence, then the STOP, which may not be written.\<close>

definition begin_retire :: "host_id \<Rightarrow> nat \<Rightarrow> bool \<Rightarrow> string option \<Rightarrow> RetirementState \<Rightarrow> nat \<times> RetirementState" where
  "begin_retire h agent detached unsent s =
     (let running = (case map_get (rt_conns s) agent of Some c \<Rightarrow> (case ag_version c of Some v \<Rightarrow> v | None \<Rightarrow> []) | None \<Rightarrow> []);
          k = rt_next s;
          p = \<lparr>re_host = h, re_agent = agent, re_running = running, re_detached = detached, re_phase = (case unsent of None \<Rightarrow> Waiting | Some e \<Rightarrow> Settled (StopUnsent e))\<rparr>;
          s = s\<lparr>rt_stoppingAgents := set_add h (rt_stoppingAgents s), rt_underWay := map_set h k (rt_underWay s), rt_pending := map_set k p (rt_pending s), rt_next := k + 1\<rparr>
      in (k, if unsent = None then ask (StopSent h agent running False) s else s))"

definition retireIfIdle :: "string \<Rightarrow> host_id \<Rightarrow> string option \<Rightarrow> RetirementState \<Rightarrow> nat option \<times> RetirementState" where
  "retireIfIdle hubVersion h unsent s =
     (case map_get (rt_underWay s) h of
        Some k \<Rightarrow> (Some k, s)
      | None \<Rightarrow>
          (case map_get (rt_agents s) h of
             None \<Rightarrow> (None, s)
           | Some agent \<Rightarrow> if \<not> qualifies hubVersion h agent s then (None, s) else let (k, s) = begin_retire h agent False unsent s in (Some k, s)))"

definition retireDetached :: "string \<Rightarrow> host_id \<Rightarrow> nat \<Rightarrow> string option \<Rightarrow> RetirementState \<Rightarrow> bool \<times> RetirementState" where
  "retireDetached hubVersion h agent unsent s =
     (if isUnderWay h s \<or> \<not> qualifies hubVersion h agent s then (False, s) else (True, snd (begin_retire h agent True unsent s)))"

definition startOn :: "host_id \<Rightarrow> RetirementState \<Rightarrow> nat \<times> RetirementState" where
  "startOn h s =
     (rt_next s, s\<lparr>rt_starts := map_set h ((case map_get (rt_starts s) h of Some n \<Rightarrow> n | None \<Rightarrow> 0) + 1) (rt_starts s), rt_tokens := map_set (rt_next s) (h, False) (rt_tokens s),
                   rt_next := rt_next s + 1\<rparr>)"

definition end_start_on :: "string \<Rightarrow> nat \<Rightarrow> string option \<Rightarrow> RetirementState \<Rightarrow> RetirementState" where
  "end_start_on hubVersion token unsent s =
     (case map_get (rt_tokens s) token of
        None \<Rightarrow> s
      | Some (h, sent) \<Rightarrow>
          let s = s\<lparr>rt_tokens := map_delete token (rt_tokens s)\<rparr>;
              left = (case map_get (rt_starts s) h of Some n \<Rightarrow> n | None \<Rightarrow> 1) - 1
          in if left > 0 then s\<lparr>rt_starts := map_set h left (rt_starts s)\<rparr>
             else snd (retireIfIdle hubVersion h unsent (s\<lparr>rt_starts := map_delete h (rt_starts s)\<rparr>)))"

definition retirementOutcome :: "DaemonStopOutcome \<Rightarrow> RetirementOutcome" where
  "retirementOutcome stop =
     (case stop of
        Stopped \<Rightarrow> Retired
      | StopRefused message n \<Rightarrow> RetireRefused message n
      | StopError code message \<Rightarrow> Unconfirmed (code @ '': '' @ message)
      | StopUnsent message \<Rightarrow> Unconfirmed (''unsent: '' @ message)
      | Displaced \<Rightarrow> Unconfirmed ''displaced''
      | ClosedByHub \<Rightarrow> Unconfirmed ''closed_by_hub''
      | StopTimeout \<Rightarrow> Unconfirmed ''timeout'')"

text \<open>The end of a retirement: gone from the map before anyone waiting hears of it.\<close>

definition settle_retirement :: "nat \<Rightarrow> retirement \<Rightarrow> RetirementOutcome \<Rightarrow> RetirementState \<Rightarrow> RetirementState" where
  "settle_retirement k p outcome s =
     s\<lparr>rt_underWay := (if map_get (rt_underWay s) (re_host p) = Some k then map_delete (re_host p) (rt_underWay s) else rt_underWay s),
       rt_pending := map_delete k (rt_pending s), rt_outcomes := rt_outcomes s @ [(k, outcome)]\<rparr>"

text \<open>\<^verbatim>\<open>retire\<close> after its STOP is answered: the fence goes whatever the outcome.\<close>

definition resume_retire :: "nat \<Rightarrow> retirement \<Rightarrow> DaemonStopOutcome \<Rightarrow> RetirementState \<Rightarrow> RetirementState" where
  "resume_retire k p stop s =
     (let outcome = retirementOutcome stop;
          s = s\<lparr>rt_stoppingAgents := set_delete (re_host p) (rt_stoppingAgents s)\<rparr>
      in if outcome \<noteq> Retired
         then settle_retirement k p outcome (if re_detached p then ask (AgentClosed (re_agent p)) s else s)
         else let s = s\<lparr>rt_retiredVersions := map_set (re_host p) (re_running p) (rt_retiredVersions s)\<rparr>
           in case map_get (rt_sessions s) (re_host p) of
                Some sid \<Rightarrow>
                  if \<not> re_detached p \<and> \<not> rt_quitting s \<and> map_get (rt_hosts s) (re_host p) = Some LocalHost
                  then ask (LocalStart (re_host p) sid) (upd_pending k (\<lambda>p. p\<lparr>re_phase := StartingLocal\<rparr>) s)
                  else settle_retirement k p outcome s
              | None \<Rightarrow> settle_retirement k p outcome s)"

section \<open>The machine\<close>

datatype retire_event =
    EvRetireIfIdle host_id "string option"
  | EvRetireDetached host_id nat "string option"
  | EvStartOn host_id
  | EvStartEnds nat "string option"
  | EvSpawnSent nat
  | EvSpawned nat channel_id
  | EvChannelDead channel_id
  | EvAgentError nat string string "nat option"
  | EvAgentClosed nat
  | EvStopTimeout nat
  | EvStopAnswered nat
  | EvLocalStarted nat
  | EvConnected host_id nat AgentConn "channel_id list"
  | EvLetGo host_id
  | EvSession host_id "session_id option"
  | EvTransfers host_id nat
  | EvOtherStop host_id
  | EvOtherStopEnded host_id
  | EvQuit

fun rstep :: "string \<Rightarrow> RetirementState \<Rightarrow> retire_event \<Rightarrow> RetirementState" where
  "rstep hv s (EvRetireIfIdle h unsent) = snd (retireIfIdle hv h unsent s)"
| "rstep hv s (EvRetireDetached h agent unsent) = snd (retireDetached hv h agent unsent s)"
| "rstep hv s (EvStartOn h) = snd (startOn h s)"
| "rstep hv s (EvStartEnds token unsent) = end_start_on hv token unsent s"
| "rstep hv s (EvSpawnSent token) = s\<lparr>rt_tokens := map (\<lambda>(t, h, sent). (t, h, sent \<or> t = token)) (rt_tokens s)\<rparr>"
| "rstep hv s (EvSpawned token ch) =
     (case map_get (rt_tokens s) token of None \<Rightarrow> s | Some (h, sent) \<Rightarrow> s\<lparr>rt_channels := map_set ch (h, True) (rt_channels s)\<rparr>)"
| "rstep hv s (EvChannelDead ch) = s\<lparr>rt_channels := map (\<lambda>(c, h, alive). (c, h, alive \<and> c \<noteq> ch)) (rt_channels s)\<rparr>"
| "rstep hv s (EvAgentError agent code message n) = on_message agent code message n s"
| "rstep hv s (EvAgentClosed agent) = on_close agent s"
| "rstep hv s (EvStopTimeout k) = upd_pending k (finish_stop StopTimeout) s"
| "rstep hv s (EvStopAnswered k) =
     (case map_get (rt_pending s) k of None \<Rightarrow> s | Some p \<Rightarrow> (case re_phase p of Settled stop \<Rightarrow> resume_retire k p stop s | _ \<Rightarrow> s))"
| "rstep hv s (EvLocalStarted k) = (case map_get (rt_pending s) k of None \<Rightarrow> s | Some p \<Rightarrow> settle_retirement k p Retired s)"
| "rstep hv s (EvConnected h agent c chs) =
     s\<lparr>rt_agents := map_set h agent (rt_agents s), rt_conns := map_set agent c (rt_conns s), rt_channels := foldl (\<lambda>m ch. map_set ch (h, True) m) (rt_channels s) chs\<rparr>"
| "rstep hv s (EvLetGo h) = s\<lparr>rt_agents := map_delete h (rt_agents s)\<rparr>"
| "rstep hv s (EvSession h sid) = s\<lparr>rt_sessions := (case sid of None \<Rightarrow> map_delete h (rt_sessions s) | Some i \<Rightarrow> map_set h i (rt_sessions s))\<rparr>"
| "rstep hv s (EvTransfers h n) = s\<lparr>rt_transfersOn := map_set h n (rt_transfersOn s)\<rparr>"
| "rstep hv s (EvOtherStop h) = s\<lparr>rt_stoppingAgents := set_add h (rt_stoppingAgents s), rt_others := set_add h (rt_others s)\<rparr>"
| "rstep hv s (EvOtherStopEnded h) = s\<lparr>rt_stoppingAgents := set_delete h (rt_stoppingAgents s), rt_others := set_delete h (rt_others s)\<rparr>"
| "rstep hv s EvQuit = s\<lparr>rt_quitting := True\<rparr>"

text \<open>
  What may come. A SPAWN goes out within a start, to a host that is not being stopped, and only a terminal whose SPAWN went out starts. A connection, and the terminals found over it, is made to no host
  being stopped. A promise settles while it waits.
\<close>

fun renabled :: "RetirementState \<Rightarrow> retire_event \<Rightarrow> bool" where
  "renabled s (EvSpawnSent token) = (case map_get (rt_tokens s) token of Some (h, sent) \<Rightarrow> h \<notin> set (rt_stoppingAgents s) | None \<Rightarrow> False)"
| "renabled s (EvSpawned token ch) = (case map_get (rt_tokens s) token of Some (h, sent) \<Rightarrow> sent | None \<Rightarrow> False)"
| "renabled s (EvStopTimeout k) = (case map_get (rt_pending s) k of Some p \<Rightarrow> re_phase p = Waiting | None \<Rightarrow> False)"
| "renabled s (EvStopAnswered k) = (case map_get (rt_pending s) k of Some p \<Rightarrow> (case re_phase p of Settled _ \<Rightarrow> True | _ \<Rightarrow> False) | None \<Rightarrow> False)"
| "renabled s (EvLocalStarted k) = (case map_get (rt_pending s) k of Some p \<Rightarrow> re_phase p = StartingLocal | None \<Rightarrow> False)"
| "renabled s (EvConnected h agent c chs) = (h \<notin> set (rt_stoppingAgents s) \<and> \<not> map_has (rt_conns s) agent)"
| "renabled s (EvOtherStop h) = (h \<notin> set (rt_stoppingAgents s))"
| "renabled s (EvOtherStopEnded h) = (h \<in> set (rt_others s))"
| "renabled s _ = True"

section \<open>The invariant\<close>

text \<open>The hosts a retirement has the fence of: its STOP is not answered, or its answer not yet acted on.\<close>

definition fenced :: "RetirementState \<Rightarrow> host_id set" where
  "fenced s = {re_host p | k p. map_get (rt_pending s) k = Some p \<and> re_phase p \<noteq> StartingLocal}"

definition starts_on :: "host_id \<Rightarrow> RetirementState \<Rightarrow> nat" where
  "starts_on h s = length (filter (\<lambda>(t, h', sent). h' = h) (rt_tokens s))"

definition pending_ok :: "RetirementState \<Rightarrow> bool" where
  "pending_ok s \<longleftrightarrow> (\<forall>k p. map_get (rt_pending s) k = Some p \<longrightarrow> k < rt_next s \<and> map_get (rt_underWay s) (re_host p) = Some k)
     \<and> (\<forall>h k. map_get (rt_underWay s) h = Some k \<longrightarrow> (\<exists>p. map_get (rt_pending s) k = Some p \<and> re_host p = h))"

definition fence_ok :: "RetirementState \<Rightarrow> bool" where
  "fence_ok s \<longleftrightarrow> set (rt_stoppingAgents s) = fenced s \<union> set (rt_others s) \<and> fenced s \<inter> set (rt_others s) = {}"

definition idle_ok :: "RetirementState \<Rightarrow> bool" where
  "idle_ok s \<longleftrightarrow> (\<forall>h \<in> fenced s. \<not> holds_terminal h s \<and> (\<forall>t. (t, h, True) \<notin> set (rt_tokens s)))"

definition starts_ok :: "RetirementState \<Rightarrow> bool" where
  "starts_ok s \<longleftrightarrow> map_ok (rt_tokens s) \<and> (\<forall>t. map_has (rt_tokens s) t \<longrightarrow> t < rt_next s)
     \<and> (\<forall>h. map_get (rt_starts s) h = (if starts_on h s = 0 then None else Some (starts_on h s)))"

definition ret_ok :: "RetirementState \<Rightarrow> bool" where
  "ret_ok s \<longleftrightarrow> pending_ok s \<and> fence_ok s \<and> idle_ok s \<and> starts_ok s"

lemma ret_ok_parts: "ret_ok s \<Longrightarrow> pending_ok s" "ret_ok s \<Longrightarrow> fence_ok s" "ret_ok s \<Longrightarrow> idle_ok s" "ret_ok s \<Longrightarrow> starts_ok s"
  by (simp_all add: ret_ok_def)

lemma ret_ok_cong:
  assumes "rt_pending s' = rt_pending s" "rt_underWay s' = rt_underWay s" "rt_stoppingAgents s' = rt_stoppingAgents s" "rt_others s' = rt_others s"
    "rt_channels s' = rt_channels s" "rt_tokens s' = rt_tokens s" "rt_starts s' = rt_starts s" "rt_next s' = rt_next s"
  shows "ret_ok s' = ret_ok s"
  unfolding ret_ok_def pending_ok_def fence_ok_def idle_ok_def starts_ok_def fenced_def starts_on_def holds_terminal_def assms ..

lemma ret_ok_frame [simp]:
  "ret_ok (s\<lparr>rt_agents := a\<rparr>) = ret_ok s" "ret_ok (s\<lparr>rt_conns := c\<rparr>) = ret_ok s" "ret_ok (s\<lparr>rt_quitting := q\<rparr>) = ret_ok s" "ret_ok (s\<lparr>rt_sessions := ss\<rparr>) = ret_ok s"
  "ret_ok (s\<lparr>rt_transfersOn := t\<rparr>) = ret_ok s" "ret_ok (s\<lparr>rt_retiredVersions := v\<rparr>) = ret_ok s" "ret_ok (s\<lparr>rt_asked := l\<rparr>) = ret_ok s" "ret_ok (s\<lparr>rt_outcomes := os\<rparr>) = ret_ok s"
  "ret_ok (ask x s) = ret_ok s" "ret_ok (upd_conn agent f s) = ret_ok s" "ret_ok (releaseAgent h agent s) = ret_ok s"
  by (rule ret_ok_cong; simp add: ask_def upd_conn_def releaseAgent_def)+

text \<open>What keeps the host of each retirement, and whether its STOP is done with, keeps the invariant.\<close>

declare map_get_map [simp]

lemma ret_ok_map:
  assumes "ret_ok s" and f: "\<And>k p. re_host (f k p) = re_host p" "\<And>k p. re_phase (f k p) = StartingLocal \<longleftrightarrow> re_phase p = StartingLocal"
  shows "ret_ok (s\<lparr>rt_pending := map (\<lambda>(k, p). (k, f k p)) (rt_pending s)\<rparr>)" (is "ret_ok ?s")
proof -
  have "fenced ?s = {re_host (f k p) | k p. map_get (rt_pending s) k = Some p \<and> re_phase (f k p) \<noteq> StartingLocal}" by (auto simp: fenced_def)
  then have fen: "fenced ?s = fenced s" by (simp add: fenced_def f)
  have "pending_ok ?s" using ret_ok_parts(1) [OF assms(1)] by (auto simp: pending_ok_def f) (metis f(1))
  moreover have "fence_ok ?s" using ret_ok_parts(2) [OF assms(1)] by (simp add: fence_ok_def fen)
  moreover have "idle_ok ?s" using ret_ok_parts(3) [OF assms(1)] by (simp add: idle_ok_def fen holds_terminal_def)
  moreover have "starts_ok ?s" using ret_ok_parts(4) [OF assms(1)] by (simp add: starts_ok_def starts_on_def)
  ultimately show ?thesis by (simp add: ret_ok_def)
qed

lemma finish_stop_keeps [simp]: "re_host (finish_stop r p) = re_host p" "re_phase (finish_stop r p) = StartingLocal \<longleftrightarrow> re_phase p = StartingLocal"
  by (simp_all add: finish_stop_def)

lemma ret_ok_finish: "ret_ok s \<Longrightarrow> ret_ok (upd_pending k (finish_stop r) s)"
  unfolding upd_pending_def by (rule ret_ok_map) simp_all

lemma ret_ok_on_message: "ret_ok s \<Longrightarrow> ret_ok (on_message agent code message n s)"
  unfolding on_message_def by (rule ret_ok_map) simp_all

lemma ret_ok_on_close: "ret_ok s \<Longrightarrow> ret_ok (on_close agent s)"
  unfolding on_close_def by (rule foldl_inv) (auto simp: on_close_one_def intro!: ret_ok_finish split: prod.splits option.splits)

lemma starts_on_none: "starts_ok s \<Longrightarrow> \<not> isStarting h s \<Longrightarrow> (t, h, sent) \<notin> set (rt_tokens s)"
  by (force simp: starts_ok_def isStarting_def starts_on_def filter_empty_conv split: if_splits)

lemma qualifies_idle: "qualifies hv h agent s \<Longrightarrow> h \<notin> set (rt_stoppingAgents s) \<and> \<not> isStarting h s \<and> \<not> holds_terminal h s"
  by (auto simp: qualifies_def Let_def split: if_splits option.splits)

lemma ret_ok_begin:
  assumes ok: "ret_ok s" and "qualifies hv h agent s" "map_get (rt_underWay s) h = None"
  shows "ret_ok (snd (begin_retire h agent detached unsent s))"
proof -
  define p where "p = \<lparr>re_host = h, re_agent = agent, re_running = (case map_get (rt_conns s) agent of Some c \<Rightarrow> (case ag_version c of Some v \<Rightarrow> v | None \<Rightarrow> []) | None \<Rightarrow> []),
      re_detached = detached, re_phase = (case unsent of None \<Rightarrow> Waiting | Some e \<Rightarrow> Settled (StopUnsent e))\<rparr>"
  define s' where "s' = s\<lparr>rt_stoppingAgents := set_add h (rt_stoppingAgents s), rt_underWay := map_set h (rt_next s) (rt_underWay s),
      rt_pending := map_set (rt_next s) p (rt_pending s), rt_next := rt_next s + 1\<rparr>"
  note old = ret_ok_parts [OF ok]
  have idle: "h \<notin> set (rt_stoppingAgents s)" "\<not> isStarting h s" "\<not> holds_terminal h s" using qualifies_idle [OF assms(2)] by auto
  have p: "re_host p = h" "re_phase p \<noteq> StartingLocal" by (auto simp: p_def split: option.splits)
  have new: "map_get (rt_pending s) (rt_next s) = None" using old(1) by (cases "map_get (rt_pending s) (rt_next s)") (auto simp: pending_ok_def)
  have fen: "fenced s' = insert h (fenced s)" using p new by (auto simp: fenced_def s'_def) (metis option.distinct(1))
  have A: "k < rt_next s \<and> map_get (rt_underWay s) (re_host q) = Some k" if "map_get (rt_pending s) k = Some q" for k q using that old(1) by (simp add: pending_ok_def)
  have B: "\<exists>q. map_get (rt_pending s) k = Some q \<and> re_host q = h'" if "map_get (rt_underWay s) h' = Some k" for k h' using that old(1) by (simp add: pending_ok_def)
  have "k < rt_next s' \<and> map_get (rt_underWay s') (re_host q) = Some k" if "map_get (rt_pending s') k = Some q" for k q
    using that A [of k q] p assms(3) by (auto simp: s'_def split: if_splits)
  moreover have "\<exists>q. map_get (rt_pending s') k = Some q \<and> re_host q = h'" if "map_get (rt_underWay s') h' = Some k" for k h'
    using that B [of h' k] p new by (auto simp: s'_def split: if_splits)
  ultimately have "pending_ok s'" unfolding pending_ok_def by blast
  moreover have "fence_ok s'" using old(2) fen idle(1) by (auto simp: fence_ok_def s'_def)
  moreover have "idle_ok s'" using old(3,4) fen idle starts_on_none [of s h] by (auto simp: idle_ok_def s'_def holds_terminal_def)
  moreover have "starts_ok s'" using old(4) by (auto simp: starts_ok_def s'_def starts_on_def)
  ultimately have "ret_ok s'" by (simp add: ret_ok_def)
  then show ?thesis by (cases unsent) (simp_all add: begin_retire_def Let_def s'_def p_def)
qed

lemma ret_ok_retireIfIdle: "ret_ok s \<Longrightarrow> ret_ok (snd (retireIfIdle hv h unsent s))"
  using ret_ok_begin [of s hv h _ False unsent] by (auto simp: retireIfIdle_def case_prod_unfold Let_def split: option.splits)

lemma ret_ok_retireDetached: "ret_ok s \<Longrightarrow> ret_ok (snd (retireDetached hv h agent unsent s))"
  using ret_ok_begin [of s hv h agent True unsent] by (auto simp: retireDetached_def isUnderWay_def map_has_def)

lemma map_set_new: "\<not> map_has m k \<Longrightarrow> map_set k v m = m @ [(k, v)]"
  by (rule map_set_append) (auto simp: map_has_def map_get_def dest: weak_map_of_SomeI)

lemma ret_ok_startOn:
  assumes "ret_ok s"
  shows "ret_ok (snd (startOn h s))" (is "ret_ok ?s")
proof -
  note old = ret_ok_parts [OF assms]
  have "\<not> map_has (rt_tokens s) (rt_next s)" using old(4) by (auto simp: starts_ok_def)
  then have tok: "rt_tokens ?s = rt_tokens s @ [(rt_next s, h, False)]" by (simp add: startOn_def map_set_new)
  have on: "starts_on h' ?s = starts_on h' s + (if h' = h then 1 else 0)" for h' by (simp add: starts_on_def tok)
  have "pending_ok ?s" using old(1) by (auto simp: pending_ok_def startOn_def less_Suc_eq)
  moreover have "fence_ok ?s" using old(2) by (simp add: fence_ok_def fenced_def startOn_def)
  moreover have "idle_ok ?s" using old(3) by (simp add: idle_ok_def fenced_def holds_terminal_def tok) (simp add: startOn_def)
  moreover have "map_ok (rt_tokens ?s) \<and> (\<forall>t. map_has (rt_tokens ?s) t \<longrightarrow> t < rt_next ?s)" using old(4) by (auto simp: starts_ok_def startOn_def less_Suc_eq)
  moreover have "map_get (rt_starts ?s) h' = (if starts_on h' ?s = 0 then None else Some (starts_on h' ?s))" for h'
    unfolding on using old(4) by (auto simp: starts_ok_def startOn_def)
  ultimately show ?thesis by (simp add: ret_ok_def starts_ok_def)
qed

lemma starts_on_delete:
  assumes "map_ok m" "map_get m token = Some (h, sent)"
  shows "length (filter (\<lambda>(t, h', sent). h' = g) (map_delete token m)) = length (filter (\<lambda>(t, h', sent). h' = g) m) - (if g = h then 1 else 0)"
  using assms
proof (induction m)
  case (Cons x m)
  obtain t h' b where x: "x = (t, h', b)" by (metis prod_cases3)
  show ?case
  proof (cases "t = token")
    case True
    then have "\<not> map_has m token" using Cons.prems(1) x by (force simp: map_ok_def map_has_def map_get_def dest: map_of_SomeD)
    then have "map_delete token (x # m) = m" using True x map_delete_absent [of m token] by (simp add: map_delete_def)
    then show ?thesis using True x Cons.prems(2) by auto
  next
    case False
    then have "map_get m token = Some (h, sent)" "map_ok m" using Cons.prems x by (auto simp: map_ok_def)
    moreover from this(1) have "(token, h, sent) \<in> set m" by (rule map_get_in_set)
    then have "0 < length (filter (\<lambda>(t, h', sent). h' = h) m)" by (auto simp: filter_empty_conv)
    ultimately show ?thesis using Cons.IH False x by (auto simp: map_delete_def)
  qed
qed simp

lemma ret_ok_end_start_on:
  assumes "ret_ok s"
  shows "ret_ok (end_start_on hv token unsent s)"
proof (cases "map_get (rt_tokens s) token")
  case None
  then show ?thesis using assms by (simp add: end_start_on_def)
next
  case (Some x)
  obtain h sent where x: "x = (h, sent)" by fastforce
  note old = ret_ok_parts [OF assms]
  define s' where "s' = s\<lparr>rt_tokens := map_delete token (rt_tokens s),
      rt_starts := (let left = (case map_get (rt_starts s) h of Some n \<Rightarrow> n | None \<Rightarrow> 1) - 1 in if left > 0 then map_set h left (rt_starts s) else map_delete h (rt_starts s))\<rparr>"
  have on: "starts_on g s' = starts_on g s - (if g = h then 1 else 0)" for g
    using starts_on_delete [of "rt_tokens s" token h sent g] old(4) Some x by (simp add: starts_on_def s'_def starts_ok_def)
  have "pending_ok s'" using old(1) by (simp add: pending_ok_def s'_def)
  moreover have "fence_ok s'" using old(2) by (simp add: fence_ok_def fenced_def s'_def)
  moreover have "idle_ok s'" using old(3) by (auto simp: idle_ok_def fenced_def holds_terminal_def s'_def map_delete_def)
  moreover have "map_ok (rt_tokens s') \<and> (\<forall>t. map_has (rt_tokens s') t \<longrightarrow> t < rt_next s')" using old(4) by (simp add: starts_ok_def s'_def)
  moreover have "map_get (rt_starts s') g = (if starts_on g s' = 0 then None else Some (starts_on g s'))" for g
    unfolding on using old(4) by (auto simp: starts_ok_def s'_def Let_def)
  ultimately have "ret_ok s'" by (simp add: ret_ok_def starts_ok_def)
  then show ?thesis using Some x ret_ok_retireIfIdle by (simp add: end_start_on_def s'_def Let_def split: if_splits)
qed

text \<open>A retirement whose STOP is done with lets the fence of its host go; then it ends.\<close>

definition unfence :: "nat \<Rightarrow> retirement \<Rightarrow> RetirementState \<Rightarrow> RetirementState" where
  "unfence k p s = upd_pending k (\<lambda>p. p\<lparr>re_phase := StartingLocal\<rparr>) (s\<lparr>rt_stoppingAgents := set_delete (re_host p) (rt_stoppingAgents s)\<rparr>)"

lemma pending_host: "pending_ok s \<Longrightarrow> map_get (rt_pending s) k = Some p \<Longrightarrow> map_get (rt_pending s) j = Some q \<Longrightarrow> re_host q = re_host p \<Longrightarrow> j = k"
  by (metis pending_ok_def option.inject)

lemma ret_ok_unfence:
  assumes "ret_ok s" "map_get (rt_pending s) k = Some p" "re_phase p \<noteq> StartingLocal"
  shows "ret_ok (unfence k p s)" (is "ret_ok ?s")
proof -
  note old = ret_ok_parts [OF assms(1)]
  have get: "map_get (rt_pending ?s) j = (if j = k then Some (p\<lparr>re_phase := StartingLocal\<rparr>) else map_get (rt_pending s) j)" for j
    using assms(2) by (simp add: unfence_def upd_pending_def) (cases "map_get (rt_pending s) j"; simp)
  have host: "re_host p \<in> fenced s" using assms(2,3) by (auto simp: fenced_def)
  have A: "j < rt_next s \<and> map_get (rt_underWay s) (re_host q) = Some j" if "map_get (rt_pending s) j = Some q" for j q using that old(1) by (simp add: pending_ok_def)
  have B: "\<exists>q. map_get (rt_pending s) j = Some q \<and> re_host q = h" if "map_get (rt_underWay s) h = Some j" for j h using that old(1) by (simp add: pending_ok_def)
  have only: "j = k" if "map_get (rt_pending s) j = Some q" "re_host q = re_host p" for j q
    by (rule pending_host [OF old(1) assms(2) that])
  have rest: "rt_underWay ?s = rt_underWay s" "rt_next ?s = rt_next s" "rt_stoppingAgents ?s = set_delete (re_host p) (rt_stoppingAgents s)" "rt_others ?s = rt_others s"
    "rt_channels ?s = rt_channels s" "rt_tokens ?s = rt_tokens s" "rt_starts ?s = rt_starts s"
    by (simp_all add: unfence_def upd_pending_def)
  have fen: "fenced ?s = fenced s - {re_host p}"
  proof (rule set_eqI)
    fix h
    have "h \<in> fenced ?s \<longleftrightarrow> (\<exists>j q. j \<noteq> k \<and> map_get (rt_pending s) j = Some q \<and> re_phase q \<noteq> StartingLocal \<and> h = re_host q)"
      unfolding fenced_def get by (auto split: if_splits)
    also have "\<dots> \<longleftrightarrow> h \<in> fenced s - {re_host p}"
    proof
      assume "\<exists>j q. j \<noteq> k \<and> map_get (rt_pending s) j = Some q \<and> re_phase q \<noteq> StartingLocal \<and> h = re_host q"
      then obtain j q where "j \<noteq> k" "map_get (rt_pending s) j = Some q" "re_phase q \<noteq> StartingLocal" "h = re_host q" by blast
      moreover from this have "h \<noteq> re_host p" using only [of j q] by auto
      ultimately show "h \<in> fenced s - {re_host p}" unfolding fenced_def by blast
    next
      assume "h \<in> fenced s - {re_host p}"
      then obtain j q where q: "map_get (rt_pending s) j = Some q" "re_phase q \<noteq> StartingLocal" "h = re_host q" "h \<noteq> re_host p" unfolding fenced_def by blast
      then have "j \<noteq> k" using assms(2) by auto
      then show "\<exists>j q. j \<noteq> k \<and> map_get (rt_pending s) j = Some q \<and> re_phase q \<noteq> StartingLocal \<and> h = re_host q" using q by blast
    qed
    finally show "h \<in> fenced ?s \<longleftrightarrow> h \<in> fenced s - {re_host p}" .
  qed
  have "j < rt_next ?s \<and> map_get (rt_underWay ?s) (re_host q) = Some j" if "map_get (rt_pending ?s) j = Some q" for j q
    using that A [of j] A [OF assms(2)] by (auto simp: get rest split: if_splits)
  moreover have "\<exists>q. map_get (rt_pending ?s) j = Some q \<and> re_host q = h" if "map_get (rt_underWay ?s) h = Some j" for j h
    using B [of h j] that assms(2) by (auto simp: get rest)
  ultimately have "pending_ok ?s" unfolding pending_ok_def by blast
  moreover have "fence_ok ?s" using old(2) host unfolding fence_ok_def fen rest by auto
  moreover have "idle_ok ?s" using old(3) unfolding idle_ok_def holds_terminal_def fen rest by auto
  moreover have "starts_ok ?s" using old(4) unfolding starts_ok_def starts_on_def rest .
  ultimately show ?thesis by (simp add: ret_ok_def)
qed

lemma ret_ok_settle:
  assumes "ret_ok s" "map_get (rt_pending s) k = Some p" "re_phase p = StartingLocal"
  shows "ret_ok (settle_retirement k p r s)" (is "ret_ok ?s")
proof -
  note old = ret_ok_parts [OF assms(1)]
  have under: "map_get (rt_underWay s) (re_host p) = Some k" using old(1) assms(2) by (simp add: pending_ok_def)
  have fen: "fenced ?s = fenced s" unfolding fenced_def settle_retirement_def using assms(2,3) by auto (metis option.inject)
  have "k' < rt_next ?s \<and> map_get (rt_underWay ?s) (re_host q) = Some k'" if "map_get (rt_pending ?s) k' = Some q" for k' q
    using that old(1) under pending_host [OF old(1) assms(2)] by (auto simp: pending_ok_def settle_retirement_def split: if_splits)
  moreover have "\<exists>q. map_get (rt_pending ?s) k' = Some q \<and> re_host q = h" if w: "map_get (rt_underWay ?s) h = Some k'" for h k'
  proof -
    have h: "h \<noteq> re_host p" "map_get (rt_underWay s) h = Some k'" using w under by (auto simp: settle_retirement_def split: if_splits)
    then obtain q where q: "map_get (rt_pending s) k' = Some q" "re_host q = h" using old(1) unfolding pending_ok_def by blast
    then have "k' \<noteq> k" using h(1) assms(2) by auto
    then show ?thesis using q by (simp add: settle_retirement_def)
  qed
  ultimately have "pending_ok ?s" unfolding pending_ok_def by blast
  moreover have "fence_ok ?s" using old(2) fen by (simp add: fence_ok_def) (simp add: settle_retirement_def)
  moreover have "idle_ok ?s" using old(3) fen by (simp add: idle_ok_def holds_terminal_def) (simp add: settle_retirement_def)
  moreover have "starts_ok ?s" using old(4) by (simp add: starts_ok_def starts_on_def settle_retirement_def)
  ultimately show ?thesis by (simp add: ret_ok_def)
qed

lemma settle_unfenced:
  assumes "ret_ok s" "map_get (rt_pending s) k = Some p" "re_phase p \<noteq> StartingLocal"
  shows "ret_ok (settle_retirement k p r (s\<lparr>rt_stoppingAgents := set_delete (re_host p) (rt_stoppingAgents s)\<rparr>))" (is "ret_ok (settle_retirement k p r ?s)")
proof -
  have "ret_ok (settle_retirement k (p\<lparr>re_phase := StartingLocal\<rparr>) r (unfence k p s))"
    by (rule ret_ok_settle [OF ret_ok_unfence [OF assms]]) (use assms(2) in \<open>simp_all add: unfence_def upd_pending_def\<close>)
  moreover have "map_delete k (map (\<lambda>(k', p). (k', if k' = k then f p else p)) m) = map_delete k m" for f :: "retirement \<Rightarrow> retirement" and m
    by (induction m) (auto simp: map_delete_def)
  moreover have "map_get (rt_underWay s) (re_host p) = Some k" using assms(1,2) by (simp add: ret_ok_def pending_ok_def)
  ultimately show ?thesis by (simp add: settle_retirement_def unfence_def upd_pending_def)
qed

lemma settle_frame:
  "ret_ok (settle_retirement k p r (ask x s)) = ret_ok (settle_retirement k p r s)"
  "ret_ok (settle_retirement k p r (s\<lparr>rt_retiredVersions := v\<rparr>)) = ret_ok (settle_retirement k p r s)"
  by (rule ret_ok_cong; simp add: settle_retirement_def ask_def)+

lemma ret_ok_resume:
  assumes "ret_ok s" "map_get (rt_pending s) k = Some p" "re_phase p = Settled stop"
  shows "ret_ok (resume_retire k p stop s)"
proof -
  have ph: "re_phase p \<noteq> StartingLocal" using assms(3) by simp
  note settle = settle_unfenced [OF assms(1,2) ph]
  have "upd_pending k (\<lambda>p. p\<lparr>re_phase := StartingLocal\<rparr>) (s\<lparr>rt_stoppingAgents := set_delete (re_host p) (rt_stoppingAgents s), rt_retiredVersions := v\<rparr>)
      = (unfence k p s)\<lparr>rt_retiredVersions := v\<rparr>" for v
    by (simp add: unfence_def upd_pending_def)
  then show ?thesis using settle ret_ok_unfence [OF assms(1,2) ph]
    by (auto simp: resume_retire_def Let_def settle_frame split: option.splits)
qed

lemma ret_ok_tokens:
  assumes "ret_ok s" "map_get (rt_tokens s) token = Some (h, sent)" "h \<notin> set (rt_stoppingAgents s)"
  shows "ret_ok (s\<lparr>rt_tokens := map (\<lambda>(t, h, sent). (t, h, sent \<or> t = token)) (rt_tokens s)\<rparr>)" (is "ret_ok (s\<lparr>rt_tokens := ?m\<rparr>)")
proof -
  note old = ret_ok_parts [OF assms(1)]
  have on: "length (filter (\<lambda>(t, h', sent). h' = g) ?m) = length (filter (\<lambda>(t, h', sent). h' = g) (rt_tokens s))" for g
    by (simp add: filter_map comp_def case_prod_unfold)
  have keys: "map fst ?m = map fst (rt_tokens s)" by (simp add: comp_def case_prod_unfold)
  have "map_has (map (\<lambda>(t, h, sent). (t, h, sent \<or> t = token)) m) t = map_has m t" for m :: "(nat, host_id \<times> bool) jmap" and t
    by (induction m) (auto simp: map_has_def map_get_def)
  moreover have "map_ok ?m" using old(4) unfolding starts_ok_def map_ok_def keys by blast
  ultimately have "starts_ok (s\<lparr>rt_tokens := ?m\<rparr>)" using old(4) on by (simp add: starts_ok_def starts_on_def)
  moreover have "h' \<noteq> h" if "h' \<in> fenced s" for h' using that old(2) assms(3) by (auto simp: fence_ok_def)
  then have "idle_ok (s\<lparr>rt_tokens := ?m\<rparr>)"
    using old(3) unfolding idle_ok_def
  proof (intro ballI conjI allI)
    fix h' t
    assume nh: "\<And>h'. h' \<in> fenced s \<Longrightarrow> h' \<noteq> h" and h': "h' \<in> fenced (s\<lparr>rt_tokens := ?m\<rparr>)"
      and idle: "\<forall>h\<in>fenced s. \<not> holds_terminal h s \<and> (\<forall>t. (t, h, True) \<notin> set (rt_tokens s))"
    have h'': "h' \<in> fenced s" using h' by (simp add: fenced_def)
    show "\<not> holds_terminal h' (s\<lparr>rt_tokens := ?m\<rparr>)" using idle h'' by (simp add: holds_terminal_def)
    show "(t, h', True) \<notin> set (rt_tokens (s\<lparr>rt_tokens := ?m\<rparr>))"
    proof
      assume "(t, h', True) \<in> set (rt_tokens (s\<lparr>rt_tokens := ?m\<rparr>))"
      then obtain b where b: "(t, h', b) \<in> set (rt_tokens s)" "b \<or> t = token" by auto
      then have "t = token" using idle h'' by (cases b) auto
      moreover have "map_get (rt_tokens s) t = Some (h', b)" using b(1) old(4) by (simp add: in_set_map_get starts_ok_def)
      ultimately show False using assms(2) nh [OF h''] by simp
    qed
  qed
  ultimately show ?thesis using old by (simp add: ret_ok_def pending_ok_def fence_ok_def fenced_def)
qed

lemma ret_ok_channels:
  assumes "ret_ok s" and "\<And>h. h \<in> fenced s \<Longrightarrow> \<not> list_ex (\<lambda>(ch, h', alive). h' = h \<and> alive) m"
  shows "ret_ok (s\<lparr>rt_channels := m\<rparr>)"
  using assms by (simp add: ret_ok_def pending_ok_def fence_ok_def idle_ok_def starts_ok_def fenced_def starts_on_def holds_terminal_def)

lemma alive_set: "list_ex (\<lambda>(ch, h', alive). h' = h \<and> alive) (map_set c (g, True) m) \<Longrightarrow> h = g \<or> list_ex (\<lambda>(ch, h', alive). h' = h \<and> alive) m"
  by (induction m) (auto split: if_splits)

lemma alive_sets: "list_ex (\<lambda>(ch, h', alive). h' = h \<and> alive) (foldl (\<lambda>m ch. map_set ch (g, True) m) m chs) \<Longrightarrow> h = g \<or> list_ex (\<lambda>(ch, h', alive). h' = h \<and> alive) m"
  by (induction chs arbitrary: m) (auto dest: alive_set)

lemma fenced_idle: "ret_ok s \<Longrightarrow> h \<in> fenced s \<Longrightarrow> \<not> list_ex (\<lambda>(ch, h', alive). h' = h \<and> alive) (rt_channels s) \<and> h \<in> set (rt_stoppingAgents s) \<and> h \<notin> set (rt_others s) \<and> (t, h, True) \<notin> set (rt_tokens s)"
  by (auto simp: ret_ok_def fence_ok_def idle_ok_def holds_terminal_def)

lemma ret_ok_other:
  assumes "ret_ok s" and "h \<notin> fenced s" and "set l = insert h (set (rt_stoppingAgents s)) \<and> set o' = insert h (set (rt_others s))
     \<or> set l = set (rt_stoppingAgents s) - {h} \<and> set o' = set (rt_others s) - {h}"
  shows "ret_ok (s\<lparr>rt_stoppingAgents := l, rt_others := o'\<rparr>)"
  (is "ret_ok ?s")
proof -
  note old = ret_ok_parts [OF assms(1)]
  have fen: "fenced ?s = fenced s" by (simp add: fenced_def)
  have "fence_ok ?s" using old(2) assms(2,3) unfolding fence_ok_def fen by auto
  moreover have "idle_ok ?s" using old(3) unfolding idle_ok_def fen by (simp add: holds_terminal_def)
  ultimately show ?thesis using old(1,4) by (simp add: ret_ok_def pending_ok_def starts_ok_def starts_on_def)
qed

lemma ret_ok_step:
  assumes "ret_ok s" "renabled s e"
  shows "ret_ok (rstep hv s e)"
proof (cases e)
  case (EvSpawned token ch)
  then obtain h where tok: "map_get (rt_tokens s) token = Some (h, True)" using assms(2) by (auto split: option.splits)
  have "(token, h, True) \<in> set (rt_tokens s)" using tok by (rule map_get_in_set)
  then have "h' \<noteq> h" if "h' \<in> fenced s" for h' using fenced_idle [OF assms(1) that, of token] by auto
  then show ?thesis using EvSpawned tok fenced_idle [OF assms(1)] by (auto intro!: ret_ok_channels [OF assms(1)] dest!: alive_set)
next
  case (EvChannelDead ch)
  show ?thesis unfolding EvChannelDead rstep.simps
    by (rule ret_ok_channels [OF assms(1)]) (drule fenced_idle [OF assms(1)], force simp: list_ex_iff)
next
  case (EvConnected h agent c chs)
  have "h' \<noteq> h" if "h' \<in> fenced s" for h' using fenced_idle [OF assms(1) that] assms(2) EvConnected by auto
  then have "ret_ok (s\<lparr>rt_channels := foldl (\<lambda>m ch. map_set ch (h, True) m) (rt_channels s) chs\<rparr>)"
    using fenced_idle [OF assms(1)] by (auto intro!: ret_ok_channels [OF assms(1)] dest!: alive_sets)
  then show ?thesis unfolding EvConnected rstep.simps by (subst ret_ok_cong) simp_all
next
  case (EvOtherStop h)
  then show ?thesis using assms fenced_idle [OF assms(1), of h] by (auto intro!: ret_ok_other)
next
  case (EvOtherStopEnded h)
  then show ?thesis using assms fenced_idle [OF assms(1), of h] by (auto intro!: ret_ok_other)
qed (use assms in \<open>auto intro: ret_ok_retireIfIdle ret_ok_retireDetached ret_ok_startOn ret_ok_end_start_on ret_ok_tokens ret_ok_on_message ret_ok_on_close ret_ok_finish ret_ok_resume ret_ok_settle
  split: option.splits phase.splits\<close>)


interpretation retirements: event_machine "initial_retirement hosts" renabled "rstep hv" ret_ok for hosts hv
proof
  show "ret_ok (initial_retirement hosts)"
    by (simp add: initial_retirement_def ret_ok_def pending_ok_def fence_ok_def idle_ok_def starts_ok_def fenced_def starts_on_def map_ok_def)
qed (rule ret_ok_step)

section \<open>Who is stopped\<close>

text \<open>What a step may log of a STOP: the agent was asked because it qualified.\<close>

lemma begin_asks: "rt_asked (snd (begin_retire h agent detached unsent s)) =
    rt_asked s @ (if unsent = None then [StopSent h agent (case map_get (rt_conns s) agent of Some c \<Rightarrow> (case ag_version c of Some v \<Rightarrow> v | None \<Rightarrow> []) | None \<Rightarrow> []) False] else [])"
  by (simp add: begin_retire_def Let_def ask_def)

definition stop_of :: "asked \<Rightarrow> bool" where
  "stop_of a = (case a of StopSent _ _ _ _ \<Rightarrow> True | _ \<Rightarrow> False)"

definition stops :: "RetirementState \<Rightarrow> asked list" where
  "stops s = filter stop_of (rt_asked s)"

lemma stops_frame [simp]:
  "stops (upd_pending k f s) = stops s" "stops (upd_conn a g s) = stops s" "stops (releaseAgent h a s) = stops s" "stops (settle_retirement k p r s) = stops s"
  "stops (ask (Released h a) s) = stops s" "stops (ask (LocalStart h i) s) = stops s" "stops (ask (AgentClosed a) s) = stops s"
  "stops (s\<lparr>rt_stoppingAgents := l\<rparr>) = stops s" "stops (s\<lparr>rt_retiredVersions := v\<rparr>) = stops s" "stops (s\<lparr>rt_pending := m\<rparr>) = stops s" "stops (s\<lparr>rt_tokens := t\<rparr>) = stops s"
  "stops (s\<lparr>rt_starts := st\<rparr>) = stops s" "stops (s\<lparr>rt_next := n\<rparr>) = stops s" "stops (s\<lparr>rt_channels := ch\<rparr>) = stops s" "stops (s\<lparr>rt_agents := ag\<rparr>) = stops s"
  "stops (s\<lparr>rt_conns := cs\<rparr>) = stops s" "stops (s\<lparr>rt_sessions := ss\<rparr>) = stops s" "stops (s\<lparr>rt_transfersOn := tr\<rparr>) = stops s" "stops (s\<lparr>rt_others := os\<rparr>) = stops s"
  "stops (s\<lparr>rt_quitting := q\<rparr>) = stops s"
  by (simp_all add: stops_def stop_of_def upd_pending_def upd_conn_def releaseAgent_def settle_retirement_def ask_def)

lemma stops_on_close [simp]: "stops (on_close agent s) = stops s"
proof -
  have "stops (on_close_one agent s' kp) = stops s'" for s' kp by (simp add: on_close_one_def split: prod.splits)
  then have "stops (foldl (on_close_one agent) s' kps) = stops s'" for s' kps by (induction kps arbitrary: s') simp_all
  then show ?thesis by (simp add: on_close_def)
qed

lemma stops_on_message [simp]: "stops (on_message agent code message n s) = stops s"
  by (simp add: on_message_def)

lemma stops_resume [simp]: "stops (resume_retire k p stop s) = stops s"
  by (simp add: resume_retire_def Let_def split: option.splits)

lemma qualifiesD:
  assumes "qualifies hv h agent s"
  obtains c v where "map_get (rt_conns s) agent = Some c" "ag_connected c" "ag_version c = Some v" "isOlderVersion v hv" "\<not> wasRetired h v s"
    "\<not> rt_quitting s" "h \<notin> set (rt_stoppingAgents s)" "\<not> isStarting h s" "\<not> holds_terminal h s"
    "map_get (rt_hosts s) h = Some LocalHost \<or> map_get (rt_hosts s) h = Some SshHost \<and> ag_usedRemoteDaemon c \<and> (case map_get (rt_transfersOn s) h of Some n \<Rightarrow> n = 0 | None \<Rightarrow> True)"
  using assms by (auto simp: qualifies_def Let_def split: if_splits option.splits)

text \<open>The conditions a STOP is sent under.\<close>

definition may_stop :: "string \<Rightarrow> host_id \<Rightarrow> nat \<Rightarrow> string \<Rightarrow> RetirementState \<Rightarrow> bool" where
  "may_stop hv h agent v s =
     (isOlderVersion v hv \<and> \<not> wasRetired h v s \<and> \<not> rt_quitting s \<and> h \<notin> set (rt_stoppingAgents s) \<and> \<not> holds_terminal h s
      \<and> (\<exists>c. map_get (rt_conns s) agent = Some c \<and> ag_connected c \<and> ag_version c = Some v
           \<and> (map_get (rt_hosts s) h = Some LocalHost
              \<or> map_get (rt_hosts s) h = Some SshHost \<and> ag_usedRemoteDaemon c \<and> (case map_get (rt_transfersOn s) h of Some n \<Rightarrow> n = 0 | None \<Rightarrow> True))))"

text \<open>After a STOP is sent its host is fenced, and nothing is starting there.\<close>

definition stop_cleared :: "host_id \<Rightarrow> RetirementState \<Rightarrow> bool" where
  "stop_cleared h s = (h \<in> set (rt_stoppingAgents s) \<and> \<not> isStarting h s)"

lemma begin_clears: "\<not> isStarting h s \<Longrightarrow> stop_cleared h (snd (begin_retire h agent detached unsent s))"
  by (simp add: begin_retire_def Let_def ask_def stop_cleared_def isStarting_def)

lemma stops_begin:
  assumes "qualifies hv h agent s"
  obtains v where "may_stop hv h agent v s" "stop_cleared h (snd (begin_retire h agent detached unsent s))" "stops (snd (begin_retire h agent detached unsent s)) = stops s @ (if unsent = None then [StopSent h agent v False] else [])"
proof -
  obtain c v where c: "map_get (rt_conns s) agent = Some c" "ag_version c = Some v" and may: "may_stop hv h agent v s" "\<not> isStarting h s"
    using assms by (rule qualifiesD) (auto simp: may_stop_def)
  have "stops (snd (begin_retire h agent detached unsent s)) = stops s @ (if unsent = None then [StopSent h agent v False] else [])"
    by (simp add: stops_def begin_asks c stop_of_def)
  with may(1) begin_clears [OF may(2)] show thesis by (rule that)
qed

lemma stops_retireIfIdle:
  "stops (snd (retireIfIdle hv h unsent s)) = stops s
   \<or> (\<exists>agent v. map_get (rt_agents s) h = Some agent \<and> may_stop hv h agent v s \<and> stop_cleared h (snd (retireIfIdle hv h unsent s)) \<and> stops (snd (retireIfIdle hv h unsent s)) = stops s @ [StopSent h agent v False])"
proof (cases "map_get (rt_underWay s) h")
  case None
  show ?thesis
  proof (cases "map_get (rt_agents s) h")
    case (Some agent)
    show ?thesis
    proof (cases "qualifies hv h agent s")
      case True
      obtain v where "may_stop hv h agent v s" "stop_cleared h (snd (begin_retire h agent False unsent s))" "stops (snd (begin_retire h agent False unsent s)) = stops s @ (if unsent = None then [StopSent h agent v False] else [])"
        using stops_begin [OF True] .
      then show ?thesis using None Some True by (auto simp: retireIfIdle_def Let_def case_prod_unfold)
    qed (simp add: retireIfIdle_def None Some)
  qed (simp add: retireIfIdle_def None)
qed (simp add: retireIfIdle_def)

lemma stops_retireDetached:
  "stops (snd (retireDetached hv h agent unsent s)) = stops s
   \<or> (\<exists>v. may_stop hv h agent v s \<and> stop_cleared h (snd (retireDetached hv h agent unsent s)) \<and> stops (snd (retireDetached hv h agent unsent s)) = stops s @ [StopSent h agent v False])"
proof (cases "isUnderWay h s \<or> \<not> qualifies hv h agent s")
  case False
  then obtain v where "may_stop hv h agent v s" "stop_cleared h (snd (begin_retire h agent True unsent s))" "stops (snd (begin_retire h agent True unsent s)) = stops s @ (if unsent = None then [StopSent h agent v False] else [])"
    using stops_begin [of hv h agent s True unsent] by blast
  then show ?thesis using False by (auto simp: retireDetached_def)
qed (simp add: retireDetached_def)

lemma stops_end_start_on:
  assumes "map_get (rt_tokens s) token = Some (h, sent)" "map_get (rt_starts s) h = Some n" "stops (end_start_on hv token unsent s) \<noteq> stops s"
  shows "\<exists>agent v. may_stop hv h agent v s \<and> stop_cleared h (end_start_on hv token unsent s) \<and> stops (end_start_on hv token unsent s) = stops s @ [StopSent h agent v False]"
proof -
  define s' where "s' = s\<lparr>rt_tokens := map_delete token (rt_tokens s), rt_starts := map_delete h (rt_starts s)\<rparr>"
  have same: "stops s' = stops s" "\<And>agent v. may_stop hv h agent v s' = may_stop hv h agent v s"
    by (simp_all add: s'_def stops_def may_stop_def wasRetired_def holds_terminal_def)
  have "n - 1 = 0"
  proof (rule ccontr)
    assume "n - 1 \<noteq> 0"
    then have "stops (end_start_on hv token unsent s) = stops s" using assms(1,2) by (simp add: end_start_on_def Let_def)
    then show False using assms(3) by simp
  qed
  then have "end_start_on hv token unsent s = snd (retireIfIdle hv h unsent s')" using assms(1,2) by (simp add: end_start_on_def s'_def)
  then show ?thesis using stops_retireIfIdle [of hv h unsent s'] assms(3) same by auto
qed

lemma step_stops:
  assumes "ret_ok s" "stops (rstep hv s e) \<noteq> stops s"
  shows "\<exists>h agent v. stops (rstep hv s e) = stops s @ [StopSent h agent v False] \<and> may_stop hv h agent v s \<and> stop_cleared h (rstep hv s e)"
proof (cases e)
  case (EvRetireIfIdle h unsent)
  then show ?thesis using stops_retireIfIdle [of hv h unsent s] assms(2) by auto
next
  case (EvRetireDetached h agent unsent)
  then show ?thesis using stops_retireDetached [of hv h agent unsent s] assms(2) by auto
next
  case (EvStartEnds token unsent)
  then obtain h sent where tok: "map_get (rt_tokens s) token = Some (h, sent)"
    using assms(2) by (cases "map_get (rt_tokens s) token") (auto simp: end_start_on_def)
  then have "(token, h, sent) \<in> set (rt_tokens s)" by (rule map_get_in_set)
  then have "starts_on h s \<noteq> 0" by (auto simp: starts_on_def filter_empty_conv)
  then obtain n where "map_get (rt_starts s) h = Some n" using ret_ok_parts(4) [OF assms(1)] by (simp add: starts_ok_def)
  then show ?thesis using stops_end_start_on [OF tok, of n hv unsent] assms(2) EvStartEnds by auto
qed (use assms(2) in \<open>auto simp: startOn_def split: option.splits phase.splits\<close>)

text \<open>An older agent of the local host, a terminal that starts on it and ends, then the STOP.\<close>

definition old_agent :: AgentConn where
  "old_agent = \<lparr>ag_connected = True, ag_version = Some ''0.1.0'', ag_usedRemoteDaemon = False, ag_closedByHub = False\<rparr>"

definition retiring_run :: "retire_event list" where
  "retiring_run = [EvConnected ''local'' 1 old_agent [], EvSession ''local'' (Some ''s1''), EvStartOn ''local'', EvSpawnSent 0, EvSpawned 0 ''ch'', EvStartEnds 0 None, EvChannelDead ''ch'']"

section \<open>Properties\<close>

text \<open>
  C9: A STOP goes only to an idle agent older than the hub. In every run, a step sends no STOP or exactly one, without force, to an agent that is connected and said a version older than the hub's by the
  order of versions; it is the daemon of the local host, or of an SSH host to which no upload runs, no agent of that version was stopped there before, the hub is not quitting and nothing else is
  stopping that host; and the hub holds no terminal there, nor is one starting. The host is fenced as it is sent.
\<close>

theorem stop_only_when_idle:
  assumes "runs renabled (rstep hv) (initial_retirement hosts) (es @ [e])"
    and "s = foldl (rstep hv) (initial_retirement hosts) es" and "s' = rstep hv s e"
  shows "stops s' = stops s
    \<or> (\<exists>h agent v. stops s' = stops s @ [StopSent h agent v False] \<and> may_stop hv h agent v s \<and> h \<in> set (rt_stoppingAgents s') \<and> (\<forall>t sent. (t, h, sent) \<notin> set (rt_tokens s')))"
proof -
  have ok: "ret_ok s" using assms(1,2) by (simp add: retirements.inv_every_prefix)
  have "ret_ok s'" using retirements.inv_run [OF assms(1)] assms(2,3) by simp
  then have "\<not> isStarting h s' \<Longrightarrow> (t, h, sent) \<notin> set (rt_tokens s')" for h t sent by (rule starts_on_none [OF ret_ok_parts(4)])
  then show ?thesis using step_stops [OF ok, of hv e] unfolding assms(3) stop_cleared_def by blast
qed

theorem stop_only_when_idle_witness:
  "let s = foldl (rstep ''0.2.0'') (initial_retirement [(''local'', LocalHost)]) retiring_run; s' = rstep ''0.2.0'' s (EvRetireIfIdle ''local'' None)
   in stops s = [] \<and> stops s' = [StopSent ''local'' 1 ''0.1.0'' False]
      \<and> (\<exists>h agent v. stops s' = stops s @ [StopSent h agent v False] \<and> may_stop ''0.2.0'' h agent v s \<and> h \<in> set (rt_stoppingAgents s') \<and> (\<forall>t sent. (t, h, sent) \<notin> set (rt_tokens s')))"
proof -
  define s where "s = foldl (rstep ''0.2.0'') (initial_retirement [(''local'', LocalHost)]) retiring_run"
  have run: "runs renabled (rstep ''0.2.0'') (initial_retirement [(''local'', LocalHost)]) (retiring_run @ [EvRetireIfIdle ''local'' None])" by code_simp
  have a: "stops s = []" unfolding s_def by code_simp
  have b: "stops (rstep ''0.2.0'' s (EvRetireIfIdle ''local'' None)) = [StopSent ''local'' 1 ''0.1.0'' False]" unfolding s_def by code_simp
  show ?thesis unfolding Let_def s_def [symmetric] using stop_only_when_idle [OF run s_def refl] a b by simp
qed

text \<open>
  C8: A retirement ends no terminal of this hub. In every run, while a retirement has not acted on the answer to its STOP, its host is fenced by it alone and the hub holds no live terminal there, nor one
  whose SPAWN is out; a host is fenced by nothing but a retirement or another stop; and a host has one retirement at a time, the one the map of those under way has.
\<close>

theorem retirement_spares_terminals:
  assumes "runs renabled (rstep hv) (initial_retirement hosts) es" and "s = foldl (rstep hv) (initial_retirement hosts) es"
  shows "(\<forall>h \<in> fenced s. h \<in> set (rt_stoppingAgents s) \<and> h \<notin> set (rt_others s) \<and> \<not> holds_terminal h s \<and> (\<forall>t. (t, h, True) \<notin> set (rt_tokens s)))
    \<and> set (rt_stoppingAgents s) = fenced s \<union> set (rt_others s)
    \<and> (\<forall>h. isUnderWay h s \<longleftrightarrow> (\<exists>!k. \<exists>p. map_get (rt_pending s) k = Some p \<and> re_host p = h))"
proof -
  have ok: "ret_ok s" using retirements.inv_run [OF assms(1)] assms(2) by simp
  have "isUnderWay h s \<longleftrightarrow> (\<exists>!k. \<exists>p. map_get (rt_pending s) k = Some p \<and> re_host p = h)" for h
  proof
    assume "isUnderWay h s"
    then obtain k where "map_get (rt_underWay s) h = Some k" by (auto simp: isUnderWay_def map_has_def)
    then obtain p where "map_get (rt_pending s) k = Some p" "re_host p = h" using ret_ok_parts(1) [OF ok] unfolding pending_ok_def by blast
    then show "\<exists>!k. \<exists>p. map_get (rt_pending s) k = Some p \<and> re_host p = h" using pending_host [OF ret_ok_parts(1) [OF ok]] by blast
  next
    assume "\<exists>!k. \<exists>p. map_get (rt_pending s) k = Some p \<and> re_host p = h"
    then obtain k p where "map_get (rt_pending s) k = Some p" "re_host p = h" by blast
    then have "map_get (rt_underWay s) h = Some k" using ret_ok_parts(1) [OF ok] unfolding pending_ok_def by blast
    then show "isUnderWay h s" by (simp add: isUnderWay_def map_has_def)
  qed
  then show ?thesis using ok by (auto simp: ret_ok_def fence_ok_def idle_ok_def)
qed

theorem retirement_spares_terminals_witness:
  "let s = foldl (rstep ''0.2.0'') (initial_retirement [(''local'', LocalHost)]) (retiring_run @ [EvRetireIfIdle ''local'' None])
   in isUnderWay ''local'' s \<and> ''local'' \<in> fenced s \<and> \<not> holds_terminal ''local'' s \<and> (\<exists>!k. \<exists>p. map_get (rt_pending s) k = Some p \<and> re_host p = ''local'')"
proof -
  define s where "s = foldl (rstep ''0.2.0'') (initial_retirement [(''local'', LocalHost)]) (retiring_run @ [EvRetireIfIdle ''local'' None])"
  have run: "runs renabled (rstep ''0.2.0'') (initial_retirement [(''local'', LocalHost)]) (retiring_run @ [EvRetireIfIdle ''local'' None])" by code_simp
  have a: "isUnderWay ''local'' s" "rt_others s = []" "rt_stoppingAgents s = [''local'']" unfolding s_def by code_simp+
  show ?thesis unfolding Let_def s_def [symmetric] using retirement_spares_terminals [OF run s_def] a by auto
qed



end
