(* ===== verification/Spec2Isabelle.thy ===== *)
theory Spec2Isabelle
  imports Framing Validation Write_Lock_Store Tab_Manager Acquisition Prompt_Context Output_Chunker Spool_GC Send_Queue
    Snapshot_Scheduler Pane_Geometry Waiting_Answer Upload_Tree Known_Hosts Pairing Host_Copies Upload_Link Agent_Retirement
begin

text \<open>
  Lasterm is a terminal that keeps running: a hub (\<^verbatim>\<open>packages/hub\<close>) talks to agents that own the shells of local and
  remote hosts, stores what they print, and serves web and desktop clients (\<^verbatim>\<open>packages/clients\<close>) over WebSocket; wire formats,
  entities and validation are shared (\<^verbatim>\<open>packages/shared\<close>). This library models the parts that carry its own logic, one theory
  per component, and proves what makes each correct. This theory imports them all.

  \<^bold>\<open>How the code is modelled.\<close> A TypeScript \<open>Map\<close> or \<open>Set\<close> is an association list or a list in insertion order
  (\<open>jmap\<close>, \<open>jset\<close> in \<open>Lasterm_Prelude\<close>, with the lookup laws as the locale \<open>map_store\<close>). A class with fields is a record,
  a method a function from the state before to the state after. A send, a broadcast, a resolved
  promise is an entry of a log in the state. A timer is a flag or an entry, and its expiry an event that
  is enabled while it runs. Ids, times, and answers of code that is not in the repository (MessagePack, JSON, SQLite's
  vacuum, whether a socket or an agent is connected) are arguments. A component driven by events is a step function with the
  events its environment may deliver; \<open>event_machine\<close> is the contract that an invariant kept by each step holds in every run,
  and each such component interprets it on its own definitions.

  \<^bold>\<open>Wire formats.\<close> \<open>Wire_Codec\<close> (\<^verbatim>\<open>shared/src/codec.ts\<close>): keys to snake case and back, messages through MessagePack.
  \<open>Framing\<close> (\<^verbatim>\<open>shared/src/framing.ts\<close>, \<^verbatim>\<open>hub/src/session/hello-seeker.ts\<close>): length-prefixed frames, the incremental reader, and
  the search for the first HELLO after a shell's prelude. Frames read back whatever the chunking of the
  stream, the buffer is bounded, and the seeker gives up only when no HELLO can come. \<open>Validation\<close> (\<^verbatim>\<open>shared/src/validation.ts\<close>): what the accepted shells,
  paths, sizes and names are.

  \<^bold>\<open>Sessions.\<close> \<open>Write_Lock\<close> and \<open>Write_Lock_Clients\<close> (\<^verbatim>\<open>hub/src/session/write-lock.ts\<close>, \<^verbatim>\<open>ws/handlers/write-lock.ts\<close>): who may type, the grace kept for
  a window that left, and what clients are told. \<open>Write_Lock_Store\<close> (\<^verbatim>\<open>clients/web/src/stores/writelock.ts\<close>, the route of \<^verbatim>\<open>ws/ws-handler.ts\<close>): the hub and its windows together, messages on their way included; what a
  window sees is the hub's lock, and an ATTACH answered after its window left leaves the lock with nobody. \<open>Acquisition\<close> (\<^verbatim>\<open>session-acquisition.ts\<close>): leases on a connection to a host being made, and
  its reaping. \<open>Prompt_Context\<close> (\<^verbatim>\<open>prompt-context.ts\<close>): questions routed to clients, moved when one leaves, answered at most once. \<open>Send_Queue\<close>
  (\<^verbatim>\<open>send-queue.ts\<close>): frames under backpressure. \<open>Snapshot_Scheduler\<close> (\<^verbatim>\<open>snapshot-scheduler.ts\<close>): when a screen is asked for. \<open>Agent_Version\<close> and \<open>Agent_Retirement\<close>
  (\<^verbatim>\<open>agent-retirement.ts\<close>, \<^verbatim>\<open>daemon-stop.ts\<close>): the order of versions, each of its layers an interpretation of \<open>comparator\<close>, and the replacement of an agent older than the hub, which ends no terminal of this hub
  and always lets its host go.

  \<^bold>\<open>Stored output.\<close> \<open>Spool\<close> (\<^verbatim>\<open>storage/spool.ts\<close>): the table of chunks and its queries, and the interface \<open>output_store\<close> of a writer.
  \<open>Output_Chunker\<close> (\<^verbatim>\<open>output-chunker.ts\<close>, and the attach payload of \<^verbatim>\<open>channel-lifecycle-manager.ts\<close>): output is buffered, written without a collision of
  seqs, and replayed on attach. \<open>Spool_GC\<close> (\<^verbatim>\<open>spool-gc.ts\<close>): what a pass keeps, proved equal to a specification though it deletes in batches
  and walks in pages; its loops are total functions with their measures.

  \<^bold>\<open>The web client.\<close> \<open>Pane_Tree\<close>, \<open>Pane_Layout\<close>, \<open>Tab_Manager\<close> (\<^verbatim>\<open>composables/usePaneTree.ts\<close>, \<^verbatim>\<open>useTabManager.ts\<close>): tabs and the panes they are split into.
  \<open>Pane_Geometry\<close> (\<^verbatim>\<open>utils/pane-geometry.ts\<close>): where panes are and what the arrows do. \<open>Exit_Action\<close> and \<open>Waiting_Answer\<close> (\<^verbatim>\<open>utils/exit-action.ts\<close>,
  \<^verbatim>\<open>utils/pane-cover.ts\<close>, \<^verbatim>\<open>composables/useWaitingAnswer.ts\<close>): what a pane does when its terminal ends.

  \<^bold>\<open>Files and uploads.\<close> \<open>JS_Strings\<close>: the functions on texts the hub's parsers use, and the interface \<open>separated\<close> of a format cut at a
  separator. \<open>Host_Paths\<close> (\<^verbatim>\<open>hub/src/files/host-paths.ts\<close>): the one form of a path a client names on a host, POSIX or Windows. \<open>Upload_Tree\<close> (\<^verbatim>\<open>hub/src/transfers/upload-tree.ts\<close>, the
  names of \<^verbatim>\<open>shared/src/transfer-protocol.ts\<close>): the check of a whole upload, the exact condition it is accepted under, and the tree it builds.
  The life of an upload (\<^verbatim>\<open>hub/src/transfers/transfer-service.ts\<close>) is eight theories: \<open>Transfer_Items\<close> has the state and the synchronous steps, \<open>Transfer_Tasks\<close>
  what each awaited answer of the host leads to, \<open>Transfer_Service\<close> the start of an upload up to its acceptance, and \<open>Transfer_Machine\<close> what windows ask, the chunks
  they send, the pump and the flush, as one step function over any interleaving of requests, answers and timers. \<open>Transfer_Counts\<close>, \<open>Transfer_Steady\<close> and \<open>Transfer_Safety\<close> prove operation
  by operation the invariant of a run: counts are exact, a replacement was asked for, a window sends within its limit. \<open>Transfer_Runs\<close> has the properties, and
  runs that break what the service means to keep. \<open>Upload_Send\<close> (\<^verbatim>\<open>clients/web/src/utils/upload-send.ts\<close>) is the loop of a window that sends a file, over the interface \<open>chunk_host\<close> of what takes its chunks;
  \<open>Upload_Link\<close> interprets it on the transfer service behind its route (\<^verbatim>\<open>hub/src/api/transfers.ts\<close>), so that a file said to be sent is on the host.

  \<^bold>\<open>Trust.\<close> \<open>Known_Hosts\<close> (\<^verbatim>\<open>hub/src/ssh/known-hosts.ts\<close>): what OpenSSH's files say of a key. \<open>Auth_Tokens\<close> (\<^verbatim>\<open>hub/src/auth.ts\<close>, the hook of \<^verbatim>\<open>server.ts\<close>, \<^verbatim>\<open>api/tokens.ts\<close>):
  credentials over the hub's restarts and the gate on REST requests. \<open>Pairing\<close> (\<^verbatim>\<open>api/pair.ts\<close> and its two tables): codes redeemed once and in time, and a bound on guesses.

  \<^bold>\<open>Hosts.\<close> \<open>Ssh_Route\<close> (\<^verbatim>\<open>hub/src/ssh-route.ts\<close>, \<^verbatim>\<open>session/proxy-jump.ts\<close>): how a host is reached, and the text a route is known by. \<open>Host_Store\<close> (\<^verbatim>\<open>storage/hosts-dal.ts\<close>): the
  tables of hosts and groups. \<open>Host_Pins\<close>: a key is given only for the route it was pinned for, whatever is edited in between. \<open>Host_Copies\<close>: a copy of a host is made, under a free
  label, right after its original, and trusts nothing.

  \<^bold>\<open>Bounds.\<close> A loop of the code is structural recursion, a \<open>function\<close> with its measure, or, for the search of a free label in \<open>Host_Store\<close>, a
  partial function proved to return. Only the walks over the tree of an upload carry fuel, its number of items: \<open>above_chained\<close> and \<open>walk_exact\<close> in \<open>Transfer_Counts\<close> show that it
  is enough. Texts are ASCII in
  the theories over \<open>JS_Strings\<close>, so a character is one code unit and one byte. Numbers are unbounded where the code's stay below
  \<open>2\<^sup>5\<^sup>3\<close>, and bytes are words of 8 bits.

  \<^bold>\<open>Not modelled.\<close> The Rust crates (the agent, locks, TLS identity) and the desktop shell are other languages. The Vue components render and wire events. SSH transport,
  agent deployment and launch, and the session manager that drives them are I/O against ssh2 and processes; the models take what they report as events. Of
  the transfer service, resuming, discarding, expiry, the restoring of uploads at a start and what meta.db keeps of them are left: the hub modelled is one without a store. The stores of the web client, configuration and themes, the other tables of the meta store, the CLI, logging,
  and start-up are not modelled yet or are I/O; the manifest lists each with its reason.
\<close>

end
